(* ===== verification/Prelude.thy ===== *)
theory Prelude
  imports Main "HOL-Library.Word"
begin

text \<open>
  Shared vocabulary of the development: the machine types of the Go code, the slice
  operations the code performs on byte buffers, and the lemma collections the component
  theories fill.

  \<^item> \<open>slice lo hi xs\<close> is the Go slice expression \<open>xs[lo:hi]\<close> for \<open>lo \<le> hi \<le> len(xs)\<close>.
  \<^item> \<open>put_at off bs xs\<close> is \<open>copy(xs[off:], bs)\<close> for \<open>off + len(bs) \<le> len(xs)\<close>.

  Nothing here is specific to the program; the collections are
  \<open>layout\<close> (the numeric constants of the on-disk format), \<open>view\<close> (how the regions of a disk
  react to the primitive writes) and \<open>go_run\<close> (evaluation of the outcome monad).
\<close>

unbundle bit_operations_syntax

named_theorems layout
named_theorems view
named_theorems go_run

type_synonym u8 = "8 word"
type_synonym u16 = "16 word"
type_synonym u32 = "32 word"
type_synonym u64 = "64 word"

section \<open>Slices of a buffer\<close>

definition slice :: "nat \<Rightarrow> nat \<Rightarrow> 'a list \<Rightarrow> 'a list" where
  "slice lo hi xs = take (hi - lo) (drop lo xs)"

definition put_at :: "nat \<Rightarrow> 'a list \<Rightarrow> 'a list \<Rightarrow> 'a list" where
  "put_at off bs xs = take off xs @ bs @ drop (off + length bs) xs"

lemma length_slice [simp]: "hi \<le> length xs \<Longrightarrow> length (slice lo hi xs) = hi - lo"
  by (simp add: slice_def)

lemma slice_full [simp]: "slice 0 (length xs) xs = xs"
  by (simp add: slice_def)

lemma slice_all: "n = length xs \<Longrightarrow> slice 0 n xs = xs"
  by simp

lemma nth_slice: "lo + i < hi \<Longrightarrow> hi \<le> length xs \<Longrightarrow> slice lo hi xs ! i = xs ! (lo + i)"
  by (simp add: slice_def)

lemma slice_slice:
  assumes "lo + b \<le> hi"
  shows "slice a b (slice lo hi xs) = slice (lo + a) (lo + b) xs"
proof -
  have "min (b - a) (hi - lo - a) = b - a" using assms by simp
  then show ?thesis
    by (simp add: slice_def drop_take add.commute)
qed

lemma slice_append_left: "hi \<le> length xs \<Longrightarrow> slice lo hi (xs @ ys) = slice lo hi xs"
  by (cases "lo \<le> hi") (simp_all add: slice_def)

lemma slice_append_right:
  "length xs \<le> lo \<Longrightarrow> slice lo hi (xs @ ys) = slice (lo - length xs) (hi - length xs) ys"
  by (simp add: slice_def)

lemma slice_Cons: "0 < lo \<Longrightarrow> slice lo hi (x # xs) = slice (lo - 1) (hi - 1) xs"
  using slice_append_right[of "[x]" lo hi xs] by simp

lemma slice_append_slice:
  "a \<le> b \<Longrightarrow> b \<le> c \<Longrightarrow> slice a b xs @ slice b c xs = slice a c xs"
proof -
  assume "a \<le> b" "b \<le> c"
  then have c: "c - a = (b - a) + (c - b)" and b: "drop b xs = drop (b - a) (drop a xs)"
    by simp_all
  show ?thesis
    unfolding slice_def c b take_add ..
qed

lemma slice_replicate [simp]: "hi \<le> n \<Longrightarrow> slice lo hi (replicate n x) = replicate (hi - lo) x"
  by (simp add: slice_def min_def)

lemma length_put_at [simp]:
  "off + length bs \<le> length xs \<Longrightarrow> length (put_at off bs xs) = length xs"
  by (simp add: put_at_def)

lemma nth_put_at:
  assumes "off + length bs \<le> length xs" "i < length xs"
  shows "put_at off bs xs ! i =
    (if off \<le> i \<and> i < off + length bs then bs ! (i - off) else xs ! i)"
  using assms by (auto simp: put_at_def nth_append not_less)

lemma put_at_Nil [simp]: "put_at off [] xs = xs"
  by (simp add: put_at_def)

lemma put_at_all: "length bs = length xs \<Longrightarrow> put_at 0 bs xs = bs"
  by (simp add: put_at_def)

lemma slice_put_at_same:
  "off + length bs \<le> length xs \<Longrightarrow> hi = off + length bs \<Longrightarrow> slice off hi (put_at off bs xs) = bs"
  by (simp add: slice_def put_at_def)

lemma slice_put_at_within:
  "off + length bs \<le> length xs \<Longrightarrow> off \<le> lo \<Longrightarrow> hi \<le> off + length bs \<Longrightarrow>
   slice lo hi (put_at off bs xs) = slice (lo - off) (hi - off) bs"
  by (simp add: slice_def put_at_def)

lemma slice_put_at_before:
  "off + length bs \<le> length xs \<Longrightarrow> hi \<le> off \<Longrightarrow> slice lo hi (put_at off bs xs) = slice lo hi xs"
  by (cases "lo \<le> hi") (simp_all add: slice_def put_at_def drop_take)

lemma slice_put_at_after:
  assumes "off + length bs \<le> length xs" "off + length bs \<le> lo"
  shows "slice lo hi (put_at off bs xs) = slice lo hi xs"
proof -
  have "drop lo (put_at off bs xs) = drop lo xs"
    using assms by (simp add: put_at_def)
  then show ?thesis by (simp add: slice_def)
qed

lemma slice_put_at_disjoint:
  "off + length bs \<le> length xs \<Longrightarrow> hi \<le> off \<or> off + length bs \<le> lo \<Longrightarrow>
   slice lo hi (put_at off bs xs) = slice lo hi xs"
  by (auto simp: slice_put_at_before slice_put_at_after)

lemma slice_put_at_inside:
  \<comment> \<open>the written range lies inside the slice\<close>
  assumes "lo \<le> off" "off + length bs \<le> hi" "hi \<le> length xs"
  shows "slice lo hi (put_at off bs xs) = put_at (off - lo) bs (slice lo hi xs)"
  using assms by (intro nth_equalityI) (auto simp: nth_slice nth_put_at add.commute)

lemma put_at_slice_self: "lo \<le> hi \<Longrightarrow> hi \<le> length xs \<Longrightarrow> put_at lo (slice lo hi xs) xs = xs"
  by (intro nth_equalityI) (auto simp: nth_put_at nth_slice)

lemma put_at_put_at_same:
  "length as = length bs \<Longrightarrow> off + length bs \<le> length xs \<Longrightarrow>
   put_at off bs (put_at off as xs) = put_at off bs xs"
  by (intro nth_equalityI) (auto simp: nth_put_at)

lemma put_at_commute:
  "a + length as \<le> b \<Longrightarrow> b + length bs \<le> length xs \<Longrightarrow>
   put_at a as (put_at b bs xs) = put_at b bs (put_at a as xs)"
  by (intro nth_equalityI) (auto simp: nth_put_at)

lemma put_at_append:
  "off + length as + length bs \<le> length xs \<Longrightarrow>
   put_at (off + length as) bs (put_at off as xs) = put_at off (as @ bs) xs"
  by (intro nth_equalityI) (auto simp: nth_put_at nth_append)

lemma take_put_at:
  "off + length bs \<le> n \<Longrightarrow> n \<le> length xs \<Longrightarrow> take n (put_at off bs xs) = put_at off bs (take n xs)"
  by (intro nth_equalityI) (auto simp: nth_put_at)

lemma put_at_update: "i < length xs \<Longrightarrow> put_at i [x] xs = xs[i := x]"
  by (intro nth_equalityI) (auto simp: nth_put_at nth_list_update)

section \<open>A buffer filled by consecutive writes\<close>

text \<open>
  The encoders fill a fresh buffer field by field; when each field starts where the one before it
  ended the buffer is the concatenation of the fields.
\<close>

definition puts :: "'a list \<Rightarrow> (nat \<times> 'a list) list \<Rightarrow> 'a list" where
  "puts xs ws = foldl (\<lambda>b (off, bs). put_at off bs b) xs ws"

fun contiguous :: "nat \<Rightarrow> (nat \<times> 'a list) list \<Rightarrow> bool" where
  "contiguous o0 [] = True"
| "contiguous o0 ((off, bs) # ws) = (off = o0 \<and> contiguous (o0 + length bs) ws)"

lemma puts_contiguous:
  assumes "contiguous o0 ws" "o0 + length (concat (map snd ws)) \<le> length xs"
  shows "puts xs ws = put_at o0 (concat (map snd ws)) xs"
  using assms
proof (induction ws arbitrary: o0 xs)
  case Nil
  then show ?case by (simp add: puts_def)
next
  case (Cons w ws)
  obtain off bs where w: "w = (off, bs)" by (cases w)
  with Cons.prems have off: "off = o0" and c: "contiguous (o0 + length bs) ws"
    and len: "o0 + length bs + length (concat (map snd ws)) \<le> length xs"
    by simp_all
  have "puts xs (w # ws) = puts (put_at o0 bs xs) ws"
    by (simp add: puts_def w off)
  also have "\<dots> = put_at (o0 + length bs) (concat (map snd ws)) (put_at o0 bs xs)"
    using c len by (intro Cons.IH) simp_all
  also have "\<dots> = put_at o0 (bs @ concat (map snd ws)) xs"
    using len by (simp add: put_at_append)
  finally show ?case by (simp add: w)
qed

section \<open>Concatenations of equal-sized pieces\<close>

lemma length_concat_equal:
  "(\<And>xs. xs \<in> set xss \<Longrightarrow> length xs = w) \<Longrightarrow> length (concat xss) = length xss * w"
  by (induction xss) auto

lemma slice_concat_equal:
  assumes "\<And>xs. xs \<in> set xss \<Longrightarrow> length xs = w" "i < length xss"
  shows "slice (i * w) (i * w + w) (concat xss) = xss ! i"
  using assms
proof (induction xss arbitrary: i)
  case (Cons xs xss)
  show ?case
  proof (cases i)
    case 0
    with Cons.prems show ?thesis by (simp add: slice_def)
  next
    case (Suc j)
    with Cons.prems have "length xs = w" "j < length xss" by simp_all
    then have "slice (i * w) (i * w + w) (concat (xs # xss)) = slice (j * w) (j * w + w) (concat xss)"
      by (simp add: Suc slice_append_right add.commute)
    also have "\<dots> = xss ! j" using Cons by (intro Cons.IH) (simp_all add: Suc)
    finally show ?thesis by (simp add: Suc)
  qed
qed simp

lemma put_at_concat_equal:
  assumes "\<And>xs. xs \<in> set xss \<Longrightarrow> length xs = w" "i < length xss" "j + length ys \<le> w"
  shows "put_at (i * w + j) ys (concat xss) = concat (xss[i := put_at j ys (xss ! i)])"
  using assms
proof (induction xss arbitrary: i)
  case (Cons xs xss)
  show ?case
  proof (cases i)
    case 0
    with Cons.prems show ?thesis by (simp add: put_at_def)
  next
    case (Suc k)
    with Cons.prems have "length xs = w" "k < length xss" by simp_all
    then have "put_at (i * w + j) ys (concat (xs # xss)) = xs @ put_at (k * w + j) ys (concat xss)"
      by (simp add: Suc put_at_def add.assoc)
    with Cons show ?thesis by (simp add: Suc)
  qed
qed simp

section \<open>Words read as naturals\<close>

lemma unat_word_of_nat: "k < 2 ^ LENGTH('a) \<Longrightarrow> unat (word_of_nat k :: 'a::len word) = k"
  by (simp add: unat_of_nat take_bit_nat_eq_self)

lemma unat_u32_u64 [simp]: "unat (ucast (x :: u32) :: u64) = unat x"
proof -
  have "unat x < 2 ^ LENGTH(32)" by (rule unsigned_less)
  then have "unat x < 2 ^ 64" by simp
  then show ?thesis by (simp add: unsigned_ucast_eq take_bit_nat_eq_self)
qed

lemma word_of_nat_le_iff:
  "k < 2 ^ LENGTH('a) \<Longrightarrow> word_of_nat k \<le> (w :: 'a::len word) \<longleftrightarrow> k \<le> unat w"
  by (simp add: word_le_nat_alt unat_word_of_nat)

section \<open>Arithmetic of equal-sized slots\<close>

lemma slot_disjoint:
  fixes i j w :: nat
  assumes "i \<noteq> j"
  shows "i * w + w \<le> j * w \<or> j * w + w \<le> i * w"
proof (cases "i < j")
  case True
  then have "Suc i * w \<le> j * w" by (intro mult_le_mono1) simp
  then show ?thesis by simp
next
  case False
  with assms have "Suc j * w \<le> i * w" by (intro mult_le_mono1) simp
  then show ?thesis by simp
qed

lemma slot_bound:
  fixes i n w :: nat
  shows "i < n \<Longrightarrow> i * w + w \<le> n * w"
proof -
  assume "i < n"
  then have "Suc i * w \<le> n * w" by (intro mult_le_mono1) simp
  then show ?thesis by simp
qed

end
