(* ===== verification/GoLib.thy ===== *)
theory GoLib
  imports Prelude
begin

text \<open>
  The parts of Go and of its standard library the program relies on.

  \<^item> \<open>go_error\<close>: the error values the code compares or returns (\<open>kernel.go\<close>'s \<open>Errno\<close>
    numbers, the \<open>io\<close> package's sentinels, and errors that are only a text).
  \<^item> \<open>'a outcome\<close>: how a call ends: it returns a value, it returns an error, or it panics
    (an explicit \<open>panic\<close>, an index or slice expression out of range, a nil dereference).
    \<open>bindO\<close> and \<open>bindS\<close> sequence calls; the latter threads a state that survives errors.
  \<^item> \<open>le_bytes\<close>/\<open>le_word\<close>: \<open>binary.LittleEndian.PutUintN\<close> and \<open>UintN\<close>, and
    \<open>trailing_zeros\<close>: \<open>math/bits.TrailingZerosN\<close>.
  \<^item> a Go string is its bytes; here it is a HOL \<open>string\<close> (a list of 8-bit characters), and
    \<open>string_bytes\<close>/\<open>bytes_string\<close> are the conversions to and from \<open>[]byte\<close>.
  \<^item> the locale \<open>fixed_codec\<close>: a record encoded in a fixed number of bytes, and what a table of
    such records keeps.
\<close>

section \<open>Errors and outcomes\<close>

datatype go_error =
    Errno int
  | ErrEOF
  | ErrUnexpectedEOF
  | ErrShortWrite
  | ErrorText string

datatype 'a outcome = Ok 'a | Err go_error | Panic

definition of_err :: "go_error option \<Rightarrow> unit outcome" where
  "of_err e = (case e of None \<Rightarrow> Ok () | Some e \<Rightarrow> Err e)"

fun is_ok :: "'a outcome \<Rightarrow> bool" where
  "is_ok (Ok _) = True"
| "is_ok (Err _) = False"
| "is_ok Panic = False"

fun bindO :: "'a outcome \<Rightarrow> ('a \<Rightarrow> 'b outcome) \<Rightarrow> 'b outcome" where
  "bindO (Ok x) f = f x"
| "bindO (Err e) f = Err e"
| "bindO Panic f = Panic"

fun bindS :: "'a outcome \<times> 's \<Rightarrow> ('a \<Rightarrow> 's \<Rightarrow> 'b outcome \<times> 's) \<Rightarrow> 'b outcome \<times> 's" where
  "bindS (Ok x, s) f = f x s"
| "bindS (Err e, s) f = (Err e, s)"
| "bindS (Panic, s) f = (Panic, s)"

declare bindO.simps [go_run] bindS.simps [go_run] of_err_def [go_run]

lemma bindO_Ok_iff: "bindO m f = Ok y \<longleftrightarrow> (\<exists>x. m = Ok x \<and> f x = Ok y)"
  by (cases m) auto

lemma bindS_Ok_iff:
  "bindS m f = (Ok y, t) \<longleftrightarrow> (\<exists>x s. m = (Ok x, s) \<and> f x s = (Ok y, t))"
  by (cases m; cases "fst m") auto

lemma bindS_cong [fundef_cong]:
  "m = m' \<Longrightarrow> (\<And>x s. m' = (Ok x, s) \<Longrightarrow> f x s = f' x s) \<Longrightarrow> bindS m f = bindS m' f'"
  by (cases m'; cases "fst m'") auto

lemma of_err_simps [simp]: "of_err None = Ok ()" "of_err (Some e) = Err e"
  by (simp_all add: of_err_def)

section \<open>Little-endian integers\<close>

fun le_bytes :: "nat \<Rightarrow> 'a::len word \<Rightarrow> u8 list" where
  "le_bytes 0 w = []"
| "le_bytes (Suc n) w = ucast w # le_bytes n (drop_bit 8 w)"

fun le_word :: "u8 list \<Rightarrow> 'a::len word" where
  "le_word [] = 0"
| "le_word (b # bs) = ucast b OR push_bit 8 (le_word bs)"

lemma length_le_bytes [simp]: "length (le_bytes n w) = n"
  by (induction n arbitrary: w) auto

lemma bit_le_word_le_bytes:
  "bit (le_word (le_bytes n w) :: 'a::len word) i \<longleftrightarrow> i < 8 * n \<and> bit (w :: 'a word) i"
proof (induction n arbitrary: w i)
  case (Suc n)
  then show ?case
    by (auto simp: bit_or_iff bit_ucast_iff bit_push_bit_iff bit_drop_bit_eq
        dest: bit_imp_le_length)
qed simp

lemma le_word_le_bytes [simp]:
  "LENGTH('a) \<le> 8 * n \<Longrightarrow> le_word (le_bytes n w) = (w :: 'a::len word)"
  by (rule bit_word_eqI) (auto simp: bit_le_word_le_bytes)

lemma le_bytes_le_word:
  "8 * length bs \<le> LENGTH('a) \<Longrightarrow> le_bytes (length bs) (le_word bs :: 'a::len word) = bs"
proof (induction bs)
  case (Cons b bs)
  have hd: "ucast (le_word (b # bs) :: 'a word) = b"
    using Cons.prems by (intro bit_word_eqI) (auto simp: bit_ucast_iff bit_or_iff bit_push_bit_iff)
  have tl: "drop_bit 8 (le_word (b # bs) :: 'a word) = take_bit (LENGTH('a) - 8) (le_word bs)"
    by (rule bit_word_eqI) (auto simp: bit_drop_bit_eq bit_or_iff bit_push_bit_iff bit_ucast_iff
        bit_take_bit_iff dest: bit_imp_le_length)
  have "le_bytes n (take_bit m (v :: 'a word)) = le_bytes n v" if "8 * n \<le> m" for n m v
    using that
  proof (induction n arbitrary: m v)
    case (Suc n)
    have "ucast (take_bit m v) = (ucast v :: u8)"
      using Suc.prems by (intro bit_word_eqI) (auto simp: bit_ucast_iff bit_take_bit_iff)
    moreover have "drop_bit 8 (take_bit m v) = take_bit (m - 8) (drop_bit 8 v)"
      by (simp add: drop_bit_take_bit)
    ultimately show ?case using Suc by simp
  qed simp
  with Cons tl hd show ?case by simp
qed simp

lemma bit_le_word:
  "bit (le_word bs :: 'a::len word) k \<longleftrightarrow>
   k < LENGTH('a) \<and> k < 8 * length bs \<and> bit (bs ! (k div 8)) (k mod 8)"
proof (induction bs arbitrary: k)
  case (Cons b bs)
  show ?case
  proof (cases "k < 8")
    case True
    then show ?thesis
      by (auto simp: bit_or_iff bit_ucast_iff bit_push_bit_iff)
  next
    case False
    then obtain j where k: "k = 8 + j" using le_Suc_ex by (metis not_less)
    have "\<not> bit b k" using False by (auto dest: bit_imp_le_length)
    moreover have "(8 + j) div 8 = Suc (j div 8)" by simp
    ultimately show ?thesis
      using Cons[of j] by (auto simp: k bit_or_iff bit_ucast_iff bit_push_bit_iff)
  qed
qed simp

section \<open>Bits of a machine word\<close>

definition trailing_zeros :: "'a::len word \<Rightarrow> nat" where
  "trailing_zeros w = (case find (bit w) [0..<LENGTH('a)] of None \<Rightarrow> LENGTH('a) | Some i \<Rightarrow> i)"

lemma find_upt_Some:
  "find P [a..<b] = Some i \<longleftrightarrow> a \<le> i \<and> i < b \<and> P i \<and> (\<forall>j. a \<le> j \<and> j < i \<longrightarrow> \<not> P j)"
proof
  assume *: "find P [a..<b] = Some i"
  then obtain k where k: "k < b - a" "P (a + k)" "i = a + k" "\<forall>l<k. \<not> P (a + l)"
    by (auto simp: find_Some_iff)
  have "\<not> P j" if "a \<le> j" "j < i" for j
    using k(3,4) that by (metis le_Suc_ex nat_add_left_cancel_less)
  with k show "a \<le> i \<and> i < b \<and> P i \<and> (\<forall>j. a \<le> j \<and> j < i \<longrightarrow> \<not> P j)" by auto
next
  assume *: "a \<le> i \<and> i < b \<and> P i \<and> (\<forall>j. a \<le> j \<and> j < i \<longrightarrow> \<not> P j)"
  show "find P [a..<b] = Some i"
    unfolding find_Some_iff
    by (rule exI[of _ "i - a"]) (use * in auto)
qed

lemma trailing_zeros_not:
  assumes "w \<noteq> - 1"
  shows "trailing_zeros (NOT w) < LENGTH('a)" "\<not> bit (w :: 'a::len word) (trailing_zeros (NOT w))"
    "\<And>j. j < trailing_zeros (NOT w) \<Longrightarrow> bit w j"
proof -
  have "find (bit (NOT w)) [0..<LENGTH('a)] \<noteq> None"
  proof
    assume "find (bit (NOT w)) [0..<LENGTH('a)] = None"
    then have "\<forall>i<LENGTH('a). bit w i"
      by (auto simp: find_None_iff bit_not_iff)
    then have "w = - 1" by (intro bit_word_eqI) auto
    with assms show False by simp
  qed
  then obtain i where i: "find (bit (NOT w)) [0..<LENGTH('a)] = Some i" by auto
  then have tz: "trailing_zeros (NOT w) = i" by (simp add: trailing_zeros_def)
  from i have "i < LENGTH('a)" "bit (NOT w) i" "\<forall>j<i. \<not> bit (NOT w) j"
    by (auto simp: find_upt_Some)
  then show "trailing_zeros (NOT w) < LENGTH('a)" "\<not> bit w (trailing_zeros (NOT w))"
    "\<And>j. j < trailing_zeros (NOT w) \<Longrightarrow> bit w j"
    by (auto simp: tz bit_not_iff)
qed

section \<open>Strings and byte slices\<close>

definition byte_of_char :: "char \<Rightarrow> u8" where
  "byte_of_char c = word_of_nat (of_char c)"

definition char_of_byte :: "u8 \<Rightarrow> char" where
  "char_of_byte b = char_of (unat b)"

definition string_bytes :: "string \<Rightarrow> u8 list" where
  "string_bytes s = map byte_of_char s"

definition bytes_string :: "u8 list \<Rightarrow> string" where
  "bytes_string bs = map char_of_byte bs"

lemma char_of_byte_of_char [simp]: "char_of_byte (byte_of_char c) = c"
proof -
  have "(of_char c :: nat) < 256" by simp
  then have "unat (word_of_nat (of_char c) :: u8) = of_char c"
    by (simp add: unat_of_nat take_bit_nat_eq_self)
  then show ?thesis by (simp add: byte_of_char_def char_of_byte_def)
qed

lemma byte_of_char_of_byte [simp]: "byte_of_char (char_of_byte b) = b"
proof -
  have "unat b < 256" using unsigned_less[of b] by simp
  then show ?thesis by (simp add: byte_of_char_def char_of_byte_def)
qed

lemma length_string_bytes [simp]: "length (string_bytes s) = length s"
  by (simp add: string_bytes_def)

lemma length_bytes_string [simp]: "length (bytes_string s) = length s"
  by (simp add: bytes_string_def)

lemma bytes_string_bytes [simp]: "bytes_string (string_bytes s) = s"
  by (simp add: bytes_string_def string_bytes_def o_def)

lemma string_bytes_string [simp]: "string_bytes (bytes_string bs) = bs"
  by (simp add: bytes_string_def string_bytes_def o_def)

lemma string_bytes_inject [simp]: "string_bytes s = string_bytes t \<longleftrightarrow> s = t"
  by (metis bytes_string_bytes)

lemma string_bytes_append [simp]: "string_bytes (s @ t) = string_bytes s @ string_bytes t"
  by (simp add: string_bytes_def)

text \<open>\<open>strings.HasPrefix\<close>.\<close>

definition has_prefix :: "string \<Rightarrow> string \<Rightarrow> bool" where
  "has_prefix s pre \<longleftrightarrow> take (length pre) s = pre"

text \<open>\<open>%d\<close> of \<open>fmt.Sprintf\<close>.\<close>

fun dec_digits :: "nat \<Rightarrow> string" where
  "dec_digits n = (if n < 10 then [char_of (48 + n)] else dec_digits (n div 10) @ [char_of (48 + n mod 10)])"

declare dec_digits.simps [simp del]

definition itoa :: "int \<Rightarrow> string" where
  "itoa i = (if i < 0 then ''-'' @ dec_digits (nat (- i)) else dec_digits (nat i))"

section \<open>Fixed-width records\<close>

locale fixed_codec =
  fixes encode :: "'a \<Rightarrow> u8 list"
    and decode :: "u8 list \<Rightarrow> 'a"
    and width :: nat
    and valid :: "'a \<Rightarrow> bool"
  assumes length_encode: "valid x \<Longrightarrow> length (encode x) = width"
    and decode_encode: "valid x \<Longrightarrow> decode (encode x) = x"
begin

lemma encode_inject: "valid x \<Longrightarrow> valid y \<Longrightarrow> encode x = encode y \<Longrightarrow> x = y"
  by (metis decode_encode)

lemma read_back:
  "valid x \<Longrightarrow> off + width \<le> length xs \<Longrightarrow>
   decode (slice off (off + width) (put_at off (encode x) xs)) = x"
  by (simp add: slice_put_at_same length_encode decode_encode)

text \<open>A table of records at \<open>base\<close>: writing record \<open>i\<close> changes no other record.\<close>

lemma other_record:
  assumes "valid x" "i \<noteq> j" "base + i * width + width \<le> length xs"
  shows "slice (base + j * width) (base + j * width + width) (put_at (base + i * width) (encode x) xs)
    = slice (base + j * width) (base + j * width + width) xs"
  using assms slot_disjoint[of i j width]
  by (intro slice_put_at_disjoint) (auto simp: length_encode)

lemma same_record:
  assumes "valid x" "base + i * width + width \<le> length xs"
  shows "decode (slice (base + i * width) (base + i * width + width)
      (put_at (base + i * width) (encode x) xs)) = x"
  using assms by (simp add: slice_put_at_same length_encode decode_encode)

end

end
