(* ===== verification/Disk.thy ===== *)
theory Disk
  imports GoLib
begin

text \<open>
  \<open>computer/fs.go\<close>, lines 27-87: the \<open>Disk\<close> interface and its in-memory implementation
  \<open>MemDisk\<close>. Offsets are \<open>int64\<close> values (here \<open>int\<close>: every offset the file system computes is
  below \<open>2 ^ 45\<close>, so the 64-bit arithmetic does not wrap); a call returns the number of bytes
  moved and an error, as in Go. A disk image kept in a host file behaves the same way inside its
  fixed size \<open>DISKSIZE\<close>, which is all the locale \<open>disk_io\<close> says of a disk.
\<close>

record MemDisk =
  buf :: "u8 list"

text \<open>\<open>copy(dst, src)\<close>: what \<open>dst\<close> holds afterwards; \<open>min (len dst) (len src)\<close> bytes move.\<close>

definition go_copy :: "'a list \<Rightarrow> 'a list \<Rightarrow> 'a list" where
  "go_copy dst src = take (length dst) src @ drop (length src) dst"

definition MemDisk_ReadAt :: "MemDisk \<Rightarrow> u8 list \<Rightarrow> int \<Rightarrow> u8 list \<times> nat \<times> go_error option" where
  "MemDisk_ReadAt m p off =
     (if off < 0 then (p, 0, Some (ErrorText ''Negative offset''))
      else if int (length (buf m)) \<le> off then (p, 0, Some ErrEOF)
      else let src = drop (nat off) (buf m); n = min (length p) (length src)
           in (go_copy p src, n, if n < length p then Some ErrEOF else None))"

definition MemDisk_WriteAt :: "MemDisk \<Rightarrow> u8 list \<Rightarrow> int \<Rightarrow> MemDisk \<times> nat \<times> go_error option" where
  "MemDisk_WriteAt m b off =
     (if off < 0 then (m, 0, Some (ErrorText ''Negative offset''))
      else if int (length (buf m)) \<le> off then
        (if b = [] then (m, 0, None) else (m, 0, Some ErrShortWrite))
      else let n = min (length (buf m) - nat off) (length b);
               m' = m\<lparr>buf := put_at (nat off) (take n b) (buf m)\<rparr>
           in if n < length b then (m', n, Some ErrShortWrite) else (m', length b, None))"

definition MemDisk_Truncate :: "MemDisk \<Rightarrow> int \<Rightarrow> MemDisk \<times> go_error option" where
  "MemDisk_Truncate m sz =
     (if sz < 0 then (m, Some (ErrorText ''Negative size''))
      else if sz < int (length (buf m)) then (m\<lparr>buf := take (nat sz) (buf m)\<rparr>, None)
      else if int (length (buf m)) < sz then
        (m\<lparr>buf := buf m @ replicate (nat sz - length (buf m)) 0\<rparr>, None)
      else (m, None))"

definition MemDisk_Close :: "MemDisk \<Rightarrow> go_error option" where
  "MemDisk_Close m = None"

lemma length_go_copy [simp]: "length (go_copy dst src) = length dst"
  by (simp add: go_copy_def)

lemma go_copy_short: "length src \<le> length dst \<Longrightarrow> go_copy dst src = put_at 0 src dst"
  by (simp add: go_copy_def put_at_def)

lemma go_copy_long: "length dst \<le> length src \<Longrightarrow> go_copy dst src = take (length dst) src"
  by (simp add: go_copy_def)

section \<open>What the file system expects of a disk\<close>

text \<open>
  The contract of the interface \<open>Disk\<close> (\<open>fs.go\<close>, lines 82-87) for accesses inside the disk.
  Its consequences are what the block layer relies on: a write is read back, it leaves disjoint
  ranges alone, and it does not change the size of the disk.
\<close>

locale disk_io =
  fixes read_at :: "'d \<Rightarrow> u8 list \<Rightarrow> int \<Rightarrow> u8 list \<times> nat \<times> go_error option"
    and write_at :: "'d \<Rightarrow> u8 list \<Rightarrow> int \<Rightarrow> 'd \<times> nat \<times> go_error option"
    and contents :: "'d \<Rightarrow> u8 list"
  assumes read_inside:
      "off < length (contents d) \<Longrightarrow> off + length p \<le> length (contents d) \<Longrightarrow>
       read_at d p (int off) = (slice off (off + length p) (contents d), length p, None)"
    and write_status:
      "off < length (contents d) \<Longrightarrow> off + length b \<le> length (contents d) \<Longrightarrow>
       snd (write_at d b (int off)) = (length b, None)"
    and write_contents:
      "off < length (contents d) \<Longrightarrow> off + length b \<le> length (contents d) \<Longrightarrow>
       contents (fst (write_at d b (int off))) = put_at off b (contents d)"
begin

lemma write_length:
  "off < length (contents d) \<Longrightarrow> off + length b \<le> length (contents d) \<Longrightarrow>
   length (contents (fst (write_at d b (int off)))) = length (contents d)"
  by (simp add: write_contents)

lemma read_after_write:
  assumes "off < length (contents d)" "off + length b \<le> length (contents d)" "length p = length b"
  shows "read_at (fst (write_at d b (int off))) p (int off) = (b, length b, None)"
  using assms by (subst read_inside) (simp_all add: write_contents slice_put_at_same)

lemma read_other:
  assumes "off < length (contents d)" "off + length b \<le> length (contents d)"
    and "off' < length (contents d)" "off' + length p \<le> length (contents d)"
    and "off' + length p \<le> off \<or> off + length b \<le> off'"
  shows "read_at (fst (write_at d b (int off))) p (int off') = read_at d p (int off')"
  using assms by (simp add: read_inside write_contents slice_put_at_disjoint)

lemma writes_commute:
  assumes "off < length (contents d)" "off + length b \<le> off'"
    and "off' < length (contents d)" "off' + length b' \<le> length (contents d)"
  shows "contents (fst (write_at (fst (write_at d b (int off))) b' (int off'))) =
    contents (fst (write_at (fst (write_at d b' (int off'))) b (int off)))"
  using assms put_at_commute[of off b off' b' "contents d"]
  by (simp add: write_contents)

end

interpretation mem: disk_io MemDisk_ReadAt MemDisk_WriteAt buf
proof
  fix off and d :: MemDisk and p :: "u8 list"
  assume "off < length (buf d)" "off + length p \<le> length (buf d)"
  then show "MemDisk_ReadAt d p (int off) = (slice off (off + length p) (buf d), length p, None)"
    by (auto simp: MemDisk_ReadAt_def Let_def go_copy_long slice_def)
next
  fix off and d :: MemDisk and b :: "u8 list"
  assume "off < length (buf d)" "off + length b \<le> length (buf d)"
  then show "snd (MemDisk_WriteAt d b (int off)) = (length b, None)"
    and "buf (fst (MemDisk_WriteAt d b (int off))) = put_at off b (buf d)"
    by (auto simp: MemDisk_WriteAt_def Let_def)
qed

lemma WriteAt_inside:
  assumes "off < length (buf d)" "off + length b \<le> length (buf d)"
  shows "MemDisk_WriteAt d b (int off) = (d\<lparr>buf := put_at off b (buf d)\<rparr>, length b, None)"
  using assms by (auto simp: MemDisk_WriteAt_def Let_def)

section \<open>Behaviour at the edges of the disk\<close>

lemma ReadAt_length: "length (fst (MemDisk_ReadAt m p off)) = length p"
  by (simp add: MemDisk_ReadAt_def Let_def)

lemma WriteAt_size: "length (buf (fst (MemDisk_WriteAt m b off))) = length (buf m)"
  by (auto simp: MemDisk_WriteAt_def Let_def)


end
