(* ===== verification/Superblock.thy ===== *)
theory Superblock
  imports GoLib
begin

text \<open>
  \<open>computer/fs_superblock.go\<close> and the constants of \<open>computer/fs.go\<close> (lines 92-102): the
  superblock record, its 48-byte encoding at the start of block 0, and the decoding that
  \<open>NewFileSystem\<close> performs when it finds a formatted disk. The two start-block fields of the
  inode bitmap and the inode table are stored in the opposite order of the record's.
\<close>

definition LATEST_VERSION :: u32 where [layout]: "LATEST_VERSION = 11"

definition INODESIZE :: nat where [layout]: "INODESIZE = 128"
definition BLOCKSIZE :: nat where [layout]: "BLOCKSIZE = 4096"
definition DISKSIZE :: nat where [layout]: "DISKSIZE = 67108864"
definition INODES :: nat where [layout]: "INODES = 8064"
definition BLOCKS :: nat where [layout]: "BLOCKS = 16128"
definition MAGICLEN :: nat where [layout]: "MAGICLEN = 8"
definition TOTALBLOCKS :: nat where [layout]: "TOTALBLOCKS = 16384"

record superblock =
  magic :: "u8 list"
  version :: u32
  blockSize :: u32
  inodeCount :: u32
  inodeSize :: u32
  inodeBitmapStartBlock :: u32
  inodeTableStartBlock :: u32
  dataBlockCount :: u32
  dataBlocksStartBlock :: u32
  dataBitmapStartBlock :: u32
  totalBlocks :: u32

definition writeSuprBlktoSuprBuf :: "u8 list \<Rightarrow> superblock \<Rightarrow> u8 list" where
  "writeSuprBlktoSuprBuf suprBuf sb = puts suprBuf
     [(0, magic sb),
      (8, le_bytes 4 (version sb)),
      (12, le_bytes 4 (blockSize sb)),
      (16, le_bytes 4 (inodeCount sb)),
      (20, le_bytes 4 (inodeSize sb)),
      (24, le_bytes 4 (inodeTableStartBlock sb)),
      (28, le_bytes 4 (inodeBitmapStartBlock sb)),
      (32, le_bytes 4 (dataBlockCount sb)),
      (36, le_bytes 4 (dataBlocksStartBlock sb)),
      (40, le_bytes 4 (dataBitmapStartBlock sb)),
      (44, le_bytes 4 (totalBlocks sb))]"

text \<open>The decoding of \<open>headerBuf\<close> in \<open>NewFileSystem\<close>.\<close>

definition readSuperBlock :: "u8 list \<Rightarrow> superblock" where
  "readSuperBlock headerBuf =
     \<lparr>magic = slice 0 MAGICLEN headerBuf,
      version = le_word (slice 8 12 headerBuf),
      blockSize = le_word (slice 12 16 headerBuf),
      inodeCount = le_word (slice 16 20 headerBuf),
      inodeSize = le_word (slice 20 24 headerBuf),
      inodeBitmapStartBlock = le_word (slice 28 32 headerBuf),
      inodeTableStartBlock = le_word (slice 24 28 headerBuf),
      dataBlockCount = le_word (slice 32 36 headerBuf),
      dataBlocksStartBlock = le_word (slice 36 40 headerBuf),
      dataBitmapStartBlock = le_word (slice 40 44 headerBuf),
      totalBlocks = le_word (slice 44 48 headerBuf)\<rparr>"

text \<open>The superblock a fresh disk gets.\<close>

definition fresh_superblock :: superblock where
  "fresh_superblock =
     \<lparr>magic = string_bytes ''BS-EXTFS'',
      version = LATEST_VERSION,
      blockSize = of_nat BLOCKSIZE,
      inodeCount = of_nat INODES,
      inodeSize = of_nat INODESIZE,
      inodeBitmapStartBlock = 1,
      inodeTableStartBlock = 2,
      dataBlockCount = of_nat BLOCKS,
      dataBlocksStartBlock = 255,
      dataBitmapStartBlock = 254,
      totalBlocks = of_nat TOTALBLOCKS\<rparr>"

section \<open>The encoding as a fixed-width record\<close>

definition superblock_valid :: "superblock \<Rightarrow> bool" where
  "superblock_valid sb \<longleftrightarrow> length (magic sb) = MAGICLEN"

lemma writeSuprBlk_concat:
  assumes "superblock_valid sb" "48 \<le> length b"
  shows "writeSuprBlktoSuprBuf b sb = put_at 0
    (magic sb @ le_bytes 4 (version sb) @ le_bytes 4 (blockSize sb) @ le_bytes 4 (inodeCount sb) @
     le_bytes 4 (inodeSize sb) @ le_bytes 4 (inodeTableStartBlock sb) @
     le_bytes 4 (inodeBitmapStartBlock sb) @ le_bytes 4 (dataBlockCount sb) @
     le_bytes 4 (dataBlocksStartBlock sb) @ le_bytes 4 (dataBitmapStartBlock sb) @
     le_bytes 4 (totalBlocks sb)) b"
  unfolding writeSuprBlktoSuprBuf_def
  using assms by (subst puts_contiguous [of 0]) (simp_all add: superblock_valid_def layout)

interpretation superblock_codec:
  fixed_codec "\<lambda>sb. writeSuprBlktoSuprBuf (replicate BLOCKSIZE 0) sb" readSuperBlock BLOCKSIZE
    superblock_valid
proof
  fix sb assume "superblock_valid sb"
  then show "length (writeSuprBlktoSuprBuf (replicate BLOCKSIZE 0) sb) = BLOCKSIZE"
    and "readSuperBlock (writeSuprBlktoSuprBuf (replicate BLOCKSIZE 0) sb) = sb"
    by (simp_all add: writeSuprBlk_concat readSuperBlock_def slice_put_at_within
        slice_append_left slice_append_right slice_all superblock_valid_def layout)
qed

lemma fresh_superblock_valid [simp]: "superblock_valid fresh_superblock"
  by (simp add: superblock_valid_def fresh_superblock_def layout)

end
