(* ===== verification/FileSys.thy ===== *)
theory FileSys
  imports Disk Superblock
begin

text \<open>
  \<open>computer/fs.go\<close>: the \<open>FileSystem\<close> structure and the block operations (lines 116-125 and
  318-366). The two mutexes are not part of the state: every operation below runs under the kernel's
  lock \<open>fsMu\<close> and is one atomic step of the model.

  The second half gives the layout of a disk formatted by this version (\<open>std_fs\<close>) as five
  disjoint regions with a view of each (\<open>superblock_bytes\<close>, \<open>ibitmap\<close>, \<open>inode_bytes\<close>,
  \<open>dbitmap\<close>, \<open>dblk\<close>), and shows that a write to one region changes that view and no other. All
  later proofs work with the views.
\<close>

record filesystem =
  disk :: MemDisk
  superBlk :: superblock
  freshFormat :: bool

definition zero_block :: "u8 list" where
  "zero_block = replicate BLOCKSIZE 0"

definition ReadBlock :: "filesystem \<Rightarrow> u32 \<Rightarrow> u8 list \<times> go_error option" where
  "ReadBlock fs blockNum =
     (if totalBlocks (superBlk fs) \<le> blockNum then
        (zero_block, Some (ErrorText ''invalid blockNum''))
      else let offset = uint blockNum * int BLOCKSIZE;
               (block, n, err) = MemDisk_ReadAt (disk fs) zero_block offset
           in (block, err))"

definition WriteBlock :: "filesystem \<Rightarrow> u32 \<Rightarrow> u8 list \<Rightarrow> filesystem \<times> go_error option" where
  "WriteBlock fs blockNum dat =
     (if totalBlocks (superBlk fs) \<le> blockNum then
        (fs, Some (ErrorText ''invalid blockNum''))
      else if length dat \<noteq> BLOCKSIZE then
        (fs, Some (ErrorText ''len(data) != BLOCKSIZE''))
      else let offset = uint blockNum * int BLOCKSIZE;
               (d, n, err) = MemDisk_WriteAt (disk fs) dat offset
           in (fs\<lparr>disk := d\<rparr>, err))"

definition readDataBlock :: "filesystem \<Rightarrow> u32 \<Rightarrow> u8 list \<times> go_error option" where
  "readDataBlock fs dataBlkIdx =
     (if dataBlockCount (superBlk fs) \<le> dataBlkIdx then
        (zero_block, Some (ErrorText ''invalid dataBlkIdx''))
      else ReadBlock fs (dataBlkIdx + dataBlocksStartBlock (superBlk fs)))"

definition writeDataBlock :: "filesystem \<Rightarrow> u32 \<Rightarrow> u8 list \<Rightarrow> filesystem \<times> go_error option" where
  "writeDataBlock fs dataBlkIdx dat =
     (if dataBlockCount (superBlk fs) \<le> dataBlkIdx then
        (fs, Some (ErrorText ''invalid dataBlkIdx''))
      else WriteBlock fs (dataBlkIdx + dataBlocksStartBlock (superBlk fs)) dat)"

lemma length_zero_block [simp]: "length zero_block = BLOCKSIZE"
  by (simp add: zero_block_def)

lemma length_ReadBlock: "length (fst (ReadBlock fs n)) = BLOCKSIZE"
  by (auto simp: ReadBlock_def Let_def MemDisk_ReadAt_def)

lemma length_readDataBlock [simp]: "length (fst (readDataBlock fs n)) = BLOCKSIZE"
  by (simp add: readDataBlock_def length_ReadBlock)

section \<open>The regions of a formatted disk\<close>

definition std_fs :: "filesystem \<Rightarrow> bool" where
  "std_fs fs \<longleftrightarrow> superBlk fs = fresh_superblock \<and> length (buf (disk fs)) = DISKSIZE"

definition put_disk :: "nat \<Rightarrow> u8 list \<Rightarrow> filesystem \<Rightarrow> filesystem" where
  "put_disk off bs fs = fs\<lparr>disk := (disk fs)\<lparr>buf := put_at off bs (buf (disk fs))\<rparr>\<rparr>"

definition region :: "nat \<Rightarrow> nat \<Rightarrow> filesystem \<Rightarrow> u8 list" where
  "region off n fs = slice off (off + n) (buf (disk fs))"

definition superblock_bytes :: "filesystem \<Rightarrow> u8 list" where
  "superblock_bytes fs = region 0 BLOCKSIZE fs"

definition ibitmap :: "filesystem \<Rightarrow> u8 list" where
  "ibitmap fs = region BLOCKSIZE (INODES div 8) fs"

definition inode_bytes :: "filesystem \<Rightarrow> nat \<Rightarrow> u8 list" where
  "inode_bytes fs i = region (2 * BLOCKSIZE + i * INODESIZE) INODESIZE fs"

definition dbitmap :: "filesystem \<Rightarrow> u8 list" where
  "dbitmap fs = region (254 * BLOCKSIZE) BLOCKSIZE fs"

definition dblk :: "filesystem \<Rightarrow> nat \<Rightarrow> u8 list" where
  "dblk fs b = region ((255 + b) * BLOCKSIZE) BLOCKSIZE fs"

definition set_ibitmap :: "u8 list \<Rightarrow> filesystem \<Rightarrow> filesystem" where
  "set_ibitmap bs = put_disk BLOCKSIZE bs"

definition set_inode_bytes :: "nat \<Rightarrow> u8 list \<Rightarrow> filesystem \<Rightarrow> filesystem" where
  "set_inode_bytes i bs = put_disk (2 * BLOCKSIZE + i * INODESIZE) bs"

definition set_dbitmap :: "u8 list \<Rightarrow> filesystem \<Rightarrow> filesystem" where
  "set_dbitmap bs = put_disk (254 * BLOCKSIZE) bs"

definition set_dblk :: "nat \<Rightarrow> u8 list \<Rightarrow> filesystem \<Rightarrow> filesystem" where
  "set_dblk b bs = put_disk ((255 + b) * BLOCKSIZE) bs"

lemmas region_defs = superblock_bytes_def ibitmap_def inode_bytes_def dbitmap_def dblk_def
  set_ibitmap_def set_inode_bytes_def set_dbitmap_def set_dblk_def

lemma superBlk_put_disk [simp]: "superBlk (put_disk off bs fs) = superBlk fs"
  by (simp add: put_disk_def)

lemma freshFormat_put_disk [simp]: "freshFormat (put_disk off bs fs) = freshFormat fs"
  by (simp add: put_disk_def)

lemma buf_put_disk: "buf (disk (put_disk off bs fs)) = put_at off bs (buf (disk fs))"
  by (simp add: put_disk_def)

lemma std_put_disk:
  "std_fs fs \<Longrightarrow> off + length bs \<le> DISKSIZE \<Longrightarrow> std_fs (put_disk off bs fs)"
  by (simp add: std_fs_def buf_put_disk)

lemma region_put_same:
  "std_fs fs \<Longrightarrow> off + length bs \<le> DISKSIZE \<Longrightarrow> n = length bs \<Longrightarrow> region off n (put_disk off bs fs) = bs"
  by (simp add: std_fs_def region_def buf_put_disk slice_put_at_same)

lemma region_put_other:
  "std_fs fs \<Longrightarrow> off + length bs \<le> DISKSIZE \<Longrightarrow> off' + n \<le> off \<or> off + length bs \<le> off' \<Longrightarrow>
   region off' n (put_disk off bs fs) = region off' n fs"
  by (simp add: std_fs_def region_def buf_put_disk slice_put_at_disjoint)

lemma length_region [simp]: "std_fs fs \<Longrightarrow> off + n \<le> DISKSIZE \<Longrightarrow> length (region off n fs) = n"
  by (simp add: std_fs_def region_def)

lemma length_views [simp]:
  assumes "std_fs fs"
  shows "length (superblock_bytes fs) = BLOCKSIZE" "length (ibitmap fs) = INODES div 8"
    "i < INODES \<Longrightarrow> length (inode_bytes fs i) = INODESIZE" "length (dbitmap fs) = BLOCKSIZE"
    "b < BLOCKS \<Longrightarrow> length (dblk fs b) = BLOCKSIZE"
  using assms by (simp_all add: region_defs layout)

text \<open>Each writer keeps the layout and the cached superblock.\<close>

lemma std_writers [simp]:
  assumes "std_fs fs"
  shows "length bs = INODES div 8 \<Longrightarrow> std_fs (set_ibitmap bs fs)"
    "length bs = INODESIZE \<Longrightarrow> i < INODES \<Longrightarrow> std_fs (set_inode_bytes i bs fs)"
    "length bs = BLOCKSIZE \<Longrightarrow> std_fs (set_dbitmap bs fs)"
    "length bs = BLOCKSIZE \<Longrightarrow> b < BLOCKS \<Longrightarrow> std_fs (set_dblk b bs fs)"
  using assms by (auto simp: region_defs layout intro!: std_put_disk)

lemma superBlk_writers [simp]:
  "superBlk (set_ibitmap bs fs) = superBlk fs" "superBlk (set_inode_bytes i bs fs) = superBlk fs"
  "superBlk (set_dbitmap bs fs) = superBlk fs" "superBlk (set_dblk b bs fs) = superBlk fs"
  by (simp_all add: region_defs)

lemma freshFormat_writers [simp]:
  "freshFormat (set_ibitmap bs fs) = freshFormat fs"
  "freshFormat (set_inode_bytes i bs fs) = freshFormat fs"
  "freshFormat (set_dbitmap bs fs) = freshFormat fs" "freshFormat (set_dblk b bs fs) = freshFormat fs"
  by (simp_all add: region_defs)

text \<open>How each view reacts to each writer.\<close>

lemma view_set_ibitmap [view]:
  assumes "std_fs fs" "length bs = INODES div 8"
  shows "ibitmap (set_ibitmap bs fs) = bs"
    "superblock_bytes (set_ibitmap bs fs) = superblock_bytes fs"
    "inode_bytes (set_ibitmap bs fs) i = inode_bytes fs i"
    "dbitmap (set_ibitmap bs fs) = dbitmap fs"
    "dblk (set_ibitmap bs fs) b = dblk fs b"
  using assms unfolding region_defs
  by (simp_all add: region_put_same region_put_other layout)

lemma view_set_inode_bytes [view]:
  assumes "std_fs fs" "length bs = INODESIZE" "i < INODES"
  shows "inode_bytes (set_inode_bytes i bs fs) j = (if j = i then bs else inode_bytes fs j)"
    "superblock_bytes (set_inode_bytes i bs fs) = superblock_bytes fs"
    "ibitmap (set_inode_bytes i bs fs) = ibitmap fs"
    "dbitmap (set_inode_bytes i bs fs) = dbitmap fs"
    "dblk (set_inode_bytes i bs fs) b = dblk fs b"
  using assms unfolding region_defs
  by (auto simp: region_put_same region_put_other layout dest: slot_disjoint[of _ _ 128])

lemma view_set_dbitmap [view]:
  assumes "std_fs fs" "length bs = BLOCKSIZE"
  shows "dbitmap (set_dbitmap bs fs) = bs"
    "superblock_bytes (set_dbitmap bs fs) = superblock_bytes fs"
    "ibitmap (set_dbitmap bs fs) = ibitmap fs"
    "i < INODES \<Longrightarrow> inode_bytes (set_dbitmap bs fs) i = inode_bytes fs i"
    "dblk (set_dbitmap bs fs) b = dblk fs b"
  using assms unfolding region_defs
  by (simp_all add: region_put_same region_put_other layout)

lemma view_set_dblk [view]:
  assumes "std_fs fs" "length bs = BLOCKSIZE" "b < BLOCKS"
  shows "dblk (set_dblk b bs fs) c = (if c = b then bs else dblk fs c)"
    "superblock_bytes (set_dblk b bs fs) = superblock_bytes fs"
    "ibitmap (set_dblk b bs fs) = ibitmap fs"
    "i < INODES \<Longrightarrow> inode_bytes (set_dblk b bs fs) i = inode_bytes fs i"
    "dbitmap (set_dblk b bs fs) = dbitmap fs"
  using assms unfolding region_defs
  by (auto simp: region_put_same region_put_other layout dest: slot_disjoint[of _ _ 4096])

section \<open>The block operations on a formatted disk\<close>

lemma std_superBlk:
  "std_fs fs \<Longrightarrow> superBlk fs = fresh_superblock"
  by (simp add: std_fs_def)

lemma fresh_superblock_simps [simp]:
  "totalBlocks fresh_superblock \<le> n \<longleftrightarrow> TOTALBLOCKS \<le> unat n"
  "dataBlockCount fresh_superblock \<le> n \<longleftrightarrow> BLOCKS \<le> unat n"
  "dataBlocksStartBlock fresh_superblock = 255"
  "dataBitmapStartBlock fresh_superblock = 254"
  "inodeBitmapStartBlock fresh_superblock = 1"
  "inodeTableStartBlock fresh_superblock = 2"
  using word_of_nat_le_iff[of TOTALBLOCKS n] word_of_nat_le_iff[of BLOCKS n]
  by (simp_all add: fresh_superblock_def layout)

lemma unat_add_start: "unat (b :: u32) < BLOCKS \<Longrightarrow> unat (b + 255) = unat b + 255"
  by (simp add: unat_word_ariths layout)

lemma block_inside: "n < TOTALBLOCKS \<Longrightarrow> n * BLOCKSIZE + BLOCKSIZE \<le> DISKSIZE"
  by (simp add: layout)

lemma block_start: "n < TOTALBLOCKS \<Longrightarrow> n * BLOCKSIZE < DISKSIZE"
  by (simp add: layout)

lemma block_offset: "uint n * int BLOCKSIZE = int (unat n * BLOCKSIZE)"
  by simp

lemma ReadBlock_std:
  assumes "std_fs fs" "unat n < TOTALBLOCKS"
  shows "ReadBlock fs n = (region (unat n * BLOCKSIZE) BLOCKSIZE fs, None)"
  using assms block_inside[OF assms(2)] block_start[OF assms(2)]
    mem.read_inside[of "unat n * BLOCKSIZE" "disk fs" zero_block]
  by (simp add: ReadBlock_def block_offset std_fs_def region_def Let_def del: of_nat_mult)

lemma WriteBlock_std:
  assumes "std_fs fs" "unat n < TOTALBLOCKS" "length bs = BLOCKSIZE"
  shows "WriteBlock fs n bs = (put_disk (unat n * BLOCKSIZE) bs fs, None)"
  using assms block_inside[OF assms(2)] block_start[OF assms(2)]
    WriteAt_inside[of "unat n * BLOCKSIZE" "disk fs" bs]
  by (simp add: WriteBlock_def block_offset std_fs_def put_disk_def Let_def del: of_nat_mult)

lemma data_block_number: "b < BLOCKS \<Longrightarrow> b + 255 < TOTALBLOCKS"
  by (simp add: layout)

lemma readDataBlock_std:
  assumes "std_fs fs" "unat b < BLOCKS"
  shows "readDataBlock fs b = (dblk fs (unat b), None)"
  using assms
  by (simp add: readDataBlock_def ReadBlock_std data_block_number std_superBlk dblk_def
      unat_add_start add.commute)

lemma writeDataBlock_std:
  assumes "std_fs fs" "unat b < BLOCKS" "length bs = BLOCKSIZE"
  shows "writeDataBlock fs b bs = (set_dblk (unat b) bs fs, None)"
  using assms
  by (simp add: writeDataBlock_def WriteBlock_std data_block_number std_superBlk set_dblk_def
      unat_add_start add.commute)

lemma readDataBlock_invalid:
  "std_fs fs \<Longrightarrow> BLOCKS \<le> unat b \<Longrightarrow>
   readDataBlock fs b = (zero_block, Some (ErrorText ''invalid dataBlkIdx''))"
  by (simp add: readDataBlock_def std_superBlk)

end
