(* ===== verification/Bitmap.thy ===== *)
theory Bitmap
  imports Superblock
begin

text \<open>
  The allocation bitmaps: \<open>setBit\<close>, \<open>clearBit\<close> and \<open>findFreeBit\<close> of
  \<open>computer/fs_falloc.go\<close> (lines 9-15 and 34-59). Bit \<open>i\<close> of a bitmap is bit \<open>i mod 8\<close> of byte
  \<open>i div 8\<close> (\<open>bm_bit\<close>). The abstract view of a bitmap is the set of its free bits; the locale
  \<open>allocator\<close> states what the two allocators of the file system expect of a bitmap.
\<close>

definition clearBit :: "u8 list \<Rightarrow> u32 \<Rightarrow> u8 list outcome" where
  "clearBit bitmap idx =
     (if unat idx div 8 < length bitmap then
        Ok (bitmap[unat idx div 8 := bitmap ! (unat idx div 8) AND NOT (push_bit (unat idx mod 8) 1)])
      else Panic)"

definition setBit :: "u8 list \<Rightarrow> u32 \<Rightarrow> u8 list outcome" where
  "setBit bitmap idx =
     (if unat idx div 8 < length bitmap then
        Ok (bitmap[unat idx div 8 := bitmap ! (unat idx div 8) OR push_bit (unat idx mod 8) 1])
      else Panic)"

text \<open>
  The two loops of \<open>findFreeBit\<close>, both over the index \<open>i\<close>: whole 64-bit words first, then the
  bytes of the tail. The result \<open>uint32(i)*8 + uint32(free)\<close> is 32-bit arithmetic; \<open>None\<close> is the
  second result \<open>false\<close>.
\<close>

function findFreeBit_tail :: "u8 list \<Rightarrow> nat \<Rightarrow> u32 option" where
  "findFreeBit_tail bitmap i =
     (if i < length bitmap then
        (if bitmap ! i \<noteq> 0xff then
           Some (of_nat i * 8 + of_nat (trailing_zeros (NOT (bitmap ! i))))
         else findFreeBit_tail bitmap (Suc i))
      else None)"
  by pat_completeness auto
termination
  by (relation "measure (\<lambda>(bm, i). length bm - i)") auto

function findFreeBit_words :: "u8 list \<Rightarrow> nat \<Rightarrow> u32 option" where
  "findFreeBit_words bitmap i =
     (if i + 8 \<le> length bitmap then
        (let w = (le_word (slice i (i + 8) bitmap) :: u64)
         in if w = - 1 then findFreeBit_words bitmap (i + 8)
            else Some (of_nat i * 8 + of_nat (trailing_zeros (NOT w))))
      else findFreeBit_tail bitmap i)"
  by pat_completeness auto
termination
  by (relation "measure (\<lambda>(bm, i). length bm - i)") auto

declare findFreeBit_tail.simps [simp del] findFreeBit_words.simps [simp del]

definition findFreeBit :: "u8 list \<Rightarrow> u32 option" where
  "findFreeBit bitmap = findFreeBit_words bitmap 0"

section \<open>Bits of a bitmap\<close>

definition bm_bit :: "u8 list \<Rightarrow> nat \<Rightarrow> bool" where
  "bm_bit bm i = bit (bm ! (i div 8)) (i mod 8)"

definition free_bits :: "u8 list \<Rightarrow> nat set" where
  "free_bits bm = {i. i < 8 * length bm \<and> \<not> bm_bit bm i}"

lemma finite_free_bits [simp]: "finite (free_bits bm)"
  by (simp add: free_bits_def)

lemma byte_index: "i < 8 * length bm \<longleftrightarrow> i div 8 < length (bm :: u8 list)"
  by auto

lemma bit_mask_byte: "bit (2 ^ (k mod 8) :: u8) j \<longleftrightarrow> j = k mod 8"
  by (auto simp: bit_simps)

lemma div_mod_eq: "i div 8 = j div 8 \<Longrightarrow> i mod 8 = j mod 8 \<longleftrightarrow> i = (j :: nat)"
  by (metis div_mult_mod_eq)

lemma setBit_Ok:
  assumes "unat idx < 8 * length bm"
  shows "\<exists>bm'. setBit bm idx = Ok bm' \<and> length bm' = length bm \<and>
    (\<forall>i < 8 * length bm. bm_bit bm' i \<longleftrightarrow> i = unat idx \<or> bm_bit bm i)"
proof -
  let ?bm = "bm[unat idx div 8 := bm ! (unat idx div 8) OR push_bit (unat idx mod 8) 1]"
  have "setBit bm idx = Ok ?bm"
    using assms by (auto simp: setBit_def)
  moreover have "bm_bit ?bm i \<longleftrightarrow> i = unat idx \<or> bm_bit bm i" if "i < 8 * length bm" for i
    using that assms div_mod_eq[of i "unat idx"]
    by (auto simp: bm_bit_def nth_list_update bit_or_iff bit_mask_byte)
  ultimately show ?thesis by simp
qed

lemma clearBit_Ok:
  assumes "unat idx < 8 * length bm"
  shows "\<exists>bm'. clearBit bm idx = Ok bm' \<and> length bm' = length bm \<and>
    (\<forall>i < 8 * length bm. bm_bit bm' i \<longleftrightarrow> i \<noteq> unat idx \<and> bm_bit bm i)"
proof -
  let ?bm = "bm[unat idx div 8 := bm ! (unat idx div 8) AND NOT (push_bit (unat idx mod 8) 1)]"
  have "clearBit bm idx = Ok ?bm"
    using assms by (auto simp: clearBit_def)
  moreover have "bm_bit ?bm i \<longleftrightarrow> i \<noteq> unat idx \<and> bm_bit bm i" if "i < 8 * length bm" for i
    using that assms div_mod_eq[of i "unat idx"]
    by (auto simp: bm_bit_def nth_list_update bit_and_iff bit_not_iff bit_mask_byte)
  ultimately show ?thesis by simp
qed

lemma setBit_out_of_range: "8 * length bm \<le> unat idx \<Longrightarrow> setBit bm idx = Panic"
  by (auto simp: setBit_def)

lemma clearBit_out_of_range: "8 * length bm \<le> unat idx \<Longrightarrow> clearBit bm idx = Panic"
  by (auto simp: clearBit_def)

text \<open>The abstract view: the set of free bits loses or gains one element.\<close>

lemma setBit_free_bits:
  assumes "unat idx < 8 * length bm" "setBit bm idx = Ok bm'"
  shows "length bm' = length bm" "free_bits bm' = free_bits bm - {unat idx}"
  using setBit_Ok[OF assms(1)] assms(2) by (auto simp: free_bits_def)

lemma clearBit_free_bits:
  assumes "unat idx < 8 * length bm" "clearBit bm idx = Ok bm'"
  shows "length bm' = length bm" "free_bits bm' = insert (unat idx) (free_bits bm)"
  using clearBit_Ok[OF assms(1)] assms by (auto simp: free_bits_def)


section \<open>The search for a free bit\<close>

text \<open>What a search of a bitmap may answer: nothing when every bit is set, else the least free bit.\<close>

definition first_free :: "u8 list \<Rightarrow> u32 option \<Rightarrow> bool" where
  "first_free bm r \<longleftrightarrow> (case r of
     None \<Rightarrow> free_bits bm = {}
   | Some idx \<Rightarrow> unat idx \<in> free_bits bm \<and> (\<forall>j < unat idx. bm_bit bm j))"

lemma unat_bit_index:
  assumes "8 * i + t < 2 ^ 32"
  shows "unat (of_nat i * 8 + of_nat t :: u32) = 8 * i + t"
proof -
  have "(of_nat i * 8 + of_nat t :: u32) = of_nat (8 * i + t)" by (simp add: mult.commute)
  moreover have "unat (of_nat (8 * i + t) :: u32) = 8 * i + t"
    using assms by (intro unat_word_of_nat) simp
  ultimately show ?thesis by (simp only:)
qed

lemma byte_all_ones: "(b :: u8) = 0xff \<longleftrightarrow> b = - 1"
proof -
  have "(0xff :: u8) = - 1" by code_simp
  then show ?thesis by (simp only:)
qed

lemma bit_255: "j < 8 \<Longrightarrow> bit (255 :: u8) j"
proof -
  have ones: "(255 :: u8) = - 1" using byte_all_ones[of 255] by simp
  show "j < 8 \<Longrightarrow> bit (255 :: u8) j" unfolding ones by (simp add: bit_minus_1_iff)
qed

lemma findFreeBit_tail_spec:
  assumes "8 * length bm < 2 ^ 32" "\<forall>j < 8 * i. bm_bit bm j"
  shows "first_free bm (findFreeBit_tail bm i)"
  using assms
proof (induction bm i rule: findFreeBit_tail.induct)
  case (1 bm i)
  consider (past_end) "\<not> i < length bm" | (full) "i < length bm" "bm ! i = 0xff"
    | (free) "i < length bm" "bm ! i \<noteq> 0xff"
    by blast
  then show ?case
  proof cases
    case past_end
    then have "free_bits bm = {}" using 1(3) by (auto simp: free_bits_def)
    with past_end show ?thesis
      by (simp add: findFreeBit_tail.simps[of bm i] first_free_def)
  next
    case full
    have "bm_bit bm j" if "j < 8 * Suc i" for j
    proof (cases "j < 8 * i")
      case False
      with that have "j div 8 = i" by simp
      with full(2) show ?thesis by (simp add: bm_bit_def byte_all_ones)
    qed (use 1(3) in simp)
    with 1 full have "first_free bm (findFreeBit_tail bm (Suc i))" by simp
    with full show ?thesis by (simp add: findFreeBit_tail.simps[of bm i])
  next
    case free
    let ?t = "trailing_zeros (NOT (bm ! i))"
    have t: "?t < 8" "\<not> bit (bm ! i) ?t" "\<And>j. j < ?t \<Longrightarrow> bit (bm ! i) j"
      using trailing_zeros_not[of "bm ! i"] free(2) by (simp_all add: byte_all_ones)
    have u: "unat (of_nat i * 8 + of_nat ?t :: u32) = 8 * i + ?t"
      using free(1) t(1) 1(2) by (intro unat_bit_index) simp
    have "bm_bit bm j" if "j < 8 * i + ?t" for j
    proof (cases "j < 8 * i")
      case False
      then obtain k where k: "j = 8 * i + k" by (metis le_Suc_ex not_less)
      with that t(1) have "k < 8" "k < ?t" by simp_all
      with t(3)[of k] show ?thesis by (simp add: bm_bit_def k)
    qed (use 1(3) in simp)
    then show ?thesis
      using free t u by (simp add: findFreeBit_tail.simps[of bm i] first_free_def free_bits_def
          bm_bit_def)
  qed
qed

lemma findFreeBit_words_spec:
  assumes "8 * length bm < 2 ^ 32" "\<forall>j < 8 * i. bm_bit bm j"
  shows "first_free bm (findFreeBit_words bm i)"
  using assms
proof (induction bm i rule: findFreeBit_words.induct)
  case (1 bm i)
  let ?w = "le_word (slice i (i + 8) bm) :: u64"
  have bits: "bit ?w k \<longleftrightarrow> bm_bit bm (8 * i + k)" if "i + 8 \<le> length bm" "k < 64" for k
  proof -
    have "slice i (i + 8) bm ! (k div 8) = bm ! (i + k div 8)"
      using that by (intro nth_slice) auto
    then show ?thesis using that by (simp add: bit_le_word bm_bit_def)
  qed
  consider (tail) "\<not> i + 8 \<le> length bm" | (full) "i + 8 \<le> length bm" "?w = - 1"
    | (free) "i + 8 \<le> length bm" "?w \<noteq> - 1"
    by blast
  then show ?case
  proof cases
    case tail
    then show ?thesis
      using findFreeBit_tail_spec[OF 1(2,3)] by (simp add: findFreeBit_words.simps[of bm i])
  next
    case full
    have "bm_bit bm j" if "j < 8 * (i + 8)" for j
    proof (cases "j < 8 * i")
      case False
      with that bits[OF full(1), of "j - 8 * i"] full(2) show ?thesis by simp
    qed (use 1(3) in simp)
    with 1 full have "first_free bm (findFreeBit_words bm (i + 8))" by simp
    with full show ?thesis by (simp add: findFreeBit_words.simps[of bm i])
  next
    case free
    let ?t = "trailing_zeros (NOT ?w)"
    have t: "?t < 64" "\<not> bit ?w ?t" "\<And>j. j < ?t \<Longrightarrow> bit ?w j"
      using trailing_zeros_not[OF free(2)] by simp_all
    have u: "unat (of_nat i * 8 + of_nat ?t :: u32) = 8 * i + ?t"
      using free(1) t(1) 1(2) by (intro unat_bit_index) simp
    have "bm_bit bm j" if "j < 8 * i + ?t" for j
    proof (cases "j < 8 * i")
      case False
      with that have "bit ?w (j - 8 * i)" by (intro t(3)) linarith
      with bits[OF free(1), of "j - 8 * i"] False that t(1) show ?thesis by simp
    qed (use 1(3) in simp)
    then show ?thesis
      using free t u bits[OF free(1) t(1)]
      by (simp add: findFreeBit_words.simps[of bm i] first_free_def free_bits_def)
  qed
qed

lemma findFreeBit_first_free:
  "8 * length bm < 2 ^ 32 \<Longrightarrow> first_free bm (findFreeBit bm)"
  unfolding findFreeBit_def by (rule findFreeBit_words_spec) simp_all

lemma findFreeBit_Some:
  assumes "8 * length bm < 2 ^ 32" "findFreeBit bm = Some idx"
  shows "unat idx = Min (free_bits bm)" "unat idx \<in> free_bits bm"
proof -
  have *: "unat idx \<in> free_bits bm" "\<forall>j < unat idx. bm_bit bm j"
    using findFreeBit_first_free[OF assms(1)] assms(2) by (auto simp: first_free_def)
  have le: "unat idx \<le> j" if "j \<in> free_bits bm" for j
    using *(2) that by (auto simp: free_bits_def not_less[symmetric])
  show "unat idx = Min (free_bits bm)"
    by (rule Min_eqI [symmetric]) (simp_all add: le *(1))
  show "unat idx \<in> free_bits bm" by (rule *)
qed

lemma findFreeBit_None_iff:
  assumes "8 * length bm < 2 ^ 32"
  shows "findFreeBit bm = None \<longleftrightarrow> free_bits bm = {}"
  using findFreeBit_first_free[OF assms] by (auto simp: first_free_def split: option.splits)

lemma free_bits_range: "i \<in> free_bits bm \<Longrightarrow> i < 8 * length bm"
  by (simp add: free_bits_def)

section \<open>Taking free bits\<close>

text \<open>
  The allocation step \<open>Falloc\<close> repeats for every block it needs (for example lines 151-155 of
  \<open>fs_falloc.go\<close>): find a free bit, panic when there is none, set it.
\<close>

definition takeFreeBit :: "u8 list \<Rightarrow> (u32 \<times> u8 list) outcome" where
  "takeFreeBit bm = (case findFreeBit bm of
     None \<Rightarrow> Panic
   | Some idx \<Rightarrow> bindO (setBit bm idx) (\<lambda>bm'. Ok (idx, bm')))"

fun take_many :: "('b \<Rightarrow> ('i \<times> 'b) outcome) \<Rightarrow> nat \<Rightarrow> 'b \<Rightarrow> ('i list \<times> 'b) outcome" where
  "take_many tk 0 b = Ok ([], b)"
| "take_many tk (Suc n) b =
     bindO (tk b) (\<lambda>(i, b'). bindO (take_many tk n b') (\<lambda>(is, b''). Ok (i # is, b'')))"

text \<open>
  The contract of an allocator over a finite set of free indices: it hands out the least free index
  and marks it used, and it panics when nothing is free. Any number of indices it hands out in
  a row are distinct and were free.
\<close>

locale allocator =
  fixes tk :: "'b \<Rightarrow> ('i \<times> 'b) outcome"
    and index :: "'i \<Rightarrow> nat"
    and free :: "'b \<Rightarrow> nat set"
    and inv :: "'b \<Rightarrow> bool"
  assumes free_finite: "inv b \<Longrightarrow> finite (free b)"
    and tk_Ok: "inv b \<Longrightarrow> free b \<noteq> {} \<Longrightarrow>
      \<exists>i b'. tk b = Ok (i, b') \<and> index i = Min (free b) \<and> free b' = free b - {index i} \<and> inv b'"
    and tk_full: "inv b \<Longrightarrow> free b = {} \<Longrightarrow> tk b = Panic"
begin

lemma tk_member:
  assumes "inv b" "tk b = Ok (i, b')"
  shows "index i \<in> free b" "free b' = free b - {index i}" "inv b'"
proof -
  have "free b \<noteq> {}" using tk_full[OF assms(1)] assms(2) by auto
  then show "index i \<in> free b" "free b' = free b - {index i}" "inv b'"
    using tk_Ok[OF assms(1)] assms free_finite[OF assms(1)] Min_in by fastforce+
qed

lemma take_many_Ok:
  assumes "inv b" "n \<le> card (free b)"
  shows "\<exists>is b'. take_many tk n b = Ok (is, b') \<and> length is = n \<and> distinct (map index is) \<and>
    index ` set is \<subseteq> free b \<and> free b' = free b - index ` set is \<and> inv b'"
  using assms
proof (induction n arbitrary: b)
  case (Suc n)
  then have "free b \<noteq> {}" by auto
  with tk_Ok[OF Suc.prems(1)] obtain i b' where i: "tk b = Ok (i, b')" "free b' = free b - {index i}"
    "inv b'" by blast
  have mem: "index i \<in> free b" using tk_member[OF Suc.prems(1) i(1)] by simp
  then have "n \<le> card (free b')"
    using Suc.prems free_finite[OF Suc.prems(1)] i(2) by simp
  then obtain "is" b'' where r: "take_many tk n b' = Ok (is, b'')" "length is = n"
    "distinct (map index is)" "index ` set is \<subseteq> free b'" "free b'' = free b' - index ` set is" "inv b''"
    using Suc.IH[OF i(3)] by blast
  then show ?case using i mem by (intro exI[of _ "i # is"] exI[of _ b'']) auto
qed simp

lemma take_many_Panic:
  assumes "inv b" "card (free b) < n"
  shows "take_many tk n b = Panic"
  using assms
proof (induction n arbitrary: b)
  case (Suc n)
  show ?case
  proof (cases "free b = {}")
    case False
    with tk_Ok[OF Suc.prems(1)] obtain i b' where i: "tk b = Ok (i, b')"
      "free b' = free b - {index i}" "inv b'" by blast
    have "index i \<in> free b" using tk_member[OF Suc.prems(1) i(1)] by simp
    moreover have "0 < card (free b)"
      using False free_finite[OF Suc.prems(1)] by (simp add: card_gt_0_iff)
    ultimately have "card (free b') < n"
      using Suc.prems(2) i(2) by simp
    with Suc.IH[OF i(3)] i(1) show ?thesis by simp
  qed (use tk_full Suc.prems in simp)
qed simp

end

interpretation block_bits:
  allocator takeFreeBit unat free_bits "\<lambda>bm. length bm = BLOCKSIZE"
proof
  fix bm :: "u8 list" assume len: "length bm = BLOCKSIZE"
  then have small: "8 * length bm < 2 ^ 32" by (simp add: layout)
  show "finite (free_bits bm)" by simp
  show "takeFreeBit bm = Panic" if "free_bits bm = {}"
    using that findFreeBit_None_iff[OF small] by (simp add: takeFreeBit_def)
  assume "free_bits bm \<noteq> {}"
  then obtain idx where idx: "findFreeBit bm = Some idx"
    using findFreeBit_None_iff[OF small] by auto
  note min = findFreeBit_Some[OF small idx]
  obtain bm' where bm': "setBit bm idx = Ok bm'"
    using setBit_Ok free_bits_range[OF min(2)] by blast
  show "\<exists>i b'. takeFreeBit bm = Ok (i, b') \<and> unat i = Min (free_bits bm) \<and>
      free_bits b' = free_bits bm - {unat i} \<and> length b' = BLOCKSIZE"
    using setBit_free_bits[OF free_bits_range[OF min(2)] bm'] min(1) len
    by (intro exI[of _ idx] exI[of _ bm']) (simp add: takeFreeBit_def idx bm')
qed

end
