(* ===== verification/Inode.thy ===== *)
theory Inode
  imports FileSys Bitmap
begin

text \<open>
  \<open>computer/fs_inode.go\<close>: the \<open>inode\<close> structure, its 128-byte on-disk form, \<open>readInode\<close> and
  \<open>writeInode\<close>, the block iterator \<open>iterBlocks\<close>, and the inode allocator \<open>AllocInode\<close> /
  \<open>FreeInodeFromBitmap\<close>; with \<open>virtualToPlaceRelative\<close> of \<open>fs_falloc.go\<close> and \<open>blockNumForVirtual\<close> of
  \<open>fs_fd.go\<close>, which say where an inode keeps the number of its \<open>v\<close>-th block.

  Go arrays are lists of their fixed length (\<open>owner\<close>: 14 bytes, \<open>direct\<close>: 12 pointers); the fields
  \<open>size\<close>, \<open>find\<close>, \<open>sind\<close>, \<open>tind\<close> of the source are \<open>isize\<close>, \<open>find_blk\<close>, \<open>sind_blk\<close>, \<open>tind_blk\<close>.
  The interface value \<open>ops\<close> is nil (\<open>None\<close>) or one of the two implementations.
\<close>

definition S_IFREG :: u8 where "S_IFREG = 0"
definition S_IFDIR :: u8 where "S_IFDIR = 1"

lemma fType_distinct [simp]: "S_IFREG \<noteq> S_IFDIR" "S_IFDIR \<noteq> S_IFREG"
  by (simp_all add: S_IFREG_def S_IFDIR_def)

datatype inode_ops = DirectoryOps u32 | RegularFileOps

record inode =
  dirty :: bool
  isize :: u32
  fType :: u8
  refs :: u16
  owner :: "u8 list"
  setuid :: bool
  ownerMode :: u8
  otherMode :: u8
  direct :: "u32 list"
  find_blk :: u32
  sind_blk :: u32
  tind_blk :: u32
  createdAt :: u64
  modifiedAt :: u64
  num :: u32
  ops :: "inode_ops option"

text \<open>The zero value \<open>inode{}\<close>.\<close>

definition zero_inode :: inode where
  "zero_inode = \<lparr>dirty = False, isize = 0, fType = 0, refs = 0, owner = replicate 14 0,
     setuid = False, ownerMode = 0, otherMode = 0, direct = replicate 12 0,
     find_blk = 0, sind_blk = 0, tind_blk = 0, createdAt = 0, modifiedAt = 0, num = 0, ops = None\<rparr>"

definition ownerString :: "u8 list \<Rightarrow> string" where
  "ownerString ow = bytes_string (takeWhile (\<lambda>b. b \<noteq> 0) ow)"

definition ownerBytes :: "string \<Rightarrow> u8 list" where
  "ownerBytes name =
     (let name' = (if length name > 13 then take 13 name else name)
      in go_copy (replicate 14 0) (string_bytes name'))"

section \<open>The on-disk form\<close>

definition encode_inode :: "inode \<Rightarrow> u8 list" where
  "encode_inode ino = puts (replicate INODESIZE 0)
     ([(0, le_bytes 4 (isize ino)),
       (4, [fType ino]),
       (5, le_bytes 2 (refs ino)),
       (7, owner ino),
       (21, [if setuid ino then 1 else 0]),
       (22, [ownerMode ino]),
       (23, [otherMode ino])] @
      map (\<lambda>i. (24 + i * 4, le_bytes 4 (direct ino ! i))) [0..<12] @
      [(72, le_bytes 4 (find_blk ino)),
       (76, le_bytes 4 (sind_blk ino)),
       (80, le_bytes 4 (tind_blk ino)),
       (84, le_bytes 8 (createdAt ino)),
       (92, le_bytes 8 (modifiedAt ino)),
       (100, replicate 28 0)])"

definition decode_inode :: "u8 list \<Rightarrow> inode" where
  "decode_inode b = \<lparr>dirty = False,
     isize = le_word (slice 0 4 b),
     fType = b ! 4,
     refs = le_word (slice 5 7 b),
     owner = slice 7 21 b,
     setuid = (b ! 21 = 1),
     ownerMode = b ! 22,
     otherMode = b ! 23,
     direct = map (\<lambda>i. le_word (slice (24 + i * 4) (28 + i * 4) b)) [0..<12],
     find_blk = le_word (slice 72 76 b),
     sind_blk = le_word (slice 76 80 b),
     tind_blk = le_word (slice 80 84 b),
     createdAt = le_word (slice 84 92 b),
     modifiedAt = le_word (slice 92 100 b),
     num = 0, ops = None\<rparr>"

definition readInode :: "filesystem \<Rightarrow> u32 \<Rightarrow> inode outcome" where
  "readInode fs idx =
     (let inodeTableOffset = uint (inodeTableStartBlock (superBlk fs)) * int BLOCKSIZE;
          startIdx = inodeTableOffset + uint idx * int INODESIZE;
          (inodeBuf, n, err) = MemDisk_ReadAt (disk fs) (replicate INODESIZE 0) startIdx
      in case err of Some e \<Rightarrow> Err e
         | None \<Rightarrow> if n \<noteq> INODESIZE then Err ErrUnexpectedEOF
                   else Ok ((decode_inode inodeBuf)\<lparr>num := idx\<rparr>))"

definition writeInode :: "filesystem \<Rightarrow> inode \<Rightarrow> u32 \<Rightarrow> filesystem \<times> go_error option" where
  "writeInode fs ino idx =
     (let inodeTableOffset = uint (inodeTableStartBlock (superBlk fs)) * int BLOCKSIZE;
          startIdx = inodeTableOffset + uint idx * int INODESIZE;
          (d, n, err) = MemDisk_WriteAt (disk fs) (encode_inode ino) startIdx;
          fs' = fs\<lparr>disk := d\<rparr>
      in case err of Some e \<Rightarrow> (fs', Some e)
         | None \<Rightarrow> if n \<noteq> INODESIZE then (fs', Some ErrShortWrite) else (fs', None))"

text \<open>What a disk record can hold: the run-time fields have their zero values.\<close>

definition disk_part :: "inode \<Rightarrow> inode" where
  "disk_part ino = ino\<lparr>dirty := False, num := 0, ops := None\<rparr>"

definition inode_shape :: "inode \<Rightarrow> bool" where
  "inode_shape ino \<longleftrightarrow> length (owner ino) = 14 \<and> length (direct ino) = 12"

definition inode_valid :: "inode \<Rightarrow> bool" where
  "inode_valid ino \<longleftrightarrow> inode_shape ino \<and> disk_part ino = ino"

lemma upt_12: "[0..<12] = [0, 1, 2, 3, 4, 5, 6, 7, 8, 9, 10, 11]"
  by code_simp

lemma list_12:
  "length xs = 12 \<Longrightarrow>
   [xs ! 0, xs ! 1, xs ! 2, xs ! 3, xs ! 4, xs ! 5, xs ! 6, xs ! 7, xs ! 8, xs ! 9, xs ! 10, xs ! 11] = xs"
  using map_nth[of xs] by (simp add: upt_12)

lemma encode_inode_concat:
  assumes "inode_shape ino"
  shows "encode_inode ino =
    le_bytes 4 (isize ino) @ [fType ino] @ le_bytes 2 (refs ino) @ owner ino @
    [if setuid ino then 1 else 0] @ [ownerMode ino] @ [otherMode ino] @
    concat (map (le_bytes 4) (direct ino)) @
    le_bytes 4 (find_blk ino) @ le_bytes 4 (sind_blk ino) @ le_bytes 4 (tind_blk ino) @
    le_bytes 8 (createdAt ino) @ le_bytes 8 (modifiedAt ino) @ replicate 28 0"
proof -
  have d: "map (le_bytes 4) (direct ino) = map (\<lambda>i. le_bytes 4 (direct ino ! i)) [0..<12]"
    using assms by (intro nth_equalityI) (simp_all add: inode_shape_def)
  show ?thesis
    unfolding encode_inode_def d using assms
    by (subst puts_contiguous [of 0])
      (simp_all add: inode_shape_def upt_12 layout put_at_def min_def)
qed

lemma length_encode_inode [simp]: "inode_shape ino \<Longrightarrow> length (encode_inode ino) = INODESIZE"
  by (simp add: encode_inode_concat inode_shape_def length_concat o_def sum_list_triv layout)


lemma direct_slice:
  assumes "length ds = 12" "i < 12"
  shows "le_word (slice (i * 4) (i * 4 + 4) (concat (map (le_bytes 4) ds))) = (ds ! i :: u32)"
proof -
  have "slice (i * 4) (i * 4 + 4) (concat (map (le_bytes 4) ds)) = map (le_bytes 4) ds ! i"
    using assms by (intro slice_concat_equal) auto
  then show ?thesis using assms by simp
qed

lemma decode_encode_inode:
  assumes "inode_shape ino"
  shows "decode_inode (encode_inode ino) = disk_part ino"
proof -
  let ?d = "concat (map (le_bytes 4) (direct ino))"
  have len: "length ?d = 48"
    using assms by (subst length_concat_equal[where w = 4]) (auto simp: inode_shape_def)
  have "direct (decode_inode (encode_inode ino)) = direct ino"
    using assms len direct_slice[of "direct ino"]
    by (intro nth_equalityI) (simp_all add: encode_inode_concat decode_inode_def inode_shape_def
        slice_append_left slice_append_right slice_Cons add.commute)
  then show ?thesis
    using assms len
    by (intro inode.equality) (simp_all add: encode_inode_concat decode_inode_def disk_part_def
        inode_shape_def slice_append_left slice_append_right slice_Cons slice_all nth_append)
qed

interpretation inode_codec: fixed_codec encode_inode decode_inode INODESIZE inode_valid
proof
  fix ino assume "inode_valid ino"
  then show "length (encode_inode ino) = INODESIZE" "decode_inode (encode_inode ino) = ino"
    by (simp_all add: inode_valid_def decode_encode_inode)
qed

lemma decode_inode_shape: "length b = INODESIZE \<Longrightarrow> inode_shape (decode_inode b)"
  by (simp add: decode_inode_def inode_shape_def layout)


lemma inode_codec_read_back:
  "inode_shape ino \<Longrightarrow> length b = INODESIZE \<Longrightarrow> inode_shape (decode_inode b \<lparr>num := i\<rparr>)"
  by (simp add: decode_inode_def inode_shape_def layout)

section \<open>Reading and writing an inode of a formatted disk\<close>

lemma inode_inside: "i < INODES \<Longrightarrow> 2 * BLOCKSIZE + i * INODESIZE + INODESIZE \<le> DISKSIZE"
  by (simp add: layout)

lemma inode_offset:
  assumes "std_fs fs"
  shows "uint (inodeTableStartBlock (superBlk fs)) * int BLOCKSIZE + uint (i :: u32) * int INODESIZE =
    int (2 * BLOCKSIZE + unat i * INODESIZE)"
  using assms by (simp add: std_superBlk)

lemma readInode_std:
  assumes "std_fs fs" "unat i < INODES"
  shows "readInode fs i = Ok ((decode_inode (inode_bytes fs (unat i)))\<lparr>num := i\<rparr>)"
proof -
  let ?off = "2 * BLOCKSIZE + unat i * INODESIZE"
  have "MemDisk_ReadAt (disk fs) (replicate INODESIZE 0) (int ?off) =
      (inode_bytes fs (unat i), INODESIZE, None)"
    using assms inode_inside[OF assms(2)]
    by (subst mem.read_inside) (auto simp: std_fs_def inode_bytes_def region_def layout)
  then show ?thesis
    using assms(1) unfolding readInode_def Let_def inode_offset[OF assms(1)] by simp
qed

lemma writeInode_std:
  assumes "std_fs fs" "unat i < INODES" "inode_shape ino"
  shows "writeInode fs ino i = (set_inode_bytes (unat i) (encode_inode ino) fs, None)"
proof -
  let ?off = "2 * BLOCKSIZE + unat i * INODESIZE"
  have "MemDisk_WriteAt (disk fs) (encode_inode ino) (int ?off) =
      ((disk fs)\<lparr>buf := put_at ?off (encode_inode ino) (buf (disk fs))\<rparr>, INODESIZE, None)"
    using assms inode_inside[OF assms(2)]
    by (subst WriteAt_inside) (auto simp: std_fs_def layout)
  then show ?thesis
    unfolding writeInode_def Let_def inode_offset[OF assms(1)]
    by (simp add: set_inode_bytes_def put_disk_def)
qed

text \<open>The inode stored on the disk under a number.\<close>

definition disk_inode :: "filesystem \<Rightarrow> nat \<Rightarrow> inode" where
  "disk_inode fs i = decode_inode (inode_bytes fs i)"

lemma disk_inode_shape: "std_fs fs \<Longrightarrow> i < INODES \<Longrightarrow> inode_shape (disk_inode fs i)"
  by (simp add: disk_inode_def decode_inode_shape)

lemma disk_inode_set [view]:
  assumes "std_fs fs" "i < INODES" "inode_shape ino"
  shows "disk_inode (set_inode_bytes i (encode_inode ino) fs) j =
    (if j = i then disk_part ino else disk_inode fs j)"
  using assms by (simp add: disk_inode_def view decode_encode_inode)

section \<open>Where an inode keeps its block numbers\<close>

text \<open>
  \<open>virtualToPlaceRelative\<close> (\<open>fs_falloc.go\<close>, lines 17-32): block \<open>v\<close> of a file is pointer \<open>fst\<close> of
  place \<open>snd\<close>, where place 0 is the direct array and places 1, 2 and 3 are the tables in
  the blocks \<open>find\<close>, \<open>sind\<close> and \<open>tind\<close>. The code writes its three table branches out; here they are
  one, with \<open>ind_ptr\<close> selecting the field of the inode by the place.
\<close>

definition virtualToPlaceRelative :: "u32 \<Rightarrow> u32 \<times> nat" where
  "virtualToPlaceRelative v =
     (if v > 11 \<and> v < 1036 then (v - 12, 1)
      else if v \<ge> 1036 \<and> v < 2060 then (v - 1036, 2)
      else if v \<ge> 2060 then (v - 2060, 3)
      else (v, 0))"

definition ind_ptr :: "nat \<Rightarrow> inode \<Rightarrow> u32" where
  "ind_ptr place ino =
     (if place = 1 then find_blk ino else if place = 2 then sind_blk ino else tind_blk ino)"

text \<open>
  \<open>binary.LittleEndian.Uint32(buf[rel*4:rel*4+4])\<close> and the corresponding \<open>PutUint32\<close>; the slice
  expression panics when it is out of range.
\<close>

definition ptr_get :: "u8 list \<Rightarrow> u32 \<Rightarrow> u32 outcome" where
  "ptr_get b rel =
     (let lo = unat (rel * 4); hi = unat (rel * 4 + 4)
      in if lo \<le> hi \<and> hi \<le> length b then Ok (le_word (slice lo hi b)) else Panic)"

definition ptr_put :: "u8 list \<Rightarrow> u32 \<Rightarrow> u32 \<Rightarrow> u8 list outcome" where
  "ptr_put b rel idx =
     (let lo = unat (rel * 4); hi = unat (rel * 4 + 4)
      in if lo \<le> hi \<and> hi \<le> length b then Ok (put_at lo (le_bytes 4 idx) b) else Panic)"

text \<open>A block read whose error is returned to the caller.\<close>

definition readBlockE :: "filesystem \<Rightarrow> u32 \<Rightarrow> u8 list outcome" where
  "readBlockE fs b = (case readDataBlock fs b of (blk, Some e) \<Rightarrow> Err e | (blk, None) \<Rightarrow> Ok blk)"

definition blockNumForVirtual :: "filesystem \<Rightarrow> inode \<Rightarrow> u32 \<Rightarrow> u32 outcome" where
  "blockNumForVirtual fs ino v =
     (let (relAddr, place) = virtualToPlaceRelative v
      in if place = 0 then Ok (direct ino ! unat relAddr)
         else bindO (readBlockE fs (ind_ptr place ino)) (\<lambda>blk. ptr_get blk relAddr))"

section \<open>Iterating over the blocks of an inode\<close>

text \<open>
  \<open>iterBlocks\<close> (lines 192-241). The three table buffers \<open>findBuf\<close>, \<open>sindBuf\<close>, \<open>tindBuf\<close>, read once and
  kept, are \<open>bufs 1\<close>, \<open>bufs 2\<close>, \<open>bufs 3\<close>. The callback is any function on the block number, the
  copy of the block, the caller's variables \<open>'s\<close> and the file system; its answer says
  whether to stop.
\<close>

type_synonym table_bufs = "nat \<Rightarrow> u8 list option"

type_synonym 's block_fn =
  "u32 \<Rightarrow> u8 list \<Rightarrow> 's \<times> filesystem \<Rightarrow> bool outcome \<times> ('s \<times> filesystem)"

definition resolve :: "filesystem \<Rightarrow> inode \<Rightarrow> table_bufs \<Rightarrow> nat \<Rightarrow> u32 \<Rightarrow> (u32 \<times> table_bufs) outcome" where
  "resolve fs ino bufs place relAddr =
     bindO (case bufs place of Some b \<Rightarrow> Ok b | None \<Rightarrow> readBlockE fs (ind_ptr place ino))
       (\<lambda>blk. bindO (ptr_get blk relAddr) (\<lambda>p. Ok (p, bufs(place := Some blk))))"

definition nextBlockNum :: "filesystem \<Rightarrow> inode \<Rightarrow> table_bufs \<Rightarrow> u32 \<Rightarrow> (u32 \<times> table_bufs) outcome" where
  "nextBlockNum fs ino bufs i =
     (let (relAddr, place) = virtualToPlaceRelative i
      in if place = 0 then Ok (direct ino ! unat relAddr, bufs)
         else resolve fs ino bufs place relAddr)"

fun iterBlocks_loop :: "inode \<Rightarrow> 's block_fn \<Rightarrow> u32 list \<Rightarrow> table_bufs \<Rightarrow> 's \<times> filesystem \<Rightarrow>
    unit outcome \<times> ('s \<times> filesystem)" where
  "iterBlocks_loop ino fn [] bufs st = (Ok (), st)"
| "iterBlocks_loop ino fn (i # is) bufs st =
     bindS (nextBlockNum (snd st) ino bufs i, st) (\<lambda>(blockNum, bufs') st.
     bindS (readBlockE (snd st) blockNum, st) (\<lambda>dat st.
     bindS (fn blockNum dat st) (\<lambda>stop st.
       if stop then (Ok (), st) else iterBlocks_loop ino fn is bufs' st)))"

definition num_blocks :: "u32 \<Rightarrow> u32" where
  "num_blocks sz = (sz + of_nat BLOCKSIZE - 1) div of_nat BLOCKSIZE"

definition iterBlocks :: "inode \<Rightarrow> 's block_fn \<Rightarrow> 's \<times> filesystem \<Rightarrow> unit outcome \<times> ('s \<times> filesystem)" where
  "iterBlocks ino fn st =
     (let blocksToRead = num_blocks (isize ino)
      in iterBlocks_loop ino fn (map of_nat [0..<unat blocksToRead]) (\<lambda>_. None) st)"

section \<open>The inode allocator\<close>

definition AllocInode :: "filesystem \<Rightarrow> u32 outcome \<times> filesystem" where
  "AllocInode fs =
     (let off = uint (inodeBitmapStartBlock (superBlk fs) * of_nat BLOCKSIZE);
          (inodeBitmapBuf, n, err) = MemDisk_ReadAt (disk fs) (replicate (INODES div 8) 0) off
      in case err of Some e \<Rightarrow> (Err e, fs)
         | None \<Rightarrow>
           (case findFreeBit inodeBitmapBuf of
              None \<Rightarrow> (Err (ErrorText ''no space left bro''), fs)
            | Some idx \<Rightarrow>
                bindS (setBit inodeBitmapBuf idx, fs) (\<lambda>bm fs.
                  let (d, n, err) = MemDisk_WriteAt (disk fs) bm off; fs' = fs\<lparr>disk := d\<rparr>
                  in case err of Some e \<Rightarrow> (Err e, fs') | None \<Rightarrow> (Ok idx, fs'))))"

definition FreeInodeFromBitmap :: "filesystem \<Rightarrow> u32 \<Rightarrow> unit outcome \<times> filesystem" where
  "FreeInodeFromBitmap fs inum =
     (if INODES \<le> unat inum then
        (Err (ErrorText (''FreeInodeFromBitmap: inum '' @ itoa (uint inum) @ '' out of range'')), fs)
      else let off = uint (inodeBitmapStartBlock (superBlk fs) * of_nat BLOCKSIZE);
               (inodeBitmapBuf, n, err) = MemDisk_ReadAt (disk fs) (replicate (INODES div 8) 0) off
           in case err of Some e \<Rightarrow> (Err e, fs)
              | None \<Rightarrow>
                (if inodeBitmapBuf ! (unat inum div 8) AND push_bit (unat inum mod 8) 1 = 0 then
                   (Err (ErrorText (''FreeInodeFromBitmap: inum '' @ itoa (uint inum) @ '' already free'')), fs)
                 else bindS (clearBit inodeBitmapBuf inum, fs) (\<lambda>bm fs.
                   let (d, n, err) = MemDisk_WriteAt (disk fs) bm off
                   in (of_err err, fs\<lparr>disk := d\<rparr>))))"

end
