(* ===== verification/BlockMap.thy ===== *)
theory BlockMap
  imports Inode
begin

text \<open>
  The abstract view of an inode: the list of the data blocks of the file (\<open>blk_list\<close>), the table
  blocks it occupies (\<open>table_list\<close>), and what it means for the two to be well formed on a disk
  (\<open>inode_wf\<close>). The lookups of the code (\<open>blockNumForVirtual\<close>, \<open>resolve\<close>) are shown to read this
  view, \<open>iterBlocks\<close> to visit its blocks in order, and the inode allocator to manage a set.
\<close>

section \<open>Places\<close>

definition place_of :: "nat \<Rightarrow> nat" where
  "place_of v = (if v < 12 then 0 else if v < 1036 then 1 else if v < 2060 then 2 else 3)"

definition place_base :: "nat \<Rightarrow> nat" where
  "place_base p = (if p = 0 then 0 else if p = 1 then 12 else if p = 2 then 1036 else 2060)"

definition rel_of :: "nat \<Rightarrow> nat" where
  "rel_of v = v - place_base (place_of v)"

definition max_blocks :: nat where [layout]: "max_blocks = 12 + 1024 + 1024 + 1024"

lemma unat_sub_const: "k \<le> unat (v :: u32) \<Longrightarrow> unat (v - of_nat k) = unat v - k"
proof -
  assume k: "k \<le> unat v"
  have "unat v < 2 ^ LENGTH(32)" by (rule unsigned_less)
  with k have "k < 2 ^ 32" by simp
  then have "unat (of_nat k :: u32) = k" by (intro unat_word_of_nat) simp
  with k show ?thesis by (simp add: unat_sub word_le_nat_alt)
qed

lemma virtualToPlaceRelative_places:
  "snd (virtualToPlaceRelative v) = place_of (unat v)"
  "unat (fst (virtualToPlaceRelative v)) = rel_of (unat v)"
  using unat_sub_const[of 12 v] unat_sub_const[of 1036 v] unat_sub_const[of 2060 v]
  by (auto simp: virtualToPlaceRelative_def place_of_def rel_of_def place_base_def
      word_less_nat_alt word_le_nat_alt)

lemma place_of_cases:
  obtains "v < 12" "place_of v = 0" "rel_of v = v"
  | "12 \<le> v" "v < 1036" "place_of v = 1" "rel_of v = v - 12"
  | "1036 \<le> v" "v < 2060" "place_of v = 2" "rel_of v = v - 1036"
  | "2060 \<le> v" "place_of v = 3" "rel_of v = v - 2060"
  by (cases "v < 12"; cases "v < 1036"; cases "v < 2060")
    (auto simp: place_of_def rel_of_def place_base_def)

lemma place_base_rel: "place_base (place_of v) + rel_of v = v"
  by (cases v rule: place_of_cases) (auto simp: place_base_def)

lemma rel_bound: "v < max_blocks \<Longrightarrow> place_of v \<noteq> 0 \<Longrightarrow> rel_of v < 1024"
  by (cases v rule: place_of_cases) (auto simp: max_blocks_def)

lemma rel_bound0: "place_of v = 0 \<Longrightarrow> rel_of v < 12 \<and> rel_of v = v"
  by (cases v rule: place_of_cases) auto

lemma place_rel_inject: "place_of v = place_of w \<Longrightarrow> rel_of v = rel_of w \<Longrightarrow> v = w"
  by (metis place_base_rel)

lemma place_less4: "place_of v < 4"
  by (cases v rule: place_of_cases) auto

lemma place_mono: "v \<le> w \<Longrightarrow> place_of v \<le> place_of w"
  by (cases v rule: place_of_cases; cases w rule: place_of_cases) auto

section \<open>Pointer tables\<close>

definition ptr_at :: "u8 list \<Rightarrow> nat \<Rightarrow> u32" where
  "ptr_at b k = le_word (slice (k * 4) (k * 4 + 4) b)"

lemma unat_times4:
  "unat rel < 1024 \<Longrightarrow> unat (rel * 4 :: u32) = unat rel * 4"
  "unat rel < 1024 \<Longrightarrow> unat (rel * 4 + 4 :: u32) = unat rel * 4 + 4"
  by (simp_all add: unat_word_ariths)

lemma ptr_get_Ok:
  "length b = BLOCKSIZE \<Longrightarrow> unat rel < 1024 \<Longrightarrow> ptr_get b rel = Ok (ptr_at b (unat rel))"
  by (simp add: ptr_get_def ptr_at_def unat_times4 layout Let_def)

lemma ptr_put_Ok:
  "length b = BLOCKSIZE \<Longrightarrow> unat rel < 1024 \<Longrightarrow>
   ptr_put b rel idx = Ok (put_at (unat rel * 4) (le_bytes 4 idx) b)"
  by (simp add: ptr_put_def unat_times4 layout Let_def)

lemma ptr_at_put:
  assumes "length b = BLOCKSIZE" "k < 1024" "j < 1024"
  shows "ptr_at (put_at (k * 4) (le_bytes 4 idx) b) j = (if j = k then idx else ptr_at b j)"
  using assms slot_disjoint[of k j 4]
  by (auto simp: ptr_at_def layout slice_put_at_same slice_put_at_disjoint)

section \<open>The blocks of an inode\<close>

definition blk_at :: "filesystem \<Rightarrow> inode \<Rightarrow> nat \<Rightarrow> u32" where
  "blk_at fs ino v =
     (if place_of v = 0 then direct ino ! v
      else ptr_at (dblk fs (unat (ind_ptr (place_of v) ino))) (rel_of v))"

definition blk_list :: "filesystem \<Rightarrow> inode \<Rightarrow> nat \<Rightarrow> u32 list" where
  "blk_list fs ino n = map (blk_at fs ino) [0..<n]"

text \<open>The tables a file of \<open>n\<close> blocks uses.\<close>

definition places_used :: "nat \<Rightarrow> nat list" where
  "places_used n = filter (\<lambda>p. place_base p < n) [1, 2, 3]"

definition table_list :: "inode \<Rightarrow> nat \<Rightarrow> u32 list" where
  "table_list ino n = map (\<lambda>p. ind_ptr p ino) (places_used n)"

definition nblocks :: "nat \<Rightarrow> nat" where
  "nblocks sz = (sz + (BLOCKSIZE - 1)) div BLOCKSIZE"

text \<open>
  An inode is well formed on a disk when its arrays have their lengths, it has at most
  \<open>max_blocks\<close> blocks, and its data and table blocks are distinct blocks of the data region marked
  used in the bitmap.
\<close>

definition owned :: "filesystem \<Rightarrow> inode \<Rightarrow> u32 list" where
  "owned fs ino = table_list ino (nblocks (unat (isize ino))) @
     blk_list fs ino (nblocks (unat (isize ino)))"

definition inode_wf :: "filesystem \<Rightarrow> inode \<Rightarrow> bool" where
  "inode_wf fs ino \<longleftrightarrow> inode_shape ino \<and> nblocks (unat (isize ino)) \<le> max_blocks \<and>
     distinct (owned fs ino) \<and>
     (\<forall>b \<in> set (owned fs ino). unat b < BLOCKS \<and> bm_bit (dbitmap fs) (unat b))"

lemma num_blocks_nblocks:
  assumes "unat sz \<le> 2 ^ 32 - BLOCKSIZE"
  shows "unat (num_blocks sz) = nblocks (unat sz)"
proof -
  have "unat (sz + 4095 :: u32) = unat sz + 4095"
    using assms by (simp add: unat_word_ariths layout)
  moreover have "num_blocks sz = (sz + 4095) div 4096"
    by (simp add: num_blocks_def layout add.commute)
  ultimately show ?thesis
    by (simp add: nblocks_def layout unat_div)
qed

lemma nblocks_bound: "nblocks n \<le> k \<longleftrightarrow> n \<le> k * BLOCKSIZE"
proof -
  have "nblocks n \<le> k \<longleftrightarrow> (n + 4095) div 4096 < Suc k"
    by (simp add: nblocks_def layout less_Suc_eq_le)
  also have "\<dots> \<longleftrightarrow> n + 4095 < Suc k * 4096"
    by (rule div_less_iff_less_mult) simp
  finally show ?thesis by (simp add: layout) linarith
qed

lemma size_small:
  assumes "nblocks (unat sz) \<le> max_blocks"
  shows "unat (sz :: u32) \<le> 2 ^ 32 - BLOCKSIZE"
  using assms unfolding nblocks_bound by (simp add: layout)

lemma num_blocks_wf:
  "inode_wf fs ino \<Longrightarrow> unat (num_blocks (isize ino)) = nblocks (unat (isize ino))"
  unfolding inode_wf_def by (intro num_blocks_nblocks size_small) simp

lemma length_blk_list [simp]: "length (blk_list fs ino n) = n"
  by (simp add: blk_list_def)

lemma nth_blk_list [simp]: "v < n \<Longrightarrow> blk_list fs ino n ! v = blk_at fs ino v"
  by (simp add: blk_list_def)

lemma place_used: "v < n \<Longrightarrow> place_of v \<noteq> 0 \<Longrightarrow> place_of v \<in> set (places_used n)"
  by (cases v rule: place_of_cases) (auto simp: places_used_def place_base_def)

section \<open>The code's lookups read the view\<close>

definition tables_ok :: "inode \<Rightarrow> nat \<Rightarrow> bool" where
  "tables_ok ino n \<longleftrightarrow> (\<forall>p \<in> set (places_used n). unat (ind_ptr p ino) < BLOCKS)"

lemma inode_wf_tables: "inode_wf fs ino \<Longrightarrow> tables_ok ino (nblocks (unat (isize ino)))"
  by (auto simp: inode_wf_def tables_ok_def owned_def table_list_def)

lemma inode_wf_block:
  assumes "inode_wf fs ino" "v < nblocks (unat (isize ino))"
  shows "unat (blk_at fs ino v) < BLOCKS" "v < max_blocks"
  using assms by (auto simp: inode_wf_def owned_def blk_list_def)

lemma places_used_range: "p \<in> set (places_used n) \<Longrightarrow> p = 1 \<or> p = 2 \<or> p = 3"
  by (auto simp: places_used_def split: if_splits)

lemma readBlockE_std: "std_fs fs \<Longrightarrow> unat b < BLOCKS \<Longrightarrow> readBlockE fs b = Ok (dblk fs (unat b))"
  by (simp add: readBlockE_def readDataBlock_std)

lemma length_readBlockE: "readBlockE fs b = Ok blk \<Longrightarrow> length blk = BLOCKSIZE"
  using length_readDataBlock[of fs b] by (auto simp: readBlockE_def
      simp del: length_readDataBlock split: prod.splits option.splits)

lemma unat_of_nat_small: "v < max_blocks \<Longrightarrow> unat (of_nat v :: u32) = v"
  by (rule unat_word_of_nat) (simp add: layout)

lemma virtual_of_nat:
  assumes "v < max_blocks"
  obtains r where "virtualToPlaceRelative (of_nat v) = (r, place_of v)" "unat r = rel_of v"
  using virtualToPlaceRelative_places[of "of_nat v"] unat_of_nat_small[OF assms]
  by (metis prod.collapse)

lemma blockNumForVirtual_std:
  assumes "std_fs fs" "tables_ok ino n" "v < n" "v < max_blocks"
  shows "blockNumForVirtual fs ino (of_nat v) = Ok (blk_at fs ino v)"
proof -
  obtain r where r: "virtualToPlaceRelative (of_nat v) = (r, place_of v)" "unat r = rel_of v"
    by (rule virtual_of_nat[OF assms(4)])
  show ?thesis
  proof (cases "place_of v = 0")
    case True
    then show ?thesis
      using r rel_bound0[OF True] by (simp add: blockNumForVirtual_def blk_at_def)
  next
    case False
    then have "unat (ind_ptr (place_of v) ino) < BLOCKS" "rel_of v < 1024"
      using assms(2,4) place_used[OF assms(3) False] rel_bound by (auto simp: tables_ok_def)
    then show ?thesis
      using r False assms(1)
      by (simp add: blockNumForVirtual_def blk_at_def readBlockE_std ptr_get_Ok)
  qed
qed

section \<open>The block iterator visits the blocks in order\<close>

text \<open>The iterator over a list of block numbers, without the table buffers.\<close>

fun scan :: "'s block_fn \<Rightarrow> u32 list \<Rightarrow> 's \<times> filesystem \<Rightarrow> unit outcome \<times> ('s \<times> filesystem)" where
  "scan fn [] st = (Ok (), st)"
| "scan fn (b # bs) st = bindS (fn b (dblk (snd st) (unat b)) st) (\<lambda>stop st.
     if stop then (Ok (), st) else scan fn bs st)"

text \<open>A callback that changes the disk only when it stops the iteration.\<close>

definition reads_only :: "'s block_fn \<Rightarrow> filesystem \<Rightarrow> bool" where
  "reads_only fn fs \<longleftrightarrow>
     (\<forall>b d a a' fs'. fn b d (a, fs) = (Ok False, (a', fs')) \<longrightarrow> fs' = fs)"

text \<open>The buffers hold the tables of the disk.\<close>

definition bufs_current :: "filesystem \<Rightarrow> inode \<Rightarrow> table_bufs \<Rightarrow> bool" where
  "bufs_current fs ino bufs \<longleftrightarrow>
     (\<forall>p b. bufs p = Some b \<longrightarrow> b = dblk fs (unat (ind_ptr p ino)))"

lemma nextBlockNum_std:
  assumes "std_fs fs" "bufs_current fs ino bufs" "tables_ok ino n" "v < n" "v < max_blocks"
  obtains bufs' where "nextBlockNum fs ino bufs (of_nat v) = Ok (blk_at fs ino v, bufs')"
    "bufs_current fs ino bufs'"
proof -
  let ?p = "place_of v"
  let ?b = "dblk fs (unat (ind_ptr ?p ino))"
  obtain r where r: "virtualToPlaceRelative (of_nat v) = (r, ?p)" "unat r = rel_of v"
    by (rule virtual_of_nat[OF assms(5)])
  show ?thesis
  proof (cases "?p = 0")
    case True
    then show ?thesis
      using that[of bufs] r rel_bound0[OF True] assms(2) by (simp add: nextBlockNum_def blk_at_def)
  next
    case False
    then have ptr: "unat (ind_ptr ?p ino) < BLOCKS" "rel_of v < 1024"
      using assms(3,5) place_used[OF assms(4) False] rel_bound by (auto simp: tables_ok_def)
    have "(case bufs ?p of None \<Rightarrow> readBlockE fs (ind_ptr ?p ino) | Some b \<Rightarrow> Ok b) = Ok ?b"
      using assms(1,2) ptr by (auto simp: readBlockE_std bufs_current_def split: option.splits)
    then have "nextBlockNum fs ino bufs (of_nat v) = Ok (blk_at fs ino v, bufs(?p := Some ?b))"
      using assms(1) False r ptr by (simp add: nextBlockNum_def resolve_def ptr_get_Ok blk_at_def)
    moreover have "bufs_current fs ino (bufs(?p := Some ?b))"
      using assms(2) by (simp add: bufs_current_def)
    ultimately show ?thesis by (rule that)
  qed
qed

lemma iterBlocks_loop_scan:
  assumes "std_fs fs" "tables_ok ino n" "bufs_current fs ino bufs" "reads_only fn fs"
    and "\<And>v. v \<in> set vs \<Longrightarrow> v < n \<and> v < max_blocks \<and> unat (blk_at fs ino v) < BLOCKS"
  shows "iterBlocks_loop ino fn (map of_nat vs) bufs (a, fs) = scan fn (map (blk_at fs ino) vs) (a, fs)"
  using assms(3,5)
proof (induction vs arbitrary: bufs a)
  case (Cons v vs)
  then have v: "v < n" "v < max_blocks" "unat (blk_at fs ino v) < BLOCKS" by auto
  obtain bufs' where b: "nextBlockNum fs ino bufs (of_nat v) = Ok (blk_at fs ino v, bufs')"
    "bufs_current fs ino bufs'"
    by (rule nextBlockNum_std[OF assms(1) Cons.prems(1) assms(2) v(1,2)])
  let ?n = "blk_at fs ino v"
  show ?case
  proof (cases "fst (fn ?n (dblk fs (unat ?n)) (a, fs)) = Ok False")
    case True
    then obtain a' where a': "fn ?n (dblk fs (unat ?n)) (a, fs) = (Ok False, (a', fs))"
      using assms(4) unfolding reads_only_def by (metis prod.collapse)
    show ?thesis
      using Cons.IH[OF b(2), of a'] Cons.prems(2) b(1) v assms(1) a'
      by (simp add: readBlockE_std)
  next
    case False
    then obtain q st where q: "fn ?n (dblk fs (unat ?n)) (a, fs) = (q, st)" "q \<noteq> Ok False"
      by (metis prod.collapse)
    show ?thesis
      using b(1) v assms(1) q by (cases q) (auto simp: readBlockE_std)
  qed
qed simp

lemma iterBlocks_scan:
  assumes "std_fs fs" "inode_wf fs ino" "reads_only fn fs"
  shows "iterBlocks ino fn (a, fs) = scan fn (blk_list fs ino (nblocks (unat (isize ino)))) (a, fs)"
proof -
  have "iterBlocks_loop ino fn (map of_nat [0..<nblocks (unat (isize ino))]) (\<lambda>_. None) (a, fs) =
      scan fn (map (blk_at fs ino) [0..<nblocks (unat (isize ino))]) (a, fs)"
    using assms inode_wf_block[OF assms(2)]
    by (intro iterBlocks_loop_scan[OF assms(1) inode_wf_tables[OF assms(2)]])
      (auto simp: bufs_current_def)
  then show ?thesis
    using num_blocks_wf[OF assms(2)] by (simp add: iterBlocks_def blk_list_def)
qed

section \<open>The inode allocator manages the set of free inode numbers\<close>

lemma ibitmap_read:
  assumes "std_fs fs"
  shows "MemDisk_ReadAt (disk fs) (replicate (INODES div 8) 0) (int BLOCKSIZE) =
    (ibitmap fs, INODES div 8, None)"
  using assms by (subst mem.read_inside) (auto simp: std_fs_def ibitmap_def region_def layout)

lemma ibitmap_write:
  assumes "std_fs fs" "length bm = INODES div 8"
  shows "MemDisk_WriteAt (disk fs) bm (int BLOCKSIZE) =
    (disk (set_ibitmap bm fs), length bm, None)"
  using assms by (subst WriteAt_inside) (auto simp: std_fs_def set_ibitmap_def put_disk_def layout)

lemma ibitmap_offset:
  "std_fs fs \<Longrightarrow> uint (inodeBitmapStartBlock (superBlk fs) * of_nat BLOCKSIZE) = int BLOCKSIZE"
  by (simp add: std_superBlk layout)

lemma set_ibitmap_disk: "fs\<lparr>disk := disk (set_ibitmap bm fs)\<rparr> = set_ibitmap bm fs"
  by (simp add: set_ibitmap_def put_disk_def)

lemma ibitmap_small:
  assumes "std_fs fs"
  shows "8 * length (ibitmap fs) < 2 ^ 32" "8 * length (ibitmap fs) = INODES"
  using assms by (simp_all add: layout)

lemma AllocInode_Ok:
  assumes "std_fs fs" "free_bits (ibitmap fs) \<noteq> {}"
  shows "\<exists>idx bm. AllocInode fs = (Ok idx, set_ibitmap bm fs) \<and> length bm = INODES div 8 \<and>
    unat idx = Min (free_bits (ibitmap fs)) \<and> unat idx < INODES \<and>
    free_bits bm = free_bits (ibitmap fs) - {unat idx}"
proof -
  note small = ibitmap_small[OF assms(1)]
  obtain idx where idx: "findFreeBit (ibitmap fs) = Some idx"
    using findFreeBit_None_iff[OF small(1)] assms(2) by auto
  note min = findFreeBit_Some[OF small(1) idx]
  note range = free_bits_range[OF min(2)]
  obtain bm where bm: "setBit (ibitmap fs) idx = Ok bm"
    using setBit_Ok[OF range] by blast
  note fb = setBit_free_bits[OF range bm]
  have "AllocInode fs = (Ok idx, set_ibitmap bm fs)"
    using fb(1) assms(1) unfolding AllocInode_def Let_def ibitmap_offset[OF assms(1)]
    by (simp add: ibitmap_read ibitmap_write idx bm set_ibitmap_disk)
  then show ?thesis
    using fb min range small assms(1) by (intro exI[of _ idx] exI[of _ bm]) simp
qed

lemma AllocInode_full:
  assumes "std_fs fs" "free_bits (ibitmap fs) = {}"
  shows "AllocInode fs = (Err (ErrorText ''no space left bro''), fs)"
  using findFreeBit_None_iff[OF ibitmap_small(1)[OF assms(1)]] assms
  unfolding AllocInode_def Let_def ibitmap_offset[OF assms(1)]
  by (simp add: ibitmap_read)

lemma and_bit_zero: "(b :: u8) AND 2 ^ (k mod 8) = 0 \<longleftrightarrow> \<not> bit b (k mod 8)"
proof -
  have "k mod 8 < 8" by simp
  then have "b AND 2 ^ (k mod 8) = push_bit (k mod 8) (of_bool (bit b (k mod 8)))"
    by (intro bit_word_eqI) (auto simp: bit_and_iff bit_mask_byte bit_push_bit_iff bit_1_iff)
  then show ?thesis by (auto simp: push_bit_eq_mult)
qed

lemma FreeInode_Ok:
  assumes "std_fs fs" "unat i < INODES" "unat i \<notin> free_bits (ibitmap fs)"
  shows "\<exists>bm. FreeInodeFromBitmap fs i = (Ok (), set_ibitmap bm fs) \<and> length bm = INODES div 8 \<and>
    free_bits bm = insert (unat i) (free_bits (ibitmap fs))"
proof -
  note small = ibitmap_small[OF assms(1)]
  have range: "unat i < 8 * length (ibitmap fs)" using assms(2) small(2) by simp
  have used: "bm_bit (ibitmap fs) (unat i)" using assms(3) range by (simp add: free_bits_def)
  obtain bm where bm: "clearBit (ibitmap fs) i = Ok bm"
    using clearBit_Ok[OF range] by blast
  note fb = clearBit_free_bits[OF range bm]
  have "FreeInodeFromBitmap fs i = (Ok (), set_ibitmap bm fs)"
    using fb(1) assms used unfolding FreeInodeFromBitmap_def Let_def ibitmap_offset[OF assms(1)]
    by (simp add: ibitmap_read ibitmap_write bm set_ibitmap_disk and_bit_zero bm_bit_def)
  then show ?thesis using fb assms(1) by (intro exI[of _ bm]) simp
qed

lemma FreeInode_errors:
  assumes "std_fs fs" "INODES \<le> unat i \<or> unat i \<in> free_bits (ibitmap fs)"
  shows "\<exists>e. FreeInodeFromBitmap fs i = (Err e, fs)"
  using assms unfolding FreeInodeFromBitmap_def Let_def ibitmap_offset[OF assms(1)]
  by (auto simp: ibitmap_read and_bit_zero bm_bit_def free_bits_def)

end
