(* ===== verification/Falloc.thy ===== *)
theory Falloc
  imports BlockMap "HOL-Library.Multiset"
begin

text \<open>
  \<open>Falloc\<close> of \<open>computer/fs_falloc.go\<close> (lines 61-275): resize a file, taking blocks from the data
  bitmap or giving them back. The local variables of the function and the two objects it changes
  (the inode it has a pointer to and the file system) are one state record; a panic leaves the
  state as it is at that point. The three table branches of the source (\<open>find\<close>, \<open>sind\<close>,
  \<open>tind\<close>) are written once, over the number of the place; the order in which the code goes
  through them is the order of the lists below.
\<close>

section \<open>The code\<close>

record falloc_state =
  fa_ino :: inode
  fa_fs :: filesystem
  fa_bm :: "u8 list"
  fa_bufs :: table_bufs

definition set_ind_ptr :: "nat \<Rightarrow> u32 \<Rightarrow> inode \<Rightarrow> inode" where
  "set_ind_ptr place b ino =
     (if place = 1 then ino\<lparr>find_blk := b\<rparr> else if place = 2 then ino\<lparr>sind_blk := b\<rparr>
      else ino\<lparr>tind_blk := b\<rparr>)"

text \<open>\<open>findFreeBit\<close>, the panic and \<open>setBit\<close> on the local copy of the bitmap.\<close>

definition takeBit :: "falloc_state \<Rightarrow> u32 outcome \<times> falloc_state" where
  "takeBit st = (case takeFreeBit (fa_bm st) of
     Ok (idx, bm) \<Rightarrow> (Ok idx, st\<lparr>fa_bm := bm\<rparr>)
   | Err e \<Rightarrow> (Err e, st)
   | Panic \<Rightarrow> (Panic, st))"

definition getDataBlock :: "falloc_state \<Rightarrow> u32 outcome \<times> falloc_state" where
  "getDataBlock st = bindS (takeBit st) (\<lambda>idx st.
     (Ok idx, st\<lparr>fa_fs := fst (writeDataBlock (fa_fs st) idx zero_block)\<rparr>))"

definition table_steps :: "(nat \<times> nat) list" where
  "table_steps = [(3, 2060), (2, 1036), (1, 12)]"

fun grow_tables :: "nat \<Rightarrow> nat \<Rightarrow> (nat \<times> nat) list \<Rightarrow> falloc_state \<Rightarrow> unit outcome \<times> falloc_state" where
  "grow_tables cur need [] st = (Ok (), st)"
| "grow_tables cur need ((place, base) # rest) st =
     (if need > base \<and> cur \<le> base then
        bindS (getDataBlock st) (\<lambda>b st.
          grow_tables cur need rest (st\<lparr>fa_ino := set_ind_ptr place b (fa_ino st)\<rparr>))
      else grow_tables cur need rest st)"

text \<open>\<open>if findBuf == nil { temp, _ := fs.readDataBlock(inode.find); findBuf = temp[:] }\<close>\<close>

definition load_table :: "nat \<Rightarrow> falloc_state \<Rightarrow> u8 list \<times> falloc_state" where
  "load_table place st = (case fa_bufs st place of
     Some b \<Rightarrow> (b, st)
   | None \<Rightarrow> let b = fst (readDataBlock (fa_fs st) (ind_ptr place (fa_ino st)))
             in (b, st\<lparr>fa_bufs := (fa_bufs st)(place := Some b)\<rparr>))"

definition grow_one :: "u32 \<Rightarrow> falloc_state \<Rightarrow> unit outcome \<times> falloc_state" where
  "grow_one i st =
     (let (rel, place) = virtualToPlaceRelative i
      in if place = 0 then
           bindS (takeBit st) (\<lambda>idx st.
             (Ok (), st\<lparr>fa_ino := (fa_ino st)\<lparr>direct := (direct (fa_ino st))[unat rel := idx]\<rparr>\<rparr>))
         else let (b, st) = load_table place st
              in bindS (takeBit st) (\<lambda>idx st.
                 bindS (ptr_put b rel idx, st) (\<lambda>b' st.
                   (Ok (), st\<lparr>fa_bufs := (fa_bufs st)(place := Some b')\<rparr>))))"

fun grow_loop :: "u32 list \<Rightarrow> falloc_state \<Rightarrow> unit outcome \<times> falloc_state" where
  "grow_loop [] st = (Ok (), st)"
| "grow_loop (i # is) st = bindS (grow_one i st) (\<lambda>_ st. grow_loop is st)"

definition clear_one :: "u32 \<Rightarrow> falloc_state \<Rightarrow> unit outcome \<times> falloc_state" where
  "clear_one b st = bindS (clearBit (fa_bm st) b, st) (\<lambda>bm st. (Ok (), st\<lparr>fa_bm := bm\<rparr>))"

definition shrink_one :: "u32 \<Rightarrow> falloc_state \<Rightarrow> unit outcome \<times> falloc_state" where
  "shrink_one i st =
     (let (rel, place) = virtualToPlaceRelative i
      in if place = 0 then clear_one (direct (fa_ino st) ! unat rel) st
         else let (b, st) = load_table place st
              in bindS (ptr_get b rel, st) (\<lambda>p st. clear_one p st))"

fun shrink_loop :: "u32 list \<Rightarrow> falloc_state \<Rightarrow> unit outcome \<times> falloc_state" where
  "shrink_loop [] st = (Ok (), st)"
| "shrink_loop (i # is) st = bindS (shrink_one i st) (\<lambda>_ st. shrink_loop is st)"

definition freed :: "nat \<Rightarrow> nat \<Rightarrow> nat \<Rightarrow> bool" where
  "freed cur need base \<longleftrightarrow> cur > base \<and> need \<le> base"

fun shrink_tables :: "nat \<Rightarrow> nat \<Rightarrow> (nat \<times> nat) list \<Rightarrow> falloc_state \<Rightarrow> unit outcome \<times> falloc_state" where
  "shrink_tables cur need [] st = (Ok (), st)"
| "shrink_tables cur need ((place, base) # rest) st =
     (if freed cur need base then
        bindS (clear_one (ind_ptr place (fa_ino st)) st) (\<lambda>_ st. shrink_tables cur need rest st)
      else shrink_tables cur need rest st)"

text \<open>The tables in memory are written back, those just freed excepted; write errors are ignored.\<close>

fun flush_tables :: "nat \<Rightarrow> nat \<Rightarrow> (nat \<times> nat) list \<Rightarrow> falloc_state \<Rightarrow> falloc_state" where
  "flush_tables cur need [] st = st"
| "flush_tables cur need ((place, base) # rest) st =
     (case fa_bufs st place of
        Some b \<Rightarrow>
          if freed cur need base then flush_tables cur need rest st
          else flush_tables cur need rest
            (st\<lparr>fa_fs := fst (writeDataBlock (fa_fs st) (ind_ptr place (fa_ino st)) b)\<rparr>)
      | None \<Rightarrow> flush_tables cur need rest st)"

definition Falloc_finish :: "nat \<Rightarrow> nat \<Rightarrow> u32 \<Rightarrow> falloc_state \<Rightarrow> unit outcome \<times> (inode \<times> filesystem)" where
  "Falloc_finish cur need newSize st =
     (let st = flush_tables cur need (rev table_steps) st;
          fs = fa_fs st;
          d = fst (MemDisk_WriteAt (disk fs) (fa_bm st)
                (uint (dataBitmapStartBlock (superBlk fs)) * int BLOCKSIZE))
      in (Ok (), ((fa_ino st)\<lparr>isize := newSize\<rparr>, fs\<lparr>disk := d\<rparr>)))"

definition falloc_run :: "unit outcome \<times> falloc_state \<Rightarrow>
    (falloc_state \<Rightarrow> unit outcome \<times> (inode \<times> filesystem)) \<Rightarrow> unit outcome \<times> (inode \<times> filesystem)" where
  "falloc_run r k = (case r of
     (Ok _, st) \<Rightarrow> k st
   | (Err e, st) \<Rightarrow> (Err e, (fa_ino st, fa_fs st))
   | (Panic, st) \<Rightarrow> (Panic, (fa_ino st, fa_fs st)))"

definition Falloc :: "inode \<Rightarrow> u32 \<Rightarrow> filesystem \<Rightarrow> unit outcome \<times> (inode \<times> filesystem)" where
  "Falloc ino0 newSize fs =
     (let ino = ino0\<lparr>dirty := True\<rparr>;
          need = unat (num_blocks newSize);
          cur = unat (num_blocks (isize ino));
          bm = fst (MemDisk_ReadAt (disk fs) (replicate BLOCKSIZE 0)
                 (uint (dataBitmapStartBlock (superBlk fs)) * int BLOCKSIZE));
          st = \<lparr>fa_ino = ino, fa_fs = fs, fa_bm = bm, fa_bufs = (\<lambda>_. None)\<rparr>
      in if need = cur then (Ok (), (ino\<lparr>isize := newSize\<rparr>, fs))
         else if need > cur then
           (if need > max_blocks then
              (Err (ErrorText ''not enough space to store all that fatass! please just store text and stuff, what are u tryna doo''),
               (ino, fs))
            else falloc_run
                   (bindS (grow_tables cur need table_steps st) (\<lambda>_ st.
                      grow_loop (map of_nat [cur..<need]) st))
                   (Falloc_finish cur need newSize))
         else falloc_run
                (bindS (shrink_loop (map of_nat [need..<cur]) st) (\<lambda>_ st.
                   shrink_tables cur need table_steps st))
                (Falloc_finish cur need newSize))"

section \<open>The state between the steps\<close>

lemma ind_ptr_update [simp]:
  "ind_ptr p (ino\<lparr>direct := ds\<rparr>) = ind_ptr p ino"
  "ind_ptr p (ino\<lparr>isize := sz\<rparr>) = ind_ptr p ino"
  "ind_ptr p (ino\<lparr>dirty := d\<rparr>) = ind_ptr p ino"
  by (simp_all add: ind_ptr_def)

lemma inode_shape_update [simp]:
  "inode_shape (ino\<lparr>isize := sz\<rparr>) = inode_shape ino"
  "inode_shape (ino\<lparr>dirty := d\<rparr>) = inode_shape ino"
  "inode_shape (set_ind_ptr p b ino) = inode_shape ino"
  by (simp_all add: inode_shape_def set_ind_ptr_def)

text \<open>The pointer to block \<open>v\<close> as the function sees it: in the table in memory, if it has one.\<close>

definition table_of :: "falloc_state \<Rightarrow> nat \<Rightarrow> u8 list" where
  "table_of st p = (case fa_bufs st p of
     Some b \<Rightarrow> b | None \<Rightarrow> dblk (fa_fs st) (unat (ind_ptr p (fa_ino st))))"

definition vptr :: "falloc_state \<Rightarrow> nat \<Rightarrow> u32" where
  "vptr st v =
     (if place_of v = 0 then direct (fa_ino st) ! v else ptr_at (table_of st (place_of v)) (rel_of v))"

definition falloc_ok :: "nat \<Rightarrow> falloc_state \<Rightarrow> bool" where
  "falloc_ok n st \<longleftrightarrow> std_fs (fa_fs st) \<and> inode_shape (fa_ino st) \<and> tables_ok (fa_ino st) n \<and>
     (\<forall>p b. fa_bufs st p = Some b \<longrightarrow> p \<in> set (places_used n) \<and> length b = BLOCKSIZE)"

lemma length_table_of:
  assumes "falloc_ok n st" "p \<in> set (places_used n)"
  shows "length (table_of st p) = BLOCKSIZE"
  using assms by (auto simp: falloc_ok_def table_of_def tables_ok_def split: option.split)

lemma load_table_eq:
  assumes "falloc_ok n st" "p \<in> set (places_used n)"
  shows "load_table p st = (table_of st p, st\<lparr>fa_bufs := (fa_bufs st)(p := Some (table_of st p))\<rparr>)"
  using assms
  by (cases "fa_bufs st p")
    (auto simp: load_table_def table_of_def falloc_ok_def tables_ok_def readDataBlock_std fun_upd_idem Let_def)

text \<open>What the loop keeps: the file system and every field of the inode except \<open>direct\<close>.\<close>

definition direct_only :: "falloc_state \<Rightarrow> falloc_state \<Rightarrow> bool" where
  "direct_only st st' \<longleftrightarrow> fa_fs st' = fa_fs st \<and> (\<exists>ds. fa_ino st' = (fa_ino st)\<lparr>direct := ds\<rparr>)"

lemma direct_only_trans: "direct_only a b \<Longrightarrow> direct_only b c \<Longrightarrow> direct_only a c"
  by (auto simp: direct_only_def)

lemma direct_only_refl: "direct_only a a"
  unfolding direct_only_def by (intro conjI exI[of _ "direct (fa_ino a)"]) simp_all

lemma grow_one_Ok:
  assumes ok: "falloc_ok n st" and v: "v < n" "v < max_blocks"
    and tk: "takeFreeBit (fa_bm st) = Ok (idx, bm)"
  obtains st' where "grow_one (of_nat v) st = (Ok (), st')" "falloc_ok n st'" "fa_bm st' = bm"
    "direct_only st st'"
    "\<And>w. w < max_blocks \<Longrightarrow> vptr st' w = (if w = v then idx else vptr st w)"
proof -
  let ?p = "place_of v"
  obtain r where r: "virtualToPlaceRelative (of_nat v) = (r, ?p)" "unat r = rel_of v"
    by (rule virtual_of_nat[OF v(2)])
  have t: "takeBit st' = (Ok idx, st'\<lparr>fa_bm := bm\<rparr>)" if "fa_bm st' = fa_bm st" for st'
    using tk that by (simp add: takeBit_def)
  show ?thesis
  proof (cases "?p = 0")
    case True
    have d: "rel_of v = v" "v < 12" using rel_bound0[OF True] by simp_all
    let ?st' = "st\<lparr>fa_bm := bm, fa_ino := (fa_ino st)\<lparr>direct := (direct (fa_ino st))[v := idx]\<rparr>\<rparr>"
    show ?thesis
    proof (rule that[of ?st'])
      show "grow_one (of_nat v) st = (Ok (), ?st')"
        using r True d by (simp add: grow_one_def t)
      show "falloc_ok n ?st'"
        using ok by (simp add: falloc_ok_def inode_shape_def tables_ok_def)
      show "direct_only st ?st'" by (auto simp: direct_only_def)
      show "vptr ?st' w = (if w = v then idx else vptr st w)" for w
        using ok d True by (auto simp: vptr_def table_of_def falloc_ok_def inode_shape_def
            split: option.splits)
    qed simp
  next
    case False
    have used: "?p \<in> set (places_used n)" by (rule place_used[OF v(1) False])
    have rel: "rel_of v < 1024" by (rule rel_bound[OF v(2) False])
    have len: "length (table_of st ?p) = BLOCKSIZE" by (rule length_table_of[OF ok used])
    let ?b = "put_at (rel_of v * 4) (le_bytes 4 idx) (table_of st ?p)"
    let ?st' = "st\<lparr>fa_bm := bm, fa_bufs := (fa_bufs st)(?p := Some ?b)\<rparr>"
    have len': "length ?b = BLOCKSIZE" using len rel by (simp add: layout)
    show ?thesis
    proof (rule that[of ?st'])
      show "grow_one (of_nat v) st = (Ok (), ?st')"
        using r False len rel
        by (simp add: grow_one_def load_table_eq[OF ok used] t ptr_put_Ok)
      show "falloc_ok n ?st'" using ok used len' by (auto simp: falloc_ok_def)
      show "direct_only st ?st'"
        unfolding direct_only_def by (intro conjI exI[of _ "direct (fa_ino st)"]) simp_all
      show "vptr ?st' w = (if w = v then idx else vptr st w)" if w: "w < max_blocks" for w
      proof (cases "place_of w = ?p")
        case True
        then have "rel_of w < 1024" using rel_bound[OF w] False by simp
        then have "ptr_at ?b (rel_of w) = (if w = v then idx else ptr_at (table_of st ?p) (rel_of w))"
          using True len rel place_rel_inject[of w v] by (auto simp: ptr_at_put)
        moreover have "table_of ?st' ?p = ?b" by (simp add: table_of_def)
        ultimately show ?thesis
          using True False by (simp add: vptr_def)
      next
        case wp: False
        then have "w \<noteq> v" by auto
        moreover have "table_of ?st' (place_of w) = table_of st (place_of w)"
          using wp by (simp add: table_of_def split: option.split)
        ultimately show ?thesis by (simp add: vptr_def)
      qed
    qed simp
  qed
qed

text \<open>
  The loop takes one bit per block, in order, and stores it as the pointer of that block: it is
  the allocator's \<open>take_many\<close> on the bitmap.
\<close>

lemma grow_loop_Ok:
  assumes "falloc_ok n st" "\<And>v. v \<in> set vs \<Longrightarrow> v < n \<and> v < max_blocks" "distinct vs"
    and "take_many takeFreeBit (length vs) (fa_bm st) = Ok (is, bm)"
  obtains st' where "grow_loop (map of_nat vs) st = (Ok (), st')" "falloc_ok n st'" "fa_bm st' = bm"
    "direct_only st st'" "map (vptr st') vs = is"
    "\<And>w. w < max_blocks \<Longrightarrow> w \<notin> set vs \<Longrightarrow> vptr st' w = vptr st w"
  using assms
proof (induction vs arbitrary: st "is" thesis)
  case Nil
  then show ?case by (simp add: direct_only_refl)
next
  case (Cons v vs)
  obtain idx bm1 is1 where tk: "takeFreeBit (fa_bm st) = Ok (idx, bm1)"
    "take_many takeFreeBit (length vs) bm1 = Ok (is1, bm)" "is = idx # is1"
    using Cons.prems(5) by (auto simp: bindO_Ok_iff)
  have v: "v < n" "v < max_blocks" using Cons.prems(3) by auto
  obtain st1 where g: "grow_one (of_nat v) st = (Ok (), st1)" "falloc_ok n st1" "fa_bm st1 = bm1"
    "direct_only st st1"
    and p1: "\<And>w. w < max_blocks \<Longrightarrow> vptr st1 w = (if w = v then idx else vptr st w)"
    by (rule grow_one_Ok[OF Cons.prems(2) v tk(1)]) (rule that; assumption)
  have dist: "v \<notin> set vs" "distinct vs" using Cons.prems(4) by auto
  have tk1: "take_many takeFreeBit (length vs) (fa_bm st1) = Ok (is1, bm)"
    using tk(2) g(3) by simp
  obtain st2 where g2: "grow_loop (map of_nat vs) st1 = (Ok (), st2)" "falloc_ok n st2"
    "fa_bm st2 = bm" "direct_only st1 st2" "map (vptr st2) vs = is1"
    and p2: "\<And>w. w < max_blocks \<Longrightarrow> w \<notin> set vs \<Longrightarrow> vptr st2 w = vptr st1 w"
    proof (rule Cons.IH[OF _ g(2) _ dist(2) tk1])
    show "w < n \<and> w < max_blocks" if "w \<in> set vs" for w using Cons.prems(3) that by simp
  qed (rule that; assumption)
  show ?case
  proof (rule Cons.prems(1)[of st2])
    show "grow_loop (map of_nat (v # vs)) st = (Ok (), st2)" using g g2 by simp
    show "direct_only st st2" by (rule direct_only_trans[OF g(4) g2(4)])
    show "map (vptr st2) (v # vs) = is"
      using g2(5) p2[OF v(2) dist(1)] p1[OF v(2)] tk(3) by simp
    show "vptr st2 w = vptr st w" if "w < max_blocks" "w \<notin> set (v # vs)" for w
      using p2[of w] p1[OF that(1)] that by simp
  qed (use g2 in simp_all)
qed

lemma grow_loop_Panic:
  assumes "falloc_ok n st" "\<And>v. v \<in> set vs \<Longrightarrow> v < n \<and> v < max_blocks"
    and "take_many takeFreeBit (length vs) (fa_bm st) = Panic" "length (fa_bm st) = BLOCKSIZE"
  shows "fst (grow_loop (map of_nat vs) st) = Panic"
  using assms
proof (induction vs arbitrary: st)
  case (Cons v vs)
  have v: "v < n" "v < max_blocks" using Cons.prems(2) by auto
  show ?case
  proof (cases "free_bits (fa_bm st) = {}")
    case True
    then have tk: "takeFreeBit (fa_bm st) = Panic"
      using block_bits.tk_full[OF Cons.prems(4)] by simp
    obtain r where r: "virtualToPlaceRelative (of_nat v) = (r, place_of v)"
      by (rule virtual_of_nat[OF v(2)])
    have t: "fst (takeBit st') = Panic" if "fa_bm st' = fa_bm st" for st'
      using tk that by (simp add: takeBit_def)
    have "fst (grow_one (of_nat v) st) = Panic"
    proof (cases "place_of v = 0")
      case True
      then show ?thesis using r t[of st] by (cases "takeBit st") (simp add: grow_one_def)
    next
      case False
      note l = load_table_eq[OF Cons.prems(1) place_used[OF v(1) False]]
      show ?thesis
        using r False
          t[of "st\<lparr>fa_bufs := (fa_bufs st)(place_of v := Some (table_of st (place_of v)))\<rparr>"]
        by (cases "takeBit (st\<lparr>fa_bufs := (fa_bufs st)(place_of v := Some (table_of st (place_of v)))\<rparr>)")
          (simp add: grow_one_def l)
    qed
    then show ?thesis by (cases "grow_one (of_nat v) st") simp
  next
    case False
    then obtain idx bm where tk: "takeFreeBit (fa_bm st) = Ok (idx, bm)" "length bm = BLOCKSIZE"
      using block_bits.tk_Ok[OF Cons.prems(4)] by blast
    obtain st1 where g: "grow_one (of_nat v) st = (Ok (), st1)" "falloc_ok n st1" "fa_bm st1 = bm"
      by (rule grow_one_Ok[OF Cons.prems(1) v tk(1)])
    have "take_many takeFreeBit (length vs) (fa_bm st1) = Panic"
      using Cons.prems(3) tk(1) g(3)
      by (cases "take_many takeFreeBit (length vs) bm") auto
    then have "fst (grow_loop (map of_nat vs) st1) = Panic"
      using Cons.prems(2) tk(2) g(3) by (intro Cons.IH[OF g(2)]) auto
    then show ?thesis using g(1) by simp
  qed
qed simp

section \<open>What a resize may change on the disk\<close>

text \<open>Everything but the data bitmap and the data blocks in \<open>S\<close> stays as it was.\<close>

definition blocks_frame :: "nat set \<Rightarrow> filesystem \<Rightarrow> filesystem \<Rightarrow> bool" where
  "blocks_frame S fs fs' \<longleftrightarrow> std_fs fs' \<and> freshFormat fs' = freshFormat fs \<and>
     superblock_bytes fs' = superblock_bytes fs \<and> ibitmap fs' = ibitmap fs \<and>
     (\<forall>i < INODES. inode_bytes fs' i = inode_bytes fs i) \<and>
     (\<forall>b. b \<notin> S \<longrightarrow> dblk fs' b = dblk fs b)"

lemma blocks_frame_refl: "std_fs fs \<Longrightarrow> blocks_frame S fs fs"
  by (simp add: blocks_frame_def)

lemma blocks_frame_trans:
  "blocks_frame S a b \<Longrightarrow> blocks_frame T b c \<Longrightarrow> S \<subseteq> U \<Longrightarrow> T \<subseteq> U \<Longrightarrow> blocks_frame U a c"
  unfolding blocks_frame_def by (metis subsetD)

lemma blocks_frame_dblk:
  "std_fs fs \<Longrightarrow> length bs = BLOCKSIZE \<Longrightarrow> b < BLOCKS \<Longrightarrow> b \<in> S \<Longrightarrow>
   blocks_frame S fs (set_dblk b bs fs)"
  by (auto simp: blocks_frame_def view)

lemma blocks_frame_dbitmap:
  "std_fs fs \<Longrightarrow> length bm = BLOCKSIZE \<Longrightarrow> blocks_frame S fs (set_dbitmap bm fs)"
  by (auto simp: blocks_frame_def view)

text \<open>A bitmap whose free bits all name data blocks: the code marks the unused tail as taken.\<close>

definition data_bm :: "u8 list \<Rightarrow> bool" where
  "data_bm bm \<longleftrightarrow> length bm = BLOCKSIZE \<and> free_bits bm \<subseteq> {..<BLOCKS}"

section \<open>Taking the table blocks\<close>

definition new_places :: "nat \<Rightarrow> nat \<Rightarrow> (nat \<times> nat) list \<Rightarrow> nat list" where
  "new_places cur need ps = map fst (filter (\<lambda>(p, base). base < need \<and> cur \<le> base) ps)"

definition tables_only :: "inode \<Rightarrow> inode \<Rightarrow> bool" where
  "tables_only ino ino' \<longleftrightarrow> (\<exists>f s t. ino' = ino\<lparr>find_blk := f, sind_blk := s, tind_blk := t\<rparr>)"

lemma tables_only_refl: "tables_only ino ino"
  unfolding tables_only_def
  by (rule exI[of _ "find_blk ino"], rule exI[of _ "sind_blk ino"], rule exI[of _ "tind_blk ino"]) simp

lemma tables_only_set: "tables_only (set_ind_ptr p b ino) ino' \<Longrightarrow> tables_only ino ino'"
  by (auto simp: tables_only_def set_ind_ptr_def split: if_splits)

lemma ind_ptr_set:
  "p \<in> {1, 2, 3} \<Longrightarrow> q \<in> {1, 2, 3} \<Longrightarrow> ind_ptr q (set_ind_ptr p b ino) = (if q = p then b else ind_ptr q ino)"
  by (auto simp: ind_ptr_def set_ind_ptr_def)

lemma getDataBlock_Ok:
  assumes "takeFreeBit (fa_bm st) = Ok (idx, bm)" "data_bm (fa_bm st)" "std_fs (fa_fs st)"
  shows "getDataBlock st = (Ok idx, st\<lparr>fa_bm := bm, fa_fs := set_dblk (unat idx) zero_block (fa_fs st)\<rparr>)"
    "unat idx < BLOCKS" "unat idx \<in> free_bits (fa_bm st)" "data_bm bm"
    "free_bits bm = free_bits (fa_bm st) - {unat idx}"
proof -
  have len: "length (fa_bm st) = BLOCKSIZE" using assms(2) by (simp add: data_bm_def)
  note m = block_bits.tk_member[OF len assms(1)]
  show b: "unat idx < BLOCKS" using m(1) assms(2) by (auto simp: data_bm_def)
  show "data_bm bm" using m assms(2) by (auto simp: data_bm_def)
  show "unat idx \<in> free_bits (fa_bm st)" "free_bits bm = free_bits (fa_bm st) - {unat idx}"
    by (rule m)+
  show "getDataBlock st = (Ok idx, st\<lparr>fa_bm := bm, fa_fs := set_dblk (unat idx) zero_block (fa_fs st)\<rparr>)"
    using assms b by (simp add: getDataBlock_def takeBit_def writeDataBlock_std)
qed

lemma take_many_subset: "length bm = BLOCKSIZE \<Longrightarrow> take_many takeFreeBit n bm = Ok (ts, bm') \<Longrightarrow> unat ` set ts \<subseteq> free_bits bm"
  using block_bits.take_many_Ok[of bm n] block_bits.take_many_Panic[of bm n] by (cases "n \<le> card (free_bits bm)") auto

lemma grow_tables_Ok:
  assumes "std_fs (fa_fs st)" "data_bm (fa_bm st)" "distinct (map fst ps)" "fst ` set ps \<subseteq> {1, 2, 3}"
    and "take_many takeFreeBit (length (new_places cur need ps)) (fa_bm st) = Ok (ts, bm)"
  obtains st' where "grow_tables cur need ps st = (Ok (), st')" "fa_bm st' = bm"
    "fa_bufs st' = fa_bufs st" "tables_only (fa_ino st) (fa_ino st')"
    "map (\<lambda>p. ind_ptr p (fa_ino st')) (new_places cur need ps) = ts"
    "\<forall>p \<in> {1, 2, 3} - set (new_places cur need ps). ind_ptr p (fa_ino st') = ind_ptr p (fa_ino st)"
    "blocks_frame (unat ` set ts) (fa_fs st) (fa_fs st')"
    "\<forall>t \<in> set ts. dblk (fa_fs st') (unat t) = zero_block"
  using assms
proof (induction ps arbitrary: st ts thesis)
  case Nil
  then show ?case by (simp add: new_places_def tables_only_refl blocks_frame_refl)
next
  case (Cons q ps)
  obtain p base where q: "q = (p, base)" by (cases q)
  have dist: "p \<notin> fst ` set ps" "distinct (map fst ps)" "fst ` set ps \<subseteq> {1, 2, 3}" "p \<in> {1, 2, 3}"
    using Cons.prems(4,5) q by auto
  have sub: "set (new_places cur need ps) \<subseteq> fst ` set ps" by (auto simp: new_places_def)
  show ?case
  proof (cases "base < need \<and> cur \<le> base")
    case False
    then have np: "new_places cur need (q # ps) = new_places cur need ps"
      by (simp add: new_places_def q)
    have g: "grow_tables cur need (q # ps) st = grow_tables cur need ps st"
      using False q by auto
    show ?thesis
      by (rule Cons.IH[OF _ Cons.prems(2,3) dist(2,3) Cons.prems(6)[unfolded np]],
        rule Cons.prems(1)) (simp_all add: np g)
  next
    case True
    then have np: "new_places cur need (q # ps) = p # new_places cur need ps"
      by (simp add: new_places_def q)
    obtain idx bm1 ts1 where tk: "takeFreeBit (fa_bm st) = Ok (idx, bm1)"
      "take_many takeFreeBit (length (new_places cur need ps)) bm1 = Ok (ts1, bm)" "ts = idx # ts1"
      using Cons.prems(6) by (auto simp: np bindO_Ok_iff)
    note b = getDataBlock_Ok[OF tk(1) Cons.prems(3,2)]
    let ?st1 = "st\<lparr>fa_bm := bm1, fa_fs := set_dblk (unat idx) zero_block (fa_fs st),
      fa_ino := set_ind_ptr p idx (fa_ino st)\<rparr>"
    have new: "unat ` set ts1 \<subseteq> free_bits bm1" by (rule take_many_subset[OF _ tk(2)]) (use b(4) in \<open>simp add: data_bm_def\<close>)
    have st1: "std_fs (fa_fs ?st1)" "data_bm (fa_bm ?st1)"
      "take_many takeFreeBit (length (new_places cur need ps)) (fa_bm ?st1) = Ok (ts1, bm)"
      using b tk(2) Cons.prems(2) by simp_all
    obtain st2 where g: "grow_tables cur need ps ?st1 = (Ok (), st2)" "fa_bm st2 = bm"
      "fa_bufs st2 = fa_bufs ?st1" "tables_only (fa_ino ?st1) (fa_ino st2)"
      "map (\<lambda>p. ind_ptr p (fa_ino st2)) (new_places cur need ps) = ts1"
      "\<forall>p \<in> {1, 2, 3} - set (new_places cur need ps). ind_ptr p (fa_ino st2) = ind_ptr p (fa_ino ?st1)"
      "blocks_frame (unat ` set ts1) (fa_fs ?st1) (fa_fs st2)"
      "\<forall>t \<in> set ts1. dblk (fa_fs st2) (unat t) = zero_block"
      by (rule Cons.IH[OF _ st1(1,2) dist(2,3) st1(3)])
    have notin: "p \<notin> set (new_places cur need ps)" using sub dist(1) by blast
    show ?thesis
    proof (rule Cons.prems(1)[of st2])
      show "grow_tables cur need (q # ps) st = (Ok (), st2)"
        using True q g(1) b(1) by simp
      show "tables_only (fa_ino st) (fa_ino st2)" using g(4) by (auto dest: tables_only_set)
      show "map (\<lambda>p. ind_ptr p (fa_ino st2)) (new_places cur need (q # ps)) = ts"
        using np g(5,6) notin dist(4) tk(3) by (simp add: ind_ptr_set)
      show "\<forall>r \<in> {1, 2, 3} - set (new_places cur need (q # ps)).
          ind_ptr r (fa_ino st2) = ind_ptr r (fa_ino st)"
        using g(6) dist(4) by (auto simp: np ind_ptr_set)
      show "blocks_frame (unat ` set ts) (fa_fs st) (fa_fs st2)"
      proof -
        have "blocks_frame {unat idx} (fa_fs st) (fa_fs ?st1)"
          using Cons.prems(2) b(2) by (simp add: blocks_frame_dblk)
        from blocks_frame_trans[OF this g(7)] tk(3) show ?thesis by auto
      qed
      have "unat idx \<notin> unat ` set ts1" using new b(5) by blast
      then have "dblk (fa_fs st2) (unat idx) = zero_block"
        using g(7) Cons.prems(2) b(2) by (simp add: blocks_frame_def view)
      then show "\<forall>t \<in> set ts. dblk (fa_fs st2) (unat t) = zero_block"
        using g(8) tk(3) by simp
    qed (use g in simp_all)
  qed
qed

section \<open>Writing the tables back\<close>

definition flushed :: "(nat \<times> nat) list \<Rightarrow> falloc_state \<Rightarrow> nat set" where
  "flushed ps st = (\<lambda>p. unat (ind_ptr p (fa_ino st))) ` {p \<in> fst ` set ps. fa_bufs st p \<noteq> None}"

lemma flushedE:
  assumes "w \<in> flushed ps st"
  obtains q where "q \<in> fst ` set ps" "fa_bufs st q \<noteq> None" "unat (ind_ptr q (fa_ino st)) = w"
  using assms unfolding flushed_def by (elim imageE) blast

lemma flush_tables_write:
  assumes "std_fs (fa_fs st)" "distinct (map fst ps)" "\<forall>(p, base) \<in> set ps. \<not> freed cur need base"
    and bufs: "\<And>p b. p \<in> fst ` set ps \<Longrightarrow> fa_bufs st p = Some b \<Longrightarrow>
      length b = BLOCKSIZE \<and> unat (ind_ptr p (fa_ino st)) < BLOCKS"
    and inj: "inj_on (\<lambda>p. unat (ind_ptr p (fa_ino st))) {p \<in> fst ` set ps. fa_bufs st p \<noteq> None}"
  shows "\<exists>fs'. flush_tables cur need ps st = st\<lparr>fa_fs := fs'\<rparr> \<and>
    blocks_frame (flushed ps st) (fa_fs st) fs' \<and>
    (\<forall>p \<in> fst ` set ps. \<forall>b. fa_bufs st p = Some b \<longrightarrow> dblk fs' (unat (ind_ptr p (fa_ino st))) = b)"
  using assms
proof (induction ps arbitrary: st)
  case Nil
  then show ?case by (intro exI[of _ "fa_fs st"]) (simp add: blocks_frame_refl)
next
  case (Cons q ps)
  obtain p base where q: "q = (p, base)" by (cases q)
  have nf: "\<not> freed cur need base" and dist: "p \<notin> fst ` set ps" "distinct (map fst ps)"
    and nfs: "\<forall>(p, base) \<in> set ps. \<not> freed cur need base"
    using Cons.prems(2,3) q by auto
  show ?case
  proof (cases "fa_bufs st p")
    case None
    have same: "{r \<in> fst ` set (q # ps). fa_bufs st r \<noteq> None} = {r \<in> fst ` set ps. fa_bufs st r \<noteq> None}"
      using None q by auto
    then have fl: "flushed (q # ps) st = flushed ps st" by (simp only: flushed_def)
    have "\<exists>fs'. flush_tables cur need ps st = st\<lparr>fa_fs := fs'\<rparr> \<and>
      blocks_frame (flushed ps st) (fa_fs st) fs' \<and>
      (\<forall>p \<in> fst ` set ps. \<forall>b. fa_bufs st p = Some b \<longrightarrow> dblk fs' (unat (ind_ptr p (fa_ino st))) = b)"
      using Cons.prems(4,5) unfolding same by (intro Cons.IH[OF Cons.prems(1) dist(2) nfs]) auto
    then show ?thesis using None q by (simp add: fl[unfolded q])
  next
    case (Some b)
    let ?w = "unat (ind_ptr p (fa_ino st))"
    have b: "length b = BLOCKSIZE" "?w < BLOCKS" using Cons.prems(4)[of p b] Some q by auto
    let ?fs1 = "set_dblk ?w b (fa_fs st)"
    let ?st1 = "st\<lparr>fa_fs := ?fs1\<rparr>"
    have std: "std_fs (fa_fs ?st1)" using Cons.prems(1) b by simp
    have inj1: "inj_on (\<lambda>p. unat (ind_ptr p (fa_ino ?st1))) {p \<in> fst ` set ps. fa_bufs ?st1 p \<noteq> None}"
      using inj_on_subset[OF Cons.prems(5), of "{p \<in> fst ` set ps. fa_bufs st p \<noteq> None}"] by auto
    have "\<exists>fs'. flush_tables cur need ps ?st1 = ?st1\<lparr>fa_fs := fs'\<rparr> \<and>
      blocks_frame (flushed ps ?st1) (fa_fs ?st1) fs' \<and>
      (\<forall>p \<in> fst ` set ps. \<forall>b. fa_bufs ?st1 p = Some b \<longrightarrow> dblk fs' (unat (ind_ptr p (fa_ino ?st1))) = b)"
      using Cons.prems(4) by (intro Cons.IH[OF std dist(2) nfs _ inj1]) auto
    then obtain fs' where fs': "flush_tables cur need ps ?st1 = st\<lparr>fa_fs := fs'\<rparr>"
      "blocks_frame (flushed ps st) ?fs1 fs'"
      "\<forall>p \<in> fst ` set ps. \<forall>b. fa_bufs st p = Some b \<longrightarrow> dblk fs' (unat (ind_ptr p (fa_ino st))) = b"
      by (auto simp: flushed_def)
    have fl: "flushed (q # ps) st = insert ?w (flushed ps st)"
      using Some q by (auto simp: flushed_def)
    have out: "?w \<notin> flushed ps st"
    proof
      assume "?w \<in> flushed ps st"
      then obtain r where r: "r \<in> fst ` set ps" "fa_bufs st r \<noteq> None" "unat (ind_ptr r (fa_ino st)) = ?w"
        by (rule flushedE)
      then have "r = p" using inj_onD[OF Cons.prems(5), of r p] Some q by auto
      with r(1) dist(1) show False by simp
    qed
    have "dblk fs' ?w = b"
      using fs'(2) out Cons.prems(1) b by (simp add: blocks_frame_def view)
    moreover have "blocks_frame (insert ?w (flushed ps st)) (fa_fs st) fs'"
    proof -
      have "blocks_frame {?w} (fa_fs st) ?fs1" using Cons.prems(1) b by (simp add: blocks_frame_dblk)
      from blocks_frame_trans[OF this fs'(2)] show ?thesis by auto
    qed
    moreover have "flush_tables cur need (q # ps) st = st\<lparr>fa_fs := fs'\<rparr>"
      using fs'(1) Some q nf b Cons.prems(1) by (simp add: writeDataBlock_std)
    ultimately show ?thesis
      using fs'(3) Some fl unfolding q by (intro exI[of _ fs']) simp
  qed
qed

section \<open>Growing\<close>

lemma dbitmap_read:
  assumes "std_fs fs"
  shows "MemDisk_ReadAt (disk fs) (replicate BLOCKSIZE 0) (uint (dataBitmapStartBlock (superBlk fs)) * int BLOCKSIZE) =
    (dbitmap fs, BLOCKSIZE, None)"
proof -
  have off: "uint (dataBitmapStartBlock (superBlk fs)) * int BLOCKSIZE = int (254 * BLOCKSIZE)"
    using assms by (simp add: std_superBlk)
  show ?thesis
    unfolding off using assms
    by (subst mem.read_inside) (auto simp: std_fs_def dbitmap_def region_def layout)
qed

lemma Falloc_finish_eq:
  assumes "flush_tables cur need (rev table_steps) st = st\<lparr>fa_fs := fs'\<rparr>" "std_fs fs'"
    and "length (fa_bm st) = BLOCKSIZE"
  shows "Falloc_finish cur need sz st = (Ok (), ((fa_ino st)\<lparr>isize := sz\<rparr>, set_dbitmap (fa_bm st) fs'))"
proof -
  have off: "dataBitmapStartBlock (superBlk fs') = 254"
    using assms by (simp add: std_superBlk)
  have "MemDisk_WriteAt (disk fs') (fa_bm st) (int (254 * BLOCKSIZE)) =
      ((disk fs')\<lparr>buf := put_at (254 * BLOCKSIZE) (fa_bm st) (buf (disk fs'))\<rparr>, BLOCKSIZE, None)"
    using assms by (subst WriteAt_inside) (auto simp: std_fs_def layout)
  then show ?thesis
    by (simp add: Falloc_finish_def Let_def assms(1) off set_dbitmap_def put_disk_def)
qed

lemma table_steps_simps [simp]:
  "distinct (map fst table_steps)" "fst ` set table_steps = {1, 2, 3}"
  "distinct (map fst (rev table_steps))" "fst ` set (rev table_steps) = {1, 2, 3}"
  by (auto simp: table_steps_def)

lemma places_used_new:
  assumes "cur \<le> need"
  shows "mset (places_used need) = mset (places_used cur) + mset (new_places cur need table_steps)"
    "set (places_used cur) \<inter> set (new_places cur need table_steps) = {}"
  using assms
  by (auto simp: places_used_def place_base_def new_places_def table_steps_def)

lemma places_used_123: "set (places_used n) \<subseteq> {1, 2, 3}"
  by (auto simp: places_used_def)

lemma distinct_places_used: "distinct (places_used n)"
  by (auto simp: places_used_def)

lemma table_list_inj:
  assumes "distinct (table_list ino n)"
  shows "inj_on (\<lambda>p. unat (ind_ptr p ino)) (set (places_used n))"
  using assms distinct_places_used[of n]
  by (auto simp: table_list_def distinct_map inj_on_def word_unat_eq_iff)

lemma grow_finish:
  assumes ok: "falloc_ok need st" and grow: "cur < need" and need: "need \<le> max_blocks"
    and dist: "distinct (table_list (fa_ino st) need)" and bm: "length (fa_bm st) = BLOCKSIZE"
  obtains fs' where
    "Falloc_finish cur need sz st = (Ok (), ((fa_ino st)\<lparr>isize := sz\<rparr>, fs'))"
    "blocks_frame (unat ` set (table_list (fa_ino st) need)) (fa_fs st) fs'"
    "dbitmap fs' = fa_bm st" "blk_list fs' (fa_ino st) need = map (vptr st) [0..<need]"
proof -
  let ?ino = "fa_ino st"
  let ?F = "{p \<in> fst ` set (rev table_steps). fa_bufs st p \<noteq> None}"
  have F: "?F \<subseteq> set (places_used need)" using ok by (auto simp: falloc_ok_def)
  have std: "std_fs (fa_fs st)" using ok by (simp add: falloc_ok_def)
  note inj = table_list_inj[OF dist]
  have nf: "\<forall>(p, base) \<in> set (rev table_steps). \<not> freed cur need base"
    using grow by (auto simp: freed_def)
  have bufs: "length b = BLOCKSIZE \<and> unat (ind_ptr p ?ino) < BLOCKS" if "fa_bufs st p = Some b" for p b
    using ok that by (auto simp: falloc_ok_def tables_ok_def)
  obtain fs1 where fs1: "flush_tables cur need (rev table_steps) st = st\<lparr>fa_fs := fs1\<rparr>"
    "blocks_frame (flushed (rev table_steps) st) (fa_fs st) fs1"
    "\<forall>p \<in> fst ` set (rev table_steps). \<forall>b. fa_bufs st p = Some b \<longrightarrow> dblk fs1 (unat (ind_ptr p ?ino)) = b"
    using flush_tables_write[OF std table_steps_simps(3) nf bufs inj_on_subset[OF inj F]] by blast
  have std1: "std_fs fs1" using fs1(2) by (simp add: blocks_frame_def)
  let ?fs' = "set_dbitmap (fa_bm st) fs1"
  have sub: "flushed (rev table_steps) st \<subseteq> unat ` set (table_list ?ino need)"
    using F by (auto simp: flushed_def table_list_def)
  have tab: "dblk ?fs' (unat (ind_ptr p ?ino)) = table_of st p" if p: "p \<in> set (places_used need)" for p
  proof (cases "fa_bufs st p")
    case None
    have "unat (ind_ptr p ?ino) \<notin> flushed (rev table_steps) st"
    proof
      assume "unat (ind_ptr p ?ino) \<in> flushed (rev table_steps) st"
      then obtain q where q: "q \<in> ?F" "unat (ind_ptr q ?ino) = unat (ind_ptr p ?ino)"
        by (rule flushedE) blast
      have "q \<in> set (places_used need)" using q(1) F by blast
      with q(2) p have "q = p" by (intro inj_onD[OF inj, of q p])
      with None q(1) show False by simp
    qed
    then show ?thesis using None fs1(2) std1 bm by (simp add: table_of_def blocks_frame_def view)
  next
    case (Some b)
    have "p \<in> fst ` set (rev table_steps)" using p places_used_123 by auto
    with fs1(3) Some have "dblk fs1 (unat (ind_ptr p ?ino)) = b" by blast
    then show ?thesis using Some std1 bm by (simp add: table_of_def view)
  qed
  show ?thesis
  proof (rule that[of ?fs'])
    show "Falloc_finish cur need sz st = (Ok (), (?ino\<lparr>isize := sz\<rparr>, ?fs'))"
      by (rule Falloc_finish_eq[OF fs1(1) std1 bm])
    show "blocks_frame (unat ` set (table_list ?ino need)) (fa_fs st) ?fs'"
      by (rule blocks_frame_trans[OF fs1(2) blocks_frame_dbitmap[OF std1 bm] sub]) auto
    show "dbitmap ?fs' = fa_bm st" using std1 bm by (simp add: view)
    show "blk_list ?fs' ?ino need = map (vptr st) [0..<need]"
      using tab place_used by (auto simp: blk_list_def blk_at_def vptr_def)
  qed
qed

lemma places_used_table_list:
  assumes "cur \<le> need" "map (\<lambda>p. ind_ptr p ino') (new_places cur need table_steps) = ts"
    "\<forall>p \<in> {1, 2, 3} - set (new_places cur need table_steps). ind_ptr p ino' = ind_ptr p ino"
  shows "mset (table_list ino' need) = mset (table_list ino cur) + mset ts"
proof -
  note new = places_used_new[OF assms(1)]
  have old: "ind_ptr p ino' = ind_ptr p ino" if "p \<in> set (places_used cur)" for p
    using that new(2) places_used_123 assms(3) by blast
  have "mset (table_list ino' need) = image_mset (\<lambda>p. ind_ptr p ino') (mset (places_used need))"
    by (simp add: table_list_def)
  also have "\<dots> = image_mset (\<lambda>p. ind_ptr p ino') (mset (places_used cur)) + mset ts"
    using assms(2) by (simp add: new(1) flip: mset_map)
  also have "image_mset (\<lambda>p. ind_ptr p ino') (mset (places_used cur)) = mset (table_list ino cur)"
    unfolding table_list_def mset_map by (rule image_mset_cong) (use old in simp)
  finally show ?thesis .
qed

text \<open>The fields a resize of the blocks may change.\<close>

definition blocks_only :: "inode \<Rightarrow> inode \<Rightarrow> bool" where
  "blocks_only ino ino' \<longleftrightarrow> fType ino' = fType ino \<and> refs ino' = refs ino \<and> owner ino' = owner ino \<and>
   setuid ino' = setuid ino \<and> ownerMode ino' = ownerMode ino \<and> otherMode ino' = otherMode ino \<and>
   createdAt ino' = createdAt ino \<and> modifiedAt ino' = modifiedAt ino \<and>
   num ino' = num ino \<and> ops ino' = ops ino"

definition needed_blocks :: "nat \<Rightarrow> nat \<Rightarrow> nat" where
  "needed_blocks cur need = length (new_places cur need table_steps) + (need - cur)"

lemma blk_at_frame:
  assumes "blocks_frame S fs fs'" "place_of v \<noteq> 0 \<Longrightarrow> unat (ind_ptr (place_of v) ino) \<notin> S"
    "place_of v = 0 \<Longrightarrow> direct ino' ! v = direct ino ! v"
    "place_of v \<noteq> 0 \<Longrightarrow> ind_ptr (place_of v) ino' = ind_ptr (place_of v) ino"
  shows "blk_at fs' ino' v = blk_at fs ino v"
  using assms by (auto simp: blk_at_def blocks_frame_def)

text \<open>The bits that a growing file takes: first those of its new tables, then those of its new blocks.\<close>

lemma two_takes:
  assumes "data_bm bm0" "n + m \<le> card (free_bits bm0)"
  obtains ts bm1 "is" bm2 where "take_many takeFreeBit n bm0 = Ok (ts, bm1)" "take_many takeFreeBit m bm1 = Ok (is, bm2)"
    "length ts = n" "length is = m" "unat ` set ts \<subseteq> free_bits bm0"
    "distinct (map unat (ts @ is))" "unat ` set (ts @ is) \<subseteq> free_bits bm0"
    "free_bits bm2 = free_bits bm0 - unat ` set (ts @ is)" "data_bm bm2"
proof -
  have "length bm0 = BLOCKSIZE" "n \<le> card (free_bits bm0)" using assms by (simp_all add: data_bm_def)
  then obtain ts bm1 where t1: "take_many takeFreeBit n bm0 = Ok (ts, bm1)" "length ts = n"
    "distinct (map unat ts)" "unat ` set ts \<subseteq> free_bits bm0" "free_bits bm1 = free_bits bm0 - unat ` set ts"
    "length bm1 = BLOCKSIZE"
    using block_bits.take_many_Ok[of bm0 n] by auto
  have "card (free_bits bm1) = card (free_bits bm0) - n"
    using t1(2-5) distinct_card[OF t1(3)] by (simp add: card_Diff_subset)
  then have "m \<le> card (free_bits bm1)" using assms(2) by simp
  then obtain "is" bm2 where t2: "take_many takeFreeBit m bm1 = Ok (is, bm2)"
    "length is = m" "distinct (map unat is)" "unat ` set is \<subseteq> free_bits bm1"
    "free_bits bm2 = free_bits bm1 - unat ` set is" "length bm2 = BLOCKSIZE"
    using block_bits.take_many_Ok[OF t1(6), of m] by auto
  show ?thesis
    by (rule that[OF t1(1) t2(1) t1(2) t2(2) t1(4)]) (use t1 t2 assms(1) in \<open>auto simp: data_bm_def\<close>)
qed

text \<open>The new tables: the file has them, and its old blocks are where they were.\<close>

lemma grown_tables:
  assumes std: "std_fs fs" and shape: "inode_shape ino" and bm: "data_bm bm0"
    and own: "\<forall>b \<in> set (table_list ino cur). unat b < BLOCKS \<and> unat b \<notin> free_bits bm0"
    and len: "cur \<le> need"
    and st0: "st0 = \<lparr>fa_ino = ino, fa_fs = fs, fa_bm = bm0, fa_bufs = (\<lambda>_. None)\<rparr>"
    and ts: "take_many takeFreeBit (length (new_places cur need table_steps)) bm0 = Ok (ts, bm1)" "unat ` set ts \<subseteq> free_bits bm0"
  obtains st1 where "grow_tables cur need table_steps st0 = (Ok (), st1)" "fa_bm st1 = bm1" "falloc_ok need st1"
    "tables_only ino (fa_ino st1)" "mset (table_list (fa_ino st1) need) = mset (table_list ino cur) + mset ts"
    "blocks_frame (unat ` set ts) fs (fa_fs st1)" "\<forall>v < cur. vptr st1 v = blk_at fs ino v"
proof -
  let ?np = "new_places cur need table_steps"
  have s0: "std_fs (fa_fs st0)" "data_bm (fa_bm st0)" "fa_bufs st0 = (\<lambda>_. None)" "fa_ino st0 = ino"
    "fa_fs st0 = fs" "take_many takeFreeBit (length ?np) (fa_bm st0) = Ok (ts, bm1)"
    using std bm ts(1) by (simp_all add: st0)
  obtain st1 where g: "grow_tables cur need table_steps st0 = (Ok (), st1)" "fa_bm st1 = bm1"
    "fa_bufs st1 = fa_bufs st0" "tables_only (fa_ino st0) (fa_ino st1)"
    "map (\<lambda>p. ind_ptr p (fa_ino st1)) ?np = ts"
    "\<forall>p \<in> {1, 2, 3} - set ?np. ind_ptr p (fa_ino st1) = ind_ptr p (fa_ino st0)"
    "blocks_frame (unat ` set ts) (fa_fs st0) (fa_fs st1)"
    by (rule grow_tables_Ok[OF s0(1,2) table_steps_simps(1) _ s0(6)]) simp_all
  have old: "ind_ptr p (fa_ino st1) = ind_ptr p ino" if "p \<in> set (places_used cur)" for p
  proof -
    have "p \<in> {1, 2, 3} - set ?np" using that places_used_new(2)[OF len] places_used_123 by blast
    then show ?thesis using g(6) s0(4) by simp
  qed
  have tl: "mset (table_list (fa_ino st1) need) = mset (table_list ino cur) + mset ts"
    using places_used_table_list[OF len g(5,6)] s0(4) by simp
  have shape1: "inode_shape (fa_ino st1)" "direct (fa_ino st1) = direct ino"
    using g(4) shape by (auto simp: s0(4) tables_only_def inode_shape_def)
  have "set (table_list (fa_ino st1) need) = set (table_list ino cur) \<union> set ts"
    using arg_cong[OF tl, of set_mset] by simp
  then have "\<forall>b \<in> set (table_list (fa_ino st1) need). unat b < BLOCKS"
    using own ts(2) bm by (auto simp: data_bm_def)
  then have "tables_ok (fa_ino st1) need" by (simp add: tables_ok_def table_list_def)
  then have ok1: "falloc_ok need st1"
    using g(3,7) shape1 by (simp add: falloc_ok_def s0(3) blocks_frame_def)
  have "vptr st1 v = blk_at fs ino v" if v: "v < cur" for v
  proof -
    have "blk_at (fa_fs st1) (fa_ino st1) v = blk_at fs ino v"
    proof (rule blk_at_frame[OF g(7)[unfolded s0(5)]])
      assume nz: "place_of v \<noteq> 0"
      then have "ind_ptr (place_of v) ino \<in> set (table_list ino cur)"
        using place_used[OF v nz] by (simp add: table_list_def)
      then show "unat (ind_ptr (place_of v) ino) \<notin> unat ` set ts" using own ts(2) by blast
      show "ind_ptr (place_of v) (fa_ino st1) = ind_ptr (place_of v) ino"
        using old place_used[OF v nz] by blast
    qed (simp add: shape1)
    moreover have "vptr st1 v = blk_at (fa_fs st1) (fa_ino st1) v"
      using g(3) s0(3) by (simp add: vptr_def blk_at_def table_of_def)
    ultimately show ?thesis by simp
  qed
  with g(1,2,4,7) ok1 tl show ?thesis using that s0(4,5) by simp
qed

lemma grow_phases:
  assumes std: "std_fs fs" and shape: "inode_shape ino" and bm: "data_bm bm0"
    and own: "\<forall>b \<in> set (table_list ino cur). unat b < BLOCKS \<and> unat b \<notin> free_bits bm0"
    and len: "cur \<le> need" "need \<le> max_blocks" "needed_blocks cur need \<le> card (free_bits bm0)"
    and st0: "st0 = \<lparr>fa_ino = ino, fa_fs = fs, fa_bm = bm0, fa_bufs = (\<lambda>_. None)\<rparr>"
  obtains st2 ts "is" where
    "bindS (grow_tables cur need table_steps st0) (\<lambda>_ st. grow_loop (map of_nat [cur..<need]) st) = (Ok (), st2)"
    "falloc_ok need st2" "data_bm (fa_bm st2)" "blocks_only ino (fa_ino st2)"
    "map (vptr st2) [0..<need] = blk_list fs ino cur @ is"
    "mset (table_list (fa_ino st2) need) = mset (table_list ino cur) + mset ts"
    "distinct (map unat (ts @ is))" "unat ` set (ts @ is) \<subseteq> free_bits bm0"
    "free_bits (fa_bm st2) = free_bits bm0 - unat ` set (ts @ is)"
    "blocks_frame (unat ` set ts) fs (fa_fs st2)" "length (ts @ is) = needed_blocks cur need"
proof -
  let ?np = "new_places cur need table_steps"
  have "length ?np + (need - cur) \<le> card (free_bits bm0)" using len(3) by (simp add: needed_blocks_def)
  then obtain ts bm1 "is" bm2 where t: "take_many takeFreeBit (length ?np) bm0 = Ok (ts, bm1)"
    "take_many takeFreeBit (need - cur) bm1 = Ok (is, bm2)" "length ts = length ?np" "length is = need - cur"
    "unat ` set ts \<subseteq> free_bits bm0" "distinct (map unat (ts @ is))" "unat ` set (ts @ is) \<subseteq> free_bits bm0"
    "free_bits bm2 = free_bits bm0 - unat ` set (ts @ is)" "data_bm bm2"
    by (rule two_takes[OF bm])
  obtain st1 where g: "grow_tables cur need table_steps st0 = (Ok (), st1)" "fa_bm st1 = bm1" "falloc_ok need st1"
    "tables_only ino (fa_ino st1)" "mset (table_list (fa_ino st1) need) = mset (table_list ino cur) + mset ts"
    "blocks_frame (unat ` set ts) fs (fa_fs st1)" and v1: "\<forall>v < cur. vptr st1 v = blk_at fs ino v"
    by (rule grown_tables[OF std shape bm own len(1) st0 t(1,5)])
  have loop: "\<And>v. v \<in> set [cur..<need] \<Longrightarrow> v < need \<and> v < max_blocks"
    "take_many takeFreeBit (length [cur..<need]) (fa_bm st1) = Ok (is, bm2)"
    using len(2) t(2) g(2) by simp_all
  obtain st2 where l: "grow_loop (map of_nat [cur..<need]) st1 = (Ok (), st2)" "falloc_ok need st2"
    "fa_bm st2 = bm2" "direct_only st1 st2" "map (vptr st2) [cur..<need] = is"
    and l2: "\<And>w. w < max_blocks \<Longrightarrow> w \<notin> set [cur..<need] \<Longrightarrow> vptr st2 w = vptr st1 w"
    by (rule grow_loop_Ok[OF g(3) loop(1) _ loop(2)]) (simp | rule that; assumption)+
  show ?thesis
  proof (rule that[of st2 "is" ts])
    show "bindS (grow_tables cur need table_steps st0) (\<lambda>_ st. grow_loop (map of_nat [cur..<need]) st) = (Ok (), st2)"
      using g(1) l(1) by simp
    show "blocks_only ino (fa_ino st2)"
      using g(4) l(4) by (auto simp: direct_only_def tables_only_def blocks_only_def)
    have "[0..<need] = [0..<cur] @ [cur..<need]" using len(1) upt_add_eq_append[of 0 cur "need - cur"] by simp
    moreover have "map (vptr st2) [0..<cur] = blk_list fs ino cur"
      using l2 v1 len by (auto simp: blk_list_def)
    ultimately show "map (vptr st2) [0..<need] = blk_list fs ino cur @ is" using l(5) by simp
    show "mset (table_list (fa_ino st2) need) = mset (table_list ino cur) + mset ts"
      using g(5) l(4) by (auto simp: direct_only_def table_list_def)
    show "blocks_frame (unat ` set ts) fs (fa_fs st2)" using g(6) l(4) by (simp add: direct_only_def)
  qed (use l t in \<open>simp_all add: needed_blocks_def\<close>)
qed

lemma blk_list_upt: "map (blk_at fs ino) [0..<n] = blk_list fs ino n"
  by (simp add: blk_list_def)

lemma blk_list_isize [simp]: "blk_list fs (ino\<lparr>isize := sz\<rparr>) n = blk_list fs ino n"
  "blk_list fs (ino\<lparr>dirty := d\<rparr>) n = blk_list fs ino n"
  by (simp_all add: blk_list_def blk_at_def)

lemma table_list_isize [simp]: "table_list (ino\<lparr>isize := sz\<rparr>) n = table_list ino n"
  "table_list (ino\<lparr>dirty := d\<rparr>) n = table_list ino n"
  by (simp_all add: table_list_def)

lemma owned_dirty [simp]: "owned fs (ino\<lparr>dirty := d\<rparr>) = owned fs ino"
  by (simp add: owned_def)

lemma inode_wf_dirty [simp]: "inode_wf fs (ino\<lparr>dirty := d\<rparr>) = inode_wf fs ino"
  by (simp add: inode_wf_def)

lemma used_iff:
  "unat b < BLOCKS \<Longrightarrow> length bm = BLOCKSIZE \<Longrightarrow> bm_bit bm (unat b) \<longleftrightarrow> unat b \<notin> free_bits bm"
  by (simp add: free_bits_def layout)

lemma owned_used:
  assumes "inode_wf fs ino" "std_fs fs" "b \<in> set (owned fs ino)"
  shows "unat b < BLOCKS" "unat b \<notin> free_bits (dbitmap fs)"
proof -
  have *: "unat b < BLOCKS" "bm_bit (dbitmap fs) (unat b)"
    using assms(1,3) unfolding inode_wf_def by blast+
  show "unat b < BLOCKS" by (rule *)
  show "unat b \<notin> free_bits (dbitmap fs)" using *(2) by (simp add: free_bits_def)
qed

lemma distinct_mset_union:
  assumes "mset zs = mset xs + mset ys" "distinct xs" "distinct ys" "set xs \<inter> set ys = {}"
  shows "distinct zs"
proof -
  have "mset zs = mset (xs @ ys)" using assms(1) by simp
  then have "distinct zs = distinct (xs @ ys)" by (rule mset_eq_imp_distinct_iff)
  with assms(2-4) show ?thesis by (simp only: distinct_append)
qed

lemma Falloc_grow:
  assumes std: "std_fs fs" and wf: "inode_wf fs ino" and bm: "data_bm (dbitmap fs)"
    and cur: "cur = nblocks (unat (isize ino))" and need: "need = nblocks (unat newSize)"
    and len: "cur < need" "need \<le> max_blocks" "needed_blocks cur need \<le> card (free_bits (dbitmap fs))"
  obtains ino' fs' new where "Falloc ino newSize fs = (Ok (), (ino', fs'))"
    "std_fs fs'" "inode_wf fs' ino'" "isize ino' = newSize" "blocks_only ino ino'"
    "take cur (blk_list fs' ino' need) = blk_list fs ino cur"
    "mset (owned fs' ino') = mset (owned fs ino) + mset new" "distinct (map unat new)"
    "unat ` set new \<subseteq> free_bits (dbitmap fs)" "length new = needed_blocks cur need"
    "free_bits (dbitmap fs') = free_bits (dbitmap fs) - unat ` set new" "data_bm (dbitmap fs')"
    "blocks_frame (unat ` set (table_list ino' need)) fs fs'"
    "unat ` set (drop cur (blk_list fs' ino' need)) \<subseteq> free_bits (dbitmap fs)"
proof -
  let ?ino = "ino\<lparr>dirty := True\<rparr>"
  have wf': "inode_shape ?ino" using wf by (simp add: inode_wf_def)
  have own: "\<forall>b \<in> set (table_list ?ino cur). unat b < BLOCKS \<and> unat b \<notin> free_bits (dbitmap fs)"
    using owned_used[OF wf std] by (simp add: owned_def cur)
  have le: "cur \<le> need" using len(1) by simp
  have nb: "unat (num_blocks newSize) = need" "unat (num_blocks (isize ino)) = cur"
    using num_blocks_wf[OF wf] cur need len(2)
    by (auto intro: num_blocks_nblocks size_small)
  let ?st0 = "\<lparr>fa_ino = ?ino, fa_fs = fs, fa_bm = dbitmap fs, fa_bufs = (\<lambda>_. None)\<rparr>"
  obtain st2 ts "is" where g: "bindS (grow_tables cur need table_steps ?st0)
      (\<lambda>_ st. grow_loop (map of_nat [cur..<need]) st) = (Ok (), st2)"
    "falloc_ok need st2" "data_bm (fa_bm st2)" "blocks_only ?ino (fa_ino st2)"
    "map (vptr st2) [0..<need] = blk_list fs ?ino cur @ is"
    "mset (table_list (fa_ino st2) need) = mset (table_list ?ino cur) + mset ts"
    "distinct (map unat (ts @ is))" "unat ` set (ts @ is) \<subseteq> free_bits (dbitmap fs)"
    "free_bits (fa_bm st2) = free_bits (dbitmap fs) - unat ` set (ts @ is)"
    "blocks_frame (unat ` set ts) fs (fa_fs st2)" "length (ts @ is) = needed_blocks cur need"
    by (rule grow_phases[OF std wf' bm own le len(2,3) refl])
  have disj: "set (owned fs ino) \<inter> set (ts @ is) = {}"
    using owned_used(2)[OF wf std] g(8) by blast
  have dnew: "distinct (ts @ is)" using g(7) unfolding distinct_map by (rule conjunct1)
  have dts: "distinct (table_list (fa_ino st2) need)"
    using wf dnew disj by (intro distinct_mset_union[OF g(6)]) (auto simp: inode_wf_def owned_def cur)
  have bml: "length (fa_bm st2) = BLOCKSIZE" using g(3) by (simp add: data_bm_def)
  obtain fs' where f: "Falloc_finish cur need newSize st2 = (Ok (), ((fa_ino st2)\<lparr>isize := newSize\<rparr>, fs'))"
    "blocks_frame (unat ` set (table_list (fa_ino st2) need)) (fa_fs st2) fs'"
    "dbitmap fs' = fa_bm st2" "blk_list fs' (fa_ino st2) need = map (vptr st2) [0..<need]"
    by (rule grow_finish[OF g(2) len(1,2) dts bml])
  let ?ino' = "(fa_ino st2)\<lparr>isize := newSize\<rparr>"
  have std': "std_fs fs'" using f(2) by (simp add: blocks_frame_def)
  have ow: "mset (owned fs' ?ino') = mset (owned fs ino) + mset (ts @ is)"
    using f(4) g(5,6) by (simp add: owned_def flip: need cur)
  have dist: "distinct (owned fs' ?ino')"
    using wf dnew disj by (intro distinct_mset_union[OF ow]) (simp_all add: inode_wf_def)
  have mem: "unat b < BLOCKS \<and> bm_bit (dbitmap fs') (unat b)" if "b \<in> set (owned fs' ?ino')" for b
  proof -
    from that arg_cong[OF ow, of set_mset] have "b \<in> set (owned fs ino) \<or> b \<in> set (ts @ is)" by auto
    then have "unat b < BLOCKS" "unat b \<notin> free_bits (fa_bm st2)"
      using owned_used[OF wf std] g(8,9) bm by (auto simp: data_bm_def)
    then show ?thesis using used_iff[OF _ bml, of b] f(3) by simp
  qed
  show ?thesis
  proof (rule that[of ?ino' fs' "ts @ is"])
    show "Falloc ino newSize fs = (Ok (), (?ino', fs'))"
      using len(1,2) g(1) f(1) nb
      by (simp add: Falloc_def Let_def dbitmap_read[OF std] falloc_run_def)
    show "inode_wf fs' ?ino'"
      unfolding inode_wf_def
      using g(2) dist mem len(2) need by (simp add: falloc_ok_def)
    show "blocks_only ino ?ino'" using g(4) by (simp add: blocks_only_def)
    show "take cur (blk_list fs' ?ino' need) = blk_list fs ino cur"
      using f(4) g(5) by simp
    show "unat ` set (drop cur (blk_list fs' ?ino' need)) \<subseteq> free_bits (dbitmap fs)"
      using f(4) g(5,8) by auto
    show "blocks_frame (unat ` set (table_list ?ino' need)) fs fs'"
    proof (rule blocks_frame_trans[OF g(10) f(2)])
      show "unat ` set ts \<subseteq> unat ` set (table_list ?ino' need)"
        using arg_cong[OF g(6), of set_mset] by auto
    qed simp
  qed (use g f std' ow in simp_all)
qed

end
