(* ===== verification/FallocSpec.thy ===== *)
theory FallocSpec
  imports Falloc
begin

text \<open>
  The rest of what \<open>Falloc\<close> promises: shrinking gives back exactly the blocks and tables past the
  new end, a resize inside the last block or past the largest file touches nothing on the disk, and
  a disk without enough free blocks makes it panic. The last section lifts these results to the
  invariant of the whole disk, \<open>disk_consistent\<close>: the files have disjoint blocks, and the bitmap
  marks those and no others.
\<close>

section \<open>Shrinking\<close>

text \<open>While it shrinks, the function only reads the disk: its tables are those of the disk.\<close>

definition shrink_ok :: "nat \<Rightarrow> falloc_state \<Rightarrow> bool" where
  "shrink_ok n st \<longleftrightarrow> std_fs (fa_fs st) \<and> tables_ok (fa_ino st) n \<and>
     (\<forall>p b. fa_bufs st p = Some b \<longrightarrow> p \<in> set (places_used n) \<and>
        b = dblk (fa_fs st) (unat (ind_ptr p (fa_ino st)))) \<and>
     length (fa_bm st) = BLOCKSIZE"

definition same_file :: "falloc_state \<Rightarrow> falloc_state \<Rightarrow> bool" where
  "same_file st st' \<longleftrightarrow> fa_fs st' = fa_fs st \<and> fa_ino st' = fa_ino st"

lemma clear_one_Ok:
  assumes "shrink_ok n st" "unat b < BLOCKS"
  obtains st' where "clear_one b st = (Ok (), st')" "shrink_ok n st'" "same_file st st'"
    "free_bits (fa_bm st') = insert (unat b) (free_bits (fa_bm st))"
proof -
  have r: "unat b < 8 * length (fa_bm st)" using assms by (simp add: shrink_ok_def layout)
  then obtain bm where bm: "clearBit (fa_bm st) b = Ok bm" using clearBit_Ok by blast
  note fb = clearBit_free_bits[OF r bm]
  show ?thesis
    using assms(1) bm fb
    by (intro that[of "st\<lparr>fa_bm := bm\<rparr>"]) (auto simp: clear_one_def shrink_ok_def same_file_def)
qed

lemma shrink_one_Ok:
  assumes ok: "shrink_ok n st" and v: "v < n" "v < max_blocks"
    and b: "unat (blk_at (fa_fs st) (fa_ino st) v) < BLOCKS"
  obtains st' where "shrink_one (of_nat v) st = (Ok (), st')" "shrink_ok n st'" "same_file st st'"
    "free_bits (fa_bm st') = insert (unat (blk_at (fa_fs st) (fa_ino st) v)) (free_bits (fa_bm st))"
proof -
  let ?p = "place_of v" and ?b = "blk_at (fa_fs st) (fa_ino st) v"
  obtain r where r: "virtualToPlaceRelative (of_nat v) = (r, ?p)" "unat r = rel_of v"
    by (rule virtual_of_nat[OF v(2)])
  show ?thesis
  proof (cases "?p = 0")
    case True
    obtain st' where c: "clear_one ?b st = (Ok (), st')" "shrink_ok n st'" "same_file st st'"
      "free_bits (fa_bm st') = insert (unat ?b) (free_bits (fa_bm st))"
      by (rule clear_one_Ok[OF ok b])
    have "shrink_one (of_nat v) st = (Ok (), st')"
      using r True rel_bound0[OF True] c(1) by (simp add: shrink_one_def blk_at_def)
    then show ?thesis using that c by blast
  next
    case False
    have used: "?p \<in> set (places_used n)" by (rule place_used[OF v(1) False])
    have rel: "rel_of v < 1024" by (rule rel_bound[OF v(2) False])
    let ?t = "dblk (fa_fs st) (unat (ind_ptr ?p (fa_ino st)))"
    let ?st1 = "st\<lparr>fa_bufs := (fa_bufs st)(?p := Some ?t)\<rparr>"
    have ptr: "unat (ind_ptr ?p (fa_ino st)) < BLOCKS" "std_fs (fa_fs st)"
      using ok used by (auto simp: shrink_ok_def tables_ok_def)
    have l: "load_table ?p st = (?t, ?st1)"
      using ok ptr by (cases "fa_bufs st ?p")
        (auto simp: load_table_def shrink_ok_def readDataBlock_std fun_upd_idem Let_def)
    have ok1: "shrink_ok n ?st1" using ok used by (auto simp: shrink_ok_def)
    obtain st' where c: "clear_one ?b ?st1 = (Ok (), st')" "shrink_ok n st'" "same_file ?st1 st'"
      "free_bits (fa_bm st') = insert (unat ?b) (free_bits (fa_bm ?st1))"
      by (rule clear_one_Ok[OF ok1 b])
    have "shrink_one (of_nat v) st = (Ok (), st')"
      using r False rel ptr c(1) l by (simp add: shrink_one_def ptr_get_Ok blk_at_def)
    then show ?thesis using that c by (auto simp: same_file_def)
  qed
qed

lemma shrink_loop_Ok:
  assumes "shrink_ok n st"
    "\<forall>v \<in> set vs. v < n \<and> v < max_blocks \<and> unat (blk_at (fa_fs st) (fa_ino st) v) < BLOCKS"
  obtains st' where "shrink_loop (map of_nat vs) st = (Ok (), st')" "shrink_ok n st'" "same_file st st'"
    "free_bits (fa_bm st') = free_bits (fa_bm st) \<union> (\<lambda>v. unat (blk_at (fa_fs st) (fa_ino st) v)) ` set vs"
  using assms
proof (induction vs arbitrary: st thesis)
  case Nil
  then show ?case by (simp add: same_file_def)
next
  case (Cons v vs)
  have v: "v < n" "v < max_blocks" "unat (blk_at (fa_fs st) (fa_ino st) v) < BLOCKS"
    using Cons.prems(3) by auto
  obtain st1 where s1: "shrink_one (of_nat v) st = (Ok (), st1)" "shrink_ok n st1" "same_file st st1"
    "free_bits (fa_bm st1) = insert (unat (blk_at (fa_fs st) (fa_ino st) v)) (free_bits (fa_bm st))"
    by (rule shrink_one_Ok[OF Cons.prems(2) v])
  have same: "fa_fs st1 = fa_fs st" "fa_ino st1 = fa_ino st" using s1(3) by (simp_all add: same_file_def)
  have rest: "\<forall>v \<in> set vs. v < n \<and> v < max_blocks \<and> unat (blk_at (fa_fs st1) (fa_ino st1) v) < BLOCKS"
    using Cons.prems(3) by (simp add: same)
  obtain st2 where s2: "shrink_loop (map of_nat vs) st1 = (Ok (), st2)" "shrink_ok n st2" "same_file st1 st2"
    "free_bits (fa_bm st2) = free_bits (fa_bm st1) \<union> (\<lambda>v. unat (blk_at (fa_fs st1) (fa_ino st1) v)) ` set vs"
    by (rule Cons.IH[OF _ s1(2) rest])
  show ?case
    using s1 s2 by (intro Cons.prems(1)[of st2]) (auto simp: same_file_def)
qed

lemma shrink_tables_Ok:
  assumes "shrink_ok cur st" "\<forall>(p, base) \<in> set ps. base = place_base p \<and> p \<in> {1, 2, 3}"
  obtains st' where "shrink_tables cur need ps st = (Ok (), st')" "shrink_ok cur st'" "same_file st st'"
    "free_bits (fa_bm st') = free_bits (fa_bm st) \<union>
       (\<lambda>p. unat (ind_ptr p (fa_ino st))) ` set (new_places need cur ps)"
  using assms
proof (induction ps arbitrary: st thesis)
  case Nil
  then show ?case by (simp add: same_file_def new_places_def)
next
  case (Cons q ps)
  obtain p base where q: "q = (p, base)" by (cases q)
  have pb: "base = place_base p" "p \<in> {1, 2, 3}" and rest: "\<forall>(p, base) \<in> set ps. base = place_base p \<and> p \<in> {1, 2, 3}"
    using Cons.prems(3) q by auto
  show ?case
  proof (cases "freed cur need base")
    case False
    then have np: "new_places need cur (q # ps) = new_places need cur ps"
      and g: "shrink_tables cur need (q # ps) st = shrink_tables cur need ps st"
      using q by (auto simp: new_places_def freed_def)
    show ?thesis
      by (rule Cons.IH[OF _ Cons.prems(2) rest], rule Cons.prems(1)) (simp_all add: np g)
  next
    case True
    then have np: "new_places need cur (q # ps) = p # new_places need cur ps"
      using q by (auto simp: new_places_def freed_def)
    have "p \<in> set (places_used cur)" using True pb by (auto simp: places_used_def freed_def)
    then have b: "unat (ind_ptr p (fa_ino st)) < BLOCKS"
      using Cons.prems(2) by (simp add: shrink_ok_def tables_ok_def)
    obtain st1 where c: "clear_one (ind_ptr p (fa_ino st)) st = (Ok (), st1)" "shrink_ok cur st1"
      "same_file st st1"
      "free_bits (fa_bm st1) = insert (unat (ind_ptr p (fa_ino st))) (free_bits (fa_bm st))"
      by (rule clear_one_Ok[OF Cons.prems(2) b])
    obtain st2 where s: "shrink_tables cur need ps st1 = (Ok (), st2)" "shrink_ok cur st2" "same_file st1 st2"
      "free_bits (fa_bm st2) = free_bits (fa_bm st1) \<union>
         (\<lambda>p. unat (ind_ptr p (fa_ino st1))) ` set (new_places need cur ps)"
      by (rule Cons.IH[OF _ c(2) rest])
    show ?thesis
      using c s True q np by (intro Cons.prems(1)[of st2]) (auto simp: same_file_def)
  qed
qed

lemma put_disk_region: "std_fs fs \<Longrightarrow> off + n \<le> DISKSIZE \<Longrightarrow> put_disk off (region off n fs) fs = fs"
  by (simp add: put_disk_def region_def std_fs_def put_at_slice_self)

lemma set_dblk_self: "std_fs fs \<Longrightarrow> b < BLOCKS \<Longrightarrow> set_dblk b (dblk fs b) fs = fs"
  unfolding set_dblk_def dblk_def by (rule put_disk_region) (simp_all add: layout)

lemma flush_tables_same: "shrink_ok n st \<Longrightarrow> flush_tables cur need ps st = st"
proof (induction ps)
  case (Cons q ps)
  obtain p base where q: "q = (p, base)" by (cases q)
  show ?case
  proof (cases "fa_bufs st p")
    case (Some b)
    then have "b = dblk (fa_fs st) (unat (ind_ptr p (fa_ino st)))" "p \<in> set (places_used n)"
      "unat (ind_ptr p (fa_ino st)) < BLOCKS" "std_fs (fa_fs st)"
      using Cons.prems by (auto simp: shrink_ok_def tables_ok_def)
    then have "fst (writeDataBlock (fa_fs st) (ind_ptr p (fa_ino st)) b) = fa_fs st"
      by (simp add: writeDataBlock_std set_dblk_self)
    then show ?thesis using Cons Some q by simp
  qed (use Cons q in simp)
qed simp

lemma Falloc_shrink:
  assumes std: "std_fs fs" and wf: "inode_wf fs ino"
    and cur: "cur = nblocks (unat (isize ino))" and need: "need = nblocks (unat newSize)"
    and len: "need < cur"
  obtains bm where
    "Falloc ino newSize fs = (Ok (), (ino\<lparr>dirty := True, isize := newSize\<rparr>, set_dbitmap bm fs))"
    "length bm = BLOCKSIZE" "free_bits bm = free_bits (dbitmap fs) \<union>
       unat ` (set (drop need (blk_list fs ino cur)) \<union>
               (\<lambda>p. ind_ptr p ino) ` set (new_places need cur table_steps))"
proof -
  let ?ino = "ino\<lparr>dirty := True\<rparr>"
  have wf': "inode_wf fs ?ino" using wf by simp
  have curm: "cur \<le> max_blocks" using wf by (simp add: inode_wf_def cur)
  have nb: "unat (num_blocks newSize) = need" "unat (num_blocks (isize ino)) = cur"
    using num_blocks_wf[OF wf] cur need len curm
    by (auto intro!: num_blocks_nblocks size_small)
  let ?st0 = "\<lparr>fa_ino = ?ino, fa_fs = fs, fa_bm = dbitmap fs, fa_bufs = (\<lambda>_. None)\<rparr>"
  have ok: "shrink_ok cur ?st0"
    using std inode_wf_tables[OF wf'] by (simp add: shrink_ok_def cur)
  have rng: "\<forall>v \<in> set [need..<cur]. v < cur \<and> v < max_blocks \<and>
      unat (blk_at (fa_fs ?st0) (fa_ino ?st0) v) < BLOCKS"
    using inode_wf_block[OF wf'] by (auto simp: cur)
  obtain st1 where s1: "shrink_loop (map of_nat [need..<cur]) ?st0 = (Ok (), st1)" "shrink_ok cur st1"
    "same_file ?st0 st1"
    "free_bits (fa_bm st1) = free_bits (fa_bm ?st0) \<union>
       (\<lambda>v. unat (blk_at (fa_fs ?st0) (fa_ino ?st0) v)) ` set [need..<cur]"
    by (rule shrink_loop_Ok[OF ok rng])
  have steps: "\<forall>(p, base) \<in> set table_steps. base = place_base p \<and> p \<in> {1, 2, 3}"
    by (auto simp: table_steps_def place_base_def)
  obtain st2 where s2: "shrink_tables cur need table_steps st1 = (Ok (), st2)" "shrink_ok cur st2"
    "same_file st1 st2"
    "free_bits (fa_bm st2) = free_bits (fa_bm st1) \<union>
         (\<lambda>p. unat (ind_ptr p (fa_ino st1))) ` set (new_places need cur table_steps)"
    by (rule shrink_tables_Ok[OF s1(2) steps])
  have same: "fa_fs st2 = fs" "fa_ino st2 = ?ino" "fa_ino st1 = ?ino"
    using s1(3) s2(3) by (simp_all add: same_file_def)
  have bml: "length (fa_bm st2) = BLOCKSIZE" using s2(2) by (simp add: shrink_ok_def)
  have fl: "flush_tables cur need (rev table_steps) st2 = st2\<lparr>fa_fs := fs\<rparr>"
    using flush_tables_same[OF s2(2)] same(1) by simp
  have drop: "drop need (blk_list fs ino cur) = map (blk_at fs ?ino) [need..<cur]"
    using len by (simp add: blk_list_def drop_map blk_at_def)
  show ?thesis
  proof (rule that[of "fa_bm st2"])
    show "Falloc ino newSize fs = (Ok (), (ino\<lparr>dirty := True, isize := newSize\<rparr>, set_dbitmap (fa_bm st2) fs))"
      using len s1(1) s2(1) nb Falloc_finish_eq[OF fl std bml, of newSize]
      by (simp add: Falloc_def Let_def dbitmap_read[OF std] falloc_run_def same)
    show "free_bits (fa_bm st2) = free_bits (dbitmap fs) \<union>
       unat ` (set (drop need (blk_list fs ino cur)) \<union>
               (\<lambda>p. ind_ptr p ino) ` set (new_places need cur table_steps))"
      using s2(4) s1(4) same drop by (auto simp: image_image)
  qed (rule bml)
qed

section \<open>The remaining outcomes\<close>

lemma Falloc_same:
  assumes "inode_wf fs ino" "nblocks (unat newSize) = nblocks (unat (isize ino))"
  shows "Falloc ino newSize fs = (Ok (), (ino\<lparr>dirty := True, isize := newSize\<rparr>, fs))"
proof -
  have "unat (num_blocks newSize) = unat (num_blocks (isize ino))"
    using num_blocks_wf[OF assms(1)] assms num_blocks_nblocks[OF size_small, of newSize]
    by (simp add: inode_wf_def)
  then show ?thesis by (simp add: Falloc_def Let_def)
qed

lemma Falloc_too_big:
  assumes "inode_wf fs ino" "max_blocks < nblocks (unat newSize)" "unat newSize \<le> 2 ^ 32 - BLOCKSIZE"
  shows "\<exists>e. Falloc ino newSize fs = (Err e, (ino\<lparr>dirty := True\<rparr>, fs))"
proof -
  have "unat (num_blocks newSize) = nblocks (unat newSize)" by (rule num_blocks_nblocks[OF assms(3)])
  moreover have "unat (num_blocks (isize ino)) \<le> max_blocks"
    using num_blocks_wf[OF assms(1)] assms(1) by (simp add: inode_wf_def)
  ultimately show ?thesis
    using assms(2) by (simp add: Falloc_def Let_def)
qed

text \<open>Without enough free blocks for the new tables and data blocks the function panics.\<close>

lemma grow_tables_Panic:
  assumes "std_fs (fa_fs st)" "data_bm (fa_bm st)"
    "take_many takeFreeBit (length (new_places cur need ps)) (fa_bm st) = Panic"
  shows "fst (grow_tables cur need ps st) = Panic"
  using assms
proof (induction ps arbitrary: st)
  case (Cons q ps)
  obtain p base where q: "q = (p, base)" by (cases q)
  show ?case
  proof (cases "base < need \<and> cur \<le> base")
    case False
    then have np: "new_places cur need (q # ps) = new_places cur need ps"
      and g: "grow_tables cur need (q # ps) st = grow_tables cur need ps st"
      using q by (auto simp: new_places_def)
    show ?thesis using Cons.IH[OF Cons.prems(1,2)] Cons.prems(3) by (simp add: np g)
  next
    case True
    then have np: "new_places cur need (q # ps) = p # new_places cur need ps"
      by (simp add: new_places_def q)
    have len: "length (fa_bm st) = BLOCKSIZE" using Cons.prems(2) by (simp add: data_bm_def)
    show ?thesis
    proof (cases "free_bits (fa_bm st) = {}")
      case True
      then show ?thesis
        using block_bits.tk_full[OF len] q \<open>base < need \<and> cur \<le> base\<close>
        by (simp add: getDataBlock_def takeBit_def)
    next
      case False
      then obtain idx bm where tk: "takeFreeBit (fa_bm st) = Ok (idx, bm)"
        using block_bits.tk_Ok[OF len] by blast
      note b = getDataBlock_Ok[OF tk Cons.prems(2,1)]
      have "take_many takeFreeBit (length (new_places cur need ps)) bm = Panic"
        using Cons.prems(3) tk
        by (cases "take_many takeFreeBit (length (new_places cur need ps)) bm") (auto simp: np)
      then have "fst (grow_tables cur need ps (st\<lparr>fa_bm := bm, fa_fs := set_dblk (unat idx) zero_block (fa_fs st),
          fa_ino := set_ind_ptr p idx (fa_ino st)\<rparr>)) = Panic"
        using b Cons.prems(1) by (intro Cons.IH) simp_all
      then show ?thesis using q True b(1) by simp
    qed
  qed
qed (simp add: new_places_def)

lemma grow_phases_Panic:
  assumes std: "std_fs fs" and shape: "inode_shape ino" and bm: "data_bm bm0"
    and own: "\<forall>b \<in> set (table_list ino cur). unat b < BLOCKS \<and> unat b \<notin> free_bits bm0"
    and len: "cur \<le> need" "need \<le> max_blocks" "card (free_bits bm0) < needed_blocks cur need"
    and st0: "st0 = \<lparr>fa_ino = ino, fa_fs = fs, fa_bm = bm0, fa_bufs = (\<lambda>_. None)\<rparr>"
  shows "fst (bindS (grow_tables cur need table_steps st0)
    (\<lambda>_ st. grow_loop (map of_nat [cur..<need]) st)) = Panic"
proof -
  let ?np = "new_places cur need table_steps"
  have bml: "length bm0 = BLOCKSIZE" using bm by (simp add: data_bm_def)
  have s0: "std_fs (fa_fs st0)" "data_bm (fa_bm st0)" using std bm by (simp_all add: st0)
  show ?thesis
  proof (cases "card (free_bits bm0) < length ?np")
    case True
    have "fst (grow_tables cur need table_steps st0) = Panic"
      using block_bits.take_many_Panic[OF bml True] by (intro grow_tables_Panic s0) (simp add: st0)
    then show ?thesis by (cases "grow_tables cur need table_steps st0") simp
  next
    case False
    \<comment> \<open>the tables alone fit: grow just by them, then continue\<close>
    then obtain ts bm1 where t1: "take_many takeFreeBit (length ?np) bm0 = Ok (ts, bm1)"
      "length ts = length ?np" "distinct (map unat ts)" "unat ` set ts \<subseteq> free_bits bm0"
      "free_bits bm1 = free_bits bm0 - unat ` set ts" "length bm1 = BLOCKSIZE"
      using block_bits.take_many_Ok[OF bml, of "length ?np"] by auto
    have "card (free_bits bm1) = card (free_bits bm0) - length ?np"
      using t1(2-5) distinct_card[OF t1(3)] by (simp add: card_Diff_subset)
    then have "card (free_bits bm1) < need - cur" using len(3) False by (simp add: needed_blocks_def)
    then have panic: "take_many takeFreeBit (need - cur) bm1 = Panic"
      by (rule block_bits.take_many_Panic[OF t1(6)])
    have tk0: "take_many takeFreeBit (length ?np) (fa_bm st0) = Ok (ts, bm1)" using t1(1) by (simp add: st0)
    obtain st1 where g: "grow_tables cur need table_steps st0 = (Ok (), st1)" "fa_bm st1 = bm1"
      "fa_bufs st1 = fa_bufs st0" "tables_only (fa_ino st0) (fa_ino st1)"
      "map (\<lambda>p. ind_ptr p (fa_ino st1)) ?np = ts"
      "\<forall>p \<in> {1, 2, 3} - set ?np. ind_ptr p (fa_ino st1) = ind_ptr p (fa_ino st0)"
      "blocks_frame (unat ` set ts) (fa_fs st0) (fa_fs st1)"
      by (rule grow_tables_Ok[OF s0 table_steps_simps(1) _ tk0]) simp_all
    note tl = places_used_table_list[OF len(1) g(5,6)]
    have "\<forall>b \<in> set (table_list (fa_ino st1) need). unat b < BLOCKS"
      using arg_cong[OF tl, of set_mset] own t1(4) bm by (auto simp: data_bm_def st0)
    then have "falloc_ok need st1"
      using g(3,4,7) shape
      by (auto simp: falloc_ok_def st0 blocks_frame_def tables_ok_def table_list_def tables_only_def inode_shape_def)
    then have "fst (grow_loop (map of_nat [cur..<need]) st1) = Panic"
      using len(2) panic g(2) t1(6) by (intro grow_loop_Panic) auto
    then show ?thesis using g(1) by simp
  qed
qed

lemma Falloc_disk_full:
  assumes std: "std_fs fs" and wf: "inode_wf fs ino" and bm: "data_bm (dbitmap fs)"
    and cur: "cur = nblocks (unat (isize ino))" and need: "need = nblocks (unat newSize)"
    and len: "cur < need" "need \<le> max_blocks" "card (free_bits (dbitmap fs)) < needed_blocks cur need"
  shows "fst (Falloc ino newSize fs) = Panic"
proof -
  let ?ino = "ino\<lparr>dirty := True\<rparr>"
  let ?st0 = "\<lparr>fa_ino = ?ino, fa_fs = fs, fa_bm = dbitmap fs, fa_bufs = (\<lambda>_. None)\<rparr>"
  have wf': "inode_shape ?ino" using wf by (simp add: inode_wf_def)
  have own: "\<forall>b \<in> set (table_list ?ino cur). unat b < BLOCKS \<and> unat b \<notin> free_bits (dbitmap fs)"
    using owned_used[OF wf std] by (simp add: owned_def cur)
  have le: "cur \<le> need" using len(1) by simp
  have nb: "unat (num_blocks newSize) = need" "unat (num_blocks (isize ino)) = cur"
    using num_blocks_wf[OF wf] cur need len(2)
    by (auto intro: num_blocks_nblocks size_small)
  have "fst (bindS (grow_tables cur need table_steps ?st0)
      (\<lambda>_ st. grow_loop (map of_nat [cur..<need]) st)) = Panic"
    by (rule grow_phases_Panic[OF std wf' bm own le len(2,3) refl])
  then show ?thesis
    using len(1,2) nb
    by (auto simp: Falloc_def Let_def dbitmap_read[OF std] falloc_run_def split: prod.splits outcome.splits)
qed

section \<open>The blocks of the whole disk\<close>

type_synonym files = "u32 \<rightharpoonup> inode"

definition all_owned :: "filesystem \<Rightarrow> files \<Rightarrow> nat set" where
  "all_owned fs files = (\<Union>ino \<in> ran files. unat ` set (owned fs ino))"

definition disk_consistent :: "filesystem \<Rightarrow> files \<Rightarrow> bool" where
  "disk_consistent fs files \<longleftrightarrow> std_fs fs \<and> data_bm (dbitmap fs) \<and>
     (\<forall>ino \<in> ran files. inode_wf fs ino) \<and>
     (\<forall>i j ino ino'. i \<noteq> j \<longrightarrow> files i = Some ino \<longrightarrow> files j = Some ino' \<longrightarrow>
        set (owned fs ino) \<inter> set (owned fs ino') = {}) \<and>
     free_bits (dbitmap fs) = {..<BLOCKS} - all_owned fs files"

text \<open>A change of blocks outside an inode's tables does not change what it owns.\<close>

lemma owned_frame:
  assumes "blocks_frame S fs fs'" "inode_wf fs ino" "unat ` set (owned fs ino) \<inter> S = {}"
  shows "owned fs' ino = owned fs ino"
proof -
  have "blk_at fs' ino v = blk_at fs ino v" if v: "v < nblocks (unat (isize ino))" for v
  proof (rule blk_at_frame[OF assms(1)])
    assume nz: "place_of v \<noteq> 0"
    then have "ind_ptr (place_of v) ino \<in> set (owned fs ino)"
      using place_used[OF v nz] by (simp add: owned_def table_list_def)
    then show "unat (ind_ptr (place_of v) ino) \<notin> S" using assms(3) by blast
  qed simp_all
  then show ?thesis by (auto simp: owned_def blk_list_def)
qed

lemma inode_wf_frame:
  assumes "blocks_frame S fs fs'" "inode_wf fs ino" "unat ` set (owned fs ino) \<inter> S = {}"
    "\<forall>b \<in> set (owned fs ino). unat b \<notin> free_bits (dbitmap fs')" "length (dbitmap fs') = BLOCKSIZE"
  shows "inode_wf fs' ino"
  using assms(2,4,5) used_iff[OF _ assms(5)] unfolding inode_wf_def owned_frame[OF assms(1-3)] by auto

text \<open>In a consistent disk a file shares no block with another one, nor with the free blocks; and a file that changes stays apart.\<close>

lemma consistent_apart:
  assumes con: "disk_consistent fs files" and i: "files i = Some ino" and j: "j \<noteq> i" "files j = Some ino2"
  shows "unat ` set (owned fs ino2) \<inter> (unat ` set (owned fs ino) \<union> free_bits (dbitmap fs)) = {}" "inode_wf fs ino2"
proof -
  show w: "inode_wf fs ino2" using con j(2) by (auto simp: disk_consistent_def intro: ranI)
  have "std_fs fs" "set (owned fs ino2) \<inter> set (owned fs ino) = {}"
    using con j i unfolding disk_consistent_def by metis+
  then show "unat ` set (owned fs ino2) \<inter> (unat ` set (owned fs ino) \<union> free_bits (dbitmap fs)) = {}"
    using owned_used(2)[OF w] by (auto simp flip: word_unat_eq_iff)
qed

lemma pairwise_update:
  assumes old: "\<And>j k a b. j \<noteq> k \<Longrightarrow> files j = Some a \<Longrightarrow> files k = Some b \<Longrightarrow> owns a \<inter> owns b = {}"
    and same: "\<And>j a. j \<noteq> i \<Longrightarrow> files j = Some a \<Longrightarrow> owns' a = owns a"
    and new: "\<And>j a. j \<noteq> i \<Longrightarrow> files j = Some a \<Longrightarrow> owns' ino \<inter> owns a = {}"
    and jk: "j \<noteq> k" "(files(i \<mapsto> ino)) j = Some a" "(files(i \<mapsto> ino)) k = Some b"
  shows "owns' a \<inter> owns' b = ({} :: 'b set)"
proof (cases "j = i \<or> k = i")
  case True
  then consider "j = i" "k \<noteq> i" "files k = Some b" "a = ino" | "k = i" "j \<noteq> i" "files j = Some a" "b = ino"
    using jk by (auto split: if_splits)
  then show ?thesis by cases (use new same in \<open>simp_all add: Int_commute\<close>)
next
  case False
  then have "files j = Some a" "files k = Some b" "owns' a = owns a" "owns' b = owns b" using jk same by auto
  then show ?thesis using old[OF jk(1)] by simp
qed

lemma consistent_update:
  assumes con: "disk_consistent fs files" and i: "files i = Some ino"
    and frame: "blocks_frame S fs fs'" and wf: "inode_wf fs' ino'" and bm: "data_bm (dbitmap fs')"
    and S: "S \<subseteq> unat ` set (owned fs' ino') \<union> unat ` set (owned fs ino)"
    and own: "unat ` set (owned fs' ino') \<subseteq> unat ` set (owned fs ino) \<union> free_bits (dbitmap fs)"
    and free: "free_bits (dbitmap fs') =
      (free_bits (dbitmap fs) \<union> unat ` set (owned fs ino)) - unat ` set (owned fs' ino')"
  shows "disk_consistent fs' (files(i \<mapsto> ino'))"
    "\<And>j ino2. j \<noteq> i \<Longrightarrow> files j = Some ino2 \<Longrightarrow> owned fs' ino2 = owned fs ino2 \<and>
       (\<forall>b \<in> set (owned fs ino2). dblk fs' (unat b) = dblk fs (unat b))"
proof -
  have std: "std_fs fs" using con by (simp add: disk_consistent_def)
  note apart = consistent_apart(1)[OF con i] and wf2 = consistent_apart(2)[OF con i]
  have out: "unat ` set (owned fs ino2) \<inter> S = {}" if "j \<noteq> i" "files j = Some ino2" for j ino2
    using apart[OF that] S own by blast
  have same: "owned fs' ino2 = owned fs ino2" if "j \<noteq> i" "files j = Some ino2" for j ino2
    by (rule owned_frame[OF frame wf2[OF that] out[OF that]])
  show rest: "owned fs' ino2 = owned fs ino2 \<and>
       (\<forall>b \<in> set (owned fs ino2). dblk fs' (unat b) = dblk fs (unat b))"
    if "j \<noteq> i" "files j = Some ino2" for j ino2
    using same[OF that] out[OF that] frame by (auto simp: blocks_frame_def)
  have wfs: "inode_wf fs' ino2" if "j \<noteq> i" "files j = Some ino2" for j ino2
    using inode_wf_frame[OF frame wf2[OF that] out[OF that]] apart[OF that] free bm
    by (auto simp: data_bm_def)
  have ran: "ran (files(i \<mapsto> ino')) = insert ino' {ino2. \<exists>j. j \<noteq> i \<and> files j = Some ino2}"
    by (auto simp: ran_def)
  have ran0: "ran files = insert ino {ino2. \<exists>j. j \<noteq> i \<and> files j = Some ino2}"
    using i by (auto simp: ran_def) (metis option.inject)
  let ?O = "\<Union>ino2 \<in> {ino2. \<exists>j. j \<noteq> i \<and> files j = Some ino2}. unat ` set (owned fs ino2)"
  have ao: "all_owned fs' (files(i \<mapsto> ino')) = unat ` set (owned fs' ino') \<union> ?O"
    unfolding all_owned_def ran using same by auto
  have ao0: "all_owned fs files = unat ` set (owned fs ino) \<union> ?O"
    unfolding all_owned_def ran0 by simp
  have old: "free_bits (dbitmap fs) = {..<BLOCKS} - all_owned fs files"
    using con by (simp add: disk_consistent_def)
  have lt: "unat ` set (owned fs ino) \<subseteq> {..<BLOCKS}"
    using con i owned_used(1)[OF _ std, of ino] by (auto simp: disk_consistent_def ran_def)
  have sep: "?O \<inter> unat ` set (owned fs ino) = {}" using apart by blast
  have "free_bits (dbitmap fs') = {..<BLOCKS} - all_owned fs' (files(i \<mapsto> ino'))"
    unfolding free ao using old ao0 lt sep by blast
  moreover have "set (owned fs' a) \<inter> set (owned fs' b) = {}"
    if "j \<noteq> k" "(files(i \<mapsto> ino')) j = Some a" "(files(i \<mapsto> ino')) k = Some b" for j k a b
  proof (rule pairwise_update[where owns = "\<lambda>c. set (owned fs c)", OF _ _ _ that])
    show "set (owned fs a) \<inter> set (owned fs b) = {}" if "j \<noteq> k" "files j = Some a" "files k = Some b" for j k a b
      using con that unfolding disk_consistent_def by metis
    show "set (owned fs' ino') \<inter> set (owned fs a) = {}" if "j \<noteq> i" "files j = Some a" for j a
      using apart[OF that] own by blast
  qed (use same in simp)
  ultimately show "disk_consistent fs' (files(i \<mapsto> ino'))"
    using frame bm wf wfs unfolding disk_consistent_def ran by (auto simp: blocks_frame_def)
qed

lemma nblocks_cases:
  assumes "std_fs fs" "inode_wf fs ino" "data_bm (dbitmap fs)" "unat sz \<le> 2 ^ 32 - BLOCKSIZE"
    and "Falloc ino sz fs = (Ok (), (ino', fs'))"
  obtains "nblocks (unat sz) = nblocks (unat (isize ino))"
  | "nblocks (unat sz) < nblocks (unat (isize ino))"
  | "nblocks (unat (isize ino)) < nblocks (unat sz)" "nblocks (unat sz) \<le> max_blocks"
    "needed_blocks (nblocks (unat (isize ino))) (nblocks (unat sz)) \<le> card (free_bits (dbitmap fs))"
proof -
  have "nblocks (unat sz) \<le> max_blocks"
    using Falloc_too_big[OF assms(2) _ assms(4)] assms(5) by (metis not_less outcome.distinct(1) prod.inject)
  moreover have "needed_blocks (nblocks (unat (isize ino))) (nblocks (unat sz)) \<le> card (free_bits (dbitmap fs))"
    if "nblocks (unat (isize ino)) < nblocks (unat sz)" "nblocks (unat sz) \<le> max_blocks"
    using Falloc_disk_full[OF assms(1-3) refl refl that] assms(5) by (metis fst_conv not_less outcome.distinct(3))
  ultimately show thesis using that by (metis linorder_neqE_nat)
qed

lemma owned_shrink:
  assumes "need < cur"
  shows "set (table_list ino cur @ blk_list fs ino cur) =
    set (table_list ino need @ blk_list fs ino need) \<union>
    (set (drop need (blk_list fs ino cur)) \<union> (\<lambda>p. ind_ptr p ino) ` set (new_places need cur table_steps))"
    "mset (table_list ino cur @ blk_list fs ino cur) =
    mset (table_list ino need @ blk_list fs ino need) +
    mset (drop need (blk_list fs ino cur) @ map (\<lambda>p. ind_ptr p ino) (new_places need cur table_steps))"
proof -
  have "table_list ino cur = map (\<lambda>p. ind_ptr p ino) (places_used cur)" by (simp add: table_list_def)
  then have "mset (table_list ino cur) = mset (table_list ino need) +
      mset (map (\<lambda>p. ind_ptr p ino) (new_places need cur table_steps))"
    using places_used_new(1)[of need cur] assms by (simp add: table_list_def)
  moreover have "blk_list fs ino cur = blk_list fs ino need @ drop need (blk_list fs ino cur)"
    using assms by (subst append_take_drop_id[of need, symmetric]) (simp add: blk_list_def take_map)
  then have "mset (blk_list fs ino cur) = mset (blk_list fs ino need) + mset (drop need (blk_list fs ino cur))"
    by (metis mset_append)
  ultimately show m: "mset (table_list ino cur @ blk_list fs ino cur) =
    mset (table_list ino need @ blk_list fs ino need) +
    mset (drop need (blk_list fs ino cur) @ map (\<lambda>p. ind_ptr p ino) (new_places need cur table_steps))"
    by simp
  show "set (table_list ino cur @ blk_list fs ino cur) =
    set (table_list ino need @ blk_list fs ino need) \<union>
    (set (drop need (blk_list fs ino cur)) \<union> (\<lambda>p. ind_ptr p ino) ` set (new_places need cur table_steps))"
    using arg_cong[OF m, of set_mset] by auto
qed

lemma inode_wf_resized:
  assumes "inode_wf fs ino" "std_fs fs" "nblocks (unat sz) = need" "need \<le> nblocks (unat (isize ino))"
    "bm = dbitmap fs \<and> fs' = fs \<or> length bm = BLOCKSIZE \<and> fs' = set_dbitmap bm fs"
    "\<forall>b \<in> set (table_list ino need @ blk_list fs ino need). unat b \<notin> free_bits bm"
  shows "owned fs' (ino\<lparr>dirty := True, isize := sz\<rparr>) = table_list ino need @ blk_list fs ino need"
    "inode_wf fs' (ino\<lparr>dirty := True, isize := sz\<rparr>)"
proof -
  let ?ino' = "ino\<lparr>dirty := True, isize := sz\<rparr>"
  have v: "blk_at fs' ?ino' v = blk_at fs ino v" for v
    using assms(2,5) by (auto simp: blk_at_def view)
  have bl: "blk_list fs' ?ino' n = blk_list fs ino n" for n by (simp add: blk_list_def v)
  then show o: "owned fs' ?ino' = table_list ino need @ blk_list fs ino need"
    by (simp add: owned_def assms(3) table_list_def)
  have len: "length bm = BLOCKSIZE" "dbitmap fs' = bm"
    using assms(2,5) by (auto simp: view)
  have own: "owned fs ino = table_list ino (nblocks (unat (isize ino))) @ blk_list fs ino (nblocks (unat (isize ino)))"
    by (simp add: owned_def)
  have sub: "set (table_list ino need @ blk_list fs ino need) \<subseteq> set (owned fs ino)"
    and dist: "distinct (table_list ino need @ blk_list fs ino need)"
  proof -
    consider "need = nblocks (unat (isize ino))" | "need < nblocks (unat (isize ino))" using assms(4) by linarith
    then have "set (table_list ino need @ blk_list fs ino need) \<subseteq> set (owned fs ino) \<and>
      distinct (table_list ino need @ blk_list fs ino need)"
    proof cases
      case 2
      have "distinct (owned fs ino)" using assms(1) by (simp add: inode_wf_def)
      then have "distinct ((table_list ino need @ blk_list fs ino need) @
        (drop need (blk_list fs ino (nblocks (unat (isize ino)))) @
         map (\<lambda>p. ind_ptr p ino) (new_places need (nblocks (unat (isize ino))) table_steps)))"
        unfolding own using mset_eq_imp_distinct_iff owned_shrink(2)[OF 2, of ino fs] by (metis mset_append)
      with owned_shrink(1)[OF 2, of ino fs] show ?thesis unfolding own distinct_append by blast
    qed (use assms(1) own in \<open>simp add: inode_wf_def\<close>)
    then show "set (table_list ino need @ blk_list fs ino need) \<subseteq> set (owned fs ino)"
      "distinct (table_list ino need @ blk_list fs ino need)" by blast+
  qed
  have "unat b < BLOCKS \<and> bm_bit (dbitmap fs') (unat b)"
    if "b \<in> set (table_list ino need @ blk_list fs ino need)" for b
  proof -
    have "unat b < BLOCKS" using owned_used(1)[OF assms(1,2)] sub that by blast
    then show ?thesis using used_iff[of b bm] len assms(6) that by simp
  qed
  then show "inode_wf fs' ?ino'"
    using assms(1,3,4) dist unfolding inode_wf_def o by (simp add: o inode_shape_def)
qed

text \<open>What an operation that only takes blocks leaves of the free ones.\<close>

definition free_kept :: "filesystem \<Rightarrow> filesystem \<Rightarrow> bool" where
  "free_kept fs fs' \<longleftrightarrow> free_bits (dbitmap fs') \<subseteq> free_bits (dbitmap fs) \<and>
     (\<forall>b \<in> free_bits (dbitmap fs'). dblk fs' b = dblk fs b)"

lemma free_kept_refl [simp]: "free_kept fs fs"
  by (simp add: free_kept_def)

lemma free_kept_trans: "free_kept a b \<Longrightarrow> free_kept b c \<Longrightarrow> free_kept a c"
  unfolding free_kept_def by (metis subsetD subset_trans)

lemma needed_blocks_same: "needed_blocks n n = 0"
  by (simp add: needed_blocks_def new_places_def table_steps_def)

text \<open>\<open>Falloc\<close> keeps the disk consistent, and no other file sees a difference.\<close>

text \<open>What resizing a file does, in each of the three cases: the size stays in the same block, blocks are freed, or taken.\<close>

definition resized :: "filesystem \<Rightarrow> inode \<Rightarrow> u32 \<Rightarrow> filesystem \<Rightarrow> inode \<Rightarrow> bool" where
  "resized fs ino sz fs' ino' \<longleftrightarrow> isize ino' = sz \<and> blocks_only ino ino' \<and>
    (\<forall>v. v < nblocks (unat (isize ino)) \<longrightarrow> v < nblocks (unat sz) \<longrightarrow> blk_at fs' ino' v = blk_at fs ino v) \<and>
    blocks_frame (unat ` set (table_list ino' (nblocks (unat sz)))) fs fs' \<and> inode_wf fs' ino' \<and> data_bm (dbitmap fs') \<and>
    unat ` set (owned fs' ino') \<subseteq> unat ` set (owned fs ino) \<union> free_bits (dbitmap fs) \<and>
    free_bits (dbitmap fs') = (free_bits (dbitmap fs) \<union> unat ` set (owned fs ino)) - unat ` set (owned fs' ino') \<and>
    (\<forall>v. nblocks (unat (isize ino)) \<le> v \<longrightarrow> v < nblocks (unat sz) \<longrightarrow> unat (blk_at fs' ino' v) \<in> free_bits (dbitmap fs)) \<and>
    (nblocks (unat (isize ino)) \<le> nblocks (unat sz) \<longrightarrow> free_bits (dbitmap fs') \<subseteq> free_bits (dbitmap fs) \<and>
       card (free_bits (dbitmap fs)) = card (free_bits (dbitmap fs')) + needed_blocks (nblocks (unat (isize ino))) (nblocks (unat sz)))"

lemma Falloc_resized_same:
  assumes std: "std_fs fs" and bm: "data_bm (dbitmap fs)" and wf: "inode_wf fs ino" and run: "Falloc ino sz fs = (Ok (), (ino', fs'))"
    and eq: "nblocks (unat sz) = nblocks (unat (isize ino))"
  shows "resized fs ino sz fs' ino'"
proof -
  let ?cur = "nblocks (unat (isize ino))" and ?need = "nblocks (unat sz)"
  have used: "unat ` set (owned fs ino) \<inter> free_bits (dbitmap fs) = {}" using owned_used(2)[OF wf std] by blast
  have r: "ino' = ino\<lparr>dirty := True, isize := sz\<rparr>" "fs' = fs"
    using Falloc_same[OF wf eq] run by simp_all
  have o: "table_list ino ?need @ blk_list fs ino ?need = owned fs ino" by (simp add: owned_def eq)
  have w: "owned fs' ino' = owned fs ino" "inode_wf fs' ino'"
    using inode_wf_resized[OF wf std refl, of sz "dbitmap fs" fs] eq used unfolding o r by auto
  moreover have "\<not> v < ?need" if "?cur \<le> v" for v using that eq by simp
  moreover have "needed_blocks ?cur ?need = 0" by (simp add: eq needed_blocks_same)
  ultimately show ?thesis unfolding resized_def using r used std bm
    by (auto simp: blocks_only_def blocks_frame_refl blk_at_def)
qed

lemma Falloc_resized_shrink:
  assumes std: "std_fs fs" and bm: "data_bm (dbitmap fs)" and wf: "inode_wf fs ino" and run: "Falloc ino sz fs = (Ok (), (ino', fs'))"
    and lt: "nblocks (unat sz) < nblocks (unat (isize ino))"
  shows "resized fs ino sz fs' ino'"
proof -
  let ?cur = "nblocks (unat (isize ino))" and ?need = "nblocks (unat sz)"
  have used: "unat ` set (owned fs ino) \<inter> free_bits (dbitmap fs) = {}" using owned_used(2)[OF wf std] by blast
  obtain bm' where f: "Falloc ino sz fs = (Ok (), (ino\<lparr>dirty := True, isize := sz\<rparr>, set_dbitmap bm' fs))"
    "length bm' = BLOCKSIZE" "free_bits bm' = free_bits (dbitmap fs) \<union>
     unat ` (set (drop ?need (blk_list fs ino ?cur)) \<union>
             (\<lambda>p. ind_ptr p ino) ` set (new_places ?need ?cur table_steps))"
    by (rule Falloc_shrink[OF std wf refl refl lt])
  let ?D = "set (drop ?need (blk_list fs ino ?cur)) \<union>
             (\<lambda>p. ind_ptr p ino) ` set (new_places ?need ?cur table_steps)"
  let ?K = "table_list ino ?need @ blk_list fs ino ?need"
  have r: "ino' = ino\<lparr>dirty := True, isize := sz\<rparr>" "fs' = set_dbitmap bm' fs" using f(1) run by simp_all
  have so: "set (owned fs ino) = set ?K \<union> ?D" unfolding owned_def by (rule owned_shrink(1)[OF lt])
  have disj: "set ?K \<inter> ?D = {}"
  proof -
    have "distinct (owned fs ino)" using wf by (simp add: inode_wf_def)
    then have "distinct (?K @ (drop ?need (blk_list fs ino ?cur) @
        map (\<lambda>p. ind_ptr p ino) (new_places ?need ?cur table_steps)))"
      unfolding owned_def using mset_eq_imp_distinct_iff owned_shrink(2)[OF lt, of ino fs] by (metis mset_append)
    then show ?thesis unfolding distinct_append by auto
  qed
  have kf: "\<forall>b \<in> set ?K. unat b \<notin> free_bits bm'"
    using used so disj f(3) by (auto simp flip: word_unat_eq_iff)
  have w: "owned fs' ino' = ?K" "inode_wf fs' ino'"
    using inode_wf_resized[OF wf std refl, of sz bm' fs'] lt f(2) r kf by auto
  have "free_bits bm' = (free_bits (dbitmap fs) \<union> unat ` set (owned fs ino)) - unat ` set ?K"
    unfolding f(3) so using used so disj by (auto simp flip: word_unat_eq_iff)
  moreover have "data_bm bm'"
    using f(2,3) bm owned_used(1)[OF wf std] so by (auto simp: data_bm_def)
  moreover have "unat ` set ?K \<subseteq> unat ` set (owned fs ino)" using so by blast
  moreover have "\<not> v < ?need" if "?cur \<le> v" for v using that lt by simp
  ultimately show ?thesis
    unfolding resized_def using r w std f(2) lt by (auto simp: blocks_only_def blocks_frame_dbitmap blk_at_def view)
qed

lemma Falloc_resized_grow:
  assumes std: "std_fs fs" and bm: "data_bm (dbitmap fs)" and wf: "inode_wf fs ino" and run: "Falloc ino sz fs = (Ok (), (ino', fs'))"
    and gt: "nblocks (unat (isize ino)) < nblocks (unat sz)" "nblocks (unat sz) \<le> max_blocks"
      "needed_blocks (nblocks (unat (isize ino))) (nblocks (unat sz)) \<le> card (free_bits (dbitmap fs))"
  shows "resized fs ino sz fs' ino'"
proof -
  let ?cur = "nblocks (unat (isize ino))" and ?need = "nblocks (unat sz)"
  have used: "unat ` set (owned fs ino) \<inter> free_bits (dbitmap fs) = {}" using owned_used(2)[OF wf std] by blast
  obtain ino1 fs1 new where f: "Falloc ino sz fs = (Ok (), (ino1, fs1))"
    "std_fs fs1" "inode_wf fs1 ino1" "isize ino1 = sz" "blocks_only ino ino1"
    "take ?cur (blk_list fs1 ino1 ?need) = blk_list fs ino ?cur"
    "mset (owned fs1 ino1) = mset (owned fs ino) + mset new" "distinct (map unat new)"
    "unat ` set new \<subseteq> free_bits (dbitmap fs)" "length new = needed_blocks ?cur ?need"
    "free_bits (dbitmap fs1) = free_bits (dbitmap fs) - unat ` set new" "data_bm (dbitmap fs1)"
    "blocks_frame (unat ` set (table_list ino1 ?need)) fs fs1"
    "unat ` set (drop ?cur (blk_list fs1 ino1 ?need)) \<subseteq> free_bits (dbitmap fs)"
    by (rule Falloc_grow[OF std wf bm refl refl gt])
  have r: "ino' = ino1" "fs' = fs1" using f(1) run by simp_all
  have so: "set (owned fs1 ino1) = set (owned fs ino) \<union> set new" using arg_cong[OF f(7), of set_mset] by simp
  have "blk_at fs1 ino1 v = blk_at fs ino v" if "v < ?cur" for v
    using arg_cong[OF f(6), of "\<lambda>xs. xs ! v"] that gt(1) by simp
  moreover have "unat (blk_at fs1 ino1 v) \<in> free_bits (dbitmap fs)" if v: "?cur \<le> v" "v < ?need" for v
  proof -
    have "blk_at fs1 ino1 v \<in> set (drop ?cur (blk_list fs1 ino1 ?need))"
      using v in_set_conv_nth[of _ "drop ?cur (blk_list fs1 ino1 ?need)"] by (auto intro!: exI[of _ "v - ?cur"])
    then show ?thesis using f(14) by blast
  qed
  moreover have "card (free_bits (dbitmap fs)) = card (free_bits (dbitmap fs1)) + needed_blocks ?cur ?need"
  proof -
    have fin: "finite (free_bits (dbitmap fs))" using bm finite_subset by (fastforce simp: data_bm_def)
    have "card (unat ` set new) = needed_blocks ?cur ?need"
      using f(8,10) distinct_card[of "map unat new"] by simp
    then show ?thesis
      using f(9,11) fin card_Diff_subset[OF finite_subset[OF f(9) fin] f(9)] card_mono[OF fin f(9)] by simp
  qed
  ultimately show ?thesis
    unfolding resized_def r using f used by (auto simp: so)
qed

lemma Falloc_consistent:
  assumes con: "disk_consistent fs files" and i: "files i = Some ino"
    and sz: "unat sz \<le> 2 ^ 32 - BLOCKSIZE" and run: "Falloc ino sz fs = (Ok (), (ino', fs'))"
  shows "disk_consistent fs' (files(i \<mapsto> ino'))" "isize ino' = sz" "blocks_only ino ino'"
    "\<And>v. v < nblocks (unat (isize ino)) \<Longrightarrow> v < nblocks (unat sz) \<Longrightarrow> blk_at fs' ino' v = blk_at fs ino v"
    "blocks_frame (unat ` set (table_list ino' (nblocks (unat sz)))) fs fs'"
    "\<And>j ino2. j \<noteq> i \<Longrightarrow> files j = Some ino2 \<Longrightarrow> owned fs' ino2 = owned fs ino2 \<and>
       (\<forall>b \<in> set (owned fs ino2). dblk fs' (unat b) = dblk fs (unat b))"
    "\<And>v. nblocks (unat (isize ino)) \<le> v \<Longrightarrow> v < nblocks (unat sz) \<Longrightarrow>
       unat (blk_at fs' ino' v) \<in> free_bits (dbitmap fs)"
    "nblocks (unat (isize ino)) \<le> nblocks (unat sz) \<Longrightarrow> free_kept fs fs' \<and>
       card (free_bits (dbitmap fs)) = card (free_bits (dbitmap fs')) + needed_blocks (nblocks (unat (isize ino))) (nblocks (unat sz))"
proof -
  have std: "std_fs fs" and bm: "data_bm (dbitmap fs)" and wf: "inode_wf fs ino"
    using con i by (auto simp: disk_consistent_def intro: ranI)
  let ?cur = "nblocks (unat (isize ino))" and ?need = "nblocks (unat sz)"
  have "resized fs ino sz fs' ino'"
    by (rule nblocks_cases[OF std wf bm sz run])
      (rule Falloc_resized_same Falloc_resized_shrink Falloc_resized_grow; (rule std bm wf run)?; assumption?)+
  then have g: "isize ino' = sz" "blocks_only ino ino'"
    "\<And>v. v < ?cur \<Longrightarrow> v < ?need \<Longrightarrow> blk_at fs' ino' v = blk_at fs ino v"
    "blocks_frame (unat ` set (table_list ino' ?need)) fs fs'" "inode_wf fs' ino'" "data_bm (dbitmap fs')"
    "unat ` set (owned fs' ino') \<subseteq> unat ` set (owned fs ino) \<union> free_bits (dbitmap fs)"
    "free_bits (dbitmap fs') = (free_bits (dbitmap fs) \<union> unat ` set (owned fs ino)) - unat ` set (owned fs' ino')"
    "\<And>v. ?cur \<le> v \<Longrightarrow> v < ?need \<Longrightarrow> unat (blk_at fs' ino' v) \<in> free_bits (dbitmap fs)"
    "?cur \<le> ?need \<Longrightarrow> free_bits (dbitmap fs') \<subseteq> free_bits (dbitmap fs) \<and>
       card (free_bits (dbitmap fs)) = card (free_bits (dbitmap fs')) + needed_blocks ?cur ?need"
    unfolding resized_def by blast+
  have S: "unat ` set (table_list ino' ?need) \<subseteq> unat ` set (owned fs' ino') \<union> unat ` set (owned fs ino)"
    using g(1) by (auto simp: owned_def)
  note u = consistent_update[OF con i g(4,5,6) S g(7,8)]
  show "disk_consistent fs' (files(i \<mapsto> ino'))" by (rule u)
  show "isize ino' = sz" "blocks_only ino ino'" by (rule g)+
  show "blk_at fs' ino' v = blk_at fs ino v" if "v < ?cur" "v < ?need" for v by (rule g(3)[OF that])
  show "blocks_frame (unat ` set (table_list ino' ?need)) fs fs'" by (rule g(4))
  show "owned fs' ino2 = owned fs ino2 \<and> (\<forall>b \<in> set (owned fs ino2). dblk fs' (unat b) = dblk fs (unat b))"
    if "j \<noteq> i" "files j = Some ino2" for j ino2 by (rule u(2)[OF that])
  show "unat (blk_at fs' ino' v) \<in> free_bits (dbitmap fs)" if "?cur \<le> v" "v < ?need" for v
    by (rule g(9)[OF that])
  have "dblk fs' b = dblk fs b" if b: "b \<in> free_bits (dbitmap fs')" for b
  proof -
    have "b \<notin> unat ` set (owned fs' ino')" using b g(8) by blast
    then have "b \<notin> unat ` set (table_list ino' ?need)" using g(1) by (auto simp: owned_def)
    then show ?thesis using g(4) by (simp add: blocks_frame_def)
  qed
  then show "?cur \<le> ?need \<Longrightarrow> free_kept fs fs' \<and>
       card (free_bits (dbitmap fs)) = card (free_bits (dbitmap fs')) + needed_blocks ?cur ?need"
    using g(10) by (simp add: free_kept_def)
qed

end
