(* ===== verification/Utf8.thy ===== *)
theory Utf8
  imports GoLib
begin

text \<open>
  Go's conversions between strings and runes: \<open>[]rune(s)\<close> decodes UTF-8 and gives \<open>U+FFFD\<close> for every
  byte that starts no valid encoding, \<open>string(rs)\<close> encodes. A Go string is its bytes, here the
  codes of its characters; a rune is a number.
\<close>

definition cont_byte :: "nat \<Rightarrow> bool" where
  "cont_byte b \<longleftrightarrow> 0x80 \<le> b \<and> b \<le> 0xBF"

text \<open>The rune that starts with byte \<open>a\<close>, and how many of the bytes after it belong to it.\<close>

definition rune_at :: "nat \<Rightarrow> nat list \<Rightarrow> nat \<times> nat" where
  "rune_at a bs =
     (if a < 0x80 then (a, 0)
      else if 0xC2 \<le> a \<and> a \<le> 0xDF \<and> 1 \<le> length bs \<and> cont_byte (bs ! 0) then
        ((a - 0xC0) * 64 + (bs ! 0 - 0x80), 1)
      else if 0xE0 \<le> a \<and> a \<le> 0xEF \<and> 2 \<le> length bs \<and>
          (if a = 0xE0 then 0xA0 else 0x80) \<le> bs ! 0 \<and> bs ! 0 \<le> (if a = 0xED then 0x9F else 0xBF) \<and>
          cont_byte (bs ! 1) then
        ((a - 0xE0) * 4096 + (bs ! 0 - 0x80) * 64 + (bs ! 1 - 0x80), 2)
      else if 0xF0 \<le> a \<and> a \<le> 0xF4 \<and> 3 \<le> length bs \<and>
          (if a = 0xF0 then 0x90 else 0x80) \<le> bs ! 0 \<and> bs ! 0 \<le> (if a = 0xF4 then 0x8F else 0xBF) \<and>
          cont_byte (bs ! 1) \<and> cont_byte (bs ! 2) then
        ((a - 0xF0) * 262144 + (bs ! 0 - 0x80) * 4096 + (bs ! 1 - 0x80) * 64 + (bs ! 2 - 0x80), 3)
      else (0xFFFD, 0))"

fun decode_runes :: "nat list \<Rightarrow> nat list" where
  "decode_runes [] = []"
| "decode_runes (a # bs) = (case rune_at a bs of (r, w) \<Rightarrow> r # decode_runes (drop w bs))"

definition valid_rune :: "nat \<Rightarrow> bool" where
  "valid_rune r \<longleftrightarrow> r < 0xD800 \<or> 0xE000 \<le> r \<and> r < 0x110000"

definition encode_rune :: "nat \<Rightarrow> nat list" where
  "encode_rune r =
     (if r < 0x80 then [r]
      else if r < 0x800 then [0xC0 + r div 64, 0x80 + r mod 64]
      else if \<not> valid_rune r then [0xEF, 0xBF, 0xBD]
      else if r < 0x10000 then [0xE0 + r div 4096, 0x80 + r div 64 mod 64, 0x80 + r mod 64]
      else [0xF0 + r div 262144, 0x80 + r div 4096 mod 64, 0x80 + r div 64 mod 64, 0x80 + r mod 64])"

definition runes :: "string \<Rightarrow> nat list" where
  "runes s = decode_runes (map of_char s)"

definition string_of_runes :: "nat list \<Rightarrow> string" where
  "string_of_runes rs = map char_of (concat (map encode_rune rs))"

section \<open>Round trip\<close>

lemma digit_split:
  fixes r :: nat
  shows "r div 64 * 64 + r mod 64 = r"
    "r div 4096 * 4096 + r div 64 mod 64 * 64 + r mod 64 = r"
    "r div 262144 * 262144 + r div 4096 mod 64 * 4096 + r div 64 mod 64 * 64 + r mod 64 = r"
proof -
  have a: "r div 64 * 64 + r mod 64 = r" "r div 64 div 64 * 64 + r div 64 mod 64 = r div 64"
    "r div 64 div 64 div 64 * 64 + r div 64 div 64 mod 64 = r div 64 div 64"
    by (rule div_mult_mod_eq)+
  have d: "r div 4096 = r div 64 div 64" "r div 262144 = r div 64 div 64 div 64"
    by (simp_all add: div_mult2_eq[symmetric])
  show "r div 64 * 64 + r mod 64 = r" by (rule a)
  show "r div 4096 * 4096 + r div 64 mod 64 * 64 + r mod 64 = r" using a unfolding d by linarith
  show "r div 262144 * 262144 + r div 4096 mod 64 * 4096 + r div 64 mod 64 * 64 + r mod 64 = r"
    using a unfolding d by linarith
qed

lemma rune_at_bytes:
  "u < 0x80 \<Longrightarrow> rune_at u cs = (u, 0)"
  "2 \<le> u \<Longrightarrow> u < 32 \<Longrightarrow> v < 64 \<Longrightarrow> rune_at (0xC0 + u) ((0x80 + v) # cs) = (u * 64 + v, 1)"
  "u < 16 \<Longrightarrow> v < 64 \<Longrightarrow> w < 64 \<Longrightarrow> u = 0 \<longrightarrow> 32 \<le> v \<Longrightarrow> u = 13 \<longrightarrow> v \<le> 31 \<Longrightarrow>
   rune_at (0xE0 + u) ((0x80 + v) # (0x80 + w) # cs) = (u * 4096 + v * 64 + w, 2)"
  "u < 5 \<Longrightarrow> v < 64 \<Longrightarrow> w < 64 \<Longrightarrow> x < 64 \<Longrightarrow> u = 0 \<longrightarrow> 16 \<le> v \<Longrightarrow> u = 4 \<longrightarrow> v \<le> 15 \<Longrightarrow>
   rune_at (0xF0 + u) ((0x80 + v) # (0x80 + w) # (0x80 + x) # cs) = (u * 262144 + v * 4096 + w * 64 + x, 3)"
  by (simp_all add: rune_at_def cont_byte_def)

lemma rune_at_encode:
  assumes "valid_rune r"
  obtains a bs where "encode_rune r = a # bs" "\<And>cs. rune_at a (bs @ cs) = (r, length bs)"
proof -
  note s = digit_split[of r]
  have m: "r mod 64 < 64" "r div 64 mod 64 < 64" "r div 4096 mod 64 < 64" by simp_all
  consider "r < 0x80" | "0x80 \<le> r" "r < 0x800" | "0x800 \<le> r" "r < 0x10000" | "0x10000 \<le> r" by linarith
  then show ?thesis
  proof cases
    case 1
    then show ?thesis by (intro that[of r "[]"]) (simp_all add: encode_rune_def rune_at_bytes)
  next
    case 2
    then have h: "2 \<le> r div 64" "r div 64 < 32" by linarith+
    show ?thesis
      using 2 rune_at_bytes(2)[OF h m(1)] unfolding s(1)
      by (intro that[of "0xC0 + r div 64" "[0x80 + r mod 64]"]) (simp_all add: encode_rune_def)
  next
    case 3
    have h: "r div 4096 < 16" using 3 by linarith
    have lo: "32 \<le> r div 64 mod 64" if "r div 4096 = 0" using 3 s(2) m that by linarith
    have su: "r div 64 mod 64 \<le> 31" if "r div 4096 = 13"
      using assms 3 s(2) m that unfolding valid_rune_def by linarith
    show ?thesis
      using 3 assms rune_at_bytes(3)[OF h m(2,1)] lo su unfolding s(2)
      by (intro that[of "0xE0 + r div 4096" "[0x80 + r div 64 mod 64, 0x80 + r mod 64]"])
        (simp_all add: encode_rune_def)
  next
    case 4
    have u: "r < 0x110000" using assms 4 by (auto simp: valid_rune_def)
    have h: "r div 262144 < 5" using u by linarith
    have lo: "16 \<le> r div 4096 mod 64" if "r div 262144 = 0" using 4 s(3) m that by linarith
    have hi: "r div 4096 mod 64 \<le> 15" if "r div 262144 = 4" using u s(3) m that by linarith
    show ?thesis
      using 4 u assms rune_at_bytes(4)[OF h m(3,2,1)] lo hi unfolding s(3)
      by (intro that[of "0xF0 + r div 262144" "[0x80 + r div 4096 mod 64, 0x80 + r div 64 mod 64, 0x80 + r mod 64]"])
        (simp_all add: encode_rune_def)
  qed
qed

lemma decode_encode_runes: "\<forall>r \<in> set rs. valid_rune r \<Longrightarrow> decode_runes (concat (map encode_rune rs)) = rs"
proof (induction rs)
  case (Cons r rs)
  obtain a bs where e: "encode_rune r = a # bs" "\<And>cs. rune_at a (bs @ cs) = (r, length bs)"
    using rune_at_encode[of r] Cons.prems by auto
  then show ?case using Cons by simp
qed simp

lemma encode_rune_bytes: "valid_rune r \<Longrightarrow> \<forall>b \<in> set (encode_rune r). b < 256"
  by (auto simp: encode_rune_def valid_rune_def)

lemma runes_string:
  assumes "\<forall>r \<in> set rs. valid_rune r"
  shows "runes (string_of_runes rs) = rs"
proof -
  have "map (of_char \<circ> char_of) (concat (map encode_rune rs)) = concat (map encode_rune rs)"
    using assms encode_rune_bytes by (intro map_idI) fastforce
  then show ?thesis using decode_encode_runes[OF assms] by (simp add: runes_def string_of_runes_def)
qed

section \<open>ASCII\<close>

definition ascii :: "string \<Rightarrow> bool" where
  "ascii s \<longleftrightarrow> (\<forall>c \<in> set s. (of_char c :: nat) < 128)"

lemma ascii_simps [simp]:
  "ascii []" "ascii (c # s) \<longleftrightarrow> (of_char c :: nat) < 128 \<and> ascii s" "ascii (s @ t) \<longleftrightarrow> ascii s \<and> ascii t"
  by (auto simp: ascii_def)

lemma ascii_take_drop [simp]: "ascii s \<Longrightarrow> ascii (take n s)" "ascii s \<Longrightarrow> ascii (drop n s)"
  by (auto simp: ascii_def dest: in_set_takeD in_set_dropD)

lemma runes_ascii: "ascii s \<Longrightarrow> runes s = map of_char s"
  by (induction s) (simp_all add: runes_def rune_at_def)

lemma string_of_runes_ascii: "ascii s \<Longrightarrow> string_of_runes (map of_char s) = s"
  by (induction s) (simp_all add: string_of_runes_def encode_rune_def)

text \<open>Cutting an ASCII string in runes is cutting it in characters, as the line editors do.\<close>

lemma runes_splice:
  assumes "ascii b" "ascii d"
  shows "string_of_runes (take n (runes b) @ runes d @ drop m (runes b)) = take n b @ d @ drop m b"
    "string_of_runes (take n (runes b) @ drop m (runes b)) = take n b @ drop m b"
proof -
  have a: "ascii (take n b @ d @ drop m b)" "ascii (take n b @ drop m b)" using assms by simp_all
  have r: "runes b = map of_char b" "runes d = map of_char d" by (rule runes_ascii[OF assms(1)], rule runes_ascii[OF assms(2)])
  have "take n (runes b) @ runes d @ drop m (runes b) = map of_char (take n b @ d @ drop m b)"
    "take n (runes b) @ drop m (runes b) = map of_char (take n b @ drop m b)"
    by (simp_all add: r take_map drop_map)
  then show "string_of_runes (take n (runes b) @ runes d @ drop m (runes b)) = take n b @ d @ drop m b"
    "string_of_runes (take n (runes b) @ drop m (runes b)) = take n b @ drop m b"
    using string_of_runes_ascii a by (simp_all only:)
qed

lemma length_runes_ascii: "ascii b \<Longrightarrow> length (runes b) = length b"
  by (simp add: runes_ascii)

end
