(* ===== verification/Tty.thy ===== *)
theory Tty
  imports Utf8
begin

text \<open>
  \<open>computer/tty.go\<close>: the terminal, a device in RAM. Its connection is the list of messages written to
  it (\<open>sent\<close>), its data channel the list of keys a read receives, and \<open>ctx.Done()\<close> the event
  \<open>Cancelled\<close>. A session is a value, since no field of it changes after it was made; all
  terminals belong to one computer, so \<open>Session.Computer\<close> is not a field, and \<open>GetProcs\<close> is an
  argument: the process groups by process number.

  The second half is the view of a line being edited as the text before and after the cursor, which
  is what the code implements as long as the text is ASCII: it takes the length of the buffer in
  bytes and its cursor in runes.
\<close>

section \<open>The terminal\<close>

definition Success :: int where "Success = 0"
definition Warning :: int where "Warning = 1"
definition Error :: int where "Error = 2"
definition SuccessDoNotDisplay :: int where "SuccessDoNotDisplay = 3"
definition Exit :: int where "Exit = 10"

lemmas status_defs = Success_def Warning_def Error_def SuccessDoNotDisplay_def Exit_def

datatype signal = SIGINT | SIGTSTP | SIGQUIT | SIGINFO | SIGWINCH

record session =
  SessionID :: string
  CurrentUser :: string

record tty =
  tty_id :: string
  PasswdMode :: bool
  ForegroundPGID :: int
  Canonical :: bool
  Echo :: bool
  Buffer :: string
  CursorPosition :: int
  Width :: int
  Height :: int
  Session :: "session option"
  sent :: "(string \<times> int) list"

definition NewTTY :: "string \<Rightarrow> tty" where
  "NewTTY i = \<lparr>tty_id = i, PasswdMode = False, ForegroundPGID = -1, Canonical = True, Echo = True,
     Buffer = [], CursorPosition = 0, Width = 0, Height = 0, Session = None, sent = []\<rparr>"

definition writeToClient :: "string \<Rightarrow> int \<Rightarrow> tty \<Rightarrow> tty" where
  "writeToClient dat status t = t\<lparr>sent := sent t @ [(dat, status)]\<rparr>"

definition TTY_Write :: "u8 list \<Rightarrow> tty \<Rightarrow> (nat \<times> go_error option) \<times> tty" where
  "TTY_Write str t = ((length str, None), writeToClient (bytes_string str) Success t)"

definition BuffClear :: "tty \<Rightarrow> tty" where
  "BuffClear t = t\<lparr>Buffer := [], CursorPosition := 0\<rparr>"

definition SetForegroundPGID :: "int \<Rightarrow> tty \<Rightarrow> tty" where
  "SetForegroundPGID pgid t = t\<lparr>ForegroundPGID := pgid\<rparr>"

text \<open>The processes a signal reaches, by number; \<open>pgids\<close> gives the group of every process there is.\<close>

definition foreground :: "(int \<rightharpoonup> int) \<Rightarrow> tty \<Rightarrow> int set" where
  "foreground pgids t = {pid. pgids pid = Some (ForegroundPGID t)}"

definition SetWinsize :: "int \<Rightarrow> int \<Rightarrow> (int \<rightharpoonup> int) \<Rightarrow> tty \<Rightarrow> tty \<times> (signal \<times> int set) list" where
  "SetWinsize width height pgids t =
     (if width = Width t \<and> height = Height t then (t, [])
      else let t = t\<lparr>Width := width, Height := height\<rparr>
           in (t, if ForegroundPGID t \<noteq> -1 \<and> Session t \<noteq> None then [(SIGWINCH, foreground pgids t)] else []))"

text \<open>A key either signals the foreground processes or goes to the data channel.\<close>

definition ctrl_c :: string where "ctrl_c = [CHR 0x03]"
definition key_delete :: string where "key_delete = [CHR 0x7F]"
definition key_enter :: string where "key_enter = [CHR 0x0D]"
definition key_tab :: string where "key_tab = [CHR 0x09]"
definition ctrl_u :: string where "ctrl_u = [CHR 0x15]"
definition ctrl_b :: string where "ctrl_b = [CHR 0x02]"
definition key_escape :: string where "key_escape = [CHR 0x1B]"
definition key_up :: string where "key_up = CHR 0x1B # ''[A''"
definition key_down :: string where "key_down = CHR 0x1B # ''[B''"
definition key_right :: string where "key_right = CHR 0x1B # ''[C''"
definition key_left :: string where "key_left = CHR 0x1B # ''[D''"
definition alt_delete :: string where "alt_delete = [CHR 0x1B, CHR 0x7F]"
definition alt_w :: string where "alt_w = CHR 0x1B # ''w''"
definition ctrl_arrow :: string where "ctrl_arrow = CHR 0x1B # ''[1;5''"

lemmas key_defs = ctrl_c_def key_delete_def key_enter_def key_tab_def ctrl_u_def ctrl_b_def key_escape_def
  key_up_def key_down_def key_right_def key_left_def alt_delete_def alt_w_def ctrl_arrow_def

definition HandleKeystroke :: "string \<Rightarrow> (int \<rightharpoonup> int) \<Rightarrow> tty \<Rightarrow>
    (string option \<times> (signal \<times> int set) list) outcome \<times> tty" where
  "HandleKeystroke keystroke pgids t =
     (if keystroke = ctrl_c then
        let t = writeToClient ''^C'' Success t
        in if ForegroundPGID t \<noteq> -1 then
             if Session t = None then (Panic, t)
             else (Ok (None, [(SIGINT, foreground pgids t)]), t)
           else (Ok (None, []), t)
      else (Ok (Some keystroke, []), t))"

section \<open>Reading a line\<close>

text \<open>What is echoed for a key; a delete moves the cursor already here.\<close>

definition echo_key :: "string \<Rightarrow> tty \<Rightarrow> tty" where
  "echo_key key t =
     (let (ansi, t) =
        (if key = key_delete then
           if CursorPosition t > 0 then ([CHR 0x08, CHR '' '', CHR 0x08], t\<lparr>CursorPosition := CursorPosition t - 1\<rparr>)
           else ([], t)
         else if key = key_tab then (''    '', t)
         else if key = key_up \<or> key = key_down \<or> key = ctrl_u then ([], t)
         else if key = key_right then (if CursorPosition t = int (length (Buffer t)) then [] else key, t)
         else if key = key_left then (if CursorPosition t = 0 then [] else key, t)
         else (key, t));
      ansi = (if PasswdMode t \<and> key \<noteq> key_enter \<and> key \<noteq> key_delete then ''*'' else ansi)
      in writeToClient ansi Success t)"

text \<open>The rest of the line again, and the cursor back to its place.\<close>

definition redraw :: "nat list \<Rightarrow> tty \<Rightarrow> tty" where
  "redraw rs t =
     (if Echo t \<and> \<not> PasswdMode t then
        let right = string_of_runes (drop (nat (CursorPosition t)) rs)
        in if right \<noteq> [] then
             writeToClient (right @ '' '' @ CHR 0x1B # ''['' @ itoa (int (length right + 1)) @ ''D'') Success t
           else t
      else t)"

text \<open>
  Deleting the rune at the cursor, and inserting at it. The slices panic when the cursor is outside
  the runes. \<open>pre\<close> is the cursor before the echo.
\<close>

definition delete_rune :: "int \<Rightarrow> tty \<Rightarrow> unit outcome \<times> tty" where
  "delete_rune pre t =
     (let rs = runes (Buffer t)
      in if pre > 0 \<and> CursorPosition t < int (length rs) then
           if CursorPosition t < 0 then (Panic, t)
           else let c = nat (CursorPosition t); rs = take c rs @ drop (c + 1) rs
                in (Ok (), redraw rs (t\<lparr>Buffer := string_of_runes rs\<rparr>))
         else (Ok (), t))"

definition insert_runes :: "string \<Rightarrow> tty \<Rightarrow> unit outcome \<times> tty" where
  "insert_runes key t =
     (let dat = (if key = key_tab then ''    '' else key); r = runes dat; rs = runes (Buffer t)
      in if CursorPosition t < 0 \<or> int (length rs) < CursorPosition t then (Panic, t)
         else let i = nat (CursorPosition t); rs = take i rs @ r @ drop i rs
              in (Ok (), redraw rs (t\<lparr>Buffer := string_of_runes rs,
                   CursorPosition := CursorPosition t + int (length r)\<rparr>)))"

definition line_key :: "int \<Rightarrow> string \<Rightarrow> tty \<Rightarrow> (string \<times> int) option outcome \<times> tty" where
  "line_key pre key t =
     (if key = key_enter then (Ok (Some (Buffer t, Success)), t\<lparr>CursorPosition := 0, Buffer := []\<rparr>)
      else if key = key_delete then bindS (delete_rune pre t) (\<lambda>_ t. (Ok None, t))
      else if key = key_right then
        (Ok None, if PasswdMode t \<or> CursorPosition t = int (length (Buffer t)) then t
                  else t\<lparr>CursorPosition := CursorPosition t + 1\<rparr>)
      else if key = key_left then
        (Ok None, if PasswdMode t \<or> CursorPosition t = 0 then t
                  else t\<lparr>CursorPosition := CursorPosition t - 1\<rparr>)
      else if key \<in> {key_up, key_down, alt_delete, alt_w, ctrl_u, ctrl_b, key_escape} then (Ok None, t)
      else bindS (insert_runes key t) (\<lambda>_ t. (Ok None, t)))"

text \<open>One key of the loop: \<open>None\<close> means the loop goes on.\<close>

definition read_key :: "string \<Rightarrow> tty \<Rightarrow> (string \<times> int) option outcome \<times> tty" where
  "read_key key t =
     (if has_prefix key ctrl_arrow \<or> key = '';'' then (Ok None, t)
      else let pre = CursorPosition t; t = (if Echo t then echo_key key t else t)
           in if \<not> Canonical t then (Ok (Some (key, Success)), t) else line_key pre key t)"

datatype tty_event = Key string | Cancelled

text \<open>
  The loop of \<open>Read\<close> over the events that arrive; what is left of them stays in the channel. \<open>None\<close>
  means it still waits. \<open>Cancelled\<close> is the end of the context of the process that reads: each process has its own,
  which stays done, and every program returns from its first read that says so, so that the next reader at the terminal
  waits for its own. A context that ends together with its parent's is an event for each. Of a key and
  an end that are both there \<open>select\<close> takes any: the list is in the order it takes them.
\<close>

fun read_loop_keys :: "tty_event list \<Rightarrow> tty \<Rightarrow> (string \<times> int) option outcome \<times> (tty \<times> tty_event list)" where
  "read_loop_keys [] t = (Ok None, (t, []))"
| "read_loop_keys (Cancelled # es) t = (Ok (Some (''SIGINT'', Exit)), (t, es))"
| "read_loop_keys (Key key # es) t = (case read_key key t of
     (Ok None, t) \<Rightarrow> read_loop_keys es t
   | (r, t) \<Rightarrow> (r, (t, es)))"

definition TTY_Read :: "int \<Rightarrow> tty_event list \<Rightarrow> tty \<Rightarrow>
    (string \<times> int) option outcome \<times> (tty \<times> tty_event list)" where
  "TTY_Read pgid es t =
     (if pgid \<noteq> ForegroundPGID t then (Ok (Some (''Err: You are not foreground program'', Error)), (t, es))
      else if Session t = None then (Panic, (t, es))
      else read_loop_keys es t)"

section \<open>A line with a cursor\<close>

text \<open>
  The contract of an editor of one line, over the text before and after its cursor: the arrow keys
  move the cursor, delete removes before it, the control keys do nothing, Enter returns the
  text, and every other key inserts. The shell has its own copy of the code below, with the
  same contract.
\<close>

type_synonym line = "string \<times> string"

definition control_keys :: "string set" where
  "control_keys = {key_up, key_down, alt_delete, alt_w, ctrl_u, ctrl_b, key_escape, '';''}"

definition key_text :: "string \<Rightarrow> string" where
  "key_text key = (if key = key_tab then ''    '' else key)"

definition edit_key :: "string \<Rightarrow> line \<Rightarrow> line" where
  "edit_key key ln = (case ln of (l, r) \<Rightarrow>
     if key = key_delete then (butlast l, r)
     else if key = key_right then (if r = [] then (l, r) else (l @ [hd r], tl r))
     else if key = key_left then (if l = [] then (l, r) else (butlast l, last l # r))
     else if key \<in> control_keys \<or> has_prefix key ctrl_arrow then (l, r)
     else (l @ key_text key, r))"

locale line_editor =
  fixes ok :: "'t \<Rightarrow> bool"
    and view :: "'t \<Rightarrow> line"
    and press :: "string \<Rightarrow> 't \<Rightarrow> 't option"
    and enter :: "'t \<Rightarrow> (string \<times> 't) option"
    and typeable :: "string \<Rightarrow> bool"
  assumes press_edit: "ok t \<Longrightarrow> typeable key \<Longrightarrow> \<exists>t'. press key t = Some t' \<and> ok t' \<and> view t' = edit_key key (view t)"
    and enter_text: "ok t \<Longrightarrow> \<exists>t'. enter t = Some (fst (view t) @ snd (view t), t') \<and> ok t' \<and> view t' = ([], [])"
begin

fun press_all :: "string list \<Rightarrow> 't \<Rightarrow> 't option" where
  "press_all [] t = Some t"
| "press_all (key # keys) t = Option.bind (press key t) (press_all keys)"

lemma press_all_edit:
  assumes "ok t" "\<forall>key \<in> set keys. typeable key"
  obtains t' where "press_all keys t = Some t'" "ok t'" "view t' = fold edit_key keys (view t)"
  using assms
proof (induction keys arbitrary: t thesis)
  case (Cons key keys)
  obtain t1 where t1: "press key t = Some t1" "ok t1" "view t1 = edit_key key (view t)"
    using press_edit[of t key] Cons.prems(2,3) by auto
  obtain t' where "press_all keys t1 = Some t'" "ok t'" "view t' = fold edit_key keys (view t1)"
    by (rule Cons.IH[OF _ t1(2)]) (use Cons.prems(3) in auto)
  then show ?case using Cons.prems(1) t1 by simp
qed simp

text \<open>Typing a text and pressing Enter returns the text, whatever was there behind the cursor.\<close>

lemma type_text:
  assumes "ok t" "\<forall>key \<in> set keys. typeable key \<and> edit_key key = (\<lambda>(l, r). (l @ key_text key, r))"
  shows "\<exists>t' t''. press_all keys t = Some t' \<and>
    enter t' = Some (fst (view t) @ concat (map key_text keys) @ snd (view t), t'') \<and> ok t'' \<and> view t'' = ([], [])"
proof -
  have f: "fold edit_key keys ln = (fst ln @ concat (map key_text keys), snd ln)" for ln
    using assms(2)
  proof (induction keys arbitrary: ln)
    case (Cons key keys)
    have e: "edit_key key ln = (fst ln @ key_text key, snd ln)" using Cons.prems by (simp add: case_prod_beta)
    then show ?case using Cons by simp
  qed simp
  obtain t' where t': "press_all keys t = Some t'" "ok t'" "view t' = fold edit_key keys (view t)"
    by (rule press_all_edit[OF assms(1)]) (use assms(2) in auto)
  show ?thesis using enter_text[OF t'(2)] t'(1,3) f by auto
qed

end

text \<open>
  An editor that also keeps the lines it returned: its keys leave them alone, and a line that is not empty and not the last
  one again is added at the end.
\<close>

definition recorded :: "string \<Rightarrow> string list \<Rightarrow> string list" where
  "recorded line hs = (if line \<noteq> [] \<and> (hs = [] \<or> last hs \<noteq> line) then hs @ [line] else hs)"

locale recording_editor = line_editor ok view press enter typeable
  for ok :: "'t \<Rightarrow> bool" and view :: "'t \<Rightarrow> line" and press :: "string \<Rightarrow> 't \<Rightarrow> 't option"
    and enter :: "'t \<Rightarrow> (string \<times> 't) option" and typeable :: "string \<Rightarrow> bool" +
  fixes past :: "'t \<Rightarrow> string list"
  assumes press_past: "press key t = Some t' \<Longrightarrow> typeable key \<Longrightarrow> past t' = past t"
    and enter_past: "enter t = Some (s, t') \<Longrightarrow> past t' = recorded s (past t)"
begin

lemma press_all_past: "press_all keys t = Some t' \<Longrightarrow> \<forall>key \<in> set keys. typeable key \<Longrightarrow> past t' = past t"
proof (induction keys arbitrary: t)
  case (Cons key keys)
  obtain t1 where t1: "press key t = Some t1" "press_all keys t1 = Some t'" using Cons.prems(1) by (auto split: Option.bind_splits)
  show ?case using Cons.IH[OF t1(2)] press_past[OF t1(1)] Cons.prems(2) by simp
qed simp

text \<open>A line, from the first key to Enter.\<close>

lemma line_recorded:
  assumes "ok t" "\<forall>key \<in> set keys. typeable key"
  shows "\<exists>t' t'' s. press_all keys t = Some t' \<and> enter t' = Some (s, t'') \<and> s = (let (l, r) = fold edit_key keys (view t) in l @ r) \<and>
    ok t'' \<and> view t'' = ([], []) \<and> past t'' = recorded s (past t)"
proof -
  obtain t' where t': "press_all keys t = Some t'" "ok t'" "view t' = fold edit_key keys (view t)" by (rule press_all_edit[OF assms])
  obtain t'' where t'': "enter t' = Some (fst (view t') @ snd (view t'), t'')" "ok t''" "view t'' = ([], [])" using enter_text[OF t'(2)] by blast
  show ?thesis
    using t' t'' enter_past[OF t''(1)] press_all_past[OF t'(1) assms(2)] by (auto simp: case_prod_beta)
qed

end

definition tty_line :: "tty \<Rightarrow> line" where
  "tty_line t = (take (nat (CursorPosition t)) (Buffer t), drop (nat (CursorPosition t)) (Buffer t))"

text \<open>A terminal in line mode with ASCII text and the cursor inside it.\<close>

definition line_ok :: "tty \<Rightarrow> bool" where
  "line_ok t \<longleftrightarrow> Canonical t \<and> Echo t \<and> \<not> PasswdMode t \<and> ascii (Buffer t) \<and>
     0 \<le> CursorPosition t \<and> CursorPosition t \<le> int (length (Buffer t))"

definition tty_press :: "string \<Rightarrow> tty \<Rightarrow> tty option" where
  "tty_press key t = (case read_key key t of (Ok None, t') \<Rightarrow> Some t' | _ \<Rightarrow> None)"

definition tty_enter :: "tty \<Rightarrow> (string \<times> tty) option" where
  "tty_enter t = (case read_key key_enter t of (Ok (Some (s, st)), t') \<Rightarrow> if st = Success then Some (s, t') else None | _ \<Rightarrow> None)"

definition typeable :: "string \<Rightarrow> bool" where
  "typeable key \<longleftrightarrow> ascii key \<and> key \<noteq> key_enter"

lemma writeToClient_sel [simp]:
  "Buffer (writeToClient d s t) = Buffer t" "CursorPosition (writeToClient d s t) = CursorPosition t"
  "Canonical (writeToClient d s t) = Canonical t" "Echo (writeToClient d s t) = Echo t"
  "PasswdMode (writeToClient d s t) = PasswdMode t"
  by (simp_all add: writeToClient_def)

lemma redraw_sel [simp]:
  "Buffer (redraw rs t) = Buffer t" "CursorPosition (redraw rs t) = CursorPosition t"
  "Canonical (redraw rs t) = Canonical t" "Echo (redraw rs t) = Echo t" "PasswdMode (redraw rs t) = PasswdMode t"
  by (simp_all add: redraw_def Let_def)

text \<open>The only thing the echo of a key changes in the terminal is the cursor, on a delete.\<close>

lemma echo_key_sel [simp]:
  "Buffer (echo_key key t) = Buffer t" "Canonical (echo_key key t) = Canonical t" "Echo (echo_key key t) = Echo t"
  "PasswdMode (echo_key key t) = PasswdMode t"
  "CursorPosition (echo_key key t) =
     (if key = key_delete \<and> CursorPosition t > 0 then CursorPosition t - 1 else CursorPosition t)"
  by (simp_all add: echo_key_def Let_def key_defs)

text \<open>Deleting and inserting in an ASCII buffer are operations on its characters.\<close>

lemma delete_ascii:
  assumes "ascii (Buffer t)" "0 \<le> CursorPosition t" "CursorPosition t < int (length (Buffer t))" "0 < pre"
  shows "\<exists>t'. delete_rune pre t = (Ok (), t') \<and> CursorPosition t' = CursorPosition t \<and> Canonical t' = Canonical t \<and>
    Echo t' = Echo t \<and> PasswdMode t' = PasswdMode t \<and>
    Buffer t' = take (nat (CursorPosition t)) (Buffer t) @ drop (nat (CursorPosition t) + 1) (Buffer t)"
  using assms runes_splice(2)[OF assms(1,1), of "nat (CursorPosition t)" "nat (CursorPosition t) + 1"]
  by (simp add: delete_rune_def Let_def length_runes_ascii)

lemma insert_ascii:
  assumes "ascii (Buffer t)" "0 \<le> CursorPosition t" "CursorPosition t \<le> int (length (Buffer t))" "ascii key"
  shows "\<exists>t'. insert_runes key t = (Ok (), t') \<and> CursorPosition t' = CursorPosition t + int (length (key_text key)) \<and>
    Canonical t' = Canonical t \<and> Echo t' = Echo t \<and> PasswdMode t' = PasswdMode t \<and>
    Buffer t' = take (nat (CursorPosition t)) (Buffer t) @ key_text key @ drop (nat (CursorPosition t)) (Buffer t)"
proof -
  have k: "ascii (key_text key)" using assms(4) by (simp add: key_text_def)
  show ?thesis
    using assms runes_splice(1)[OF assms(1) k] length_runes_ascii[OF k]
    by (simp add: insert_runes_def Let_def length_runes_ascii flip: key_text_def)
qed

text \<open>A key other than Enter does to the line what the editor does.\<close>

definition presses :: "string \<Rightarrow> tty \<Rightarrow> bool" where
  "presses key t \<longleftrightarrow> (\<exists>t'. tty_press key t = Some t' \<and> line_ok t' \<and> tty_line t' = edit_key key (tty_line t))"

lemma tty_press_key:
  assumes "line_ok t" "typeable key" "\<not> has_prefix key ctrl_arrow" "key \<noteq> '';''"
  shows "read_key key t = line_key (CursorPosition t) key (echo_key key t)"
  using assms by (simp add: read_key_def line_ok_def Let_def)

lemma tty_press_delete:
  assumes ok: "line_ok t" and key: "typeable key" and k: "key = key_delete"
  shows "presses key t"
proof -
  have o: "Canonical t" "Echo t" "\<not> PasswdMode t" "ascii (Buffer t)" "0 \<le> CursorPosition t"
    "CursorPosition t \<le> int (length (Buffer t))" "key \<noteq> key_enter"
    using ok key by (simp_all add: line_ok_def typeable_def)
  let ?e = "echo_key key t"
  note rk = tty_press_key[OF ok key]
  have np: "\<not> has_prefix key ctrl_arrow" "key \<noteq> '';''" using k by (simp_all add: key_defs has_prefix_def)
  show ?thesis
  proof (cases "CursorPosition t = 0")
    case True
    then show ?thesis
      unfolding presses_def using k np o rk o(7)
      by (simp add: tty_press_def line_key_def delete_rune_def Let_def line_ok_def tty_line_def edit_key_def)
  next
    case False
    then have c: "0 < CursorPosition t" using o by simp
    have "ascii (Buffer ?e)" "0 \<le> CursorPosition ?e" "CursorPosition ?e < int (length (Buffer ?e))"
      using o c k by simp_all
    from delete_ascii[OF this c] obtain t' where t': "delete_rune (CursorPosition t) ?e = (Ok (), t')"
      "CursorPosition t' = CursorPosition t - 1" "Canonical t'" "Echo t'" "\<not> PasswdMode t'"
      "Buffer t' = take (nat (CursorPosition t - 1)) (Buffer t) @ drop (nat (CursorPosition t - 1) + 1) (Buffer t)"
      using o c k by auto
    let ?n = "nat (CursorPosition t)"
    have n: "nat (CursorPosition t - 1) = ?n - 1" "?n - 1 + 1 = ?n" "0 < ?n" "?n \<le> length (Buffer t)"
      using c o by auto
    have "tty_press key t = Some t'"
      using rk[OF np] k o(7) t'(1) by (simp add: tty_press_def line_key_def)
    moreover have "line_ok t'" using t' o n by (auto simp: line_ok_def)
    moreover have "tty_line t' = edit_key key (tty_line t)"
      using n k by (simp add: tty_line_def t'(2,6) edit_key_def butlast_take)
    ultimately show ?thesis unfolding presses_def by blast
  qed
qed

lemma tty_press_right:
  assumes ok: "line_ok t" and key: "typeable key" and k: "key = key_right"
  shows "presses key t"
proof -
  have o: "Canonical t" "Echo t" "\<not> PasswdMode t" "ascii (Buffer t)" "0 \<le> CursorPosition t"
    "CursorPosition t \<le> int (length (Buffer t))" "key \<noteq> key_enter"
    using ok key by (simp_all add: line_ok_def typeable_def)
  let ?e = "echo_key key t"
  note rk = tty_press_key[OF ok key]
  have np: "\<not> has_prefix key ctrl_arrow" "key \<noteq> '';''" "key \<noteq> key_delete"
    using k by (simp_all add: key_defs has_prefix_def)
  let ?n = "nat (CursorPosition t)"
  show ?thesis
  proof (cases "CursorPosition t = int (length (Buffer t))")
    case True
    then show ?thesis
      unfolding presses_def using k np o rk o(7) by (simp add: tty_press_def line_key_def line_ok_def tty_line_def edit_key_def)
  next
    case False
    then have lt: "?n < length (Buffer t)" using o(5,6) by linarith
    have s: "nat (CursorPosition t + 1) = Suc ?n" using o by simp
    show ?thesis
      unfolding presses_def using False k np o rk o(7) lt
      by (simp add: tty_press_def line_key_def line_ok_def tty_line_def edit_key_def s take_Suc_conv_app_nth
          hd_drop_conv_nth drop_Suc tl_drop)
  qed
qed

lemma tty_press_left:
  assumes ok: "line_ok t" and key: "typeable key" and k: "key = key_left"
  shows "presses key t"
proof -
  have o: "Canonical t" "Echo t" "\<not> PasswdMode t" "ascii (Buffer t)" "0 \<le> CursorPosition t"
    "CursorPosition t \<le> int (length (Buffer t))" "key \<noteq> key_enter"
    using ok key by (simp_all add: line_ok_def typeable_def)
  let ?e = "echo_key key t"
  note rk = tty_press_key[OF ok key]
  have np: "\<not> has_prefix key ctrl_arrow" "key \<noteq> '';''" "key \<noteq> key_delete" "key \<noteq> key_right"
    using k by (simp_all add: key_defs has_prefix_def)
  show ?thesis
  proof (cases "CursorPosition t = 0")
    case True
    then show ?thesis
      unfolding presses_def using k np o rk o(7) by (simp add: tty_press_def line_key_def line_ok_def tty_line_def edit_key_def)
  next
    case False
    then obtain m where m: "nat (CursorPosition t) = Suc m" "nat (CursorPosition t - 1) = m" "m < length (Buffer t)"
      using o by (cases "nat (CursorPosition t)") auto
    show ?thesis
      unfolding presses_def using False k np o rk o(7) m
      by (simp add: tty_press_def line_key_def line_ok_def tty_line_def edit_key_def take_Suc_conv_app_nth
          Cons_nth_drop_Suc)
  qed
qed

lemma tty_press_control:
  assumes ok: "line_ok t" and key: "typeable key" and k: "key \<in> control_keys" "\<not> has_prefix key ctrl_arrow" "key \<noteq> '';''"
  shows "presses key t"
proof -
  have o: "Canonical t" "Echo t" "\<not> PasswdMode t" "ascii (Buffer t)" "0 \<le> CursorPosition t"
    "CursorPosition t \<le> int (length (Buffer t))" "key \<noteq> key_enter"
    using ok key by (simp_all add: line_ok_def typeable_def)
  let ?e = "echo_key key t"
  note rk = tty_press_key[OF ok key]
  have np: "key \<noteq> key_delete" "key \<noteq> key_right" "key \<noteq> key_left"
    "key \<in> {key_up, key_down, alt_delete, alt_w, ctrl_u, ctrl_b, key_escape}"
    using k by (auto simp: control_keys_def key_defs)
  show ?thesis
    unfolding presses_def using k np o rk o(7) by (simp add: tty_press_def line_key_def line_ok_def tty_line_def edit_key_def)
qed

lemma tty_press_insert:
  assumes ok: "line_ok t" and key: "typeable key" and k: "key \<notin> control_keys" "\<not> has_prefix key ctrl_arrow" "key \<noteq> key_delete" "key \<noteq> key_right" "key \<noteq> key_left"
  shows "presses key t"
proof -
  have o: "Canonical t" "Echo t" "\<not> PasswdMode t" "ascii (Buffer t)" "0 \<le> CursorPosition t"
    "CursorPosition t \<le> int (length (Buffer t))" "key \<noteq> key_enter"
    using ok key by (simp_all add: line_ok_def typeable_def)
  let ?e = "echo_key key t"
  note rk = tty_press_key[OF ok key]
  have np: "key \<noteq> '';''" "key \<notin> {key_up, key_down, alt_delete, alt_w, ctrl_u, ctrl_b, key_escape}"
    using k(1) by (auto simp: control_keys_def)
  have ak: "ascii key" using key by (simp add: typeable_def)
  have "ascii (Buffer ?e)" "0 \<le> CursorPosition ?e" "CursorPosition ?e \<le> int (length (Buffer ?e))"
    using o k(3) by simp_all
  from insert_ascii[OF this ak] obtain t' where t': "insert_runes key ?e = (Ok (), t')"
    "CursorPosition t' = CursorPosition t + int (length (key_text key))" "Canonical t'" "Echo t'" "\<not> PasswdMode t'"
    "Buffer t' = take (nat (CursorPosition t)) (Buffer t) @ key_text key @ drop (nat (CursorPosition t)) (Buffer t)"
    using o k(3) by auto
  have n: "nat (CursorPosition t + int (length (key_text key))) = nat (CursorPosition t) + length (key_text key)"
    "nat (CursorPosition t) \<le> length (Buffer t)"
    using o by (simp_all add: nat_add_distrib)
  have "tty_press key t = Some t'"
    using rk[OF k(2) np(1)] k np o(7) t'(1) by (simp add: tty_press_def line_key_def)
  moreover have "line_ok t'"
    using t' o n ak by (simp add: line_ok_def key_text_def)
  moreover have "tty_line t' = edit_key key (tty_line t)"
    using n k by (simp add: tty_line_def t'(2,6) edit_key_def)
  ultimately show ?thesis unfolding presses_def by blast
qed

lemma tty_press_edit:
  assumes ok: "line_ok t" and key: "typeable key"
  shows "\<exists>t'. tty_press key t = Some t' \<and> line_ok t' \<and> tty_line t' = edit_key key (tty_line t)"
proof (cases "has_prefix key ctrl_arrow \<or> key = '';''")
  case True
  then have "key \<noteq> key_delete" "key \<noteq> key_right" "key \<noteq> key_left" by (auto simp: key_defs has_prefix_def)
  then show ?thesis using True ok by (auto simp: tty_press_def read_key_def edit_key_def control_keys_def tty_line_def)
next
  case False
  then show ?thesis
    using tty_press_delete[OF ok key] tty_press_right[OF ok key] tty_press_left[OF ok key] tty_press_control[OF ok key]
      tty_press_insert[OF ok key] unfolding presses_def by blast
qed

lemma tty_enter_text:
  assumes "line_ok t"
  shows "\<exists>t'. tty_enter t = Some (fst (tty_line t) @ snd (tty_line t), t') \<and> line_ok t' \<and> tty_line t' = ([], [])"
proof -
  have "\<not> has_prefix key_enter ctrl_arrow" "key_enter \<noteq> '';''" by (simp_all add: key_defs has_prefix_def)
  then show ?thesis
    using assms by (simp add: tty_enter_def read_key_def line_key_def Let_def line_ok_def tty_line_def)
qed

interpretation tty_editor: line_editor line_ok tty_line tty_press tty_enter typeable
  by unfold_locales (rule tty_press_edit tty_enter_text; assumption)+

end
