(* ===== verification/KernelState.thy ===== *)
theory KernelState
  imports FallocSpec Tty
begin

text \<open>
  The state of \<open>Kernel\<close> (\<open>computer/kernel.go\<close>, lines 88-146, \<open>computer/process.go\<close>), the error
  numbers with their texts, and \<open>getInode\<close>, the one place where an inode is loaded into the
  cache. The cache is a map from inode numbers to inodes; the code hands out pointers into it, so
  a function that changes an inode it got from \<open>getInode\<close> changes the entry of the map.

  \<open>computer.fs\<close> is the field \<open>kfs\<close> and \<open>computer.sessions\<close> the field \<open>sessions\<close>. Of the program table
  only the registered paths matter here (the factories make the programs, which run outside the
  kernel). What the code shares by pointer is kept once and named by its index: the terminals
  (\<open>ttys\<close>) and the open file descriptions (\<open>openFiles\<close>). \<open>signals\<close> records the signals sent, each with
  the processes it reached. The mutexes are not part of the state: each operation of the kernel is
  one atomic step.
\<close>

section \<open>Error numbers\<close>

abbreviation (input) "EPERM \<equiv> Errno 1"
abbreviation (input) "ENOENT \<equiv> Errno 2"
abbreviation (input) "EBADF \<equiv> Errno 9"
abbreviation (input) "EACCES \<equiv> Errno 13"
abbreviation (input) "EEXIST \<equiv> Errno 17"
abbreviation (input) "ENOTDIR \<equiv> Errno 20"
abbreviation (input) "EISDIR \<equiv> Errno 21"
abbreviation (input) "EINVAL \<equiv> Errno 22"
abbreviation (input) "ENOSPC \<equiv> Errno 28"

definition Errno_Error :: "int \<Rightarrow> string" where
  "Errno_Error e =
     (if e = 1 then ''operation not permitted''
      else if e = 2 then ''no such file or directory''
      else if e = 9 then ''bad file descriptor''
      else if e = 13 then ''permission denied''
      else if e = 17 then ''file already exists''
      else if e = 20 then ''not a directory''
      else if e = 21 then ''is a directory''
      else if e = 22 then ''invalid argument''
      else if e = 28 then ''no space left on device''
      else ''errno '' @ itoa e)"

section \<open>The kernel and its processes\<close>

datatype fd_type = FDTTY | FDFile | FDSocket | FDPipe

record file_description =
  fd_Type :: fd_type
  fd_TTY :: nat
  fd_refs :: int

record process =
  PID :: int
  UID :: string
  EUID :: string
  CWD :: string
  PGID :: int
  FDs :: "nat option list"

record kernel =
  kfs :: filesystem
  inodeCache :: "u32 \<rightharpoonup> inode"
  programs :: "string set"
  pids :: int
  freePIDs :: "int list"
  procs :: "int \<rightharpoonup> process"
  openFiles :: "file_description list"
  ttys :: "tty list"
  sessions :: "string \<rightharpoonup> session"
  signals :: "(signal \<times> int set) list"

text \<open>The kernel a new computer starts with, on its file system.\<close>

definition new_kernel :: "filesystem \<Rightarrow> kernel" where
  "new_kernel fs = \<lparr>kfs = fs, inodeCache = Map.empty, programs = {}, pids = 0, freePIDs = [], procs = Map.empty,
     openFiles = [], ttys = [], sessions = Map.empty, signals = []\<rparr>"

text \<open>\<open>GetProcs\<close>, as far as the terminal looks at it: the group of every process.\<close>

definition pgids :: "kernel \<Rightarrow> int \<rightharpoonup> int" where
  "pgids k pid = map_option PGID (procs k pid)"

section \<open>Loading an inode\<close>

definition with_ops :: "u32 \<Rightarrow> inode \<Rightarrow> inode" where
  "with_ops inum ino =
     (if fType ino = S_IFDIR then ino\<lparr>ops := Some (DirectoryOps inum)\<rparr>
      else if fType ino = S_IFREG then ino\<lparr>ops := Some RegularFileOps\<rparr>
      else ino)"

definition getInode :: "u32 \<Rightarrow> kernel \<Rightarrow> inode outcome \<times> kernel" where
  "getInode inum k = (case inodeCache k inum of
     Some ino \<Rightarrow> (Ok ino, k)
   | None \<Rightarrow> (case readInode (kfs k) inum of
       Err e \<Rightarrow> (Err e, k)
     | Panic \<Rightarrow> (Panic, k)
     | Ok ino \<Rightarrow> let ino = with_ops inum ino
               in (Ok ino, k\<lparr>inodeCache := (inodeCache k)(inum \<mapsto> ino)\<rparr>)))"

text \<open>What a cached inode of a number in the table is, when the cache agrees with the disk.\<close>

definition loaded :: "filesystem \<Rightarrow> u32 \<Rightarrow> inode" where
  "loaded fs i = with_ops i ((disk_inode fs (unat i))\<lparr>num := i\<rparr>)"

text \<open>The two agree on everything the disk record holds; \<open>dirty\<close> is a flag of the cached copy.\<close>

definition coherent :: "kernel \<Rightarrow> u32 \<Rightarrow> bool" where
  "coherent k i \<longleftrightarrow> (\<forall>ino. inodeCache k i = Some ino \<longrightarrow>
     ino\<lparr>dirty := False\<rparr> = loaded (kfs k) i)"

lemma dirty_False_update: "(ino :: inode)\<lparr>dirty := False\<rparr> = ino' \<Longrightarrow> ino = ino'\<lparr>dirty := dirty ino\<rparr>"
  by auto

lemma getInode_loaded:
  assumes "std_fs (kfs k)" "unat i < INODES" "coherent k i"
  obtains ino where "getInode i k = (Ok ino, k\<lparr>inodeCache := (inodeCache k)(i \<mapsto> ino)\<rparr>)"
    "ino\<lparr>dirty := False\<rparr> = loaded (kfs k) i"
proof (cases "inodeCache k i")
  case None
  have "getInode i k = (Ok (loaded (kfs k) i), k\<lparr>inodeCache := (inodeCache k)(i \<mapsto> loaded (kfs k) i)\<rparr>)"
    using None readInode_std[OF assms(1,2)]
    by (simp add: getInode_def loaded_def disk_inode_def Let_def)
  moreover have "(loaded (kfs k) i)\<lparr>dirty := False\<rparr> = loaded (kfs k) i"
    by (simp add: loaded_def with_ops_def disk_inode_def decode_inode_def)
  ultimately show ?thesis by (rule that)
next
  case (Some ino)
  have "getInode i k = (Ok ino, k\<lparr>inodeCache := (inodeCache k)(i \<mapsto> ino)\<rparr>)"
    using Some by (simp add: getInode_def fun_upd_idem)
  then show ?thesis using that assms(3) Some by (simp add: coherent_def)
qed

end
