(* ===== verification/FileFD.thy ===== *)
theory FileFD
  imports KernelState
begin

text \<open>
  \<open>computer/fs_fd.go\<close>: reading and writing a regular file through an open file (\<open>FileFD\<close>, lines
  25-164). The content of a file is the list of its bytes (\<open>file_bytes\<close>); the read loop returns
  a slice of it, the write loop splices the data into it, whatever the position of the offset in its
  block, and \<open>FileFD_Write\<close> grows the file first when the data go past its end.

  Offsets keep their 64 bits and the block index its 32, as in the code.
\<close>

section \<open>The code\<close>

record fileFD =
  inodeNum :: u32
  offset :: u64
  flags :: int

definition RegularFileOps_CreateFD :: "u32 \<Rightarrow> int \<Rightarrow> fileFD" where
  "RegularFileOps_CreateFD inum fl = \<lparr>inodeNum = inum, offset = 0, flags = fl\<rparr>"

definition FileFD_SetOffset :: "u64 \<Rightarrow> fileFD \<Rightarrow> fileFD" where
  "FileFD_SetOffset off f = f\<lparr>offset := off\<rparr>"

text \<open>\<open>blockNumForVirtual\<close> followed by \<open>readDataBlock\<close>.\<close>

definition block_of :: "filesystem \<Rightarrow> inode \<Rightarrow> u64 \<Rightarrow> (u32 \<times> u8 list) outcome" where
  "block_of fs ino off =
     bindO (blockNumForVirtual fs ino (ucast (off div of_nat BLOCKSIZE))) (\<lambda>b.
     bindO (readBlockE fs b) (\<lambda>blk. Ok (b, blk)))"

lemma unat_minus_less: "0 < c \<Longrightarrow> c \<le> d \<Longrightarrow> unat (d - c) < unat (d :: 'a::len word)"
  by (simp add: unat_sub word_gt_0_no word_le_nat_alt word_less_nat_alt)

lemma chunk_pos:
  assumes "n < (m :: u64)"
  shows "0 < min (m - n) (4096 - off mod 4096)"
proof -
  have "off mod 4096 < 4096" by (simp add: word_mod_less_divisor)
  moreover have "m - n \<noteq> 0" using assms by auto
  ultimately show ?thesis by (auto simp: min_def word_gt_0)
qed

function read_loop :: "filesystem \<Rightarrow> inode \<Rightarrow> u64 \<Rightarrow> u64 \<Rightarrow> u64 \<Rightarrow> u8 list \<Rightarrow>
    unit outcome \<times> (u64 \<times> u64 \<times> u8 list)" where
  "read_loop fs ino toRead n off b =
     (if n < toRead then
        let blockOff = off mod 4096
        in bindS (block_of fs ino off, (n, off, b)) (\<lambda>(blockNum, dat) st.
           let chunk = min (toRead - n) (4096 - blockOff);
               b' = put_at (unat n) (slice (unat blockOff) (unat (blockOff + chunk)) dat) b
           in read_loop fs ino toRead (n + chunk) (off + chunk) b')
      else (Ok (), (n, off, b)))"
  by pat_completeness auto

termination
proof (relation "measure (\<lambda>(fs, ino, toRead, n, off, b). unat (toRead - n))")
  fix fs :: filesystem and ino :: inode and toRead n off :: u64 and b :: "u8 list"
    and blockOff chunk :: u64 and b' :: "u8 list"
  assume n: "n < toRead" and bo: "blockOff = off mod 4096"
    and c: "chunk = min (toRead - n) (4096 - blockOff)"
  have "toRead - (n + chunk) = (toRead - n) - chunk" by simp
  moreover have "unat ((toRead - n) - chunk) < unat (toRead - n)"
    using chunk_pos[OF n] by (intro unat_minus_less) (simp_all add: c bo)
  ultimately have "unat (toRead - (n + chunk)) < unat (toRead - n)" by (simp only:)
  then show "((fs, ino, toRead, n + chunk, off + chunk, b'), fs, ino, toRead, n, off, b)
      \<in> measure (\<lambda>(fs, ino, toRead, n, off, b). unat (toRead - n))"
    by simp
qed auto

declare read_loop.simps [simp del]

text \<open>\<open>Read\<close> returns the number of bytes and an error; it fills the caller's buffer and moves the
  offset.\<close>

definition FileFD_Read :: "fileFD \<Rightarrow> u8 list \<Rightarrow> kernel \<Rightarrow>
    (u64 \<times> go_error option) outcome \<times> (fileFD \<times> u8 list \<times> kernel)" where
  "FileFD_Read f b k = (case getInode (inodeNum f) k of
     (Err e, k) \<Rightarrow> (Ok (0, Some e), (f, b, k))
   | (Panic, k) \<Rightarrow> (Panic, (f, b, k))
   | (Ok ino, k) \<Rightarrow>
      (if ucast (isize ino) \<le> offset f then (Ok (0, Some ErrEOF), (f, b, k))
       else let toRead = min (of_nat (length b)) (ucast (isize ino) - offset f)
            in case read_loop (kfs k) ino toRead 0 (offset f) b of
                 (Ok _, (n, off, b)) \<Rightarrow> (Ok (n, None), (f\<lparr>offset := off\<rparr>, b, k))
               | (Err e, (n, off, b)) \<Rightarrow> (Ok (n, Some e), (f\<lparr>offset := off\<rparr>, b, k))
               | (Panic, (n, off, b)) \<Rightarrow> (Panic, (f\<lparr>offset := off\<rparr>, b, k))))"

lemma block_offset_less: "unat ((off :: u64) mod 4096) < BLOCKSIZE"
  by (simp add: unat_mod layout)

function write_loop :: "inode \<Rightarrow> u8 list \<Rightarrow> nat \<Rightarrow> u64 \<Rightarrow> filesystem \<Rightarrow>
    unit outcome \<times> (nat \<times> u64 \<times> filesystem)" where
  "write_loop ino dat n off fs =
     (if n < length dat then
        let blockOff = unat (off mod 4096)
        in bindS (block_of fs ino off, (n, off, fs)) (\<lambda>(blockNum, blk) st.
           let chunk = min (BLOCKSIZE - blockOff) (length dat - n);
               blk' = put_at blockOff (take chunk (drop n dat)) blk
           in case writeDataBlock fs blockNum blk' of
                (fs', Some e) \<Rightarrow> (Err e, (n, off, fs'))
              | (fs', None) \<Rightarrow> write_loop ino dat (n + chunk) (off + of_nat chunk) fs')
      else (Ok (), (n, off, fs)))"
  by pat_completeness auto

termination
proof (relation "measure (\<lambda>(ino, dat, n, off, fs). length dat - n)")
  fix ino :: inode and dat :: "u8 list" and n and off :: u64 and fs fs' :: filesystem and blockOff chunk
  assume "n < length dat" "blockOff = unat (off mod 4096)"
    "chunk = min (BLOCKSIZE - blockOff) (length dat - n)"
  then show "((ino, dat, n + chunk, off + of_nat chunk, fs'), ino, dat, n, off, fs)
      \<in> measure (\<lambda>(ino, dat, n, off, fs). length dat - n)"
    using block_offset_less[of off] by (simp add: min_def) linarith
qed auto

declare write_loop.simps [simp del]

text \<open>
  \<open>Write\<close>: \<open>in\<close> is the pointer into the cache, so the new size and block pointers \<open>Falloc\<close> leaves in it
  are the cached inode's from then on.
\<close>

definition extend_to :: "u64 \<Rightarrow> inode \<Rightarrow> filesystem \<Rightarrow> unit outcome \<times> (inode \<times> filesystem)" where
  "extend_to newEnd ino fs =
     (if ucast (isize ino) < newEnd then Falloc ino (ucast newEnd) fs else (Ok (), (ino, fs)))"

definition FileFD_Write :: "fileFD \<Rightarrow> u8 list \<Rightarrow> kernel \<Rightarrow>
    (nat \<times> go_error option) outcome \<times> (fileFD \<times> kernel)" where
  "FileFD_Write f dat k = (case getInode (inodeNum f) k of
     (Err e, k) \<Rightarrow> (Ok (0, Some e), (f, k))
   | (Panic, k) \<Rightarrow> (Panic, (f, k))
   | (Ok ino, k) \<Rightarrow>
      let newEnd = offset f + of_nat (length dat);
          (r, (ino, fs)) = extend_to newEnd ino (kfs k);
          k = k\<lparr>kfs := fs, inodeCache := (inodeCache k)(inodeNum f \<mapsto> ino)\<rparr>
      in case r of
           Err e \<Rightarrow> (Ok (0, Some e), (f, k))
         | Panic \<Rightarrow> (Panic, (f, k))
         | Ok _ \<Rightarrow>
            (case write_loop ino dat 0 (offset f) (kfs k) of
               (Panic, (n, off, fs)) \<Rightarrow> (Panic, (f\<lparr>offset := off\<rparr>, k\<lparr>kfs := fs\<rparr>))
             | (Err e, (n, off, fs)) \<Rightarrow> (Ok (n, Some e), (f\<lparr>offset := off\<rparr>, k\<lparr>kfs := fs\<rparr>))
             | (Ok _, (n, off, fs)) \<Rightarrow>
                let (fs, err) = writeInode fs ino (inodeNum f)
                in (Ok (n, err), (f\<lparr>offset := off\<rparr>, k\<lparr>kfs := fs\<rparr>))))"

section \<open>The content of a file\<close>

definition raw_bytes :: "filesystem \<Rightarrow> inode \<Rightarrow> nat \<Rightarrow> u8 list" where
  "raw_bytes fs ino n = concat (map (\<lambda>b. dblk fs (unat b)) (blk_list fs ino n))"

definition file_bytes :: "filesystem \<Rightarrow> inode \<Rightarrow> u8 list" where
  "file_bytes fs ino = take (unat (isize ino)) (raw_bytes fs ino (nblocks (unat (isize ino))))"

lemma length_raw_bytes:
  assumes "std_fs fs" "\<forall>v < n. unat (blk_at fs ino v) < BLOCKS"
  shows "length (raw_bytes fs ino n) = n * BLOCKSIZE"
  unfolding raw_bytes_def using assms
  by (subst length_concat_equal[where w = BLOCKSIZE]) (auto simp: blk_list_def)

lemma raw_wf:
  assumes "std_fs fs" "inode_wf fs ino" "n = nblocks (unat (isize ino))"
  shows "length (raw_bytes fs ino n) = n * BLOCKSIZE" "unat (isize ino) \<le> n * BLOCKSIZE"
  using length_raw_bytes[OF assms(1)] inode_wf_block[OF assms(2)] nblocks_bound[of "unat (isize ino)" n]
    assms(3) by auto

lemma length_file_bytes:
  "std_fs fs \<Longrightarrow> inode_wf fs ino \<Longrightarrow> length (file_bytes fs ino) = unat (isize ino)"
  using raw_wf[OF _ _ refl, of fs ino] by (simp add: file_bytes_def)

lemma raw_block:
  assumes "std_fs fs" "\<forall>v < n. unat (blk_at fs ino v) < BLOCKS" "v < n"
  shows "slice (v * BLOCKSIZE) (v * BLOCKSIZE + BLOCKSIZE) (raw_bytes fs ino n) = dblk fs (unat (blk_at fs ino v))"
  unfolding raw_bytes_def using assms
  by (subst slice_concat_equal) (auto simp: blk_list_def)

lemma block_of_std:
  assumes "std_fs fs" "inode_wf fs ino" "n = nblocks (unat (isize ino))" "unat off < n * BLOCKSIZE"
    and "v = unat off div BLOCKSIZE"
  shows "block_of fs ino off = Ok (blk_at fs ino v, dblk fs (unat (blk_at fs ino v)))" "v < n"
proof -
  show v: "v < n" using assms(4,5) by (simp add: less_mult_imp_div_less)
  note b = inode_wf_block[OF assms(2)]
  have m: "v < max_blocks" using b(2) v assms(3) by simp
  have "(ucast (off div of_nat BLOCKSIZE) :: u32) = of_nat v"
  proof -
    have "unat (off div of_nat BLOCKSIZE) = v" by (simp add: unat_div layout assms(5))
    then show ?thesis by (metis of_nat_unat)
  qed
  then show "block_of fs ino off = Ok (blk_at fs ino v, dblk fs (unat (blk_at fs ino v)))"
    using assms(1,3) v m b(1)[of v] blockNumForVirtual_std[OF assms(1) inode_wf_tables[OF assms(2)]]
    by (simp add: block_of_def readBlockE_std)
qed

section \<open>The read loop\<close>

lemma raw_slice:
  assumes "std_fs fs" "\<forall>v < n. unat (blk_at fs ino v) < BLOCKS" "v < n" "lo \<le> hi" "hi \<le> BLOCKSIZE"
  shows "slice (v * BLOCKSIZE + lo) (v * BLOCKSIZE + hi) (raw_bytes fs ino n) =
    slice lo hi (dblk fs (unat (blk_at fs ino v)))"
  unfolding raw_block[OF assms(1-3), symmetric]
  using assms by (subst slice_slice) (simp_all add: add.commute)

text \<open>The position of the offset: block \<open>v\<close>, byte \<open>lo\<close> of it, and the bytes left in the block.\<close>

lemma chunk_word:
  assumes "n < m" "unat (m :: u64) < 2 ^ 32"
  shows "unat (min (m - n) (4096 - off mod 4096)) = min (unat m - unat n) (BLOCKSIZE - unat off mod BLOCKSIZE)"
    "unat (off mod 4096 + min (m - n) (4096 - off mod 4096)) =
       unat off mod BLOCKSIZE + min (unat m - unat n) (BLOCKSIZE - unat off mod BLOCKSIZE)"
proof -
  have lo: "unat (off mod 4096) = unat off mod BLOCKSIZE" "unat off mod BLOCKSIZE < BLOCKSIZE"
    by (simp_all add: unat_mod layout)
  have d: "unat (m - n) = unat m - unat n" using assms(1) by (simp add: unat_sub)
  have e: "unat (4096 - off mod 4096) = BLOCKSIZE - unat off mod BLOCKSIZE"
    using lo by (subst unat_sub) (simp_all add: word_le_nat_alt layout)
  show c: "unat (min (m - n) (4096 - off mod 4096)) = min (unat m - unat n) (BLOCKSIZE - unat off mod BLOCKSIZE)"
    using d e by (auto simp: min_def word_le_nat_alt)
  show "unat (off mod 4096 + min (m - n) (4096 - off mod 4096)) =
       unat off mod BLOCKSIZE + min (unat m - unat n) (BLOCKSIZE - unat off mod BLOCKSIZE)"
    unfolding unat_word_ariths(1) c using lo by (simp add: layout)
qed

lemma read_loop_Ok:
  assumes std: "std_fs fs" and wf: "inode_wf fs ino" and nb: "nb = nblocks (unat (isize ino))"
  shows "n \<le> toRead \<Longrightarrow> unat toRead \<le> length b \<Longrightarrow> unat off + (unat toRead - unat n) \<le> nb * BLOCKSIZE \<Longrightarrow>
    unat toRead < 2 ^ 32 \<Longrightarrow>
    \<exists>off'. read_loop fs ino toRead n off b = (Ok (), (toRead, off',
      put_at (unat n) (slice (unat off) (unat off + (unat toRead - unat n)) (raw_bytes fs ino nb)) b)) \<and>
    unat off' = unat off + (unat toRead - unat n)"
proof (induction "unat toRead - unat n" arbitrary: n off b rule: less_induct)
  case less
  have blk: "\<forall>v < nb. unat (blk_at fs ino v) < BLOCKS" using inode_wf_block[OF wf] nb by simp
  have rlen: "length (raw_bytes fs ino nb) = nb * BLOCKSIZE" by (rule raw_wf[OF std wf nb])
  have cap: "nb * BLOCKSIZE < 2 ^ 32" using wf by (simp add: inode_wf_def nb layout)
  show ?case
  proof (cases "n < toRead")
    case False
    then have "n = toRead" using less.prems(1) by simp
    then show ?thesis by (simp add: read_loop.simps slice_def)
  next
    case True
    let ?v = "unat off div BLOCKSIZE" and ?lo = "unat off mod BLOCKSIZE"
    let ?c = "min (toRead - n) (4096 - off mod 4096)"
    define cn where "cn = min (unat toRead - unat n) (BLOCKSIZE - ?lo)"
    note cw = chunk_word[OF True less.prems(4), of off, folded cn_def]
    have n: "unat n < unat toRead" using True by (simp add: word_less_nat_alt)
    have lo: "?lo < BLOCKSIZE" "unat (off mod 4096) = ?lo" by (simp_all add: layout unat_mod)
    have off: "unat off < nb * BLOCKSIZE" using less.prems(3) n by simp
    note bo = block_of_std[OF std wf nb off refl]
    have cn: "0 < cn" "cn \<le> unat toRead - unat n" "?lo + cn \<le> BLOCKSIZE" using n lo by (auto simp: cn_def)
    have un: "unat (n + ?c) = unat n + cn"
      unfolding unat_word_ariths(1) cw(1) using cn(2) n less.prems(4) by simp
    have uo: "unat (off + ?c) = unat off + cn"
      unfolding unat_word_ariths(1) cw(1) using cn(2) less.prems(3) cap n by simp
    let ?b' = "put_at (unat n) (slice ?lo (?lo + cn) (dblk fs (unat (blk_at fs ino ?v)))) b"
    have dl: "length (dblk fs (unat (blk_at fs ino ?v))) = BLOCKSIZE" using std blk bo(2) by simp
    have pos: "?v * BLOCKSIZE + ?lo = unat off" by simp
    have piece: "slice ?lo (?lo + cn) (dblk fs (unat (blk_at fs ino ?v))) =
        slice (unat off) (unat off + cn) (raw_bytes fs ino nb)"
      using raw_slice[OF std blk bo(2), of ?lo "?lo + cn"] cn(3) pos by (simp flip: add.assoc)
    have step: "read_loop fs ino toRead n off b = read_loop fs ino toRead (n + ?c) (off + ?c) ?b'"
      using True bo(1) lo(2) cw(2) by (subst read_loop.simps) (simp add: Let_def)
    have len: "length (slice (unat off) (unat off + cn) (raw_bytes fs ino nb)) = cn"
      using less.prems(3) rlen cn(2) by simp
    have lb: "length ?b' = length b" unfolding piece using len less.prems(2) cn(2) n by simp
    have "\<exists>off'. read_loop fs ino toRead (n + ?c) (off + ?c) ?b' = (Ok (), (toRead, off',
        put_at (unat (n + ?c)) (slice (unat (off + ?c)) (unat (off + ?c) + (unat toRead - unat (n + ?c)))
          (raw_bytes fs ino nb)) ?b')) \<and>
        unat off' = unat (off + ?c) + (unat toRead - unat (n + ?c))"
      using cn n less.prems lb by (intro less.hyps) (auto simp: un uo word_le_nat_alt)
    moreover have "put_at (unat (n + ?c)) (slice (unat (off + ?c)) (unat (off + ?c) + (unat toRead - unat (n + ?c)))
          (raw_bytes fs ino nb)) ?b' =
        put_at (unat n) (slice (unat off) (unat off + (unat toRead - unat n)) (raw_bytes fs ino nb)) b"
    proof -
      have e: "unat off + cn + (unat toRead - (unat n + cn)) = unat off + (unat toRead - unat n)"
        using cn(2) by simp
      have "length (slice (unat off + cn) (unat off + (unat toRead - unat n)) (raw_bytes fs ino nb)) =
          unat toRead - unat n - cn"
        using rlen less.prems(3) cn(2) by simp
      then show ?thesis
        unfolding un uo piece e
        using put_at_append[of "unat n" "slice (unat off) (unat off + cn) (raw_bytes fs ino nb)"
            "slice (unat off + cn) (unat off + (unat toRead - unat n)) (raw_bytes fs ino nb)" b]
          len less.prems(2) n cn(2) by (simp add: slice_append_slice)
    qed
    ultimately show ?thesis
      unfolding step using cn n by (auto simp: un uo)
  qed
qed

section \<open>The write loop\<close>

lemma owned_disjoint:
  assumes "inode_wf fs ino" "nb = nblocks (unat (isize ino))" "v < nb"
  shows "blk_at fs ino v \<notin> set (table_list ino nb)"
    "\<And>w. w < nb \<Longrightarrow> blk_at fs ino w = blk_at fs ino v \<longleftrightarrow> w = v"
proof -
  have d: "distinct (table_list ino nb @ blk_list fs ino nb)"
    using assms(1,2) by (simp add: inode_wf_def owned_def)
  have "blk_at fs ino v \<in> set (blk_list fs ino nb)" using assms(3) by (simp add: blk_list_def)
  then show "blk_at fs ino v \<notin> set (table_list ino nb)" using d by auto
  show "blk_at fs ino w = blk_at fs ino v \<longleftrightarrow> w = v" if "w < nb" for w
    using d nth_eq_iff_index_eq[of "blk_list fs ino nb" w v] that assms(3) by simp
qed

lemma data_write:
  assumes std: "std_fs fs" and wf: "inode_wf fs ino" and nb: "nb = nblocks (unat (isize ino))"
    and v: "v < nb" and bs: "bs = put_at lo ys (dblk fs (unat (blk_at fs ino v)))" "lo + length ys \<le> BLOCKSIZE"
    and fs': "fs' = set_dblk (unat (blk_at fs ino v)) bs fs"
  shows "writeDataBlock fs (blk_at fs ino v) bs = (fs', None)"
    "blocks_frame (unat ` set (blk_list fs ino nb)) fs fs'" "dbitmap fs' = dbitmap fs"
    "blk_list fs' ino nb = blk_list fs ino nb" "inode_wf fs' ino"
    "raw_bytes fs' ino nb = put_at (v * BLOCKSIZE + lo) ys (raw_bytes fs ino nb)"
proof -
  have b: "unat (blk_at fs ino v) < BLOCKS" using inode_wf_block[OF wf] v nb by simp
  have len: "length bs = BLOCKSIZE" using bs std b by simp
  show "writeDataBlock fs (blk_at fs ino v) bs = (fs', None)"
    using std b len fs' by (simp add: writeDataBlock_std)
  have mem: "unat (blk_at fs ino v) \<in> unat ` set (blk_list fs ino nb)" using v by (simp add: blk_list_def)
  show fr: "blocks_frame (unat ` set (blk_list fs ino nb)) fs fs'"
    unfolding fs' by (rule blocks_frame_dblk[OF std len b mem])
  show db: "dbitmap fs' = dbitmap fs" using std len b fs' by (simp add: view)
  have fr1: "blocks_frame {unat (blk_at fs ino v)} fs fs'"
    unfolding fs' by (rule blocks_frame_dblk[OF std len b]) simp
  have bl: "blk_at fs' ino w = blk_at fs ino w" if w: "w < nb" for w
  proof (rule blk_at_frame[OF fr1])
    assume "place_of w \<noteq> 0"
    then have "ind_ptr (place_of w) ino \<in> set (table_list ino nb)"
      using place_used[OF w] by (simp add: table_list_def)
    then have "ind_ptr (place_of w) ino \<noteq> blk_at fs ino v" using owned_disjoint(1)[OF wf nb v] by auto
    then show "unat (ind_ptr (place_of w) ino) \<notin> {unat (blk_at fs ino v)}"
      by (simp add: word_unat_eq_iff)
  qed simp_all
  then show bll: "blk_list fs' ino nb = blk_list fs ino nb" by (simp add: blk_list_def)
  then show "inode_wf fs' ino"
    using wf db by (simp add: inode_wf_def owned_def nb)
  have "map (\<lambda>b. dblk fs' (unat b)) (blk_list fs ino nb) =
      (map (\<lambda>b. dblk fs (unat b)) (blk_list fs ino nb))[v := put_at lo ys (dblk fs (unat (blk_at fs ino v)))]"
    using owned_disjoint(2)[OF wf nb v] std len b v
    by (intro nth_equalityI) (auto simp: fs' view bs(1) nth_list_update word_unat_eq_iff)
  moreover have "put_at (v * BLOCKSIZE + lo) ys (concat (map (\<lambda>b. dblk fs (unat b)) (blk_list fs ino nb))) =
      concat ((map (\<lambda>b. dblk fs (unat b)) (blk_list fs ino nb))
        [v := put_at lo ys ((map (\<lambda>b. dblk fs (unat b)) (blk_list fs ino nb)) ! v)])"
  proof (rule put_at_concat_equal)
    show "length xs = BLOCKSIZE" if "xs \<in> set (map (\<lambda>b. dblk fs (unat b)) (blk_list fs ino nb))" for xs
      using that std inode_wf_block(1)[OF wf] nb by (auto simp: blk_list_def)
  qed (use v bs(2) in simp_all)
  ultimately show "raw_bytes fs' ino nb = put_at (v * BLOCKSIZE + lo) ys (raw_bytes fs ino nb)"
    using v by (simp add: raw_bytes_def bll)
qed

lemma write_loop_Ok:
  assumes "std_fs fs" "inode_wf fs ino" "nb = nblocks (unat (isize ino))"
    and "n \<le> length dat" "unat off + (length dat - n) \<le> nb * BLOCKSIZE"
  shows "\<exists>off' fs'. write_loop ino dat n off fs = (Ok (), (length dat, off', fs')) \<and>
    unat off' = unat off + (length dat - n) \<and>
    raw_bytes fs' ino nb = put_at (unat off) (drop n dat) (raw_bytes fs ino nb) \<and>
    blocks_frame (unat ` set (blk_list fs ino nb)) fs fs' \<and> dbitmap fs' = dbitmap fs \<and>
    blk_list fs' ino nb = blk_list fs ino nb \<and> inode_wf fs' ino"
  using assms
proof (induction "length dat - n" arbitrary: n off fs rule: less_induct)
  case less
  note std = less.prems(1) and wf = less.prems(2) and nb = less.prems(3)
  have rlen: "length (raw_bytes fs ino nb) = nb * BLOCKSIZE" by (rule raw_wf[OF std wf nb])
  have cap: "nb * BLOCKSIZE < 2 ^ 32" using wf by (simp add: inode_wf_def nb layout)
  show ?case
  proof (cases "n < length dat")
    case False
    then show ?thesis
      using less.prems by (simp add: write_loop.simps blocks_frame_refl)
  next
    case True
    let ?v = "unat off div BLOCKSIZE" and ?lo = "unat off mod BLOCKSIZE"
    define c where "c = min (BLOCKSIZE - ?lo) (length dat - n)"
    have lo: "?lo < BLOCKSIZE" "unat (off mod 4096) = ?lo" by (simp_all add: layout unat_mod)
    have c: "0 < c" "c \<le> length dat - n" "?lo + c \<le> BLOCKSIZE"
      using True lo by (auto simp: c_def)
    have off: "unat off < nb * BLOCKSIZE" using less.prems(5) True by simp
    note bo = block_of_std[OF std wf nb off refl]
    have uo: "unat (off + of_nat c) = unat off + c"
      using c(2) less.prems(5) cap True by (simp add: unat_word_ariths unat_of_nat take_bit_nat_eq_self)
    let ?ys = "take c (drop n dat)"
    let ?bs = "put_at ?lo ?ys (dblk fs (unat (blk_at fs ino ?v)))"
    let ?fs1 = "set_dblk (unat (blk_at fs ino ?v)) ?bs fs"
    have ys: "length ?ys = c" using c(2) by simp
    note w = data_write[OF std wf nb bo(2) refl _ refl, of ?lo ?ys, unfolded ys, OF c(3)]
    have step: "write_loop ino dat n off fs = write_loop ino dat (n + c) (off + of_nat c) ?fs1"
      using True bo(1) lo(2) w(1) by (subst write_loop.simps) (simp add: Let_def c_def)
    have std1: "std_fs ?fs1" using w(2) by (simp add: blocks_frame_def)
    have "\<exists>off' fs'. write_loop ino dat (n + c) (off + of_nat c) ?fs1 = (Ok (), (length dat, off', fs')) \<and>
      unat off' = unat (off + of_nat c) + (length dat - (n + c)) \<and>
      raw_bytes fs' ino nb = put_at (unat (off + of_nat c)) (drop (n + c) dat) (raw_bytes ?fs1 ino nb) \<and>
      blocks_frame (unat ` set (blk_list ?fs1 ino nb)) ?fs1 fs' \<and> dbitmap fs' = dbitmap ?fs1 \<and>
      blk_list fs' ino nb = blk_list ?fs1 ino nb \<and> inode_wf fs' ino"
      using c less.prems(4,5) uo by (intro less.hyps[OF _ std1 w(5) nb]) auto
    then obtain off' fs' where r: "write_loop ino dat (n + c) (off + of_nat c) ?fs1 = (Ok (), (length dat, off', fs'))"
      "unat off' = unat off + (length dat - n)"
      "raw_bytes fs' ino nb = put_at (unat off + c) (drop (n + c) dat) (raw_bytes ?fs1 ino nb)"
      "blocks_frame (unat ` set (blk_list fs ino nb)) ?fs1 fs'" "dbitmap fs' = dbitmap fs"
      "blk_list fs' ino nb = blk_list fs ino nb" "inode_wf fs' ino"
      using c(1,2) uo w(3,4) by auto
    have "put_at (unat off + c) (drop (n + c) dat) (put_at (unat off) ?ys (raw_bytes fs ino nb)) =
        put_at (unat off) (drop n dat) (raw_bytes fs ino nb)"
    proof -
      have "?ys @ drop (n + c) dat = drop n dat"
        by (metis add.commute append_take_drop_id drop_drop)
      then show ?thesis
        using put_at_append[of "unat off" ?ys "drop (n + c) dat" "raw_bytes fs ino nb"] ys rlen less.prems(5) c(2)
        by simp
    qed
    then have raw: "raw_bytes fs' ino nb = put_at (unat off) (drop n dat) (raw_bytes fs ino nb)"
      using r(3) w(6) by simp
    have fr: "blocks_frame (unat ` set (blk_list fs ino nb)) fs fs'"
      by (rule blocks_frame_trans[OF w(2) r(4)]) simp_all
    show ?thesis unfolding step using r raw fr by blast
  qed
qed

end
