(* ===== verification/FileSpec.thy ===== *)
theory FileSpec
  imports FileFD
begin

text \<open>
  What a file read and a file write do, seen from above the blocks: the disk is a map from inode
  numbers to byte strings (\<open>content\<close>), a read returns a slice of one of them and a write splices
  bytes into one of them and leaves every other file alone. The invariant is \<open>fs_inv\<close>: the
  inodes the bitmap marks used have disjoint blocks, and the data bitmap marks those and no others.
\<close>

section \<open>The files of a disk\<close>

definition live :: "filesystem \<Rightarrow> files" where
  "live fs = (\<lambda>i. if unat i < INODES \<and> unat i \<notin> free_bits (ibitmap fs) then Some (disk_inode fs (unat i)) else None)"

definition fs_inv :: "filesystem \<Rightarrow> bool" where
  "fs_inv fs \<longleftrightarrow> disk_consistent fs (live fs)"

definition content :: "filesystem \<Rightarrow> u32 \<Rightarrow> u8 list" where
  "content fs i = file_bytes fs (disk_inode fs (unat i))"

text \<open>The bytes \<open>dat\<close> placed at \<open>off\<close> of a byte string, which they may extend.\<close>

definition splice :: "nat \<Rightarrow> 'a list \<Rightarrow> 'a list \<Rightarrow> 'a list" where
  "splice off dat xs = take off xs @ dat @ drop (off + length dat) xs"

lemma live_Some:
  "live fs i = Some ino \<longleftrightarrow> unat i < INODES \<and> unat i \<notin> free_bits (ibitmap fs) \<and> ino = disk_inode fs (unat i)"
  by (auto simp: live_def)

lemma fs_inv_std: "fs_inv fs \<Longrightarrow> std_fs fs"
  by (simp add: fs_inv_def disk_consistent_def)

lemma fs_inv_wf: "fs_inv fs \<Longrightarrow> live fs i = Some ino \<Longrightarrow> inode_wf fs ino"
  by (auto simp: fs_inv_def disk_consistent_def intro: ranI)

text \<open>Everything above depends only on the part of an inode that is on the disk.\<close>

lemma disk_part_sel [simp]:
  "isize (disk_part ino) = isize ino" "direct (disk_part ino) = direct ino"
  "ind_ptr p (disk_part ino) = ind_ptr p ino" "inode_shape (disk_part ino) = inode_shape ino"
  "fType (disk_part ino) = fType ino"
  by (simp_all add: disk_part_def ind_ptr_def inode_shape_def)

lemma disk_part_idem [simp]: "disk_part (disk_part ino) = disk_part ino"
  by (simp add: disk_part_def)

lemma disk_part_disk_inode [simp]: "disk_part (disk_inode fs i) = disk_inode fs i"
  by (simp add: disk_part_def disk_inode_def decode_inode_def)

lemma blk_list_disk_part [simp]: "blk_list fs (disk_part ino) n = blk_list fs ino n"
  by (simp add: blk_list_def blk_at_def)

lemma table_list_disk_part [simp]: "table_list (disk_part ino) n = table_list ino n"
  by (simp add: table_list_def)

lemma owned_disk_part [simp]: "owned fs (disk_part ino) = owned fs ino"
  by (simp add: owned_def)

lemma inode_wf_disk_part [simp]: "inode_wf fs (disk_part ino) = inode_wf fs ino"
  by (simp add: inode_wf_def)

lemma file_bytes_disk_part [simp]: "file_bytes fs (disk_part ino) = file_bytes fs ino"
  by (simp add: file_bytes_def raw_bytes_def)

text \<open>A change of an inode that leaves its size, its blocks and its kind.\<close>

definition meta_only :: "inode \<Rightarrow> inode \<Rightarrow> bool" where
  "meta_only a b \<longleftrightarrow> isize b = isize a \<and> direct b = direct a \<and> find_blk b = find_blk a \<and> sind_blk b = sind_blk a \<and>
     tind_blk b = tind_blk a \<and> fType b = fType a \<and> num b = num a \<and> ops b = ops a"

lemma meta_only_blocks:
  assumes "meta_only a b"
  shows "ind_ptr p b = ind_ptr p a" "blk_list fs b n = blk_list fs a n" "owned fs b = owned fs a"
    "raw_bytes fs b n = raw_bytes fs a n" "file_bytes fs b = file_bytes fs a"
    "length (owner b) = 14 \<Longrightarrow> inode_shape a \<Longrightarrow> inode_wf fs b = inode_wf fs a"
    "length (owner b) = 14 \<Longrightarrow> inode_shape a \<Longrightarrow> inode_shape b"
proof -
  have m: "isize b = isize a" "direct b = direct a" using assms by (simp_all add: meta_only_def)
  have i: "ind_ptr p b = ind_ptr p a" for p using assms by (auto simp: meta_only_def ind_ptr_def)
  then show "ind_ptr p b = ind_ptr p a" .
  show l: "blk_list fs b n = blk_list fs a n" for n by (simp add: blk_list_def blk_at_def i m)
  show o: "owned fs b = owned fs a" by (simp add: owned_def table_list_def i l m)
  show r: "raw_bytes fs b n = raw_bytes fs a n" for n by (simp add: raw_bytes_def l)
  show "file_bytes fs b = file_bytes fs a" by (simp add: file_bytes_def r m)
  show "length (owner b) = 14 \<Longrightarrow> inode_shape a \<Longrightarrow> inode_wf fs b = inode_wf fs a"
    "length (owner b) = 14 \<Longrightarrow> inode_shape a \<Longrightarrow> inode_shape b"
    by (simp_all add: inode_wf_def o m inode_shape_def)
qed

lemma disk_consistent_same:
  assumes "\<And>j. rel_option (\<lambda>a b. owned fs a = owned fs b \<and> inode_wf fs a = inode_wf fs b) (files j) (files' j)"
  shows "disk_consistent fs files \<Longrightarrow> disk_consistent fs files'"
proof -
  have m: "\<exists>ino. files j = Some ino \<and> owned fs ino = owned fs ino' \<and> inode_wf fs ino = inode_wf fs ino'"
    if "files' j = Some ino'" for j ino'
    using assms[of j] that by (cases "files j") auto
  have m': "\<exists>ino'. files' j = Some ino' \<and> owned fs ino = owned fs ino'"
    if "files j = Some ino" for j ino
    using assms[of j] that by (cases "files' j") auto
  have "all_owned fs files = all_owned fs files'"
    unfolding all_owned_def ran_def using m m' by (fastforce simp: set_eq_iff)
  then show "disk_consistent fs files \<Longrightarrow> disk_consistent fs files'"
    unfolding disk_consistent_def ran_def using m by (smt (verit) mem_Collect_eq)
qed

lemma disk_consistent_cong:
  assumes "\<And>j. map_option disk_part (files j) = map_option disk_part (files' j)"
  shows "disk_consistent fs files \<Longrightarrow> disk_consistent fs files'"
proof (rule disk_consistent_same)
  fix j
  show "rel_option (\<lambda>a b. owned fs a = owned fs b \<and> inode_wf fs a = inode_wf fs b) (files j) (files' j)"
    using assms[of j] by (cases "files j"; cases "files' j") (simp_all, metis owned_disk_part inode_wf_disk_part)
qed

lemma disk_consistent_views:
  assumes "std_fs fs'" "dbitmap fs' = dbitmap fs" "\<And>b. dblk fs' b = dblk fs b"
  shows "owned fs' ino = owned fs ino" "inode_wf fs' ino = inode_wf fs ino"
    "file_bytes fs' ino = file_bytes fs ino"
    "disk_consistent fs files \<Longrightarrow> disk_consistent fs' files"
proof -
  have b: "blk_at fs' ino v = blk_at fs ino v" for ino v by (simp add: blk_at_def assms(3))
  show o: "owned fs' ino = owned fs ino" for ino by (simp add: owned_def blk_list_def b)
  show w: "inode_wf fs' ino = inode_wf fs ino" for ino by (simp add: inode_wf_def o assms(2))
  show "file_bytes fs' ino = file_bytes fs ino" by (simp add: file_bytes_def raw_bytes_def blk_list_def o_def b assms(3))
  show "disk_consistent fs files \<Longrightarrow> disk_consistent fs' files"
    using assms(1,2) by (simp add: disk_consistent_def all_owned_def o w)
qed

lemma file_bytes_same:
  assumes "owned fs' ino = owned fs ino" "\<forall>b \<in> set (owned fs ino). dblk fs' (unat b) = dblk fs (unat b)"
  shows "file_bytes fs' ino = file_bytes fs ino"
proof -
  have "blk_list fs' ino (nblocks (unat (isize ino))) = blk_list fs ino (nblocks (unat (isize ino)))"
    using assms(1) by (simp add: owned_def)
  moreover have "map (\<lambda>b. dblk fs' (unat b)) (blk_list fs ino (nblocks (unat (isize ino)))) =
      map (\<lambda>b. dblk fs (unat b)) (blk_list fs ino (nblocks (unat (isize ino))))"
    using assms(2) by (intro map_cong) (auto simp: owned_def)
  ultimately show ?thesis unfolding file_bytes_def raw_bytes_def by (simp only:)
qed

section \<open>The cached inode\<close>

lemma loaded_disk_part: "disk_part (loaded fs i) = disk_inode fs (unat i)"
  using disk_part_disk_inode[of fs "unat i"]
  by (auto simp: loaded_def with_ops_def disk_part_def)

lemma coherent_disk_part: "ino\<lparr>dirty := False\<rparr> = loaded fs i \<Longrightarrow> disk_part ino = disk_inode fs (unat i)"
proof -
  assume ino: "ino\<lparr>dirty := False\<rparr> = loaded fs i"
  have "disk_part ino = disk_part (ino\<lparr>dirty := False\<rparr>)" by (simp add: disk_part_def)
  then show ?thesis by (simp only: ino loaded_disk_part)
qed

lemma loaded_num: "num (loaded fs i) = i"
  by (simp add: loaded_def with_ops_def)

text \<open>An inode number that can be opened: in the table, used, and not stale in the cache.\<close>

definition usable :: "kernel \<Rightarrow> u32 \<Rightarrow> bool" where
  "usable k i \<longleftrightarrow> fs_inv (kfs k) \<and> live (kfs k) i \<noteq> None \<and> coherent k i"

lemma getInode_usable:
  assumes "usable k i"
  obtains ino where "getInode i k = (Ok ino, k\<lparr>inodeCache := (inodeCache k)(i \<mapsto> ino)\<rparr>)"
    "ino\<lparr>dirty := False\<rparr> = loaded (kfs k) i" "disk_part ino = disk_inode (kfs k) (unat i)"
    "inode_wf (kfs k) ino" "std_fs (kfs k)" "unat i < INODES"
    "live (kfs k) i = Some (disk_inode (kfs k) (unat i))"
proof -
  have a: "std_fs (kfs k)" "unat i < INODES" "coherent k i"
    "live (kfs k) i = Some (disk_inode (kfs k) (unat i))"
    using assms by (auto simp: usable_def fs_inv_std live_Some)
  obtain ino where g: "getInode i k = (Ok ino, k\<lparr>inodeCache := (inodeCache k)(i \<mapsto> ino)\<rparr>)"
    "ino\<lparr>dirty := False\<rparr> = loaded (kfs k) i"
    by (rule getInode_loaded[OF a(1-3)])
  note d = coherent_disk_part[OF g(2)]
  have "inode_wf (kfs k) (disk_part ino)"
    unfolding d using assms a(4) by (auto simp: usable_def intro: fs_inv_wf)
  then have wf: "inode_wf (kfs k) ino" by simp
  show ?thesis by (rule that[OF g d wf a(1,2,4)])
qed

lemma consistent_wf: "disk_consistent fs files \<Longrightarrow> files i = Some ino \<Longrightarrow> inode_wf fs ino"
  by (auto simp: disk_consistent_def intro: ranI)

section \<open>Reading\<close>

lemma slice_take: "hi \<le> n \<Longrightarrow> slice lo hi (take n xs) = slice lo hi xs"
  by (simp add: slice_def drop_take min_def)

lemma FileFD_Read_content:
  assumes u: "usable k (inodeNum f)" and off: "unat (offset f) < length (content (kfs k) (inodeNum f))"
    and len: "length b < 2 ^ 63"
    and n: "n = min (length b) (length (content (kfs k) (inodeNum f)) - unat (offset f))"
  shows "\<exists>ino. FileFD_Read f b k =
    (Ok (of_nat n, None), (f\<lparr>offset := offset f + of_nat n\<rparr>,
      put_at 0 (slice (unat (offset f)) (unat (offset f) + n) (content (kfs k) (inodeNum f))) b,
      k\<lparr>inodeCache := (inodeCache k)(inodeNum f \<mapsto> ino)\<rparr>))"
proof -
  let ?i = "inodeNum f" and ?fs = "kfs k"
  obtain ino where g: "getInode ?i k = (Ok ino, k\<lparr>inodeCache := (inodeCache k)(?i \<mapsto> ino)\<rparr>)"
    "disk_part ino = disk_inode ?fs (unat ?i)" "inode_wf ?fs ino" "std_fs ?fs"
    by (rule getInode_usable[OF u])
  let ?nb = "nblocks (unat (isize ino))"
  have c: "content ?fs ?i = file_bytes ?fs ino"
    using file_bytes_disk_part[of ?fs ino] g(2) by (simp add: content_def)
  have sz: "length (content ?fs ?i) = unat (isize ino)"
    unfolding c by (rule length_file_bytes[OF g(4,3)])
  have small: "unat (isize ino) < 2 ^ 32" using unsigned_less[of "isize ino"] by simp
  have lt: "offset f < ucast (isize ino)" using off sz by (simp add: word_less_nat_alt)
  let ?tr = "min (of_nat (length b)) (ucast (isize ino) - offset f) :: u64"
  have ub: "unat (of_nat (length b) :: u64) = length b" using len by (simp add: unat_of_nat take_bit_nat_eq_self)
  have ud: "unat (ucast (isize ino) - offset f) = unat (isize ino) - unat (offset f)"
    using lt by (simp add: unat_sub)
  have tr: "unat ?tr = n" using ub ud n sz by (auto simp: min_def word_le_nat_alt)
  have nle: "n \<le> length b" "unat (offset f) + n \<le> unat (isize ino)" using n sz off by auto
  have cap: "unat (isize ino) \<le> ?nb * BLOCKSIZE" by (rule raw_wf[OF g(4,3) refl])
  have trw: "?tr = of_nat n" unfolding tr[symmetric] by simp
  obtain off' where r: "read_loop ?fs ino ?tr 0 (offset f) b = (Ok (), (?tr, off',
      put_at 0 (slice (unat (offset f)) (unat (offset f) + n) (raw_bytes ?fs ino ?nb)) b))"
    "unat off' = unat (offset f) + n"
    using read_loop_Ok[OF g(4,3) refl, of 0 ?tr b "offset f"] tr nle cap small by auto
  have "off' = offset f + of_nat n" by (rule word_unat_eq_iff [THEN iffD2])
      (use r(2) nle small in \<open>simp add: unat_word_ariths unat_of_nat take_bit_nat_eq_self\<close>)
  moreover have "slice (unat (offset f)) (unat (offset f) + n) (content ?fs ?i) =
      slice (unat (offset f)) (unat (offset f) + n) (raw_bytes ?fs ino ?nb)"
    unfolding c file_bytes_def by (rule slice_take[OF nle(2)])
  ultimately show ?thesis
    using r(1) lt g(1) trw by (auto simp: FileFD_Read_def Let_def not_le[symmetric])
qed

lemma FileFD_Read_EOF:
  assumes u: "usable k (inodeNum f)" and off: "length (content (kfs k) (inodeNum f)) \<le> unat (offset f)"
  shows "\<exists>ino. FileFD_Read f b k =
    (Ok (0, Some ErrEOF), (f, b, k\<lparr>inodeCache := (inodeCache k)(inodeNum f \<mapsto> ino)\<rparr>))"
proof -
  let ?i = "inodeNum f" and ?fs = "kfs k"
  obtain ino where g: "getInode ?i k = (Ok ino, k\<lparr>inodeCache := (inodeCache k)(?i \<mapsto> ino)\<rparr>)"
    "disk_part ino = disk_inode ?fs (unat ?i)" "inode_wf ?fs ino" "std_fs ?fs"
    by (rule getInode_usable[OF u])
  have "length (content ?fs ?i) = unat (isize ino)"
    using file_bytes_disk_part[of ?fs ino] g(2) length_file_bytes[OF g(4,3)] by (simp add: content_def)
  then have "ucast (isize ino) \<le> offset f" using off by (simp add: word_le_nat_alt)
  then show ?thesis using g(1) by (auto simp: FileFD_Read_def)
qed

section \<open>Resizing keeps the bytes up to the smaller of the two sizes\<close>

lemma raw_take:
  assumes "std_fs fs" "\<forall>v < nb. unat (blk_at fs ino v) < BLOCKS" "n \<le> nb"
  shows "take (n * BLOCKSIZE) (raw_bytes fs ino nb) = raw_bytes fs ino n"
proof -
  have "raw_bytes fs ino nb = raw_bytes fs ino n @ concat (map (\<lambda>b. dblk fs (unat b)) (map (blk_at fs ino) [n..<nb]))"
  proof -
    have "[0..<nb] = [0..<n] @ [n..<nb]" using assms(3) upt_add_eq_append[of 0 n "nb - n"] by simp
    then show ?thesis by (simp add: raw_bytes_def blk_list_def)
  qed
  then show ?thesis using length_raw_bytes[OF assms(1), of n ino] assms(2,3) by simp
qed

lemma nblocks_mono: "a \<le> b \<Longrightarrow> nblocks a \<le> nblocks b"
  by (simp add: nblocks_def div_le_mono)

lemma file_bytes_take:
  assumes "std_fs fs" "inode_wf fs ino" "m \<le> unat (isize ino)"
  shows "take m (file_bytes fs ino) = take m (raw_bytes fs ino (nblocks m))"
proof -
  have le: "nblocks m \<le> nblocks (unat (isize ino))" by (rule nblocks_mono[OF assms(3)])
  have "m \<le> nblocks m * BLOCKSIZE" using nblocks_bound[of m "nblocks m"] by simp
  then have "take m (raw_bytes fs ino (nblocks (unat (isize ino)))) =
      take m (take (nblocks m * BLOCKSIZE) (raw_bytes fs ino (nblocks (unat (isize ino)))))"
    by (simp add: min_def)
  also have "\<dots> = take m (raw_bytes fs ino (nblocks m))"
    using inode_wf_block[OF assms(2)] by (subst raw_take[OF assms(1) _ le]) auto
  finally show ?thesis using assms(3) by (simp add: file_bytes_def min_def)
qed

lemma Falloc_content:
  assumes con: "disk_consistent fs files" and i: "files i = Some ino"
    and sz: "unat sz \<le> 2 ^ 32 - BLOCKSIZE" and run: "Falloc ino sz fs = (Ok (), (ino', fs'))"
    and m: "m \<le> unat (isize ino)" "m \<le> unat sz"
  shows "take m (file_bytes fs' ino') = take m (file_bytes fs ino)"
proof -
  note f = Falloc_consistent[OF con i sz run]
  have std: "std_fs fs" "std_fs fs'" using con f(1) by (auto simp: disk_consistent_def)
  have wf: "inode_wf fs ino" "inode_wf fs' ino'"
    using consistent_wf[OF con i] consistent_wf[OF f(1), of i] by simp_all
  have "map (\<lambda>b. dblk fs' (unat b)) (blk_list fs' ino' (nblocks m)) =
      map (\<lambda>b. dblk fs (unat b)) (blk_list fs ino (nblocks m))"
  proof (rule nth_equalityI)
    fix v assume "v < length (map (\<lambda>b. dblk fs' (unat b)) (blk_list fs' ino' (nblocks m)))"
    then have v: "v < nblocks m" by simp
    have lt: "v < nblocks (unat (isize ino))" "v < nblocks (unat sz)"
      using v nblocks_mono m by (meson less_le_trans)+
    have "blk_at fs' ino' v \<notin> set (table_list ino' (nblocks (unat sz)))"
      using owned_disjoint(1)[OF wf(2) refl, of v] lt(2) f(2) by simp
    then have "unat (blk_at fs' ino' v) \<notin> unat ` set (table_list ino' (nblocks (unat sz)))"
      by (auto simp flip: word_unat_eq_iff)
    then have "dblk fs' (unat (blk_at fs' ino' v)) = dblk fs (unat (blk_at fs' ino' v))"
      using f(5) by (simp add: blocks_frame_def)
    then show "map (\<lambda>b. dblk fs' (unat b)) (blk_list fs' ino' (nblocks m)) ! v =
        map (\<lambda>b. dblk fs (unat b)) (blk_list fs ino (nblocks m)) ! v"
      using v f(4)[OF lt] by simp
  qed simp
  then have "raw_bytes fs' ino' (nblocks m) = raw_bytes fs ino (nblocks m)"
    by (simp only: raw_bytes_def)
  then show ?thesis
    using file_bytes_take[OF std(1) wf(1) m(1)] file_bytes_take[OF std(2) wf(2)] m(2) f(2) by simp
qed

section \<open>Writing inside the blocks of a file\<close>

text \<open>Changing the data blocks of one file, and nothing else, keeps the disk consistent.\<close>

lemma data_edit:
  assumes con: "disk_consistent fs files" and i: "files i = Some ino" and nb: "nb = nblocks (unat (isize ino))"
    and frame: "blocks_frame (unat ` set (blk_list fs ino nb)) fs fs'" and bm: "dbitmap fs' = dbitmap fs"
    and bl: "blk_list fs' ino nb = blk_list fs ino nb" and wf: "inode_wf fs' ino"
  shows "disk_consistent fs' files" "ibitmap fs' = ibitmap fs" "\<forall>j < INODES. inode_bytes fs' j = inode_bytes fs j"
    "\<And>j ino2. j \<noteq> i \<Longrightarrow> files j = Some ino2 \<Longrightarrow> file_bytes fs' ino2 = file_bytes fs ino2"
    "free_kept fs fs'"
proof -
  have std: "std_fs fs" and wf0: "inode_wf fs ino" and db: "data_bm (dbitmap fs)"
    using con i by (auto simp: disk_consistent_def intro: ranI)
  have own: "owned fs' ino = owned fs ino" using bl by (simp add: owned_def nb)
  have S: "unat ` set (blk_list fs ino nb) \<subseteq> unat ` set (owned fs' ino) \<union> unat ` set (owned fs ino)"
    by (auto simp: owned_def nb)
  have free: "free_bits (dbitmap fs') = (free_bits (dbitmap fs) \<union> unat ` set (owned fs ino)) - unat ` set (owned fs' ino)"
    using owned_used(2)[OF wf0 std] by (auto simp: own bm)
  note u = consistent_update[OF con i frame wf _ S _ free, unfolded bm own, OF db]
  have same: "files(i \<mapsto> ino) = files" using i by (simp add: fun_upd_idem)
  show "disk_consistent fs' files" using u(1) same by simp
  show "ibitmap fs' = ibitmap fs" "\<forall>j < INODES. inode_bytes fs' j = inode_bytes fs j"
    using frame by (simp_all add: blocks_frame_def)
  show "file_bytes fs' ino2 = file_bytes fs ino2" if "j \<noteq> i" "files j = Some ino2" for j ino2
    using u(2)[OF _ that] by (intro file_bytes_same) auto
  show "free_kept fs fs'"
    unfolding free_kept_def bm
  proof (intro conjI ballI)
    fix b assume "b \<in> free_bits (dbitmap fs)"
    then have "b \<notin> unat ` set (blk_list fs ino nb)" using owned_used(2)[OF wf0 std] by (auto simp: owned_def nb)
    then show "dblk fs' b = dblk fs b" using frame by (simp add: blocks_frame_def)
  qed simp
qed

lemma write_loop_content:
  assumes con: "disk_consistent fs files" and i: "files i = Some ino"
    and len: "unat off + length dat \<le> unat (isize ino)"
  obtains fs' where "write_loop ino dat 0 off fs = (Ok (), (length dat, off + of_nat (length dat), fs'))"
    "disk_consistent fs' files" "ibitmap fs' = ibitmap fs" "\<forall>j < INODES. inode_bytes fs' j = inode_bytes fs j"
    "file_bytes fs' ino = splice (unat off) dat (file_bytes fs ino)"
    "\<And>j ino2. j \<noteq> i \<Longrightarrow> files j = Some ino2 \<Longrightarrow> file_bytes fs' ino2 = file_bytes fs ino2"
    "free_kept fs fs'"
proof -
  let ?nb = "nblocks (unat (isize ino))"
  have std: "std_fs fs" and wf: "inode_wf fs ino" and bm: "data_bm (dbitmap fs)"
    using con i by (auto simp: disk_consistent_def intro: ranI)
  note raw = raw_wf[OF std wf refl]
  have cap: "unat (isize ino) < 2 ^ 32" using unsigned_less[of "isize ino"] by simp
  obtain off' fs' where w: "write_loop ino dat 0 off fs = (Ok (), (length dat, off', fs'))"
    "unat off' = unat off + length dat" "raw_bytes fs' ino ?nb = put_at (unat off) dat (raw_bytes fs ino ?nb)"
    "blocks_frame (unat ` set (blk_list fs ino ?nb)) fs fs'" "dbitmap fs' = dbitmap fs"
    "blk_list fs' ino ?nb = blk_list fs ino ?nb" "inode_wf fs' ino"
    using write_loop_Ok[OF std wf refl, of 0 dat off] len raw(2) by auto
  have off: "off' = off + of_nat (length dat)"
    by (rule word_unat_eq_iff [THEN iffD2])
      (use w(2) len cap in \<open>simp add: unat_word_ariths unat_of_nat take_bit_nat_eq_self\<close>)
  note e = data_edit[OF con i refl w(4-7)]
  show ?thesis
  proof (rule that[of fs'])
    show "write_loop ino dat 0 off fs = (Ok (), (length dat, off + of_nat (length dat), fs'))"
      using w(1) off by simp
    show "file_bytes fs' ino = splice (unat off) dat (file_bytes fs ino)"
      using len raw take_put_at[of "unat off" dat "unat (isize ino)"]
      by (simp add: file_bytes_def w(3)) (simp add: splice_def put_at_def)
  qed (rule e; assumption)+
qed

section \<open>Writing\<close>

lemma blocks_only_disk_part:
  assumes "blocks_only ino ino'" "ino\<lparr>dirty := False\<rparr> = loaded fs i"
    and "disk_inode fs' (unat i) = disk_part ino'"
  shows "ino'\<lparr>dirty := False\<rparr> = loaded fs' i"
proof -
  have n: "num ino' = i"
    using assms(1) arg_cong[OF assms(2), of num] by (simp add: blocks_only_def loaded_num)
  have o: "ops ino' = ops (loaded fs i)"
    using assms(1) arg_cong[OF assms(2), of ops] by (simp add: blocks_only_def)
  have t: "fType ino' = fType (disk_inode fs (unat i))"
    using assms(1) coherent_disk_part[OF assms(2)] by (metis blocks_only_def disk_part_sel(5))
  have "ops (loaded fs i) = ops (loaded fs' i)"
    using t assms(3) by (simp add: loaded_def with_ops_def disk_part_def disk_inode_def decode_inode_def)
  then show ?thesis
    using n o t assms(3)
    by (intro inode.equality) (simp_all add: loaded_def with_ops_def disk_part_def)
qed

lemma grow_for_write:
  assumes con: "disk_consistent fs files" and i: "files i = Some ino"
    and len: "unat newEnd \<le> max_blocks * BLOCKSIZE"
    and space: "needed_blocks (nblocks (unat (isize ino))) (nblocks (max (unat (isize ino)) (unat newEnd))) \<le>
      card (free_bits (dbitmap fs))"
  obtains ino' fs' where "extend_to newEnd ino fs = (Ok (), (ino', fs'))"
    "disk_consistent fs' (files(i \<mapsto> ino'))" "unat (isize ino') = max (unat (isize ino)) (unat (newEnd :: u64))"
    "blocks_only ino ino'" "ibitmap fs' = ibitmap fs" "\<forall>j < INODES. inode_bytes fs' j = inode_bytes fs j"
    "take (unat (isize ino)) (file_bytes fs' ino') = file_bytes fs ino"
    "\<And>j ino2. j \<noteq> i \<Longrightarrow> files j = Some ino2 \<Longrightarrow> file_bytes fs' ino2 = file_bytes fs ino2"
    "free_kept fs fs'"
proof -
  have std: "std_fs fs" and bm: "data_bm (dbitmap fs)" using con by (simp_all add: disk_consistent_def)
  have wf: "inode_wf fs ino" by (rule consistent_wf[OF con i])
  show ?thesis
  proof (cases "ucast (isize ino) < newEnd")
    case False
    then have "unat newEnd \<le> unat (isize ino)" by (simp add: not_less word_le_nat_alt)
    then show ?thesis
      using False that[of ino fs] con i length_file_bytes[OF std wf]
      by (simp add: extend_to_def fun_upd_idem blocks_only_def)
  next
    case True
    let ?sz = "ucast newEnd :: u32"
    have lt: "unat (isize ino) < unat newEnd" using True by (simp add: word_less_nat_alt)
    have sz: "unat ?sz = unat newEnd"
      using len by (simp add: unsigned_ucast_eq take_bit_nat_eq_self layout)
    have small: "unat ?sz \<le> 2 ^ 32 - BLOCKSIZE" using len sz by (simp add: layout)
    have nb: "nblocks (unat ?sz) \<le> max_blocks" using len sz by (simp add: nblocks_bound)
    obtain ino' fs' where f: "Falloc ino ?sz fs = (Ok (), (ino', fs'))"
    proof (cases "nblocks (unat (isize ino)) = nblocks (unat ?sz)")
      case True
      then show ?thesis using Falloc_same[OF wf, of ?sz] that by simp
    next
      case False
      then have gt: "nblocks (unat (isize ino)) < nblocks (unat ?sz)"
        using nblocks_mono[of "unat (isize ino)" "unat newEnd"] lt sz by simp
      have sp: "needed_blocks (nblocks (unat (isize ino))) (nblocks (unat ?sz)) \<le> card (free_bits (dbitmap fs))"
        using space lt sz by (simp add: max_def)
      show ?thesis by (rule Falloc_grow[OF std wf bm refl refl gt nb sp], rule that)
    qed
    note c = Falloc_consistent[OF con i small f]
    show ?thesis
    proof (rule that[of ino' fs'])
      show "extend_to newEnd ino fs = (Ok (), (ino', fs'))"
        using True f by (simp add: extend_to_def)
      show "unat (isize ino') = max (unat (isize ino)) (unat newEnd)" using c(2) sz lt by simp
      show "ibitmap fs' = ibitmap fs" "\<forall>j < INODES. inode_bytes fs' j = inode_bytes fs j"
        using c(5) by (simp_all add: blocks_frame_def)
      show "take (unat (isize ino)) (file_bytes fs' ino') = file_bytes fs ino"
        using Falloc_content[OF con i small f, of "unat (isize ino)"] lt sz length_file_bytes[OF std wf] by simp
      show "file_bytes fs' ino2 = file_bytes fs ino2" if "j \<noteq> i" "files j = Some ino2" for j ino2
        using c(6)[OF that] by (intro file_bytes_same) auto
      show "free_kept fs fs'" using c(8) nblocks_mono[of "unat (isize ino)" "unat ?sz"] lt sz by simp
    qed (rule c)+
  qed
qed

text \<open>Storing the inode record of a file whose blocks have changed.\<close>

lemma writeInode_live:
  assumes con: "disk_consistent fs (files(i \<mapsto> ino))" and i: "unat i < INODES" and shape: "inode_shape ino"
    and files: "\<And>j. j \<noteq> i \<Longrightarrow> files j = live fs j" and used: "live fs i \<noteq> None"
  defines "fs' \<equiv> set_inode_bytes (unat i) (encode_inode ino) fs"
  shows "writeInode fs ino i = (fs', None)" "fs_inv fs'" "disk_inode fs' (unat i) = disk_part ino"
    "\<And>ino2. file_bytes fs' ino2 = file_bytes fs ino2" "ibitmap fs' = ibitmap fs"
    "\<And>j. j \<noteq> unat i \<Longrightarrow> j < INODES \<Longrightarrow> disk_inode fs' j = disk_inode fs j" "free_kept fs fs'"
proof -
  have std: "std_fs fs" using con by (simp add: disk_consistent_def)
  have len: "length (encode_inode ino) = INODESIZE" using shape by simp
  show "writeInode fs ino i = (fs', None)" unfolding fs'_def by (rule writeInode_std[OF std i shape])
  have v: "std_fs fs'" "dbitmap fs' = dbitmap fs" "\<And>b. dblk fs' b = dblk fs b" "ibitmap fs' = ibitmap fs"
    using std len i by (simp_all add: fs'_def view)
  show "ibitmap fs' = ibitmap fs" by (rule v)
  show d: "disk_inode fs' (unat i) = disk_part ino" "\<And>j. j \<noteq> unat i \<Longrightarrow> j < INODES \<Longrightarrow> disk_inode fs' j = disk_inode fs j"
    using disk_inode_set[OF std i shape] by (simp_all add: fs'_def)
  note dv = disk_consistent_views[OF v(1-3)]
  show "file_bytes fs' ino2 = file_bytes fs ino2" for ino2 by (rule dv)
  show "free_kept fs fs'" using v(2,3) by (simp add: free_kept_def)
  have "live fs' = (live fs)(i \<mapsto> disk_part ino)"
    using used d v(4) by (auto simp: live_def fun_eq_iff word_unat_eq_iff)
  then have "map_option disk_part ((files(i \<mapsto> ino)) j) = map_option disk_part (live fs' j)" for j
    using files[of j] by simp
  then show "fs_inv fs'"
    unfolding fs_inv_def using dv(4)[OF con] by (rule disk_consistent_cong)
qed

lemma loaded_cong: "disk_inode fs' (unat i) = disk_inode fs (unat i) \<Longrightarrow> loaded fs' i = loaded fs i"
  by (simp add: loaded_def)

text \<open>What a write to one file keeps of every other file.\<close>

definition fs_kept :: "u32 \<Rightarrow> filesystem \<Rightarrow> filesystem \<Rightarrow> bool" where
  "fs_kept i fs fs' \<longleftrightarrow> free_kept fs fs' \<and> ibitmap fs' = ibitmap fs \<and>
     (\<forall>j. j \<noteq> i \<longrightarrow> unat j < INODES \<longrightarrow> disk_inode fs' (unat j) = disk_inode fs (unat j)) \<and>
     (\<forall>j. j \<noteq> i \<longrightarrow> live fs j \<noteq> None \<longrightarrow> content fs' j = content fs j)"

lemma fs_kept_live: "fs_kept i fs fs' \<Longrightarrow> j \<noteq> i \<Longrightarrow> live fs' j = live fs j"
  by (auto simp: fs_kept_def live_def)

lemma fs_kept_trans: "fs_kept i a b \<Longrightarrow> fs_kept i b c \<Longrightarrow> fs_kept i a c"
  using fs_kept_live[of i a b] by (auto simp: fs_kept_def intro: free_kept_trans)

definition others_kept :: "u32 \<Rightarrow> kernel \<Rightarrow> kernel \<Rightarrow> bool" where
  "others_kept i k k' \<longleftrightarrow> fs_kept i (kfs k) (kfs k') \<and> (\<forall>j. j \<noteq> i \<longrightarrow> inodeCache k' j = inodeCache k j)"

definition same_meta :: "inode \<Rightarrow> inode \<Rightarrow> bool" where
  "same_meta a b \<longleftrightarrow> fType a = fType b \<and> refs a = refs b \<and> owner a = owner b \<and> setuid a = setuid b \<and>
     ownerMode a = ownerMode b \<and> otherMode a = otherMode b"

text \<open>The disk after the file grew and took the data: the content is the splice, and the other files are as they were.\<close>

lemma splice_extended:
  "length bs = max n (off + length dat) \<Longrightarrow> off \<le> n \<Longrightarrow> splice off dat bs = splice off dat (take n bs)"
  unfolding splice_def by (auto simp: min_def max_def drop_take)

lemma extend_and_write:
  assumes con: "disk_consistent fs files" and i: "files i = Some ino" and off: "unat off \<le> unat (isize ino)"
    and len: "unat off + length dat \<le> max_blocks * BLOCKSIZE"
    and space: "needed_blocks (nblocks (unat (isize ino)))
        (nblocks (max (unat (isize ino)) (unat off + length dat))) \<le> card (free_bits (dbitmap fs))"
  obtains ino1 fs1 fs2 where "extend_to (off + of_nat (length dat)) ino fs = (Ok (), (ino1, fs1))"
    "write_loop ino1 dat 0 off fs1 = (Ok (), (length dat, off + of_nat (length dat), fs2))"
    "disk_consistent fs2 (files(i \<mapsto> ino1))" "blocks_only ino ino1" "ibitmap fs2 = ibitmap fs"
    "\<forall>j < INODES. inode_bytes fs2 j = inode_bytes fs j" "file_bytes fs2 ino1 = splice (unat off) dat (file_bytes fs ino)"
    "free_kept fs fs2" "\<forall>j ino2. j \<noteq> i \<longrightarrow> files j = Some ino2 \<longrightarrow> file_bytes fs2 ino2 = file_bytes fs ino2"
proof -
  let ?ne = "off + of_nat (length dat)"
  have ne: "unat ?ne = unat off + length dat"
    using len by (simp add: unat_word_ariths unat_of_nat take_bit_nat_eq_self layout)
  have len': "unat ?ne \<le> max_blocks * BLOCKSIZE" using len ne by simp
  have sp: "needed_blocks (nblocks (unat (isize ino))) (nblocks (max (unat (isize ino)) (unat ?ne))) \<le> card (free_bits (dbitmap fs))"
    using space unfolding ne .
  obtain ino1 fs1 where a: "extend_to ?ne ino fs = (Ok (), (ino1, fs1))"
    "disk_consistent fs1 (files(i \<mapsto> ino1))" "unat (isize ino1) = max (unat (isize ino)) (unat ?ne)"
    "blocks_only ino ino1" "ibitmap fs1 = ibitmap fs" "\<forall>j < INODES. inode_bytes fs1 j = inode_bytes fs j"
    "take (unat (isize ino)) (file_bytes fs1 ino1) = file_bytes fs ino" "free_kept fs fs1"
    and a2: "\<And>j ino2. j \<noteq> i \<Longrightarrow> files j = Some ino2 \<Longrightarrow> file_bytes fs1 ino2 = file_bytes fs ino2"
    by (rule grow_for_write[OF con i len' sp]) (rule that; assumption)
  have i1: "(files(i \<mapsto> ino1)) i = Some ino1" by simp
  have l1: "unat off + length dat \<le> unat (isize ino1)" using a(3) ne by simp
  obtain fs2 where w: "write_loop ino1 dat 0 off fs1 = (Ok (), (length dat, ?ne, fs2))"
    "disk_consistent fs2 (files(i \<mapsto> ino1))" "ibitmap fs2 = ibitmap fs1" "\<forall>j < INODES. inode_bytes fs2 j = inode_bytes fs1 j"
    "file_bytes fs2 ino1 = splice (unat off) dat (file_bytes fs1 ino1)" "free_kept fs1 fs2"
    and w2: "\<And>j ino2. j \<noteq> i \<Longrightarrow> (files(i \<mapsto> ino1)) j = Some ino2 \<Longrightarrow> file_bytes fs2 ino2 = file_bytes fs1 ino2"
    by (rule write_loop_content[OF a(2) i1 l1]) (rule that; assumption)
  have lf: "length (file_bytes fs1 ino1) = max (unat (isize ino)) (unat off + length dat)"
    using length_file_bytes[of fs1 ino1] consistent_wf[OF a(2), of i] a(2,3) by (simp add: disk_consistent_def ne)
  note w(5)[unfolded splice_extended[OF lf off] a(7)]
  then show ?thesis
    by (intro that[OF a(1) w(1,2) a(4)]) (use w(3,4) a(5,6) free_kept_trans[OF a(8) w(6)] a2 w2 in simp_all)
qed

lemma FileFD_Write_cached:
  assumes c: "inodeCache k (inodeNum f) = Some ino" and l: "live (kfs k) (inodeNum f) \<noteq> None"
    and con: "disk_consistent (kfs k) ((live (kfs k))(inodeNum f \<mapsto> ino))"
    and blk: "blocks_only ino0 ino" "ino0\<lparr>dirty := False\<rparr> = loaded (kfs k) (inodeNum f)"
    and off: "unat (offset f) \<le> unat (isize ino)"
    and len: "unat (offset f) + length dat \<le> max_blocks * BLOCKSIZE"
    and space: "needed_blocks (nblocks (unat (isize ino)))
        (nblocks (max (unat (isize ino)) (unat (offset f) + length dat))) \<le> card (free_bits (dbitmap (kfs k)))"
  obtains k' where "FileFD_Write f dat k =
      (Ok (length dat, None), (f\<lparr>offset := offset f + of_nat (length dat)\<rparr>, k'))"
    "usable k' (inodeNum f)"
    "content (kfs k') (inodeNum f) = splice (unat (offset f)) dat (file_bytes (kfs k) ino)"
    "same_meta (disk_inode (kfs k') (unat (inodeNum f))) (disk_inode (kfs k) (unat (inodeNum f)))"
    "others_kept (inodeNum f) k k'" "k' = k\<lparr>kfs := kfs k', inodeCache := inodeCache k'\<rparr>"
proof -
  let ?i = "inodeNum f" and ?fs = "kfs k"
  have g: "getInode ?i k = (Ok ino, k)" using c by (simp add: getInode_def)
  have i: "unat ?i < INODES" "live ?fs ?i = Some (disk_inode ?fs (unat ?i))"
    using l by (auto simp: live_def split: if_splits)
  let ?files = "(live ?fs)(?i \<mapsto> ino)"
  have fi: "?files ?i = Some ino" by simp
  obtain ino1 fs1 fs2 where a: "extend_to (offset f + of_nat (length dat)) ino ?fs = (Ok (), (ino1, fs1))"
    "write_loop ino1 dat 0 (offset f) fs1 = (Ok (), (length dat, offset f + of_nat (length dat), fs2))"
    "disk_consistent fs2 (?files(?i \<mapsto> ino1))" "blocks_only ino ino1" "ibitmap fs2 = ibitmap ?fs"
    "\<forall>j < INODES. inode_bytes fs2 j = inode_bytes ?fs j" "file_bytes fs2 ino1 = splice (unat (offset f)) dat (file_bytes ?fs ino)"
    "free_kept ?fs fs2" "\<forall>j ino2. j \<noteq> ?i \<longrightarrow> ?files j = Some ino2 \<longrightarrow> file_bytes fs2 ino2 = file_bytes ?fs ino2"
    by (rule extend_and_write[OF con fi off len space])
  let ?fs3 = "set_inode_bytes (unat ?i) (encode_inode ino1) fs2"
  have shape: "inode_shape ino1" using consistent_wf[OF a(3), of ?i] by (simp add: inode_wf_def)
  have live2: "live fs2 = live ?fs"
    using a(5,6) by (auto simp: live_def disk_inode_def)
  have used2: "live fs2 ?i \<noteq> None" using i(2) live2 by simp
  have oth2: "\<And>j. j \<noteq> ?i \<Longrightarrow> (live ?fs) j = live fs2 j" by (simp add: live2)
  note s = writeInode_live[OF a(3)[unfolded fun_upd_upd] i(1) shape oth2 used2]
  let ?k' = "k\<lparr>kfs := ?fs3, inodeCache := (inodeCache k)(?i \<mapsto> ino1)\<rparr>"
  have bo: "blocks_only ino0 ino1" using blk(1) a(4) by (simp add: blocks_only_def)
  have coh: "ino1\<lparr>dirty := False\<rparr> = loaded ?fs3 ?i" by (rule blocks_only_disk_part[OF bo blk(2) s(3)])
  have cont: "content ?fs3 ?i = splice (unat (offset f)) dat (file_bytes ?fs ino)" using s(3,4) a(7) by (simp add: content_def)
  have dj: "disk_inode ?fs3 (unat j) = disk_inode ?fs (unat j)" if "j \<noteq> ?i" "unat j < INODES" for j
    using s(6)[of "unat j"] that a(6) by (simp add: disk_inode_def word_unat_eq_iff)
  show ?thesis
  proof (rule that[of ?k'])
    show "FileFD_Write f dat k = (Ok (length dat, None), (f\<lparr>offset := offset f + of_nat (length dat)\<rparr>, ?k'))"
      using c by (simp add: FileFD_Write_def Let_def g a(1,2) s(1) fun_upd_idem)
    show "usable ?k' ?i"
      using s(2,5) a(5) i(2) coh by (auto simp: usable_def coherent_def live_Some)
    show "content (kfs ?k') ?i = splice (unat (offset f)) dat (file_bytes ?fs ino)" using cont by simp
    show "same_meta (disk_inode (kfs ?k') (unat ?i)) (disk_inode ?fs (unat ?i))"
      using s(3) bo coherent_disk_part[OF blk(2), symmetric] by (simp add: same_meta_def blocks_only_def disk_part_def)
    show "others_kept ?i k ?k'"
      unfolding others_kept_def fs_kept_def
    proof (intro conjI allI impI)
      fix j assume j: "j \<noteq> ?i" "live ?fs j \<noteq> None"
      then have f: "?files j = Some (disk_inode ?fs (unat j))" "unat j < INODES" by (auto simp: live_def split: if_splits)
      show "content (kfs ?k') j = content ?fs j"
        using dj[OF j(1) f(2)] s(4) a(9) f(1) j(1)
        by (simp add: content_def)
    next
      show "free_kept (kfs k) (kfs ?k')"
        using free_kept_trans[OF a(8) s(7)] by simp
    qed (use dj s(5) a(5) in simp_all)
  qed simp
qed

lemma FileFD_Write_content:
  assumes u: "usable k (inodeNum f)"
    and off: "unat (offset f) \<le> length (content (kfs k) (inodeNum f))"
    and len: "unat (offset f) + length dat \<le> max_blocks * BLOCKSIZE"
    and space: "needed_blocks (nblocks (length (content (kfs k) (inodeNum f))))
        (nblocks (max (length (content (kfs k) (inodeNum f))) (unat (offset f) + length dat))) \<le>
      card (free_bits (dbitmap (kfs k)))"
  obtains k' where "FileFD_Write f dat k =
      (Ok (length dat, None), (f\<lparr>offset := offset f + of_nat (length dat)\<rparr>, k'))"
    "usable k' (inodeNum f)"
    "content (kfs k') (inodeNum f) = splice (unat (offset f)) dat (content (kfs k) (inodeNum f))"
    "same_meta (disk_inode (kfs k') (unat (inodeNum f))) (disk_inode (kfs k) (unat (inodeNum f)))"
    "others_kept (inodeNum f) k k'"
proof -
  let ?i = "inodeNum f" and ?fs = "kfs k"
  obtain ino where g: "getInode ?i k = (Ok ino, k\<lparr>inodeCache := (inodeCache k)(?i \<mapsto> ino)\<rparr>)"
    "ino\<lparr>dirty := False\<rparr> = loaded ?fs ?i" "disk_part ino = disk_inode ?fs (unat ?i)" "inode_wf ?fs ino"
    "std_fs ?fs" "unat ?i < INODES" "live ?fs ?i = Some (disk_inode ?fs (unat ?i))"
    by (rule getInode_usable[OF u])
  let ?k = "k\<lparr>inodeCache := (inodeCache k)(?i \<mapsto> ino)\<rparr>"
  have con: "disk_consistent (kfs ?k) ((live (kfs ?k))(?i \<mapsto> ino))"
    using u disk_consistent_cong[of "live ?fs" "(live ?fs)(?i \<mapsto> ino)" ?fs] g(3,7)
    by (auto simp: usable_def fs_inv_def)
  have c: "content ?fs ?i = file_bytes ?fs ino"
    using file_bytes_disk_part[of ?fs ino] g(3) by (simp add: content_def)
  have sz: "length (content ?fs ?i) = unat (isize ino)"
    unfolding c by (rule length_file_bytes[OF g(5,4)])
  have "blocks_only ino ino" by (simp add: blocks_only_def)
  then obtain k' where w: "FileFD_Write f dat ?k =
      (Ok (length dat, None), (f\<lparr>offset := offset f + of_nat (length dat)\<rparr>, k'))"
    "usable k' ?i" "content (kfs k') ?i = splice (unat (offset f)) dat (file_bytes (kfs ?k) ino)"
    "same_meta (disk_inode (kfs k') (unat ?i)) (disk_inode (kfs ?k) (unat ?i))" "others_kept ?i ?k k'"
    using FileFD_Write_cached[of ?k f ino ino dat] g(2,7) con off len space unfolding sz by auto
  have "FileFD_Write f dat k = FileFD_Write f dat ?k"
    using g(1) by (simp add: FileFD_Write_def) (simp add: getInode_def)
  with w c show ?thesis by (intro that[of k']) (auto simp: others_kept_def)
qed

section \<open>Byte stores\<close>

text \<open>
  What a client of the loops relies on, for accesses inside the file: a read returns a slice of the
  bytes, and a write replaces one. The laws fix the behaviour of any sequence of accesses.
\<close>

locale byte_store =
  fixes bytes :: "'s \<Rightarrow> u8 list"
    and rd :: "'s \<Rightarrow> nat \<Rightarrow> nat \<Rightarrow> u8 list"
    and wr :: "'s \<Rightarrow> nat \<Rightarrow> u8 list \<Rightarrow> 's"
    and inv :: "'s \<Rightarrow> bool"
  assumes rd_slice: "inv s \<Longrightarrow> off + n \<le> length (bytes s) \<Longrightarrow> rd s off n = slice off (off + n) (bytes s)"
    and wr_splice: "inv s \<Longrightarrow> off + length dat \<le> length (bytes s) \<Longrightarrow>
      bytes (wr s off dat) = put_at off dat (bytes s)"
    and wr_inv: "inv s \<Longrightarrow> off + length dat \<le> length (bytes s) \<Longrightarrow> inv (wr s off dat)"
begin

lemma wr_length:
  "inv s \<Longrightarrow> off + length dat \<le> length (bytes s) \<Longrightarrow> length (bytes (wr s off dat)) = length (bytes s)"
  by (simp add: wr_splice)

lemma rd_after_wr:
  "inv s \<Longrightarrow> off + length dat \<le> length (bytes s) \<Longrightarrow> rd (wr s off dat) off (length dat) = dat"
  by (simp add: rd_slice wr_splice wr_inv slice_put_at_same)

lemma rd_elsewhere:
  "inv s \<Longrightarrow> off + length dat \<le> length (bytes s) \<Longrightarrow> off' + n \<le> length (bytes s) \<Longrightarrow>
   off' + n \<le> off \<or> off + length dat \<le> off' \<Longrightarrow> rd (wr s off dat) off' n = rd s off' n"
  by (simp add: rd_slice wr_splice wr_inv slice_put_at_disjoint)

lemma wr_wr_same:
  "inv s \<Longrightarrow> off + length dat \<le> length (bytes s) \<Longrightarrow> length dat' = length dat \<Longrightarrow>
   bytes (wr (wr s off dat') off dat) = bytes (wr s off dat)"
  by (simp add: wr_splice wr_inv put_at_put_at_same)

lemma wr_two_pieces:
  "inv s \<Longrightarrow> off + length a + length b \<le> length (bytes s) \<Longrightarrow>
   bytes (wr (wr s off a) (off + length a) b) = bytes (wr s off (a @ b))"
  by (simp add: wr_splice wr_inv put_at_append)

end

text \<open>The code's loops, over a file system and the inode of an open file.\<close>

definition loop_rd :: "filesystem \<times> inode \<Rightarrow> nat \<Rightarrow> nat \<Rightarrow> u8 list" where
  "loop_rd s off n = (case read_loop (fst s) (snd s) (of_nat n) 0 (of_nat off) (replicate n 0) of
     (_, (_, _, b)) \<Rightarrow> b)"

definition loop_wr :: "filesystem \<times> inode \<Rightarrow> nat \<Rightarrow> u8 list \<Rightarrow> filesystem \<times> inode" where
  "loop_wr s off dat = (case write_loop (snd s) dat 0 (of_nat off) (fst s) of (_, (_, _, fs)) \<Rightarrow> (fs, snd s))"

interpretation file_loops:
  byte_store "\<lambda>s. file_bytes (fst s) (snd s)" loop_rd loop_wr "\<lambda>s. std_fs (fst s) \<and> inode_wf (fst s) (snd s)"
proof
  fix s :: "filesystem \<times> inode" and off
  assume inv: "std_fs (fst s) \<and> inode_wf (fst s) (snd s)"
  let ?fs = "fst s" and ?ino = "snd s" let ?nb = "nblocks (unat (isize ?ino))"
  have std: "std_fs ?fs" and wf: "inode_wf ?fs ?ino" using inv by simp_all
  have len: "length (file_bytes ?fs ?ino) = unat (isize ?ino)" by (rule length_file_bytes[OF std wf])
  have sz: "unat (isize ?ino) < 2 ^ 32" using unsigned_less[of "isize ?ino"] by simp
  note raw = raw_wf[OF std wf refl]
  have u: "unat (of_nat m :: u64) = m" if "m \<le> unat (isize ?ino)" for m
    using that sz by (simp add: unat_of_nat take_bit_nat_eq_self)
  show "loop_rd s off n = slice off (off + n) (file_bytes ?fs ?ino)"
    if "off + n \<le> length (file_bytes ?fs ?ino)" for n
  proof -
    have le: "off + n \<le> unat (isize ?ino)" using that len by simp
    have un: "unat (of_nat n :: u64) = n" "unat (of_nat off :: u64) = off" using le u by simp_all
    obtain off' where "read_loop ?fs ?ino (of_nat n) 0 (of_nat off) (replicate n 0) =
        (Ok (), (of_nat n, off', put_at 0 (slice off (off + n) (raw_bytes ?fs ?ino ?nb)) (replicate n 0)))"
      using read_loop_Ok[OF std wf refl, of 0 "of_nat n" "replicate n 0" "of_nat off"] un le raw(2) sz by auto
    then show ?thesis
      using le raw by (simp add: loop_rd_def put_at_all file_bytes_def slice_take)
  qed
  fix dat :: "u8 list" assume d: "off + length dat \<le> length (file_bytes ?fs ?ino)"
  then have le: "off + length dat \<le> unat (isize ?ino)" using len by simp
  have uo: "unat (of_nat off :: u64) = off" using le u by simp
  obtain off' fs' where w: "write_loop ?ino dat 0 (of_nat off) ?fs = (Ok (), (length dat, off', fs'))"
    "raw_bytes fs' ?ino ?nb = put_at off dat (raw_bytes ?fs ?ino ?nb)"
    "blocks_frame (unat ` set (blk_list ?fs ?ino ?nb)) ?fs fs'" "inode_wf fs' ?ino"
    using write_loop_Ok[OF std wf refl, of 0 dat "of_nat off"] uo le raw(2) by auto
  then show "file_bytes (fst (loop_wr s off dat)) (snd (loop_wr s off dat)) = put_at off dat (file_bytes ?fs ?ino)"
    using le raw by (simp add: loop_wr_def file_bytes_def take_put_at)
  show "std_fs (fst (loop_wr s off dat)) \<and> inode_wf (fst (loop_wr s off dat)) (snd (loop_wr s off dat))"
    using w by (simp add: loop_wr_def blocks_frame_def)
qed

end
