(* ===== verification/Format.thy ===== *)
theory Format
  imports FileSpec
begin

text \<open>
  \<open>NewFileSystem\<close> of \<open>computer/fs.go\<close> (lines 139-307): open the disk image, check its header, and
  either format the disk or take the superblock that is on it. The image file is its bytes, if it
  exists; opening creates an empty one, and \<open>Truncate\<close> brings it to \<open>DISKSIZE\<close>. The time the root
  inode gets is an argument.
\<close>

section \<open>The code\<close>

definition root_inode :: "u64 \<Rightarrow> u64 \<Rightarrow> inode" where
  "root_inode created modified = zero_inode\<lparr>isize := 0, fType := S_IFDIR, refs := 0,
     owner := string_bytes ''root'' @ replicate 10 0, setuid := False, ownerMode := 7, otherMode := 5,
     createdAt := created, modifiedAt := modified\<rparr>"

definition format_writes :: "superblock \<Rightarrow> (u8 list \<times> int) list" where
  "format_writes sb =
     [(writeSuprBlktoSuprBuf zero_block sb, 0),
      (zero_block[0 := 7], int BLOCKSIZE * uint (inodeBitmapStartBlock sb)),
      (replicate (BLOCKSIZE * 252) 0, int BLOCKSIZE * uint (inodeTableStartBlock sb)),
      (let used = unat (dataBlockCount sb) div 8
       in (replicate used 0 @ replicate (BLOCKSIZE - used) 0xff, uint (dataBitmapStartBlock sb) * int BLOCKSIZE)),
      (let used = unat (dataBlockCount sb) div 8
       in (replicate used 0 @ replicate (BLOCKSIZE - used) 0xff, uint (dataBitmapStartBlock sb) * int BLOCKSIZE)),
      (replicate (BLOCKSIZE * unat (dataBlockCount sb)) 0, uint (dataBlocksStartBlock sb) * int BLOCKSIZE),
      (replicate BLOCKSIZE 103, uint (dataBlocksStartBlock sb + of_nat BLOCKS) * int BLOCKSIZE)]"

definition format_disk :: "superblock \<Rightarrow> MemDisk \<Rightarrow> MemDisk" where
  "format_disk sb d = foldl (\<lambda>d (bs, off). fst (MemDisk_WriteAt d bs off)) d (format_writes sb)"

definition NewFileSystem :: "u8 list option \<Rightarrow> u64 \<Rightarrow> u64 \<Rightarrow> filesystem" where
  "NewFileSystem img created modified =
     (let d0 = fst (MemDisk_Truncate \<lparr>buf = (case img of None \<Rightarrow> [] | Some bs \<Rightarrow> bs)\<rparr> (int DISKSIZE));
          header = readSuperBlock (take BLOCKSIZE (buf d0));
          isInitialized = (img \<noteq> None \<and> magic header = string_bytes ''BS-EXTFS'' \<and> version header = LATEST_VERSION)
      in if isInitialized then \<lparr>disk = d0, superBlk = header, freshFormat = False\<rparr>
         else fst (writeInode \<lparr>disk = format_disk fresh_superblock d0, superBlk = fresh_superblock, freshFormat = True\<rparr>
                (root_inode created modified) 2))"

section \<open>What formatting leaves on the disk\<close>

definition fresh_dbitmap :: "u8 list" where
  "fresh_dbitmap = replicate (BLOCKS div 8) 0 @ replicate (BLOCKSIZE - BLOCKS div 8) 0xff"

definition fresh_image :: "u8 list" where
  "fresh_image = writeSuprBlktoSuprBuf zero_block fresh_superblock @ zero_block[0 := 7] @
     replicate (BLOCKSIZE * 252) 0 @ fresh_dbitmap @ replicate (BLOCKSIZE * BLOCKS) 0 @ replicate BLOCKSIZE 103"

lemma length_Truncate: "length (buf (fst (MemDisk_Truncate d (int n)))) = n"
  by (auto simp: MemDisk_Truncate_def)

text \<open>A write right behind a prefix that is already in place, and one that repeats it.\<close>

lemma write_next:
  assumes "buf d = P @ R" "off = int (length P)" "length bs \<le> length R" "bs \<noteq> []"
  shows "fst (MemDisk_WriteAt d bs off) = d\<lparr>buf := (P @ bs) @ drop (length bs) R\<rparr>"
  using assms by (subst assms(2), subst WriteAt_inside) (auto simp: put_at_def)

lemma write_again:
  assumes "buf d = (P @ bs) @ R" "off = int (length P)" "bs \<noteq> []"
  shows "fst (MemDisk_WriteAt d bs off) = d"
  using assms by (subst assms(2), subst WriteAt_inside) (auto simp: put_at_def)

lemma foldl_writes_Cons:
  "foldl (\<lambda>d (bs, off). fst (MemDisk_WriteAt d bs off)) d ((bs, off) # ws) =
   foldl (\<lambda>d (bs, off). fst (MemDisk_WriteAt d bs off)) (fst (MemDisk_WriteAt d bs off)) ws"
  by simp

lemma length_superblock_buf: "length (writeSuprBlktoSuprBuf zero_block fresh_superblock) = BLOCKSIZE"
  by (simp add: writeSuprBlktoSuprBuf_def puts_def fresh_superblock_def layout)

lemma length_fresh_dbitmap: "length fresh_dbitmap = BLOCKSIZE"
  by (simp add: fresh_dbitmap_def layout)

lemma length_fresh_image: "length fresh_image = DISKSIZE"
  by (simp add: fresh_image_def length_superblock_buf length_fresh_dbitmap) (simp add: layout)

lemma format_writes_fresh:
  "format_writes fresh_superblock =
     [(writeSuprBlktoSuprBuf zero_block fresh_superblock, 0),
      (zero_block[0 := 7], int BLOCKSIZE),
      (replicate (BLOCKSIZE * 252) 0, int (2 * BLOCKSIZE)),
      (fresh_dbitmap, int (254 * BLOCKSIZE)), (fresh_dbitmap, int (254 * BLOCKSIZE)),
      (replicate (BLOCKSIZE * BLOCKS) 0, int (255 * BLOCKSIZE)),
      (replicate BLOCKSIZE 103, int ((255 + BLOCKS) * BLOCKSIZE))]"
proof -
  have n: "unat (dataBlockCount fresh_superblock) = BLOCKS"
    by (simp add: fresh_superblock_def layout)
  have p: "uint (255 + of_nat BLOCKS :: u32) = int (255 + BLOCKS)"
    by (simp add: layout)
  show ?thesis unfolding format_writes_def n by (simp add: fresh_dbitmap_def Let_def p)
qed

lemma format_disk_fresh:
  assumes "length (buf d) = DISKSIZE"
  shows "format_disk fresh_superblock d = \<lparr>buf = fresh_image\<rparr>"
proof -
  let ?sb = "writeSuprBlktoSuprBuf zero_block fresh_superblock" and ?im = "zero_block[0 := (7 :: u8)]"
  let ?it = "replicate (BLOCKSIZE * 252) (0 :: u8)" and ?db = "replicate (BLOCKSIZE * BLOCKS) (0 :: u8)"
  let ?pad = "replicate BLOCKSIZE (103 :: u8)"
  note len = length_superblock_buf length_fresh_dbitmap
  have pos: "0 < BLOCKSIZE" "0 < BLOCKS" by (simp_all add: layout)
  then have ne: "?sb \<noteq> []" "?im \<noteq> []" "?it \<noteq> []" "fresh_dbitmap \<noteq> []" "?db \<noteq> []" "?pad \<noteq> []"
    using len by (auto simp flip: length_0_conv)
  let ?R = "\<lambda>n. drop n (buf d)"
  let ?d = "\<lambda>P. d\<lparr>buf := P @ ?R (length P)\<rparr>"
  have step: "fst (MemDisk_WriteAt (?d P) bs off) = ?d (P @ bs)"
    if "off = int (length P)" "length P + length bs \<le> DISKSIZE" "bs \<noteq> []" for P bs off
  proof -
    have R: "length bs \<le> length (?R (length P))" using that(2) assms by simp
    have b: "buf (?d P) = P @ ?R (length P)" by simp
    show ?thesis using write_next[OF b that(1) R that(3)] by (simp add: add.commute)
  qed
  have again: "fst (MemDisk_WriteAt (?d (P @ bs)) bs off) = ?d (P @ bs)"
    if "off = int (length P)" "bs \<noteq> []" for P bs off
    using that by (intro write_again[where P = P]) simp_all
  let ?P1 = "[] @ ?sb" let ?P2 = "?P1 @ ?im" let ?P3 = "?P2 @ ?it" let ?P4 = "?P3 @ fresh_dbitmap"
  let ?P5 = "?P4 @ ?db" let ?P6 = "?P5 @ ?pad"
  have l: "length ?P1 = BLOCKSIZE" "length ?P2 = 2 * BLOCKSIZE" "length ?P3 = 254 * BLOCKSIZE"
    "length ?P4 = 255 * BLOCKSIZE" "length ?P5 = (255 + BLOCKS) * BLOCKSIZE" "length ?P6 = DISKSIZE"
    by (simp_all add: len algebra_simps) (simp_all add: layout)
  have le: "length ?P1 \<le> DISKSIZE" "length ?P2 \<le> DISKSIZE" "length ?P3 \<le> DISKSIZE"
    "length ?P4 \<le> DISKSIZE" "length ?P5 \<le> DISKSIZE" "length ?P6 \<le> DISKSIZE"
    unfolding l by (simp_all add: layout)
  have s: "fst (MemDisk_WriteAt (?d []) ?sb 0) = ?d ?P1"
    "fst (MemDisk_WriteAt (?d ?P1) ?im (int BLOCKSIZE)) = ?d ?P2"
    "fst (MemDisk_WriteAt (?d ?P2) ?it (int (2 * BLOCKSIZE))) = ?d ?P3"
    "fst (MemDisk_WriteAt (?d ?P3) fresh_dbitmap (int (254 * BLOCKSIZE))) = ?d ?P4"
    "fst (MemDisk_WriteAt (?d ?P4) fresh_dbitmap (int (254 * BLOCKSIZE))) = ?d ?P4"
    "fst (MemDisk_WriteAt (?d ?P4) ?db (int (255 * BLOCKSIZE))) = ?d ?P5"
    "fst (MemDisk_WriteAt (?d ?P5) ?pad (int ((255 + BLOCKS) * BLOCKSIZE))) = ?d ?P6"
  proof -
    show "fst (MemDisk_WriteAt (?d []) ?sb 0) = ?d ?P1"
      by (rule step[OF _ _ ne(1)]) (simp, use le(1) in \<open>simp only: length_append\<close>)
    show "fst (MemDisk_WriteAt (?d ?P1) ?im (int BLOCKSIZE)) = ?d ?P2"
      by (rule step[OF _ _ ne(2)]) (simp only: l, use le(2) in \<open>simp only: length_append\<close>)
    show "fst (MemDisk_WriteAt (?d ?P2) ?it (int (2 * BLOCKSIZE))) = ?d ?P3"
      by (rule step[OF _ _ ne(3)]) (simp only: l, use le(3) in \<open>simp only: length_append\<close>)
    show "fst (MemDisk_WriteAt (?d ?P3) fresh_dbitmap (int (254 * BLOCKSIZE))) = ?d ?P4"
      by (rule step[OF _ _ ne(4)]) (simp only: l, use le(4) in \<open>simp only: length_append\<close>)
    show "fst (MemDisk_WriteAt (?d ?P4) fresh_dbitmap (int (254 * BLOCKSIZE))) = ?d ?P4"
      by (rule again[OF _ ne(4)]) (simp only: l)
    show "fst (MemDisk_WriteAt (?d ?P4) ?db (int (255 * BLOCKSIZE))) = ?d ?P5"
      by (rule step[OF _ _ ne(5)]) (simp only: l, use le(5) in \<open>simp only: length_append\<close>)
    show "fst (MemDisk_WriteAt (?d ?P5) ?pad (int ((255 + BLOCKS) * BLOCKSIZE))) = ?d ?P6"
      by (rule step[OF _ _ ne(6)]) (simp only: l, use le(6) in \<open>simp only: length_append\<close>)
  qed
  have "format_disk fresh_superblock (?d []) = ?d ?P6"
    unfolding format_disk_def format_writes_fresh foldl_writes_Cons foldl_Nil s ..
  then show ?thesis using l assms by (simp add: fresh_image_def)
qed

section \<open>A freshly formatted disk\<close>

definition formatted :: "filesystem" where
  "formatted = \<lparr>disk = \<lparr>buf = fresh_image\<rparr>, superBlk = fresh_superblock, freshFormat = True\<rparr>"

lemma std_formatted: "std_fs formatted"
  by (simp add: std_fs_def formatted_def length_fresh_image)

lemma region_piece:
  assumes "buf (disk fs) = A @ B @ C" "off = length A" "n = length B"
  shows "region off n fs = B"
  using assms by (simp add: region_def slice_append_left slice_append_right)

lemma region_zero:
  assumes "buf (disk fs) = A @ replicate m 0 @ C" "length A \<le> off" "off + n \<le> length A + m"
  shows "region off n fs = replicate n 0"
  using assms by (simp add: region_def slice_append_left slice_append_right)

lemma formatted_views:
  "superblock_bytes formatted = writeSuprBlktoSuprBuf zero_block fresh_superblock"
  "ibitmap formatted = (replicate (INODES div 8) 0)[0 := 7]"
  "i < INODES \<Longrightarrow> inode_bytes formatted i = replicate INODESIZE 0"
  "dbitmap formatted = fresh_dbitmap"
  "b < BLOCKS \<Longrightarrow> dblk formatted b = zero_block"
proof -
  let ?sb = "writeSuprBlktoSuprBuf zero_block fresh_superblock" and ?im = "zero_block[0 := (7 :: u8)]"
  let ?it = "replicate (BLOCKSIZE * 252) (0 :: u8)" and ?db = "replicate (BLOCKSIZE * BLOCKS) (0 :: u8)"
  let ?pad = "replicate BLOCKSIZE (103 :: u8)"
  note len = length_superblock_buf length_fresh_dbitmap
  have b: "buf (disk formatted) = ?sb @ ?im @ ?it @ fresh_dbitmap @ ?db @ ?pad"
    by (simp add: formatted_def fresh_image_def)
  show "superblock_bytes formatted = ?sb"
    unfolding superblock_bytes_def
    by (rule region_piece[where A = "[]", OF _ _ len(1)[symmetric]]) (simp_all add: b)
  have "?im = (replicate (INODES div 8) 0)[0 := 7] @ replicate (BLOCKSIZE - INODES div 8) 0"
  proof -
    have "BLOCKSIZE = INODES div 8 + (BLOCKSIZE - INODES div 8)" "0 < INODES div 8" by (simp_all add: layout)
    then show ?thesis unfolding zero_block_def
      by (metis length_replicate list_update_append1 replicate_add)
  qed
  note im = this
  show "ibitmap formatted = (replicate (INODES div 8) 0)[0 := 7]"
    unfolding ibitmap_def
    by (rule region_piece[where A = ?sb and C = "replicate (BLOCKSIZE - INODES div 8) 0 @ ?it @ fresh_dbitmap @ ?db @ ?pad"])
      (simp_all only: b im append_assoc len length_list_update length_replicate)
  show "inode_bytes formatted i = replicate INODESIZE 0" if "i < INODES"
    unfolding inode_bytes_def
    by (rule region_zero[where A = "?sb @ ?im" and C = "fresh_dbitmap @ ?db @ ?pad" and m = "BLOCKSIZE * 252"])
      (use that in \<open>simp_all add: b len layout\<close>)
  show "dbitmap formatted = fresh_dbitmap"
    unfolding dbitmap_def
    by (rule region_piece[where A = "?sb @ ?im @ ?it" and C = "?db @ ?pad", OF _ _ len(2)[symmetric]])
      (simp_all add: b len)
  show "dblk formatted b = zero_block" if "b < BLOCKS"
    unfolding dblk_def zero_block_def
    by (rule region_zero[where A = "?sb @ ?im @ ?it @ fresh_dbitmap" and C = ?pad and m = "BLOCKSIZE * BLOCKS"])
      (use that in \<open>simp_all add: b len layout\<close>)
qed

lemma fresh_dbitmap_free: "free_bits fresh_dbitmap = {..<BLOCKS}"
proof -
  have "bm_bit fresh_dbitmap i \<longleftrightarrow> BLOCKS \<le> i" if "i < 8 * BLOCKSIZE" for i
  proof (cases "i < BLOCKS")
    case True
    then have "i div 8 < BLOCKS div 8" by (simp add: layout)
    then show ?thesis using True by (simp add: bm_bit_def fresh_dbitmap_def nth_append)
  next
    case False
    then have r: "BLOCKS div 8 \<le> i div 8" "i div 8 < BLOCKSIZE" using that by (simp_all add: layout div_le_mono)
    have "bit (255 :: u8) (i mod 8)" by (rule bit_255) simp
    then show ?thesis using False r by (simp add: bm_bit_def fresh_dbitmap_def nth_append)
  qed
  then show ?thesis by (auto simp: free_bits_def length_fresh_dbitmap layout)
qed

lemma fresh_ibitmap_free: "free_bits ((replicate (INODES div 8) 0)[0 := 7]) = {3..<INODES}"
proof -
  have "bm_bit ((replicate (INODES div 8) 0)[0 := 7]) i \<longleftrightarrow> i < 3" if "i < INODES" for i
  proof (cases "i div 8 = 0")
    case True
    then have "i < 8" by simp
    moreover have m: "(7 :: u8) = mask 3" by (simp add: mask_eq_exp_minus_1)
    have "bit (7 :: u8) i \<longleftrightarrow> i < 3" if "i < 8" for i
      unfolding m bit_mask_iff using that by simp
    ultimately show ?thesis using True by (simp add: bm_bit_def layout)
  next
    case False
    then have "i div 8 < INODES div 8" using that by (simp add: layout)
    then show ?thesis using False by (simp add: bm_bit_def)
  qed
  then show ?thesis by (auto simp: free_bits_def layout)
qed

lemma decode_zero_inode: "decode_inode (replicate INODESIZE 0) = zero_inode"
proof -
  have z: "le_word (replicate n 0) = (0 :: 'a :: len word)" for n
    by (rule bit_word_eqI) (simp add: bit_le_word)
  have m: "map (\<lambda>i. le_word (slice (24 + i * 4) (28 + i * 4) (replicate INODESIZE 0))) [0..<12] = replicate 12 (0 :: u32)"
    by (rule nth_equalityI) (simp_all add: z layout)
  show ?thesis unfolding decode_inode_def m by (simp add: zero_inode_def z layout)
qed

lemma NewFileSystem_fresh:
  assumes "img = None \<or> (\<exists>bs. img = Some bs \<and> \<not> (magic (readSuperBlock (take BLOCKSIZE
      (buf (fst (MemDisk_Truncate \<lparr>buf = bs\<rparr> (int DISKSIZE)))))) = string_bytes ''BS-EXTFS'' \<and>
    version (readSuperBlock (take BLOCKSIZE (buf (fst (MemDisk_Truncate \<lparr>buf = bs\<rparr> (int DISKSIZE)))))) = LATEST_VERSION))"
  shows "NewFileSystem img c m = set_inode_bytes 2 (encode_inode (root_inode c m)) formatted"
proof -
  have f: "format_disk fresh_superblock (fst (MemDisk_Truncate d (int DISKSIZE))) = \<lparr>buf = fresh_image\<rparr>" for d
    by (rule format_disk_fresh) (rule length_Truncate)
  have w: "writeInode formatted (root_inode c m) 2 = (set_inode_bytes (unat (2 :: u32)) (encode_inode (root_inode c m)) formatted, None)"
    by (rule writeInode_std[OF std_formatted]) (simp_all add: layout inode_shape_def root_inode_def zero_inode_def string_bytes_def)
  show ?thesis
    using assms w f by (auto simp: NewFileSystem_def Let_def formatted_def)
qed

lemma root_inode_shape: "inode_shape (root_inode c m)"
  by (simp add: inode_shape_def root_inode_def zero_inode_def string_bytes_def)

lemma inode_wf_empty:
  assumes "inode_shape ino" "isize ino = 0"
  shows "inode_wf fs ino" "owned fs ino = []" "file_bytes fs ino = []"
proof -
  have "nblocks 0 = 0" by (simp add: nblocks_def layout)
  then show "owned fs ino = []" using assms(2) by (simp add: owned_def table_list_def blk_list_def places_used_def)
  then show "inode_wf fs ino" using assms \<open>nblocks 0 = 0\<close> by (simp add: inode_wf_def)
  show "file_bytes fs ino = []" using assms(2) by (simp add: file_bytes_def)
qed

text \<open>
  The disk \<open>NewFileSystem\<close> formats: inodes 0, 1 and 2 are used and empty, 2 being the root
  directory; every data block is free; and the invariant holds.
\<close>

definition fresh_fs :: "u64 \<Rightarrow> u64 \<Rightarrow> filesystem" where
  "fresh_fs c m = set_inode_bytes 2 (encode_inode (root_inode c m)) formatted"

lemma fresh_fs_views:
  "std_fs (fresh_fs c m)" "dbitmap (fresh_fs c m) = fresh_dbitmap"
  "ibitmap (fresh_fs c m) = (replicate (INODES div 8) 0)[0 := 7]"
  "superblock_bytes (fresh_fs c m) = writeSuprBlktoSuprBuf zero_block fresh_superblock"
  "i < INODES \<Longrightarrow> disk_inode (fresh_fs c m) i = (if i = 2 then disk_part (root_inode c m) else zero_inode)"
  "b < BLOCKS \<Longrightarrow> dblk (fresh_fs c m) b = zero_block"
proof -
  have i2: "(2 :: nat) < INODES" by (simp add: layout)
  note sh = root_inode_shape[of c m]
  show "std_fs (fresh_fs c m)" using std_formatted sh i2 by (simp add: fresh_fs_def)
  show "dbitmap (fresh_fs c m) = fresh_dbitmap" "ibitmap (fresh_fs c m) = (replicate (INODES div 8) 0)[0 := 7]"
    "superblock_bytes (fresh_fs c m) = writeSuprBlktoSuprBuf zero_block fresh_superblock"
    "b < BLOCKS \<Longrightarrow> dblk (fresh_fs c m) b = zero_block"
    using std_formatted sh i2 by (simp_all add: fresh_fs_def view formatted_views)
  show "disk_inode (fresh_fs c m) i = (if i = 2 then disk_part (root_inode c m) else zero_inode)" if "i < INODES"
    unfolding fresh_fs_def disk_inode_set[OF std_formatted i2 sh]
    using that by (simp add: disk_inode_def formatted_views decode_zero_inode)
qed

lemma fresh_fs_inv: "fs_inv (fresh_fs c m)"
proof -
  note v = fresh_fs_views[where c = c and m = m]
  have e: "isize ino = 0 \<and> inode_shape ino" if "ino \<in> ran (live (fresh_fs c m))" for ino
  proof -
    from that obtain i where "live (fresh_fs c m) i = Some ino" by (auto simp: ran_def)
    then have "unat i < INODES" "ino = disk_inode (fresh_fs c m) (unat i)" by (simp_all add: live_Some)
    then have "ino = disk_part (root_inode c m) \<or> ino = zero_inode" using v(5)[of "unat i"] by (auto split: if_splits)
    moreover have "isize (disk_part (root_inode c m)) = 0" "inode_shape (disk_part (root_inode c m))"
      using root_inode_shape[of c m] by (simp_all add: root_inode_def)
    ultimately show ?thesis by (auto simp: zero_inode_def inode_shape_def)
  qed
  then have o: "owned (fresh_fs c m) ino = []" "inode_wf (fresh_fs c m) ino" if "ino \<in> ran (live (fresh_fs c m))" for ino
    using inode_wf_empty[of ino] that by simp_all
  have "all_owned (fresh_fs c m) (live (fresh_fs c m)) = {}" using o by (auto simp: all_owned_def)
  moreover have "data_bm fresh_dbitmap" by (simp add: data_bm_def length_fresh_dbitmap fresh_dbitmap_free)
  moreover have "owned (fresh_fs c m) ino = []" if "live (fresh_fs c m) i = Some ino" for i ino
    using o(1) that by (auto simp: ran_def)
  ultimately show ?thesis
    unfolding fs_inv_def disk_consistent_def using v(1,2) o(2) by (simp add: fresh_dbitmap_free)
qed

text \<open>Mounting a disk again: the superblock is read back, and the disk is left as it is.\<close>

lemma NewFileSystem_remount:
  assumes "std_fs fs" "superblock_bytes fs = writeSuprBlktoSuprBuf zero_block fresh_superblock"
  shows "NewFileSystem (Some (buf (disk fs))) c m = fs\<lparr>freshFormat := False\<rparr>"
proof -
  have len: "length (buf (disk fs)) = DISKSIZE" using assms(1) by (simp add: std_fs_def)
  have t: "fst (MemDisk_Truncate \<lparr>buf = buf (disk fs)\<rparr> (int DISKSIZE)) = disk fs"
    using len by (simp add: MemDisk_Truncate_def)
  have h: "take BLOCKSIZE (buf (disk fs)) = writeSuprBlktoSuprBuf zero_block fresh_superblock"
    using assms(2) by (simp add: superblock_bytes_def region_def slice_def)
  have r: "readSuperBlock (writeSuprBlktoSuprBuf zero_block fresh_superblock) = fresh_superblock"
    using superblock_codec.decode_encode[OF fresh_superblock_valid] by (simp add: zero_block_def)
  show ?thesis
    using assms(1) by (simp add: NewFileSystem_def Let_def t h r std_fs_def) (simp add: fresh_superblock_def)
qed

end
