(* ===== verification/Dir.thy ===== *)
theory Dir
  imports Format
begin

text \<open>
  \<open>computer/fs_dir.go\<close>: directories. A directory is a file of 64-byte slots, 64 to a block; a slot with
  inode number 0 is blank. The operations read the directory's inode from the disk, not from the
  cache. The first half is the code, the second the view of a directory as a list of slots.
\<close>

section \<open>The code\<close>

record dir_entry =
  Inum :: u32
  Name :: string

definition encodeDirEntry :: "dir_entry \<Rightarrow> u8 list outcome" where
  "encodeDirEntry dentry =
     (if length (Name dentry) > 55 then Err (ErrorText ''name too long'')
      else if Inum dentry = 0 then Err (ErrorText ''invalid inum'')
      else Ok (puts (replicate 64 0)
        [(0, le_bytes 4 (Inum dentry)), (4, [of_nat (length (Name dentry))]), (8, string_bytes (Name dentry))]))"

definition slot_inum :: "u8 list \<Rightarrow> nat \<Rightarrow> u32" where
  "slot_inum block i = le_word (slice i (i + 4) block)"

text \<open>
  The offsets \<open>0, 64, ..., 4032\<close> of the loops. In \<open>decodeDirEntries\<close> the bound \<open>nameLen+8\<close> of the name
  is a \<open>uint8\<close>, and the slice expression is checked against the capacity of \<open>entry\<close>, the rest
  of the block.
\<close>

definition slot_offsets :: "nat list" where
  "slot_offsets = map (\<lambda>j. j * 64) [0..<64]"

fun decode_slots :: "u8 list \<Rightarrow> nat list \<Rightarrow> dir_entry list outcome" where
  "decode_slots block [] = Ok []"
| "decode_slots block (i # is) =
     (let inum = slot_inum block i
      in if inum = 0 then decode_slots block is
         else let nameLen = block ! (i + 4); hi = unat (nameLen + 8)
              in if 8 \<le> hi \<and> i + hi \<le> BLOCKSIZE then
                   bindO (decode_slots block is) (\<lambda>es.
                     Ok (\<lparr>Inum = inum, Name = bytes_string (slice (i + 8) (i + hi) block)\<rparr> # es))
                 else Panic)"

definition decodeDirEntries :: "u8 list \<Rightarrow> dir_entry list outcome" where
  "decodeDirEntries block = decode_slots block slot_offsets"

text \<open>The callback of \<open>tryInsert\<close>; its variable is \<open>inserted\<close>.\<close>

definition insert_fn :: "u8 list \<Rightarrow> bool block_fn" where
  "insert_fn enc blockNumber dat st = (case st of (inserted, fs) \<Rightarrow>
     (case find (\<lambda>i. slot_inum dat i = 0) slot_offsets of
        None \<Rightarrow> (Ok False, (inserted, fs))
      | Some i \<Rightarrow>
          (case writeDataBlock fs blockNumber (put_at i enc dat) of
             (fs, Some e) \<Rightarrow> (Err e, (True, fs))
           | (fs, None) \<Rightarrow> (Ok True, (True, fs)))))"

definition tryInsert :: "inode \<Rightarrow> u8 list \<Rightarrow> filesystem \<Rightarrow> bool outcome \<times> filesystem" where
  "tryInsert ino enc fs = (case iterBlocks ino (insert_fn enc) (False, fs) of
     (Ok _, (inserted, fs)) \<Rightarrow> (Ok inserted, fs)
   | (Err e, (inserted, fs)) \<Rightarrow> (Err e, fs)
   | (Panic, (inserted, fs)) \<Rightarrow> (Panic, fs))"

definition addDentry :: "u32 \<Rightarrow> dir_entry \<Rightarrow> filesystem \<Rightarrow> unit outcome \<times> filesystem" where
  "addDentry dirInum dentry fs =
     bindS (readInode fs dirInum, fs) (\<lambda>dirInode fs.
     bindS (encodeDirEntry dentry, fs) (\<lambda>enc fs.
     bindS (tryInsert dirInode enc fs) (\<lambda>inserted fs.
       if inserted then (Ok (), fs)
       else case Falloc dirInode (isize dirInode + of_nat BLOCKSIZE) fs of (r, (dirInode, fs)) \<Rightarrow>
         bindS (r, fs) (\<lambda>_ fs.
           case writeInode fs dirInode dirInum of (fs, err) \<Rightarrow>
           bindS (of_err err, fs) (\<lambda>_ fs.
           bindS (tryInsert dirInode enc fs) (\<lambda>inserted fs.
             if inserted then (Ok (), fs)
             else (Err (ErrorText ''addDentry: no free slot even after falloc??''), fs)))))))"

text \<open>The search of \<open>removeDentry\<close>: the slice of the name is checked against the end of the block.\<close>

fun find_name :: "u8 list \<Rightarrow> string \<Rightarrow> nat list \<Rightarrow> nat option outcome" where
  "find_name dat name [] = Ok None"
| "find_name dat name (i # is) =
     (if slot_inum dat i = 0 then find_name dat name is
      else let nameLen = unat (dat ! (i + 4))
           in if i + 8 + nameLen \<le> BLOCKSIZE then
                if bytes_string (slice (i + 8) (i + 8 + nameLen) dat) \<noteq> name then find_name dat name is
                else Ok (Some i)
              else Panic)"

definition remove_fn :: "string \<Rightarrow> bool block_fn" where
  "remove_fn name blockNumber dat st = (case st of (found, fs) \<Rightarrow>
     (case find_name dat name slot_offsets of
        Panic \<Rightarrow> (Panic, (found, fs))
      | Err e \<Rightarrow> (Err e, (found, fs))
      | Ok None \<Rightarrow> (Ok False, (found, fs))
      | Ok (Some i) \<Rightarrow>
          (case writeDataBlock fs blockNumber (put_at i (replicate 64 0) dat) of
             (fs, Some e) \<Rightarrow> (Err e, (True, fs))
           | (fs, None) \<Rightarrow> (Ok True, (True, fs)))))"

definition removeDentry :: "u32 \<Rightarrow> string \<Rightarrow> filesystem \<Rightarrow> unit outcome \<times> filesystem" where
  "removeDentry dirInum name fs =
     bindS (readInode fs dirInum, fs) (\<lambda>dirInode fs.
       case iterBlocks dirInode (remove_fn name) (False, fs) of
         (Ok _, (found, fs)) \<Rightarrow> if found then (Ok (), fs) else (Err ENOENT, fs)
       | (Err e, (found, fs)) \<Rightarrow> (Err e, fs)
       | (Panic, (found, fs)) \<Rightarrow> (Panic, fs))"

definition read_fn :: "dir_entry list block_fn" where
  "read_fn blockNumber dat st = (case st of (es, fs) \<Rightarrow>
     (case decodeDirEntries dat of
        Ok new \<Rightarrow> (Ok False, (es @ new, fs))
      | Err e \<Rightarrow> (Err e, (es, fs))
      | Panic \<Rightarrow> (Panic, (es, fs))))"

definition ReadEntries :: "u32 \<Rightarrow> filesystem \<Rightarrow> dir_entry list outcome" where
  "ReadEntries dirInum fs =
     bindO (readInode fs dirInum) (\<lambda>dirInode.
       case iterBlocks dirInode read_fn ([], fs) of
         (Ok _, (es, fs)) \<Rightarrow> Ok es
       | (Err e, _) \<Rightarrow> Err e
       | (Panic, _) \<Rightarrow> Panic)"

text \<open>An open directory reads and writes nothing.\<close>

record directoryFD =
  dfd_inodeNum :: u32
  dfd_offset :: u64
  dfd_flags :: int

definition DirectoryOps_CreateFD :: "u32 \<Rightarrow> int \<Rightarrow> directoryFD" where
  "DirectoryOps_CreateFD inum fl = \<lparr>dfd_inodeNum = inum, dfd_offset = 0, dfd_flags = fl\<rparr>"

definition DirectoryFD_Open :: "directoryFD \<Rightarrow> directoryFD \<times> go_error option" where
  "DirectoryFD_Open d = (d\<lparr>dfd_offset := 0\<rparr>, None)"

definition DirectoryFD_Read :: "directoryFD \<Rightarrow> u8 list \<Rightarrow> nat \<times> go_error option" where
  "DirectoryFD_Read d b = (0, None)"

definition DirectoryFD_Write :: "directoryFD \<Rightarrow> u8 list \<Rightarrow> nat \<times> go_error option" where
  "DirectoryFD_Write d b = (0, None)"

section \<open>A directory as a list of slots\<close>

definition slotb :: "u8 list \<Rightarrow> nat \<Rightarrow> u8 list" where
  "slotb bs k = slice (k * 64) (k * 64 + 64) bs"

definition entry_of :: "u8 list \<Rightarrow> dir_entry option" where
  "entry_of s = (if slot_inum s 0 = 0 then None
     else Some \<lparr>Inum = slot_inum s 0, Name = bytes_string (slice 8 (8 + unat (s ! 4)) s)\<rparr>)"

definition slots_of :: "u8 list \<Rightarrow> dir_entry option list" where
  "slots_of bs = map (\<lambda>k. entry_of (slotb bs k)) [0..<length bs div 64]"

text \<open>A slot a directory may hold: blank, or with a name that fits.\<close>

definition ok_slot :: "u8 list \<Rightarrow> bool" where
  "ok_slot s \<longleftrightarrow> slot_inum s 0 = 0 \<or> unat (s ! 4) \<le> 55"

definition slots_ok :: "u8 list \<Rightarrow> bool" where
  "slots_ok bs \<longleftrightarrow> (\<forall>k < length bs div 64. ok_slot (slotb bs k))"

definition entry_ok :: "dir_entry \<Rightarrow> bool" where
  "entry_ok e \<longleftrightarrow> length (Name e) \<le> 55 \<and> Inum e \<noteq> 0"

definition enc_entry :: "dir_entry \<Rightarrow> u8 list" where
  "enc_entry e = puts (replicate 64 0)
     [(0, le_bytes 4 (Inum e)), (4, [of_nat (length (Name e))]), (8, string_bytes (Name e))]"

lemma entry_ok_encode: "entry_ok e \<Longrightarrow> encodeDirEntry e = Ok (enc_entry e)"
  by (simp add: encodeDirEntry_def entry_ok_def enc_entry_def)

lemma encode_errors: "\<not> entry_ok e \<Longrightarrow> \<exists>err. encodeDirEntry e = Err err"
  by (auto simp: encodeDirEntry_def entry_ok_def)

lemma enc_entry_fields:
  assumes "entry_ok e"
  shows "length (enc_entry e) = 64" "slot_inum (enc_entry e) 0 = Inum e"
    "unat (enc_entry e ! 4) = length (Name e)"
    "slice 8 (8 + length (Name e)) (enc_entry e) = string_bytes (Name e)"
proof -
  have n: "length (Name e) \<le> 55" using assms by (simp add: entry_ok_def)
  let ?b1 = "put_at 0 (le_bytes 4 (Inum e)) (replicate 64 0) :: u8 list"
  let ?b2 = "put_at 4 [of_nat (length (Name e))] ?b1"
  have e: "enc_entry e = put_at 8 (string_bytes (Name e)) ?b2"
    by (simp add: enc_entry_def puts_def)
  have l: "length ?b1 = 64" "length ?b2 = 64" by simp_all
  show "length (enc_entry e) = 64" using n l by (simp add: e)
  show "slot_inum (enc_entry e) 0 = Inum e"
    using n by (simp add: e slot_inum_def slice_put_at_before slice_put_at_same)
  have "unat (of_nat (length (Name e)) :: u8) = length (Name e)" using n by (intro unat_word_of_nat) simp
  then show "unat (enc_entry e ! 4) = length (Name e)"
    using n by (simp add: e nth_put_at)
  show "slice 8 (8 + length (Name e)) (enc_entry e) = string_bytes (Name e)"
    using n by (simp add: e slice_put_at_same)
qed

lemma entry_of_enc: "entry_ok e \<Longrightarrow> entry_of (enc_entry e) = Some e"
  by (simp add: entry_of_def enc_entry_fields entry_ok_def)

lemma ok_slot_enc: "entry_ok e \<Longrightarrow> ok_slot (enc_entry e)"
  by (simp add: ok_slot_def enc_entry_fields entry_ok_def)

lemma slot_inum_zero: "slot_inum (replicate 64 0) 0 = 0"
  by (rule bit_word_eqI) (simp add: slot_inum_def bit_le_word)

lemma entry_of_zero: "entry_of (replicate 64 0) = None"
  by (simp add: entry_of_def slot_inum_zero)

lemma ok_slot_zero: "ok_slot (replicate 64 0)"
  by (simp add: ok_slot_def slot_inum_zero)

text \<open>An encoded entry is a fixed-width record of 64 bytes.\<close>

interpretation dentry_codec: fixed_codec enc_entry "\<lambda>s. the (entry_of s)" 64 entry_ok
  by unfold_locales (simp_all add: enc_entry_fields entry_of_enc)

lemma slotb_put:
  assumes "k < length bs div 64" "k' < length bs div 64" "length s = 64"
  shows "slotb (put_at (k * 64) s bs) k' = (if k' = k then s else slotb bs k')"
  using assms slot_disjoint[of k' k 64] slot_bound[of k "length bs div 64" 64] slot_bound[of k' "length bs div 64" 64]
  by (auto simp: slotb_def slice_put_at_same slice_put_at_disjoint)

lemma slots_of_put:
  assumes "k < length bs div 64" "length s = 64"
  shows "slots_of (put_at (k * 64) s bs) = (slots_of bs)[k := entry_of s]"
proof -
  have len: "length (put_at (k * 64) s bs) = length bs"
    using assms slot_bound[of k "length bs div 64" 64] by simp
  show ?thesis
    using assms by (intro nth_equalityI) (simp_all add: slots_of_def len slotb_put nth_list_update)
qed

lemma slots_ok_put:
  assumes "k < length bs div 64" "length s = 64" "slots_ok bs" "ok_slot s"
  shows "slots_ok (put_at (k * 64) s bs)"
proof -
  have len: "length (put_at (k * 64) s bs) = length bs"
    using assms slot_bound[of k "length bs div 64" 64] by simp
  show ?thesis using assms by (simp add: slots_ok_def len slotb_put)
qed

text \<open>The slots of a concatenation of whole blocks.\<close>

lemma slotb_append:
  "length as = 64 * m \<Longrightarrow> slotb (as @ bs) k = (if k < m then slotb as k else slotb bs (k - m))"
  by (auto simp: slotb_def slice_append_left slice_append_right not_less diff_mult_distrib diff_mult_distrib2
      algebra_simps)

lemma slots_of_append:
  assumes "length as = 64 * m"
  shows "slots_of (as @ bs) = slots_of as @ slots_of bs"
proof -
  have d: "(64 * m + length bs) div 64 = m + length bs div 64" by simp
  show ?thesis
    using assms by (intro nth_equalityI) (auto simp: slots_of_def d slotb_append nth_append)
qed

lemma slots_ok_append:
  assumes "length as = 64 * m"
  shows "slots_ok (as @ bs) \<longleftrightarrow> slots_ok as \<and> slots_ok bs"
proof -
  have d: "(64 * m + length bs) div 64 = m + length bs div 64" by simp
  show ?thesis
  proof
    assume a: "slots_ok (as @ bs)"
    have "ok_slot (slotb as k)" if "k < m" for k
      using a that assms by (auto simp: slots_ok_def d slotb_append dest!: spec[of _ k])
    moreover have "ok_slot (slotb bs k)" if "k < length bs div 64" for k
      using a that assms by (auto simp: slots_ok_def d slotb_append dest!: spec[of _ "m + k"])
    ultimately show "slots_ok as \<and> slots_ok bs" using assms by (simp add: slots_ok_def)
  next
    assume "slots_ok as \<and> slots_ok bs"
    then show "slots_ok (as @ bs)" using assms by (auto simp: slots_ok_def d slotb_append)
  qed
qed

section \<open>The code's searches in one block\<close>

lemma slot_inum_slotb:
  "k * 64 + 64 \<le> length bs \<Longrightarrow> slot_inum (slotb bs k) 0 = slot_inum bs (k * 64)"
  by (simp add: slotb_def slot_inum_def slice_slice add.commute)

lemma nth_slotb: "k * 64 + 64 \<le> length bs \<Longrightarrow> j < 64 \<Longrightarrow> slotb bs k ! j = bs ! (k * 64 + j)"
  by (simp add: slotb_def nth_slice)

lemma slice_slotb:
  "k * 64 + 64 \<le> length bs \<Longrightarrow> lo \<le> hi \<Longrightarrow> hi \<le> 64 \<Longrightarrow>
   slice lo hi (slotb bs k) = slice (k * 64 + lo) (k * 64 + hi) bs"
  by (simp add: slotb_def slice_slice add.commute)

lemma block_slots: "length dat = BLOCKSIZE \<Longrightarrow> k < 64 \<Longrightarrow> k * 64 + 64 \<le> length dat"
  by (simp add: layout)

definition blank :: "u8 list \<Rightarrow> bool" where
  "blank s \<longleftrightarrow> entry_of s = None"

definition named :: "string \<Rightarrow> u8 list \<Rightarrow> bool" where
  "named name s \<longleftrightarrow> (\<exists>e. entry_of s = Some e \<and> Name e = name)"

lemma blank_iff: "blank s \<longleftrightarrow> slot_inum s 0 = 0"
  by (simp add: blank_def entry_of_def)

lemma slot_view:
  assumes "k * 64 + 64 \<le> length dat" "ok_slot (slotb dat k)"
  shows "slot_inum dat (k * 64) = 0 \<Longrightarrow> entry_of (slotb dat k) = None"
    "slot_inum dat (k * 64) \<noteq> 0 \<Longrightarrow> unat (dat ! (k * 64 + 4)) \<le> 55 \<and> entry_of (slotb dat k) =
      Some \<lparr>Inum = slot_inum dat (k * 64),
            Name = bytes_string (slice (k * 64 + 8) (k * 64 + 8 + unat (dat ! (k * 64 + 4))) dat)\<rparr>"
proof -
  note f = slot_inum_slotb[OF assms(1)] nth_slotb[OF assms(1), of 4]
  show "slot_inum dat (k * 64) = 0 \<Longrightarrow> entry_of (slotb dat k) = None"
    by (simp add: entry_of_def f)
  assume nz: "slot_inum dat (k * 64) \<noteq> 0"
  then have le: "unat (dat ! (k * 64 + 4)) \<le> 55" using assms(2) f by (simp add: ok_slot_def)
  then show "unat (dat ! (k * 64 + 4)) \<le> 55 \<and> entry_of (slotb dat k) =
      Some \<lparr>Inum = slot_inum dat (k * 64),
            Name = bytes_string (slice (k * 64 + 8) (k * 64 + 8 + unat (dat ! (k * 64 + 4))) dat)\<rparr>"
    using nz f slice_slotb[OF assms(1), of 8 "8 + unat (dat ! (k * 64 + 4))"]
    by (simp add: entry_of_def add.assoc)
qed

lemma decode_slots_ok:
  assumes "length dat = BLOCKSIZE" "\<forall>k \<in> set ks. k < 64 \<and> ok_slot (slotb dat k)"
  shows "decode_slots dat (map (\<lambda>j. j * 64) ks) = Ok (List.map_filter (\<lambda>k. entry_of (slotb dat k)) ks)"
  using assms(2)
proof (induction ks)
  case (Cons k ks)
  have k: "k < 64" "ok_slot (slotb dat k)" using Cons.prems by simp_all
  note b = block_slots[OF assms(1) k(1)]
  note v = slot_view[OF b k(2)]
  have IH: "decode_slots dat (map (\<lambda>j. j * 64) ks) = Ok (List.map_filter (\<lambda>k. entry_of (slotb dat k)) ks)"
    using Cons by simp
  show ?case
  proof (cases "slot_inum dat (k * 64) = 0")
    case True
    then show ?thesis using IH v(1) by (simp add: map_filter_simps)
  next
    case False
    note w = v(2)[OF False]
    have "unat (dat ! (k * 64 + 4) + 8) = unat (dat ! (k * 64 + 4)) + 8"
      using w by (simp add: unat_word_ariths)
    then show ?thesis
      using IH False w b assms(1) by (simp add: map_filter_simps Let_def add.assoc add.commute[of 8])
  qed
qed (simp add: map_filter_simps)

lemma decodeDirEntries_ok:
  assumes "length dat = BLOCKSIZE" "slots_ok dat"
  shows "decodeDirEntries dat = Ok (List.map_filter id (slots_of dat))"
proof -
  have d: "length dat div 64 = 64" using assms(1) by (simp add: layout)
  have "List.map_filter (\<lambda>k. entry_of (slotb dat k)) [0..<64] = List.map_filter id (slots_of dat)"
    by (simp add: List.map_filter_def slots_of_def d filter_map o_def)
  then show ?thesis
    using decode_slots_ok[OF assms(1), of "[0..<64]"] assms(2)
    by (simp add: decodeDirEntries_def slot_offsets_def slots_ok_def d)
qed

lemma find_blank:
  assumes "length dat = BLOCKSIZE"
  shows "find (\<lambda>i. slot_inum dat i = 0) slot_offsets = map_option (\<lambda>k. k * 64) (find (\<lambda>k. blank (slotb dat k)) [0..<64])"
proof -
  have "find (\<lambda>i. slot_inum dat i = 0) (map (\<lambda>j. j * 64) ks) = map_option (\<lambda>k. k * 64) (find (\<lambda>k. blank (slotb dat k)) ks)"
    if "\<forall>k \<in> set ks. k < 64" for ks
    using that by (induction ks) (simp_all add: blank_iff slot_inum_slotb block_slots[OF assms])
  then show ?thesis by (simp add: slot_offsets_def)
qed

lemma find_name_ok:
  assumes "length dat = BLOCKSIZE" "slots_ok dat"
  shows "find_name dat name slot_offsets = Ok (map_option (\<lambda>k. k * 64) (find (\<lambda>k. named name (slotb dat k)) [0..<64]))"
proof -
  have d: "length dat div 64 = 64" using assms(1) by (simp add: layout)
  have "find_name dat name (map (\<lambda>j. j * 64) ks) = Ok (map_option (\<lambda>k. k * 64) (find (\<lambda>k. named name (slotb dat k)) ks))"
    if "\<forall>k \<in> set ks. k < 64" for ks
    using that
  proof (induction ks)
    case (Cons k ks)
    have k: "k < 64" "ok_slot (slotb dat k)" using Cons.prems assms(2) d by (simp_all add: slots_ok_def)
    note b = block_slots[OF assms(1) k(1)]
    note v = slot_view[OF b k(2)]
    have IH: "find_name dat name (map (\<lambda>j. j * 64) ks) =
        Ok (map_option (\<lambda>k. k * 64) (find (\<lambda>k. named name (slotb dat k)) ks))"
      using Cons by simp
    show ?case
    proof (cases "slot_inum dat (k * 64) = 0")
      case True
      then show ?thesis using IH v(1) by (simp add: named_def)
    next
      case False
      note w = v(2)[OF False]
      show ?thesis using IH False w b assms(1) by (simp add: named_def Let_def)
    qed
  qed simp
  then show ?thesis by (simp add: slot_offsets_def)
qed

section \<open>Changing the first slot that qualifies\<close>

text \<open>
  Both callbacks change one slot: the first blank one gets the new entry, the first one with the name
  is blanked.
\<close>

definition edit_fn :: "(u8 list \<Rightarrow> bool) \<Rightarrow> u8 list \<Rightarrow> bool block_fn" where
  "edit_fn Q new b dat st = (case find (\<lambda>k. Q (slotb dat k)) [0..<64] of
     None \<Rightarrow> (Ok False, st)
   | Some k \<Rightarrow> (case writeDataBlock (snd st) b (put_at (k * 64) new dat) of
       (fs, Some e) \<Rightarrow> (Err e, (True, fs))
     | (fs, None) \<Rightarrow> (Ok True, (True, fs))))"

lemma insert_fn_edit: "length dat = BLOCKSIZE \<Longrightarrow> insert_fn enc b dat st = edit_fn blank enc b dat st"
  by (cases st) (simp add: insert_fn_def edit_fn_def find_blank split: option.splits)

lemma remove_fn_edit:
  "length dat = BLOCKSIZE \<Longrightarrow> slots_ok dat \<Longrightarrow>
   remove_fn name b dat st = edit_fn (named name) (replicate 64 0) b dat st"
  by (cases st) (simp add: remove_fn_def edit_fn_def find_name_ok split: option.splits)

lemma reads_only_edit: "reads_only (edit_fn Q new) fs"
  by (auto simp: reads_only_def edit_fn_def split: option.splits prod.splits)

lemma scan_cong:
  assumes "reads_only fn fs" "\<forall>b \<in> set bs. \<forall>a. fn b (dblk fs (unat b)) (a, fs) = fn' b (dblk fs (unat b)) (a, fs)"
  shows "scan fn bs (a, fs) = scan fn' bs (a, fs)"
  using assms(2)
proof (induction bs arbitrary: a)
  case (Cons b bs)
  obtain r a' fs' where r: "fn b (dblk fs (unat b)) (a, fs) = (r, (a', fs'))" by (metis prod.collapse)
  have eq: "fn' b (dblk fs (unat b)) (a, fs) = (r, (a', fs'))" using Cons.prems r by simp
  show ?case
  proof (cases "r = Ok False")
    case True
    then have "fs' = fs" using assms(1) r by (simp add: reads_only_def)
    then show ?thesis using Cons True r eq by simp
  next
    case False
    then show ?thesis using r eq by (cases r) auto
  qed
qed simp

lemma raw_slotb:
  assumes "std_fs fs" "inode_wf fs ino" "nb = nblocks (unat (isize ino))" "v < nb" "j < 64"
  shows "slotb (raw_bytes fs ino nb) (v * 64 + j) = slotb (dblk fs (unat (blk_at fs ino v))) j"
proof -
  have "(v * 64 + j) * 64 = v * BLOCKSIZE + j * 64" by (simp add: layout algebra_simps)
  then show ?thesis
    using raw_slice[OF assms(1) _ assms(4), of ino "j * 64" "j * 64 + 64"] inode_wf_block(1)[OF assms(2)] assms(3,5)
    by (simp add: slotb_def layout add.assoc mult.commute[of 4096])
qed

lemma scan_edit:
  assumes std: "std_fs fs" and wf: "inode_wf fs ino" and nb: "nb = nblocks (unat (isize ino))"
    and new: "length new = 64" and m: "m \<le> nb"
    and none: "\<forall>k < 64 * m. \<not> Q (slotb (raw_bytes fs ino nb) k)"
  shows "case find (\<lambda>k. Q (slotb (raw_bytes fs ino nb) k)) [0..<64 * nb] of
      None \<Rightarrow> scan (edit_fn Q new) (map (blk_at fs ino) [m..<nb]) (f, fs) = (Ok (), (f, fs))
    | Some k \<Rightarrow> k div 64 < nb \<and> scan (edit_fn Q new) (map (blk_at fs ino) [m..<nb]) (f, fs) =
        (Ok (), (True, set_dblk (unat (blk_at fs ino (k div 64)))
          (put_at (k mod 64 * 64) new (dblk fs (unat (blk_at fs ino (k div 64))))) fs))"
  using m none
proof (induction "nb - m" arbitrary: m)
  case 0
  then have "m = nb" by simp
  then have "find (\<lambda>k. Q (slotb (raw_bytes fs ino nb) k)) [0..<64 * nb] = None"
    using 0 by (simp add: find_None_iff)
  then show ?case using \<open>m = nb\<close> by simp
next
  case (Suc d)
  then have lt: "m < nb" by simp
  let ?b = "blk_at fs ino m" let ?dat = "dblk fs (unat ?b)" let ?raw = "raw_bytes fs ino nb"
  have up: "[m..<nb] = m # [Suc m..<nb]" using lt by (simp add: upt_conv_Cons)
  have sl: "slotb ?raw (m * 64 + j) = slotb ?dat j" if "j < 64" for j
    by (rule raw_slotb[OF std wf nb lt that])
  show ?case
  proof (cases "find (\<lambda>k. Q (slotb ?dat k)) [0..<64]")
    case None
    then have nq: "\<not> Q (slotb ?dat j)" if "j < 64" for j using that by (simp add: find_None_iff)
    have none': "\<forall>k < 64 * Suc m. \<not> Q (slotb ?raw k)"
    proof (intro allI impI)
      fix k assume k: "k < 64 * Suc m"
      show "\<not> Q (slotb ?raw k)"
      proof (cases "k < 64 * m")
        case False
        then show ?thesis using nq[of "k - m * 64"] sl[of "k - m * 64"] k by simp
      qed (use Suc.prems(2) in simp)
    qed
    have step: "scan (edit_fn Q new) (map (blk_at fs ino) [m..<nb]) (f, fs) =
        scan (edit_fn Q new) (map (blk_at fs ino) [Suc m..<nb]) (f, fs)"
      using None by (simp add: up edit_fn_def)
    have d: "d = nb - Suc m" using Suc.hyps(2) by simp
    have le: "Suc m \<le> nb" using lt by simp
    show ?thesis unfolding step by (rule Suc.hyps(1)[OF d le none'])
  next
    case (Some j)
    then have j: "j < 64" "Q (slotb ?dat j)" "\<forall>i < j. \<not> Q (slotb ?dat i)"
      by (auto simp: find_upt_Some)
    have k: "find (\<lambda>k. Q (slotb ?raw k)) [0..<64 * nb] = Some (m * 64 + j)"
      unfolding find_upt_Some
    proof (intro conjI allI impI)
      show "0 \<le> m * 64 + j" by simp
      show "m * 64 + j < 64 * nb" using slot_bound[OF lt, of 64] j(1) by simp
      show "Q (slotb ?raw (m * 64 + j))" using sl j by simp
      fix i assume "0 \<le> i \<and> i < m * 64 + j"
      then show "\<not> Q (slotb ?raw i)"
        using Suc.prems(2) sl[of "i - m * 64"] j by (cases "i < 64 * m") auto
    qed
    have lo: "(m * 64 + j) div 64 = m" "(m * 64 + j) mod 64 = j" using j(1) by simp_all
    have w: "writeDataBlock fs ?b (put_at (j * 64) new ?dat) = (set_dblk (unat ?b) (put_at (j * 64) new ?dat) fs, None)"
      using data_write(1)[OF std wf nb lt refl _ refl, of "j * 64" new] j(1) new by (simp add: layout)
    show ?thesis using Some k lo w lt by (simp add: up edit_fn_def)
  qed
qed

end
