(* ===== verification/DirSpec.thy ===== *)
theory DirSpec
  imports Dir
begin

text \<open>
  What the directory operations do, seen from above the blocks: a directory is a list of slots
  (\<open>dir_slots\<close>), a listing is its used slots in order, adding an entry fills the first blank slot or
  appends a block of slots, and removing one blanks the first slot with the name. Over the slots sits
  the contract a path lookup relies on, the locale \<open>name_table\<close>.
\<close>

section \<open>The directories of a disk\<close>

definition dir_slots :: "filesystem \<Rightarrow> u32 \<Rightarrow> dir_entry option list" where
  "dir_slots fs d = slots_of (content fs d)"

definition entries :: "dir_entry option list \<Rightarrow> dir_entry list" where
  "entries xs = List.map_filter id xs"

text \<open>A directory in use: whole blocks, every slot blank or with a name that fits.\<close>

definition dir_ok :: "filesystem \<Rightarrow> u32 \<Rightarrow> bool" where
  "dir_ok fs d \<longleftrightarrow> live fs d \<noteq> None \<and> length (content fs d) mod BLOCKSIZE = 0 \<and> slots_ok (content fs d)"

lemma entries_append [simp]: "entries (xs @ ys) = entries xs @ entries ys"
  by (simp add: entries_def List.map_filter_def)

lemma entries_simps [simp]: "entries [] = []" "entries (None # xs) = entries xs" "entries (Some e # xs) = e # entries xs"
  by (simp_all add: entries_def List.map_filter_def)

lemma in_entries: "e \<in> set (entries xs) \<longleftrightarrow> Some e \<in> set xs"
  by (force simp: entries_def List.map_filter_def)

lemma nblocks_whole: "nblocks (q * BLOCKSIZE) = q"
proof (rule antisym)
  show "nblocks (q * BLOCKSIZE) \<le> q" by (simp add: nblocks_bound)
  have "q * BLOCKSIZE \<le> nblocks (q * BLOCKSIZE) * BLOCKSIZE" by (simp flip: nblocks_bound)
  moreover have "0 < BLOCKSIZE" by (simp add: layout)
  ultimately show "q \<le> nblocks (q * BLOCKSIZE)" by simp
qed

lemma dir_facts:
  assumes "fs_inv fs" "dir_ok fs d" "disk_part ino = disk_inode fs (unat d)" "nb = nblocks (unat (isize ino))"
  shows "std_fs fs" "inode_wf fs ino" "unat d < INODES" "live fs d = Some (disk_inode fs (unat d))"
    "content fs d = raw_bytes fs ino nb" "unat (isize ino) = nb * BLOCKSIZE" "length (content fs d) = 64 * (64 * nb)"
proof -
  show s: "std_fs fs" by (rule fs_inv_std[OF assms(1)])
  show l: "live fs d = Some (disk_inode fs (unat d))" "unat d < INODES"
    using assms(2) by (auto simp: dir_ok_def live_def split: if_splits)
  show w: "inode_wf fs ino"
    using fs_inv_wf[OF assms(1) l(1)] inode_wf_disk_part[of fs ino] assms(3) by simp
  have c: "content fs d = file_bytes fs ino"
    using file_bytes_disk_part[of fs ino] assms(3) by (simp add: content_def)
  have "unat (isize ino) mod BLOCKSIZE = 0"
    using assms(2) length_file_bytes[OF s w] by (simp add: dir_ok_def c)
  then obtain q where q: "unat (isize ino) = q * BLOCKSIZE"
    using div_mult_mod_eq[of "unat (isize ino)" BLOCKSIZE] by (metis add_0_right)
  have "nblocks (q * BLOCKSIZE) = q" by (rule nblocks_whole)
  then show sz: "unat (isize ino) = nb * BLOCKSIZE" using assms(4) q by simp
  show r: "content fs d = raw_bytes fs ino nb"
    using raw_wf(1)[OF s w assms(4)] by (simp add: c file_bytes_def sz nblocks_whole)
  show "length (content fs d) = 64 * (64 * nb)"
    using raw_wf(1)[OF s w assms(4)] by (simp add: r layout)
qed

section \<open>Listing a directory\<close>

lemma reads_only_read: "reads_only read_fn fs"
  by (auto simp: reads_only_def read_fn_def split: outcome.splits prod.splits)

lemma scan_read:
  assumes "\<forall>b \<in> set bs. length (dblk fs (unat b)) = BLOCKSIZE"
    and "slots_ok (concat (map (\<lambda>b. dblk fs (unat b)) bs))"
  shows "scan read_fn bs (es, fs) = (Ok (), (es @ entries (slots_of (concat (map (\<lambda>b. dblk fs (unat b)) bs))), fs))"
  using assms
proof (induction bs arbitrary: es)
  case Nil
  then show ?case by (simp add: slots_of_def)
next
  case (Cons b bs)
  have l: "length (dblk fs (unat b)) = 64 * 64" using Cons.prems(1) by (simp add: layout)
  have ok: "slots_ok (dblk fs (unat b))" "slots_ok (concat (map (\<lambda>b. dblk fs (unat b)) bs))"
    using Cons.prems(2) by (simp_all add: slots_ok_append[OF l])
  have d: "decodeDirEntries (dblk fs (unat b)) = Ok (entries (slots_of (dblk fs (unat b))))"
    using decodeDirEntries_ok[OF _ ok(1)] Cons.prems(1) by (simp add: entries_def)
  show ?case
    using Cons.IH[OF _ ok(2)] Cons.prems(1) d by (simp add: read_fn_def slots_of_append[OF l])
qed

lemma ReadEntries_ok:
  assumes "fs_inv fs" "dir_ok fs d"
  shows "ReadEntries d fs = Ok (entries (dir_slots fs d))"
proof -
  let ?ino = "(disk_inode fs (unat d))\<lparr>num := d\<rparr>" and ?nb = "nblocks (unat (isize (disk_inode fs (unat d))))"
  have p: "disk_part ?ino = disk_inode fs (unat d)"
    using disk_part_disk_inode[of fs "unat d"] by (simp add: disk_part_def)
  note f = dir_facts[OF assms p refl]
  have r: "readInode fs d = Ok ?ino" using readInode_std[OF f(1,3)] by (simp add: disk_inode_def)
  have c: "concat (map (\<lambda>b. dblk fs (unat b)) (blk_list fs ?ino ?nb)) = content fs d"
    using f(5) by (simp add: raw_bytes_def)
  have "scan read_fn (blk_list fs ?ino ?nb) ([], fs) = (Ok (), (entries (dir_slots fs d), fs))"
    using scan_read[of "blk_list fs ?ino ?nb" fs "[]"] assms(2) inode_wf_block(1)[OF f(2)] f(1)
    unfolding c by (auto simp: dir_ok_def dir_slots_def blk_list_def)
  then show ?thesis
    using iterBlocks_scan[OF f(1,2) reads_only_read, of "[]"] by (simp add: ReadEntries_def r)
qed

section \<open>Changing one slot of a directory\<close>

text \<open>The callbacks of \<open>tryInsert\<close> and \<open>removeDentry\<close>, over the content of the directory.\<close>

lemma dir_edit:
  assumes inv: "fs_inv fs" and ok: "dir_ok fs d" and p: "disk_part ino = disk_inode fs (unat d)"
    and nb: "nb = nblocks (unat (isize ino))" and new: "length new = 64" "ok_slot new"
  shows "case find (\<lambda>k. Q (slotb (content fs d) k)) [0..<64 * nb] of
      None \<Rightarrow> scan (edit_fn Q new) (blk_list fs ino nb) (f, fs) = (Ok (), (f, fs))
    | Some k \<Rightarrow> \<exists>fs'. scan (edit_fn Q new) (blk_list fs ino nb) (f, fs) = (Ok (), (True, fs')) \<and>
        fs_inv fs' \<and> dir_ok fs' d \<and> content fs' d = put_at (k * 64) new (content fs d) \<and>
        fs_kept d fs fs' \<and> disk_inode fs' (unat d) = disk_inode fs (unat d) \<and> dbitmap fs' = dbitmap fs"
proof (cases "find (\<lambda>k. Q (slotb (content fs d) k)) [0..<64 * nb]")
  case None
  note f = dir_facts[OF inv ok p nb]
  show ?thesis
    using None scan_edit[OF f(1,2) nb new(1), of 0 Q f] by (simp add: f(5) blk_list_def)
next
  case (Some k)
  note f = dir_facts[OF inv ok p nb]
  let ?v = "k div 64" and ?lo = "k mod 64 * 64"
  let ?fs = "set_dblk (unat (blk_at fs ino ?v)) (put_at ?lo new (dblk fs (unat (blk_at fs ino ?v)))) fs"
  have k: "k < 64 * nb" using Some by (auto simp: find_upt_Some)
  have s: "?v < nb" "scan (edit_fn Q new) (blk_list fs ino nb) (f, fs) = (Ok (), (True, ?fs))"
    using Some scan_edit[OF f(1,2) nb new(1), of 0 Q f] by (simp_all add: f(5) blk_list_def)
  have at: "?v * BLOCKSIZE + ?lo = k * 64" unfolding layout using div_mult_mod_eq[of k 64] by linarith
  have lo: "?lo + length new \<le> BLOCKSIZE" using new(1) mod_less_divisor[of 64 k] by (simp add: layout)
  note w = data_write[OF f(1,2) nb s(1) refl lo refl]
  let ?files = "(live fs)(d \<mapsto> ino)"
  have con: "disk_consistent fs ?files"
    by (rule disk_consistent_cong[OF _ inv[unfolded fs_inv_def]]) (use p f(4) in auto)
  have fd: "?files d = Some ino" by simp
  note e = data_edit[OF con fd nb w(2-5)]
  have dj: "disk_inode ?fs j = disk_inode fs j" if "j < INODES" for j
    using e(3) that by (simp add: disk_inode_def)
  have live: "live ?fs = live fs" using dj e(2) by (auto simp: live_def fun_eq_iff)
  have inv': "fs_inv ?fs"
    unfolding fs_inv_def live by (rule disk_consistent_cong[OF _ e(1)]) (use p f(4) in auto)
  have "content ?fs d = file_bytes ?fs ino"
    using file_bytes_disk_part[of ?fs ino] p dj[OF f(3)] by (simp add: content_def)
  also have "\<dots> = raw_bytes ?fs ino nb"
    using length_raw_bytes[of ?fs nb ino] raw_wf(1)[OF _ w(5) nb] e(1)
    by (simp add: file_bytes_def f(6) nblocks_whole disk_consistent_def)
  finally have c: "content ?fs d = put_at (k * 64) new (content fs d)" using w(6) at f(5) by simp
  have kd: "k < length (content fs d) div 64" using k by (simp add: f(7))
  have ok': "dir_ok ?fs d"
    using ok slots_ok_put[OF kd new(1) _ new(2)] slot_bound[OF kd, of 64] new(1)
    by (simp add: dir_ok_def c live f(7))
  have "fs_kept d fs ?fs"
    unfolding fs_kept_def
  proof (intro conjI allI impI)
    fix j assume j: "j \<noteq> d" "live fs j \<noteq> None"
    then have l: "?files j = Some (disk_inode fs (unat j))" "unat j < INODES"
      by (auto simp: live_def split: if_splits)
    show "content ?fs j = content fs j"
      using e(4)[OF j(1) l(1)] dj[OF l(2)] by (simp add: content_def)
  qed (use e(2,5) dj in simp_all)
  then show ?thesis using Some s(2) inv' ok' c dj[OF f(3)] w(3) by auto
qed

text \<open>The slot a search over the content finds is the slot a search over the slots finds.\<close>

definition first_slot :: "(dir_entry option \<Rightarrow> bool) \<Rightarrow> dir_entry option list \<Rightarrow> nat option" where
  "first_slot P xs = find (\<lambda>k. P (xs ! k)) [0..<length xs]"

definition has_name :: "string \<Rightarrow> dir_entry option \<Rightarrow> bool" where
  "has_name n s \<longleftrightarrow> (\<exists>e. s = Some e \<and> Name e = n)"

lemma find_upt_cong: "(\<And>k. k < n \<Longrightarrow> P k = Q k) \<Longrightarrow> find P [0..<n] = find Q [0..<n]"
  by (rule find_cong) auto

lemma first_slot_content:
  assumes "length bs = 64 * n"
  shows "first_slot (\<lambda>s. s = None) (slots_of bs) = find (\<lambda>k. blank (slotb bs k)) [0..<n]"
    "first_slot (has_name nm) (slots_of bs) = find (\<lambda>k. named nm (slotb bs k)) [0..<n]"
  by (auto simp: first_slot_def slots_of_def assms blank_def named_def has_name_def intro!: find_upt_cong)

end
