(* ===== verification/Directory.thy ===== *)
theory Directory
  imports DirSpec
begin

text \<open>
  The contracts of the directory operations: \<open>addDentry\<close> and \<open>removeDentry\<close> refine operations on a
  list of slots (\<open>add_slot\<close>, \<open>remove_slot\<close>), and those are a table of names, the locale
  \<open>name_table\<close>.
\<close>

section \<open>The operations on slots\<close>

definition add_slot :: "dir_entry \<Rightarrow> dir_entry option list \<Rightarrow> dir_entry option list" where
  "add_slot e xs = (case first_slot (\<lambda>s. s = None) xs of
     Some k \<Rightarrow> xs[k := Some e]
   | None \<Rightarrow> xs @ Some e # replicate 63 None)"

definition remove_slot :: "string \<Rightarrow> dir_entry option list \<Rightarrow> dir_entry option list option" where
  "remove_slot name xs = map_option (\<lambda>k. xs[k := None]) (first_slot (has_name name) xs)"

definition full_dir :: "dir_entry option list \<Rightarrow> bool" where
  "full_dir xs \<longleftrightarrow> None \<notin> set xs"

lemma first_slot_None: "first_slot P xs = None \<longleftrightarrow> (\<forall>s \<in> set xs. \<not> P s)"
  by (auto simp: first_slot_def find_None_iff set_conv_nth)

lemma full_dir_iff: "full_dir xs \<longleftrightarrow> first_slot (\<lambda>s. s = None) xs = None"
  unfolding full_dir_def first_slot_None by metis

section \<open>Removing an entry\<close>

lemma dir_inode:
  assumes "fs_inv fs" "dir_ok fs d"
  defines "ino \<equiv> (disk_inode fs (unat d))\<lparr>num := d\<rparr>"
  shows "readInode fs d = Ok ino" "disk_part ino = disk_inode fs (unat d)"
proof -
  show p: "disk_part ino = disk_inode fs (unat d)"
    using disk_part_disk_inode[of fs "unat d"] by (simp add: disk_part_def ino_def)
  note f = dir_facts[OF assms(1,2) p refl]
  show "readInode fs d = Ok ino" using readInode_std[OF f(1,3)] by (simp add: disk_inode_def ino_def)
qed

text \<open>The blocks of a directory are blocks of well-formed slots.\<close>

lemma slots_ok_blocks:
  assumes "\<forall>b \<in> set bs. length (dblk fs (unat b)) = BLOCKSIZE"
    and "slots_ok (concat (map (\<lambda>b. dblk fs (unat b)) bs))"
  shows "\<forall>b \<in> set bs. slots_ok (dblk fs (unat b))"
  using assms
proof (induction bs)
  case (Cons b bs)
  have l: "length (dblk fs (unat b)) = 64 * 64" using Cons.prems(1) by (simp add: layout)
  show ?case using Cons by (simp add: slots_ok_append[OF l])
qed simp

lemma dir_block_facts:
  assumes "fs_inv fs" "dir_ok fs d" "disk_part ino = disk_inode fs (unat d)" "nb = nblocks (unat (isize ino))"
  shows "\<forall>b \<in> set (blk_list fs ino nb). length (dblk fs (unat b)) = BLOCKSIZE \<and> slots_ok (dblk fs (unat b))"
proof -
  note f = dir_facts[OF assms]
  have l: "\<forall>b \<in> set (blk_list fs ino nb). length (dblk fs (unat b)) = BLOCKSIZE"
    using inode_wf_block(1)[OF f(2)] f(1) assms(4) by (auto simp: blk_list_def)
  have "slots_ok (concat (map (\<lambda>b. dblk fs (unat b)) (blk_list fs ino nb)))"
    using assms(2) f(5) by (simp add: dir_ok_def raw_bytes_def)
  then show ?thesis using slots_ok_blocks[OF l] l by blast
qed

lemma iter_edit:
  assumes "fs_inv fs" "dir_ok fs d" "disk_part ino = disk_inode fs (unat d)" "nb = nblocks (unat (isize ino))"
    and "reads_only fn fs"
    and "\<And>b dat st. length dat = BLOCKSIZE \<Longrightarrow> slots_ok dat \<Longrightarrow> fn b dat st = edit_fn Q new b dat st"
  shows "iterBlocks ino fn (f, fs) = scan (edit_fn Q new) (blk_list fs ino nb) (f, fs)"
proof -
  note f = dir_facts[OF assms(1-4)]
  have "scan fn (blk_list fs ino nb) (f, fs) = scan (edit_fn Q new) (blk_list fs ino nb) (f, fs)"
    by (rule scan_cong[OF assms(5)]) (use dir_block_facts[OF assms(1-4)] assms(6) in blast)
  then show ?thesis using iterBlocks_scan[OF f(1,2) assms(5)] assms(4) by simp
qed

lemma reads_only_remove: "reads_only (remove_fn name) fs"
  by (auto simp: reads_only_def remove_fn_def split: option.splits outcome.splits prod.splits)

lemma reads_only_insert: "reads_only (insert_fn enc) fs"
  by (auto simp: reads_only_def insert_fn_def split: option.splits prod.splits)

lemma removeDentry_ok:
  assumes inv: "fs_inv fs" and ok: "dir_ok fs d"
  shows "case remove_slot name (dir_slots fs d) of
      None \<Rightarrow> removeDentry d name fs = (Err ENOENT, fs)
    | Some xs \<Rightarrow> \<exists>fs'. removeDentry d name fs = (Ok (), fs') \<and> fs_inv fs' \<and> dir_ok fs' d \<and>
        dir_slots fs' d = xs \<and> fs_kept d fs fs' \<and> disk_inode fs' (unat d) = disk_inode fs (unat d) \<and>
        dbitmap fs' = dbitmap fs"
proof -
  let ?ino = "(disk_inode fs (unat d))\<lparr>num := d\<rparr>" and ?nb = "nblocks (unat (isize (disk_inode fs (unat d))))"
  note i = dir_inode[OF inv ok]
  have nb: "?nb = nblocks (unat (isize ?ino))" by simp
  note f = dir_facts[OF inv ok i(2) nb]
  have it: "iterBlocks ?ino (remove_fn name) (False, fs) =
      scan (edit_fn (named name) (replicate 64 0)) (blk_list fs ?ino ?nb) (False, fs)"
    by (rule iter_edit[OF inv ok i(2) nb reads_only_remove]) (rule remove_fn_edit)
  note e = dir_edit[OF inv ok i(2) nb _ ok_slot_zero, of "named name" False]
  have s: "first_slot (has_name name) (dir_slots fs d) = find (\<lambda>k. named name (slotb (content fs d) k)) [0..<64 * ?nb]"
    unfolding dir_slots_def by (rule first_slot_content[OF f(7)])
  show ?thesis
  proof (cases "first_slot (has_name name) (dir_slots fs d)")
    case None
    then show ?thesis using e s it i(1) by (simp add: remove_slot_def removeDentry_def)
  next
    case (Some k)
    then obtain fs' where fs': "iterBlocks ?ino (remove_fn name) (False, fs) = (Ok (), (True, fs'))"
      "fs_inv fs'" "dir_ok fs' d" "content fs' d = put_at (k * 64) (replicate 64 0) (content fs d)"
      "fs_kept d fs fs'" "disk_inode fs' (unat d) = disk_inode fs (unat d)" "dbitmap fs' = dbitmap fs"
      using e s it by auto
    have k: "k < length (content fs d) div 64" using Some s by (simp add: f(7) find_upt_Some)
    have "dir_slots fs' d = (dir_slots fs d)[k := None]"
      using slots_of_put[OF k, of "replicate 64 0"] by (simp add: dir_slots_def fs'(4) entry_of_zero)
    then show ?thesis using Some fs' i(1) by (simp add: remove_slot_def removeDentry_def)
  qed
qed

section \<open>Adding an entry\<close>

lemma tryInsert_ok:
  assumes inv: "fs_inv fs" and ok: "dir_ok fs d" and p: "disk_part ino = disk_inode fs (unat d)" and e: "entry_ok e"
  shows "case first_slot (\<lambda>s. s = None) (dir_slots fs d) of
      None \<Rightarrow> tryInsert ino (enc_entry e) fs = (Ok False, fs)
    | Some k \<Rightarrow> \<exists>fs'. tryInsert ino (enc_entry e) fs = (Ok True, fs') \<and> fs_inv fs' \<and> dir_ok fs' d \<and>
        dir_slots fs' d = (dir_slots fs d)[k := Some e] \<and> fs_kept d fs fs' \<and>
        disk_inode fs' (unat d) = disk_inode fs (unat d) \<and> dbitmap fs' = dbitmap fs"
proof -
  let ?nb = "nblocks (unat (isize ino))"
  note f = dir_facts[OF inv ok p refl]
  have it: "iterBlocks ino (insert_fn (enc_entry e)) (False, fs) =
      scan (edit_fn blank (enc_entry e)) (blk_list fs ino ?nb) (False, fs)"
    by (rule iter_edit[OF inv ok p refl reads_only_insert]) (rule insert_fn_edit)
  note d = dir_edit[OF inv ok p refl enc_entry_fields(1)[OF e] ok_slot_enc[OF e], of blank False]
  have s: "first_slot (\<lambda>s. s = None) (dir_slots fs d) = find (\<lambda>k. blank (slotb (content fs d) k)) [0..<64 * ?nb]"
    unfolding dir_slots_def by (rule first_slot_content[OF f(7)])
  show ?thesis
  proof (cases "first_slot (\<lambda>s. s = None) (dir_slots fs d)")
    case None
    then show ?thesis using d s it by (simp add: tryInsert_def)
  next
    case (Some k)
    then obtain fs' where fs': "iterBlocks ino (insert_fn (enc_entry e)) (False, fs) = (Ok (), (True, fs'))"
      "fs_inv fs'" "dir_ok fs' d" "content fs' d = put_at (k * 64) (enc_entry e) (content fs d)"
      "fs_kept d fs fs'" "disk_inode fs' (unat d) = disk_inode fs (unat d)" "dbitmap fs' = dbitmap fs"
      using d s it by auto
    have k: "k < length (content fs d) div 64" using Some s by (simp add: f(7) find_upt_Some)
    have "dir_slots fs' d = (dir_slots fs d)[k := Some e]"
      using slots_of_put[OF k enc_entry_fields(1)[OF e]] by (simp add: dir_slots_def fs'(4) entry_of_enc[OF e])
    then show ?thesis using Some fs' by (simp add: tryInsert_def)
  qed
qed

text \<open>A directory with room: the first blank slot gets the entry.\<close>

lemma addDentry_room:
  assumes inv: "fs_inv fs" and ok: "dir_ok fs d" and e: "entry_ok e"
    and k: "first_slot (\<lambda>s. s = None) (dir_slots fs d) = Some k"
  obtains fs' where "addDentry d e fs = (Ok (), fs')" "fs_inv fs'" "dir_ok fs' d"
    "dir_slots fs' d = (dir_slots fs d)[k := Some e]" "fs_kept d fs fs'"
    "disk_inode fs' (unat d) = disk_inode fs (unat d)" "dbitmap fs' = dbitmap fs"
proof -
  note i = dir_inode[OF inv ok]
  have "\<exists>fs'. tryInsert ((disk_inode fs (unat d))\<lparr>num := d\<rparr>) (enc_entry e) fs = (Ok True, fs') \<and> fs_inv fs' \<and>
      dir_ok fs' d \<and> dir_slots fs' d = (dir_slots fs d)[k := Some e] \<and> fs_kept d fs fs' \<and>
      disk_inode fs' (unat d) = disk_inode fs (unat d) \<and> dbitmap fs' = dbitmap fs"
    using tryInsert_ok[OF inv ok i(2) e] k by simp
  then show ?thesis using that i(1) entry_ok_encode[OF e] by (auto simp: addDentry_def)
qed

text \<open>A directory without: it grows by a block, which holds what the block held before.\<close>

text \<open>A file of whole blocks that grows by one: it keeps its bytes and takes over those of a free block.\<close>

lemma one_more_block:
  assumes con: "disk_consistent fs files" and i: "files d = Some ino" and run: "Falloc ino sz fs = (Ok (), (ino', fs1))"
    and old: "unat (isize ino) = nb * BLOCKSIZE" and new: "unat sz = Suc nb * BLOCKSIZE" "unat sz \<le> 2 ^ 32 - BLOCKSIZE"
  shows "unat (blk_at fs1 ino' nb) \<in> free_bits (dbitmap fs)"
    "file_bytes fs1 ino' = raw_bytes fs ino nb @ dblk fs (unat (blk_at fs1 ino' nb))"
proof -
  let ?b = "unat (blk_at fs1 ino' nb)"
  note c = Falloc_consistent[OF con i new(2) run]
  have n: "nblocks (unat (isize ino)) = nb" "nblocks (unat sz) = Suc nb" by (simp_all only: old new(1) nblocks_whole)
  have wf: "inode_wf fs ino" "inode_wf fs1 ino'" using consistent_wf[OF con i] consistent_wf[OF c(1), of d] by simp_all
  have std: "std_fs fs" "std_fs fs1" using con c(1) by (simp_all add: disk_consistent_def)
  have isz: "unat (isize ino') = Suc nb * BLOCKSIZE" using c(2) new(1) by simp
  show free: "?b \<in> free_bits (dbitmap fs)" using c(7)[of nb] n by simp
  have bl: "\<forall>v < Suc nb. unat (blk_at fs1 ino' v) < BLOCKS"
    using inode_wf_block(1)[OF wf(2)] isz nblocks_whole[of "Suc nb"] by simp
  have "blk_at fs1 ino' nb \<notin> set (table_list ino' (Suc nb))"
    using owned_disjoint(1)[OF wf(2) refl, of nb] isz nblocks_whole[of "Suc nb"] by simp
  then have "?b \<notin> unat ` set (table_list ino' (Suc nb))" by (auto simp flip: word_unat_eq_iff)
  then have same: "dblk fs1 ?b = dblk fs ?b" using c(5) n by (simp add: blocks_frame_def)
  have t: "take (nb * BLOCKSIZE) (file_bytes fs1 ino') = take (nb * BLOCKSIZE) (file_bytes fs ino)"
    by (rule Falloc_content[OF con i new(2) run]) (simp_all add: old new(1))
  have "take (nb * BLOCKSIZE) (raw_bytes fs1 ino' nb) = take (nb * BLOCKSIZE) (raw_bytes fs ino nb)"
    using t file_bytes_take[OF std(1) wf(1), of "nb * BLOCKSIZE"] file_bytes_take[OF std(2) wf(2), of "nb * BLOCKSIZE"]
    by (simp add: old isz nblocks_whole)
  then have raw: "raw_bytes fs1 ino' nb = raw_bytes fs ino nb"
    using raw_wf(1)[OF std(1) wf(1) n(1)[symmetric]] length_raw_bytes[OF std(2), of nb ino'] bl by simp
  have "file_bytes fs1 ino' = raw_bytes fs1 ino' (Suc nb)"
    using length_raw_bytes[OF std(2) bl] by (simp only: file_bytes_def isz nblocks_whole take_all)
  also have "\<dots> = raw_bytes fs ino nb @ dblk fs ?b"
    using raw same by (simp add: raw_bytes_def blk_list_def)
  finally show "file_bytes fs1 ino' = raw_bytes fs ino nb @ dblk fs ?b" .
qed

lemma grow_dir:
  assumes inv: "fs_inv fs" and ok: "dir_ok fs d" and p: "disk_part ino = disk_inode fs (unat d)"
    and nb: "nb = nblocks (unat (isize ino))" and room: "nb < max_blocks"
    and space: "needed_blocks nb (Suc nb) \<le> card (free_bits (dbitmap fs))"
  obtains ino' fs1 fs2 b where "Falloc ino (isize ino + of_nat BLOCKSIZE) fs = (Ok (), (ino', fs1))"
    "writeInode fs1 ino' d = (fs2, None)" "fs_inv fs2" "disk_part ino' = disk_inode fs2 (unat d)"
    "b \<in> free_bits (dbitmap fs)" "content fs2 d = content fs d @ dblk fs b" "fs_kept d fs fs2"
    "live fs2 d \<noteq> None" "blocks_only ino ino'"
    "card (free_bits (dbitmap fs)) = card (free_bits (dbitmap fs2)) + needed_blocks nb (Suc nb)"
proof -
  note f = dir_facts[OF inv ok p nb]
  let ?sz = "isize ino + of_nat BLOCKSIZE" and ?files = "(live fs)(d \<mapsto> ino)"
  have sz: "unat ?sz = Suc nb * BLOCKSIZE"
    using f(6) room by (simp add: unat_word_ariths layout)
  have small: "unat ?sz \<le> 2 ^ 32 - BLOCKSIZE" using room unfolding sz by (simp add: layout)
  have need: "nblocks (unat ?sz) = Suc nb" by (simp only: sz nblocks_whole)
  have con: "disk_consistent fs ?files"
    by (rule disk_consistent_cong[OF _ inv[unfolded fs_inv_def]]) (use p f(4) in auto)
  have fd: "?files d = Some ino" by simp
  have bm: "data_bm (dbitmap fs)" using con by (simp add: disk_consistent_def)
  obtain ino' fs1 where run: "Falloc ino ?sz fs = (Ok (), (ino', fs1))"
  proof (rule Falloc_grow[OF f(1,2) bm nb need[symmetric]])
    show "nb < Suc nb" "Suc nb \<le> max_blocks" "needed_blocks nb (Suc nb) \<le> card (free_bits (dbitmap fs))"
      using room space by simp_all
  qed (rule that)
  note c = Falloc_consistent[OF con fd small run]
  have con1: "disk_consistent fs1 ((live fs)(d \<mapsto> ino'))" using c(1) unfolding fun_upd_upd .
  have dj: "disk_inode fs1 j = disk_inode fs j" if "j < INODES" for j
    using c(5) that by (simp add: blocks_frame_def disk_inode_def)
  have ib: "ibitmap fs1 = ibitmap fs" using c(5) by (simp add: blocks_frame_def)
  have live1: "live fs1 = live fs" using dj ib by (auto simp: live_def)
  have wf': "inode_wf fs1 ino'" using consistent_wf[OF con1, of d] by simp
  have std1: "std_fs fs1" using con1 by (simp add: disk_consistent_def)
  have used: "live fs1 d \<noteq> None" using f(4) live1 by simp
  have shape: "inode_shape ino'" using wf' by (simp add: inode_wf_def)
  have oth: "\<And>j. j \<noteq> d \<Longrightarrow> live fs j = live fs1 j" by (simp add: live1)
  note w = writeInode_live[OF con1 f(3) shape oth used]
  let ?fs2 = "set_inode_bytes (unat d) (encode_inode ino') fs1" and ?b = "unat (blk_at fs1 ino' nb)"
  note b = one_more_block[OF con fd run f(6) sz small]
  have ct: "content ?fs2 d = content fs d @ dblk fs ?b" using w(3,4) b(2) by (simp add: content_def f(5)[unfolded content_def])
  show ?thesis
  proof (rule that[OF run w(1,2) w(3)[symmetric] b(1) ct])
    have k: "free_kept fs fs1 \<and> card (free_bits (dbitmap fs)) = card (free_bits (dbitmap fs1)) + needed_blocks nb (Suc nb)"
      using c(8) unfolding need by (simp flip: nb)
    have "dbitmap ?fs2 = dbitmap fs1" using std1 f(3) shape by (simp add: view)
    then show "card (free_bits (dbitmap fs)) = card (free_bits (dbitmap ?fs2)) + needed_blocks nb (Suc nb)"
      using k by simp
    show "fs_kept d fs ?fs2"
      unfolding fs_kept_def
    proof (intro conjI allI impI)
      show "free_kept fs ?fs2" using k free_kept_trans[OF _ w(7)] by blast
    next
      fix j assume j: "j \<noteq> d" "live fs j \<noteq> None"
      then have l: "?files j = Some (disk_inode fs (unat j))" "unat j < INODES" by (auto simp: live_def split: if_splits)
      have "file_bytes fs1 (disk_inode fs (unat j)) = file_bytes fs (disk_inode fs (unat j))"
        using c(6)[OF j(1) l(1)] by (intro file_bytes_same) auto
      then show "content ?fs2 j = content fs j"
        using w(4,6) dj[OF l(2)] j(1) l(2) by (simp add: content_def word_unat_eq_iff)
    next
      fix j :: u32 assume "j \<noteq> d" "unat j < INODES"
      then show "disk_inode ?fs2 (unat j) = disk_inode fs (unat j)"
        using w(6) dj by (simp add: word_unat_eq_iff)
    qed (use w(5) ib in simp)
    have "live ?fs2 d = Some (disk_inode ?fs2 (unat d))"
      using f(4) w(5) ib unfolding live_Some by simp
    then show "live ?fs2 d \<noteq> None" by simp
    show "blocks_only ino ino'" by (rule c)
  qed
qed

lemma addDentry_full:
  assumes inv: "fs_inv fs" and ok: "dir_ok fs d" and e: "entry_ok e" and full: "full_dir (dir_slots fs d)"
    and room: "length (content fs d) < max_blocks * BLOCKSIZE"
    and space: "needed_blocks (nblocks (length (content fs d))) (Suc (nblocks (length (content fs d)))) \<le>
      card (free_bits (dbitmap fs))"
    and free: "\<forall>b \<in> free_bits (dbitmap fs). slots_ok (dblk fs b) \<and> \<not> full_dir (slots_of (dblk fs b))"
  obtains fs' b k where "addDentry d e fs = (Ok (), fs')" "fs_inv fs'" "dir_ok fs' d" "fs_kept d fs fs'"
    "b \<in> free_bits (dbitmap fs)" "first_slot (\<lambda>s. s = None) (slots_of (dblk fs b)) = Some k"
    "dir_slots fs' d = dir_slots fs d @ (slots_of (dblk fs b))[k := Some e]"
    "same_meta (disk_inode fs' (unat d)) (disk_inode fs (unat d))"
    "card (free_bits (dbitmap fs)) = card (free_bits (dbitmap fs')) +
      needed_blocks (nblocks (length (content fs d))) (Suc (nblocks (length (content fs d))))"
proof -
  let ?ino = "(disk_inode fs (unat d))\<lparr>num := d\<rparr>" and ?nb = "nblocks (unat (isize (disk_inode fs (unat d))))"
  note i = dir_inode[OF inv ok]
  have nb: "?nb = nblocks (unat (isize ?ino))" by simp
  note f = dir_facts[OF inv ok i(2) nb]
  have len: "length (content fs d) = ?nb * BLOCKSIZE" using f(7) by (simp add: layout)
  have r: "?nb < max_blocks" using room len by (simp add: layout)
  have sp: "needed_blocks ?nb (Suc ?nb) \<le> card (free_bits (dbitmap fs))"
    using space unfolding len nblocks_whole .
  have none: "tryInsert ?ino (enc_entry e) fs = (Ok False, fs)"
    using tryInsert_ok[OF inv ok i(2) e] full by (simp add: full_dir_iff)
  obtain ino' fs1 fs2 b where g: "Falloc ?ino (isize ?ino + of_nat BLOCKSIZE) fs = (Ok (), (ino', fs1))"
    "writeInode fs1 ino' d = (fs2, None)" "fs_inv fs2" "disk_part ino' = disk_inode fs2 (unat d)"
    "b \<in> free_bits (dbitmap fs)" "content fs2 d = content fs d @ dblk fs b" "fs_kept d fs fs2"
    "live fs2 d \<noteq> None" "blocks_only ?ino ino'"
    "card (free_bits (dbitmap fs)) = card (free_bits (dbitmap fs2)) + needed_blocks ?nb (Suc ?nb)"
    by (rule grow_dir[OF inv ok i(2) nb r sp])
  have bm: "data_bm (dbitmap fs)" using inv by (simp add: fs_inv_def disk_consistent_def)
  have lb: "length (dblk fs b) = BLOCKSIZE" using g(5) bm f(1) by (auto simp: data_bm_def)
  have sl: "dir_slots fs2 d = dir_slots fs d @ slots_of (dblk fs b)"
    unfolding dir_slots_def g(6) by (rule slots_of_append[OF f(7)])
  have ok2: "dir_ok fs2 d"
    using ok g(5,8) free lb unfolding dir_ok_def g(6) slots_ok_append[OF f(7)] by (auto simp: mod_add_eq)
  obtain k where k: "first_slot (\<lambda>s. s = None) (slots_of (dblk fs b)) = Some k"
    using free g(5) by (auto simp: full_dir_iff)
  have fk: "first_slot (\<lambda>s. s = None) (dir_slots fs2 d) = Some (length (dir_slots fs d) + k)"
    using full k unfolding sl by (auto simp: first_slot_def full_dir_def find_upt_Some nth_append in_set_conv_nth)
  have "\<exists>fs'. tryInsert ino' (enc_entry e) fs2 = (Ok True, fs') \<and> fs_inv fs' \<and> dir_ok fs' d \<and>
      dir_slots fs' d = (dir_slots fs2 d)[length (dir_slots fs d) + k := Some e] \<and> fs_kept d fs2 fs' \<and>
      disk_inode fs' (unat d) = disk_inode fs2 (unat d) \<and> dbitmap fs' = dbitmap fs2"
    using tryInsert_ok[OF g(3) ok2 g(4) e] fk by auto
  then obtain fs' where fs': "tryInsert ino' (enc_entry e) fs2 = (Ok True, fs')" "fs_inv fs'" "dir_ok fs' d"
    "dir_slots fs' d = (dir_slots fs2 d)[length (dir_slots fs d) + k := Some e]" "fs_kept d fs2 fs'"
    "disk_inode fs' (unat d) = disk_inode fs2 (unat d)" "dbitmap fs' = dbitmap fs2"
    by blast
  show ?thesis
  proof (rule that[OF _ fs'(2,3) _ g(5) k])
    show "addDentry d e fs = (Ok (), fs')"
      using i(1) entry_ok_encode[OF e] none g(1,2) fs'(1) by (simp add: addDentry_def of_err_def)
    show "fs_kept d fs fs'" by (rule fs_kept_trans[OF g(7) fs'(5)])
    show "dir_slots fs' d = dir_slots fs d @ (slots_of (dblk fs b))[k := Some e]"
      by (simp add: fs'(4) sl list_update_append)
    show "same_meta (disk_inode fs' (unat d)) (disk_inode fs (unat d))"
      using g(9) by (simp add: fs'(6) g(4)[symmetric] same_meta_def blocks_only_def disk_part_def)
    show "card (free_bits (dbitmap fs)) = card (free_bits (dbitmap fs')) +
      needed_blocks (nblocks (length (content fs d))) (Suc (nblocks (length (content fs d))))"
      using g(10) by (simp add: fs'(7) len nblocks_whole)
  qed
qed

text \<open>Where the directory has room or the free blocks hold zeros, \<open>addDentry\<close> is \<open>add_slot\<close>.\<close>

definition free_zero :: "filesystem \<Rightarrow> bool" where
  "free_zero fs \<longleftrightarrow> (\<forall>b \<in> free_bits (dbitmap fs). dblk fs b = zero_block)"

lemma zero_block_slots: "slots_of zero_block = replicate 64 None" "slots_ok zero_block"
proof -
  have l: "length zero_block = 4096" by (simp add: zero_block_def layout)
  have s: "slotb zero_block k = replicate 64 0" if "k < 64" for k
  proof -
    have "k * 64 + 64 \<le> 4096" using that by simp
    then show ?thesis by (simp add: slotb_def slice_def zero_block_def layout)
  qed
  show "slots_of zero_block = replicate 64 None"
    by (intro nth_equalityI) (simp_all add: slots_of_def s entry_of_zero layout)
  show "slots_ok zero_block" by (simp add: slots_ok_def s ok_slot_zero layout)
qed

text \<open>The blocks an entry costs, and that there are as many, and that the directory may still grow.\<close>

definition dir_cost :: "filesystem \<Rightarrow> u32 \<Rightarrow> nat" where
  "dir_cost fs d = (if full_dir (dir_slots fs d)
     then needed_blocks (nblocks (length (content fs d))) (Suc (nblocks (length (content fs d)))) else 0)"

definition dir_room :: "filesystem \<Rightarrow> u32 \<Rightarrow> bool" where
  "dir_room fs d \<longleftrightarrow> (full_dir (dir_slots fs d) \<longrightarrow> length (content fs d) < max_blocks * BLOCKSIZE) \<and>
     dir_cost fs d \<le> card (free_bits (dbitmap fs))"

lemma addDentry_ok:
  assumes inv: "fs_inv fs" and ok: "dir_ok fs d" and e: "entry_ok e" and room: "dir_room fs d"
    and z: "full_dir (dir_slots fs d) \<Longrightarrow> free_zero fs"
  obtains fs' where "addDentry d e fs = (Ok (), fs')" "fs_inv fs'" "dir_ok fs' d"
    "dir_slots fs' d = add_slot e (dir_slots fs d)" "fs_kept d fs fs'"
    "same_meta (disk_inode fs' (unat d)) (disk_inode fs (unat d))"
    "card (free_bits (dbitmap fs)) = card (free_bits (dbitmap fs')) + dir_cost fs d"
proof (cases "first_slot (\<lambda>s. s = None) (dir_slots fs d)")
  case (Some k)
  obtain fs' where "addDentry d e fs = (Ok (), fs')" "fs_inv fs'" "dir_ok fs' d"
    "dir_slots fs' d = (dir_slots fs d)[k := Some e]" "fs_kept d fs fs'"
    "disk_inode fs' (unat d) = disk_inode fs (unat d)" "dbitmap fs' = dbitmap fs"
    by (rule addDentry_room[OF inv ok e Some])
  then show ?thesis
    by (intro that[of fs']) (simp_all add: add_slot_def Some dir_cost_def full_dir_iff same_meta_def)
next
  case None
  then have full: "full_dir (dir_slots fs d)" by (simp add: full_dir_iff)
  have r: "length (content fs d) < max_blocks * BLOCKSIZE"
    "needed_blocks (nblocks (length (content fs d))) (Suc (nblocks (length (content fs d)))) \<le> card (free_bits (dbitmap fs))"
    using room full by (simp_all add: dir_room_def dir_cost_def)
  have fr: "\<forall>b \<in> free_bits (dbitmap fs). slots_ok (dblk fs b) \<and> \<not> full_dir (slots_of (dblk fs b))"
    using z[OF full] by (simp add: free_zero_def zero_block_slots full_dir_def)
  obtain fs' b k where a: "addDentry d e fs = (Ok (), fs')" "fs_inv fs'" "dir_ok fs' d" "fs_kept d fs fs'"
    "b \<in> free_bits (dbitmap fs)" "first_slot (\<lambda>s. s = None) (slots_of (dblk fs b)) = Some k"
    "dir_slots fs' d = dir_slots fs d @ (slots_of (dblk fs b))[k := Some e]"
    "same_meta (disk_inode fs' (unat d)) (disk_inode fs (unat d))"
    "card (free_bits (dbitmap fs)) = card (free_bits (dbitmap fs')) +
      needed_blocks (nblocks (length (content fs d))) (Suc (nblocks (length (content fs d))))"
    by (rule addDentry_full[OF inv ok e full r fr])
  have b: "slots_of (dblk fs b) = replicate 64 None" using z[OF full] a(5) by (simp add: free_zero_def zero_block_slots)
  have "first_slot (\<lambda>s. s = None) (replicate 64 (None :: dir_entry option)) = Some 0"
    by (auto simp: first_slot_def find_upt_Some)
  then have "k = 0" using a(6) b by simp
  then have "dir_slots fs' d = add_slot e (dir_slots fs d)"
    using a(7) by (simp add: b add_slot_def None numeral_eq_Suc)
  with a full show ?thesis by (intro that) (simp_all add: dir_cost_def)
qed

lemma addDentry_bad_name:
  assumes "fs_inv fs" "dir_ok fs d" "\<not> entry_ok e"
  shows "\<exists>err. addDentry d e fs = (Err err, fs)"
  using dir_inode[OF assms(1,2)] encode_errors[OF assms(3)] by (auto simp: addDentry_def)

section \<open>Tables of names\<close>

text \<open>
  What a path lookup relies on, whatever holds the names: an entry added under a new name is found
  under it, a removed name is gone, and the other names keep their numbers.
\<close>

locale name_table =
  fixes ok :: "'d \<Rightarrow> bool"
    and names :: "'d \<Rightarrow> string \<Rightarrow> u32 option"
    and add :: "dir_entry \<Rightarrow> 'd \<Rightarrow> 'd"
    and del :: "string \<Rightarrow> 'd \<Rightarrow> 'd option"
  assumes add_ok: "ok d \<Longrightarrow> names d (Name e) = None \<Longrightarrow> ok (add e d)"
    and add_names: "ok d \<Longrightarrow> names d (Name e) = None \<Longrightarrow> names (add e d) = (names d)(Name e \<mapsto> Inum e)"
    and del_None: "ok d \<Longrightarrow> del n d = None \<longleftrightarrow> names d n = None"
    and del_ok: "ok d \<Longrightarrow> del n d = Some d' \<Longrightarrow> ok d'"
    and del_names: "ok d \<Longrightarrow> del n d = Some d' \<Longrightarrow> names d' = (names d)(n := None)"
begin

lemma del_add:
  assumes "ok d" "names d (Name e) = None"
  obtains d' where "del (Name e) (add e d) = Some d'" "ok d'" "names d' = names d"
proof -
  note a = add_ok[OF assms] add_names[OF assms]
  obtain d' where d: "del (Name e) (add e d) = Some d'"
    using del_None[OF a(1), of "Name e"] a(2) by (cases "del (Name e) (add e d)") auto
  have "names d' = names d" using del_names[OF a(1) d] a(2) assms(2) by (auto simp: fun_eq_iff)
  with d del_ok[OF a(1) d] show ?thesis by (rule that)
qed

lemma add_add:
  assumes "ok d" "names d (Name e) = None" "names d (Name e') = None" "Name e \<noteq> Name e'"
  shows "ok (add e' (add e d))" "names (add e' (add e d)) = names (add e (add e' d))"
proof -
  have n: "names (add e d) (Name e') = None" "names (add e' d) (Name e) = None"
    using assms add_names by auto
  show "ok (add e' (add e d))" using assms n add_ok by blast
  show "names (add e' (add e d)) = names (add e (add e' d))"
    using add_names[OF add_ok[OF assms(1,2)] n(1)] add_names[OF add_ok[OF assms(1,3)] n(2)]
      add_names[OF assms(1,2)] add_names[OF assms(1,3)] assms(4)
    by (auto simp: fun_eq_iff)
qed

lemma del_twice: "ok d \<Longrightarrow> del n d = Some d' \<Longrightarrow> del n d' = None"
  using del_None[OF del_ok] del_names by simp

end

text \<open>
  The slots of a directory are such a table. Names are unique as long as nothing adds a name
  twice, which is up to the callers of \<open>addDentry\<close>; the number of a name is that of its first entry,
  the one a listing shows first.
\<close>

definition uniq_names :: "dir_entry option list \<Rightarrow> bool" where
  "uniq_names xs \<longleftrightarrow> (\<forall>j k a b. j < length xs \<longrightarrow> k < length xs \<longrightarrow> xs ! j = Some a \<longrightarrow> xs ! k = Some b \<longrightarrow>
     Name a = Name b \<longrightarrow> j = k)"

lemma uniq_namesD:
  "uniq_names xs \<Longrightarrow> i < length xs \<Longrightarrow> j < length xs \<Longrightarrow> xs ! i = Some a \<Longrightarrow> xs ! j = Some b \<Longrightarrow>
   Name a = Name b \<Longrightarrow> i = j"
  unfolding uniq_names_def by blast

definition lookup :: "dir_entry list \<Rightarrow> string \<Rightarrow> u32 option" where
  "lookup es n = map_option Inum (find (\<lambda>e. Name e = n) es)"

definition slot_names :: "dir_entry option list \<Rightarrow> string \<Rightarrow> u32 option" where
  "slot_names xs = lookup (entries xs)"

lemma find_Some_unique:
  assumes "\<And>x y. x \<in> set xs \<Longrightarrow> y \<in> set xs \<Longrightarrow> P x \<Longrightarrow> P y \<Longrightarrow> x = y"
  shows "find P xs = Some x \<longleftrightarrow> x \<in> set xs \<and> P x"
  using assms by (induction xs) auto

lemma slot_names_Some:
  assumes "uniq_names xs"
  shows "slot_names xs n = Some i \<longleftrightarrow> (\<exists>e. Some e \<in> set xs \<and> Name e = n \<and> Inum e = i)"
proof -
  have u: "a = b" if "a \<in> set (entries xs)" "b \<in> set (entries xs)" "Name a = n" "Name b = n" for a b
  proof -
    have "Some a \<in> set xs" "Some b \<in> set xs" using that(1,2) by (simp_all add: in_entries)
    then obtain j k where "j < length xs" "xs ! j = Some a" "k < length xs" "xs ! k = Some b"
      by (metis in_set_conv_nth)
    with assms that(3,4) have "j = k" unfolding uniq_names_def by metis
    with \<open>xs ! j = Some a\<close> \<open>xs ! k = Some b\<close> show ?thesis by simp
  qed
  have f: "find (\<lambda>e. Name e = n) (entries xs) = Some e \<longleftrightarrow> Some e \<in> set xs \<and> Name e = n" for e
    using find_Some_unique[of "entries xs" "\<lambda>e. Name e = n" e] u by (auto simp: in_entries)
  show ?thesis by (auto simp: slot_names_def lookup_def f)
qed

lemma slot_names_None: "slot_names xs n = None \<longleftrightarrow> (\<forall>e. Some e \<in> set xs \<longrightarrow> Name e \<noteq> n)"
  by (auto simp: slot_names_def lookup_def find_None_iff in_entries)

lemma slot_names_eqI:
  assumes "uniq_names xs" "\<And>n i. m n = Some i \<longleftrightarrow> (\<exists>e. Some e \<in> set xs \<and> Name e = n \<and> Inum e = i)"
  shows "slot_names xs = m"
proof (rule ext)
  fix n show "slot_names xs n = m n"
    using slot_names_Some[OF assms(1), of n] assms(2)[of n] by (metis option.exhaust)
qed

lemma add_slot_update:
  obtains ys k where "add_slot e xs = ys[k := Some e]" "k < length ys" "ys ! k = None"
    "\<And>a. Some a \<in> set ys \<longleftrightarrow> Some a \<in> set xs" "uniq_names xs \<Longrightarrow> uniq_names ys"
proof (cases "first_slot (\<lambda>s. s = None) xs")
  case (Some k)
  then have "k < length xs" "xs ! k = None" by (auto simp: first_slot_def find_upt_Some)
  then show ?thesis using that[of xs k] Some by (simp add: add_slot_def)
next
  case None
  let ?ys = "xs @ replicate 64 None"
  have "add_slot e xs = ?ys[length xs := Some e]"
    by (simp add: add_slot_def None list_update_append numeral_eq_Suc)
  moreover have "uniq_names ?ys" if "uniq_names xs"
    using that unfolding uniq_names_def by (auto simp: nth_append split: if_splits)
  ultimately show ?thesis using that[of ?ys "length xs"] by (simp add: nth_append)
qed

lemma in_set_update: "k < length ys \<Longrightarrow> x \<in> set (ys[k := y]) \<longleftrightarrow> x = y \<or> (\<exists>j < length ys. j \<noteq> k \<and> ys ! j = x)"
  by (auto simp: in_set_conv_nth nth_list_update)

lemma uniq_update:
  assumes "uniq_names ys" "k < length ys" "ys ! k = None" "\<forall>a. Some a \<in> set ys \<longrightarrow> Name a \<noteq> Name e"
  shows "uniq_names (ys[k := Some e])" "Some a \<in> set (ys[k := Some e]) \<longleftrightarrow> a = e \<or> Some a \<in> set ys"
proof -
  have n: "Name a \<noteq> Name e" if "j < length ys" "ys ! j = Some a" for j a
    using that assms(4) by (metis nth_mem)
  show "uniq_names (ys[k := Some e])"
    unfolding uniq_names_def
  proof (intro allI impI)
    fix i j a b assume s: "i < length (ys[k := Some e])" "j < length (ys[k := Some e])"
      "ys[k := Some e] ! i = Some a" "ys[k := Some e] ! j = Some b" "Name a = Name b"
    show "i = j"
    proof (cases "i = k \<or> j = k")
      case True
      then show ?thesis using s by (auto simp: nth_list_update dest: n split: if_splits)
    next
      case False
      then show ?thesis using s uniq_namesD[OF assms(1)] by simp
    qed
  qed
  show "Some a \<in> set (ys[k := Some e]) \<longleftrightarrow> a = e \<or> Some a \<in> set ys"
    unfolding in_set_update[OF assms(2)] using assms(3) by (metis in_set_conv_nth option.inject option.simps(3))
qed

lemma uniq_blank:
  assumes "uniq_names xs" "first_slot (has_name n) xs = Some k"
  shows "uniq_names (xs[k := None])" "Some a \<in> set (xs[k := None]) \<longleftrightarrow> Some a \<in> set xs \<and> Name a \<noteq> n"
proof -
  obtain b where b: "k < length xs" "xs ! k = Some b" "Name b = n"
    using assms(2) by (auto simp: first_slot_def find_upt_Some has_name_def)
  have other: "Name c \<noteq> n" if "j < length xs" "j \<noteq> k" "xs ! j = Some c" for j c
    using assms(1) b that unfolding uniq_names_def by metis
  show "uniq_names (xs[k := None])"
    unfolding uniq_names_def
  proof (intro allI impI)
    fix i j a c assume s: "i < length (xs[k := None])" "j < length (xs[k := None])"
      "xs[k := None] ! i = Some a" "xs[k := None] ! j = Some c" "Name a = Name c"
    then have "i \<noteq> k" "j \<noteq> k" by auto
    then show "i = j" using s uniq_namesD[OF assms(1)] by simp
  qed
  show "Some a \<in> set (xs[k := None]) \<longleftrightarrow> Some a \<in> set xs \<and> Name a \<noteq> n"
    unfolding in_set_update[OF b(1)] using b(2,3) other by (metis in_set_conv_nth option.inject option.simps(3))
qed

interpretation dir_table: name_table uniq_names slot_names add_slot remove_slot
proof unfold_locales
  fix xs :: "dir_entry option list" and e :: dir_entry assume u: "uniq_names xs" and new: "slot_names xs (Name e) = None"
  obtain ys k where a: "add_slot e xs = ys[k := Some e]" "k < length ys" "ys ! k = None"
    "\<And>a. Some a \<in> set ys \<longleftrightarrow> Some a \<in> set xs" "uniq_names xs \<Longrightarrow> uniq_names ys"
    by (rule add_slot_update[of e xs]) (rule that; assumption)
  have nn: "\<forall>a. Some a \<in> set ys \<longrightarrow> Name a \<noteq> Name e" using new a(4) by (simp add: slot_names_None)
  note up = uniq_update[OF a(5)[OF u] a(2,3) nn]
  show "uniq_names (add_slot e xs)" using up(1) a(1) by simp
  show "slot_names (add_slot e xs) = (slot_names xs)(Name e \<mapsto> Inum e)"
    unfolding a(1) using nn
    by (intro slot_names_eqI up(1)) (auto simp: up(2) a(4) slot_names_Some[OF u])
next
  fix xs :: "dir_entry option list" and n
  show "remove_slot n xs = None \<longleftrightarrow> slot_names xs n = None"
    by (auto simp: remove_slot_def first_slot_None slot_names_None has_name_def)
next
  fix xs xs' :: "dir_entry option list" and n assume u: "uniq_names xs" and r: "remove_slot n xs = Some xs'"
  obtain k where k: "first_slot (has_name n) xs = Some k" "xs' = xs[k := None]"
    using r by (auto simp: remove_slot_def)
  note b = uniq_blank[OF u k(1)]
  show "uniq_names xs'" using b(1) k(2) by simp
  show "slot_names xs' = (slot_names xs)(n := None)"
    unfolding k(2) by (intro slot_names_eqI b(1)) (auto simp: b(2) slot_names_Some[OF u])
qed

end
