(* ===== verification/GoPath.thy ===== *)
theory GoPath
  imports GoLib
begin

text \<open>
  The parts of Go's packages \<open>strings\<close> and \<open>path\<close> the kernel uses on file names: \<open>Split\<close>,
  \<open>path.Clean\<close>, \<open>path.Join\<close>, \<open>path.Dir\<close>, \<open>path.Base\<close>. The lemmas are about cleaned absolute paths
  (\<open>abs_path cs\<close>): they are fixed points of \<open>Clean\<close>, splitting one gives its components back, and \<open>Dir\<close>
  and \<open>Base\<close> are the first components and the last.
\<close>

section \<open>Definitions\<close>

fun split_on :: "char \<Rightarrow> string \<Rightarrow> string list" where
  "split_on c [] = [[]]"
| "split_on c (x # xs) = (if x = c then [] # split_on c xs
     else (x # hd (split_on c xs)) # tl (split_on c xs))"

fun join_with :: "char \<Rightarrow> string list \<Rightarrow> string" where
  "join_with c [] = []"
| "join_with c [s] = s"
| "join_with c (s # t # ts) = s @ c # join_with c (t # ts)"

text \<open>
  \<open>path.Clean\<close>: empty and \<open>.\<close> elements go, \<open>..\<close> takes away the element before it, and a \<open>..\<close> with
  nothing before it goes if the path is rooted. The elements kept so far are a stack.
\<close>

definition clean_step :: "bool \<Rightarrow> string list \<Rightarrow> string \<Rightarrow> string list" where
  "clean_step rooted st c =
     (if c = [] \<or> c = ''.'' then st
      else if c = ''..'' then
        if st \<noteq> [] \<and> hd st \<noteq> ''..'' then tl st else if rooted then st else c # st
      else c # st)"

definition path_clean :: "string \<Rightarrow> string" where
  "path_clean p =
     (let rooted = has_prefix p ''/'';
          body = join_with CHR ''/'' (rev (foldl (clean_step rooted) [] (split_on CHR ''/'' p)))
      in if rooted then CHR ''/'' # body else if body = [] then ''.'' else body)"

definition path_join :: "string \<Rightarrow> string \<Rightarrow> string" where
  "path_join a b =
     (if a = [] \<and> b = [] then [] else if a = [] then path_clean b else path_clean (a @ CHR ''/'' # b))"

text \<open>The path up to its last slash, which stays, and the rest.\<close>

definition dir_part :: "string \<Rightarrow> string" where
  "dir_part p = rev (dropWhile (\<lambda>c. c \<noteq> CHR ''/'') (rev p))"

definition last_part :: "string \<Rightarrow> string" where
  "last_part p = rev (takeWhile (\<lambda>c. c \<noteq> CHR ''/'') (rev p))"

definition path_dir :: "string \<Rightarrow> string" where
  "path_dir p = path_clean (dir_part p)"

definition path_base :: "string \<Rightarrow> string" where
  "path_base p =
     (if p = [] then ''.''
      else let p = rev (dropWhile (\<lambda>c. c = CHR ''/'') (rev p));
               p = last_part p
           in if p = [] then ''/'' else p)"

section \<open>Splitting and joining\<close>

lemma split_on_nonempty [simp]: "split_on c s \<noteq> []"
  by (cases s) auto

lemma split_on_no_sep: "c \<notin> set s \<Longrightarrow> split_on c s = [s]"
  by (induction s) auto

lemma split_on_append: "split_on c (s @ c # t) = split_on c s @ split_on c t"
  by (induction s) (auto simp: hd_append)

lemma split_join: "ss \<noteq> [] \<Longrightarrow> \<forall>s \<in> set ss. c \<notin> set s \<Longrightarrow> split_on c (join_with c ss) = ss"
  by (induction c ss rule: join_with.induct) (simp_all add: split_on_no_sep split_on_append)

lemma split_parts: "t \<in> set (split_on c s) \<Longrightarrow> c \<notin> set t"
proof (induction s arbitrary: t)
  case (Cons x xs)
  have h: "hd (split_on c xs) \<in> set (split_on c xs)" "set (tl (split_on c xs)) \<subseteq> set (split_on c xs)"
    by (auto dest: list.set_sel(2)[OF split_on_nonempty])
  show ?case using Cons h by (auto split: if_splits)
qed simp

lemma join_with_snoc: "ss \<noteq> [] \<Longrightarrow> join_with c (ss @ [s]) = join_with c ss @ c # s"
  by (induction c ss rule: join_with.induct) auto

section \<open>Cleaned absolute paths\<close>

definition comp_ok :: "string \<Rightarrow> bool" where
  "comp_ok c \<longleftrightarrow> c \<noteq> [] \<and> c \<noteq> ''.'' \<and> c \<noteq> ''..'' \<and> CHR ''/'' \<notin> set c"

definition abs_path :: "string list \<Rightarrow> string" where
  "abs_path cs = CHR ''/'' # join_with CHR ''/'' cs"

text \<open>Following path elements from the directory with the components \<open>ds\<close>.\<close>

definition descend :: "string list \<Rightarrow> string list \<Rightarrow> string list" where
  "descend ds ts = rev (foldl (clean_step True) (rev ds) ts)"

lemma descend_simps [simp]:
  "descend ds [] = ds"
  "descend ds ([] # ts) = descend ds ts"
  "descend ds (''.'' # ts) = descend ds ts"
  "descend (ds @ [d]) (''..'' # ts) = (if d = ''..'' then descend (ds @ [d]) ts else descend ds ts)"
  "descend [] (''..'' # ts) = descend [] ts"
  "descend ds (ts @ us) = descend (descend ds ts) us"
  by (simp_all add: descend_def clean_step_def)

lemma descend_comp: "comp_ok c \<Longrightarrow> descend ds (c # ts) = descend (ds @ [c]) ts"
  by (simp add: descend_def clean_step_def comp_ok_def)

lemma descend_comps: "\<forall>c \<in> set cs. comp_ok c \<Longrightarrow> descend ds cs = ds @ cs"
  by (induction cs arbitrary: ds) (simp_all add: descend_comp)

lemma clean_step_ok:
  "\<forall>c \<in> set st. comp_ok c \<Longrightarrow> CHR ''/'' \<notin> set c \<Longrightarrow> \<forall>d \<in> set (clean_step True st c). comp_ok d"
  by (auto simp: clean_step_def comp_ok_def dest: list.set_sel(2))

lemma descend_ok:
  assumes "\<forall>c \<in> set ds. comp_ok c" "\<forall>t \<in> set ts. CHR ''/'' \<notin> set t"
  shows "\<forall>c \<in> set (descend ds ts). comp_ok c"
proof -
  have "\<forall>c \<in> set (foldl (clean_step True) st ts). comp_ok c" if "\<forall>c \<in> set st. comp_ok c" for st
    using that assms(2)
  proof (induction ts arbitrary: st)
    case (Cons t ts)
    have "\<forall>c \<in> set (clean_step True st t). comp_ok c" by (rule clean_step_ok) (use Cons.prems in simp_all)
    moreover have "\<forall>t \<in> set ts. CHR ''/'' \<notin> set t" using Cons.prems(2) by simp
    ultimately show ?case unfolding foldl.simps by (rule Cons.IH)
  qed simp
  from this[of "rev ds"] assms(1) show ?thesis by (simp add: descend_def)
qed

lemma path_clean_rooted: "path_clean (CHR ''/'' # p) = abs_path (descend [] (split_on CHR ''/'' p))"
  by (simp add: path_clean_def has_prefix_def abs_path_def descend_def clean_step_def Let_def)

lemma path_clean_abs:
  assumes "has_prefix p ''/''"
  obtains cs where "path_clean p = abs_path cs" "\<forall>c \<in> set cs. comp_ok c"
proof -
  obtain q where q: "p = CHR ''/'' # q" using assms by (cases p) (auto simp: has_prefix_def)
  have "\<forall>c \<in> set (descend [] (split_on CHR ''/'' q)). comp_ok c"
    by (rule descend_ok) (auto dest: split_parts)
  with q path_clean_rooted show ?thesis by (intro that) auto
qed

lemma split_abs_path:
  assumes "\<forall>c \<in> set cs. comp_ok c"
  shows "split_on CHR ''/'' (abs_path cs) = [] # (if cs = [] then [[]] else cs)"
  using assms split_join[of cs "CHR ''/''"] by (auto simp: abs_path_def comp_ok_def)

text \<open>The components the kernel walks.\<close>

lemma components_abs_path:
  "\<forall>c \<in> set cs. comp_ok c \<Longrightarrow> filter (\<lambda>c. c \<noteq> []) (split_on CHR ''/'' (abs_path cs)) = cs"
  by (auto simp: split_abs_path comp_ok_def filter_id_conv)

lemma descend_abs_path:
  "\<forall>c \<in> set cs. comp_ok c \<Longrightarrow> descend [] (split_on CHR ''/'' (abs_path cs)) = cs"
  by (simp add: split_abs_path descend_comps)

lemma abs_path_prefix [simp]: "has_prefix (abs_path cs) ''/''"
  by (simp add: abs_path_def has_prefix_def)

lemma clean_abs_path:
  assumes "\<forall>c \<in> set cs. comp_ok c"
  shows "path_clean (abs_path cs) = abs_path cs"
proof -
  have "path_clean (abs_path cs) = abs_path (descend [] (split_on CHR ''/'' (join_with CHR ''/'' cs)))"
    by (simp only: abs_path_def path_clean_rooted)
  also have "descend [] (split_on CHR ''/'' (join_with CHR ''/'' cs)) = cs"
    using descend_abs_path[OF assms] by (simp add: abs_path_def)
  finally show ?thesis .
qed

text \<open>Joining a path to a cleaned directory follows its elements from there.\<close>

lemma join_abs_path:
  assumes "\<forall>c \<in> set ds. comp_ok c"
  shows "path_join (abs_path ds) t = abs_path (descend ds (split_on CHR ''/'' t))"
proof -
  have "path_join (abs_path ds) t = path_clean (abs_path ds @ CHR ''/'' # t)"
    by (simp add: path_join_def abs_path_def)
  also have "\<dots> = abs_path (descend [] (split_on CHR ''/'' (abs_path ds @ CHR ''/'' # t)))"
    using path_clean_rooted by (simp add: abs_path_def)
  also have "descend [] (split_on CHR ''/'' (abs_path ds @ CHR ''/'' # t)) = descend ds (split_on CHR ''/'' t)"
    by (simp add: split_on_append descend_abs_path[OF assms])
  finally show ?thesis .
qed

section \<open>The directory and the base of a path\<close>

lemma parts_snoc:
  assumes "CHR ''/'' \<notin> set c"
  shows "dir_part (s @ CHR ''/'' # c) = s @ ''/''" "last_part (s @ CHR ''/'' # c) = c"
proof -
  have r: "rev (s @ CHR ''/'' # c) = rev c @ CHR ''/'' # rev s" by simp
  have "dropWhile (\<lambda>x. x \<noteq> CHR ''/'') (rev c @ CHR ''/'' # rev s) = CHR ''/'' # rev s"
    "takeWhile (\<lambda>x. x \<noteq> CHR ''/'') (rev c @ CHR ''/'' # rev s) = rev c"
    using assms by (auto simp: dropWhile_append takeWhile_append)
  then show "dir_part (s @ CHR ''/'' # c) = s @ ''/''" "last_part (s @ CHR ''/'' # c) = c"
    by (simp_all add: dir_part_def last_part_def r del: rev_append)
qed

lemma abs_path_snoc: "cs \<noteq> [] \<Longrightarrow> abs_path (cs @ [c]) = abs_path cs @ CHR ''/'' # c"
  by (simp add: abs_path_def join_with_snoc)

lemma dir_abs_path:
  assumes "\<forall>d \<in> set (cs @ [c]). comp_ok d"
  shows "path_dir (abs_path (cs @ [c])) = abs_path cs"
proof (cases "cs = []")
  case True
  have "dir_part ([] @ CHR ''/'' # c) = [] @ ''/''" using assms by (intro parts_snoc) (simp add: comp_ok_def)
  then show ?thesis
    using True clean_abs_path[of "[]"] by (simp add: abs_path_def path_dir_def)
next
  case False
  have "dir_part (abs_path cs @ CHR ''/'' # c) = abs_path cs @ ''/''"
    using assms by (intro parts_snoc) (simp add: comp_ok_def)
  moreover have "path_clean (abs_path cs @ ''/'') = abs_path cs"
    using assms join_abs_path[of cs "[]"] by (simp add: path_join_def abs_path_def)
  ultimately show ?thesis using False by (simp add: abs_path_snoc path_dir_def)
qed

lemma base_abs_path:
  assumes "\<forall>d \<in> set (cs @ [c]). comp_ok d"
  shows "path_base (abs_path (cs @ [c])) = c"
proof -
  have c: "c \<noteq> []" "CHR ''/'' \<notin> set c" using assms by (simp_all add: comp_ok_def)
  obtain s where s: "abs_path (cs @ [c]) = s @ CHR ''/'' # c"
    using abs_path_snoc[of cs c] by (cases "cs = []") (auto simp: abs_path_def)
  have "last c \<noteq> CHR ''/''" using c by (metis last_in_set)
  then have "dropWhile (\<lambda>x. x = CHR ''/'') (rev (s @ CHR ''/'' # c)) = rev (s @ CHR ''/'' # c)"
    using c(1) by (cases "rev c") (auto simp: hd_rev[symmetric])
  then show ?thesis
    using c parts_snoc(2)[OF c(2), of s] by (simp add: path_base_def s Let_def del: rev_append)
qed

lemma abs_path_inject:
  "\<forall>c \<in> set cs. comp_ok c \<Longrightarrow> \<forall>d \<in> set ds. comp_ok d \<Longrightarrow> abs_path cs = abs_path ds \<longleftrightarrow> cs = ds"
  by (metis descend_abs_path)

end
