(* ===== verification/Resolve.thy ===== *)
theory Resolve
  imports Directory GoPath
begin

text \<open>
  Path names and permissions of \<open>computer/kernel.go\<close>: \<open>normalizePath\<close>, \<open>ResolvePath\<close> and the three
  permission checks. The second half says what they do: a normalized path is a list of proper
  components, and resolving one is a walk over the directories of the disk (\<open>lookup_path\<close>), which
  needs execute permission on every directory it leaves. The walk fills the inode cache, so
  its correctness needs the invariant of the kernel (\<open>kernel_inv\<close>), stated here.
\<close>

section \<open>The code\<close>

definition normalizePath :: "process \<Rightarrow> string \<Rightarrow> string" where
  "normalizePath proc target =
     (let target = (if target = [] then CWD proc else target);
          home = (if UID proc = ''root'' then ''/root'' else ''/home/'' @ UID proc);
          target = (if target = ''~'' then home
                    else if has_prefix target ''~/'' then path_join home (drop 2 target)
                    else target);
          target = (if \<not> has_prefix target ''/'' then path_join (CWD proc) target else target);
          target = path_clean target;
          target = (if \<not> has_prefix target ''/'' then ''/'' else target)
      in path_clean target)"

definition canWrite :: "string \<Rightarrow> inode \<Rightarrow> bool" where
  "canWrite effectiveUser ino =
     (if effectiveUser = ''root'' then True
      else if ownerString (owner ino) = effectiveUser then ownerMode ino AND 2 \<noteq> 0
      else otherMode ino AND 2 \<noteq> 0)"

definition canRead :: "string \<Rightarrow> inode \<Rightarrow> bool" where
  "canRead effectiveUser ino =
     (if effectiveUser = ''root'' then True
      else if ownerString (owner ino) = effectiveUser then ownerMode ino AND 4 \<noteq> 0
      else otherMode ino AND 4 \<noteq> 0)"

definition canExecute :: "string \<Rightarrow> inode \<Rightarrow> bool" where
  "canExecute effectiveUser ino =
     (if effectiveUser = ''root'' then True
      else if ownerString (owner ino) = effectiveUser then ownerMode ino AND 1 \<noteq> 0
      else otherMode ino AND 1 \<noteq> 0)"

text \<open>\<open>in.ops.ReadEntries\<close>: a regular file has no entries, and a call through nil panics.\<close>

definition ops_ReadEntries :: "inode \<Rightarrow> filesystem \<Rightarrow> dir_entry list outcome" where
  "ops_ReadEntries ino fs = (case ops ino of
     None \<Rightarrow> Panic
   | Some RegularFileOps \<Rightarrow> Ok []
   | Some (DirectoryOps d) \<Rightarrow> ReadEntries d fs)"

text \<open>The number of the first entry with the name, 0 if there is none.\<close>

definition entry_inum :: "dir_entry list \<Rightarrow> string \<Rightarrow> u32" where
  "entry_inum es d = (case find (\<lambda>e. Name e = d) es of None \<Rightarrow> 0 | Some e \<Rightarrow> Inum e)"

fun walk :: "string \<Rightarrow> string list \<Rightarrow> inode \<Rightarrow> kernel \<Rightarrow> u32 outcome \<times> kernel" where
  "walk euid [] ino k = (Ok (num ino), k)"
| "walk euid (d # ds) ino k =
     (if fType ino \<noteq> S_IFDIR then (Err ENOTDIR, k)
      else if \<not> canExecute euid ino then (Err EACCES, k)
      else bindS (ops_ReadEntries ino (kfs k), k) (\<lambda>es k.
        if entry_inum es d = 0 then (Err ENOENT, k)
        else bindS (getInode (entry_inum es d) k) (\<lambda>ino k. walk euid ds ino k)))"

definition path_components :: "string \<Rightarrow> string list" where
  "path_components target = filter (\<lambda>d. d \<noteq> []) (split_on CHR ''/'' target)"

definition ResolvePath :: "process \<Rightarrow> string \<Rightarrow> kernel \<Rightarrow> u32 outcome \<times> kernel" where
  "ResolvePath proc target k =
     bindS (getInode 2 k) (\<lambda>root k. walk (EUID proc) (path_components (normalizePath proc target)) root k)"

section \<open>Normalized paths\<close>

lemma normalizePath_abs:
  obtains cs where "normalizePath proc target = abs_path cs" "\<forall>c \<in> set cs. comp_ok c"
proof -
  have "\<exists>x. normalizePath proc target = path_clean (if \<not> has_prefix x ''/'' then ''/'' else x)"
    unfolding normalizePath_def Let_def by (rule exI, rule refl)
  then obtain x where x: "normalizePath proc target = path_clean (if \<not> has_prefix x ''/'' then ''/'' else x)"
    by blast
  have "has_prefix (if \<not> has_prefix x ''/'' then ''/'' else x) ''/''" by (simp add: has_prefix_def)
  then show ?thesis by (rule path_clean_abs) (use that x in simp)
qed

definition path_of :: "process \<Rightarrow> string \<Rightarrow> string list" where
  "path_of proc target = path_components (normalizePath proc target)"

lemma path_of:
  "normalizePath proc target = abs_path (path_of proc target)" "\<forall>c \<in> set (path_of proc target). comp_ok c"
proof -
  obtain cs where cs: "normalizePath proc target = abs_path cs" "\<forall>c \<in> set cs. comp_ok c"
    by (rule normalizePath_abs)
  have "path_of proc target = cs"
    unfolding path_of_def path_components_def cs(1) by (rule components_abs_path[OF cs(2)])
  with cs show "normalizePath proc target = abs_path (path_of proc target)"
    "\<forall>c \<in> set (path_of proc target). comp_ok c" by simp_all
qed

lemma normalize_abs_path:
  assumes "\<forall>c \<in> set cs. comp_ok c"
  shows "normalizePath proc (abs_path cs) = abs_path cs"
  using clean_abs_path[OF assms]
  by (simp add: normalizePath_def Let_def) (simp add: abs_path_def has_prefix_def)

lemma path_of_abs_path: "\<forall>c \<in> set cs. comp_ok c \<Longrightarrow> path_of proc (abs_path cs) = cs"
  by (simp add: path_of_def normalize_abs_path path_components_def components_abs_path)

text \<open>A relative path is followed from the working directory.\<close>

lemma normalize_relative:
  assumes "CWD proc = abs_path ds" "\<forall>c \<in> set ds. comp_ok c"
    and "target \<noteq> []" "target \<noteq> ''~''" "\<not> has_prefix target ''~/''" "\<not> has_prefix target ''/''"
  shows "normalizePath proc target = abs_path (descend ds (split_on CHR ''/'' target))"
proof -
  let ?cs = "descend ds (split_on CHR ''/'' target)"
  have ok: "\<forall>c \<in> set ?cs. comp_ok c"
    by (rule descend_ok[OF assms(2)]) (auto dest: split_parts)
  have "path_clean (abs_path ?cs) = abs_path ?cs" by (rule clean_abs_path[OF ok])
  then show ?thesis
    using assms(3-6) by (simp add: normalizePath_def Let_def assms(1) join_abs_path[OF assms(2)])
qed

section \<open>The invariant of the kernel\<close>

definition is_dir :: "filesystem \<Rightarrow> u32 \<Rightarrow> bool" where
  "is_dir fs i \<longleftrightarrow> fType (disk_inode fs (unat i)) = S_IFDIR"

text \<open>
  The tree: every inode in use is a file or a directory, a directory in use is well formed, its
  entries name inodes in use, and the root is a directory. Number 0, which marks a blank slot, is
  never free.
\<close>

definition tree_ok :: "filesystem \<Rightarrow> bool" where
  "tree_ok fs \<longleftrightarrow> fs_inv fs \<and> live fs 0 \<noteq> None \<and> live fs 2 \<noteq> None \<and> is_dir fs 2 \<and>
     (\<forall>i. live fs i \<noteq> None \<longrightarrow> is_dir fs i \<or> fType (disk_inode fs (unat i)) = S_IFREG) \<and>
     (\<forall>d. live fs d \<noteq> None \<longrightarrow> is_dir fs d \<longrightarrow> dir_ok fs d \<and>
        (\<forall>e \<in> set (entries (dir_slots fs d)). live fs (Inum e) \<noteq> None))"

text \<open>
  The cache: an entry is for an inode in use and agrees with the disk, on everything for a
  file, on all but the size and the blocks for a directory, whose inode \<open>addDentry\<close> changes on the
  disk only.
\<close>

definition cached_ok :: "filesystem \<Rightarrow> u32 \<Rightarrow> inode \<Rightarrow> bool" where
  "cached_ok fs i ino \<longleftrightarrow> num ino = i \<and> ops ino = ops (loaded fs i) \<and> same_meta ino (disk_inode fs (unat i)) \<and>
     (\<not> is_dir fs i \<longrightarrow> ino\<lparr>dirty := False\<rparr> = loaded fs i)"

definition cache_ok :: "kernel \<Rightarrow> bool" where
  "cache_ok k \<longleftrightarrow> (\<forall>i ino. inodeCache k i = Some ino \<longrightarrow> live (kfs k) i \<noteq> None \<and> cached_ok (kfs k) i ino)"

definition kernel_inv :: "kernel \<Rightarrow> bool" where
  "kernel_inv k \<longleftrightarrow> tree_ok (kfs k) \<and> cache_ok k"

text \<open>What reading does to the kernel: the cache may grow, by inodes as they are on the disk.\<close>

definition cache_only :: "kernel \<Rightarrow> kernel \<Rightarrow> bool" where
  "cache_only k k' \<longleftrightarrow> (\<exists>c. k' = k\<lparr>inodeCache := c\<rparr> \<and> inodeCache k \<subseteq>\<^sub>m c \<and>
     (\<forall>i ino. inodeCache k i = None \<longrightarrow> c i = Some ino \<longrightarrow> ino = loaded (kfs k) i))"

lemma cache_only_refl [simp]: "cache_only k k"
  unfolding cache_only_def by (rule exI[of _ "inodeCache k"]) simp

lemma cache_only_trans:
  assumes "cache_only a b" "cache_only b c"
  shows "cache_only a c"
proof -
  from assms obtain u v where u: "b = a\<lparr>inodeCache := u\<rparr>" "inodeCache a \<subseteq>\<^sub>m u"
      "\<forall>i ino. inodeCache a i = None \<longrightarrow> u i = Some ino \<longrightarrow> ino = loaded (kfs a) i"
    and v: "c = b\<lparr>inodeCache := v\<rparr>" "u \<subseteq>\<^sub>m v" "\<forall>i ino. u i = None \<longrightarrow> v i = Some ino \<longrightarrow> ino = loaded (kfs a) i"
    unfolding cache_only_def by auto
  have "ino = loaded (kfs a) i" if "inodeCache a i = None" "v i = Some ino" for i ino
    using u(3) v(2,3) that by (cases "u i") (auto simp: map_le_def dom_def)
  then show ?thesis
    unfolding cache_only_def using u(1,2) v(1,2) map_le_trans by (intro exI[of _ v]) auto
qed

lemma cache_only_coherent: "cache_only k k' \<Longrightarrow> coherent k i \<Longrightarrow> coherent k' i"
  unfolding cache_only_def coherent_def
proof (elim exE conjE)
  fix c assume a: "\<forall>ino. inodeCache k i = Some ino \<longrightarrow> ino\<lparr>dirty := False\<rparr> = loaded (kfs k) i"
    and c: "k' = k\<lparr>inodeCache := c\<rparr>" "inodeCache k \<subseteq>\<^sub>m c"
      "\<forall>i ino. inodeCache k i = None \<longrightarrow> c i = Some ino \<longrightarrow> ino = loaded (kfs k) i"
  have cl: "(loaded (kfs k) i)\<lparr>dirty := False\<rparr> = loaded (kfs k) i"
    by (simp add: loaded_def with_ops_def disk_inode_def decode_inode_def)
  show "\<forall>ino. inodeCache k' i = Some ino \<longrightarrow> ino\<lparr>dirty := False\<rparr> = loaded (kfs k') i"
    using a c cl by (cases "inodeCache k i") (auto simp: map_le_def dom_def)
qed

lemma cache_only_kfs [simp]: "cache_only k k' \<Longrightarrow> kfs k' = kfs k"
  by (auto simp: cache_only_def)

lemma loaded_sel [simp]:
  "num (loaded fs i) = i" "fType (loaded fs i) = fType (disk_inode fs (unat i))"
  "ops (loaded fs i) = (if is_dir fs i then Some (DirectoryOps i)
     else if fType (disk_inode fs (unat i)) = S_IFREG then Some RegularFileOps else None)"
  "same_meta (loaded fs i) (disk_inode fs (unat i))"
  by (simp_all add: loaded_def with_ops_def is_dir_def same_meta_def disk_inode_def decode_inode_def)

lemma loaded_clean [simp]: "(loaded fs i)\<lparr>dirty := False\<rparr> = loaded fs i"
  by (simp add: loaded_def with_ops_def disk_inode_def decode_inode_def)

lemma cached_ok_loaded: "cached_ok fs i (loaded fs i)"
  by (simp add: cached_ok_def del: loaded_sel(3))

lemma cached_ok_sel:
  assumes "cached_ok fs i ino"
  shows "num ino = i" "fType ino = fType (disk_inode fs (unat i))" "owner ino = owner (disk_inode fs (unat i))"
    "ownerMode ino = ownerMode (disk_inode fs (unat i))" "otherMode ino = otherMode (disk_inode fs (unat i))"
    "setuid ino = setuid (disk_inode fs (unat i))" "fType ino = S_IFDIR \<longleftrightarrow> is_dir fs i"
    "is_dir fs i \<Longrightarrow> ops ino = Some (DirectoryOps i)"
  using assms by (auto simp: cached_ok_def same_meta_def is_dir_def)

lemma can_cached [simp]:
  assumes "cached_ok fs i ino"
  shows "canRead u ino = canRead u (disk_inode fs (unat i))" "canWrite u ino = canWrite u (disk_inode fs (unat i))"
    "canExecute u ino = canExecute u (disk_inode fs (unat i))"
  using cached_ok_sel[OF assms] by (simp_all add: canRead_def canWrite_def canExecute_def)

lemma kernel_inv_fs: "kernel_inv k \<Longrightarrow> fs_inv (kfs k)" "kernel_inv k \<Longrightarrow> live (kfs k) 2 \<noteq> None"
  "kernel_inv k \<Longrightarrow> is_dir (kfs k) 2" "kernel_inv k \<Longrightarrow> std_fs (kfs k)"
  by (auto simp: kernel_inv_def tree_ok_def intro: fs_inv_std)

lemma kernel_inv_type:
  "kernel_inv k \<Longrightarrow> live (kfs k) i \<noteq> None \<Longrightarrow> \<not> is_dir (kfs k) i \<Longrightarrow> fType (disk_inode (kfs k) (unat i)) = S_IFREG"
  unfolding kernel_inv_def tree_ok_def by blast

lemma kernel_inv_dir:
  assumes "kernel_inv k" "live (kfs k) d \<noteq> None" "is_dir (kfs k) d"
  shows "dir_ok (kfs k) d" "Some e \<in> set (dir_slots (kfs k) d) \<Longrightarrow> live (kfs k) (Inum e) \<noteq> None"
  using assms unfolding kernel_inv_def tree_ok_def by (auto simp: in_entries)

text \<open>Loading an inode in use.\<close>

lemma getInode_inv:
  assumes inv: "kernel_inv k" and l: "live (kfs k) i \<noteq> None"
  obtains ino k' where "getInode i k = (Ok ino, k')" "cached_ok (kfs k) i ino" "kernel_inv k'" "cache_only k k'"
    "inodeCache k' i = Some ino"
proof (cases "inodeCache k i")
  case None
  have i: "unat i < INODES" using l by (auto simp: live_def split: if_splits)
  let ?k = "k\<lparr>inodeCache := (inodeCache k)(i \<mapsto> loaded (kfs k) i)\<rparr>"
  have g: "getInode i k = (Ok (loaded (kfs k) i), ?k)"
    using None readInode_std[OF kernel_inv_fs(4)[OF inv] i] by (simp add: getInode_def loaded_def disk_inode_def Let_def)
  have "cache_ok ?k" using inv l cached_ok_loaded by (auto simp: kernel_inv_def cache_ok_def)
  then have "kernel_inv ?k" using inv by (simp add: kernel_inv_def)
  moreover have "cache_only k ?k"
    unfolding cache_only_def using None
    by (intro exI[of _ "(inodeCache k)(i \<mapsto> loaded (kfs k) i)"]) (auto simp: map_le_def dom_def)
  moreover have "inodeCache ?k i = Some (loaded (kfs k) i)" by simp
  ultimately show ?thesis using that[OF g cached_ok_loaded] by blast
next
  case (Some ino)
  have c: "cached_ok (kfs k) i ino" using inv Some unfolding kernel_inv_def cache_ok_def by blast
  show ?thesis
    by (rule that[OF _ c inv cache_only_refl Some]) (simp add: getInode_def Some)
qed

section \<open>Path resolution as a walk over the disk\<close>

fun lookup_path :: "filesystem \<Rightarrow> string \<Rightarrow> string list \<Rightarrow> u32 \<Rightarrow> u32 outcome" where
  "lookup_path fs euid [] i = Ok i"
| "lookup_path fs euid (d # ds) i =
     (if \<not> is_dir fs i then Err ENOTDIR
      else if \<not> canExecute euid (disk_inode fs (unat i)) then Err EACCES
      else case slot_names (dir_slots fs i) d of None \<Rightarrow> Err ENOENT | Some j \<Rightarrow> lookup_path fs euid ds j)"

lemma slots_of_inum: "Some e \<in> set (slots_of bs) \<Longrightarrow> Inum e \<noteq> 0"
  by (auto simp: slots_of_def entry_of_def split: if_splits)

lemma entry_inum_slots:
  "entry_inum (entries (dir_slots fs d)) n = (case slot_names (dir_slots fs d) n of None \<Rightarrow> 0 | Some i \<Rightarrow> i)"
  by (simp add: entry_inum_def slot_names_def lookup_def split: option.splits)

lemma slot_names_in:
  assumes "slot_names xs n = Some i"
  shows "\<exists>e. Some e \<in> set xs \<and> Name e = n \<and> Inum e = i"
proof -
  obtain e where e: "find (\<lambda>e. Name e = n) (entries xs) = Some e" "Inum e = i"
    using assms by (auto simp: slot_names_def lookup_def)
  then have "e \<in> set (entries xs)" "Name e = n" by (auto simp: find_Some_iff)
  with e show ?thesis by (auto simp: in_entries)
qed

lemma slot_names_live:
  assumes "kernel_inv k" "live (kfs k) d \<noteq> None" "is_dir (kfs k) d" "slot_names (dir_slots (kfs k) d) n = Some i"
  shows "live (kfs k) i \<noteq> None" "i \<noteq> 0"
  using slot_names_in[OF assms(4)] kernel_inv_dir(2)[OF assms(1-3)] slots_of_inum
  by (auto simp: dir_slots_def)

lemma ops_ReadEntries_inv:
  assumes "kernel_inv k" "live (kfs k) d \<noteq> None" "is_dir (kfs k) d" "cached_ok (kfs k) d ino"
  shows "ops_ReadEntries ino (kfs k) = Ok (entries (dir_slots (kfs k) d))"
  using cached_ok_sel(8)[OF assms(4,3)] ReadEntries_ok[OF kernel_inv_fs(1)[OF assms(1)] kernel_inv_dir(1)[OF assms(1-3)]]
  by (simp add: ops_ReadEntries_def)

lemma walk_lookup:
  assumes "kernel_inv k" "live (kfs k) i \<noteq> None" "cached_ok (kfs k) i ino"
  obtains k' where "walk euid ds ino k = (lookup_path (kfs k) euid ds i, k')" "kernel_inv k'" "cache_only k k'"
  using assms
proof (induction ds arbitrary: i ino k thesis)
  case Nil
  then show ?case using cached_ok_sel(1)[OF Nil.prems(4)] by simp
next
  case (Cons d ds)
  note c = cached_ok_sel[OF Cons.prems(4)] can_cached(3)[OF Cons.prems(4)]
  show ?case
  proof (cases "is_dir (kfs k) i \<and> canExecute euid (disk_inode (kfs k) (unat i))")
    case False
    then show ?thesis using Cons.prems(1,2) c by auto
  next
    case True
    then have r: "ops_ReadEntries ino (kfs k) = Ok (entries (dir_slots (kfs k) i))"
      using ops_ReadEntries_inv Cons.prems(2-4) by blast
    show ?thesis
    proof (cases "slot_names (dir_slots (kfs k) i) d")
      case None
      then show ?thesis using True Cons.prems(1,2) c r by (simp add: entry_inum_slots)
    next
      case (Some j)
      have j: "live (kfs k) j \<noteq> None" "j \<noteq> 0"
        using slot_names_live[OF Cons.prems(2,3) _ Some] True by simp_all
      obtain ino' k1 where g: "getInode j k = (Ok ino', k1)" "cached_ok (kfs k) j ino'" "kernel_inv k1" "cache_only k k1"
        by (rule getInode_inv[OF Cons.prems(2) j(1)])
      have k1: "kfs k1 = kfs k" using g(4) by simp
      obtain k' where w: "walk euid ds ino' k1 = (lookup_path (kfs k1) euid ds j, k')" "kernel_inv k'" "cache_only k1 k'"
        by (rule Cons.IH[where i = j and ino = ino', OF _ g(3)]) (use g(2) j(1) True k1 in auto)
      have "walk euid (d # ds) ino k = walk euid ds ino' k1"
        using True c r Some j(2) g(1) by (simp add: entry_inum_slots)
      moreover have "lookup_path (kfs k) euid (d # ds) i = lookup_path (kfs k1) euid ds j"
        using True Some k1 by simp
      ultimately have "walk euid (d # ds) ino k = (lookup_path (kfs k) euid (d # ds) i, k')" using w(1) by simp
      then show ?thesis by (rule Cons.prems(1)[OF _ w(2) cache_only_trans[OF g(4) w(3)]])
    qed
  qed
qed

lemma ResolvePath_lookup:
  assumes inv: "kernel_inv k"
  obtains k' where "ResolvePath proc target k = (lookup_path (kfs k) (EUID proc) (path_of proc target) 2, k')"
    "kernel_inv k'" "cache_only k k'"
proof -
  obtain root k1 where g: "getInode 2 k = (Ok root, k1)" "cached_ok (kfs k) 2 root" "kernel_inv k1" "cache_only k k1"
    using getInode_inv[OF inv kernel_inv_fs(2)[OF inv]] by blast
  have k1: "kfs k1 = kfs k" using g(4) by simp
  obtain k' where "walk (EUID proc) (path_of proc target) root k1 = (lookup_path (kfs k1) (EUID proc) (path_of proc target) 2, k')"
    "kernel_inv k'" "cache_only k1 k'"
    by (rule walk_lookup[where i = 2 and ino = root, OF g(3)]) (use g(2) k1 kernel_inv_fs(2)[OF inv] in auto)
  with g k1 show ?thesis
    by (intro that[of k']) (auto simp: ResolvePath_def path_of_def intro: cache_only_trans)
qed

text \<open>What a successful walk has passed: the inode is in use.\<close>

lemma lookup_path_live:
  assumes "kernel_inv k"
  shows "live (kfs k) i \<noteq> None \<Longrightarrow> lookup_path (kfs k) euid ds i = Ok j \<Longrightarrow> live (kfs k) j \<noteq> None"
proof (induction ds arbitrary: i)
  case (Cons d ds)
  then obtain m where m: "is_dir (kfs k) i" "slot_names (dir_slots (kfs k) i) d = Some m"
    "lookup_path (kfs k) euid ds m = Ok j"
    by (auto split: if_splits option.splits)
  show ?case by (rule Cons.IH[OF slot_names_live(1)[OF assms Cons.prems(1) m(1,2)] m(3)])
qed simp

lemma lookup_root_live:
  "kernel_inv k \<Longrightarrow> lookup_path (kfs k) euid ds 2 = Ok j \<Longrightarrow> live (kfs k) j \<noteq> None"
  using lookup_path_live kernel_inv_fs(2) by blast

lemma lookup_path_append:
  "lookup_path fs euid (ds @ es) i = bindO (lookup_path fs euid ds i) (\<lambda>j. lookup_path fs euid es j)"
  by (induction ds arbitrary: i) (auto split: option.splits)

end
