(* ===== verification/Syscalls.thy ===== *)
theory Syscalls
  imports Resolve
begin

text \<open>
  The system calls on files of \<open>computer/kernel.go\<close>, from \<open>makeInode\<close> to \<open>chmod\<close>. Each takes the
  kernel and returns it changed. An inode the code got from \<open>getInode\<close> is a pointer into the cache:
  where the code changes it (\<open>Falloc\<close>, \<open>chmod\<close>), the cache entry changes.
\<close>

section \<open>Helpers\<close>

text \<open>An operation of \<open>computer.fs\<close>.\<close>

definition on_fs :: "(filesystem \<Rightarrow> 'a outcome \<times> filesystem) \<Rightarrow> kernel \<Rightarrow> 'a outcome \<times> kernel" where
  "on_fs f k = (case f (kfs k) of (r, fs) \<Rightarrow> (r, k\<lparr>kfs := fs\<rparr>))"

definition store_inode :: "inode \<Rightarrow> u32 \<Rightarrow> kernel \<Rightarrow> unit outcome \<times> kernel" where
  "store_inode ino inum = on_fs (\<lambda>fs. case writeInode fs ino inum of (fs, err) \<Rightarrow> (of_err err, fs))"

text \<open>\<open>Falloc(in, size)\<close> on a cached inode.\<close>

definition resize_cached :: "inode \<Rightarrow> u32 \<Rightarrow> u32 \<Rightarrow> kernel \<Rightarrow> inode outcome \<times> kernel" where
  "resize_cached ino inum newSize k = (case Falloc ino newSize (kfs k) of (r, (ino, fs)) \<Rightarrow>
     (bindO r (\<lambda>_. Ok ino), k\<lparr>kfs := fs, inodeCache := (inodeCache k)(inum \<mapsto> ino)\<rparr>))"

text \<open>A call whose error is handled, not returned.\<close>

fun on_result :: "'a outcome \<times> kernel \<Rightarrow> ('a \<Rightarrow> kernel \<Rightarrow> 'b outcome \<times> kernel) \<Rightarrow>
    (go_error \<Rightarrow> kernel \<Rightarrow> 'b outcome \<times> kernel) \<Rightarrow> 'b outcome \<times> kernel" where
  "on_result (Ok x, k) f g = f x k"
| "on_result (Err e, k) f g = g e k"
| "on_result (Panic, k) f g = (Panic, k)"

declare on_result.simps [go_run]

section \<open>Making and freeing inodes\<close>

text \<open>The inode \<open>makeInode\<close> writes; the two times are those of its two calls of \<open>time.Now\<close>.\<close>

definition new_inode :: "u8 \<Rightarrow> string \<Rightarrow> bool \<Rightarrow> u8 \<Rightarrow> u8 \<Rightarrow> u64 \<Rightarrow> u64 \<Rightarrow> inode" where
  "new_inode ft own suid om xm ctime mtime = zero_inode\<lparr>fType := ft, refs := 1, owner := ownerBytes own,
     setuid := suid, ownerMode := om, otherMode := xm, createdAt := ctime, modifiedAt := mtime\<rparr>"

definition makeInode :: "u64 \<times> u64 \<Rightarrow> u32 \<Rightarrow> string \<Rightarrow> u8 \<Rightarrow> string \<Rightarrow> bool \<Rightarrow> u8 \<Rightarrow> u8 \<Rightarrow> kernel \<Rightarrow>
    u32 outcome \<times> kernel" where
  "makeInode now parentInum name ft own suid om xm k =
     bindS (on_fs AllocInode k) (\<lambda>inum k.
     bindS (store_inode (new_inode ft own suid om xm (fst now) (snd now)) inum k) (\<lambda>_ k.
     let k = k\<lparr>inodeCache := (inodeCache k)(inum := None)\<rparr> in
     bindS (on_fs (addDentry parentInum \<lparr>Inum = inum, Name = name\<rparr>) k) (\<lambda>_ k.
     if ft = S_IFDIR then
       bindS (on_fs (addDentry inum \<lparr>Inum = inum, Name = ''.''\<rparr>) k) (\<lambda>_ k.
       bindS (on_fs (addDentry inum \<lparr>Inum = parentInum, Name = ''..''\<rparr>) k) (\<lambda>_ k.
       (Ok inum, k)))
     else (Ok inum, k))))"

text \<open>
  \<open>freeInodeTree\<close> follows the entries, so on a tree with a cycle it recurses until the stack of the
  process overflows, which Go does not survive. The first argument bounds the depth: a path longer
  than the number of inodes passes one twice, so running out of it is that crash.
\<close>

fun freeInodeTree :: "nat \<Rightarrow> u32 \<Rightarrow> kernel \<Rightarrow> unit outcome \<times> kernel"
  and freeEntries :: "nat \<Rightarrow> dir_entry list \<Rightarrow> kernel \<Rightarrow> unit outcome \<times> kernel" where
  "freeInodeTree 0 inum k = (Panic, k)"
| "freeInodeTree (Suc n) inum k =
     bindS (getInode inum k) (\<lambda>ino k.
     bindS (if fType ino = S_IFDIR then bindS (ops_ReadEntries ino (kfs k), k) (freeEntries n) else (Ok (), k)) (\<lambda>_ k.
     bindS (resize_cached ino inum 0 k) (\<lambda>_ k.
     bindS (on_fs (\<lambda>fs. FreeInodeFromBitmap fs inum) k) (\<lambda>_ k.
     (Ok (), k\<lparr>inodeCache := (inodeCache k)(inum := None)\<rparr>)))))"
| "freeEntries n [] k = (Ok (), k)"
| "freeEntries n (e # es) k =
     (if Name e = ''.'' \<or> Name e = ''..'' then freeEntries n es k
      else bindS (freeInodeTree n (Inum e) k) (\<lambda>_ k. freeEntries n es k))"

definition free_depth :: nat where
  "free_depth = INODES + 1"

section \<open>Reading\<close>

text \<open>\<open>fd.Read\<close> on what \<open>in.ops.CreateFD\<close> returns: the error of the call and the buffer.\<close>

definition ops_read :: "inode \<Rightarrow> u32 \<Rightarrow> u8 list \<Rightarrow> kernel \<Rightarrow> u8 list outcome \<times> kernel" where
  "ops_read ino inum b k = (case ops ino of
     None \<Rightarrow> (Panic, k)
   | Some (DirectoryOps d) \<Rightarrow> (Ok b, k)
   | Some RegularFileOps \<Rightarrow> (case FileFD_Read (RegularFileOps_CreateFD inum 0) b k of
       (Ok (n, None), (f, b, k)) \<Rightarrow> (Ok b, k)
     | (Ok (n, Some e), (f, b, k)) \<Rightarrow> (Err e, k)
     | (Err e, (f, b, k)) \<Rightarrow> (Err e, k)
     | (Panic, (f, b, k)) \<Rightarrow> (Panic, k)))"

definition readFile :: "process \<Rightarrow> string \<Rightarrow> kernel \<Rightarrow> u8 list outcome \<times> kernel" where
  "readFile proc target k =
     bindS (ResolvePath proc target k) (\<lambda>inum k.
     bindS (getInode inum k) (\<lambda>ino k.
     if fType ino = S_IFDIR then (Err EISDIR, k)
     else if \<not> canRead (EUID proc) ino then (Err EACCES, k)
     else if isize ino = 0 then (Ok [], k)
     else ops_read ino inum (replicate (unat (isize ino)) 0) k))"

record file_info =
  fi_Name :: string
  IsDir :: bool
  fi_Inum :: u32

fun entry_infos :: "dir_entry list \<Rightarrow> kernel \<Rightarrow> file_info list outcome \<times> kernel" where
  "entry_infos [] k = (Ok [], k)"
| "entry_infos (e # es) k =
     (if Name e = ''.'' \<or> Name e = ''..'' then entry_infos es k
      else bindS (getInode (Inum e) k) (\<lambda>child k.
           bindS (entry_infos es k) (\<lambda>infos k.
           (Ok (\<lparr>fi_Name = Name e, IsDir = (fType child = S_IFDIR), fi_Inum = Inum e\<rparr> # infos), k))))"

definition readDir :: "process \<Rightarrow> string \<Rightarrow> kernel \<Rightarrow> file_info list outcome \<times> kernel" where
  "readDir proc target k =
     bindS (ResolvePath proc target k) (\<lambda>inum k.
     bindS (getInode inum k) (\<lambda>ino k.
     if fType ino \<noteq> S_IFDIR then (Err ENOTDIR, k)
     else if \<not> canRead (EUID proc) ino then (Err EACCES, k)
     else bindS (ops_ReadEntries ino (kfs k), k) entry_infos))"

record file_metadata =
  Filepath :: string
  Owner :: string
  Setuid :: bool
  OwnerMode :: u8
  OtherMode :: u8

text \<open>\<open>stat\<close>: \<open>None\<close> is the result \<open>false\<close>.\<close>

definition stat :: "process \<Rightarrow> string \<Rightarrow> kernel \<Rightarrow> file_metadata option outcome \<times> kernel" where
  "stat proc target k =
     on_result (bindS (ResolvePath proc target k) getInode)
       (\<lambda>ino k. (Ok (Some \<lparr>Filepath = normalizePath proc target, Owner = ownerString (owner ino),
          Setuid = setuid ino, OwnerMode = ownerMode ino, OtherMode = otherMode ino\<rparr>), k))
       (\<lambda>e k. (Ok None, k))"

section \<open>Changing the tree\<close>

definition removeAll :: "process \<Rightarrow> string \<Rightarrow> kernel \<Rightarrow> unit outcome \<times> kernel" where
  "removeAll proc target k =
     (let target = normalizePath proc target in
      if target = ''/'' then (Err EPERM, k)
      else
        bindS (ResolvePath proc target k) (\<lambda>inum k.
        bindS (ResolvePath proc (path_dir target) k) (\<lambda>parentInum k.
        bindS (getInode parentInum k) (\<lambda>parentIn k.
        if \<not> canWrite (EUID proc) parentIn \<or> \<not> canExecute (EUID proc) parentIn then (Err EACCES, k)
        else bindS (on_fs (removeDentry parentInum (path_base target)) k) (\<lambda>_ k.
          freeInodeTree free_depth inum k)))))"

text \<open>
  The common part of \<open>mkDir\<close> and \<open>createFile\<close>: the parent must be a directory the caller may write.
\<close>

definition create_in_parent :: "u64 \<times> u64 \<Rightarrow> process \<Rightarrow> string \<Rightarrow> u8 \<Rightarrow> kernel \<Rightarrow> unit outcome \<times> kernel" where
  "create_in_parent now proc target ft k =
     bindS (ResolvePath proc (path_dir target) k) (\<lambda>parentInum k.
     bindS (getInode parentInum k) (\<lambda>parentIn k.
     if fType parentIn \<noteq> S_IFDIR then (Err ENOTDIR, k)
     else if \<not> canWrite (EUID proc) parentIn then (Err EACCES, k)
     else bindS (makeInode now parentInum (path_base target) ft (EUID proc) False 7 5 k) (\<lambda>_ k. (Ok (), k))))"

definition mkDir :: "u64 \<times> u64 \<Rightarrow> process \<Rightarrow> string \<Rightarrow> kernel \<Rightarrow> unit outcome \<times> kernel" where
  "mkDir now proc target k =
     (let target = normalizePath proc target in
      on_result (ResolvePath proc target k)
        (\<lambda>_ k. (Err EEXIST, k))
        (\<lambda>_ k. create_in_parent now proc target S_IFDIR k))"

definition createFile :: "u64 \<times> u64 \<Rightarrow> process \<Rightarrow> string \<Rightarrow> kernel \<Rightarrow> unit outcome \<times> kernel" where
  "createFile now proc target k =
     (let target = normalizePath proc target in
      on_result (ResolvePath proc target k)
        (\<lambda>_ k. (Ok (), k))
        (\<lambda>_ k. create_in_parent now proc target S_IFREG k))"

text \<open>\<open>writeFile\<close> makes a missing file; then it resizes the file and writes from the start.\<close>

definition writable_inum :: "u64 \<times> u64 \<Rightarrow> process \<Rightarrow> string \<Rightarrow> kernel \<Rightarrow> u32 outcome \<times> kernel" where
  "writable_inum now proc target k =
     on_result (ResolvePath proc target k) (\<lambda>inum k. (Ok inum, k)) (\<lambda>e k.
       if e = ENOENT then
         bindS (ResolvePath proc (path_dir target) k) (\<lambda>parentInum k.
         bindS (getInode parentInum k) (\<lambda>parentIn k.
         if \<not> canWrite (EUID proc) parentIn then (Err EACCES, k)
         else makeInode now parentInum (path_base target) S_IFREG (EUID proc) False 7 5 k))
       else (Err e, k))"

definition ops_write :: "inode \<Rightarrow> u32 \<Rightarrow> u8 list \<Rightarrow> kernel \<Rightarrow> unit outcome \<times> kernel" where
  "ops_write ino inum dat k = (case ops ino of
     None \<Rightarrow> (Panic, k)
   | Some (DirectoryOps d) \<Rightarrow> (Ok (), k)
   | Some RegularFileOps \<Rightarrow> (case FileFD_Write (RegularFileOps_CreateFD inum 0) dat k of
       (Ok (n, err), (f, k)) \<Rightarrow> (of_err err, k)
     | (Err e, (f, k)) \<Rightarrow> (Err e, k)
     | (Panic, (f, k)) \<Rightarrow> (Panic, k)))"

definition write_inum :: "process \<Rightarrow> u8 list \<Rightarrow> u32 \<Rightarrow> kernel \<Rightarrow> unit outcome \<times> kernel" where
  "write_inum proc dat inum k =
     bindS (getInode inum k) (\<lambda>ino k.
     if fType ino = S_IFDIR then (Err EISDIR, k)
     else if \<not> canWrite (EUID proc) ino then (Err EACCES, k)
     else bindS (resize_cached ino inum (of_nat (length dat)) k) (\<lambda>ino k.
       if dat = [] then store_inode ino inum k
       else ops_write ino inum dat k))"

definition writeFile :: "u64 \<times> u64 \<Rightarrow> process \<Rightarrow> string \<Rightarrow> u8 list \<Rightarrow> kernel \<Rightarrow> unit outcome \<times> kernel" where
  "writeFile now proc target dat k =
     bindS (writable_inum now proc (normalizePath proc target) k) (write_inum proc dat)"

text \<open>\<open>changeDirectory\<close> also changes the process.\<close>

definition changeDirectory :: "process \<Rightarrow> string \<Rightarrow> kernel \<Rightarrow> unit outcome \<times> process \<times> kernel" where
  "changeDirectory proc target k =
     (let target = normalizePath proc target;
          missing = ErrorText (target @ '': no such file or directory'')
      in case bindS (ResolvePath proc target k) getInode of
           (Panic, k) \<Rightarrow> (Panic, proc, k)
         | (Err e, k) \<Rightarrow> (Err missing, proc, k)
         | (Ok ino, k) \<Rightarrow>
             if fType ino \<noteq> S_IFDIR then (Err missing, proc, k)
             else if \<not> canExecute (EUID proc) ino then (Err (ErrorText (target @ '': permission denied'')), proc, k)
             else (Ok (), proc\<lparr>CWD := target\<rparr>, k))"

definition chmod :: "process \<Rightarrow> string \<Rightarrow> u8 \<Rightarrow> u8 \<Rightarrow> kernel \<Rightarrow> unit outcome \<times> kernel" where
  "chmod proc target newOwnerMode newOtherMode k =
     on_result (ResolvePath proc target k)
       (\<lambda>inum k. bindS (getInode inum k) (\<lambda>ino k.
          if EUID proc \<noteq> ''root'' \<and> ownerString (owner ino) \<noteq> EUID proc then
            (Err (ErrorText ''permission denied''), k)
          else let ino = ino\<lparr>ownerMode := newOwnerMode, otherMode := newOtherMode\<rparr>
               in store_inode ino inum (k\<lparr>inodeCache := (inodeCache k)(inum \<mapsto> ino)\<rparr>)))
       (\<lambda>e k. (Err (ErrorText ''no such file or directory''), k))"

end
