(* ===== verification/Procs.thy ===== *)
theory Procs
  imports Syscalls
begin

text \<open>
  Processes, file descriptors and the system call entry of \<open>computer/kernel.go\<close>. A program runs outside
  the kernel: \<open>exec\<close> takes it as the argument \<open>run\<close>, from its path, its process number and its
  arguments to its exit status and the kernel it leaves. A program started in the
  background runs on after \<open>exec\<close> returns; its exit is a later \<open>cleanupProcess\<close>.
\<close>

section \<open>Programs and process numbers\<close>

text \<open>Numbers are unbounded here; the \<open>int\<close> of the code would wrap after \<open>2^63 - 1\<close> programs were started.\<close>

definition RegisterProgram :: "string \<Rightarrow> kernel \<Rightarrow> kernel" where
  "RegisterProgram path k = k\<lparr>programs := insert path (programs k)\<rparr>"

definition nextPID :: "kernel \<Rightarrow> int \<times> kernel" where
  "nextPID k =
     (if freePIDs k \<noteq> [] then (last (freePIDs k), k\<lparr>freePIDs := butlast (freePIDs k)\<rparr>)
      else (pids k + 1, k\<lparr>pids := pids k + 1\<rparr>))"

definition cleanupProcess :: "int \<Rightarrow> kernel \<Rightarrow> kernel" where
  "cleanupProcess pid k = k\<lparr>procs := (procs k)(pid := None)\<rparr>"

section \<open>File descriptors and terminals\<close>

definition OpenTTY :: "nat \<Rightarrow> kernel \<Rightarrow> nat \<times> kernel" where
  "OpenTTY t k = (length (openFiles k),
     k\<lparr>openFiles := openFiles k @ [\<lparr>fd_Type = FDTTY, fd_TTY = t, fd_refs = 1\<rparr>]\<rparr>)"

text \<open>The description behind a descriptor, if the descriptor is good.\<close>

definition desc_of :: "process \<Rightarrow> int \<Rightarrow> kernel \<Rightarrow> file_description option" where
  "desc_of proc fd k =
     (if fd < 0 \<or> int (length (FDs proc)) \<le> fd then None
      else map_option (\<lambda>d. openFiles k ! d) (FDs proc ! nat fd))"

definition stdin_tty :: "process \<Rightarrow> kernel \<Rightarrow> nat option" where
  "stdin_tty proc k = (case desc_of proc 0 k of
     Some d \<Rightarrow> if fd_Type d = FDTTY then Some (fd_TTY d) else None
   | None \<Rightarrow> None)"

definition GetTtyID :: "process \<Rightarrow> kernel \<Rightarrow> string" where
  "GetTtyID proc k = (case stdin_tty proc k of Some t \<Rightarrow> tty_id (ttys k ! t) | None \<Rightarrow> [])"

definition set_tty :: "nat \<Rightarrow> tty \<Rightarrow> kernel \<Rightarrow> kernel" where
  "set_tty t tt k = k\<lparr>ttys := (ttys k)[t := tt]\<rparr>"

text \<open>\<open>Read\<close> with the events that arrive at the terminal; the result \<open>None\<close> means it still waits.\<close>

definition Kernel_Read :: "process \<Rightarrow> int \<Rightarrow> tty_event list \<Rightarrow> kernel \<Rightarrow>
    (string \<times> int) option outcome \<times> (kernel \<times> tty_event list)" where
  "Kernel_Read proc fd es k = (case desc_of proc fd k of
     None \<Rightarrow> (Ok (Some (''bad file descriptor'', Error)), (k, es))
   | Some d \<Rightarrow>
      if fd_Type d = FDTTY then
        (case TTY_Read (PGID proc) es (ttys k ! fd_TTY d) of (r, (tt, es)) \<Rightarrow> (r, (set_tty (fd_TTY d) tt k, es)))
      else (Ok (Some (''unsupported fd type'', Error)), (k, es)))"

definition Kernel_Write :: "process \<Rightarrow> int \<Rightarrow> u8 list \<Rightarrow> kernel \<Rightarrow> (nat \<times> go_error option) \<times> kernel" where
  "Kernel_Write proc fd dat k = (case desc_of proc fd k of
     None \<Rightarrow> ((0, Some (ErrorText ''bad file descriptor'')), k)
   | Some d \<Rightarrow>
      if fd_Type d = FDTTY then
        (case TTY_Write dat (ttys k ! fd_TTY d) of (r, tt) \<Rightarrow> (r, set_tty (fd_TTY d) tt k))
      else ((0, Some (ErrorText ''unsupported fd type'')), k))"

section \<open>ioctl\<close>

datatype ioctl_req = TIOCRAW | TIOCPASSWD | TIOCSPGRP | TIOCSWINSZ | TIOCBUFFCLEAR | TIOCGWINSZ | TIOCSESSION
  | TIOC_other int

record exec_opts =
  Background :: bool
  opt_PGID :: int

text \<open>
  The dynamic types of the arguments the callers pass as \<open>any\<close>. \<open>AWinsizePtr\<close> is a pointer to a
  \<open>Winsize\<close>. \<open>ioctl\<close> itself returns nothing but an error; the value of an \<open>ioctl\<close> that succeeds is here what it wrote
  through that pointer, \<open>None\<close> if it wrote nothing. The caller finds it there, so \<open>Syscall\<close> does not return it.
\<close>

datatype any_arg =
    AString string
  | ABytes "u8 list"
  | AInt int
  | AUint8 u8
  | ABool bool
  | AReq ioctl_req
  | AWinsize int int
  | AWinsizePtr
  | ASession "session option"
  | AContext
  | AStrings "string list"
  | AExecOpts exec_opts
  | ANil

definition bad_type :: "string \<Rightarrow> string \<Rightarrow> go_error" where
  "bad_type req t = ErrorText (''Invalid type for '' @ req @ '', needed '' @ t @ ''!'')"

definition tty_ioctl :: "ioctl_req \<Rightarrow> any_arg \<Rightarrow> (int \<rightharpoonup> int) \<Rightarrow> tty \<Rightarrow>
    (int \<times> int) option outcome \<times> (tty \<times> (signal \<times> int set) list)" where
  "tty_ioctl req arg groups t = (case req of
     TIOCRAW \<Rightarrow> (case arg of ABool raw \<Rightarrow> (Ok None, (t\<lparr>Canonical := \<not> raw, Echo := \<not> raw\<rparr>, []))
       | _ \<Rightarrow> (Err (bad_type ''TIOCRAW'' ''bool''), (t, [])))
   | TIOCPASSWD \<Rightarrow> (case arg of ABool v \<Rightarrow> (Ok None, (t\<lparr>PasswdMode := v\<rparr>, []))
       | _ \<Rightarrow> (Err (bad_type ''TIOCPASSWD'' ''bool''), (t, [])))
   | TIOCSPGRP \<Rightarrow> (case arg of AInt v \<Rightarrow> (Ok None, (SetForegroundPGID v t, []))
       | _ \<Rightarrow> (Err (bad_type ''TIOCSPGRP'' ''int''), (t, [])))
   | TIOCSWINSZ \<Rightarrow> (case arg of AWinsize w h \<Rightarrow> (Ok None, SetWinsize w h groups t)
       | _ \<Rightarrow> (Err (bad_type ''TIOCSWINSZ'' ''Winsize''), (t, [])))
   | TIOCBUFFCLEAR \<Rightarrow> (case arg of ABool v \<Rightarrow> (Ok None, (if v then BuffClear t else t, []))
       | _ \<Rightarrow> (Err (bad_type ''TIOCBUFFCLEAR'' ''bool''), (t, [])))
   | TIOCGWINSZ \<Rightarrow> (case arg of AWinsizePtr \<Rightarrow> (Ok (Some (Width t, Height t)), (t, []))
       | _ \<Rightarrow> (Err (bad_type ''TIOCGWINSZ'' ''*Winsize''), (t, [])))
   | TIOCSESSION \<Rightarrow> (case arg of ASession s \<Rightarrow> (Ok None, (t\<lparr>Session := s\<rparr>, []))
       | _ \<Rightarrow> (Err (bad_type ''TIOCSESSION'' ''*Session''), (t, [])))
   | TIOC_other _ \<Rightarrow> (Ok None, (t, [])))"

definition ioctl :: "process \<Rightarrow> int \<Rightarrow> ioctl_req \<Rightarrow> any_arg \<Rightarrow> kernel \<Rightarrow> (int \<times> int) option outcome \<times> kernel" where
  "ioctl proc fd req arg k = (case desc_of proc fd k of
     None \<Rightarrow> (Err (ErrorText ''bad file descriptor''), k)
   | Some d \<Rightarrow>
      if fd_Type d \<noteq> FDTTY then (Err (ErrorText ''not a tty''), k)
      else (case tty_ioctl req arg (pgids k) (ttys k ! fd_TTY d) of (r, (tt, sigs)) \<Rightarrow>
        (r, (set_tty (fd_TTY d) tt k)\<lparr>signals := signals k @ sigs\<rparr>)))"

section \<open>exec\<close>

text \<open>The effective user of a program: the owner of its file if that is setuid.\<close>

definition exec_euid :: "process \<Rightarrow> string \<Rightarrow> kernel \<Rightarrow> string outcome \<times> kernel" where
  "exec_euid parent binPath k =
     on_result (bindS (ResolvePath parent binPath k) getInode)
       (\<lambda>ino k. (Ok (if setuid ino then ownerString (owner ino) else UID parent), k))
       (\<lambda>e k. (Ok (UID parent), k))"

text \<open>Everything up to the start of the program.\<close>

definition exec_start :: "process \<Rightarrow> string \<Rightarrow> exec_opts \<Rightarrow> kernel \<Rightarrow> int outcome \<times> kernel" where
  "exec_start parent binPath opts k =
     (if binPath \<notin> programs k then (Err (ErrorText (binPath @ '': command not found'')), k)
      else case nextPID k of (pid, k) \<Rightarrow>
        bindS (exec_euid parent binPath k) (\<lambda>euid k.
        let pgid = (if opt_PGID opts = 0 then pid else opt_PGID opts);
            child = \<lparr>PID = pid, UID = UID parent, EUID = euid, CWD = CWD parent, PGID = pgid, FDs = FDs parent\<rparr>;
            k = k\<lparr>procs := (procs k)(pid \<mapsto> child)\<rparr>;
            k = (case stdin_tty child k of
                   Some t \<Rightarrow> set_tty t (SetForegroundPGID pgid (ttys k ! t)) k
                 | None \<Rightarrow> k)
        in (Ok pid, k)))"

type_synonym run = "string \<Rightarrow> int \<Rightarrow> string list \<Rightarrow> kernel \<Rightarrow> int \<times> kernel"

definition exec :: "run \<Rightarrow> process \<Rightarrow> string \<Rightarrow> string list \<Rightarrow> exec_opts \<Rightarrow> kernel \<Rightarrow> unit outcome \<times> kernel" where
  "exec run parent binPath args opts k =
     bindS (exec_start parent binPath opts k) (\<lambda>pid k.
       if Background opts then (Ok (), k)
       else case run binPath pid args k of (exitCode, k) \<Rightarrow>
         let k = cleanupProcess pid k
         in if exitCode \<noteq> Success then
              (Err (ErrorText (binPath @ '': exited with status '' @ itoa exitCode)), k)
            else (Ok (), k))"

section \<open>The system call entry\<close>

datatype syscall_num = SYS_READ | SYS_WRITE | SYS_READDIR | SYS_STAT | SYS_MKDIR | SYS_CREATE | SYS_REMOVE
  | SYS_CHDIR | SYS_CHMOD | SYS_IOCTL | SYS_EXEC | SYS_other int

datatype sys_result =
    RNil
  | RBytes "u8 list"
  | RInfos "file_info list"
  | RMeta file_metadata

text \<open>\<open>args[i].(T)\<close>: an index out of range panics, another type is \<open>EINVAL\<close>.\<close>

definition arg_at :: "nat \<Rightarrow> any_arg list \<Rightarrow> (any_arg \<Rightarrow> 'a option) \<Rightarrow> 'a outcome" where
  "arg_at i args f = (if i < length args then (case f (args ! i) of Some x \<Rightarrow> Ok x | None \<Rightarrow> Err EINVAL) else Panic)"

definition as_string :: "any_arg \<Rightarrow> string option" where
  "as_string a = (case a of AString s \<Rightarrow> Some s | _ \<Rightarrow> None)"
definition as_bytes :: "any_arg \<Rightarrow> u8 list option" where
  "as_bytes a = (case a of ABytes b \<Rightarrow> Some b | _ \<Rightarrow> None)"
definition as_uint8 :: "any_arg \<Rightarrow> u8 option" where
  "as_uint8 a = (case a of AUint8 b \<Rightarrow> Some b | _ \<Rightarrow> None)"
definition as_int :: "any_arg \<Rightarrow> int option" where
  "as_int a = (case a of AInt i \<Rightarrow> Some i | _ \<Rightarrow> None)"
definition as_req :: "any_arg \<Rightarrow> ioctl_req option" where
  "as_req a = (case a of AReq r \<Rightarrow> Some r | _ \<Rightarrow> None)"
definition as_context :: "any_arg \<Rightarrow> unit option" where
  "as_context a = (case a of AContext \<Rightarrow> Some () | _ \<Rightarrow> None)"
definition as_strings :: "any_arg \<Rightarrow> string list option" where
  "as_strings a = (case a of AStrings s \<Rightarrow> Some s | _ \<Rightarrow> None)"
definition as_opts :: "any_arg \<Rightarrow> exec_opts option" where
  "as_opts a = (case a of AExecOpts s \<Rightarrow> Some s | _ \<Rightarrow> None)"

lemmas as_defs = as_string_def as_bytes_def as_uint8_def as_int_def as_req_def as_context_def as_strings_def as_opts_def

definition on_path :: "any_arg list \<Rightarrow> kernel \<Rightarrow> (string \<Rightarrow> kernel \<Rightarrow> 'a outcome \<times> kernel) \<Rightarrow> 'a outcome \<times> kernel" where
  "on_path args k f = bindS (arg_at 0 args as_string, k) f"

definition result_of :: "('a \<Rightarrow> sys_result) \<Rightarrow> 'a outcome \<times> kernel \<Rightarrow> sys_result outcome \<times> kernel" where
  "result_of g m = bindS m (\<lambda>x k. (Ok (g x), k))"

text \<open>Every call but \<open>SYS_CHDIR\<close>, which also changes the process.\<close>

definition sys_call :: "run \<Rightarrow> u64 \<times> u64 \<Rightarrow> process \<Rightarrow> syscall_num \<Rightarrow> any_arg list \<Rightarrow> kernel \<Rightarrow>
    sys_result outcome \<times> kernel" where
  "sys_call run now proc n args k = (case n of
     SYS_READ \<Rightarrow> on_path args k (\<lambda>path k. result_of RBytes (readFile proc path k))
   | SYS_WRITE \<Rightarrow> on_path args k (\<lambda>path k.
       bindS (arg_at 1 args as_bytes, k) (\<lambda>dat k. result_of (\<lambda>_. RNil) (writeFile now proc path dat k)))
   | SYS_READDIR \<Rightarrow> on_path args k (\<lambda>path k. result_of RInfos (readDir proc path k))
   | SYS_STAT \<Rightarrow> on_path args k (\<lambda>path k. bindS (stat proc path k) (\<lambda>meta k.
       case meta of None \<Rightarrow> (Err ENOENT, k) | Some m \<Rightarrow> (Ok (RMeta m), k)))
   | SYS_MKDIR \<Rightarrow> on_path args k (\<lambda>path k. result_of (\<lambda>_. RNil) (mkDir now proc path k))
   | SYS_CREATE \<Rightarrow> on_path args k (\<lambda>path k. result_of (\<lambda>_. RNil) (createFile now proc path k))
   | SYS_REMOVE \<Rightarrow> on_path args k (\<lambda>path k. result_of (\<lambda>_. RNil) (removeAll proc path k))
   | SYS_CHMOD \<Rightarrow> on_path args k (\<lambda>path k.
       bindS (arg_at 1 args as_uint8, k) (\<lambda>ownerMode k.
       bindS (arg_at 2 args as_uint8, k) (\<lambda>otherMode k.
         result_of (\<lambda>_. RNil) (chmod proc path ownerMode otherMode k))))
   | SYS_IOCTL \<Rightarrow>
       bindS (arg_at 0 args as_int, k) (\<lambda>fd k.
       bindS (arg_at 1 args as_req, k) (\<lambda>req k.
       bindS (arg_at 2 args Some, k) (\<lambda>arg k.
         result_of (\<lambda>_. RNil) (ioctl proc fd req arg k))))
   | SYS_EXEC \<Rightarrow>
       bindS (arg_at 0 args as_context, k) (\<lambda>_ k.
       bindS (arg_at 1 args as_string, k) (\<lambda>binPath k.
       bindS (arg_at 2 args as_strings, k) (\<lambda>execArgs k.
       bindS (arg_at 3 args as_opts, k) (\<lambda>opts k.
         result_of (\<lambda>_. RNil) (exec run proc binPath execArgs opts k)))))
   | _ \<Rightarrow> (Err EINVAL, k))"

definition Syscall :: "run \<Rightarrow> u64 \<times> u64 \<Rightarrow> process \<Rightarrow> syscall_num \<Rightarrow> any_arg list \<Rightarrow> kernel \<Rightarrow>
    sys_result outcome \<times> process \<times> kernel" where
  "Syscall run now proc n args k =
     (if n = SYS_CHDIR then
        (case arg_at 0 args as_string of
           Err e \<Rightarrow> (Err e, proc, k)
         | Panic \<Rightarrow> (Panic, proc, k)
         | Ok path \<Rightarrow> (case changeDirectory proc path k of (r, proc, k) \<Rightarrow> (bindO r (\<lambda>_. Ok RNil), proc, k)))
      else (case sys_call run now proc n args k of (r, k) \<Rightarrow> (r, proc, k)))"

end
