(* ===== verification/Boot.thy ===== *)
theory Boot
  imports Procs Format
begin

text \<open>
  \<open>computer/computer.go\<close> and the texts of \<open>computer/config.go\<close>: making a computer, the tree of its
  first boot, and sessions. A computer is its kernel: \<open>Computer.fs\<close> and \<open>Computer.sessions\<close> are fields
  of the kernel's record. The calls read the clock; the \<open>j\<close>-th step of the first boot reads \<open>clock j\<close>.
\<close>

section \<open>The first-boot tree\<close>

definition newline :: string where "newline = [CHR 0x0A]"
definition tab :: string where "tab = [CHR 0x09]"

definition defaultEtcIssue :: "string \<Rightarrow> string \<Rightarrow> string" where
  "defaultEtcIssue hostname ip = newline @ tab @ ''Welcome to '' @ hostname @ '', '' @ ip @ ''!'' @ newline @
     tab @ ''Please login to continue.'' @ newline @ tab"

definition defaultEtcMotd :: string where
  "defaultEtcMotd = newline @ newline @ newline @ tab @ ''Welcome back, [[USERNAME]]'' @ newline @ newline @ tab"

definition root_proc :: process where
  "root_proc = \<lparr>PID = 0, UID = ''root'', EUID = ''root'', CWD = ''/'', PGID = 0, FDs = []\<rparr>"

datatype init_step = Mkdir string | Chmod string u8 u8 | Create string string | SetSetuid string

definition init_steps :: "string \<Rightarrow> string \<Rightarrow> init_step list" where
  "init_steps hostname ip =
     [Mkdir ''/var'', Mkdir ''/var/log'', Mkdir ''/etc'', Mkdir ''/bin'', Mkdir ''/home'', Mkdir ''/tmp'', Mkdir ''/root'',
      Chmod ''/root'' 7 0,
      Create ''/var/log/lastlogin'' [], Create ''/etc/passwd'' [], Create ''/etc/hostname'' hostname,
      Create ''/etc/issue'' (defaultEtcIssue hostname ip), Create ''/etc/motd'' defaultEtcMotd] @
     map (\<lambda>b. Create (''/bin/'' @ b) [])
       [''ls'', ''cat'', ''clear'', ''adduser'', ''login'', ''sh'', ''mkdir'', ''touch'', ''chmod'', ''rm'', ''v''] @
     map SetSetuid [''/bin/adduser'', ''/bin/login'']"

text \<open>A call whose error is ignored.\<close>

definition ignoring :: "'a outcome \<times> kernel \<Rightarrow> (kernel \<Rightarrow> unit outcome \<times> kernel) \<Rightarrow> unit outcome \<times> kernel" where
  "ignoring m f = on_result m (\<lambda>_ k. f k) (\<lambda>_ k. f k)"

text \<open>Changing the cached inode of a path and storing it, if the path resolves.\<close>

definition update_inode :: "string \<Rightarrow> (inode \<Rightarrow> inode) \<Rightarrow> kernel \<Rightarrow> unit outcome \<times> kernel" where
  "update_inode path f k =
     on_result (ResolvePath root_proc path k)
       (\<lambda>inum k. on_result (getInode inum k)
          (\<lambda>ino k. ignoring (store_inode (f ino) inum (k\<lparr>inodeCache := (inodeCache k)(inum \<mapsto> f ino)\<rparr>)) (\<lambda>k. (Ok (), k)))
          (\<lambda>_ k. (Ok (), k)))
       (\<lambda>_ k. (Ok (), k))"

definition init_step :: "u64 \<times> u64 \<Rightarrow> init_step \<Rightarrow> kernel \<Rightarrow> unit outcome \<times> kernel" where
  "init_step now s k = (case s of
     Mkdir path \<Rightarrow> ignoring (mkDir now root_proc path k) (\<lambda>k. (Ok (), k))
   | Chmod path om xm \<Rightarrow> ignoring (chmod root_proc path om xm k) (\<lambda>k. (Ok (), k))
   | Create path text \<Rightarrow> ignoring (createFile now root_proc path k) (\<lambda>k.
       if text \<noteq> [] then ignoring (writeFile now root_proc path (string_bytes text) k) (\<lambda>k. (Ok (), k))
       else (Ok (), k))
   | SetSetuid path \<Rightarrow> update_inode path (\<lambda>ino. ino\<lparr>setuid := True\<rparr>) k)"

fun run_steps :: "(nat \<Rightarrow> u64 \<times> u64) \<Rightarrow> nat \<Rightarrow> init_step list \<Rightarrow> kernel \<Rightarrow> unit outcome \<times> kernel" where
  "run_steps clock j [] k = (Ok (), k)"
| "run_steps clock j (s # ss) k = bindS (init_step (clock j) s k) (\<lambda>_ k. run_steps clock (Suc j) ss k)"

definition initFSTree :: "(nat \<Rightarrow> u64 \<times> u64) \<Rightarrow> string \<Rightarrow> string \<Rightarrow> kernel \<Rightarrow> unit outcome \<times> kernel" where
  "initFSTree clock hostname ip k =
     ignoring (on_fs (addDentry 2 \<lparr>Inum = 2, Name = ''.''\<rparr>) k) (\<lambda>k.
     ignoring (on_fs (addDentry 2 \<lparr>Inum = 2, Name = ''..''\<rparr>) k) (\<lambda>k.
     run_steps clock 0 (init_steps hostname ip) k))"

definition NewComputer :: "(nat \<Rightarrow> u64 \<times> u64) \<Rightarrow> string \<Rightarrow> string \<Rightarrow> u8 list option \<Rightarrow> u64 \<Rightarrow> u64 \<Rightarrow>
    unit outcome \<times> kernel" where
  "NewComputer clock name ip img ctime mtime =
     (let k = new_kernel (NewFileSystem img ctime mtime)
      in if freshFormat (kfs k) then initFSTree clock name ip k else (Ok (), k))"

section \<open>Sessions\<close>

definition GenerateSessionID :: "kernel \<Rightarrow> string" where
  "GenerateSessionID k = ''session-'' @ itoa (int (card (dom (sessions k))) + 1)"

definition home_dir :: "string \<Rightarrow> string" where
  "home_dir username = (if username = ''root'' then ''/root'' else ''/home/'' @ username)"

definition own_home :: "string \<Rightarrow> inode \<Rightarrow> inode" where
  "own_home username ino =
     (let ino = ino\<lparr>owner := ownerBytes username, otherMode := 5\<rparr>
      in if username = ''root'' then ino\<lparr>otherMode := 0\<rparr> else ino)"

definition NewSession :: "u64 \<times> u64 \<Rightarrow> string \<Rightarrow> kernel \<Rightarrow> (int \<times> string) outcome \<times> kernel" where
  "NewSession now username k =
     (let sessionID = GenerateSessionID k;
          workingDir = home_dir username;
          k = k\<lparr>sessions := (sessions k)(sessionID \<mapsto> \<lparr>SessionID = sessionID, CurrentUser = username\<rparr>)\<rparr>
      in bindS
           (on_result (ResolvePath root_proc workingDir k) (\<lambda>_ k. (Ok (), k))
              (\<lambda>_ k. ignoring (mkDir now root_proc workingDir k) (update_inode workingDir (own_home username))))
           (\<lambda>_ k. (Ok (Success, sessionID), k)))"

text \<open>\<open>Kernel.NewSession\<close> also attaches the session to the terminal of the caller.\<close>

definition Kernel_NewSession :: "u64 \<times> u64 \<Rightarrow> process \<Rightarrow> string \<Rightarrow> kernel \<Rightarrow> (int \<times> string) outcome \<times> kernel" where
  "Kernel_NewSession now proc username k =
     bindS (NewSession now username k) (\<lambda>(status, sessionID) k.
       ((Ok (status, sessionID)),
        case stdin_tty proc k of
          Some t \<Rightarrow> if status = Success then set_tty t ((ttys k ! t)\<lparr>Session := sessions k sessionID\<rparr>) k else k
        | None \<Rightarrow> k))"

section \<open>Connections\<close>

text \<open>
  The start of \<open>HandleClient\<close> (\<open>computer/handler.go\<close>): the terminal with a session that has no user
  yet, and the process everything the client runs descends from; and what the handler does to
  that process between the login and the shell. The terminal's number in its name is the number of
  terminals that have logged in, an argument here.
\<close>

definition open_client :: "nat \<Rightarrow> kernel \<Rightarrow> (nat \<times> process) \<times> kernel" where
  "open_client logged_in k =
     (let t = length (ttys k);
          tt = (NewTTY (''tty-'' @ itoa (int logged_in)))\<lparr>Session := Some \<lparr>SessionID = [], CurrentUser = []\<rparr>\<rparr>;
          k = k\<lparr>ttys := ttys k @ [tt]\<rparr>;
          (d, k) = OpenTTY t k
      in ((t, \<lparr>PID = 1, UID = ''root'', EUID = ''root'', CWD = ''/'', PGID = 0, FDs = [Some d, Some d, Some d]\<rparr>), k))"

definition become_user :: "string \<Rightarrow> process \<Rightarrow> process" where
  "become_user loggedInUser daddyProc = daddyProc\<lparr>UID := loggedInUser, EUID := loggedInUser,
     CWD := (if loggedInUser = ''root'' then ''/root'' else ''/home/'' @ loggedInUser)\<rparr>"

text \<open>The two programs of a connection, the login and then the shell as the user it logged in.\<close>

definition foreground_opts :: exec_opts where
  "foreground_opts = \<lparr>Background = False, opt_PGID = 0\<rparr>"

definition serve_shell :: "run \<Rightarrow> nat \<Rightarrow> process \<Rightarrow> kernel \<Rightarrow> unit outcome \<times> kernel" where
  "serve_shell run t daddyProc k =
     on_result (exec run daddyProc ''/bin/sh'' [] foreground_opts k)
       (\<lambda>_ k. (Ok (), set_tty t (writeToClient (newline @ ''Exiting...'') Exit (ttys k ! t)) k))
       (\<lambda>_ k. (Ok (), set_tty t (writeToClient (newline @ ''Exiting with an error'') Exit (ttys k ! t)) k))"

definition serve_client :: "run \<Rightarrow> nat \<Rightarrow> kernel \<Rightarrow> unit outcome \<times> kernel" where
  "serve_client run logged_in k = (case open_client logged_in k of ((t, daddyProc), k) \<Rightarrow>
     on_result (exec run daddyProc ''/bin/login'' [] foreground_opts k)
       (\<lambda>_ k. case Session (ttys k ! t) of
          None \<Rightarrow> (Panic, k)
        | Some s \<Rightarrow> serve_shell run t (become_user (CurrentUser s) daddyProc) k)
       (\<lambda>_ k. (Ok (), set_tty t (writeToClient (newline @ ''Invalid login or exit.'' @ [CHR 0x0D] @ newline) Exit (ttys k ! t)) k)))"

end
