(* ===== verification/SysSpec.thy ===== *)
theory SysSpec
  imports Boot
begin

text \<open>
  What the system calls on files do, seen from the tree: the calls that read are functions of the
  disk, and the calls that write change the content or the mode bits of one file, under the
  invariant of the kernel.
\<close>

section \<open>Reading\<close>

definition spec_read :: "filesystem \<Rightarrow> string \<Rightarrow> string list \<Rightarrow> u8 list outcome" where
  "spec_read fs euid ds = bindO (lookup_path fs euid ds 2) (\<lambda>i.
     if is_dir fs i then Err EISDIR
     else if \<not> canRead euid (disk_inode fs (unat i)) then Err EACCES
     else Ok (content fs i))"

lemma usable_inv:
  assumes "kernel_inv k" "live (kfs k) i \<noteq> None" "\<not> is_dir (kfs k) i"
  shows "usable k i"
  using assms unfolding usable_def coherent_def
  by (auto simp: kernel_inv_fs kernel_inv_def cache_ok_def cached_ok_def)

text \<open>A cached file: its size is that of the content, and it has the operations of a file.\<close>

lemma cached_file:
  assumes "kernel_inv k" "live (kfs k) i \<noteq> None" "\<not> is_dir (kfs k) i" "cached_ok (kfs k) i ino"
  shows "disk_part ino = disk_inode (kfs k) (unat i)" "ops ino = Some RegularFileOps"
    "length (content (kfs k) i) = unat (isize ino)" "inode_wf (kfs k) ino"
proof -
  have l: "ino\<lparr>dirty := False\<rparr> = loaded (kfs k) i" using assms(3,4) by (simp add: cached_ok_def)
  show p: "disk_part ino = disk_inode (kfs k) (unat i)" by (rule coherent_disk_part[OF l])
  show "ops ino = Some RegularFileOps"
    using arg_cong[OF l, of ops] assms(3) kernel_inv_type[OF assms(1-3)] by simp
  have s: "live (kfs k) i = Some (disk_inode (kfs k) (unat i))" using assms(2) by (auto simp: live_def split: if_splits)
  show w: "inode_wf (kfs k) ino"
    using fs_inv_wf[OF kernel_inv_fs(1)[OF assms(1)] s] inode_wf_disk_part[of "kfs k" ino] p by simp
  have "content (kfs k) i = file_bytes (kfs k) ino"
    using file_bytes_disk_part[of "kfs k" ino] p by (simp add: content_def)
  then show "length (content (kfs k) i) = unat (isize ino)"
    using length_file_bytes[OF kernel_inv_fs(4)[OF assms(1)] w] by simp
qed

lemma FileFD_Read_kernel: "FileFD_Read f b k = (r, (f', b', k')) \<Longrightarrow> k' = snd (getInode (inodeNum f) k)"
  by (auto simp: FileFD_Read_def Let_def split: prod.splits outcome.splits if_splits)

lemma ops_read_file:
  assumes inv: "kernel_inv k" and i: "live (kfs k) i \<noteq> None" "\<not> is_dir (kfs k) i"
    and c: "inodeCache k i = Some ino" "cached_ok (kfs k) i ino" and sz: "isize ino \<noteq> 0"
  shows "ops_read ino i (replicate (unat (isize ino)) 0) k = (Ok (content (kfs k) i), k)"
proof -
  note f = cached_file[OF inv i c(2)]
  let ?f = "RegularFileOps_CreateFD i 0" and ?n = "unat (isize ino)" and ?b = "replicate (unat (isize ino)) 0"
  have fd: "inodeNum ?f = i" "offset ?f = 0" by (simp_all add: RegularFileOps_CreateFD_def)
  have u: "usable k (inodeNum ?f)" using usable_inv[OF inv i] fd by simp
  have "0 < ?n" using sz by (simp add: unat_gt_0)
  then have off: "unat (offset ?f) < length (content (kfs k) (inodeNum ?f))" using f(3) fd by simp
  have w32: "unat (isize ino) < 2 ^ 32" using unsigned_less[of "isize ino"] by simp
  then have small: "length ?b < 2 ^ 63" by simp
  have n: "?n = min (length ?b) (length (content (kfs k) (inodeNum ?f)) - unat (offset ?f))" using f(3) fd by simp
  obtain ino' where r: "FileFD_Read ?f ?b k = (Ok (of_nat ?n, None), (?f\<lparr>offset := offset ?f + of_nat ?n\<rparr>,
      put_at 0 (slice (unat (offset ?f)) (unat (offset ?f) + ?n) (content (kfs k) (inodeNum ?f))) ?b,
      k\<lparr>inodeCache := (inodeCache k)(inodeNum ?f \<mapsto> ino')\<rparr>))"
    using FileFD_Read_content[OF u off small n] by blast
  have "put_at 0 (slice (unat (offset ?f)) (unat (offset ?f) + ?n) (content (kfs k) (inodeNum ?f))) ?b = content (kfs k) i"
    using f(3) fd by (simp add: slice_def put_at_def)
  moreover have "getInode i k = (Ok ino, k)" using c(1) by (simp add: getInode_def)
  ultimately show ?thesis
    using r FileFD_Read_kernel[OF r] f(2) fd by (simp add: ops_read_def)
qed

text \<open>After the resolution and the load, every call goes on from an inode in use and in the cache.\<close>

lemma resolve_load:
  assumes inv: "kernel_inv k" and r: "lookup_path (kfs k) (EUID proc) (path_of proc target) 2 = Ok i"
  obtains k1 ino k2 where "ResolvePath proc target k = (Ok i, k1)" "getInode i k1 = (Ok ino, k2)"
    "kernel_inv k2" "cache_only k k2" "inodeCache k2 i = Some ino" "cached_ok (kfs k) i ino" "live (kfs k) i \<noteq> None"
proof -
  obtain k1 where k1: "ResolvePath proc target k = (Ok i, k1)" "kernel_inv k1" "cache_only k k1"
    using ResolvePath_lookup[OF inv] r by metis
  have l: "live (kfs k) i \<noteq> None" by (rule lookup_root_live[OF inv r])
  have e: "kfs k1 = kfs k" using k1(3) by simp
  have l1: "live (kfs k1) i \<noteq> None" using l e by simp
  obtain ino k2 where k2: "getInode i k1 = (Ok ino, k2)" "cached_ok (kfs k1) i ino" "kernel_inv k2" "cache_only k1 k2"
    "inodeCache k2 i = Some ino"
    by (rule getInode_inv[OF k1(2) l1])
  show ?thesis
    by (rule that[OF k1(1) k2(1,3) cache_only_trans[OF k1(3) k2(4)] k2(5) _ l]) (use k2(2) e in simp)
qed

lemma resolve_fails:
  assumes "kernel_inv k" "\<And>i. lookup_path (kfs k) (EUID proc) (path_of proc target) 2 \<noteq> Ok i"
  obtains e k' where "lookup_path (kfs k) (EUID proc) (path_of proc target) 2 = Err e"
    "ResolvePath proc target k = (Err e, k')" "kernel_inv k'" "cache_only k k'"
proof -
  have np: "lookup_path (kfs k) euid ds i \<noteq> Panic" for euid ds i
    by (induction ds arbitrary: i) (auto split: option.splits)
  obtain e where e: "lookup_path (kfs k) (EUID proc) (path_of proc target) 2 = Err e"
    using assms(2) np by (metis outcome.exhaust)
  obtain k' where "ResolvePath proc target k = (Err e, k')" "kernel_inv k'" "cache_only k k'"
    using ResolvePath_lookup[OF assms(1)] e by metis
  with e show ?thesis by (rule that)
qed

lemma readFile_spec:
  assumes inv: "kernel_inv k"
  obtains k' where "readFile proc target k = (spec_read (kfs k) (EUID proc) (path_of proc target), k')"
    "kernel_inv k'" "cache_only k k'"
proof (cases "\<exists>i. lookup_path (kfs k) (EUID proc) (path_of proc target) 2 = Ok i")
  case False
  then obtain e k' where "lookup_path (kfs k) (EUID proc) (path_of proc target) 2 = Err e"
    "ResolvePath proc target k = (Err e, k')" "kernel_inv k'" "cache_only k k'"
    using resolve_fails[OF inv] by metis
  then show ?thesis by (intro that[of k']) (simp_all add: readFile_def spec_read_def)
next
  case True
  then obtain i where i: "lookup_path (kfs k) (EUID proc) (path_of proc target) 2 = Ok i" by blast
  obtain k1 ino k2 where g: "ResolvePath proc target k = (Ok i, k1)" "getInode i k1 = (Ok ino, k2)"
    "kernel_inv k2" "cache_only k k2" "inodeCache k2 i = Some ino" "cached_ok (kfs k) i ino" "live (kfs k) i \<noteq> None"
    by (rule resolve_load[OF inv i])
  have e: "kfs k2 = kfs k" using g(4) by simp
  note c = cached_ok_sel(7)[OF g(6)] can_cached(1)[OF g(6)]
  show ?thesis
  proof (rule that[OF _ g(3,4)])
    show "readFile proc target k = (spec_read (kfs k) (EUID proc) (path_of proc target), k2)"
    proof (cases "is_dir (kfs k) i \<or> \<not> canRead (EUID proc) (disk_inode (kfs k) (unat i))")
      case True
      then show ?thesis using i g(1,2) c by (auto simp: readFile_def spec_read_def)
    next
      case False
      have li: "live (kfs k2) i \<noteq> None" "\<not> is_dir (kfs k2) i" "cached_ok (kfs k2) i ino" using False e g(6,7) by simp_all
      have sz: "content (kfs k) i = []" if "isize ino = 0"
        using cached_file(3)[OF g(3) li] that e by simp
      show ?thesis
        using False i g(1,2) c sz ops_read_file[OF g(3) li(1,2) g(5) li(3)] e
        by (simp add: readFile_def spec_read_def)
    qed
  qed
qed

text \<open>\<open>readDir\<close> lists the entries but the two dots, with the kind of each.\<close>

definition info_of :: "filesystem \<Rightarrow> dir_entry \<Rightarrow> file_info" where
  "info_of fs e = \<lparr>fi_Name = Name e, IsDir = is_dir fs (Inum e), fi_Inum = Inum e\<rparr>"

definition not_dot :: "dir_entry \<Rightarrow> bool" where
  "not_dot e \<longleftrightarrow> Name e \<noteq> ''.'' \<and> Name e \<noteq> ''..''"

definition spec_list :: "filesystem \<Rightarrow> string \<Rightarrow> string list \<Rightarrow> file_info list outcome" where
  "spec_list fs euid ds = bindO (lookup_path fs euid ds 2) (\<lambda>i.
     if \<not> is_dir fs i then Err ENOTDIR
     else if \<not> canRead euid (disk_inode fs (unat i)) then Err EACCES
     else Ok (map (info_of fs) (filter not_dot (entries (dir_slots fs i)))))"

lemma entry_infos_inv:
  assumes "kernel_inv k" "\<forall>e \<in> set es. live (kfs k) (Inum e) \<noteq> None"
  obtains k' where "entry_infos es k = (Ok (map (info_of (kfs k)) (filter not_dot es)), k')"
    "kernel_inv k'" "cache_only k k'"
  using assms
proof (induction es arbitrary: k thesis)
  case Nil
  then show ?case by simp
next
  case (Cons e es)
  show ?case
  proof (cases "not_dot e")
    case False
    obtain k' where "entry_infos es k = (Ok (map (info_of (kfs k)) (filter not_dot es)), k')"
      "kernel_inv k'" "cache_only k k'"
      by (rule Cons.IH[OF _ Cons.prems(2)]) (use Cons.prems(3) in auto)
    moreover have "filter not_dot (e # es) = filter not_dot es" "Name e = ''.'' \<or> Name e = ''..''"
      using False by (simp_all add: not_dot_def)
    ultimately show ?thesis by (intro Cons.prems(1)[of k']) simp_all
  next
    case True
    have l: "live (kfs k) (Inum e) \<noteq> None" using Cons.prems(3) by simp
    obtain ino k1 where g: "getInode (Inum e) k = (Ok ino, k1)" "cached_ok (kfs k) (Inum e) ino" "kernel_inv k1" "cache_only k k1"
      by (rule getInode_inv[OF Cons.prems(2) l])
    have e1: "kfs k1 = kfs k" using g(4) by simp
    obtain k' where r: "entry_infos es k1 = (Ok (map (info_of (kfs k1)) (filter not_dot es)), k')"
      "kernel_inv k'" "cache_only k1 k'"
      by (rule Cons.IH[OF _ g(3)]) (use Cons.prems(3) e1 in auto)
    have "entry_infos (e # es) k = (Ok (map (info_of (kfs k)) (filter not_dot (e # es))), k')"
      using True g(1) r(1) cached_ok_sel(7)[OF g(2)] e1 by (simp add: not_dot_def info_of_def)
    then show ?thesis by (rule Cons.prems(1)[OF _ r(2) cache_only_trans[OF g(4) r(3)]])
  qed
qed

lemma readDir_spec:
  assumes inv: "kernel_inv k"
  obtains k' where "readDir proc target k = (spec_list (kfs k) (EUID proc) (path_of proc target), k')"
    "kernel_inv k'" "cache_only k k'"
proof (cases "\<exists>i. lookup_path (kfs k) (EUID proc) (path_of proc target) 2 = Ok i")
  case False
  then obtain e k' where "lookup_path (kfs k) (EUID proc) (path_of proc target) 2 = Err e"
    "ResolvePath proc target k = (Err e, k')" "kernel_inv k'" "cache_only k k'"
    using resolve_fails[OF inv] by metis
  then show ?thesis by (intro that[of k']) (simp_all add: readDir_def spec_list_def)
next
  case True
  then obtain i where i: "lookup_path (kfs k) (EUID proc) (path_of proc target) 2 = Ok i" by blast
  obtain k1 ino k2 where g: "ResolvePath proc target k = (Ok i, k1)" "getInode i k1 = (Ok ino, k2)"
    "kernel_inv k2" "cache_only k k2" "inodeCache k2 i = Some ino" "cached_ok (kfs k) i ino" "live (kfs k) i \<noteq> None"
    by (rule resolve_load[OF inv i])
  have e: "kfs k2 = kfs k" using g(4) by simp
  note c = cached_ok_sel(7)[OF g(6)] can_cached(1)[OF g(6)]
  show ?thesis
  proof (cases "\<not> is_dir (kfs k) i \<or> \<not> canRead (EUID proc) (disk_inode (kfs k) (unat i))")
    case True
    then have "readDir proc target k = (spec_list (kfs k) (EUID proc) (path_of proc target), k2)"
      using i g(1,2) c by (auto simp: readDir_def spec_list_def)
    then show ?thesis by (rule that[OF _ g(3,4)])
  next
    case False
    have d: "live (kfs k2) i \<noteq> None" "is_dir (kfs k2) i" "cached_ok (kfs k2) i ino" using False g(6,7) e by simp_all
    have r: "ops_ReadEntries ino (kfs k2) = Ok (entries (dir_slots (kfs k2) i))"
      by (rule ops_ReadEntries_inv[OF g(3) d])
    have l: "\<forall>en \<in> set (entries (dir_slots (kfs k2) i)). live (kfs k2) (Inum en) \<noteq> None"
      using kernel_inv_dir(2)[OF g(3) d(1,2)] by (auto simp: in_entries)
    obtain k' where k': "entry_infos (entries (dir_slots (kfs k2) i)) k2 =
        (Ok (map (info_of (kfs k2)) (filter not_dot (entries (dir_slots (kfs k2) i)))), k')"
      "kernel_inv k'" "cache_only k2 k'"
      by (rule entry_infos_inv[OF g(3) l])
    have "readDir proc target k = (spec_list (kfs k) (EUID proc) (path_of proc target), k')"
      using False i g(1,2) c r k'(1) e by (simp add: readDir_def spec_list_def)
    then show ?thesis by (rule that[OF _ k'(2) cache_only_trans[OF g(4) k'(3)]])
  qed
qed

definition spec_stat :: "filesystem \<Rightarrow> process \<Rightarrow> string \<Rightarrow> file_metadata option" where
  "spec_stat fs proc target = (case lookup_path fs (EUID proc) (path_of proc target) 2 of
     Ok i \<Rightarrow> let ino = disk_inode fs (unat i) in
       Some \<lparr>Filepath = abs_path (path_of proc target), Owner = ownerString (owner ino), Setuid = setuid ino,
         OwnerMode = ownerMode ino, OtherMode = otherMode ino\<rparr>
   | _ \<Rightarrow> None)"

lemma stat_spec:
  assumes inv: "kernel_inv k"
  obtains k' where "stat proc target k = (Ok (spec_stat (kfs k) proc target), k')" "kernel_inv k'" "cache_only k k'"
proof (cases "\<exists>i. lookup_path (kfs k) (EUID proc) (path_of proc target) 2 = Ok i")
  case False
  then obtain e k' where "lookup_path (kfs k) (EUID proc) (path_of proc target) 2 = Err e"
    "ResolvePath proc target k = (Err e, k')" "kernel_inv k'" "cache_only k k'"
    using resolve_fails[OF inv] by metis
  then show ?thesis by (intro that[of k']) (simp_all add: stat_def spec_stat_def)
next
  case True
  then obtain i where i: "lookup_path (kfs k) (EUID proc) (path_of proc target) 2 = Ok i" by blast
  obtain k1 ino k2 where g: "ResolvePath proc target k = (Ok i, k1)" "getInode i k1 = (Ok ino, k2)"
    "kernel_inv k2" "cache_only k k2" "inodeCache k2 i = Some ino" "cached_ok (kfs k) i ino" "live (kfs k) i \<noteq> None"
    by (rule resolve_load[OF inv i])
  show ?thesis
    by (rule that[OF _ g(3,4)])
      (simp add: stat_def spec_stat_def i g(1,2) cached_ok_sel[OF g(6)] path_of(1) Let_def)
qed

lemma changeDirectory_spec:
  assumes inv: "kernel_inv k"
    and t: "target' = abs_path (path_of proc target)"
  obtains k' where "changeDirectory proc target k =
      (case lookup_path (kfs k) (EUID proc) (path_of proc target) 2 of
         Ok i \<Rightarrow> if \<not> is_dir (kfs k) i then (Err (ErrorText (target' @ '': no such file or directory'')), proc, k')
           else if \<not> canExecute (EUID proc) (disk_inode (kfs k) (unat i)) then
             (Err (ErrorText (target' @ '': permission denied'')), proc, k')
           else (Ok (), proc\<lparr>CWD := target'\<rparr>, k')
       | _ \<Rightarrow> (Err (ErrorText (target' @ '': no such file or directory'')), proc, k'))"
    "kernel_inv k'" "cache_only k k'"
proof -
  have n: "normalizePath proc target = target'" unfolding t by (rule path_of(1))
  have p: "path_of proc target' = path_of proc target"
    unfolding t by (rule path_of_abs_path[OF path_of(2)])
  show ?thesis
  proof (cases "\<exists>i. lookup_path (kfs k) (EUID proc) (path_of proc target) 2 = Ok i")
    case False
    then obtain e k' where "lookup_path (kfs k) (EUID proc) (path_of proc target) 2 = Err e"
      "ResolvePath proc target' k = (Err e, k')" "kernel_inv k'" "cache_only k k'"
      using resolve_fails[OF inv, of proc target'] p by metis
    then show ?thesis by (intro that[of k']) (simp_all add: changeDirectory_def n Let_def)
  next
    case True
    then obtain i where i: "lookup_path (kfs k) (EUID proc) (path_of proc target) 2 = Ok i" by blast
    then have i': "lookup_path (kfs k) (EUID proc) (path_of proc target') 2 = Ok i" by (simp add: p)
    obtain k1 ino k2 where g: "ResolvePath proc target' k = (Ok i, k1)" "getInode i k1 = (Ok ino, k2)"
      "kernel_inv k2" "cache_only k k2" "inodeCache k2 i = Some ino" "cached_ok (kfs k) i ino" "live (kfs k) i \<noteq> None"
      by (rule resolve_load[OF inv i'])
    show ?thesis
      by (rule that[OF _ g(3,4)])
        (use i g(1,2) cached_ok_sel(7)[OF g(6)] can_cached(3)[OF g(6)] in \<open>simp add: changeDirectory_def n Let_def\<close>)
  qed
qed

end
