(* ===== verification/Tree.thy ===== *)
theory Tree
  imports SysSpec
begin

text \<open>
  The file system as a tree: a map from inode numbers to nodes, a node being a file with its bytes or
  a directory with its slots. Path resolution is a walk over the tree (\<open>tree_lookup\<close>), and this is
  the view in which the calls that change the file system are specified: each updates one or two
  nodes. The lemmas here say what the storage operations below them do to the tree.
\<close>

section \<open>Nodes\<close>

record node_meta =
  m_owner :: "u8 list"
  m_setuid :: bool
  m_ownerMode :: u8
  m_otherMode :: u8

datatype node = File_node node_meta "u8 list" | Dir_node node_meta "dir_entry option list"

type_synonym tree = "u32 \<rightharpoonup> node"

definition meta_of :: "inode \<Rightarrow> node_meta" where
  "meta_of ino = \<lparr>m_owner = owner ino, m_setuid = setuid ino, m_ownerMode = ownerMode ino, m_otherMode = otherMode ino\<rparr>"

definition node_of :: "filesystem \<Rightarrow> u32 \<Rightarrow> node" where
  "node_of fs i = (if is_dir fs i then Dir_node (meta_of (disk_inode fs (unat i))) (dir_slots fs i)
     else File_node (meta_of (disk_inode fs (unat i))) (content fs i))"

definition tree :: "filesystem \<Rightarrow> tree" where
  "tree fs i = (if live fs i = None then None else Some (node_of fs i))"

text \<open>The three permissions, \<open>canWrite\<close> and its likes, over the metadata; the bits are 2, 4 and 1.\<close>

definition may :: "u8 \<Rightarrow> string \<Rightarrow> node_meta \<Rightarrow> bool" where
  "may bits euid m \<longleftrightarrow> euid = ''root'' \<or>
     (if ownerString (m_owner m) = euid then m_ownerMode m AND bits \<noteq> 0 else m_otherMode m AND bits \<noteq> 0)"

lemma can_may:
  "canWrite euid ino = may 2 euid (meta_of ino)" "canRead euid ino = may 4 euid (meta_of ino)"
  "canExecute euid ino = may 1 euid (meta_of ino)"
  by (simp_all add: canWrite_def canRead_def canExecute_def may_def meta_of_def)

lemma tree_None [simp]: "tree fs i = None \<longleftrightarrow> live fs i = None"
  by (simp add: tree_def)

lemma tree_live: "tree fs i = Some n \<Longrightarrow> live fs i \<noteq> None"
  by (auto simp: tree_def split: if_splits)

lemma tree_dir:
  "tree fs i = Some (Dir_node m xs) \<longleftrightarrow>
     live fs i \<noteq> None \<and> is_dir fs i \<and> m = meta_of (disk_inode fs (unat i)) \<and> xs = dir_slots fs i"
  by (auto simp: tree_def node_of_def)

lemma tree_file:
  "tree fs i = Some (File_node m bs) \<longleftrightarrow>
     live fs i \<noteq> None \<and> \<not> is_dir fs i \<and> m = meta_of (disk_inode fs (unat i)) \<and> bs = content fs i"
  by (auto simp: tree_def node_of_def)

lemma live_range: "live fs i \<noteq> None \<Longrightarrow> unat i < INODES"
  by (auto simp: live_def split: if_splits)

lemma live_inode: "live fs i \<noteq> None \<Longrightarrow> live fs i = Some (disk_inode fs (unat i))"
  by (auto simp: live_def split: if_splits)

section \<open>Looking a path up in the tree\<close>

fun tree_lookup :: "tree \<Rightarrow> string \<Rightarrow> string list \<Rightarrow> u32 \<Rightarrow> u32 outcome" where
  "tree_lookup t euid [] i = Ok i"
| "tree_lookup t euid (d # ds) i = (case t i of
     Some (Dir_node m xs) \<Rightarrow>
       if \<not> may 1 euid m then Err EACCES
       else (case slot_names xs d of None \<Rightarrow> Err ENOENT | Some j \<Rightarrow> tree_lookup t euid ds j)
   | _ \<Rightarrow> Err ENOTDIR)"

lemma lookup_path_tree:
  assumes "kernel_inv k" "live (kfs k) i \<noteq> None"
  shows "lookup_path (kfs k) euid ds i = tree_lookup (tree (kfs k)) euid ds i"
  using assms(2)
proof (induction ds arbitrary: i)
  case (Cons d ds)
  show ?case
  proof (cases "is_dir (kfs k) i")
    case True
    then have t: "tree (kfs k) i = Some (Dir_node (meta_of (disk_inode (kfs k) (unat i))) (dir_slots (kfs k) i))"
      using Cons.prems by (simp add: tree_dir)
    show ?thesis
    proof (cases "slot_names (dir_slots (kfs k) i) d")
      case (Some j)
      then show ?thesis
        using Cons.IH[OF slot_names_live(1)[OF assms(1) Cons.prems True Some]] True t by (simp add: can_may)
    qed (use True t in \<open>simp add: can_may\<close>)
  next
    case False
    then have "tree (kfs k) i = Some (File_node (meta_of (disk_inode (kfs k) (unat i))) (content (kfs k) i))"
      using Cons.prems by (simp add: tree_file)
    then show ?thesis using False by simp
  qed
qed simp

lemma lookup_root_tree: "kernel_inv k \<Longrightarrow> lookup_path (kfs k) euid ds 2 = tree_lookup (tree (kfs k)) euid ds 2"
  using lookup_path_tree kernel_inv_fs(2) by blast

text \<open>A lookup sees the directories only.\<close>

definition same_dirs :: "tree \<Rightarrow> tree \<Rightarrow> bool" where
  "same_dirs t t' \<longleftrightarrow> (\<forall>i m xs. t i = Some (Dir_node m xs) \<longleftrightarrow> t' i = Some (Dir_node m xs))"

lemma tree_lookup_same_dirs: "same_dirs t t' \<Longrightarrow> tree_lookup t euid ds i = tree_lookup t' euid ds i"
proof (induction ds arbitrary: i)
  case (Cons d ds)
  show ?case
  proof (cases "\<exists>m xs. t i = Some (Dir_node m xs)")
    case True
    then obtain m xs where "t i = Some (Dir_node m xs)" by blast
    moreover from this have "t' i = Some (Dir_node m xs)" using Cons.prems by (simp add: same_dirs_def)
    ultimately show ?thesis using Cons by (simp split: option.split)
  next
    case False
    then have "\<nexists>m xs. t' i = Some (Dir_node m xs)" using Cons.prems by (simp add: same_dirs_def)
    with False show ?thesis by (auto split: option.split node.split)
  qed
qed simp

lemma tree_lookup_append:
  "tree_lookup t euid (ds @ es) i = bindO (tree_lookup t euid ds i) (\<lambda>j. tree_lookup t euid es j)"
  by (induction ds arbitrary: i) (auto split: option.splits node.splits)

section \<open>Steps of the file system\<close>

text \<open>The nodes outside a set of numbers stay as they are.\<close>

definition nodes_kept :: "u32 set \<Rightarrow> filesystem \<Rightarrow> filesystem \<Rightarrow> bool" where
  "nodes_kept S fs fs' \<longleftrightarrow>
     (\<forall>j. j \<notin> S \<longrightarrow> live fs' j = live fs j \<and> (live fs j \<noteq> None \<longrightarrow> content fs' j = content fs j))"

lemma fs_kept_nodes: "fs_kept i fs fs' \<Longrightarrow> nodes_kept {i} fs fs'"
  using fs_kept_live[of i fs fs'] by (auto simp: nodes_kept_def fs_kept_def)

lemma nodes_kept_trans: "nodes_kept S a b \<Longrightarrow> nodes_kept T b c \<Longrightarrow> S \<subseteq> U \<Longrightarrow> T \<subseteq> U \<Longrightarrow> nodes_kept U a c"
  unfolding nodes_kept_def by (metis subsetD)

lemma nodes_kept_mono: "nodes_kept S a b \<Longrightarrow> S \<subseteq> U \<Longrightarrow> nodes_kept U a b"
  unfolding nodes_kept_def by blast

lemma nodes_keptD:
  assumes "nodes_kept S fs fs'" "j \<notin> S" "live fs j \<noteq> None"
  shows "disk_inode fs' (unat j) = disk_inode fs (unat j)" "is_dir fs' j = is_dir fs j"
    "dir_slots fs' j = dir_slots fs j" "content fs' j = content fs j" "loaded fs' j = loaded fs j"
    "dir_ok fs' j = dir_ok fs j" "live fs' j = live fs j" "cached_ok fs' j = cached_ok fs j"
proof -
  have l: "live fs' j = live fs j" and c: "content fs' j = content fs j"
    using assms unfolding nodes_kept_def by blast+
  have d: "disk_inode fs' (unat j) = disk_inode fs (unat j)"
    using l assms(3) live_inode[of fs j] live_inode[of fs' j] by simp
  show "disk_inode fs' (unat j) = disk_inode fs (unat j)" "content fs' j = content fs j" "live fs' j = live fs j"
    by (fact d c l)+
  show "is_dir fs' j = is_dir fs j" "dir_slots fs' j = dir_slots fs j" "loaded fs' j = loaded fs j"
    "dir_ok fs' j = dir_ok fs j" by (simp_all add: is_dir_def dir_slots_def dir_ok_def loaded_def d c l)
  then show "cached_ok fs' j = cached_ok fs j" unfolding cached_ok_def fun_eq_iff by (simp add: d)
qed

lemma nodes_kept_tree:
  assumes "nodes_kept S fs fs'" "j \<notin> S"
  shows "tree fs' j = tree fs j"
proof (cases "live fs j")
  case None
  then show ?thesis using assms unfolding nodes_kept_def tree_def by metis
next
  case (Some x)
  then show ?thesis using nodes_keptD[OF assms] by (simp add: tree_def node_of_def)
qed

lemma tree_update:
  assumes "nodes_kept {i} fs fs'" "live fs' i \<noteq> None"
  shows "tree fs' = (tree fs)(i \<mapsto> node_of fs' i)"
  using nodes_kept_tree[OF assms(1)] assms(2) by (auto simp: tree_def fun_eq_iff)

text \<open>The invariant after a step is a matter of the nodes it changed.\<close>

definition node_ok :: "filesystem \<Rightarrow> u32 \<Rightarrow> bool" where
  "node_ok fs i \<longleftrightarrow> (if is_dir fs i then dir_ok fs i \<and> (\<forall>e \<in> set (entries (dir_slots fs i)). live fs (Inum e) \<noteq> None)
     else fType (disk_inode fs (unat i)) = S_IFREG)"

lemma tree_ok_nodes:
  "tree_ok fs \<longleftrightarrow> fs_inv fs \<and> live fs 0 \<noteq> None \<and> live fs 2 \<noteq> None \<and> is_dir fs 2 \<and>
     (\<forall>i. live fs i \<noteq> None \<longrightarrow> node_ok fs i)"
proof -
  have "(\<forall>i. A i \<longrightarrow> (if P i then R i else Q i)) \<longleftrightarrow> (\<forall>i. A i \<longrightarrow> P i \<or> Q i) \<and> (\<forall>i. A i \<longrightarrow> P i \<longrightarrow> R i)"
    for A P Q R :: "u32 \<Rightarrow> bool" by auto
  then show ?thesis unfolding tree_ok_def node_ok_def by simp
qed

lemma tree_ok_step:
  assumes t: "tree_ok fs" and inv: "fs_inv fs'" and kept: "nodes_kept S fs fs'"
    and grow: "\<And>j. live fs j \<noteq> None \<Longrightarrow> live fs' j \<noteq> None"
    and dirs: "2 \<in> S \<Longrightarrow> is_dir fs' 2"
    and S: "\<And>j. j \<in> S \<Longrightarrow> live fs' j \<noteq> None \<Longrightarrow> node_ok fs' j"
  shows "tree_ok fs'"
proof -
  have "node_ok fs' j" if l: "live fs' j \<noteq> None" for j
  proof (cases "j \<in> S")
    case False
    then have lj: "live fs j \<noteq> None" using kept l by (auto simp: nodes_kept_def)
    note k = nodes_keptD[OF kept False lj]
    have "node_ok fs j" using t lj by (simp add: tree_ok_nodes)
    then show ?thesis using grow by (auto simp: node_ok_def k)
  qed (use S l in blast)
  moreover have "is_dir fs' 2"
    using t dirs nodes_keptD(2)[OF kept, of 2] by (cases "2 \<in> S") (auto simp: tree_ok_nodes)
  ultimately show ?thesis using t inv grow by (simp add: tree_ok_nodes)
qed

lemma cache_ok_step:
  assumes "cache_ok k" "nodes_kept S (kfs k) (kfs k')"
    and "\<And>j. j \<notin> S \<Longrightarrow> inodeCache k' j = inodeCache k j"
    and "\<And>j ino. j \<in> S \<Longrightarrow> inodeCache k' j = Some ino \<Longrightarrow> live (kfs k') j \<noteq> None \<and> cached_ok (kfs k') j ino"
  shows "cache_ok k'"
  unfolding cache_ok_def
proof (intro allI impI)
  fix j ino assume c: "inodeCache k' j = Some ino"
  show "live (kfs k') j \<noteq> None \<and> cached_ok (kfs k') j ino"
  proof (cases "j \<in> S")
    case False
    then have "live (kfs k) j \<noteq> None" "cached_ok (kfs k) j ino"
      using assms(1,3) c by (auto simp: cache_ok_def)
    then show ?thesis using nodes_keptD(7,8)[OF assms(2) False] by simp
  qed (use assms(4) c in blast)
qed

text \<open>A cached directory only has to agree on its metadata.\<close>

lemma cached_dir_step:
  assumes "cached_ok fs i ino" "is_dir fs i" "same_meta (disk_inode fs' (unat i)) (disk_inode fs (unat i))"
  shows "cached_ok fs' i ino" "is_dir fs' i"
proof -
  show d: "is_dir fs' i" using assms(2,3) by (simp add: is_dir_def same_meta_def)
  show "cached_ok fs' i ino"
    using assms d by (auto simp: cached_ok_def same_meta_def)
qed

lemma same_meta_of: "same_meta a b \<Longrightarrow> meta_of a = meta_of b"
  by (simp add: same_meta_def meta_of_def)

end
