(* ===== verification/WriteSpec.thy ===== *)
theory WriteSpec
  imports Tree
begin

text \<open>
  What \<open>writeFile\<close> and \<open>chmod\<close> do to the tree: a write replaces the bytes of one file, whatever its old and new
  lengths, and a change of modes the two modes of one node. Both keep the invariant of the kernel
  and leave the processes, terminals and sessions alone.
\<close>

section \<open>Resizing a cached file\<close>

definition fs_only :: "kernel \<Rightarrow> kernel \<Rightarrow> bool" where
  "fs_only k k' \<longleftrightarrow> programs k' = programs k \<and> pids k' = pids k \<and> freePIDs k' = freePIDs k \<and> procs k' = procs k \<and>
     openFiles k' = openFiles k \<and> ttys k' = ttys k \<and> sessions k' = sessions k \<and> signals k' = signals k"

lemma fs_only_refl [simp]: "fs_only k k"
  by (simp add: fs_only_def)

lemma fs_only_trans: "fs_only a b \<Longrightarrow> fs_only b c \<Longrightarrow> fs_only a c"
  by (simp add: fs_only_def)

lemma fs_onlyI: "k' = k\<lparr>kfs := fs, inodeCache := c\<rparr> \<Longrightarrow> fs_only k k'"
  by (simp add: fs_only_def)

lemma cache_only_fs: "cache_only k k' \<Longrightarrow> fs_only k k'"
  unfolding cache_only_def by (elim exE conjE) (simp add: fs_only_def)

lemma fs_only_update [simp]: "fs_only k (k\<lparr>kfs := fs\<rparr>)" "fs_only k (k\<lparr>inodeCache := c\<rparr>)"
  "fs_only k (k'\<lparr>kfs := fs\<rparr>) = fs_only k k'" "fs_only k (k'\<lparr>inodeCache := c\<rparr>) = fs_only k k'"
  "fs_only (k\<lparr>kfs := fs\<rparr>) k' = fs_only k k'" "fs_only (k\<lparr>inodeCache := c\<rparr>) k' = fs_only k k'"
  by (simp_all add: fs_only_def)

lemma Falloc_total:
  assumes con: "disk_consistent fs files" and i: "files i = Some ino"
    and len: "unat sz \<le> max_blocks * BLOCKSIZE"
    and space: "needed_blocks (nblocks (unat (isize ino))) (nblocks (unat sz)) \<le> card (free_bits (dbitmap fs))"
  obtains ino' fs' where "Falloc ino sz fs = (Ok (), (ino', fs'))"
proof -
  have std: "std_fs fs" and bm: "data_bm (dbitmap fs)" using con by (simp_all add: disk_consistent_def)
  have wf: "inode_wf fs ino" by (rule consistent_wf[OF con i])
  have nb: "nblocks (unat sz) \<le> max_blocks" using len by (simp add: nblocks_bound)
  consider "nblocks (unat (isize ino)) = nblocks (unat sz)" | "nblocks (unat sz) < nblocks (unat (isize ino))"
    | "nblocks (unat (isize ino)) < nblocks (unat sz)" by linarith
  then show ?thesis
  proof cases
    case 1
    then show ?thesis using Falloc_same[OF wf, of sz] that by simp
  next
    case 2
    show ?thesis by (rule Falloc_shrink[OF std wf refl refl 2], rule that)
  next
    case 3
    show ?thesis by (rule Falloc_grow[OF std wf bm refl refl 3 nb space], rule that)
  qed
qed

lemma live_loaded:
  assumes "fs_inv fs" "live fs i \<noteq> None" "ino\<lparr>dirty := False\<rparr> = loaded fs i"
  shows "disk_consistent fs ((live fs)(i \<mapsto> ino))" "disk_part ino = disk_inode fs (unat i)"
    "inode_wf fs ino" "file_bytes fs ino = content fs i" "unat (isize ino) = length (content fs i)"
proof -
  show p: "disk_part ino = disk_inode fs (unat i)" by (rule coherent_disk_part[OF assms(3)])
  show "disk_consistent fs ((live fs)(i \<mapsto> ino))"
    by (rule disk_consistent_cong[OF _ assms(1)[unfolded fs_inv_def]]) (use p live_inode[OF assms(2)] in auto)
  show w: "inode_wf fs ino"
    using fs_inv_wf[OF assms(1) live_inode[OF assms(2)]] inode_wf_disk_part[of fs ino] p by simp
  show "file_bytes fs ino = content fs i" using file_bytes_disk_part[of fs ino] p by (simp add: content_def)
  then show "unat (isize ino) = length (content fs i)" using length_file_bytes[OF fs_inv_std[OF assms(1)] w] by simp
qed

lemma resize_cached_ok:
  assumes inv: "fs_inv (kfs k)" and l: "live (kfs k) i \<noteq> None" and ino: "ino\<lparr>dirty := False\<rparr> = loaded (kfs k) i"
    and len: "unat sz \<le> max_blocks * BLOCKSIZE"
    and space: "needed_blocks (nblocks (length (content (kfs k) i))) (nblocks (unat sz)) \<le> card (free_bits (dbitmap (kfs k)))"
  obtains ino' fs' where "resize_cached ino i sz k = (Ok ino', k\<lparr>kfs := fs', inodeCache := (inodeCache k)(i \<mapsto> ino')\<rparr>)"
    "disk_consistent fs' ((live (kfs k))(i \<mapsto> ino'))" "isize ino' = sz" "blocks_only ino ino'"
    "live fs' = live (kfs k)" "nodes_kept {i} (kfs k) fs'" "loaded fs' i = loaded (kfs k) i" "ibitmap fs' = ibitmap (kfs k)"
    "\<forall>j < INODES. disk_inode fs' j = disk_inode (kfs k) j"
proof -
  note d = live_loaded[OF inv l ino]
  have fi: "((live (kfs k))(i \<mapsto> ino)) i = Some ino" by simp
  have small: "unat sz \<le> 2 ^ 32 - BLOCKSIZE" using len by (simp add: layout)
  obtain ino' fs' where f: "Falloc ino sz (kfs k) = (Ok (), (ino', fs'))"
    by (rule Falloc_total[OF d(1) fi len]) (use space d(5) in simp)
  note c = Falloc_consistent[OF d(1) fi small f]
  have dj: "\<forall>j < INODES. disk_inode fs' j = disk_inode (kfs k) j"
    using c(5) by (simp add: blocks_frame_def disk_inode_def)
  have ib: "ibitmap fs' = ibitmap (kfs k)" using c(5) by (simp add: blocks_frame_def)
  have lv: "live fs' = live (kfs k)" using dj ib by (auto simp: live_def)
  show ?thesis
  proof (rule that[OF _ _ c(2,3) lv _ _ ib dj])
    show "resize_cached ino i sz k = (Ok ino', k\<lparr>kfs := fs', inodeCache := (inodeCache k)(i \<mapsto> ino')\<rparr>)"
      by (simp add: resize_cached_def f)
    show "disk_consistent fs' ((live (kfs k))(i \<mapsto> ino'))" using c(1) unfolding fun_upd_upd .
    show "nodes_kept {i} (kfs k) fs'"
      unfolding nodes_kept_def
    proof (intro allI impI conjI)
      fix j assume j: "j \<notin> {i}" "live (kfs k) j \<noteq> None"
      then have "file_bytes fs' (disk_inode (kfs k) (unat j)) = file_bytes (kfs k) (disk_inode (kfs k) (unat j))"
        using c(6)[of j] live_inode[of "kfs k" j] by (intro file_bytes_same) auto
      then show "content fs' j = content (kfs k) j" using dj live_range[OF j(2)] by (simp add: content_def)
    qed (simp add: lv)
    show "loaded fs' i = loaded (kfs k) i" using dj live_range[OF l] by (simp add: loaded_def)
  qed
qed

section \<open>Writing a file\<close>

text \<open>A kernel step that changes one file, whose cached inode is up to date afterwards.\<close>

lemma kernel_inv_file_step:
  assumes inv: "kernel_inv k" and fs: "fs_inv (kfs k')" and kept: "nodes_kept {i} (kfs k) (kfs k')"
    and l: "live (kfs k) i \<noteq> None" "\<not> is_dir (kfs k) i" "live (kfs k') i \<noteq> None"
    and meta: "fType (disk_inode (kfs k') (unat i)) = fType (disk_inode (kfs k) (unat i))"
    and cache: "\<And>j. j \<noteq> i \<Longrightarrow> inodeCache k' j = inodeCache k j" "coherent k' i"
  shows "kernel_inv k'"
proof -
  have r: "\<not> is_dir (kfs k') i" "node_ok (kfs k') i"
    using l(2) meta kernel_inv_type[OF inv l(1,2)] by (simp_all add: is_dir_def node_ok_def)
  have live: "live (kfs k') j \<noteq> None" if "live (kfs k) j \<noteq> None" for j
    using nodes_keptD(7)[OF kept _ that] that l(3) by (cases "j = i") auto
  have "tree_ok (kfs k')"
    by (rule tree_ok_step[OF _ fs kept live]) (use inv r l kernel_inv_fs(3)[OF inv] in \<open>auto simp: kernel_inv_def\<close>)
  moreover have "cache_ok k'"
  proof (rule cache_ok_step[OF _ kept])
    fix j ino assume j: "j \<in> {i}" "inodeCache k' j = Some ino"
    then have "ino\<lparr>dirty := False\<rparr> = loaded (kfs k') i" using cache(2) by (simp add: coherent_def)
    then have "cached_ok (kfs k') i (ino\<lparr>dirty := False\<rparr>)" using cached_ok_loaded by simp
    then show "live (kfs k') j \<noteq> None \<and> cached_ok (kfs k') j ino"
      using j l(3) by (simp add: cached_ok_def same_meta_def)
  qed (use inv cache(1) in \<open>auto simp: kernel_inv_def\<close>)
  ultimately show ?thesis by (simp add: kernel_inv_def)
qed

lemma file_node: "\<not> is_dir fs i \<Longrightarrow> node_of fs i = File_node (meta_of (disk_inode fs (unat i))) (content fs i)"
  by (simp add: node_of_def)

text \<open>
  The second half of \<open>writeFile\<close>: the inode \<open>i\<close> has its new size, and its blocks are new in the cache only. \<open>resized_only\<close> is that state,
  with \<open>ino\<close> the cached inode before; \<open>file_written\<close> is what comes out.
\<close>

definition resized_only :: "u32 \<Rightarrow> inode \<Rightarrow> inode \<Rightarrow> kernel \<Rightarrow> bool" where
  "resized_only i ino ino' k \<longleftrightarrow> inodeCache k i = Some ino' \<and> ino\<lparr>dirty := False\<rparr> = loaded (kfs k) i \<and> blocks_only ino ino' \<and>
     live (kfs k) i \<noteq> None \<and> disk_consistent (kfs k) ((live (kfs k))(i \<mapsto> ino'))"

definition file_written :: "u32 \<Rightarrow> u8 list \<Rightarrow> kernel \<Rightarrow> kernel \<Rightarrow> bool" where
  "file_written i dat k k' \<longleftrightarrow> usable k' i \<and> content (kfs k') i = dat \<and>
     same_meta (disk_inode (kfs k') (unat i)) (disk_inode (kfs k) (unat i)) \<and> nodes_kept {i} (kfs k) (kfs k') \<and>
     (\<forall>j. j \<noteq> i \<longrightarrow> inodeCache k' j = inodeCache k j) \<and> fs_only k k'"

lemma resized_only_length:
  assumes "resized_only i ino ino' k"
  shows "length (file_bytes (kfs k) ino') = unat (isize ino')"
proof -
  have d: "disk_consistent (kfs k) ((live (kfs k))(i \<mapsto> ino'))" using assms by (simp add: resized_only_def)
  have "inode_wf (kfs k) ino'" using consistent_wf[OF d, of i] by simp
  moreover have "std_fs (kfs k)" using d by (simp add: disk_consistent_def)
  ultimately show ?thesis using length_file_bytes by blast
qed

lemma write_nothing:
  assumes r: "resized_only i ino ino' k" and "isize ino' = 0"
  shows "\<exists>k'. store_inode ino' i k = (Ok (), k') \<and> file_written i [] k k'"
proof -
  note r' = r[unfolded resized_only_def]
  have d: "disk_consistent (kfs k) ((live (kfs k))(i \<mapsto> ino'))" and l: "live (kfs k) i \<noteq> None"
    and cl: "ino\<lparr>dirty := False\<rparr> = loaded (kfs k) i" and b: "blocks_only ino ino'" using r' by blast+
  let ?fs = "set_inode_bytes (unat i) (encode_inode ino') (kfs k)"
  have shape: "inode_shape ino'" using consistent_wf[OF d, of i] by (simp add: inode_wf_def)
  have "live (kfs k) j = live (kfs k) j" if "j \<noteq> i" for j ..
  note v = writeInode_live[OF d live_range[OF l] shape this l]
  have m: "disk_part ino = disk_inode (kfs k) (unat i)" by (rule coherent_disk_part[OF cl])
  have "live ?fs i \<noteq> None" using l v(5) by (auto simp: live_def split: if_splits)
  moreover have "coherent (k\<lparr>kfs := ?fs\<rparr>) i"
    using blocks_only_disk_part[OF b _ v(3)] cl r' by (simp add: coherent_def)
  moreover have "content ?fs i = []"
    using v(3,4) resized_only_length[OF r] assms(2) by (simp add: content_def)
  moreover have "same_meta (disk_inode ?fs (unat i)) (disk_inode (kfs k) (unat i))"
    using v(3) b by (simp add: same_meta_def blocks_only_def disk_part_def flip: m)
  moreover have "nodes_kept {i} (kfs k) ?fs"
    using v(4,5,6) by (auto simp: nodes_kept_def live_def content_def word_unat_eq_iff split: if_splits)
  ultimately show ?thesis
    using v(1,2) by (intro exI[of _ "k\<lparr>kfs := ?fs\<rparr>"]) (simp add: file_written_def usable_def store_inode_def on_fs_def of_err_def)
qed

lemma write_everything:
  assumes r: "resized_only i ino ino' k" and n: "unat (isize ino') = length dat" "length dat \<le> max_blocks * BLOCKSIZE"
    and o: "ops ino' = Some RegularFileOps"
  shows "\<exists>k'. ops_write ino' i dat k = (Ok (), k') \<and> file_written i dat k k'"
proof -
  let ?f = "RegularFileOps_CreateFD i 0"
  note r' = r[unfolded resized_only_def]
  have fd: "inodeNum ?f = i" "offset ?f = 0" by (simp_all add: RegularFileOps_CreateFD_def)
  have sp: "needed_blocks (nblocks (unat (isize ino')))
    (nblocks (max (unat (isize ino')) (unat (offset ?f) + length dat))) \<le> card (free_bits (dbitmap (kfs k)))"
    by (simp add: fd n needed_blocks_same)
  obtain k' where k': "FileFD_Write ?f dat k = (Ok (length dat, None), (?f\<lparr>offset := offset ?f + of_nat (length dat)\<rparr>, k'))"
    "usable k' (inodeNum ?f)" "content (kfs k') (inodeNum ?f) = splice (unat (offset ?f)) dat (file_bytes (kfs k) ino')"
    "same_meta (disk_inode (kfs k') (unat (inodeNum ?f))) (disk_inode (kfs k) (unat (inodeNum ?f)))"
    "others_kept (inodeNum ?f) k k'" "k' = k\<lparr>kfs := kfs k', inodeCache := inodeCache k'\<rparr>"
    by (rule FileFD_Write_cached[where k = k and f = ?f and ino = ino' and ?ino0.0 = ino and dat = dat, OF _ _ _ _ _ _ _ sp])
      (use r' n in \<open>simp_all add: fd\<close>)
  have "content (kfs k') i = dat" using k'(3) resized_only_length[OF r] n(1) by (simp add: fd splice_def)
  moreover have "ops_write ino' i dat k = (Ok (), k')" using k'(1) o by (simp add: ops_write_def of_err_def)
  ultimately show ?thesis
    using k'(2,4,5,6) fs_kept_nodes[of i "kfs k" "kfs k'"] fs_onlyI[OF k'(6)]
    by (intro exI[of _ k']) (simp add: fd file_written_def others_kept_def)
qed

lemma write_inum_spec:
  assumes inv: "kernel_inv k" and t: "tree (kfs k) i = Some (File_node m old)" and w: "may 2 (EUID proc) m"
    and len: "length dat \<le> max_blocks * BLOCKSIZE"
    and space: "needed_blocks (nblocks (length old)) (nblocks (length dat)) \<le> card (free_bits (dbitmap (kfs k)))"
  obtains k' where "write_inum proc dat i k = (Ok (), k')" "kernel_inv k'" "fs_only k k'"
    "tree (kfs k') = (tree (kfs k))(i \<mapsto> File_node m dat)"
proof -
  note f = t[unfolded tree_file]
  have l: "live (kfs k) i \<noteq> None" "\<not> is_dir (kfs k) i" and old: "old = content (kfs k) i"
    and m: "m = meta_of (disk_inode (kfs k) (unat i))" using f by auto
  obtain ino k1 where g: "getInode i k = (Ok ino, k1)" "cached_ok (kfs k) i ino" "kernel_inv k1" "cache_only k k1"
    "inodeCache k1 i = Some ino" by (rule getInode_inv[OF inv l(1)])
  have e: "kfs k1 = kfs k" using g(4) by simp
  have cl: "ino\<lparr>dirty := False\<rparr> = loaded (kfs k1) i" using g(2) l(2) e by (simp add: cached_ok_def)
  have n: "unat (of_nat (length dat) :: u32) = length dat"
    using len by (simp add: unat_of_nat take_bit_nat_eq_self layout)
  have inv1: "fs_inv (kfs k1)" using kernel_inv_fs(1)[OF inv] e by simp
  have l1: "live (kfs k1) i \<noteq> None" using l(1) e by simp
  obtain ino' fs' where r: "resize_cached ino i (of_nat (length dat)) k1 =
      (Ok ino', k1\<lparr>kfs := fs', inodeCache := (inodeCache k1)(i \<mapsto> ino')\<rparr>)"
    "disk_consistent fs' ((live (kfs k1))(i \<mapsto> ino'))" "isize ino' = of_nat (length dat)" "blocks_only ino ino'"
    "live fs' = live (kfs k1)" "nodes_kept {i} (kfs k1) fs'" "loaded fs' i = loaded (kfs k1) i"
    "ibitmap fs' = ibitmap (kfs k1)" "\<forall>j < INODES. disk_inode fs' j = disk_inode (kfs k1) j"
    by (rule resize_cached_ok[OF inv1 l1 cl, of "of_nat (length dat)"]) (use len space old n e in auto)
  let ?k2 = "k1\<lparr>kfs := fs', inodeCache := (inodeCache k1)(i \<mapsto> ino')\<rparr>"
  have ops: "ops ino = Some RegularFileOps" "ops ino' = ops ino"
    using g(2) kernel_inv_type[OF inv l] l(2) r(4) by (simp_all add: cached_ok_def blocks_only_def)
  have step: "write_inum proc dat i k = (if dat = [] then store_inode ino' i ?k2 else ops_write ino' i dat ?k2)"
    using g(1) cached_ok_sel(7)[OF g(2)] l(2) w can_cached(2)[OF g(2)] r(1)
    by (simp add: write_inum_def m can_may)
  have half: "resized_only i ino ino' ?k2" using r(2,4,5,7) cl l1 by (simp add: resized_only_def)
  have "\<exists>k'. (if dat = [] then store_inode ino' i ?k2 else ops_write ino' i dat ?k2) = (Ok (), k') \<and> file_written i dat ?k2 k'"
    using write_nothing[OF half] write_everything[OF half _ len] r(3) n ops by (cases "dat = []") simp_all
  then obtain k' where k': "write_inum proc dat i k = (Ok (), k')" "usable k' i" "content (kfs k') i = dat"
    "same_meta (disk_inode (kfs k') (unat i)) (disk_inode (kfs k) (unat i))"
    "nodes_kept {i} fs' (kfs k')" "\<forall>j. j \<noteq> i \<longrightarrow> inodeCache k' j = inodeCache k1 j" "fs_only ?k2 k'"
    unfolding step file_written_def using r(9) live_range[OF l(1)] e by auto
  have kept: "nodes_kept {i} (kfs k1) (kfs k')" by (rule nodes_kept_trans[OF r(6) k'(5)]) simp_all
  have nd: "\<not> is_dir (kfs k') i" using l(2) k'(4) by (simp add: is_dir_def same_meta_def)
  have "kernel_inv k'"
    by (rule kernel_inv_file_step[OF g(3) _ kept l1])
      (use l(2) e k'(2,4,6) in \<open>simp_all add: same_meta_def usable_def\<close>)
  moreover have "fs_only k k'"
    by (rule fs_only_trans[OF fs_only_trans[OF cache_only_fs[OF g(4)]] k'(7)]) simp
  moreover have "tree (kfs k') = (tree (kfs k))(i \<mapsto> File_node m dat)"
    using tree_update[OF kept] k'(2) file_node[OF nd] k'(3) same_meta_of[OF k'(4)] by (simp add: usable_def e m)
  ultimately show ?thesis by (rule that[OF k'(1)])
qed

section \<open>Changing metadata\<close>

fun with_meta :: "node_meta \<Rightarrow> node \<Rightarrow> node" where
  "with_meta m (File_node _ bs) = File_node m bs"
| "with_meta m (Dir_node _ xs) = Dir_node m xs"

lemma node_kernel_step:
  assumes inv: "kernel_inv k" and fs: "fs_inv (kfs k')" and kept: "nodes_kept {i} (kfs k) (kfs k')"
    and l: "live (kfs k) i \<noteq> None" "live (kfs k') i \<noteq> None" and c: "content (kfs k') i = content (kfs k) i"
    and ft: "fType (disk_inode (kfs k') (unat i)) = fType (disk_inode (kfs k) (unat i))"
    and cache: "\<And>j. j \<noteq> i \<Longrightarrow> inodeCache k' j = inodeCache k j" "coherent k' i"
  shows "kernel_inv k'"
proof -
  have t: "tree_ok (kfs k)" using inv by (simp add: kernel_inv_def)
  have d: "is_dir (kfs k') i = is_dir (kfs k) i" using ft by (simp add: is_dir_def)
  have live: "live (kfs k') j \<noteq> None" if "live (kfs k) j \<noteq> None" for j
    using nodes_keptD(7)[OF kept _ that] that l(2) by (cases "j = i") auto
  have "node_ok (kfs k) i" using t l(1) by (simp add: tree_ok_nodes)
  then have n: "node_ok (kfs k') i"
    using live l(2) by (auto simp: node_ok_def d ft dir_ok_def dir_slots_def c)
  have "tree_ok (kfs k')"
    by (rule tree_ok_step[OF t fs kept live]) (use n d kernel_inv_fs(3)[OF inv] in auto)
  moreover have "cache_ok k'"
  proof (rule cache_ok_step[OF _ kept])
    fix j ino assume j: "j \<in> {i}" "inodeCache k' j = Some ino"
    then have "ino\<lparr>dirty := False\<rparr> = loaded (kfs k') i" using cache(2) by (simp add: coherent_def)
    then have "cached_ok (kfs k') i (ino\<lparr>dirty := False\<rparr>)" using cached_ok_loaded by simp
    then show "live (kfs k') j \<noteq> None \<and> cached_ok (kfs k') j ino"
      using j l(2) by (simp add: cached_ok_def same_meta_def)
  qed (use inv cache(1) in \<open>auto simp: kernel_inv_def\<close>)
  ultimately show ?thesis by (simp add: kernel_inv_def)
qed

lemma store_meta:
  assumes inv: "kernel_inv k" and l: "live (kfs k) i \<noteq> None"
    and c: "inodeCache k i = Some ino" "coherent k i" and m: "meta_only ino ino'" "length (owner ino') = 14"
  obtains k' where "store_inode ino' i (k\<lparr>inodeCache := (inodeCache k)(i \<mapsto> ino')\<rparr>) = (Ok (), k')" "kernel_inv k'"
    "tree (kfs k') = (tree (kfs k))(i \<mapsto> with_meta (meta_of ino') (node_of (kfs k) i))" "fs_only k k'"
    "inodeCache k' = (inodeCache k)(i \<mapsto> ino')" "coherent k' i" "free_kept (kfs k) (kfs k')"
proof -
  let ?fs = "kfs k"
  have cl: "ino\<lparr>dirty := False\<rparr> = loaded ?fs i" using c by (simp add: coherent_def)
  note d = live_loaded[OF kernel_inv_fs(1)[OF inv] l cl]
  note b = meta_only_blocks[OF m(1)]
  have shape: "inode_shape ino" using d(3) by (simp add: inode_wf_def)
  have con: "disk_consistent ?fs ((live ?fs)(i \<mapsto> ino'))"
    by (rule disk_consistent_same[OF _ d(1)]) (simp add: b(3) b(6)[OF m(2) shape] option.rel_refl)
  note w = writeInode_live[OF con live_range[OF l] b(7)[OF m(2) shape] refl l]
  let ?fs' = "set_inode_bytes (unat i) (encode_inode ino') ?fs"
  let ?k' = "k\<lparr>kfs := ?fs', inodeCache := (inodeCache k)(i \<mapsto> ino')\<rparr>"
  have l': "live ?fs' i \<noteq> None" using l w(5) by (auto simp: live_def split: if_splits)
  have ct: "content ?fs' i = content ?fs i" using w(3,4) b(5) d(4) by (simp add: content_def)
  have kept: "nodes_kept {i} ?fs ?fs'"
    using w(4,5,6) by (auto simp: nodes_kept_def live_def content_def word_unat_eq_iff split: if_splits)
  have t: "fType ino' = fType (disk_inode ?fs (unat i))" "num ino' = i" "ops ino' = ops (loaded ?fs i)"
    using m(1) arg_cong[OF cl, of num] arg_cong[OF cl, of ops] arg_cong[OF cl, of fType]
    by (simp_all add: meta_only_def del: loaded_sel(3))
  have ft: "fType (disk_inode ?fs' (unat i)) = fType (disk_inode ?fs (unat i))"
    using w(3) t(1) by (simp add: disk_part_def)
  have coh: "coherent ?k' i"
  proof -
    have "ops (loaded ?fs' i) = ops (loaded ?fs i)" using ft by (simp add: is_dir_def)
    then have "ino'\<lparr>dirty := False\<rparr> = loaded ?fs' i"
      using t(2,3) w(3) by (auto simp: loaded_def with_ops_def disk_part_def)
    then show ?thesis by (simp add: coherent_def)
  qed
  have "node_of ?fs' i = with_meta (meta_of ino') (node_of ?fs i)"
    using ft w(3) ct by (simp add: node_of_def is_dir_def dir_slots_def meta_of_def disk_part_def)
  then have tr: "tree ?fs' = (tree ?fs)(i \<mapsto> with_meta (meta_of ino') (node_of ?fs i))"
    using tree_update[OF kept l'] by simp
  have "kernel_inv ?k'"
    by (rule node_kernel_step[where i = i, OF inv]) (use w(2) kept l l' ct ft coh in simp_all)
  then show ?thesis
    using that[of ?k'] w(1,7) tr coh by (simp add: store_inode_def on_fs_def of_err_def)
qed

definition set_modes :: "u8 \<Rightarrow> u8 \<Rightarrow> node \<Rightarrow> node" where
  "set_modes om xm n = (case n of File_node m bs \<Rightarrow> File_node (m\<lparr>m_ownerMode := om, m_otherMode := xm\<rparr>) bs
     | Dir_node m xs \<Rightarrow> Dir_node (m\<lparr>m_ownerMode := om, m_otherMode := xm\<rparr>) xs)"

fun node_meta :: "node \<Rightarrow> node_meta" where
  "node_meta (File_node m bs) = m"
| "node_meta (Dir_node m xs) = m"

lemma node_meta_of [simp]: "node_meta (node_of fs i) = meta_of (disk_inode fs (unat i))"
  by (simp add: node_of_def)

lemma chmod_spec:
  assumes inv: "kernel_inv k" and r: "tree_lookup (tree (kfs k)) (EUID proc) (path_of proc target) 2 = Ok i"
    and n: "tree (kfs k) i = Some n" and c: "coherent k i"
  obtains k' where "chmod proc target om xm k =
      (if EUID proc = ''root'' \<or> ownerString (m_owner (node_meta n)) = EUID proc then Ok ()
       else Err (ErrorText ''permission denied''), k')" "kernel_inv k'" "fs_only k k'"
    "tree (kfs k') = (if EUID proc = ''root'' \<or> ownerString (m_owner (node_meta n)) = EUID proc
       then (tree (kfs k))(i \<mapsto> set_modes om xm n) else tree (kfs k))"
proof -
  obtain k1 ino k2 where g: "ResolvePath proc target k = (Ok i, k1)" "getInode i k1 = (Ok ino, k2)"
    "kernel_inv k2" "cache_only k k2" "inodeCache k2 i = Some ino" "cached_ok (kfs k) i ino" "live (kfs k) i \<noteq> None"
    by (rule resolve_load[OF inv]) (use r lookup_root_tree[OF inv] in simp)
  have e: "kfs k2 = kfs k" using g(4) by simp
  have nd: "n = node_of (kfs k) i" using n by (simp add: tree_def split: if_splits)
  note s = cached_ok_sel[OF g(6)]
  show ?thesis
  proof (cases "EUID proc = ''root'' \<or> ownerString (m_owner (node_meta n)) = EUID proc")
    case False
    then show ?thesis
      using that[of k2] g(1,2,3) cache_only_fs[OF g(4)] s(3) e by (simp add: chmod_def nd meta_of_def)
  next
    case True
    let ?ino = "ino\<lparr>ownerMode := om, otherMode := xm\<rparr>"
    have coh: "coherent k2 i" by (rule cache_only_coherent[OF g(4) c])
    have shape: "length (owner ino) = 14"
      using disk_inode_shape[OF kernel_inv_fs(4)[OF inv] live_range[OF g(7)]] s(3) by (simp add: inode_shape_def)
    obtain k' where k': "store_inode ?ino i (k2\<lparr>inodeCache := (inodeCache k2)(i \<mapsto> ?ino)\<rparr>) = (Ok (), k')" "kernel_inv k'"
      "tree (kfs k') = (tree (kfs k2))(i \<mapsto> with_meta (meta_of ?ino) (node_of (kfs k2) i))" "fs_only k2 k'"
      by (rule store_meta[OF g(3) _ g(5) coh, of ?ino]) (use g(7) e shape in \<open>auto simp: meta_only_def\<close>)
    have "with_meta (meta_of ?ino) (node_of (kfs k2) i) = set_modes om xm n"
      using s(3,6) by (simp add: nd set_modes_def node_of_def meta_of_def e split: node.split)
    then show ?thesis
      using that[of k'] True g(1,2) k' s(3) e fs_only_trans[OF cache_only_fs[OF g(4)] k'(4)]
      by (simp add: chmod_def nd meta_of_def Let_def)
  qed
qed

section \<open>Writing a file that exists\<close>

lemma writeFile_spec:
  assumes inv: "kernel_inv k" and r: "tree_lookup (tree (kfs k)) (EUID proc) (path_of proc target) 2 = Ok i"
    and t: "tree (kfs k) i = Some (File_node m old)" and w: "may 2 (EUID proc) m"
    and len: "length dat \<le> max_blocks * BLOCKSIZE"
    and space: "needed_blocks (nblocks (length old)) (nblocks (length dat)) \<le> card (free_bits (dbitmap (kfs k)))"
  obtains k' where "writeFile now proc target dat k = (Ok (), k')" "kernel_inv k'" "fs_only k k'"
    "tree (kfs k') = (tree (kfs k))(i \<mapsto> File_node m dat)"
proof -
  have p: "path_of proc (normalizePath proc target) = path_of proc target"
    using path_of(1)[of proc target] path_of_abs_path[OF path_of(2)[of proc target]] by simp
  obtain k1 where k1: "ResolvePath proc (normalizePath proc target) k = (Ok i, k1)" "kernel_inv k1" "cache_only k k1"
    using ResolvePath_lookup[OF inv, of proc "normalizePath proc target"] r lookup_root_tree[OF inv] p by metis
  have e: "kfs k1 = kfs k" using k1(3) by simp
  obtain k' where k': "write_inum proc dat i k1 = (Ok (), k')" "kernel_inv k'" "fs_only k1 k'"
    "tree (kfs k') = (tree (kfs k1))(i \<mapsto> File_node m dat)"
    by (rule write_inum_spec[OF k1(2) _ w len]) (use t space e in simp_all)
  show ?thesis
    by (rule that[OF _ k'(2) fs_only_trans[OF cache_only_fs[OF k1(3)] k'(3)]])
      (use k1(1) k'(1,4) e in \<open>simp_all add: writeFile_def writable_inum_def\<close>)
qed

text \<open>The errors of a write, before anything is changed.\<close>

lemma writeFile_refused:
  assumes inv: "kernel_inv k" and r: "tree_lookup (tree (kfs k)) (EUID proc) (path_of proc target) 2 = Ok i"
    and t: "tree (kfs k) i = Some n"
    and no: "(\<exists>m xs. n = Dir_node m xs) \<or> \<not> may 2 (EUID proc) (node_meta n)"
  obtains k' where "writeFile now proc target dat k =
      (Err (if \<exists>m xs. n = Dir_node m xs then EISDIR else EACCES), k')" "kernel_inv k'" "cache_only k k'"
proof -
  have p: "path_of proc (normalizePath proc target) = path_of proc target"
    using path_of(1)[of proc target] path_of_abs_path[OF path_of(2)[of proc target]] by simp
  obtain k1 ino k2 where g: "ResolvePath proc (normalizePath proc target) k = (Ok i, k1)" "getInode i k1 = (Ok ino, k2)"
    "kernel_inv k2" "cache_only k k2" "inodeCache k2 i = Some ino" "cached_ok (kfs k) i ino" "live (kfs k) i \<noteq> None"
    by (rule resolve_load[OF inv, of proc "normalizePath proc target"]) (use r lookup_root_tree[OF inv] p in simp)
  have n: "n = node_of (kfs k) i" using t by (simp add: tree_def split: if_splits)
  then have d: "(\<exists>m xs. n = Dir_node m xs) \<longleftrightarrow> is_dir (kfs k) i" by (simp add: node_of_def)
  have "writeFile now proc target dat k = (Err (if is_dir (kfs k) i then EISDIR else EACCES), k2)"
    using g(1,2) cached_ok_sel(7)[OF g(6)] can_cached(2)[OF g(6)] no unfolding d
    by (auto simp: writeFile_def writable_inum_def write_inum_def n can_may)
  then show ?thesis using that[OF _ g(3,4)] d by simp
qed

end
