(* ===== verification/CreateSpec.thy ===== *)
theory CreateSpec
  imports WriteSpec
begin

text \<open>
  What making a file or a directory does to the tree: a new number, the lowest free one, gets a new
  node, and the parent's slots gain an entry for it. Stated where the free blocks hold zeros
  (\<open>free_zero\<close>), as on a disk from which nothing was freed; on another, \<open>addDentry_full\<close> in
  \<open>Directory.thy\<close> says what a growing directory picks up.
\<close>

section \<open>A new inode\<close>

lemma length_ownerBytes [simp]: "length (ownerBytes n) = 14"
  by (simp add: ownerBytes_def go_copy_def string_bytes_def)

lemma new_inode_sel [simp]:
  "isize (new_inode ft own s om xm a b) = 0" "fType (new_inode ft own s om xm a b) = ft"
  "disk_part (new_inode ft own s om xm a b) = new_inode ft own s om xm a b"
  "inode_shape (new_inode ft own s om xm a b)"
  "meta_of (new_inode ft own s om xm a b) = \<lparr>m_owner = ownerBytes own, m_setuid = s, m_ownerMode = om, m_otherMode = xm\<rparr>"
  by (simp_all add: new_inode_def zero_inode_def disk_part_def inode_shape_def meta_of_def)

lemma consistent_add_empty:
  assumes con: "disk_consistent fs files" and none: "files i = None" and e: "inode_shape ino" "isize ino = 0"
  shows "disk_consistent fs (files(i \<mapsto> ino))"
proof -
  note w = inode_wf_empty[OF e]
  have "ran (files(i \<mapsto> ino)) = insert ino (ran files)" by (rule ran_map_upd[where m = files, OF none])
  moreover from this have "all_owned fs (files(i \<mapsto> ino)) = all_owned fs files" using w(2) by (simp add: all_owned_def)
  ultimately show ?thesis using con w(1,2) unfolding disk_consistent_def by auto
qed

lemma alloc_inode:
  assumes inv: "fs_inv fs" and free: "free_bits (ibitmap fs) \<noteq> {}" and e: "inode_shape ino" "isize ino = 0" "disk_part ino = ino"
  obtains i fs1 fs2 where "AllocInode fs = (Ok i, fs1)" "writeInode fs1 ino i = (fs2, None)"
    "unat i = Min (free_bits (ibitmap fs))" "live fs i = None" "live fs2 i = Some ino" "content fs2 i = []"
    "fs_inv fs2" "nodes_kept {i} fs fs2" "free_kept fs fs2" "dbitmap fs2 = dbitmap fs"
    "free_bits (ibitmap fs2) = free_bits (ibitmap fs) - {unat i}"
proof -
  have std: "std_fs fs" by (rule fs_inv_std[OF inv])
  obtain i bm where a: "AllocInode fs = (Ok i, set_ibitmap bm fs)" "length bm = INODES div 8"
    "unat i = Min (free_bits (ibitmap fs))" "unat i < INODES" "free_bits bm = free_bits (ibitmap fs) - {unat i}"
    using AllocInode_Ok[OF std free] by blast
  let ?fs1 = "set_ibitmap bm fs"
  have std1: "std_fs ?fs1" using std a(2) by simp
  have v: "dbitmap ?fs1 = dbitmap fs" "\<And>b. dblk ?fs1 b = dblk fs b" "ibitmap ?fs1 = bm"
    "\<And>j. j < INODES \<Longrightarrow> disk_inode ?fs1 j = disk_inode fs j"
    using std a(2) by (simp_all add: view disk_inode_def)
  have fin: "finite (free_bits (ibitmap fs))" by (rule finite_free_bits)
  have "unat i \<in> free_bits (ibitmap fs)" using Min_in[OF fin free] a(3) by simp
  then have none: "live fs i = None" by (simp add: live_def)
  have oth: "live fs j = live ?fs1 j" if "j \<noteq> i" for j
    using v(3,4) a(5) that by (auto simp: live_def word_unat_eq_iff)
  have used: "live ?fs1 i \<noteq> None" using a(4,5) v(3) by (simp add: live_def)
  note dv = disk_consistent_views[OF std1 v(1,2)]
  have con: "disk_consistent ?fs1 ((live fs)(i \<mapsto> ino))"
    by (rule dv(4)[OF consistent_add_empty[OF inv[unfolded fs_inv_def] none e(1,2)]])
  note w = writeInode_live[OF con a(4) e(1) oth used]
  let ?fs2 = "set_inode_bytes (unat i) (encode_inode ino) ?fs1"
  have d2: "dbitmap ?fs2 = dbitmap fs" using std1 a(4) e(1) v(1) by (simp add: view)
  have b2: "dblk ?fs2 b = dblk fs b" for b using std1 a(4) e(1) v(2) by (simp add: view)
  show ?thesis
  proof (rule that[OF a(1) w(1) a(3) none _ _ w(2) _ _ d2])
    show "live ?fs2 i = Some ino" using used w(3,5) e(3) by (auto simp: live_def split: if_splits)
    show "content ?fs2 i = []" using inode_wf_empty(3)[OF e(1,2)] w(3) e(3) by (simp add: content_def)
    show "nodes_kept {i} fs ?fs2"
      unfolding nodes_kept_def
    proof (intro allI impI conjI)
      fix j assume j: "j \<notin> {i}"
      then have "unat j \<noteq> unat i" by (simp add: word_unat_eq_iff)
      then show "live ?fs2 j = live fs j"
        using oth[of j] j w(5) w(6)[of "unat j"] v(3) v(4)[of "unat j"] a(5) by (auto simp: live_def)
      assume "live fs j \<noteq> None"
      then have "unat j < INODES" by (rule live_range)
      then show "content ?fs2 j = content fs j"
        using w(4) w(6)[of "unat j"] v(4)[of "unat j"] dv(3) \<open>unat j \<noteq> unat i\<close> by (simp add: content_def)
    qed
    show "free_kept fs ?fs2" by (simp add: free_kept_def d2 b2)
    show "free_bits (ibitmap ?fs2) = free_bits (ibitmap fs) - {unat i}" using w(5) v(3) a(5) by simp
  qed
qed

section \<open>An entry for it\<close>

lemma free_zero_kept: "free_kept fs fs' \<Longrightarrow> free_zero fs \<Longrightarrow> free_zero fs'"
  unfolding free_kept_def free_zero_def by (metis subsetD)

definition free_blocks :: "filesystem \<Rightarrow> nat" where
  "free_blocks fs = card (free_bits (dbitmap fs))"

text \<open>
  The blocks one more entry costs a directory, and that it can have the entry and \<open>n\<close> blocks are left. A directory that has
  to grow for the entry gets a free block, which must hold zeros.
\<close>

definition slot_cost :: "dir_entry option list \<Rightarrow> nat" where
  "slot_cost xs = (if full_dir xs then needed_blocks (nblocks (64 * length xs)) (Suc (nblocks (64 * length xs))) else 0)"

definition slot_room :: "nat \<Rightarrow> filesystem \<Rightarrow> dir_entry option list \<Rightarrow> bool" where
  "slot_room n fs xs \<longleftrightarrow> (full_dir xs \<longrightarrow> 64 * length xs < max_blocks * BLOCKSIZE \<and> free_zero fs) \<and>
     slot_cost xs + n \<le> free_blocks fs"

lemma dir_length:
  assumes "dir_ok fs d"
  shows "length (content fs d) = 64 * length (dir_slots fs d)"
proof -
  have "length (content fs d) mod 64 = 0"
  proof -
    have "(64 :: nat) dvd BLOCKSIZE" by (simp add: layout)
    moreover have "BLOCKSIZE dvd length (content fs d)" using assms by (simp add: dir_ok_def mod_eq_0_iff_dvd)
    ultimately show ?thesis using dvd_trans by (metis mod_eq_0_iff_dvd)
  qed
  then show ?thesis by (simp add: dir_slots_def slots_of_def) presburger
qed

lemma add_slot_members: "Some x \<in> set (add_slot e xs) \<Longrightarrow> x = e \<or> Some x \<in> set xs"
  using set_update_subset_insert[of xs _ "Some e"] by (auto simp: add_slot_def split: option.splits)

lemma add_entry_step:
  assumes inv: "kernel_inv k" and t: "tree (kfs k) p = Some (Dir_node m xs)" and e: "entry_ok e"
    and l: "live (kfs k) (Inum e) \<noteq> None" and room: "slot_room n (kfs k) xs"
  obtains k' where "on_fs (addDentry p e) k = (Ok (), k')" "kernel_inv k'" "fs_only k k'"
    "tree (kfs k') = (tree (kfs k))(p \<mapsto> Dir_node m (add_slot e xs))" "inodeCache k' = inodeCache k"
    "free_zero (kfs k) \<Longrightarrow> free_zero (kfs k')" "n \<le> free_blocks (kfs k')"
proof -
  note d = t[unfolded tree_dir]
  have lp: "live (kfs k) p \<noteq> None" "is_dir (kfs k) p" and xs: "xs = dir_slots (kfs k) p"
    and m: "m = meta_of (disk_inode (kfs k) (unat p))" using d by auto
  have ok: "dir_ok (kfs k) p" by (rule kernel_inv_dir(1)[OF inv lp])
  have len: "length (content (kfs k) p) = 64 * length xs" using dir_length[OF ok] xs by simp
  have cost: "dir_cost (kfs k) p = slot_cost xs" by (simp add: dir_cost_def slot_cost_def len xs)
  have dr: "dir_room (kfs k) p" using room by (simp add: dir_room_def slot_room_def free_blocks_def cost len xs)
  obtain fs' where a: "addDentry p e (kfs k) = (Ok (), fs')" "fs_inv fs'" "dir_ok fs' p"
    "dir_slots fs' p = add_slot e (dir_slots (kfs k) p)" "fs_kept p (kfs k) fs'"
    "same_meta (disk_inode fs' (unat p)) (disk_inode (kfs k) (unat p))"
    "card (free_bits (dbitmap (kfs k))) = card (free_bits (dbitmap fs')) + dir_cost (kfs k) p"
    by (rule addDentry_ok[OF kernel_inv_fs(1)[OF inv] ok e dr]) (use room xs in \<open>auto simp: slot_room_def\<close>)
  let ?k' = "k\<lparr>kfs := fs'\<rparr>"
  have kept: "nodes_kept {p} (kfs k) fs'" by (rule fs_kept_nodes[OF a(5)])
  have lp': "live fs' p \<noteq> None" using a(3) by (simp add: dir_ok_def)
  have grow: "live fs' j \<noteq> None" if "live (kfs k) j \<noteq> None" for j
    using nodes_keptD(7)[OF kept _ that] that lp' by (cases "j = p") auto
  have d': "is_dir fs' p" using lp(2) a(6) by (simp add: is_dir_def same_meta_def)
  have "live fs' (Inum x) \<noteq> None" if "Some x \<in> set (dir_slots fs' p)" for x
    using add_slot_members[of x e] that grow l kernel_inv_dir(2)[OF inv lp, of x] unfolding a(4) by blast
  then have "node_ok fs' p" using d' a(3) by (auto simp: node_ok_def in_entries)
  then have "tree_ok fs'"
    using tree_ok_step[OF _ a(2) kept grow] inv d' by (auto simp: kernel_inv_def)
  moreover have "cache_ok ?k'"
  proof (rule cache_ok_step[where k = k and S = "{p}"])
    fix j ino assume j: "j \<in> {p}" "inodeCache ?k' j = Some ino"
    then have "cached_ok (kfs k) p ino" using inv by (simp add: kernel_inv_def cache_ok_def)
    then show "live (kfs ?k') j \<noteq> None \<and> cached_ok (kfs ?k') j ino"
      using cached_dir_step(1)[OF _ lp(2) a(6)] j(1) lp' by simp
  qed (use inv kept in \<open>auto simp: kernel_inv_def\<close>)
  ultimately have "kernel_inv ?k'" by (simp add: kernel_inv_def)
  moreover have "tree fs' = (tree (kfs k))(p \<mapsto> Dir_node m (add_slot e xs))"
    using tree_update[OF kept lp'] d' same_meta_of[OF a(6)] by (simp add: node_of_def a(4) m xs)
  moreover have "free_zero (kfs k) \<Longrightarrow> free_zero fs'" using free_zero_kept a(5) by (auto simp: fs_kept_def)
  moreover have "n \<le> free_blocks fs'" using room a(7) by (simp add: slot_room_def free_blocks_def cost)
  ultimately show ?thesis using that[of ?k'] a(1) by (simp add: on_fs_def)
qed

definition empty_node :: "u8 \<Rightarrow> node_meta \<Rightarrow> node" where
  "empty_node ft m = (if ft = S_IFDIR then Dir_node m [] else File_node m [])"

lemma new_node_step:
  assumes inv: "kernel_inv k" and free: "free_bits (ibitmap (kfs k)) \<noteq> {}" and ft: "ft = S_IFDIR \<or> ft = S_IFREG"
  obtains i k0 k1 k' where "on_fs AllocInode k = (Ok i, k0)" "store_inode (new_inode ft own s om xm a b) i k0 = (Ok (), k1)"
    "k' = k1\<lparr>inodeCache := (inodeCache k1)(i := None)\<rparr>"
    "kernel_inv k'" "fs_only k k'" "live (kfs k) i = None" "unat i = Min (free_bits (ibitmap (kfs k)))" "i \<noteq> 0"
    "tree (kfs k') = (tree (kfs k))(i \<mapsto> empty_node ft \<lparr>m_owner = ownerBytes own, m_setuid = s, m_ownerMode = om, m_otherMode = xm\<rparr>)"
    "inodeCache k' = (inodeCache k)(i := None)" "free_kept (kfs k) (kfs k')" "dbitmap (kfs k') = dbitmap (kfs k)"
proof -
  let ?ino = "new_inode ft own s om xm a b"
  obtain i fs1 fs2 where r: "AllocInode (kfs k) = (Ok i, fs1)" "writeInode fs1 ?ino i = (fs2, None)"
    "unat i = Min (free_bits (ibitmap (kfs k)))" "live (kfs k) i = None" "live fs2 i = Some ?ino" "content fs2 i = []"
    "fs_inv fs2" "nodes_kept {i} (kfs k) fs2" "free_kept (kfs k) fs2" "dbitmap fs2 = dbitmap (kfs k)"
    by (rule alloc_inode[OF kernel_inv_fs(1)[OF inv] free new_inode_sel(4,1,3)])
  let ?k' = "k\<lparr>kfs := fs2, inodeCache := (inodeCache k)(i := None)\<rparr>"
  have t: "tree_ok (kfs k)" using inv by (simp add: kernel_inv_def)
  have l2: "live fs2 i \<noteq> None" using r(5) by simp
  have i: "i \<noteq> 0" "i \<noteq> 2" using t r(4) by (auto simp: tree_ok_def)
  have d: "disk_inode fs2 (unat i) = ?ino" using live_inode[OF l2] r(5) by simp
  have dir: "is_dir fs2 i \<longleftrightarrow> ft = S_IFDIR" by (simp add: is_dir_def d)
  have sl: "dir_slots fs2 i = []" by (simp add: dir_slots_def r(6) slots_of_def)
  have "node_ok fs2 i"
    using ft l2 by (auto simp: node_ok_def dir sl d dir_ok_def r(6) slots_ok_def)
  moreover have "live fs2 j \<noteq> None" if "live (kfs k) j \<noteq> None" for j
    using nodes_keptD(7)[OF r(8) _ that] that l2 by (cases "j = i") auto
  ultimately have "tree_ok fs2" using tree_ok_step[OF t r(7,8)] i(2) by auto
  moreover have "cache_ok ?k'"
    by (rule cache_ok_step[where k = k and S = "{i}"]) (use inv r(8) in \<open>auto simp: kernel_inv_def\<close>)
  ultimately have "kernel_inv ?k'" by (simp add: kernel_inv_def)
  moreover have "tree fs2 = (tree (kfs k))(i \<mapsto> empty_node ft (meta_of ?ino))"
    using tree_update[OF r(8) l2] by (simp add: node_of_def dir sl d r(6) empty_node_def)
  moreover have "on_fs AllocInode k = (Ok i, k\<lparr>kfs := fs1\<rparr>)"
    "store_inode ?ino i (k\<lparr>kfs := fs1\<rparr>) = (Ok (), k\<lparr>kfs := fs2\<rparr>)"
    using r(1,2) by (simp_all add: on_fs_def store_inode_def of_err_def)
  ultimately show ?thesis
    by (intro that[of i "k\<lparr>kfs := fs1\<rparr>" "k\<lparr>kfs := fs2\<rparr>" ?k']) (use r i(1) in simp_all)
qed

section \<open>makeInode\<close>

text \<open>The slots of a new directory.\<close>

definition dot_slots :: "u32 \<Rightarrow> u32 \<Rightarrow> dir_entry option list" where
  "dot_slots i p = [Some \<lparr>Inum = i, Name = ''.''\<rparr>, Some \<lparr>Inum = p, Name = ''..''\<rparr>] @ replicate 62 None"

definition made_node :: "u8 \<Rightarrow> node_meta \<Rightarrow> u32 \<Rightarrow> u32 \<Rightarrow> node" where
  "made_node ft m i p = (if ft = S_IFDIR then Dir_node m (dot_slots i p) else File_node m [])"

lemma add_dots:
  "add_slot e [] = Some e # replicate 63 None"
  "add_slot e' (Some e # replicate 63 None) = Some e # Some e' # replicate 62 None"
proof -
  have "first_slot (\<lambda>s. s = None) (Some e # replicate 63 None) = Some 1"
    by (auto simp: first_slot_def find_upt_Some)
  then show "add_slot e' (Some e # replicate 63 None) = Some e # Some e' # replicate 62 None"
    by (simp add: add_slot_def numeral_eq_Suc)
qed (simp add: add_slot_def first_slot_def)

lemma dots_room: "1 + n \<le> free_blocks fs \<Longrightarrow> free_zero fs \<Longrightarrow> slot_room n fs []"
  "n \<le> free_blocks fs \<Longrightarrow> slot_room n fs (Some e # replicate 63 None)"
  by (simp_all add: slot_room_def slot_cost_def full_dir_def layout nblocks_def needed_blocks_def new_places_def
    table_steps_def)

text \<open>The two entries of a new directory.\<close>

lemma add_both_dots:
  assumes inv: "kernel_inv k" and t: "tree (kfs k) i = Some (Dir_node m [])" and nz: "i \<noteq> 0" "p \<noteq> 0"
    and l: "live (kfs k) p \<noteq> None" and z: "free_zero (kfs k)" and room: "Suc n \<le> free_blocks (kfs k)" and ip: "i \<noteq> p"
  obtains k1 k2 where "on_fs (addDentry i \<lparr>Inum = i, Name = ''.''\<rparr>) k = (Ok (), k1)" "on_fs (addDentry i \<lparr>Inum = p, Name = ''..''\<rparr>) k1 = (Ok (), k2)"
    "kernel_inv k2" "fs_only k k2" "tree (kfs k2) = (tree (kfs k))(i \<mapsto> Dir_node m (dot_slots i p))"
    "inodeCache k2 = inodeCache k" "free_zero (kfs k2)" "n \<le> free_blocks (kfs k2)"
proof -
  let ?d = "\<lparr>Inum = i, Name = ''.''\<rparr>" and ?dd = "\<lparr>Inum = p, Name = ''..''\<rparr>"
  have li: "live (kfs k) i \<noteq> None" by (rule tree_live[OF t])
  obtain k3 where c: "on_fs (addDentry i ?d) k = (Ok (), k3)" "kernel_inv k3" "fs_only k k3"
    "tree (kfs k3) = (tree (kfs k))(i \<mapsto> Dir_node m (add_slot ?d []))" "inodeCache k3 = inodeCache k"
    "free_zero (kfs k) \<Longrightarrow> free_zero (kfs k3)" "n \<le> free_blocks (kfs k3)"
    by (rule add_entry_step[OF inv t _ _ dots_room(1)[of n]]) (use room nz l z li in \<open>auto simp: entry_ok_def\<close>)
  have t3: "tree (kfs k3) i = Some (Dir_node m (Some ?d # replicate 63 None))" using c(4) by (simp add: add_dots(1))
  have "tree (kfs k) p \<noteq> None" using l by (simp add: tree_def)
  then have l3: "live (kfs k3) p \<noteq> None" using c(4) ip by (intro tree_live[of _ p "the (tree (kfs k) p)"]) auto
  obtain k4 where d: "on_fs (addDentry i ?dd) k3 = (Ok (), k4)" "kernel_inv k4" "fs_only k3 k4"
    "tree (kfs k4) = (tree (kfs k3))(i \<mapsto> Dir_node m (add_slot ?dd (Some ?d # replicate 63 None)))"
    "inodeCache k4 = inodeCache k3" "free_zero (kfs k3) \<Longrightarrow> free_zero (kfs k4)" "n \<le> free_blocks (kfs k4)"
    by (rule add_entry_step[OF c(2) t3 _ _ dots_room(2)[OF c(7)]]) (use nz l3 in \<open>auto simp: entry_ok_def\<close>)
  show ?thesis
    by (rule that[OF c(1) d(1,2) fs_only_trans[OF c(3) d(3)] _ _ d(6)[OF c(6)[OF z]] d(7)])
      (use c(4,5) d(4,5) in \<open>simp_all add: dot_slots_def add_dots(2)\<close>)
qed

lemma makeInode_spec:
  assumes inv: "kernel_inv k" and free: "free_bits (ibitmap (kfs k)) \<noteq> {}" and ft: "ft = S_IFDIR \<or> ft = S_IFREG"
    and t: "tree (kfs k) p = Some (Dir_node m xs)" and p0: "p \<noteq> 0" and name: "length name \<le> 55"
    and room: "slot_room (if ft = S_IFDIR then Suc n else n) (kfs k) xs" and z: "ft = S_IFDIR \<Longrightarrow> free_zero (kfs k)"
    and mk: "mk = \<lparr>m_owner = ownerBytes own, m_setuid = s, m_ownerMode = om, m_otherMode = xm\<rparr>"
  obtains i k' where "makeInode now p name ft own s om xm k = (Ok i, k')" "kernel_inv k'" "fs_only k k'"
    "live (kfs k) i = None" "unat i = Min (free_bits (ibitmap (kfs k)))"
    "tree (kfs k') = (tree (kfs k))(i \<mapsto> made_node ft mk i p, p \<mapsto> Dir_node m (add_slot \<lparr>Inum = i, Name = name\<rparr> xs))"
    "inodeCache k' = (inodeCache k)(i := None)" "free_zero (kfs k) \<Longrightarrow> free_zero (kfs k')" "n \<le> free_blocks (kfs k')"
proof -
  obtain i k0 k0' k1 where al: "on_fs AllocInode k = (Ok i, k0)"
    "store_inode (new_inode ft own s om xm (fst now) (snd now)) i k0 = (Ok (), k0')"
    "k1 = k0'\<lparr>inodeCache := (inodeCache k0')(i := None)\<rparr>"
    and a: "kernel_inv k1" "fs_only k k1" "live (kfs k) i = None" "unat i = Min (free_bits (ibitmap (kfs k)))" "i \<noteq> 0"
    "tree (kfs k1) = (tree (kfs k))(i \<mapsto> empty_node ft mk)" "inodeCache k1 = (inodeCache k)(i := None)"
    "free_kept (kfs k) (kfs k1)" "dbitmap (kfs k1) = dbitmap (kfs k)"
    unfolding mk by (rule new_node_step[OF inv free ft, where own = own and s = s and om = om and xm = xm and a = "fst now" and b = "snd now"])
  have ip: "i \<noteq> p" using a(3) t by (auto simp: tree_dir)
  have t1: "tree (kfs k1) p = Some (Dir_node m xs)" using t ip a(6) by simp
  have l1: "live (kfs k1) i \<noteq> None" by (rule tree_live[of _ i]) (simp add: a(6))
  note z1 = free_zero_kept[OF a(8)]
  have r1: "slot_room (if ft = S_IFDIR then Suc n else n) (kfs k1) xs"
    using room a(9) z1 by (simp add: slot_room_def free_blocks_def)
  let ?e = "\<lparr>Inum = i, Name = name\<rparr>" and ?d = "\<lparr>Inum = i, Name = ''.''\<rparr>" and ?dd = "\<lparr>Inum = p, Name = ''..''\<rparr>"
  obtain k2 where b: "on_fs (addDentry p ?e) k1 = (Ok (), k2)" "kernel_inv k2" "fs_only k1 k2"
    "tree (kfs k2) = (tree (kfs k1))(p \<mapsto> Dir_node m (add_slot ?e xs))" "inodeCache k2 = inodeCache k1"
    "free_zero (kfs k1) \<Longrightarrow> free_zero (kfs k2)" "(if ft = S_IFDIR then Suc n else n) \<le> free_blocks (kfs k2)"
    by (rule add_entry_step[OF a(1) t1 _ _ r1]) (use name a(5) l1 in \<open>auto simp: entry_ok_def\<close>)
  note run = makeInode_def al(1,2) al(3)[symmetric]
  show ?thesis
  proof (cases "ft = S_IFDIR")
    case False
    have "makeInode now p name ft own s om xm k = (Ok i, k2)"
      using b(1) False by (simp add: run Let_def)
    moreover have "tree (kfs k2) = (tree (kfs k))(i \<mapsto> made_node ft mk i p, p \<mapsto> Dir_node m (add_slot ?e xs))"
      using b(4) a(6) False by (simp add: made_node_def empty_node_def)
    ultimately show ?thesis
      using b(7) False by (intro that[OF _ b(2) fs_only_trans[OF a(2) b(3)] a(3,4) _ _ b(6)[OF z1]]) (simp_all add: b(5) a(7))
  next
    case True
    have z2: "free_zero (kfs k2)" by (rule b(6)[OF z1[OF z[OF True]]])
    have t2: "tree (kfs k2) i = Some (Dir_node mk [])" using b(4) a(6) ip True by (simp add: empty_node_def)
    have l2: "live (kfs k2) i \<noteq> None" "live (kfs k2) p \<noteq> None"
      by (rule tree_live[OF t2], rule tree_live[of _ p]) (simp add: b(4))
    obtain k3 k4 where d: "on_fs (addDentry i ?d) k2 = (Ok (), k3)" "on_fs (addDentry i ?dd) k3 = (Ok (), k4)"
      "kernel_inv k4" "fs_only k2 k4" "tree (kfs k4) = (tree (kfs k2))(i \<mapsto> Dir_node mk (dot_slots i p))"
      "inodeCache k4 = inodeCache k2" "free_zero (kfs k4)" "n \<le> free_blocks (kfs k4)"
      by (rule add_both_dots[OF b(2) t2 a(5) p0 l2(2) z2 _ ip]) (use b(7) True in simp)
    have "makeInode now p name ft own s om xm k = (Ok i, k4)"
      using b(1) d(1,2) al(2)[unfolded True] True by (simp add: run Let_def)
    moreover have "tree (kfs k4) = (tree (kfs k))(i \<mapsto> made_node ft mk i p, p \<mapsto> Dir_node m (add_slot ?e xs))"
      using d(5) b(4) a(6) True ip by (simp add: made_node_def fun_upd_twist)
    moreover have "fs_only k k4" using a(2) b(3) d(4) fs_only_trans by blast
    ultimately show ?thesis
      by (intro that[OF _ d(3) _ a(3,4) _ _ d(7,8)]) (simp_all add: d(6) b(5) a(7))
  qed
qed

section \<open>mkDir, createFile and writing a missing file\<close>

lemma tree_lookup_nonzero: "tree_lookup t euid ds i = Ok j \<Longrightarrow> i \<noteq> 0 \<Longrightarrow>
    (\<And>d m xs n k. t d = Some (Dir_node m xs) \<Longrightarrow> slot_names xs n = Some k \<Longrightarrow> k \<noteq> 0) \<Longrightarrow> j \<noteq> 0"
  by (induction ds arbitrary: i) (auto split: option.splits node.splits if_splits)

lemma lookup_nonzero:
  assumes "kernel_inv k" "tree_lookup (tree (kfs k)) euid ds 2 = Ok j"
  shows "j \<noteq> 0"
proof (rule tree_lookup_nonzero[OF assms(2)])
  show "n \<noteq> 0" if "tree (kfs k) d = Some (Dir_node m xs)" "slot_names xs nm = Some n" for d m xs nm n
    using slot_names_live(2)[OF assms(1), of d nm n] that unfolding tree_dir by blast
qed simp

lemma lookup_live:
  assumes "kernel_inv k" "tree_lookup (tree (kfs k)) euid ds 2 = Ok j"
  shows "live (kfs k) j \<noteq> None"
  using lookup_root_live[OF assms(1)] assms(2) lookup_root_tree[OF assms(1)] by simp

text \<open>The path of the parent and the name in it.\<close>

lemma split_target:
  assumes "path_of proc target = cs @ [name]"
  shows "path_of proc (path_dir (normalizePath proc target)) = cs" "path_base (normalizePath proc target) = name"
    "path_of proc (normalizePath proc target) = cs @ [name]" "normalizePath proc target \<noteq> ''/''"
proof -
  note p = path_of[of proc target, unfolded assms]
  have ok: "\<forall>c \<in> set cs. comp_ok c" using p(2) by simp
  show "path_of proc (path_dir (normalizePath proc target)) = cs"
    using dir_abs_path[OF p(2)] path_of_abs_path[OF ok] by (simp add: p(1))
  show "path_base (normalizePath proc target) = name" using base_abs_path[OF p(2)] by (simp add: p(1))
  show "path_of proc (normalizePath proc target) = cs @ [name]" using path_of_abs_path[OF p(2)] by (simp add: p(1))
  show "normalizePath proc target \<noteq> ''/''"
    using abs_path_inject[of "[]" "cs @ [name]"] p by (simp add: abs_path_def)
qed

text \<open>Whether \<open>euid\<close> may make an entry in the directory of a path: its number, or the error.\<close>

definition parent_check :: "tree \<Rightarrow> string \<Rightarrow> string list \<Rightarrow> u32 outcome" where
  "parent_check t euid cs = bindO (tree_lookup t euid cs 2) (\<lambda>p. case t p of
     Some (Dir_node m xs) \<Rightarrow> if may 2 euid m then Ok p else Err EACCES
   | _ \<Rightarrow> Err ENOTDIR)"

lemma parent_check_Ok:
  "parent_check t euid cs = Ok p \<Longrightarrow>
   tree_lookup t euid cs 2 = Ok p \<and> (\<exists>m xs. t p = Some (Dir_node m xs) \<and> may 2 euid m)"
  by (cases "tree_lookup t euid cs 2") (auto simp: parent_check_def split: option.splits node.splits if_splits)

lemma create_in_parent_refused:
  assumes inv: "kernel_inv k" and p: "path_of proc target = cs @ [name]" and e: "parent_check (tree (kfs k)) (EUID proc) cs = Err e"
  obtains k' where "create_in_parent now proc (normalizePath proc target) ft k = (Err e, k')" "kernel_inv k'" "cache_only k k'"
proof -
  let ?dir = "path_dir (normalizePath proc target)"
  note s = split_target[OF p]
  show ?thesis
  proof (cases "\<exists>i. lookup_path (kfs k) (EUID proc) (path_of proc ?dir) 2 = Ok i")
    case False
    then obtain e' k' where f: "lookup_path (kfs k) (EUID proc) (path_of proc ?dir) 2 = Err e'"
      "ResolvePath proc ?dir k = (Err e', k')" "kernel_inv k'" "cache_only k k'"
      using resolve_fails[OF inv] by metis
    then have "e' = e" using e s(1) lookup_root_tree[OF inv] by (simp add: parent_check_def)
    then show ?thesis using that[OF _ f(3,4)] f(2) by (simp add: create_in_parent_def)
  next
    case True
    then obtain i where i: "lookup_path (kfs k) (EUID proc) (path_of proc ?dir) 2 = Ok i" by blast
    obtain k1 ino k2 where g: "ResolvePath proc ?dir k = (Ok i, k1)" "getInode i k1 = (Ok ino, k2)"
      "kernel_inv k2" "cache_only k k2" "inodeCache k2 i = Some ino" "cached_ok (kfs k) i ino" "live (kfs k) i \<noteq> None"
      by (rule resolve_load[OF inv i])
    have "parent_check (tree (kfs k)) (EUID proc) cs = (if is_dir (kfs k) i
        then if canWrite (EUID proc) (disk_inode (kfs k) (unat i)) then Ok i else Err EACCES else Err ENOTDIR)"
      using i g(7) s(1) lookup_root_tree[OF inv] by (auto simp: parent_check_def tree_def node_of_def can_may)
    then show ?thesis
      using that[OF _ g(3,4)] g(1,2) e cached_ok_sel(7)[OF g(6)] can_cached(2)[OF g(6)]
      by (simp add: create_in_parent_def split: if_splits)
  qed
qed

lemma create_in_parent_spec:
  assumes inv: "kernel_inv k" and p: "path_of proc target = cs @ [name]"
    and ok: "parent_check (tree (kfs k)) (EUID proc) cs = Ok p" and t: "tree (kfs k) p = Some (Dir_node m xs)"
    and free: "free_bits (ibitmap (kfs k)) \<noteq> {}" and ft: "ft = S_IFDIR \<or> ft = S_IFREG" and name: "length name \<le> 55"
    and room: "slot_room (if ft = S_IFDIR then Suc n else n) (kfs k) xs" and z: "ft = S_IFDIR \<Longrightarrow> free_zero (kfs k)"
    and mk: "mk = \<lparr>m_owner = ownerBytes (EUID proc), m_setuid = False, m_ownerMode = 7, m_otherMode = 5\<rparr>"
  obtains i k' where "create_in_parent now proc (normalizePath proc target) ft k = (Ok (), k')" "kernel_inv k'" "fs_only k k'"
    "live (kfs k) i = None" "unat i = Min (free_bits (ibitmap (kfs k)))"
    "tree (kfs k') = (tree (kfs k))(i \<mapsto> made_node ft mk i p, p \<mapsto> Dir_node m (add_slot \<lparr>Inum = i, Name = name\<rparr> xs))"
    "inodeCache k' i = None" "free_zero (kfs k) \<Longrightarrow> free_zero (kfs k')" "n \<le> free_blocks (kfs k')"
proof -
  note s = split_target[OF p]
  let ?dir = "path_dir (normalizePath proc target)"
  have l: "lookup_path (kfs k) (EUID proc) (path_of proc ?dir) 2 = Ok p"
    using parent_check_Ok[OF ok] s(1) lookup_root_tree[OF inv] by simp
  have w: "may 2 (EUID proc) m" using parent_check_Ok[OF ok] t by simp
  obtain k1 ino k2 where g: "ResolvePath proc ?dir k = (Ok p, k1)" "getInode p k1 = (Ok ino, k2)"
    "kernel_inv k2" "cache_only k k2" "inodeCache k2 p = Some ino" "cached_ok (kfs k) p ino" "live (kfs k) p \<noteq> None"
    by (rule resolve_load[OF inv l])
  have e: "kfs k2 = kfs k" using g(4) by simp
  have p0: "p \<noteq> 0" using lookup_nonzero[OF inv] parent_check_Ok[OF ok] by blast
  obtain i k' where k': "makeInode now p name ft (EUID proc) False 7 5 k2 = (Ok i, k')" "kernel_inv k'" "fs_only k2 k'"
    "live (kfs k2) i = None" "unat i = Min (free_bits (ibitmap (kfs k2)))"
    "tree (kfs k') = (tree (kfs k2))(i \<mapsto> made_node ft mk i p, p \<mapsto> Dir_node m (add_slot \<lparr>Inum = i, Name = name\<rparr> xs))"
    "inodeCache k' = (inodeCache k2)(i := None)" "free_zero (kfs k2) \<Longrightarrow> free_zero (kfs k')" "n \<le> free_blocks (kfs k')"
    by (rule makeInode_spec[OF g(3) _ ft _ p0 name _ _ mk, where n = n and xs = xs and m = m and now = now])
      (use free t room z e in simp_all)
  have "is_dir (kfs k) p" "may 2 (EUID proc) (meta_of (disk_inode (kfs k) (unat p)))"
    using t w by (auto simp: tree_dir)
  then have "create_in_parent now proc (normalizePath proc target) ft k = (Ok (), k')"
    using g(1,2) k'(1) s(2) cached_ok_sel(7)[OF g(6)] can_cached(2)[OF g(6)]
    by (simp add: create_in_parent_def can_may)
  then show ?thesis
    using that[OF _ k'(2) fs_only_trans[OF cache_only_fs[OF g(4)] k'(3)] _ _ _ _ _ k'(9)] k'(4-8) by (simp add: e)
qed

text \<open>The tree with a new node \<open>n\<close> under the number \<open>i\<close> and an entry for it in the directory \<open>p\<close>.\<close>

definition tree_add :: "tree \<Rightarrow> u32 \<Rightarrow> string \<Rightarrow> u32 \<Rightarrow> node \<Rightarrow> tree" where
  "tree_add t p name i n = (case t p of
     Some (Dir_node m xs) \<Rightarrow> t(i \<mapsto> n, p \<mapsto> Dir_node m (add_slot \<lparr>Inum = i, Name = name\<rparr> xs))
   | _ \<Rightarrow> t)"

definition user_meta :: "string \<Rightarrow> node_meta" where
  "user_meta u = \<lparr>m_owner = ownerBytes u, m_setuid = False, m_ownerMode = 7, m_otherMode = 5\<rparr>"

text \<open>That the disk has room for one more node in the directory \<open>p\<close>, with \<open>n\<close> blocks of data.\<close>

definition can_grow :: "nat \<Rightarrow> filesystem \<Rightarrow> u32 \<Rightarrow> bool" where
  "can_grow n fs p \<longleftrightarrow> free_bits (ibitmap fs) \<noteq> {} \<and>
     (\<forall>m xs. tree fs p = Some (Dir_node m xs) \<longrightarrow> slot_room n fs xs)"

lemma resolve_missing:
  assumes inv: "kernel_inv k" and r: "tree_lookup (tree (kfs k)) (EUID proc) (path_of proc target) 2 = Err e"
  obtains k1 where "ResolvePath proc (normalizePath proc target) k = (Err e, k1)" "kernel_inv k1" "cache_only k k1"
    "kfs k1 = kfs k"
proof -
  have p: "path_of proc (normalizePath proc target) = path_of proc target"
    using path_of(1)[of proc target] path_of_abs_path[OF path_of(2)[of proc target]] by simp
  obtain k1 where "ResolvePath proc (normalizePath proc target) k = (Err e, k1)" "kernel_inv k1" "cache_only k k1"
    using ResolvePath_lookup[OF inv, of proc "normalizePath proc target"] r lookup_root_tree[OF inv] p by metis
  then show ?thesis using that by simp
qed

lemma resolve_found:
  assumes inv: "kernel_inv k" and r: "tree_lookup (tree (kfs k)) (EUID proc) (path_of proc target) 2 = Ok i"
  obtains k1 where "ResolvePath proc (normalizePath proc target) k = (Ok i, k1)" "kernel_inv k1" "cache_only k k1"
    "kfs k1 = kfs k"
proof -
  have p: "path_of proc (normalizePath proc target) = path_of proc target"
    using path_of(1)[of proc target] path_of_abs_path[OF path_of(2)[of proc target]] by simp
  obtain k1 where "ResolvePath proc (normalizePath proc target) k = (Ok i, k1)" "kernel_inv k1" "cache_only k k1"
    using ResolvePath_lookup[OF inv, of proc "normalizePath proc target"] r lookup_root_tree[OF inv] p by metis
  then show ?thesis using that by simp
qed

lemma create_missing:
  assumes inv: "kernel_inv k" and p: "path_of proc target = cs @ [name]"
    and r: "tree_lookup (tree (kfs k)) (EUID proc) (cs @ [name]) 2 = Err e"
    and ft: "ft = S_IFDIR \<or> ft = S_IFREG" and name: "length name \<le> 55"
    and room: "\<And>p. parent_check (tree (kfs k)) (EUID proc) cs = Ok p \<Longrightarrow> can_grow (if ft = S_IFDIR then 1 else 0) (kfs k) p"
    and z: "ft = S_IFDIR \<Longrightarrow> free_zero (kfs k)"
  obtains k' where "on_result (ResolvePath proc (normalizePath proc target) k) F
      (\<lambda>_ k. create_in_parent now proc (normalizePath proc target) ft k) =
      (bindO (parent_check (tree (kfs k)) (EUID proc) cs) (\<lambda>_. Ok ()), k')" "kernel_inv k'" "fs_only k k'"
    "case parent_check (tree (kfs k)) (EUID proc) cs of
       Ok p \<Rightarrow> \<exists>i. tree (kfs k) i = None \<and> unat i = Min (free_bits (ibitmap (kfs k))) \<and>
         tree (kfs k') = tree_add (tree (kfs k)) p name i (made_node ft (user_meta (EUID proc)) i p) \<and>
         inodeCache k' i = None \<and> (free_zero (kfs k) \<longrightarrow> free_zero (kfs k'))
     | _ \<Rightarrow> kfs k' = kfs k"
proof -
  obtain k1 where k1: "ResolvePath proc (normalizePath proc target) k = (Err e, k1)" "kernel_inv k1" "cache_only k k1"
    "kfs k1 = kfs k" by (rule resolve_missing[OF inv, of proc target e]) (use r p in simp)
  have np: "parent_check t euid cs \<noteq> Panic" for t euid
  proof -
    have "tree_lookup t euid cs j \<noteq> Panic" for j
      by (induction cs arbitrary: j) (auto split: option.splits node.splits)
    then show ?thesis by (cases "tree_lookup t euid cs 2") (auto simp: parent_check_def split: option.split node.split)
  qed
  show ?thesis
  proof (cases "parent_check (tree (kfs k)) (EUID proc) cs")
    case (Err e')
    obtain k' where k': "create_in_parent now proc (normalizePath proc target) ft k1 = (Err e', k')" "kernel_inv k'" "cache_only k1 k'"
      by (rule create_in_parent_refused[OF k1(2) p, of e' now ft]) (use Err k1(4) in simp)
    show ?thesis
      by (rule that[OF _ k'(2) cache_only_fs[OF cache_only_trans[OF k1(3) k'(3)]]])
        (use k1 k'(1,3) Err in simp_all)
  next
    case (Ok q)
    obtain m xs where t: "tree (kfs k) q = Some (Dir_node m xs)" using parent_check_Ok[OF Ok] by blast
    have cg: "can_grow (if ft = S_IFDIR then 1 else 0) (kfs k) q" by (rule room[OF Ok])
    obtain i k' where k': "create_in_parent now proc (normalizePath proc target) ft k1 = (Ok (), k')" "kernel_inv k'" "fs_only k1 k'"
      "live (kfs k1) i = None" "unat i = Min (free_bits (ibitmap (kfs k1)))"
      "tree (kfs k') = (tree (kfs k1))(i \<mapsto> made_node ft (user_meta (EUID proc)) i q,
         q \<mapsto> Dir_node m (add_slot \<lparr>Inum = i, Name = name\<rparr> xs))"
      "inodeCache k' i = None" "free_zero (kfs k1) \<Longrightarrow> free_zero (kfs k')"
      by (rule create_in_parent_spec[OF k1(2) p _ _ _ ft name _ _ user_meta_def, where n = 0 and p = q and now = now])
        (use Ok t cg z k1(4) in \<open>auto simp: can_grow_def\<close>)
    show ?thesis
      by (rule that[OF _ k'(2) fs_only_trans[OF cache_only_fs[OF k1(3)] k'(3)]])
        (use k1(1,4) k'(1,4-8) Ok t in \<open>auto simp: tree_add_def\<close>)
  qed (use np in blast)
qed

lemma ownerString_ownerBytes: "length n \<le> 13 \<Longrightarrow> CHR 0x00 \<notin> set n \<Longrightarrow> ownerString (ownerBytes n) = n"
proof -
  assume n: "length n \<le> 13" "CHR 0x00 \<notin> set n"
  have z: "byte_of_char c \<noteq> 0" if "c \<in> set n" for c
  proof
    assume "byte_of_char c = 0"
    then have "c = char_of_byte 0" using char_of_byte_of_char[of c] by simp
    also have "\<dots> = CHR 0x00" by (simp add: char_of_byte_def char_of_def)
    finally show False using that n(2) by simp
  qed
  have "ownerBytes n = string_bytes n @ replicate (14 - length n) 0"
    using n(1) by (simp add: ownerBytes_def go_copy_def)
  moreover have "takeWhile (\<lambda>b. b \<noteq> 0) (string_bytes n @ replicate (14 - length n) 0) = string_bytes n"
    using z n(1) by (subst takeWhile_append2) (auto simp: string_bytes_def takeWhile_eq_Nil_iff)
  ultimately show ?thesis by (simp add: ownerString_def)
qed

lemma owner_may: "length u \<le> 13 \<Longrightarrow> CHR 0x00 \<notin> set u \<Longrightarrow> may b u (user_meta u) \<longleftrightarrow> u = ''root'' \<or> 7 AND b \<noteq> 0"
  by (auto simp: may_def user_meta_def ownerString_ownerBytes)

text \<open>\<open>mkDir\<close> and \<open>createFile\<close>, on a path that resolves and on one that does not.\<close>

lemma mkDir_exists:
  assumes "kernel_inv k" "tree_lookup (tree (kfs k)) (EUID proc) (path_of proc target) 2 = Ok i"
  obtains k' where "mkDir now proc target k = (Err EEXIST, k')" "createFile now proc target k = (Ok (), k')"
    "kernel_inv k'" "cache_only k k'"
  by (rule resolve_found[OF assms]) (auto simp: mkDir_def createFile_def Let_def intro: that)

lemmas mkDir_missing = create_missing[where ft = S_IFDIR and F = "\<lambda>_ k. (Err EEXIST, k)", folded mkDir_def[unfolded Let_def], simplified]
lemmas createFile_missing = create_missing[where ft = S_IFREG and F = "\<lambda>_ k. (Ok (), k)", folded createFile_def[unfolded Let_def], simplified]

lemma writeFile_missing:
  assumes inv: "kernel_inv k" and p: "path_of proc target = cs @ [name]"
    and r: "tree_lookup (tree (kfs k)) (EUID proc) (cs @ [name]) 2 = Err ENOENT" and name: "length name \<le> 55"
    and ok: "parent_check (tree (kfs k)) (EUID proc) cs = Ok q"
    and room: "can_grow (needed_blocks 0 (nblocks (length dat))) (kfs k) q" and len: "length dat \<le> max_blocks * BLOCKSIZE"
    and w: "may 2 (EUID proc) (user_meta (EUID proc))"
  obtains i k' where "writeFile now proc target dat k = (Ok (), k')" "kernel_inv k'" "fs_only k k'"
    "tree (kfs k) i = None" "unat i = Min (free_bits (ibitmap (kfs k)))"
    "tree (kfs k') = tree_add (tree (kfs k)) q name i (File_node (user_meta (EUID proc)) dat)"
proof -
  note s = split_target[OF p]
  let ?dir = "path_dir (normalizePath proc target)"
  obtain k1 where k1: "ResolvePath proc (normalizePath proc target) k = (Err ENOENT, k1)" "kernel_inv k1" "cache_only k k1"
    "kfs k1 = kfs k" by (rule resolve_missing[OF inv, of proc target ENOENT]) (use r p in simp)
  have l: "lookup_path (kfs k1) (EUID proc) (path_of proc ?dir) 2 = Ok q"
    using parent_check_Ok[OF ok] s(1) lookup_root_tree[OF inv] k1(4) by simp
  obtain m xs where t: "tree (kfs k) q = Some (Dir_node m xs)" "may 2 (EUID proc) m" using parent_check_Ok[OF ok] by blast
  obtain ka ino k2 where g: "ResolvePath proc ?dir k1 = (Ok q, ka)" "getInode q ka = (Ok ino, k2)"
    "kernel_inv k2" "cache_only k1 k2" "inodeCache k2 q = Some ino" "cached_ok (kfs k1) q ino" "live (kfs k1) q \<noteq> None"
    by (rule resolve_load[OF k1(2) l])
  have e: "kfs k2 = kfs k" using g(4) k1(4) by simp
  have q0: "q \<noteq> 0" using lookup_nonzero[OF inv] parent_check_Ok[OF ok] by blast
  let ?n = "needed_blocks 0 (nblocks (length dat))"
  obtain i k3 where k3: "makeInode now q name S_IFREG (EUID proc) False 7 5 k2 = (Ok i, k3)" "kernel_inv k3" "fs_only k2 k3"
    "live (kfs k2) i = None" "unat i = Min (free_bits (ibitmap (kfs k2)))"
    "tree (kfs k3) = (tree (kfs k2))(i \<mapsto> made_node S_IFREG (user_meta (EUID proc)) i q,
       q \<mapsto> Dir_node m (add_slot \<lparr>Inum = i, Name = name\<rparr> xs))" "?n \<le> free_blocks (kfs k3)"
    by (rule makeInode_spec[OF g(3) _ _ _ q0 name _ _ user_meta_def, where n = ?n and xs = xs and m = m and now = now])
      (use t room e in \<open>auto simp: can_grow_def\<close>)
  have iq: "i \<noteq> q" using k3(4) t(1) e by (auto simp: tree_dir)
  have t3: "tree (kfs k3) i = Some (File_node (user_meta (EUID proc)) [])" using k3(6) iq by (simp add: made_node_def)
  obtain k' where k': "write_inum proc dat i k3 = (Ok (), k')" "kernel_inv k'" "fs_only k3 k'"
    "tree (kfs k') = (tree (kfs k3))(i \<mapsto> File_node (user_meta (EUID proc)) dat)"
    by (rule write_inum_spec[OF k3(2) t3 w len]) (use k3(7) in \<open>simp add: free_blocks_def nblocks_def layout\<close>)
  have "may 2 (EUID proc) (meta_of (disk_inode (kfs k1) (unat q)))" using t by (auto simp: tree_dir k1(4))
  then have "writeFile now proc target dat k = (Ok (), k')"
    using k1(1) g(1,2) k3(1) k'(1) s(2) can_cached(2)[OF g(6)]
    by (simp add: writeFile_def writable_inum_def can_may)
  moreover have "tree (kfs k') = tree_add (tree (kfs k)) q name i (File_node (user_meta (EUID proc)) dat)"
    using k'(4) k3(6) t(1) iq e by (simp add: tree_add_def fun_upd_twist)
  moreover have "fs_only k k'"
    using cache_only_fs[OF k1(3)] cache_only_fs[OF g(4)] k3(3) k'(3) fs_only_trans by blast
  ultimately show ?thesis using that[OF _ k'(2)] k3(4,5) e by simp
qed

end
