(* ===== verification/RemoveSpec.thy ===== *)
theory RemoveSpec
  imports CreateSpec
begin

text \<open>
  What \<open>removeAll\<close> does to the tree: the entry of the path leaves its directory, and the node and
  everything under it (\<open>below\<close>) is gone, its inodes and its blocks free again. The code assumes a tree:
  what it removes is reached once and from nowhere else (\<open>detachable\<close>). It also assumes that the
  cached inodes of the directories it removes are up to date, which \<open>addDentry\<close> does not see to.
\<close>

section \<open>The nodes under a node\<close>

text \<open>In the order \<open>freeInodeTree\<close> frees them, down to a depth; \<open>None\<close> when the depth is not enough or a node is missing.\<close>

fun below :: "nat \<Rightarrow> tree \<Rightarrow> u32 \<Rightarrow> u32 list option"
  and belows :: "nat \<Rightarrow> tree \<Rightarrow> dir_entry list \<Rightarrow> u32 list option" where
  "below 0 t i = None"
| "below (Suc n) t i = (case t i of
     None \<Rightarrow> None
   | Some (File_node m bs) \<Rightarrow> Some [i]
   | Some (Dir_node m xs) \<Rightarrow> map_option (\<lambda>is. is @ [i]) (belows n t (entries xs)))"
| "belows n t [] = Some []"
| "belows n t (e # es) =
     (if Name e = ''.'' \<or> Name e = ''..'' then belows n t es
      else case below n t (Inum e) of None \<Rightarrow> None | Some is \<Rightarrow> map_option (\<lambda>js. is @ js) (belows n t es))"

lemma below_cong:
  "below n t i = Some is \<Longrightarrow> (\<And>j. j \<in> set is \<Longrightarrow> t' j = t j) \<Longrightarrow> below n t' i = Some is"
  "belows n t es = Some js \<Longrightarrow> (\<And>j. j \<in> set js \<Longrightarrow> t' j = t j) \<Longrightarrow> belows n t' es = Some js"
proof (induction n t i and n t es arbitrary: "is" and js rule: below_belows.induct)
  case (2 n t i)
  have "i \<in> set is" using 2(2) by (auto split: option.splits node.splits)
  then have "t' i = t i" by (rule 2(3))
  then show ?case using 2 by (auto split: option.splits node.splits)
next
  case (4 n t e es)
  then show ?case by (auto split: option.splits if_splits)
qed simp_all

section \<open>Freeing a node\<close>

lemma consistent_drop_empty:
  assumes "disk_consistent fs (files(i \<mapsto> ino))" "owned fs ino = []"
  shows "disk_consistent fs (files(i := None))"
proof -
  have r: "ran (files(i \<mapsto> ino)) = insert ino (ran (files(i := None)))"
    using ran_map_upd[of "files(i := None)" i ino] by simp
  then have "all_owned fs (files(i := None)) = all_owned fs (files(i \<mapsto> ino))"
    using assms(2) by (simp add: all_owned_def)
  then show ?thesis
    using assms(1) r unfolding disk_consistent_def by (auto split: if_splits)
qed

lemma free_inode_step:
  assumes inv: "fs_inv (kfs k)" and l: "live (kfs k) i \<noteq> None" and ino: "ino\<lparr>dirty := False\<rparr> = loaded (kfs k) i"
  obtains k' where "bindS (resize_cached ino i 0 k) (\<lambda>_ k. bindS (on_fs (\<lambda>fs. FreeInodeFromBitmap fs i) k) (\<lambda>_ k.
      (Ok (), k\<lparr>inodeCache := (inodeCache k)(i := None)\<rparr>))) = (Ok (), k')"
    "fs_inv (kfs k')" "live (kfs k') i = None" "nodes_kept {i} (kfs k) (kfs k')" "fs_only k k'"
    "inodeCache k' = (inodeCache k)(i := None)"
proof -
  have z: "unat (0 :: u32) = 0" "nblocks 0 = 0" by (simp_all add: nblocks_def layout)
  obtain ino' fs1 where r: "resize_cached ino i 0 k = (Ok ino', k\<lparr>kfs := fs1, inodeCache := (inodeCache k)(i \<mapsto> ino')\<rparr>)"
    "disk_consistent fs1 ((live (kfs k))(i \<mapsto> ino'))" "isize ino' = 0" "blocks_only ino ino'"
    "live fs1 = live (kfs k)" "nodes_kept {i} (kfs k) fs1" "loaded fs1 i = loaded (kfs k) i" "ibitmap fs1 = ibitmap (kfs k)"
    "\<forall>j < INODES. disk_inode fs1 j = disk_inode (kfs k) j"
    by (rule resize_cached_ok[OF inv l ino, of 0])
      (simp_all add: z needed_blocks_def new_places_def table_steps_def)
  have std: "std_fs fs1" using r(2) by (simp add: disk_consistent_def)
  have wf: "inode_wf fs1 ino'" using consistent_wf[OF r(2), of i] by simp
  have own: "owned fs1 ino' = []" using inode_wf_empty(2)[OF _ r(3)] wf by (simp add: inode_wf_def)
  have used: "unat i \<notin> free_bits (ibitmap fs1)" using l r(8) by (auto simp: live_def split: if_splits)
  obtain bm where f: "FreeInodeFromBitmap fs1 i = (Ok (), set_ibitmap bm fs1)" "length bm = INODES div 8"
    "free_bits bm = insert (unat i) (free_bits (ibitmap fs1))"
    using FreeInode_Ok[OF std live_range[OF l] used] by blast
  let ?fs2 = "set_ibitmap bm fs1"
  have v: "std_fs ?fs2" "dbitmap ?fs2 = dbitmap fs1" "\<And>b. dblk ?fs2 b = dblk fs1 b" "ibitmap ?fs2 = bm"
    "\<And>j. j < INODES \<Longrightarrow> disk_inode ?fs2 j = disk_inode fs1 j"
    using std f(2) by (simp_all add: view disk_inode_def)
  note dv = disk_consistent_views[OF v(1-3)]
  have lv: "live ?fs2 = (live fs1)(i := None)"
    using v(4,5) f(3) by (auto simp: live_def fun_eq_iff word_unat_eq_iff)
  have "disk_consistent ?fs2 ((live (kfs k))(i := None))"
    by (rule dv(4)[OF consistent_drop_empty[OF r(2) own]])
  then have inv2: "fs_inv ?fs2" by (simp add: fs_inv_def lv r(5))
  have "nodes_kept {i} fs1 ?fs2"
    unfolding nodes_kept_def
  proof (intro allI impI conjI)
    fix j assume j: "j \<notin> {i}" "live fs1 j \<noteq> None"
    show "content ?fs2 j = content fs1 j" using v(5)[OF live_range[OF j(2)]] dv(3) by (simp add: content_def)
  qed (simp add: lv)
  then have kept: "nodes_kept {i} (kfs k) ?fs2" by (rule nodes_kept_trans[OF r(6)]) simp_all
  let ?k' = "k\<lparr>kfs := ?fs2, inodeCache := (inodeCache k)(i := None)\<rparr>"
  show ?thesis
    by (rule that[of ?k']) (use r(1) f(1) inv2 lv kept in \<open>simp_all add: on_fs_def\<close>)
qed

section \<open>Freeing a tree\<close>

text \<open>What freeing needs of the nodes it frees: directories are well formed and nothing cached is stale.\<close>

definition freeable :: "kernel \<Rightarrow> u32 list \<Rightarrow> bool" where
  "freeable k is \<longleftrightarrow> fs_inv (kfs k) \<and>
     (\<forall>i \<in> set is. live (kfs k) i \<noteq> None \<and> coherent k i \<and> (is_dir (kfs k) i \<longrightarrow> dir_ok (kfs k) i))"

definition frees :: "u32 list \<Rightarrow> kernel \<Rightarrow> kernel \<Rightarrow> bool" where
  "frees is k k' \<longleftrightarrow> fs_inv (kfs k') \<and> nodes_kept (set is) (kfs k) (kfs k') \<and> (\<forall>i \<in> set is. live (kfs k') i = None) \<and>
     (\<forall>i. i \<notin> set is \<longrightarrow> inodeCache k' i = inodeCache k i) \<and> (\<forall>i \<in> set is. inodeCache k' i = None) \<and> fs_only k k'"

lemma freeable_frees:
  assumes "freeable k (is @ js)" "distinct (is @ js)" "frees is k k'"
  shows "freeable k' js"
  unfolding freeable_def
proof (intro conjI ballI)
  show "fs_inv (kfs k')" using assms(3) by (simp add: frees_def)
  fix j assume j: "j \<in> set js"
  then have n: "j \<notin> set is" using assms(2) by auto
  have l: "live (kfs k) j \<noteq> None" "coherent k j" "is_dir (kfs k) j \<longrightarrow> dir_ok (kfs k) j"
    using assms(1) j by (auto simp: freeable_def)
  have kept: "nodes_kept (set is) (kfs k) (kfs k')" "inodeCache k' j = inodeCache k j"
    using assms(3) n by (simp_all add: frees_def)
  note d = nodes_keptD[OF kept(1) n l(1)]
  show "live (kfs k') j \<noteq> None" "coherent k' j" "is_dir (kfs k') j \<longrightarrow> dir_ok (kfs k') j"
    using l d kept(2) by (simp_all add: coherent_def)
qed

lemma frees_trans:
  assumes "frees is a b" "frees js b c" "set is \<inter> set js = {}"
  shows "frees (is @ js) a c"
proof -
  have k: "nodes_kept (set (is @ js)) (kfs a) (kfs c)"
    using nodes_kept_trans[of "set is" "kfs a" "kfs b" "set js" "kfs c" "set (is @ js)"] assms(1,2)
    by (simp add: frees_def)
  have "live (kfs c) i = None \<and> inodeCache c i = None" if "i \<in> set is" for i
    using that assms by (auto simp: frees_def nodes_kept_def)
  then show ?thesis using assms(1,2) k fs_only_trans by (auto simp: frees_def)
qed

lemma frees_refl: "fs_inv (kfs k) \<Longrightarrow> frees [] k k"
  by (simp add: frees_def nodes_kept_def)

lemma freeable_entries:
  assumes "freeable k (is @ [i])" "distinct (is @ [i])" "frees is k k'" "inodeCache k i = Some ino"
  shows "ino\<lparr>dirty := False\<rparr> = loaded (kfs k') i" "live (kfs k') i \<noteq> None"
proof -
  have f: "freeable k' [i]" by (rule freeable_frees[OF assms(1-3)])
  then show "live (kfs k') i \<noteq> None" by (simp add: freeable_def)
  have "inodeCache k' i = Some ino" using assms(2,3,4) by (simp add: frees_def)
  then show "ino\<lparr>dirty := False\<rparr> = loaded (kfs k') i" using f by (simp add: freeable_def coherent_def)
qed

lemma getInode_coherent:
  assumes "fs_inv (kfs k)" "live (kfs k) i \<noteq> None" "coherent k i"
  obtains ino k' where "getInode i k = (Ok ino, k')" "ino\<lparr>dirty := False\<rparr> = loaded (kfs k) i"
    "inodeCache k' = (inodeCache k)(i \<mapsto> ino)" "kfs k' = kfs k" "fs_only k k'"
proof (cases "inodeCache k i")
  case None
  show ?thesis
    by (rule that[of "loaded (kfs k) i" "k\<lparr>inodeCache := (inodeCache k)(i \<mapsto> loaded (kfs k) i)\<rparr>"])
      (use None readInode_std[OF fs_inv_std[OF assms(1)] live_range[OF assms(2)]] in
        \<open>simp_all add: getInode_def loaded_def disk_inode_def Let_def with_ops_def decode_inode_def\<close>)
next
  case (Some ino)
  then show ?thesis using that[of ino k] assms(3) by (simp add: getInode_def coherent_def fun_upd_idem)
qed

text \<open>The last step for an inode, after everything below it: its blocks and its bit are freed.\<close>

definition free_inode :: "inode \<Rightarrow> u32 \<Rightarrow> kernel \<Rightarrow> unit outcome \<times> kernel" where
  "free_inode ino i k = bindS (resize_cached ino i 0 k) (\<lambda>_ k. bindS (on_fs (\<lambda>fs. FreeInodeFromBitmap fs i) k) (\<lambda>_ k.
      (Ok (), k\<lparr>inodeCache := (inodeCache k)(i := None)\<rparr>)))"

lemma free_inode_frees:
  assumes g: "ino\<lparr>dirty := False\<rparr> = loaded (kfs k) i" "inodeCache k1 = (inodeCache k)(i \<mapsto> ino)" "kfs k1 = kfs k" "fs_only k k1"
    and fr: "freeable k1 (is @ [i])" "distinct (is @ [i])" "frees is k1 k2"
  shows "\<exists>k'. free_inode ino i k2 = (Ok (), k') \<and> frees (is @ [i]) k k'"
proof -
  have s: "ino\<lparr>dirty := False\<rparr> = loaded (kfs k2) i" "live (kfs k2) i \<noteq> None"
    using freeable_entries[OF _ fr(2,3)] fr(1) g(1-3) by simp_all
  have inv2: "fs_inv (kfs k2)" using fr(3) by (simp add: frees_def)
  obtain k' where k': "free_inode ino i k2 = (Ok (), k')"
    "fs_inv (kfs k')" "live (kfs k') i = None" "nodes_kept {i} (kfs k2) (kfs k')" "fs_only k2 k'"
    "inodeCache k' = (inodeCache k2)(i := None)"
    unfolding free_inode_def by (rule free_inode_step[OF inv2 s(2,1)])
  have "frees [i] k2 k'" using k' by (simp add: frees_def)
  then have "frees (is @ [i]) k1 k'" using frees_trans[OF fr(3)] fr(2) by simp
  then have "frees (is @ [i]) k k'" using g(2-4) fs_only_trans[OF g(4)] by (auto simp: frees_def)
  then show ?thesis using k'(1) by blast
qed

text \<open>A list of entries: the first one, then the others, which nothing below the first is among.\<close>

lemma freeable_first:
  assumes "belows n (tree (kfs k)) es = Some ks" "distinct (is @ ks)" "freeable k (is @ ks)" "frees is k k1"
  shows "freeable k1 ks" "belows n (tree (kfs k1)) es = Some ks"
proof -
  show "freeable k1 ks" using freeable_frees[OF _ _ assms(4)] assms(2,3) by simp
  show "belows n (tree (kfs k1)) es = Some ks"
  proof (rule below_cong(2)[OF assms(1)])
    fix j assume "j \<in> set ks"
    then have "j \<notin> set is" using assms(2) by auto
    then show "tree (kfs k1) j = tree (kfs k) j" using nodes_kept_tree assms(4) by (auto simp: frees_def)
  qed
qed

lemma freeInodeTree_ok:
  "below n (tree (kfs k)) i = Some is \<Longrightarrow> distinct is \<Longrightarrow> freeable k is \<Longrightarrow>
     \<exists>k'. freeInodeTree n i k = (Ok (), k') \<and> frees is k k'"
  "belows n (tree (kfs k)) es = Some js \<Longrightarrow> distinct js \<Longrightarrow> freeable k js \<Longrightarrow>
     \<exists>k'. freeEntries n es k = (Ok (), k') \<and> frees js k k'"
proof (induction n i k and n es k arbitrary: "is" and js rule: freeInodeTree_freeEntries.induct)
  case (1 inum k)
  then show ?case by simp
next
  case (2 n i k)
  have i: "i \<in> set is" using 2(2) by (auto split: option.splits node.splits)
  then have l: "live (kfs k) i \<noteq> None" "coherent k i" "is_dir (kfs k) i \<longrightarrow> dir_ok (kfs k) i" and inv: "fs_inv (kfs k)"
    using 2(4) by (auto simp: freeable_def)
  obtain ino k1 where g: "getInode i k = (Ok ino, k1)" "ino\<lparr>dirty := False\<rparr> = loaded (kfs k) i"
    "inodeCache k1 = (inodeCache k)(i \<mapsto> ino)" "kfs k1 = kfs k" "fs_only k k1"
    by (rule getInode_coherent[OF inv l(1,2)])
  have ft: "fType ino = S_IFDIR \<longleftrightarrow> is_dir (kfs k) i"
    using arg_cong[OF g(2), of fType] by (simp add: is_dir_def)
  have op: "ops ino = ops (loaded (kfs k) i)" using arg_cong[OF g(2), of ops] by (simp del: loaded_sel)
  have fr1: "freeable k1 is"
    using 2(4) g by (auto simp: freeable_def coherent_def)
  have fin: "\<exists>k'. free_inode ino i k2 = (Ok (), k') \<and> frees is k k'" if "is = is' @ [i]" "frees is' k1 k2" for is' k2
    using free_inode_frees[OF g(2-5), of is' k2] fr1 2(3) that by simp
  show ?case
  proof (cases "is_dir (kfs k) i")
    case False
    then have "is = [] @ [i]" using 2(2) l(1) by (simp add: tree_def node_of_def)
    then show ?thesis
      using fin[of "[]" k1] frees_refl[of k1] inv g(1,4) ft False by (simp add: free_inode_def)
  next
    case True
    then have t: "tree (kfs k) i = Some (Dir_node (meta_of (disk_inode (kfs k) (unat i))) (dir_slots (kfs k) i))"
      using l(1) by (simp add: tree_dir)
    obtain is' where is': "belows n (tree (kfs k)) (entries (dir_slots (kfs k) i)) = Some is'" "is = is' @ [i]"
      using 2(2) t by auto
    have re: "ops_ReadEntries ino (kfs k1) = Ok (entries (dir_slots (kfs k) i))"
      using ReadEntries_ok[OF inv] l(3) True op g(4) by (simp add: ops_ReadEntries_def)
    have "\<exists>k2. freeEntries n (entries (dir_slots (kfs k) i)) k1 = (Ok (), k2) \<and> frees is' k1 k2"
      by (rule 2(1)[OF g(1)]) (use is' 2(3) fr1 g(4) re ft True in \<open>auto simp: freeable_def\<close>)
    then obtain k2 where "freeEntries n (entries (dir_slots (kfs k) i)) k1 = (Ok (), k2)" "frees is' k1 k2" by blast
    then show ?thesis using fin[OF is'(2)] g(1) ft True re by (simp add: free_inode_def)
  qed
next
  case (3 n k)
  then show ?case using frees_refl[of k] by (simp add: freeable_def)
next
  case (4 n e es k)
  show ?case
  proof (cases "Name e = ''.'' \<or> Name e = ''..''")
    case True
    then show ?thesis using 4 by auto
  next
    case False
    obtain "is" ks where b: "below n (tree (kfs k)) (Inum e) = Some is" "belows n (tree (kfs k)) es = Some ks" "js = is @ ks"
      using 4(4) False by (auto split: option.splits)
    have "freeable k is" using 4(6) b(3) by (auto simp: freeable_def)
    then obtain k1 where k1: "freeInodeTree n (Inum e) k = (Ok (), k1)" "frees is k k1"
      using 4(2)[OF False b(1)] 4(5) b(3) by auto
    have fr: "freeable k1 ks" "belows n (tree (kfs k1)) es = Some ks"
      using freeable_first[OF b(2) _ _ k1(2)] 4(5,6) b(3) by simp_all
    then obtain k2 where "freeEntries n es k1 = (Ok (), k2)" "frees ks k1 k2"
      using 4(3)[OF False k1(1)] fr 4(5) b(3) k1(1) by auto
    then show ?thesis using k1 frees_trans[OF k1(2)] 4(5) b(3) False by auto
  qed
qed

section \<open>removeAll\<close>

lemma remove_entry_step:
  assumes inv: "kernel_inv k" and t: "tree (kfs k) p = Some (Dir_node m xs)" and r: "remove_slot name xs = Some ys"
  obtains k' where "on_fs (removeDentry p name) k = (Ok (), k')" "kernel_inv k'" "fs_only k k'"
    "tree (kfs k') = (tree (kfs k))(p \<mapsto> Dir_node m ys)" "inodeCache k' = inodeCache k"
    "nodes_kept {p} (kfs k) (kfs k')"
proof -
  have lp: "live (kfs k) p \<noteq> None" "is_dir (kfs k) p" and xs: "xs = dir_slots (kfs k) p"
    and m: "m = meta_of (disk_inode (kfs k) (unat p))" using t by (auto simp: tree_dir)
  obtain fs' where a: "removeDentry p name (kfs k) = (Ok (), fs')" "fs_inv fs'" "dir_ok fs' p" "dir_slots fs' p = ys"
    "fs_kept p (kfs k) fs'" "disk_inode fs' (unat p) = disk_inode (kfs k) (unat p)"
    using removeDentry_ok[OF kernel_inv_fs(1)[OF inv] kernel_inv_dir(1)[OF inv lp], of name] r xs by auto
  let ?k' = "k\<lparr>kfs := fs'\<rparr>"
  have kept: "nodes_kept {p} (kfs k) fs'" by (rule fs_kept_nodes[OF a(5)])
  have lp': "live fs' p \<noteq> None" using a(3) by (simp add: dir_ok_def)
  have grow: "live fs' j \<noteq> None" if "live (kfs k) j \<noteq> None" for j
    using nodes_keptD(7)[OF kept _ that] that lp' by (cases "j = p") auto
  have d': "is_dir fs' p" using lp(2) a(6) by (simp add: is_dir_def)
  have sub: "Some x \<in> set ys \<Longrightarrow> Some x \<in> set xs" for x
    using r set_update_subset_insert[of xs _ None] by (auto simp: remove_slot_def)
  have "live fs' (Inum x) \<noteq> None" if "Some x \<in> set (dir_slots fs' p)" for x
    using sub[of x] that grow kernel_inv_dir(2)[OF inv lp, of x] xs unfolding a(4) by blast
  then have "node_ok fs' p" using d' a(3) by (auto simp: node_ok_def in_entries)
  then have "tree_ok fs'"
    using tree_ok_step[OF _ a(2) kept grow] inv d' by (auto simp: kernel_inv_def)
  moreover have "cache_ok ?k'"
  proof (rule cache_ok_step[where k = k and S = "{p}"])
    fix j ino assume j: "j \<in> {p}" "inodeCache ?k' j = Some ino"
    then have "cached_ok (kfs k) p ino" using inv by (simp add: kernel_inv_def cache_ok_def)
    then show "live (kfs ?k') j \<noteq> None \<and> cached_ok (kfs ?k') j ino"
      using cached_dir_step(1)[OF _ lp(2), of ino fs'] a(6) j(1) lp' by (simp add: same_meta_def)
  qed (use inv kept in \<open>auto simp: kernel_inv_def\<close>)
  ultimately have "kernel_inv ?k'" by (simp add: kernel_inv_def)
  moreover have "tree fs' = (tree (kfs k))(p \<mapsto> Dir_node m ys)"
    using tree_update[OF kept lp'] d' by (simp add: node_of_def a(4,6) m)
  ultimately show ?thesis using that[of ?k'] a(1) kept by (simp add: on_fs_def)
qed

text \<open>Nothing outside refers to the nodes that go, once the entry is gone.\<close>

definition detachable :: "tree \<Rightarrow> u32 \<Rightarrow> u32 list \<Rightarrow> bool" where
  "detachable t p is \<longleftrightarrow> distinct is \<and> {0, 2, p} \<inter> set is = {} \<and>
     (\<forall>d m xs. d \<notin> set is \<longrightarrow> t d = Some (Dir_node m xs) \<longrightarrow> (\<forall>e. Some e \<in> set xs \<longrightarrow> Inum e \<notin> set is))"

lemma frees_kernel_inv:
  assumes inv: "kernel_inv k" and f: "frees is k k'" and d: "detachable (tree (kfs k)) p is"
  shows "kernel_inv k'" "tree (kfs k') = (tree (kfs k)) |` (- set is)"
proof -
  have kept: "nodes_kept (set is) (kfs k) (kfs k')" and gone: "\<forall>i \<in> set is. live (kfs k') i = None"
    and fs: "fs_inv (kfs k')" using f by (simp_all add: frees_def)
  have t: "tree_ok (kfs k)" "cache_ok k" using inv by (simp_all add: kernel_inv_def)
  have out: "0 \<notin> set is" "2 \<notin> set is" using d by (auto simp: detachable_def)
  have "node_ok (kfs k') j" if l': "live (kfs k') j \<noteq> None" for j
  proof -
    have j: "j \<notin> set is" using gone l' by auto
    then have l: "live (kfs k) j \<noteq> None" using kept l' by (auto simp: nodes_kept_def)
    note n = nodes_keptD[OF kept j l]
    have o: "node_ok (kfs k) j" using t(1) l by (simp add: tree_ok_nodes)
    have "live (kfs k') (Inum e) \<noteq> None" if e: "Some e \<in> set (dir_slots (kfs k) j)" "is_dir (kfs k) j" for e
    proof -
      have "tree (kfs k) j = Some (Dir_node (meta_of (disk_inode (kfs k) (unat j))) (dir_slots (kfs k) j))"
        using l e(2) by (simp add: tree_dir)
      then have "Inum e \<notin> set is" using d j e(1) unfolding detachable_def by blast
      moreover have "live (kfs k) (Inum e) \<noteq> None" by (rule kernel_inv_dir(2)[OF inv l e(2,1)])
      ultimately show ?thesis using nodes_keptD(7)[OF kept] by simp
    qed
    then show ?thesis using o by (auto simp: node_ok_def n in_entries)
  qed
  moreover have "is_dir (kfs k') 2" "live (kfs k') 2 \<noteq> None" "live (kfs k') 0 \<noteq> None"
    using t(1) out nodes_keptD(2,7)[OF kept] by (simp_all add: tree_ok_nodes)
  ultimately have "tree_ok (kfs k')" using fs by (simp add: tree_ok_nodes)
  moreover have "cache_ok k'"
    by (rule cache_ok_step[OF t(2) kept]) (use f in \<open>auto simp: frees_def\<close>)
  ultimately show "kernel_inv k'" by (simp add: kernel_inv_def)
  show "tree (kfs k') = (tree (kfs k)) |` (- set is)"
    using gone nodes_kept_tree[OF kept] by (auto simp: fun_eq_iff restrict_map_def tree_def)
qed

definition tree_remove :: "tree \<Rightarrow> u32 \<Rightarrow> string \<Rightarrow> tree" where
  "tree_remove t p name = (case t p of
     Some (Dir_node m xs) \<Rightarrow> (case remove_slot name xs of Some ys \<Rightarrow> t(p \<mapsto> Dir_node m ys) | None \<Rightarrow> t)
   | _ \<Rightarrow> t)"

lemma lookup_last:
  assumes "tree_lookup t euid (cs @ [name]) 2 = Ok i"
  obtains p m xs where "tree_lookup t euid cs 2 = Ok p" "t p = Some (Dir_node m xs)" "may 1 euid m"
    "slot_names xs name = Some i"
  using assms unfolding tree_lookup_append
  by (cases "tree_lookup t euid cs 2") (auto split: option.splits node.splits if_splits)

lemma slot_names_remove: "slot_names xs n = Some i \<Longrightarrow> \<exists>ys. remove_slot n xs = Some ys"
  using slot_names_in[of xs n i] first_slot_None[of "has_name n" xs]
  by (cases "first_slot (has_name n) xs") (auto simp: remove_slot_def has_name_def)

lemma below_dom:
  "below n t i = Some js \<Longrightarrow> j \<in> set js \<Longrightarrow> t j \<noteq> None"
  "belows n t es = Some js \<Longrightarrow> j \<in> set js \<Longrightarrow> t j \<noteq> None"
  by (induction n t i and n t es arbitrary: js and js rule: below_belows.induct)
    (auto split: option.splits node.splits if_splits)

text \<open>Once the entry is out of the directory \<open>q\<close>, what was below it can be freed.\<close>

lemma below_freeable:
  assumes b: "below n (tree (kfs k)) i = Some is" "q \<notin> set is" "\<forall>j \<in> set is. coherent k j"
    and k': "kernel_inv k'" "inodeCache k' = inodeCache k" "nodes_kept {q} (kfs k) (kfs k')"
  shows "freeable k' is"
  unfolding freeable_def
proof (intro conjI ballI)
  show "fs_inv (kfs k')" by (rule kernel_inv_fs(1)[OF k'(1)])
  fix j assume j: "j \<in> set is"
  have l: "live (kfs k) j \<noteq> None" using below_dom(1)[OF b(1) j] by simp
  have "j \<notin> {q}" using j b(2) by auto
  note n = nodes_keptD[OF k'(3) this l]
  show l': "live (kfs k') j \<noteq> None" using n(7) l by simp
  show "coherent k' j" using b(3) j n(5) k'(2) by (simp add: coherent_def)
  show "is_dir (kfs k') j \<longrightarrow> dir_ok (kfs k') j" using kernel_inv_dir(1)[OF k'(1) l'] by blast
qed

lemma removeAll_spec:
  assumes inv: "kernel_inv k" and p: "path_of proc target = cs @ [name]"
    and r: "tree_lookup (tree (kfs k)) (EUID proc) (cs @ [name]) 2 = Ok i"
    and q: "tree_lookup (tree (kfs k)) (EUID proc) cs 2 = Ok q" "tree (kfs k) q = Some (Dir_node m xs)" "may 2 (EUID proc) m"
    and b: "below free_depth (tree (kfs k)) i = Some is" and d: "detachable (tree_remove (tree (kfs k)) q name) q is"
    and c: "\<forall>j \<in> set is. coherent k j"
  obtains k' where "removeAll proc target k = (Ok (), k')" "kernel_inv k'" "fs_only k k'"
    "tree (kfs k') = tree_remove (tree (kfs k)) q name |` (- set is)"
proof -
  note s = split_target[OF p]
  obtain p' m' xs' where l: "tree_lookup (tree (kfs k)) (EUID proc) cs 2 = Ok p'" "tree (kfs k) p' = Some (Dir_node m' xs')"
    "may 1 (EUID proc) m'" "slot_names xs' name = Some i" by (rule lookup_last[OF r])
  then have x: "may 1 (EUID proc) m" and nm: "slot_names xs name = Some i" using q by simp_all
  obtain ys where ys: "remove_slot name xs = Some ys" using slot_names_remove[OF nm] by blast
  obtain k1 where k1: "ResolvePath proc (normalizePath proc target) k = (Ok i, k1)" "kernel_inv k1" "cache_only k k1"
    "kfs k1 = kfs k" by (rule resolve_found[OF inv, of proc target i]) (use r p in simp)
  let ?dir = "path_dir (normalizePath proc target)"
  have lk: "lookup_path (kfs k1) (EUID proc) (path_of proc ?dir) 2 = Ok q"
    using q(1) s(1) lookup_root_tree[OF inv] k1(4) by simp
  obtain ka ino k2 where g: "ResolvePath proc ?dir k1 = (Ok q, ka)" "getInode q ka = (Ok ino, k2)"
    "kernel_inv k2" "cache_only k1 k2" "inodeCache k2 q = Some ino" "cached_ok (kfs k1) q ino" "live (kfs k1) q \<noteq> None"
    by (rule resolve_load[OF k1(2) lk])
  have e: "kfs k2 = kfs k" using g(4) k1(4) by simp
  have co: "cache_only k k2" by (rule cache_only_trans[OF k1(3) g(4)])
  have t2: "tree (kfs k2) q = Some (Dir_node m xs)" using q(2) e by simp
  obtain k3 where k3: "on_fs (removeDentry q name) k2 = (Ok (), k3)" "kernel_inv k3" "fs_only k2 k3"
    "tree (kfs k3) = (tree (kfs k2))(q \<mapsto> Dir_node m ys)" "inodeCache k3 = inodeCache k2" "nodes_kept {q} (kfs k2) (kfs k3)"
    by (rule remove_entry_step[OF g(3) t2 ys])
  have tr: "tree (kfs k3) = tree_remove (tree (kfs k)) q name" using k3(4) e q(2) ys by (simp add: tree_remove_def)
  have qi: "q \<notin> set is" and dist: "distinct is" using d by (auto simp: detachable_def)
  have b3: "below free_depth (tree (kfs k3)) i = Some is"
    by (rule below_cong(1)[OF b]) (use qi k3(4) e in auto)
  have "below free_depth (tree (kfs k2)) i = Some is" "\<forall>j \<in> set is. coherent k2 j"
    using b c cache_only_coherent[OF co] e by auto
  then have "freeable k3 is" using below_freeable[OF _ qi _ k3(2,5,6)] by blast
  then obtain k' where k': "freeInodeTree free_depth i k3 = (Ok (), k')" "frees is k3 k'"
    using freeInodeTree_ok(1)[OF b3 dist] by blast
  have fin: "kernel_inv k'" "tree (kfs k') = (tree (kfs k3)) |` (- set is)"
    using frees_kernel_inv[OF k3(2) k'(2), of q] d tr by simp_all
  have "may 2 (EUID proc) (meta_of (disk_inode (kfs k1) (unat q)))" "may 1 (EUID proc) (meta_of (disk_inode (kfs k1) (unat q)))"
    using q(2,3) x k1(4) by (auto simp: tree_dir)
  then have "removeAll proc target k = (Ok (), k')"
    using k1(1) g(1,2) k3(1) k'(1) s(2,4) can_cached(2,3)[OF g(6)]
    by (simp add: removeAll_def Let_def can_may)
  moreover have "fs_only k k'"
    using cache_only_fs[OF co] k3(3) k'(2) fs_only_trans by (auto simp: frees_def)
  ultimately show ?thesis using that[OF _ fin(1)] fin(2) tr by simp
qed

end
