(* ===== verification/ReadSpec.thy ===== *)
theory ReadSpec
  imports WriteSpec
begin

text \<open>
  The calls that read, as functions of the tree; and what no call on files touches, whatever its
  outcome: the processes, the open file descriptions, the terminals and the sessions.
\<close>

section \<open>Reading the tree\<close>

definition tree_read :: "tree \<Rightarrow> string \<Rightarrow> string list \<Rightarrow> u8 list outcome" where
  "tree_read t euid cs = bindO (tree_lookup t euid cs 2) (\<lambda>i. case t i of
     Some (File_node m bs) \<Rightarrow> if may 4 euid m then Ok bs else Err EACCES
   | _ \<Rightarrow> Err EISDIR)"

definition node_is_dir :: "node option \<Rightarrow> bool" where
  "node_is_dir n = (case n of Some (Dir_node m xs) \<Rightarrow> True | _ \<Rightarrow> False)"

definition tree_list :: "tree \<Rightarrow> string \<Rightarrow> string list \<Rightarrow> file_info list outcome" where
  "tree_list t euid cs = bindO (tree_lookup t euid cs 2) (\<lambda>i. case t i of
     Some (Dir_node m xs) \<Rightarrow>
       if may 4 euid m then
         Ok (map (\<lambda>e. \<lparr>fi_Name = Name e, IsDir = node_is_dir (t (Inum e)), fi_Inum = Inum e\<rparr>) (filter not_dot (entries xs)))
       else Err EACCES
   | _ \<Rightarrow> Err ENOTDIR)"

definition tree_stat :: "tree \<Rightarrow> string \<Rightarrow> string list \<Rightarrow> file_metadata option" where
  "tree_stat t euid cs = (case tree_lookup t euid cs 2 of
     Ok i \<Rightarrow> map_option (\<lambda>n. \<lparr>Filepath = abs_path cs, Owner = ownerString (m_owner (node_meta n)),
       Setuid = m_setuid (node_meta n), OwnerMode = m_ownerMode (node_meta n), OtherMode = m_otherMode (node_meta n)\<rparr>) (t i)
   | _ \<Rightarrow> None)"

text \<open>Whether a process may change into the directory of a path.\<close>

definition tree_enter :: "tree \<Rightarrow> string \<Rightarrow> string list \<Rightarrow> unit outcome" where
  "tree_enter t euid cs = (case tree_lookup t euid cs 2 of
     Ok i \<Rightarrow> (case t i of
        Some (Dir_node m xs) \<Rightarrow> if may 1 euid m then Ok () else Err (ErrorText (abs_path cs @ '': permission denied''))
      | _ \<Rightarrow> Err (ErrorText (abs_path cs @ '': no such file or directory'')))
   | _ \<Rightarrow> Err (ErrorText (abs_path cs @ '': no such file or directory'')))"

lemma bindO_cong: "(\<And>x. m = Ok x \<Longrightarrow> f x = g x) \<Longrightarrow> bindO m f = bindO m g"
  by (cases m) auto

lemma node_is_dir: "live fs i \<noteq> None \<Longrightarrow> node_is_dir (tree fs i) = is_dir fs i"
  by (auto simp: node_is_dir_def tree_def node_of_def)

lemma spec_read_tree:
  assumes inv: "kernel_inv k"
  shows "spec_read (kfs k) euid cs = tree_read (tree (kfs k)) euid cs"
  unfolding spec_read_def tree_read_def lookup_root_tree[OF inv]
proof (rule bindO_cong)
  fix i assume "tree_lookup (tree (kfs k)) euid cs 2 = Ok i"
  then have "live (kfs k) i \<noteq> None" using lookup_root_live[OF inv, of euid cs i] lookup_root_tree[OF inv] by simp
  then show "(if is_dir (kfs k) i then Err EISDIR else if \<not> canRead euid (disk_inode (kfs k) (unat i)) then Err EACCES
      else Ok (content (kfs k) i)) = (case tree (kfs k) i of
     Some (File_node m bs) \<Rightarrow> if may 4 euid m then Ok bs else Err EACCES | _ \<Rightarrow> Err EISDIR)"
    by (auto simp: tree_def node_of_def can_may)
qed

lemma spec_list_tree:
  assumes inv: "kernel_inv k"
  shows "spec_list (kfs k) euid cs = tree_list (tree (kfs k)) euid cs"
  unfolding spec_list_def tree_list_def lookup_root_tree[OF inv]
proof (rule bindO_cong)
  fix i assume "tree_lookup (tree (kfs k)) euid cs 2 = Ok i"
  then have l: "live (kfs k) i \<noteq> None" using lookup_root_live[OF inv, of euid cs i] lookup_root_tree[OF inv] by simp
  have "map (info_of (kfs k)) (filter not_dot (entries (dir_slots (kfs k) i))) =
      map (\<lambda>e. \<lparr>fi_Name = Name e, IsDir = node_is_dir (tree (kfs k) (Inum e)), fi_Inum = Inum e\<rparr>)
        (filter not_dot (entries (dir_slots (kfs k) i)))" if "is_dir (kfs k) i"
    using kernel_inv_dir(2)[OF inv l that] by (intro map_cong) (auto simp: info_of_def node_is_dir in_entries)
  with l show "(if \<not> is_dir (kfs k) i then Err ENOTDIR else if \<not> canRead euid (disk_inode (kfs k) (unat i)) then Err EACCES
      else Ok (map (info_of (kfs k)) (filter not_dot (entries (dir_slots (kfs k) i))))) = (case tree (kfs k) i of
     Some (Dir_node m xs) \<Rightarrow> if may 4 euid m then
       Ok (map (\<lambda>e. \<lparr>fi_Name = Name e, IsDir = node_is_dir (tree (kfs k) (Inum e)), fi_Inum = Inum e\<rparr>) (filter not_dot (entries xs)))
       else Err EACCES | _ \<Rightarrow> Err ENOTDIR)"
    by (auto simp: tree_def[of _ i] node_of_def can_may)
qed

lemma spec_stat_tree:
  assumes inv: "kernel_inv k"
  shows "spec_stat (kfs k) proc target = tree_stat (tree (kfs k)) (EUID proc) (path_of proc target)"
proof (cases "tree_lookup (tree (kfs k)) (EUID proc) (path_of proc target) 2")
  case (Ok i)
  then have "live (kfs k) i \<noteq> None" using lookup_root_live[OF inv] lookup_root_tree[OF inv] by simp
  then show ?thesis
    using Ok by (simp add: spec_stat_def tree_stat_def lookup_root_tree[OF inv] Let_def tree_def meta_of_def)
qed (simp_all add: spec_stat_def tree_stat_def lookup_root_tree[OF inv])

lemma changeDirectory_tree:
  assumes inv: "kernel_inv k"
  obtains k' where "changeDirectory proc target k =
      (let r = tree_enter (tree (kfs k)) (EUID proc) (path_of proc target)
       in (r, if r = Ok () then proc\<lparr>CWD := abs_path (path_of proc target)\<rparr> else proc, k'))"
    "kernel_inv k'" "cache_only k k'"
proof -
  obtain k' where k': "changeDirectory proc target k =
      (case lookup_path (kfs k) (EUID proc) (path_of proc target) 2 of
         Ok i \<Rightarrow> if \<not> is_dir (kfs k) i then
             (Err (ErrorText (abs_path (path_of proc target) @ '': no such file or directory'')), proc, k')
           else if \<not> canExecute (EUID proc) (disk_inode (kfs k) (unat i)) then
             (Err (ErrorText (abs_path (path_of proc target) @ '': permission denied'')), proc, k')
           else (Ok (), proc\<lparr>CWD := abs_path (path_of proc target)\<rparr>, k')
       | _ \<Rightarrow> (Err (ErrorText (abs_path (path_of proc target) @ '': no such file or directory'')), proc, k'))"
    "kernel_inv k'" "cache_only k k'"
    by (rule changeDirectory_spec[OF inv refl])
  show ?thesis
  proof (rule that[OF _ k'(2,3)], cases "tree_lookup (tree (kfs k)) (EUID proc) (path_of proc target) 2")
    case (Ok i)
    then have "live (kfs k) i \<noteq> None" using lookup_root_live[OF inv] lookup_root_tree[OF inv] by simp
    then show "changeDirectory proc target k =
      (let r = tree_enter (tree (kfs k)) (EUID proc) (path_of proc target)
       in (r, if r = Ok () then proc\<lparr>CWD := abs_path (path_of proc target)\<rparr> else proc, k'))"
      using Ok k'(1) by (simp add: lookup_root_tree[OF inv] tree_enter_def Let_def tree_def node_of_def can_may)
  qed (use k'(1) in \<open>simp_all add: lookup_root_tree[OF inv] tree_enter_def Let_def\<close>)
qed

section \<open>What the calls on files leave alone\<close>

text \<open>A computation on the kernel that changes at most its disk and its cache.\<close>

definition files_only :: "(kernel \<Rightarrow> 'a outcome \<times> kernel) \<Rightarrow> bool" where
  "files_only m \<longleftrightarrow> (\<forall>k. fs_only k (snd (m k)))"

named_theorems files_only_intros \<open>computations that change at most the disk and the cache\<close>

lemma files_onlyD: "files_only m \<Longrightarrow> m k = (r, k') \<Longrightarrow> fs_only k k'"
  unfolding files_only_def by (metis snd_conv)

lemma files_only_bind [files_only_intros]:
  assumes "files_only m" "\<And>x. files_only (f x)"
  shows "files_only (\<lambda>k. bindS (m k) f)"
  unfolding files_only_def
proof
  fix k
  obtain r k1 where m: "m k = (r, k1)" by (cases "m k")
  then have "fs_only k k1" by (rule files_onlyD[OF assms(1)])
  moreover have "fs_only k1 (snd (f x k1))" for x using assms(2) by (simp add: files_only_def)
  ultimately show "fs_only k (snd (bindS (m k) f))" using fs_only_trans by (cases r) (auto simp: m)
qed

lemma files_only_on_result [files_only_intros]:
  assumes "files_only m" "\<And>x. files_only (f x)" "\<And>e. files_only (g e)"
  shows "files_only (\<lambda>k. on_result (m k) f g)"
  unfolding files_only_def
proof
  fix k
  obtain r k1 where m: "m k = (r, k1)" by (cases "m k")
  then have "fs_only k k1" by (rule files_onlyD[OF assms(1)])
  moreover have "fs_only k1 (snd (f x k1))" "fs_only k1 (snd (g e k1))" for x e
    using assms(2,3) by (simp_all add: files_only_def)
  ultimately show "fs_only k (snd (on_result (m k) f g))" using fs_only_trans by (cases r) (auto simp: m)
qed

lemma files_only_pure [files_only_intros]: "files_only (\<lambda>k. (r k, k))"
  by (simp add: files_only_def)

lemma files_only_bind_pure [files_only_intros]:
  "(\<And>x. files_only (f x)) \<Longrightarrow> files_only (\<lambda>k. bindS (r k, k) f)"
  by (rule files_only_bind[OF files_only_pure])

lemma files_only_if [files_only_intros]:
  "files_only m \<Longrightarrow> files_only m' \<Longrightarrow> files_only (\<lambda>k. if b then m k else m' k)"
  by (simp add: files_only_def)

lemma files_only_cache [files_only_intros]:
  "files_only f \<Longrightarrow> files_only (\<lambda>k. f (k\<lparr>inodeCache := c k\<rparr>))"
  "files_only (\<lambda>k. (r k, k\<lparr>inodeCache := c k\<rparr>))"
  unfolding files_only_def by (metis fs_only_trans fs_only_update(2)) simp

lemma files_only_on_fs [files_only_intros]: "files_only (on_fs f)"
  by (simp add: files_only_def on_fs_def split: prod.split)

lemma files_only_store [files_only_intros]: "files_only (store_inode ino i)"
  unfolding store_inode_def by (rule files_only_on_fs)

lemma files_only_resize [files_only_intros]: "files_only (resize_cached ino i sz)"
  by (simp add: files_only_def resize_cached_def split: prod.split)

lemma files_only_getInode [files_only_intros]: "files_only (getInode i)"
  by (simp add: files_only_def getInode_def Let_def split: option.split outcome.split)

lemma files_only_walk [files_only_intros]: "files_only (walk euid ds ino)"
proof (induction ds arbitrary: ino)
  case (Cons d ds)
  then show ?case
    unfolding walk.simps by (intro files_only_intros)
qed (simp add: files_only_def)

lemma files_only_ResolvePath [files_only_intros]: "files_only (ResolvePath proc target)"
  unfolding ResolvePath_def by (intro files_only_intros)

lemma files_only_FileFD:
  "FileFD_Read f b k = (r, (f', b', k')) \<Longrightarrow> fs_only k k'" "FileFD_Write f dat k = (r', (f', k')) \<Longrightarrow> fs_only k k'"
  using files_onlyD[OF files_only_getInode]
  by (fastforce simp: FileFD_Read_def FileFD_Write_def Let_def split: prod.splits outcome.splits if_splits option.splits)+

lemma files_only_ops [files_only_intros]: "files_only (ops_read ino i b)" "files_only (ops_write ino i dat)"
  using files_only_FileFD
  by (auto simp: files_only_def ops_read_def ops_write_def split: option.splits inode_ops.splits prod.splits outcome.splits)

lemma files_only_entry_infos [files_only_intros]: "files_only (entry_infos es)"
proof (induction es)
  case (Cons e es)
  then show ?case unfolding entry_infos.simps by (intro files_only_intros)
qed (simp add: files_only_def)

lemma files_only_reads [files_only_intros]:
  "files_only (readFile proc target)" "files_only (readDir proc target)" "files_only (stat proc target)"
  unfolding readFile_def readDir_def stat_def by (intro files_only_intros)+

lemma files_only_makeInode [files_only_intros]: "files_only (makeInode now p name ft own s om xm)"
  unfolding makeInode_def Let_def by (intro files_only_intros)

lemma files_only_freeEntries: "(\<And>i. files_only (freeInodeTree n i)) \<Longrightarrow> files_only (freeEntries n es)"
proof (induction es)
  case (Cons e es)
  show ?case unfolding freeEntries.simps by (intro files_only_intros Cons)
qed (simp add: files_only_def)

lemma files_only_freeInodeTree [files_only_intros]: "files_only (freeInodeTree n i)"
proof (induction n arbitrary: i)
  case (Suc n)
  show ?case unfolding freeInodeTree.simps by (intro files_only_intros files_only_freeEntries Suc)
qed (simp add: files_only_def)

lemma files_only_writes [files_only_intros]:
  "files_only (removeAll proc target)" "files_only (mkDir now proc target)" "files_only (createFile now proc target)"
  "files_only (writeFile now proc target dat)" "files_only (chmod proc target om xm)"
  unfolding removeAll_def mkDir_def createFile_def writeFile_def chmod_def create_in_parent_def writable_inum_def
    write_inum_def Let_def
  by (intro files_only_intros)+

end
