(* ===== verification/StorageProps.thy ===== *)
theory StorageProps
  imports Format
begin

text \<open>
  The properties of the storage layers: disk, codecs, bitmaps, inodes, \<open>Falloc\<close>, open files and
  formatting. Each is applied to the disk \<open>NewFileSystem\<close> formats, or to a small literal.
\<close>

section \<open>A concrete disk\<close>

definition demo_fs :: filesystem where
  "demo_fs = fresh_fs 0 0"

definition demo_ino :: inode where
  "demo_ino = disk_part (root_inode 0 0)"

definition demo_kernel :: kernel where
  "demo_kernel = new_kernel demo_fs"

lemma unat_2 [simp]: "unat (2 :: u32) = 2"
  by simp

lemma demo_facts:
  "fs_inv demo_fs" "disk_consistent demo_fs (live demo_fs)" "live demo_fs 2 = Some demo_ino"
  "std_fs demo_fs" "inode_wf demo_fs demo_ino" "data_bm (dbitmap demo_fs)" "isize demo_ino = 0"
  "card (free_bits (dbitmap demo_fs)) = 16128" "free_bits (ibitmap demo_fs) = {3..<INODES}"
  "content demo_fs 2 = []" "superblock_bytes demo_fs = writeSuprBlktoSuprBuf zero_block fresh_superblock"
  "disk_inode demo_fs 2 = demo_ino"
proof -
  note v = fresh_fs_views[where c = 0 and m = 0, folded demo_fs_def]
  show inv: "fs_inv demo_fs" "disk_consistent demo_fs (live demo_fs)"
    using fresh_fs_inv[of 0 0] by (simp_all add: demo_fs_def fs_inv_def)
  have two: "(2 :: nat) < INODES" by (simp add: layout)
  show ib: "free_bits (ibitmap demo_fs) = {3..<INODES}" by (simp add: v(3) fresh_ibitmap_free)
  show d: "disk_inode demo_fs 2 = demo_ino" using v(5)[OF two] by (simp add: demo_ino_def)
  show l: "live demo_fs 2 = Some demo_ino" using two ib d by (simp add: live_Some)
  show "std_fs demo_fs" "inode_wf demo_fs demo_ino" "data_bm (dbitmap demo_fs)"
    using inv(2) consistent_wf[OF inv(2) l] by (simp_all add: disk_consistent_def)
  show sz: "isize demo_ino = 0" by (simp add: demo_ino_def root_inode_def)
  show "card (free_bits (dbitmap demo_fs)) = 16128" by (simp add: v(2) fresh_dbitmap_free) (simp add: layout)
  show "superblock_bytes demo_fs = writeSuprBlktoSuprBuf zero_block fresh_superblock" by (rule v)
  show "content demo_fs 2 = []" using sz by (simp add: content_def d file_bytes_def)
qed

lemma demo_usable: "usable demo_kernel 2"
  using demo_facts(1,3) by (simp add: usable_def demo_kernel_def new_kernel_def coherent_def)

lemma nblocks_small: "nblocks 0 = 0" "nblocks 3 = 1" "nblocks 10 = 1"
  by (simp_all add: nblocks_def layout)

lemma needed_small: "needed_blocks 0 1 = 1" "needed_blocks 0 (Suc 0) = 1" "needed_blocks 0 0 = 0"
  by (simp_all add: needed_blocks_def new_places_def table_steps_def)

section \<open>Resizing\<close>

text \<open>
  C1. A successful \<open>Falloc\<close> keeps the disk consistent: afterwards the resized file and every other
  file are well formed, no block belongs to two of them, and the bitmap marks exactly the blocks in
  use. The size is the requested one, the blocks below both sizes stay where they are, and neither
  the block list nor the bytes of another file change.
\<close>

theorem Falloc_keeps_disk_consistent:
  assumes "disk_consistent fs files" "files i = Some ino" "unat sz \<le> 2 ^ 32 - BLOCKSIZE"
    and "Falloc ino sz fs = (Ok (), (ino', fs'))"
  shows "disk_consistent fs' (files(i \<mapsto> ino')) \<and> isize ino' = sz \<and>
    (\<forall>v. v < nblocks (unat (isize ino)) \<longrightarrow> v < nblocks (unat sz) \<longrightarrow> blk_at fs' ino' v = blk_at fs ino v) \<and>
    (\<forall>j ino2. j \<noteq> i \<longrightarrow> files j = Some ino2 \<longrightarrow> owned fs' ino2 = owned fs ino2 \<and>
       file_bytes fs' ino2 = file_bytes fs ino2)"
  using Falloc_consistent[OF assms] by (auto intro: file_bytes_same)

theorem Falloc_keeps_disk_consistent_witness:
  "\<exists>ino' fs'. Falloc demo_ino 10 demo_fs = (Ok (), (ino', fs')) \<and>
     disk_consistent fs' ((live demo_fs)(2 \<mapsto> ino')) \<and> isize ino' = 10"
proof -
  obtain ino' fs' where f: "Falloc demo_ino 10 demo_fs = (Ok (), (ino', fs'))"
  proof (rule Falloc_grow[OF demo_facts(4,5,6) refl refl])
    show "nblocks (unat (isize demo_ino)) < nblocks (unat (10 :: u32))"
      "nblocks (unat (10 :: u32)) \<le> max_blocks"
      "needed_blocks (nblocks (unat (isize demo_ino))) (nblocks (unat (10 :: u32))) \<le> card (free_bits (dbitmap demo_fs))"
      by (simp_all add: demo_facts nblocks_small needed_small layout)
  qed (rule that)
  have "unat (10 :: u32) \<le> 2 ^ 32 - BLOCKSIZE" by (simp add: layout)
  from Falloc_keeps_disk_consistent[OF demo_facts(2,3) this f] f show ?thesis by blast
qed

text \<open>
  With enough free blocks \<open>Falloc\<close> grows a file: it takes the missing data blocks and tables from
  the free ones, keeps the old block list as a prefix, and leaves everything but the bitmap and
  the tables untouched.
\<close>

theorem Falloc_grows:
  assumes "std_fs fs" "inode_wf fs ino" "data_bm (dbitmap fs)"
    and "nblocks (unat (isize ino)) < nblocks (unat newSize)" "nblocks (unat newSize) \<le> max_blocks"
    and "needed_blocks (nblocks (unat (isize ino))) (nblocks (unat newSize)) \<le> card (free_bits (dbitmap fs))"
  shows "\<exists>ino' fs' new. Falloc ino newSize fs = (Ok (), (ino', fs')) \<and> inode_wf fs' ino' \<and> isize ino' = newSize \<and>
    take (nblocks (unat (isize ino))) (blk_list fs' ino' (nblocks (unat newSize))) =
      blk_list fs ino (nblocks (unat (isize ino))) \<and>
    mset (owned fs' ino') = mset (owned fs ino) + mset new \<and>
    length new = needed_blocks (nblocks (unat (isize ino))) (nblocks (unat newSize)) \<and>
    unat ` set new \<subseteq> free_bits (dbitmap fs) \<and>
    free_bits (dbitmap fs') = free_bits (dbitmap fs) - unat ` set new \<and>
    blocks_frame (unat ` set (table_list ino' (nblocks (unat newSize)))) fs fs'"
  by (rule Falloc_grow[OF assms(1-3) refl refl assms(4-6)]) blast

theorem Falloc_grows_witness:
  "\<exists>ino' fs' new. Falloc demo_ino 10 demo_fs = (Ok (), (ino', fs')) \<and> inode_wf fs' ino' \<and>
     length new = (1 :: nat) \<and> mset (owned fs' ino') = mset (owned demo_fs demo_ino) + mset new"
proof -
  have "nblocks (unat (isize demo_ino)) < nblocks (unat (10 :: u32))"
    "nblocks (unat (10 :: u32)) \<le> max_blocks"
    "needed_blocks (nblocks (unat (isize demo_ino))) (nblocks (unat (10 :: u32))) \<le> card (free_bits (dbitmap demo_fs))"
    by (simp_all add: demo_facts nblocks_small needed_small layout)
  from Falloc_grows[OF demo_facts(4,5,6) this] show ?thesis
    by (auto simp: demo_facts(7) nblocks_small needed_small)
qed

text \<open>
  Shrinking gives back exactly the data blocks and tables past the new end; the inode keeps its
  pointers, and of the disk only the bitmap changes.
\<close>

theorem Falloc_shrinks:
  assumes "std_fs fs" "inode_wf fs ino" "nblocks (unat newSize) < nblocks (unat (isize ino))"
  shows "\<exists>bm. Falloc ino newSize fs = (Ok (), (ino\<lparr>dirty := True, isize := newSize\<rparr>, set_dbitmap bm fs)) \<and>
    free_bits bm = free_bits (dbitmap fs) \<union>
      unat ` (set (drop (nblocks (unat newSize)) (blk_list fs ino (nblocks (unat (isize ino))))) \<union>
        (\<lambda>p. ind_ptr p ino) ` set (new_places (nblocks (unat newSize)) (nblocks (unat (isize ino))) table_steps))"
  by (rule Falloc_shrink[OF assms(1,2) refl refl assms(3)]) blast

lemma demo_grown:
  obtains ino fs where "std_fs fs" "inode_wf fs ino" "isize ino = 10"
    "Falloc demo_ino 10 demo_fs = (Ok (), (ino, fs))"
proof (rule Falloc_grow[OF demo_facts(4,5,6) refl refl])
  show "nblocks (unat (isize demo_ino)) < nblocks (unat (10 :: u32))"
    "nblocks (unat (10 :: u32)) \<le> max_blocks"
    "needed_blocks (nblocks (unat (isize demo_ino))) (nblocks (unat (10 :: u32))) \<le> card (free_bits (dbitmap demo_fs))"
    by (simp_all add: demo_facts nblocks_small needed_small layout)
qed (rule that)

theorem Falloc_shrinks_witness:
  "\<exists>ino fs bm. Falloc demo_ino 10 demo_fs = (Ok (), (ino, fs)) \<and>
     Falloc ino 0 fs = (Ok (), (ino\<lparr>dirty := True, isize := 0\<rparr>, set_dbitmap bm fs))"
proof -
  obtain ino fs where g: "std_fs fs" "inode_wf fs ino" "isize ino = 10"
    "Falloc demo_ino 10 demo_fs = (Ok (), (ino, fs))"
    by (rule demo_grown)
  have "nblocks (unat (0 :: u32)) < nblocks (unat (isize ino))" by (simp add: g(3) nblocks_small)
  from Falloc_shrinks[OF g(1,2) this] g(4) show ?thesis by blast
qed

text \<open>
  When the free blocks do not suffice for the new data blocks and tables, \<open>Falloc\<close> does not
  return: it panics (the \<open>TODO\<close> of \<open>fs_falloc.go\<close>; no \<open>ENOSPC\<close> is ever produced).
\<close>

theorem Falloc_panics_when_full:
  assumes "std_fs fs" "inode_wf fs ino" "data_bm (dbitmap fs)"
    and "nblocks (unat (isize ino)) < nblocks (unat newSize)" "nblocks (unat newSize) \<le> max_blocks"
    and "card (free_bits (dbitmap fs)) < needed_blocks (nblocks (unat (isize ino))) (nblocks (unat newSize))"
  shows "fst (Falloc ino newSize fs) = Panic"
  by (rule Falloc_disk_full[OF assms(1-3) refl refl assms(4-6)])

lemma full_bitmap: "free_bits (replicate BLOCKSIZE 0xff) = {}"
proof -
  have "bit (0xff :: u8) (x mod 8)" for x by (rule bit_255) simp
  then show ?thesis by (auto simp: free_bits_def bm_bit_def)
qed

theorem Falloc_panics_when_full_witness:
  "fst (Falloc demo_ino 10 (set_dbitmap (replicate BLOCKSIZE 0xff) demo_fs)) = Panic"
proof (rule Falloc_panics_when_full)
  let ?fs = "set_dbitmap (replicate BLOCKSIZE 0xff) demo_fs"
  have v: "dbitmap ?fs = replicate BLOCKSIZE 0xff" using demo_facts(4) by (simp add: view)
  show "std_fs ?fs" using demo_facts(4) by simp
  show "inode_wf ?fs demo_ino"
    using demo_facts(5,7) by (intro inode_wf_empty) (simp_all add: inode_wf_def)
  show "data_bm (dbitmap ?fs)" using full_bitmap by (simp add: v data_bm_def)
  show "nblocks (unat (isize demo_ino)) < nblocks (unat (10 :: u32))"
    "nblocks (unat (10 :: u32)) \<le> max_blocks"
    by (simp_all add: demo_facts nblocks_small layout)
  show "card (free_bits (dbitmap ?fs)) <
      needed_blocks (nblocks (unat (isize demo_ino))) (nblocks (unat (10 :: u32)))"
    using full_bitmap by (simp add: v demo_facts(7) nblocks_small needed_small)
qed

text \<open>
  A request for more than the 3084 blocks an inode can address is refused, and apart from the
  \<open>dirty\<close> flag of the inode nothing changes.
\<close>

theorem Falloc_refuses_too_big:
  assumes "inode_wf fs ino" "max_blocks < nblocks (unat newSize)" "unat newSize \<le> 2 ^ 32 - BLOCKSIZE"
  shows "\<exists>e. Falloc ino newSize fs = (Err e, (ino\<lparr>dirty := True\<rparr>, fs))"
  by (rule Falloc_too_big[OF assms])

theorem Falloc_refuses_too_big_witness:
  "\<exists>e. Falloc demo_ino 20000000 demo_fs = (Err e, (demo_ino\<lparr>dirty := True\<rparr>, demo_fs))"
  by (rule Falloc_refuses_too_big[OF demo_facts(5)]) (simp_all add: nblocks_def layout)

text \<open>The size only counts through the number of blocks, and is stored.\<close>

lemma Falloc_blocks_only:
  assumes "num_blocks sz = num_blocks sz'" "Falloc ino sz' fs = (Ok (), (ino', fs'))"
  shows "Falloc ino sz fs = (Ok (), (ino'\<lparr>isize := sz\<rparr>, fs'))"
proof -
  have fin: "Falloc_finish cur need sz' st = (Ok (), (ino', fs')) \<Longrightarrow> Falloc_finish cur need sz st = (Ok (), (ino'\<lparr>isize := sz\<rparr>, fs'))"
    for cur need st by (auto simp: Falloc_finish_def Let_def)
  have run: "falloc_run r (Falloc_finish cur need sz') = (Ok (), (ino', fs')) \<Longrightarrow>
      falloc_run r (Falloc_finish cur need sz) = (Ok (), (ino'\<lparr>isize := sz\<rparr>, fs'))" for r cur need
    by (auto simp: falloc_run_def intro: fin split: prod.splits outcome.splits)
  have "(Ok (), (ino\<lparr>dirty := True, isize := sz'\<rparr>, fs)) = (Ok (), (ino', fs')) \<Longrightarrow>
      (Ok (), (ino\<lparr>dirty := True, isize := sz\<rparr>, fs)) = (Ok (), (ino'\<lparr>isize := sz\<rparr>, fs'))" by auto
  then show ?thesis using assms(2) run unfolding Falloc_def Let_def assms(1) by (simp split: if_splits) 
qed

lemma num_blocks_wraps: "2 ^ 32 - BLOCKSIZE < unat sz \<Longrightarrow> num_blocks sz = num_blocks 0"
proof -
  assume a: "2 ^ 32 - BLOCKSIZE < unat sz"
  have u: "unat sz < 2 ^ 32" using unsigned_less[of sz, where 'a = nat] by simp
  have "unat (4095 + sz) = (4095 + unat sz) mod 2 ^ 32" using unat_word_ariths(1)[of "4095 :: u32" sz] by simp
  also have "\<dots> = 4095 + unat sz - 2 ^ 32" using a u mod_if[of "4095 + unat sz" "2 ^ 32"] by (simp add: layout)
  finally have "unat (4095 + sz) < 4096" using u by simp
  then have "unat ((4095 + sz) div 4096) = 0" by (simp add: unat_div)
  then have "(4095 + sz) div 4096 = 0" by (simp only: unat_eq_0)
  moreover have "num_blocks 0 = 0" by code_simp
  ultimately show ?thesis by (simp add: num_blocks_def layout)
qed

text \<open>
  C24. The rounding \<open>(newSize + BLOCKSIZE - 1) / BLOCKSIZE\<close> is done in 32 bits: for every size within
  \<open>BLOCKSIZE - 1\<close> of \<open>2 ^ 32\<close> it wraps to no blocks at all. Whatever file is resized to it, there is no error: the
  file is given the size, of almost four gigabytes, and all the blocks it had are marked free, while it keeps its pointers to
  them. Nothing else on the disk changes. The file is then not well-formed.
\<close>

theorem Falloc_size_wraps:
  assumes "std_fs fs" "inode_wf fs ino" "2 ^ 32 - BLOCKSIZE < unat newSize"
  shows "\<exists>bm. Falloc ino newSize fs = (Ok (), (ino\<lparr>dirty := True, isize := newSize\<rparr>, set_dbitmap bm fs)) \<and>
    length bm = BLOCKSIZE \<and> free_bits bm = free_bits (dbitmap fs) \<union> unat ` set (owned fs ino) \<and>
    \<not> inode_wf (set_dbitmap bm fs) (ino\<lparr>dirty := True, isize := newSize\<rparr>)"
proof -
  let ?cur = "nblocks (unat (isize ino))"
  have z: "nblocks (unat (0 :: u32)) = 0" by (simp add: nblocks_def layout)
  have set_self: "set_dbitmap (dbitmap fs) fs = fs"
    unfolding set_dbitmap_def dbitmap_def by (rule put_disk_region[OF assms(1)]) (simp add: layout)
  have "\<not> nblocks (unat newSize) \<le> max_blocks"
    using assms(3) unfolding nblocks_def layout max_blocks_def by simp
  then have bad: "\<not> inode_wf f (ino\<lparr>dirty := True, isize := newSize\<rparr>)" for f by (simp add: inode_wf_def)
  have "\<exists>bm. Falloc ino 0 fs = (Ok (), (ino\<lparr>dirty := True, isize := 0\<rparr>, set_dbitmap bm fs)) \<and>
      length bm = BLOCKSIZE \<and> free_bits bm = free_bits (dbitmap fs) \<union> unat ` set (owned fs ino)"
  proof (cases "?cur = 0")
    case True
    then have "owned fs ino = []" by (simp add: owned_def table_list_def blk_list_def places_used_def table_steps_def)
    then show ?thesis
      using Falloc_same[OF assms(2), of 0] True z set_self assms(1) by (auto intro!: exI[of _ "dbitmap fs"])
  next
    case False
    then obtain bm where bm: "Falloc ino 0 fs = (Ok (), (ino\<lparr>dirty := True, isize := 0\<rparr>, set_dbitmap bm fs))"
      "length bm = BLOCKSIZE" "free_bits bm = free_bits (dbitmap fs) \<union>
       unat ` (set (drop 0 (blk_list fs ino ?cur)) \<union> (\<lambda>p. ind_ptr p ino) ` set (new_places 0 ?cur table_steps))"
      using Falloc_shrink[OF assms(1,2) refl z[symmetric]] by blast
    then show ?thesis using owned_shrink(1)[of 0 ?cur ino fs] False by (auto simp: owned_def table_list_def blk_list_def places_used_def table_steps_def)
  qed
  then show ?thesis using Falloc_blocks_only[OF num_blocks_wraps[OF assms(3)]] bad by fastforce
qed

theorem Falloc_size_wraps_witness:
  "\<exists>ino fs bm. Falloc demo_ino 10 demo_fs = (Ok (), (ino, fs)) \<and>
     Falloc ino 0xfffff100 fs = (Ok (), (ino\<lparr>dirty := True, isize := 0xfffff100\<rparr>, set_dbitmap bm fs)) \<and>
     free_bits bm = free_bits (dbitmap fs) \<union> unat ` set (owned fs ino)"
proof -
  obtain ino fs where g: "std_fs fs" "inode_wf fs ino" "isize ino = 10"
    "Falloc demo_ino 10 demo_fs = (Ok (), (ino, fs))"
    by (rule demo_grown)
  have "2 ^ 32 - BLOCKSIZE < unat (0xfffff100 :: u32)" by (simp add: layout)
  from Falloc_size_wraps[OF g(1,2) this] g(4) show ?thesis by blast
qed

section \<open>Open files\<close>

text \<open>
  C20. Writing through an open file splices the data into the content at the offset, growing the file
  when they pass its end, returns their length and moves the offset past them; size and block
  pointers reach the disk, the disk stays consistent, the cached inode agrees with it, and the
  contents, inodes and cache entries of all other files stay the same.
\<close>

theorem FileFD_Write_splices:
  assumes "usable k (inodeNum f)"
    and "unat (offset f) \<le> length (content (kfs k) (inodeNum f))"
    and "unat (offset f) + length dat \<le> max_blocks * BLOCKSIZE"
    and "needed_blocks (nblocks (length (content (kfs k) (inodeNum f))))
        (nblocks (max (length (content (kfs k) (inodeNum f))) (unat (offset f) + length dat))) \<le>
      card (free_bits (dbitmap (kfs k)))"
  shows "\<exists>k'. FileFD_Write f dat k =
      (Ok (length dat, None), (f\<lparr>offset := offset f + of_nat (length dat)\<rparr>, k')) \<and>
    usable k' (inodeNum f) \<and>
    content (kfs k') (inodeNum f) = splice (unat (offset f)) dat (content (kfs k) (inodeNum f)) \<and>
    same_meta (disk_inode (kfs k') (unat (inodeNum f))) (disk_inode (kfs k) (unat (inodeNum f))) \<and>
    others_kept (inodeNum f) k k'"
  by (rule FileFD_Write_content[OF assms]) blast

theorem FileFD_Write_splices_witness:
  "\<exists>k'. FileFD_Write (RegularFileOps_CreateFD 2 0) [1, 2, 3] demo_kernel =
      (Ok (3, None), (\<lparr>inodeNum = 2, offset = 3, flags = 0\<rparr>, k')) \<and> content (kfs k') 2 = [1, 2, 3]"
proof -
  let ?f = "RegularFileOps_CreateFD 2 0"
  have f: "inodeNum ?f = 2" "offset ?f = 0" "?f\<lparr>offset := 3\<rparr> = \<lparr>inodeNum = 2, offset = 3, flags = 0\<rparr>"
    by (simp_all add: RegularFileOps_CreateFD_def)
  have u: "usable demo_kernel (inodeNum ?f)" using demo_usable by (simp add: f)
  have k: "content (kfs demo_kernel) 2 = []" "card (free_bits (dbitmap (kfs demo_kernel))) = 16128"
    using demo_facts by (simp_all add: f demo_kernel_def new_kernel_def)
  define dat :: "u8 list" where "dat = [1, 2, 3]"
  have l: "length dat = 3" by (simp add: dat_def)
  have "\<exists>k'. FileFD_Write ?f dat demo_kernel =
      (Ok (length dat, None), (?f\<lparr>offset := offset ?f + of_nat (length dat)\<rparr>, k')) \<and>
    usable k' (inodeNum ?f) \<and>
    content (kfs k') (inodeNum ?f) = splice (unat (offset ?f)) dat (content (kfs demo_kernel) (inodeNum ?f)) \<and>
    same_meta (disk_inode (kfs k') (unat (inodeNum ?f))) (disk_inode (kfs demo_kernel) (unat (inodeNum ?f))) \<and>
    others_kept (inodeNum ?f) demo_kernel k'"
    by (rule FileFD_Write_splices[OF u]) (simp_all add: k l f(1,2) nblocks_small needed_small layout)
  then show ?thesis by (auto simp: f k l splice_def dat_def)
qed

text \<open>
  Reading through an open file fills the buffer with the content from the offset on, as far as
  the buffer or the file goes, and moves the offset by as much; the disk is not changed.
\<close>

theorem FileFD_Read_slices:
  assumes "usable k (inodeNum f)" "unat (offset f) < length (content (kfs k) (inodeNum f))"
    and "length b < 2 ^ 63"
    and "n = min (length b) (length (content (kfs k) (inodeNum f)) - unat (offset f))"
  shows "\<exists>ino. FileFD_Read f b k =
    (Ok (of_nat n, None), (f\<lparr>offset := offset f + of_nat n\<rparr>,
      put_at 0 (slice (unat (offset f)) (unat (offset f) + n) (content (kfs k) (inodeNum f))) b,
      k\<lparr>inodeCache := (inodeCache k)(inodeNum f \<mapsto> ino)\<rparr>))"
  by (rule FileFD_Read_content[OF assms])

lemma demo_written:
  obtains k' where "usable k' 2" "content (kfs k') 2 = [1, 2, 3]"
proof -
  let ?f = "RegularFileOps_CreateFD 2 0"
  have f: "inodeNum ?f = 2" "offset ?f = 0" by (simp_all add: RegularFileOps_CreateFD_def)
  have u: "usable demo_kernel (inodeNum ?f)" using demo_usable by (simp add: f)
  have k: "content (kfs demo_kernel) 2 = []" "card (free_bits (dbitmap (kfs demo_kernel))) = 16128"
    using demo_facts by (simp_all add: f demo_kernel_def new_kernel_def)
  define dat :: "u8 list" where "dat = [1, 2, 3]"
  have l: "length dat = 3" by (simp add: dat_def)
  show ?thesis
  proof (rule FileFD_Write_content[OF u, of dat])
    fix k' assume "usable k' (inodeNum ?f)"
      "content (kfs k') (inodeNum ?f) = splice (unat (offset ?f)) dat (content (kfs demo_kernel) (inodeNum ?f))"
    then show thesis by (intro that) (simp_all add: f k splice_def dat_def)
  qed (simp_all add: k l f nblocks_small needed_small layout)
qed

theorem FileFD_Read_slices_witness:
  "\<exists>k ino. content (kfs k) 2 = [1, 2, 3] \<and>
     FileFD_Read \<lparr>inodeNum = 2, offset = 1, flags = 0\<rparr> [0, 0, 0, 0] k =
       (Ok (2, None), (\<lparr>inodeNum = 2, offset = 3, flags = 0\<rparr>, [2, 3, 0, 0],
         k\<lparr>inodeCache := (inodeCache k)(2 \<mapsto> ino)\<rparr>))"
proof -
  obtain k where k: "usable k 2" "content (kfs k) 2 = [1, 2, 3]" by (rule demo_written)
  let ?f = "\<lparr>inodeNum = 2, offset = 1, flags = 0\<rparr>"
  have "\<exists>ino. FileFD_Read ?f [0, 0, 0, 0] k =
    (Ok (of_nat 2, None), (?f\<lparr>offset := offset ?f + of_nat 2\<rparr>,
      put_at 0 (slice (unat (offset ?f)) (unat (offset ?f) + 2) (content (kfs k) (inodeNum ?f))) [0, 0, 0, 0],
      k\<lparr>inodeCache := (inodeCache k)(inodeNum ?f \<mapsto> ino)\<rparr>))"
    by (rule FileFD_Read_slices) (use k in simp_all)
  then show ?thesis using k by (auto simp: slice_def put_at_def)
qed

text \<open>
  Inside a file, the write loop followed by the read loop at the same place returns what was
  written, whatever the alignment to the blocks, and a read of any other place sees no difference.
\<close>

theorem file_loops_read_after_write:
  assumes "std_fs fs" "inode_wf fs ino" "off + length dat \<le> unat (isize ino)"
  shows "loop_rd (loop_wr (fs, ino) off dat) off (length dat) = dat \<and>
    (\<forall>off' n. off' + n \<le> off \<or> off + length dat \<le> off' \<and> off' + n \<le> unat (isize ino) \<longrightarrow>
       loop_rd (loop_wr (fs, ino) off dat) off' n = loop_rd (fs, ino) off' n)"
  using assms length_file_bytes[OF assms(1,2)]
    file_loops.rd_after_wr[of "(fs, ino)" off dat] file_loops.rd_elsewhere[of "(fs, ino)" off dat]
  by auto

theorem file_loops_read_after_write_witness:
  "\<exists>fs ino. Falloc demo_ino 10 demo_fs = (Ok (), (ino, fs)) \<and>
     loop_rd (loop_wr (fs, ino) 4 [7, 8]) 4 2 = [7, 8]"
proof -
  obtain ino fs where g: "std_fs fs" "inode_wf fs ino" "isize ino = 10"
    "Falloc demo_ino 10 demo_fs = (Ok (), (ino, fs))"
    by (rule demo_grown)
  have le: "4 + length [7, 8 :: u8] \<le> unat (isize ino)" by (simp add: g(3))
  have two: "length [7, 8 :: u8] = 2" by simp
  from conjunct1[OF file_loops_read_after_write[OF g(1,2) le], unfolded two] g(4) show ?thesis by blast
qed

section \<open>Formatting and mounting\<close>

text \<open>
  A disk image that is missing is formatted, whatever the time: the inodes 0, 1 and 2 are taken
  and empty, 2 being a directory of root's with modes 7 and 5; all 16128 data blocks are
  free and zero, no bit past them is free, and the file system is consistent.
\<close>

theorem NewFileSystem_formats:
  "fs_inv (NewFileSystem None c m) \<and>
   free_bits (ibitmap (NewFileSystem None c m)) = {3..<INODES} \<and>
   free_bits (dbitmap (NewFileSystem None c m)) = {..<BLOCKS} \<and>
   disk_inode (NewFileSystem None c m) 2 = disk_part (root_inode c m) \<and>
   (\<forall>b. b < BLOCKS \<longrightarrow> dblk (NewFileSystem None c m) b = zero_block) \<and>
   freshFormat (NewFileSystem None c m)"
proof -
  have two: "(2 :: nat) < INODES" by (simp add: layout)
  have n: "NewFileSystem None c m = fresh_fs c m"
    by (simp add: NewFileSystem_fresh fresh_fs_def)
  have "freshFormat (fresh_fs c m)" by (simp add: fresh_fs_def formatted_def)
  then show ?thesis
    unfolding n using fresh_fs_inv[of c m] fresh_fs_views[where c = c and m = m] two
    by (simp add: fresh_ibitmap_free fresh_dbitmap_free)
qed

theorem NewFileSystem_formats_witness:
  "card (free_bits (dbitmap (NewFileSystem None 5 6))) = 16128 \<and>
   dblk (NewFileSystem None 5 6) 7 = zero_block"
  using NewFileSystem_formats[of 5 6] by (simp add: layout)

text \<open>
  Mounting a disk of this version again gives back the file system that was on it, byte for
  byte and with the same superblock, and does not ask for a new first-boot tree.
\<close>

theorem NewFileSystem_remounts:
  assumes "std_fs fs" "superblock_bytes fs = superblock_bytes (NewFileSystem None c m)"
  shows "NewFileSystem (Some (buf (disk fs))) c' m' = fs\<lparr>freshFormat := False\<rparr>"
proof -
  have "superblock_bytes (NewFileSystem None c m) = writeSuprBlktoSuprBuf zero_block fresh_superblock"
    by (simp add: NewFileSystem_fresh fresh_fs_views flip: fresh_fs_def)
  then show ?thesis by (intro NewFileSystem_remount assms(1)) (simp add: assms(2))
qed

theorem NewFileSystem_remounts_witness:
  "NewFileSystem (Some (buf (disk (NewFileSystem None 0 0)))) 1 1 = (NewFileSystem None 0 0)\<lparr>freshFormat := False\<rparr>"
  by (rule NewFileSystem_remounts) (simp_all add: NewFileSystem_fresh fresh_fs_views flip: fresh_fs_def)

section \<open>Codecs\<close>

text \<open>
  An inode written to the disk is read back: the 128 bytes of \<open>writeInode\<close> decode to every field
  the disk keeps, and the inodes of other numbers are not touched.
\<close>

theorem inode_roundtrip:
  assumes "std_fs fs" "unat i < INODES" "inode_shape ino"
  shows "snd (writeInode fs ino i) = None \<and>
    readInode (fst (writeInode fs ino i)) i = Ok (ino\<lparr>dirty := False, num := i, ops := None\<rparr>) \<and>
    (\<forall>j. j \<noteq> i \<longrightarrow> unat j < INODES \<longrightarrow> readInode (fst (writeInode fs ino i)) j = readInode fs j)"
proof -
  have s: "std_fs (set_inode_bytes (unat i) (encode_inode ino) fs)" using assms by simp
  show ?thesis
    using assms s readInode_std[OF s] readInode_std[OF assms(1)]
    by (simp add: writeInode_std view decode_encode_inode disk_part_def word_unat_eq_iff)
qed

theorem inode_roundtrip_witness:
  "readInode (fst (writeInode demo_fs (zero_inode\<lparr>isize := 77\<rparr>) 5)) 5 = Ok (zero_inode\<lparr>isize := 77, num := 5\<rparr>)"
proof -
  have "unat (5 :: u32) < INODES" "inode_shape (zero_inode\<lparr>isize := 77\<rparr>)"
    by (simp_all add: layout inode_shape_def zero_inode_def)
  from inode_roundtrip[OF demo_facts(4) this] show ?thesis by (simp add: zero_inode_def)
qed

text \<open>
  The superblock survives its encoding: \<open>writeSuprBlktoSuprBuf\<close> into a block and the decoding of
  \<open>NewFileSystem\<close> are inverse, though two fields are stored in the opposite order.
\<close>

theorem superblock_roundtrip:
  assumes "length (magic sb) = MAGICLEN"
  shows "readSuperBlock (writeSuprBlktoSuprBuf (replicate BLOCKSIZE 0) sb) = sb"
  using assms by (intro superblock_codec.decode_encode) (simp add: superblock_valid_def)

theorem superblock_roundtrip_witness:
  "readSuperBlock (writeSuprBlktoSuprBuf (replicate BLOCKSIZE 0) fresh_superblock) = fresh_superblock"
  by (rule superblock_roundtrip) (simp add: fresh_superblock_def layout)

section \<open>Bitmaps and inodes\<close>

text \<open>
  \<open>findFreeBit\<close>, which skips full 64-bit words, finds the lowest free bit, and finds one
  exactly when there is one.
\<close>

theorem findFreeBit_least:
  assumes "8 * length bm < 2 ^ 32"
  shows "case findFreeBit bm of
      None \<Rightarrow> free_bits bm = {}
    | Some idx \<Rightarrow> unat idx \<in> free_bits bm \<and> (\<forall>j \<in> free_bits bm. unat idx \<le> j)"
  using findFreeBit_first_free[OF assms]
  by (auto simp: first_free_def free_bits_def not_less[symmetric] split: option.splits)

theorem findFreeBit_least_witness:
  "\<exists>idx. findFreeBit (replicate 9 0xff @ [0x0b]) = Some idx \<and> unat idx = 74"
proof -
  let ?bm = "replicate 9 0xff @ [0x0b] :: u8 list"
  have bits: "bm_bit ?bm j" if "j < 74" for j
  proof (cases "j < 72")
    case True
    then have "j div 8 < 9" by simp
    moreover have "bit (0xff :: u8) (j mod 8)" by (rule bit_255) simp
    ultimately show ?thesis by (simp add: bm_bit_def nth_append)
  next
    case False
    with that have "j = 72 \<or> j = 73" by linarith
    moreover have "bit (0x0b :: u8) 0" "bit (0x0b :: u8) 1" by code_simp+
    ultimately show ?thesis by (auto simp: bm_bit_def nth_append)
  qed
  have "\<not> bit (0x0b :: u8) 2" by code_simp
  then have f: "74 \<in> free_bits ?bm" by (simp add: free_bits_def bm_bit_def nth_append)
  have "8 * length ?bm < 2 ^ 32" by simp
  note least = findFreeBit_least[OF this]
  show ?thesis
  proof (cases "findFreeBit ?bm")
    case None
    with least f show ?thesis by simp
  next
    case (Some idx)
    with least f have "unat idx \<le> 74" "\<not> bm_bit ?bm (unat idx)" by (auto simp: free_bits_def)
    with bits have "unat idx = 74" by (metis le_neq_implies_less)
    with Some show ?thesis by simp
  qed
qed

text \<open>
  \<open>AllocInode\<close> hands out the lowest free inode number and marks it used on the disk, and
  \<open>FreeInodeFromBitmap\<close> of that number brings the set of free numbers back; with no free
  number it returns an error and changes nothing.
\<close>

theorem AllocInode_FreeInode:
  assumes "std_fs fs"
  shows "if free_bits (ibitmap fs) = {} then AllocInode fs = (Err (ErrorText ''no space left bro''), fs)
    else \<exists>idx fs' fs''. AllocInode fs = (Ok idx, fs') \<and> unat idx = Min (free_bits (ibitmap fs)) \<and>
      free_bits (ibitmap fs') = free_bits (ibitmap fs) - {unat idx} \<and>
      FreeInodeFromBitmap fs' idx = (Ok (), fs'') \<and> free_bits (ibitmap fs'') = free_bits (ibitmap fs)"
proof (cases "free_bits (ibitmap fs) = {}")
  case False
  obtain idx bm where a: "AllocInode fs = (Ok idx, set_ibitmap bm fs)" "length bm = INODES div 8"
    "unat idx = Min (free_bits (ibitmap fs))" "unat idx < INODES" "free_bits bm = free_bits (ibitmap fs) - {unat idx}"
    using AllocInode_Ok[OF assms False] by blast
  have s: "std_fs (set_ibitmap bm fs)" and v: "ibitmap (set_ibitmap bm fs) = bm"
    using assms a(2) by (simp_all add: view)
  obtain bm' where f: "FreeInodeFromBitmap (set_ibitmap bm fs) idx = (Ok (), set_ibitmap bm' (set_ibitmap bm fs))"
    "length bm' = INODES div 8" "free_bits bm' = insert (unat idx) (free_bits bm)"
    using FreeInode_Ok[OF s a(4)] a(5) v by auto
  have "unat idx \<in> free_bits (ibitmap fs)" using a(3) False by simp
  then show ?thesis using False a f s v by (auto simp: view insert_absorb)
qed (use AllocInode_full assms in simp)

theorem AllocInode_FreeInode_witness:
  "\<exists>idx fs'. AllocInode demo_fs = (Ok idx, fs') \<and> unat idx = 3"
proof -
  have "Min {3..<INODES} = 3" by (rule Min_eqI) (simp_all add: layout)
  moreover have "{3..<INODES} \<noteq> {}" by (simp add: layout)
  ultimately show ?thesis
    using AllocInode_FreeInode[OF demo_facts(4)] by (auto simp: demo_facts(9))
qed

text \<open>
  On a consistent inode the iterator \<open>iterBlocks\<close>, which resolves direct and indirect pointers and
  keeps the tables it has read, calls the function on the blocks of the file in their order, until
  it stops or fails.
\<close>

theorem iterBlocks_in_order:
  assumes "std_fs fs" "inode_wf fs ino" "reads_only fn fs"
  shows "iterBlocks ino fn (a, fs) = scan fn (blk_list fs ino (nblocks (unat (isize ino)))) (a, fs)"
  by (rule iterBlocks_scan[OF assms])

theorem iterBlocks_in_order_witness:
  "\<exists>ino fs. Falloc demo_ino 10 demo_fs = (Ok (), (ino, fs)) \<and>
     iterBlocks ino (\<lambda>b d (n, fs). (Ok False, (n + 1, fs))) (0 :: nat, fs) = (Ok (), (1, fs))"
proof -
  obtain ino fs where g: "std_fs fs" "inode_wf fs ino" "isize ino = 10"
    "Falloc demo_ino 10 demo_fs = (Ok (), (ino, fs))"
    by (rule demo_grown)
  have r: "reads_only (\<lambda>b d (n :: nat, fs). (Ok False, (n + 1, fs))) fs" by (simp add: reads_only_def)
  have "blk_list fs ino (nblocks (unat (isize ino))) = [blk_at fs ino 0]"
    by (simp add: g(3) nblocks_small blk_list_def)
  with iterBlocks_in_order[OF g(1,2) r, of 0] g(4) show ?thesis by auto
qed

end
