(* ===== verification/KernelProps.thy ===== *)
theory KernelProps
  imports RemoveSpec ReadSpec StorageProps
begin

text \<open>
  The properties of the system calls on files. Each is applied to a computer whose disk was just
  formatted, or to the one after root made the file \<open>/a\<close> on it and wrote to it.
\<close>

section \<open>A concrete computer\<close>

lemma demo_tree: "kernel_inv demo_kernel" "tree demo_fs 2 = Some (Dir_node (meta_of demo_ino) [])"
  "can_grow n demo_fs 2 \<longleftrightarrow> n \<le> 16127" "live demo_fs 3 = None" "Min (free_bits (ibitmap demo_fs)) = 3"
  "content demo_fs 0 = []" "\<not> is_dir demo_fs 0" "live demo_fs i \<noteq> None \<longleftrightarrow> unat i < 3"
  "free_zero demo_fs"
proof -
  note v = fresh_fs_views[where c = 0 and m = 0, folded demo_fs_def]
  have lt: "unat i < INODES" if "unat i < 3" for i :: u32 using that by (simp add: layout)
  show l: "live demo_fs i \<noteq> None \<longleftrightarrow> unat i < 3" for i
    using lt[of i] by (auto simp: live_def demo_facts(9))
  have "\<not> unat (3 :: u32) < 3" by simp
  then show "live demo_fs 3 = None" using l[of 3] by blast
  have d: "disk_inode demo_fs (unat i) = (if unat i = 2 then demo_ino else zero_inode)" if "unat i < 3" for i :: u32
    using v(5)[OF lt[OF that]] by (simp add: demo_ino_def)
  have dd: "is_dir demo_fs i \<longleftrightarrow> unat i = 2" if "unat i < 3" for i
    using d[OF that] by (simp add: is_dir_def demo_ino_def root_inode_def zero_inode_def S_IFDIR_def)
  then show "\<not> is_dir demo_fs 0" by simp
  show "content demo_fs 0 = []" using d[of 0] by (simp add: content_def file_bytes_def zero_inode_def)
  have sl: "dir_slots demo_fs 2 = []" by (simp add: dir_slots_def demo_facts(10) slots_of_def)
  have l2: "live demo_fs 2 \<noteq> None" using l[of 2] by simp
  have nok: "node_ok demo_fs i" if "unat i < 3" for i
  proof (cases "unat i = 2")
    case True
    then have "i = 2" by (simp add: word_unat_eq_iff)
    then show ?thesis using l2 sl dd[of 2] by (simp add: node_ok_def dir_ok_def demo_facts(10) slots_ok_def)
  next
    case False
    then show ?thesis using d[OF that] dd[OF that] by (simp add: node_ok_def zero_inode_def S_IFREG_def)
  qed
  have "tree_ok demo_fs"
    using demo_facts(1) l[of 0] l2 dd[of 2] nok l by (simp add: tree_ok_nodes)
  then show "kernel_inv demo_kernel" by (simp add: kernel_inv_def demo_kernel_def new_kernel_def cache_ok_def)
  show t: "tree demo_fs 2 = Some (Dir_node (meta_of demo_ino) [])"
    using l2 dd[of 2] d[of 2] sl by (simp add: tree_dir)
  show z: "free_zero demo_fs"
    using v(6) demo_facts(6) by (auto simp: free_zero_def data_bm_def)
  have ib: "free_bits (ibitmap demo_fs) \<noteq> {}" by (simp add: demo_facts(9) layout)
  have "slot_cost [] = 1"
    by (simp add: slot_cost_def full_dir_def nblocks_def layout needed_blocks_def new_places_def table_steps_def)
  then show "can_grow n demo_fs 2 \<longleftrightarrow> n \<le> 16127"
    using z ib t demo_facts(8) by (auto simp: can_grow_def slot_room_def free_blocks_def full_dir_def layout)
  show "Min (free_bits (ibitmap demo_fs)) = 3"
    unfolding demo_facts(9) by (rule Min_eqI) (auto simp: layout)
qed

definition path_a :: string where
  "path_a = ''/a''"

lemma path_a: "path_of proc path_a = [] @ [''a'']" "path_of proc path_a = [''a'']"
proof -
  have "path_a = abs_path [''a'']" by (simp add: path_a_def abs_path_def)
  then show "path_of proc path_a = [''a'']" using path_of_abs_path[of "[''a'']"] by (simp add: comp_ok_def)
  then show "path_of proc path_a = [] @ [''a'']" by simp
qed

lemma demo_missing: "tree_lookup (tree demo_fs) u ([] @ [''a'']) 2 = Err (if may 1 u (meta_of demo_ino) then ENOENT else EACCES)"
  "parent_check (tree demo_fs) ''root'' [] = Ok 2"
  by (simp_all add: demo_tree(2) slot_names_def lookup_def parent_check_def may_def)

text \<open>The kernel after root wrote three bytes to the new file \<open>/a\<close>.\<close>

lemma demo_file:
  obtains k where "writeFile (0, 0) root_proc path_a [1, 2, 3] demo_kernel = (Ok (), k)" "kernel_inv k"
    "tree (kfs k) = tree_add (tree demo_fs) 2 ''a'' 3 (File_node (user_meta ''root'') [1, 2, 3])"
proof -
  have e: "kfs demo_kernel = demo_fs" "EUID root_proc = ''root''" by (simp_all add: demo_kernel_def new_kernel_def root_proc_def)
  have m: "may b ''root'' m" for b m by (simp add: may_def)
  have s: "needed_blocks 0 (nblocks (length [1 :: u8, 2, 3])) \<le> 16127" "length [1 :: u8, 2, 3] \<le> max_blocks * BLOCKSIZE"
    using nblocks_small(2) by (simp_all add: needed_small layout flip: numeral_3_eq_3)
  have h: "tree_lookup (tree (kfs demo_kernel)) (EUID root_proc) ([] @ [''a'']) 2 = Err ENOENT"
    "parent_check (tree (kfs demo_kernel)) (EUID root_proc) [] = Ok 2" "length ''a'' \<le> 55"
    "can_grow (needed_blocks 0 (nblocks (length [1 :: u8, 2, 3]))) (kfs demo_kernel) 2"
    "may 2 (EUID root_proc) (user_meta (EUID root_proc))"
    unfolding e demo_missing demo_tree(3) using s(1) m by simp_all
  obtain i k where k: "writeFile (0, 0) root_proc path_a [1, 2, 3] demo_kernel = (Ok (), k)" "kernel_inv k" "fs_only demo_kernel k"
    "tree (kfs demo_kernel) i = None" "unat i = Min (free_bits (ibitmap (kfs demo_kernel)))"
    "tree (kfs k) = tree_add (tree (kfs demo_kernel)) 2 ''a'' i (File_node (user_meta (EUID root_proc)) [1, 2, 3])"
    by (rule writeFile_missing[OF demo_tree(1) path_a(1) h(1,3,2,4) s(2) h(5), where now = "(0, 0)"])
  have "i = 3" using k(5) by (simp add: e demo_tree(5) word_unat_eq_iff)
  then show ?thesis using that k by (simp add: e)
qed

lemma demo_file_facts:
  assumes "tree t = tree_add (tree demo_fs) 2 ''a'' 3 (File_node (user_meta ''root'') [1, 2, 3])"
  shows "tree t 3 = Some (File_node (user_meta ''root'') [1, 2, 3])"
    "tree t 2 = Some (Dir_node (meta_of demo_ino) (Some \<lparr>Inum = 3, Name = ''a''\<rparr> # replicate 63 None))"
    "tree_lookup (tree t) ''root'' (path_of proc path_a) 2 = Ok 3"
    "tree t i = (if i = 3 then Some (File_node (user_meta ''root'') [1, 2, 3])
       else if i = 2 then Some (Dir_node (meta_of demo_ino) (Some \<lparr>Inum = 3, Name = ''a''\<rparr> # replicate 63 None)) else tree demo_fs i)"
proof -
  have t: "tree t = (tree demo_fs)(3 \<mapsto> File_node (user_meta ''root'') [1, 2, 3],
      2 \<mapsto> Dir_node (meta_of demo_ino) (Some \<lparr>Inum = 3, Name = ''a''\<rparr> # replicate 63 None))"
    by (simp add: assms tree_add_def demo_tree(2) add_dots(1))
  then show "tree t 3 = Some (File_node (user_meta ''root'') [1, 2, 3])"
    and t2: "tree t 2 = Some (Dir_node (meta_of demo_ino) (Some \<lparr>Inum = 3, Name = ''a''\<rparr> # replicate 63 None))"
    by simp_all
  show "tree_lookup (tree t) ''root'' (path_of proc path_a) 2 = Ok 3"
    by (simp add: path_a(2) t2 slot_names_def lookup_def may_def)
  show "tree t i = (if i = 3 then Some (File_node (user_meta ''root'') [1, 2, 3])
       else if i = 2 then Some (Dir_node (meta_of demo_ino) (Some \<lparr>Inum = 3, Name = ''a''\<rparr> # replicate 63 None)) else tree demo_fs i)"
    by (simp add: t)
qed

lemma root_may [simp]: "may b ''root'' m"
  by (simp add: may_def)

lemma root_proc_root [simp]: "EUID root_proc = ''root''"
  by (simp add: root_proc_def)

section \<open>Paths\<close>

text \<open>
  C4. \<open>ResolvePath\<close> is a walk over the tree: on a path it returns the number of the node the walk from the
  root arrives at, or the error of its first bad step: \<open>ENOTDIR\<close> where a file is followed, \<open>EACCES\<close> where a
  directory lacks the execute bit for the effective user, \<open>ENOENT\<close> where a name is missing. Relative
  paths start at the working directory, and \<open>.\<close>, \<open>..\<close> and double slashes are gone before
  (\<open>path_of\<close>). It never panics and changes nothing but the cache.
\<close>

theorem ResolvePath_walks_the_tree:
  assumes "kernel_inv k"
  shows "\<exists>k'. ResolvePath proc target k = (tree_lookup (tree (kfs k)) (EUID proc) (path_of proc target) 2, k') \<and>
    kernel_inv k' \<and> cache_only k k'"
  using ResolvePath_lookup[OF assms, of proc target] lookup_root_tree[OF assms] by metis

theorem ResolvePath_walks_the_tree_witness:
  "\<exists>k k'. kernel_inv k \<and> ResolvePath root_proc path_a k = (Ok 3, k')"
proof -
  obtain k where k: "kernel_inv k" "tree (kfs k) = tree_add (tree demo_fs) 2 ''a'' 3 (File_node (user_meta ''root'') [1, 2, 3])"
    by (rule demo_file)
  show ?thesis
    using ResolvePath_walks_the_tree[OF k(1), of root_proc path_a] demo_file_facts(3)[OF k(2)] k(1) by auto
qed

section \<open>Reading\<close>

text \<open>
  \<open>readFile\<close> returns exactly the bytes of the file a path names. The errors are those of the path, then
  \<open>EISDIR\<close>, then \<open>EACCES\<close>; the disk does not change.
\<close>

theorem readFile_returns_content:
  assumes "kernel_inv k"
  shows "\<exists>k'. readFile proc target k = (tree_read (tree (kfs k)) (EUID proc) (path_of proc target), k') \<and>
    kernel_inv k' \<and> cache_only k k'"
  using readFile_spec[OF assms, of proc target] spec_read_tree[OF assms] by metis

theorem readFile_returns_content_witness:
  "\<exists>k k'. kernel_inv k \<and> readFile root_proc path_a k = (Ok [1, 2, 3], k')"
proof -
  obtain k where k: "kernel_inv k" "tree (kfs k) = tree_add (tree demo_fs) 2 ''a'' 3 (File_node (user_meta ''root'') [1, 2, 3])"
    by (rule demo_file)
  have "tree_read (tree (kfs k)) ''root'' (path_of root_proc path_a) = Ok [1, 2, 3]"
    using demo_file_facts(1,3)[OF k(2)] by (simp add: tree_read_def)
  then show ?thesis using readFile_returns_content[OF k(1), of root_proc path_a] k(1) by auto
qed

text \<open>
  \<open>readDir\<close> lists the entries of a directory in the order of their slots, without \<open>.\<close> and \<open>..\<close>, each with its
  number and whether it is a directory, to whoever may read the directory.
\<close>

theorem readDir_lists_entries:
  assumes "kernel_inv k"
  shows "\<exists>k'. readDir proc target k = (tree_list (tree (kfs k)) (EUID proc) (path_of proc target), k') \<and>
    kernel_inv k' \<and> cache_only k k'"
  using readDir_spec[OF assms, of proc target] spec_list_tree[OF assms] by metis

theorem readDir_lists_entries_witness:
  "\<exists>k k'. kernel_inv k \<and> readDir root_proc ''/'' k = (Ok [\<lparr>fi_Name = ''a'', IsDir = False, fi_Inum = 3\<rparr>], k')"
proof -
  obtain k where k: "kernel_inv k" "tree (kfs k) = tree_add (tree demo_fs) 2 ''a'' 3 (File_node (user_meta ''root'') [1, 2, 3])"
    by (rule demo_file)
  have "path_of root_proc ''/'' = []" using path_of_abs_path[of "[]"] by (simp add: abs_path_def)
  then have "tree_list (tree (kfs k)) ''root'' (path_of root_proc ''/'') = Ok [\<lparr>fi_Name = ''a'', IsDir = False, fi_Inum = 3\<rparr>]"
    using demo_file_facts(1,2)[OF k(2)]
    by (simp add: tree_list_def not_dot_def node_is_dir_def entries_def List.map_filter_def)
  then show ?thesis using readDir_lists_entries[OF k(1), of root_proc "''/''"] k(1) by auto
qed

text \<open>
  \<open>stat\<close> gives the clean absolute path and the owner, the setuid bit and the modes of the node; a path that
  does not resolve, whatever the reason, gives \<open>false\<close>.
\<close>

theorem stat_returns_metadata:
  assumes "kernel_inv k"
  shows "\<exists>k'. stat proc target k = (Ok (tree_stat (tree (kfs k)) (EUID proc) (path_of proc target)), k') \<and>
    kernel_inv k' \<and> cache_only k k'"
  using stat_spec[OF assms, of proc target] spec_stat_tree[OF assms] by metis

theorem stat_returns_metadata_witness:
  "\<exists>k k'. kernel_inv k \<and> stat root_proc path_a k =
     (Ok (Some \<lparr>Filepath = ''/a'', Owner = ''root'', Setuid = False, OwnerMode = 7, OtherMode = 5\<rparr>), k')"
proof -
  obtain k where k: "kernel_inv k" "tree (kfs k) = tree_add (tree demo_fs) 2 ''a'' 3 (File_node (user_meta ''root'') [1, 2, 3])"
    by (rule demo_file)
  have "tree_stat (tree (kfs k)) ''root'' (path_of root_proc path_a) =
      Some \<lparr>Filepath = ''/a'', Owner = ''root'', Setuid = False, OwnerMode = 7, OtherMode = 5\<rparr>"
    using demo_file_facts(1,3)[OF k(2)]
    by (simp add: tree_stat_def user_meta_def path_a(2) abs_path_def ownerString_ownerBytes)
  then show ?thesis using stat_returns_metadata[OF k(1), of root_proc path_a] k(1) by auto
qed

text \<open>
  \<open>changeDirectory\<close> makes a directory the process may execute its working directory, under its clean
  absolute path; otherwise it reports the path as missing or denied and the process stays
  where it is.
\<close>

theorem changeDirectory_enters:
  assumes "kernel_inv k"
  shows "\<exists>k'. changeDirectory proc target k =
      (let r = tree_enter (tree (kfs k)) (EUID proc) (path_of proc target)
       in (r, if r = Ok () then proc\<lparr>CWD := abs_path (path_of proc target)\<rparr> else proc, k')) \<and>
    kernel_inv k' \<and> cache_only k k'"
  by (rule changeDirectory_tree[OF assms, of proc target]) blast

theorem changeDirectory_enters_witness:
  "\<exists>k k'. kernel_inv k \<and> changeDirectory root_proc path_a k =
     (Err (ErrorText ''/a: no such file or directory''), root_proc, k')"
proof -
  obtain k where k: "kernel_inv k" "tree (kfs k) = tree_add (tree demo_fs) 2 ''a'' 3 (File_node (user_meta ''root'') [1, 2, 3])"
    by (rule demo_file)
  have "tree_enter (tree (kfs k)) ''root'' (path_of root_proc path_a) = Err (ErrorText ''/a: no such file or directory'')"
    using demo_file_facts(1,3)[OF k(2)] by (simp add: tree_enter_def path_a(2) abs_path_def)
  then show ?thesis using changeDirectory_enters[OF k(1), of root_proc path_a] k(1) by (auto simp: Let_def)
qed

section \<open>Writing\<close>

text \<open>
  C3. \<open>writeFile\<close> on a file that exists, to one who may write it: whatever the old and the new length, the file
  holds the new bytes and the tree is otherwise as it was. The blocks the new length needs beyond
  the old must be free.
\<close>

theorem writeFile_replaces_content:
  assumes "kernel_inv k" "tree_lookup (tree (kfs k)) (EUID proc) (path_of proc target) 2 = Ok i"
    and "tree (kfs k) i = Some (File_node m old)" "may 2 (EUID proc) m"
    and "length dat \<le> max_blocks * BLOCKSIZE"
    and "needed_blocks (nblocks (length old)) (nblocks (length dat)) \<le> free_blocks (kfs k)"
  shows "\<exists>k'. writeFile now proc target dat k = (Ok (), k') \<and> kernel_inv k' \<and> fs_only k k' \<and>
    tree (kfs k') = (tree (kfs k))(i \<mapsto> File_node m dat)"
  by (rule writeFile_spec[OF assms(1-5), of now]) (use assms(6) in \<open>auto simp: free_blocks_def\<close>)

theorem writeFile_replaces_content_witness:
  "\<exists>k k'. kernel_inv k \<and> tree (kfs k) 3 = Some (File_node (user_meta ''root'') [1, 2, 3]) \<and>
     writeFile (0, 0) root_proc path_a [9] k = (Ok (), k') \<and>
     tree (kfs k') = (tree (kfs k))(3 \<mapsto> File_node (user_meta ''root'') [9])"
proof -
  obtain k where k: "kernel_inv k" "tree (kfs k) = tree_add (tree demo_fs) 2 ''a'' 3 (File_node (user_meta ''root'') [1, 2, 3])"
    by (rule demo_file)
  note f = demo_file_facts[OF k(2)]
  have nb: "nblocks (length [1 :: u8, 2, 3]) = 1" "nblocks (length [9 :: u8]) = 1" by (simp_all add: nblocks_def layout)
  have n: "needed_blocks (nblocks (length [1 :: u8, 2, 3])) (nblocks (length [9 :: u8])) \<le> free_blocks (kfs k)"
    unfolding nb needed_blocks_same by simp
  have l: "length [9 :: u8] \<le> max_blocks * BLOCKSIZE" by (simp add: layout)
  show ?thesis
    using writeFile_replaces_content[OF k(1) _ f(1) _ l n, of root_proc path_a "(0, 0)"] f(1,3) k(1) by auto
qed

text \<open>
  C6. A write is read back by everyone who can reach the file: after a successful write, \<open>readFile\<close> of any process,
  by any path that names the file, returns the new bytes, or \<open>EACCES\<close> without the read bit.
\<close>

theorem write_then_read:
  assumes "kernel_inv k" "tree_lookup (tree (kfs k)) (EUID proc) (path_of proc target) 2 = Ok i"
    and "tree (kfs k) i = Some (File_node m old)" "may 2 (EUID proc) m"
    and "length dat \<le> max_blocks * BLOCKSIZE"
    and "needed_blocks (nblocks (length old)) (nblocks (length dat)) \<le> free_blocks (kfs k)"
    and "tree_lookup (tree (kfs k)) (EUID reader) (path_of reader other) 2 = Ok i"
  shows "fst (readFile reader other (snd (writeFile now proc target dat k))) =
    (if may 4 (EUID reader) m then Ok dat else Err EACCES)"
proof -
  obtain k' where k': "writeFile now proc target dat k = (Ok (), k')" "kernel_inv k'"
    "tree (kfs k') = (tree (kfs k))(i \<mapsto> File_node m dat)"
    by (rule writeFile_spec[OF assms(1-5), of now]) (use assms(6) in \<open>auto simp: free_blocks_def\<close>)
  have "same_dirs (tree (kfs k)) (tree (kfs k'))" using assms(3) k'(3) by (auto simp: same_dirs_def)
  then have "tree_lookup (tree (kfs k')) (EUID reader) (path_of reader other) 2 = Ok i"
    using assms(7) tree_lookup_same_dirs by metis
  then have "tree_read (tree (kfs k')) (EUID reader) (path_of reader other) =
      (if may 4 (EUID reader) m then Ok dat else Err EACCES)" by (simp add: tree_read_def k'(3))
  then show ?thesis
    using readFile_spec[OF k'(2), of reader other] spec_read_tree[OF k'(2)] k'(1) by (metis fst_conv snd_conv)
qed

theorem write_then_read_witness:
  "\<exists>k. kernel_inv k \<and> fst (readFile root_proc path_a (snd (writeFile (0, 0) root_proc path_a [9] k))) = Ok [9]"
proof -
  obtain k where k: "kernel_inv k" "tree (kfs k) = tree_add (tree demo_fs) 2 ''a'' 3 (File_node (user_meta ''root'') [1, 2, 3])"
    by (rule demo_file)
  note f = demo_file_facts[OF k(2)]
  have nb: "nblocks (length [1 :: u8, 2, 3]) = 1" "nblocks (length [9 :: u8]) = 1" by (simp_all add: nblocks_def layout)
  have n: "needed_blocks (nblocks (length [1 :: u8, 2, 3])) (nblocks (length [9 :: u8])) \<le> free_blocks (kfs k)"
    unfolding nb needed_blocks_same by simp
  have l: "length [9 :: u8] \<le> max_blocks * BLOCKSIZE" by (simp add: layout)
  show ?thesis
    using write_then_read[OF k(1) _ f(1) _ l n, of root_proc path_a root_proc path_a "(0, 0)"] f(3) k(1) by auto
qed

end
