(* ===== verification/TreeProps.thy ===== *)
theory TreeProps
  imports KernelProps
begin

text \<open>
  The properties of the system calls that change the tree: making files and directories, removing
  them, changing modes, and what none of the calls touches.
\<close>

lemma unat_3: "unat (i :: u32) = 3 \<Longrightarrow> i = 3"
  by (simp add: word_unat_eq_iff)

section \<open>Making files and directories\<close>

text \<open>
  C7. \<open>mkDir\<close> of a missing path, by one who may write its parent, adds one directory: under the lowest free
  inode number, owned by the effective user with modes 7 and 5, holding \<open>.\<close> and \<open>..\<close>, and named by a new
  entry of the parent. Nothing else of the tree changes. The disk must have a free inode and the
  blocks for the entry and the directory, and its free blocks must hold zeros.
\<close>

theorem mkDir_adds_directory:
  assumes "kernel_inv k" "path_of proc target = cs @ [name]" "length name \<le> 55"
    and "tree_lookup (tree (kfs k)) (EUID proc) (cs @ [name]) 2 = Err e"
    and "parent_check (tree (kfs k)) (EUID proc) cs = Ok p" "can_grow 1 (kfs k) p" "free_zero (kfs k)"
  shows "\<exists>i k'. mkDir now proc target k = (Ok (), k') \<and> kernel_inv k' \<and> fs_only k k' \<and>
    tree (kfs k) i = None \<and> unat i = Min (free_bits (ibitmap (kfs k))) \<and>
    tree (kfs k') = tree_add (tree (kfs k)) p name i (Dir_node (user_meta (EUID proc)) (dot_slots i p))"
  by (rule mkDir_missing[OF assms(1,2,4,3), of now]) (use assms(5-7) in \<open>auto simp: made_node_def\<close>)

theorem mkDir_adds_directory_witness:
  "\<exists>k'. mkDir (0, 0) root_proc path_a demo_kernel = (Ok (), k') \<and> kernel_inv k' \<and>
     tree (kfs k') = tree_add (tree demo_fs) 2 ''a'' 3 (Dir_node (user_meta ''root'') (dot_slots 3 2))"
proof -
  have e: "kfs demo_kernel = demo_fs" by (simp add: demo_kernel_def new_kernel_def)
  have "tree_lookup (tree (kfs demo_kernel)) (EUID root_proc) ([] @ [''a'']) 2 = Err ENOENT"
    "parent_check (tree (kfs demo_kernel)) (EUID root_proc) [] = Ok 2" "can_grow 1 (kfs demo_kernel) 2" "length ''a'' \<le> 55"
    "free_zero (kfs demo_kernel)"
    unfolding e root_proc_root demo_missing demo_tree(3) using demo_tree(9) by simp_all
  from mkDir_adds_directory[OF demo_tree(1) path_a(1) this(4,1,2,3,5), of "(0, 0)"]
  show ?thesis by (auto simp: e demo_tree(5) dest!: unat_3)
qed

text \<open>
  \<open>createFile\<close> of a missing path, by one who may write its parent, adds one empty file, in the same way.
\<close>

theorem createFile_adds_file:
  assumes "kernel_inv k" "path_of proc target = cs @ [name]" "length name \<le> 55"
    and "tree_lookup (tree (kfs k)) (EUID proc) (cs @ [name]) 2 = Err e"
    and "parent_check (tree (kfs k)) (EUID proc) cs = Ok p" "can_grow 0 (kfs k) p"
  shows "\<exists>i k'. createFile now proc target k = (Ok (), k') \<and> kernel_inv k' \<and> fs_only k k' \<and>
    tree (kfs k) i = None \<and> unat i = Min (free_bits (ibitmap (kfs k))) \<and>
    tree (kfs k') = tree_add (tree (kfs k)) p name i (File_node (user_meta (EUID proc)) [])"
  by (rule createFile_missing[OF assms(1,2,4,3), of now]) (use assms(5,6) in \<open>auto simp: made_node_def\<close>)

theorem createFile_adds_file_witness:
  "\<exists>k'. createFile (0, 0) root_proc path_a demo_kernel = (Ok (), k') \<and> kernel_inv k' \<and>
     tree (kfs k') = tree_add (tree demo_fs) 2 ''a'' 3 (File_node (user_meta ''root'') [])"
proof -
  have e: "kfs demo_kernel = demo_fs" by (simp add: demo_kernel_def new_kernel_def)
  have "tree_lookup (tree (kfs demo_kernel)) (EUID root_proc) ([] @ [''a'']) 2 = Err ENOENT"
    "parent_check (tree (kfs demo_kernel)) (EUID root_proc) [] = Ok 2" "can_grow 0 (kfs demo_kernel) 2" "length ''a'' \<le> 55"
    unfolding e root_proc_root demo_missing demo_tree(3) by simp_all
  from createFile_adds_file[OF demo_tree(1) path_a(1) this(4,1,2,3), of "(0, 0)"]
  show ?thesis by (auto simp: e demo_tree(5) dest!: unat_3)
qed

text \<open>
  C5. \<open>writeFile\<close> of a missing file makes it with the bytes in it, for one who may write the parent, and who owns
  what is made: a user name longer than the 13 bytes an inode keeps is not its owner.
\<close>

theorem writeFile_makes_file:
  assumes "kernel_inv k" "path_of proc target = cs @ [name]" "length name \<le> 55"
    and "tree_lookup (tree (kfs k)) (EUID proc) (cs @ [name]) 2 = Err ENOENT"
    and "parent_check (tree (kfs k)) (EUID proc) cs = Ok p"
    and "can_grow (needed_blocks 0 (nblocks (length dat))) (kfs k) p" "length dat \<le> max_blocks * BLOCKSIZE"
    and "length (EUID proc) \<le> 13" "CHR 0x00 \<notin> set (EUID proc)"
  shows "\<exists>i k'. writeFile now proc target dat k = (Ok (), k') \<and> kernel_inv k' \<and> fs_only k k' \<and>
    tree (kfs k) i = None \<and> tree (kfs k') = tree_add (tree (kfs k)) p name i (File_node (user_meta (EUID proc)) dat)"
proof -
  have "may 2 (EUID proc) (user_meta (EUID proc))" by (simp add: owner_may[OF assms(8,9)])
  then show ?thesis by (rule writeFile_missing[OF assms(1,2,4,3,5,6,7), of now]) blast
qed

theorem writeFile_makes_file_witness:
  "\<exists>i k'. writeFile (0, 0) root_proc path_a [7] demo_kernel = (Ok (), k') \<and> kernel_inv k' \<and>
     tree (kfs k') = tree_add (tree demo_fs) 2 ''a'' i (File_node (user_meta ''root'') [7])"
proof -
  have e: "kfs demo_kernel = demo_fs" by (simp add: demo_kernel_def new_kernel_def)
  have n: "nblocks (length [7 :: u8]) = 1" by (simp add: nblocks_def layout)
  have "tree_lookup (tree (kfs demo_kernel)) (EUID root_proc) ([] @ [''a'']) 2 = Err ENOENT"
    "parent_check (tree (kfs demo_kernel)) (EUID root_proc) [] = Ok 2"
    "can_grow (needed_blocks 0 (nblocks (length [7 :: u8]))) (kfs demo_kernel) 2" "length ''a'' \<le> 55"
    "length [7 :: u8] \<le> max_blocks * BLOCKSIZE" "length (EUID root_proc) \<le> 13" "CHR 0x00 \<notin> set (EUID root_proc)"
    unfolding e root_proc_root demo_missing demo_tree(3) n by (simp_all add: needed_small layout)
  from writeFile_makes_file[OF demo_tree(1) path_a(1) this(4,1,2,3,5,6,7), of "(0, 0)"]
  show ?thesis by (auto simp: e)
qed

text \<open>
  On a path that exists, \<open>mkDir\<close> fails with \<open>EEXIST\<close> and \<open>createFile\<close> does nothing and succeeds; where the
  parent is missing, is a file or may not be written, both fail with the parent's error. The disk
  is unchanged.
\<close>

theorem create_refused:
  assumes "kernel_inv k" "path_of proc target = cs @ [name]"
    and "tree_lookup (tree (kfs k)) (EUID proc) (cs @ [name]) 2 = r"
    and "(\<exists>i. r = Ok i) \<or> r \<noteq> Panic \<and> parent_check (tree (kfs k)) (EUID proc) cs = Err e"
  shows "\<exists>k1 k2. mkDir now proc target k = (if \<exists>i. r = Ok i then Err EEXIST else Err e, k1) \<and>
    createFile now proc target k = (if \<exists>i. r = Ok i then Ok () else Err e, k2) \<and>
    kernel_inv k1 \<and> kernel_inv k2 \<and> cache_only k k1 \<and> cache_only k k2"
proof (cases r)
  case (Ok i)
  have "tree_lookup (tree (kfs k)) (EUID proc) (path_of proc target) 2 = Ok i" using assms(2,3) Ok by simp
  then show ?thesis by (rule mkDir_exists[OF assms(1), of proc target i now]) (use Ok in auto)
next
  case (Err e')
  then have pc: "parent_check (tree (kfs k)) (EUID proc) cs = Err e" using assms(4) by simp
  obtain k1 where k1: "ResolvePath proc (normalizePath proc target) k = (Err e', k1)" "kernel_inv k1" "cache_only k k1"
    "kfs k1 = kfs k" by (rule resolve_missing[OF assms(1), of proc target e']) (use assms(2,3) Err in simp)
  have pc1: "parent_check (tree (kfs k1)) (EUID proc) cs = Err e" using pc k1(4) by simp
  have c: "\<exists>k'. create_in_parent now proc (normalizePath proc target) ft k1 = (Err e, k') \<and> kernel_inv k' \<and> cache_only k k'" for ft
    by (rule create_in_parent_refused[OF k1(2) assms(2) pc1, of now ft]) (use cache_only_trans[OF k1(3)] in auto)
  show ?thesis using c[of S_IFDIR] c[of S_IFREG] k1(1) Err by (auto simp: mkDir_def createFile_def Let_def)
qed (use assms(4) in simp)

theorem create_refused_witness:
  "\<exists>k1 k2. mkDir (0, 0) (root_proc\<lparr>EUID := ''eve''\<rparr>) path_a demo_kernel = (Err EACCES, k1) \<and>
     createFile (0, 0) (root_proc\<lparr>EUID := ''eve''\<rparr>) path_a demo_kernel = (Err EACCES, k2) \<and> kernel_inv k1 \<and> kernel_inv k2"
proof -
  let ?eve = "root_proc\<lparr>EUID := ''eve''\<rparr>"
  have e: "kfs demo_kernel = demo_fs" "EUID ?eve = ''eve''" by (simp_all add: demo_kernel_def new_kernel_def)
  have m: "meta_of demo_ino = user_meta ''root''"
    by (simp add: demo_ino_def root_inode_def meta_of_def user_meta_def disk_part_def zero_inode_def
      ownerBytes_def go_copy_def)
  have w: "\<not> may 2 ''eve'' (meta_of demo_ino)"
    by (simp add: m may_def user_meta_def ownerString_ownerBytes)
  have pc: "parent_check (tree (kfs demo_kernel)) (EUID ?eve) [] = Err EACCES"
    unfolding e by (simp add: parent_check_def demo_tree(2) w)
  have r: "tree_lookup (tree (kfs demo_kernel)) (EUID ?eve) ([] @ [''a'']) 2 =
      Err (if may 1 ''eve'' (meta_of demo_ino) then ENOENT else EACCES)" unfolding e by (rule demo_missing)
  from create_refused[OF demo_tree(1) path_a(1) r, of EACCES "(0, 0)"] pc show ?thesis by auto
qed

text \<open>
  A name of more than 55 bytes is refused only after the inode was allocated: the call fails with
  \<open>name too long\<close>, and the inode stays in use under no name.
\<close>

theorem createFile_leaks_inode:
  assumes "kernel_inv k" "path_of proc target = cs @ [name]" "55 < length name"
    and "tree_lookup (tree (kfs k)) (EUID proc) (cs @ [name]) 2 = Err e"
    and "parent_check (tree (kfs k)) (EUID proc) cs = Ok p" "free_bits (ibitmap (kfs k)) \<noteq> {}"
  shows "\<exists>i k'. createFile now proc target k = (Err (ErrorText ''name too long''), k') \<and> kernel_inv k' \<and>
    tree (kfs k) i = None \<and> tree (kfs k') = (tree (kfs k))(i \<mapsto> File_node (user_meta (EUID proc)) [])"
proof -
  note s = split_target[OF assms(2)]
  let ?dir = "path_dir (normalizePath proc target)"
  obtain k1 where k1: "ResolvePath proc (normalizePath proc target) k = (Err e, k1)" "kernel_inv k1" "cache_only k k1"
    "kfs k1 = kfs k" by (rule resolve_missing[OF assms(1), of proc target e]) (use assms(2,4) in simp)
  have l: "lookup_path (kfs k1) (EUID proc) (path_of proc ?dir) 2 = Ok p"
    using parent_check_Ok[OF assms(5)] s(1) lookup_root_tree[OF assms(1)] k1(4) by simp
  obtain m xs where t: "tree (kfs k) p = Some (Dir_node m xs)" "may 2 (EUID proc) m" using parent_check_Ok[OF assms(5)] by blast
  obtain ka ino k2 where g: "ResolvePath proc ?dir k1 = (Ok p, ka)" "getInode p ka = (Ok ino, k2)"
    "kernel_inv k2" "cache_only k1 k2" "inodeCache k2 p = Some ino" "cached_ok (kfs k1) p ino" "live (kfs k1) p \<noteq> None"
    by (rule resolve_load[OF k1(2) l])
  have e: "kfs k2 = kfs k" using g(4) k1(4) by simp
  obtain i k3 k4 k5 where n: "on_fs AllocInode k2 = (Ok i, k3)"
    "store_inode (new_inode S_IFREG (EUID proc) False 7 5 (fst now) (snd now)) i k3 = (Ok (), k4)"
    "k5 = k4\<lparr>inodeCache := (inodeCache k4)(i := None)\<rparr>" "kernel_inv k5" "live (kfs k2) i = None" "i \<noteq> 0"
    "tree (kfs k5) = (tree (kfs k2))(i \<mapsto> empty_node S_IFREG \<lparr>m_owner = ownerBytes (EUID proc), m_setuid = False,
       m_ownerMode = 7, m_otherMode = 5\<rparr>)"
    by (rule new_node_step[OF g(3), of S_IFREG "EUID proc" False 7 5 "fst now" "snd now"]) (use assms(6) e in auto)
  have ip: "i \<noteq> p" using n(5) t(1) e by (auto simp: tree_dir)
  have t5: "tree (kfs k5) p = Some (Dir_node m xs)" using n(7) t(1) ip e by simp
  have ok: "dir_ok (kfs k5) p" using kernel_inv_dir(1)[OF n(4)] t5 by (simp add: tree_dir)
  have "addDentry p \<lparr>Inum = i, Name = name\<rparr> (kfs k5) = (Err (ErrorText ''name too long''), kfs k5)"
    using dir_inode(1)[OF kernel_inv_fs(1)[OF n(4)] ok] assms(3) by (simp add: addDentry_def encodeDirEntry_def)
  then have a: "on_fs (addDentry p \<lparr>Inum = i, Name = name\<rparr>) k5 = (Err (ErrorText ''name too long''), k5)"
    by (simp add: on_fs_def)
  have "makeInode now p name S_IFREG (EUID proc) False 7 5 k2 = (Err (ErrorText ''name too long''), k5)"
    using n(1,2) a by (simp add: makeInode_def Let_def n(3)[symmetric])
  moreover have "is_dir (kfs k1) p" "may 2 (EUID proc) (meta_of (disk_inode (kfs k1) (unat p)))"
    using t k1(4) by (auto simp: tree_dir)
  ultimately have "createFile now proc target k = (Err (ErrorText ''name too long''), k5)"
    using k1(1) g(1,2) s(2) cached_ok_sel(7)[OF g(6)] can_cached(2)[OF g(6)]
    by (simp add: createFile_def create_in_parent_def Let_def can_may)
  then show ?thesis
    using n(4,5,7) e by (intro exI[of _ i] exI[of _ k5]) (simp add: empty_node_def user_meta_def)
qed

theorem createFile_leaks_inode_witness:
  "\<exists>k'. createFile (0, 0) root_proc (CHR ''/'' # replicate 56 CHR ''b'') demo_kernel = (Err (ErrorText ''name too long''), k')"
proof -
  let ?n = "replicate 56 CHR ''b''"
  have e: "kfs demo_kernel = demo_fs" by (simp add: demo_kernel_def new_kernel_def)
  have p: "path_of root_proc (CHR ''/'' # ?n) = [] @ [?n]"
    using path_of_abs_path[of "[?n]" root_proc] by (simp add: abs_path_def comp_ok_def numeral_eq_Suc)
  have "tree_lookup (tree (kfs demo_kernel)) (EUID root_proc) ([] @ [?n]) 2 = Err ENOENT"
    "parent_check (tree (kfs demo_kernel)) (EUID root_proc) [] = Ok 2" "free_bits (ibitmap (kfs demo_kernel)) \<noteq> {}"
    "55 < length ?n"
    unfolding e by (simp_all add: demo_tree(2) slot_names_def lookup_def parent_check_def demo_facts(9) layout)
  from createFile_leaks_inode[OF demo_tree(1) p this(4,1,2,3), of "(0, 0)"] show ?thesis by blast
qed

section \<open>Removing\<close>

lemma demo_dirs:
  assumes "tree demo_fs d = Some (Dir_node m xs)"
  shows "d = 2"
proof -
  have l: "live demo_fs d \<noteq> None" "is_dir demo_fs d" using assms by (auto simp: tree_dir)
  have "disk_inode demo_fs (unat d) = zero_inode" if "unat d \<noteq> 2"
    using fresh_fs_views(5)[where c = 0 and m = 0, OF live_range[OF l(1)], folded demo_fs_def] that by simp
  moreover have "fType zero_inode \<noteq> S_IFDIR" by (simp add: zero_inode_def S_IFDIR_def)
  ultimately have "unat d = 2" using l(2) unfolding is_dir_def by metis
  then show ?thesis by (simp add: word_unat_eq_iff)
qed

text \<open>
  C2. \<open>removeAll\<close> of a path, by one who may write and execute its directory, takes the entry out of the directory
  and removes the node with everything under it, and nothing else. What is under it must be a tree
  nobody else refers to, with no stale directory in the cache; the depth the code recurses to is
  bounded by the number of inodes.
\<close>

theorem removeAll_removes_subtree:
  assumes "kernel_inv k" "path_of proc target = cs @ [name]"
    and "tree_lookup (tree (kfs k)) (EUID proc) (cs @ [name]) 2 = Ok i"
    and "parent_check (tree (kfs k)) (EUID proc) cs = Ok q"
    and "below free_depth (tree (kfs k)) i = Some is" "detachable (tree_remove (tree (kfs k)) q name) q is"
    and "\<forall>j \<in> set is. coherent k j"
  shows "\<exists>k'. removeAll proc target k = (Ok (), k') \<and> kernel_inv k' \<and> fs_only k k' \<and>
    tree (kfs k') = tree_remove (tree (kfs k)) q name |` (- set is)"
proof -
  obtain m xs where q: "tree_lookup (tree (kfs k)) (EUID proc) cs 2 = Ok q" "tree (kfs k) q = Some (Dir_node m xs)"
    "may 2 (EUID proc) m" using parent_check_Ok[OF assms(4)] by blast
  show ?thesis by (rule removeAll_spec[OF assms(1-3) q assms(5-7)]) blast
qed

theorem removeAll_removes_subtree_witness:
  "\<exists>k k'. kernel_inv k \<and> tree (kfs k) 3 \<noteq> None \<and> removeAll root_proc path_a k = (Ok (), k') \<and> kernel_inv k' \<and>
     tree (kfs k') 3 = None \<and> tree (kfs k') 2 = Some (Dir_node (meta_of demo_ino) (replicate 64 None))"
proof -
  obtain k where k: "kernel_inv k" "tree (kfs k) = tree_add (tree demo_fs) 2 ''a'' 3 (File_node (user_meta ''root'') [1, 2, 3])"
    by (rule demo_file)
  note f = demo_file_facts[OF k(2)]
  have r: "remove_slot ''a'' (Some \<lparr>Inum = 3, Name = ''a''\<rparr> # replicate 63 None) = Some (replicate 64 None)"
  proof -
    have "first_slot (has_name ''a'') (Some \<lparr>Inum = 3, Name = ''a''\<rparr> # replicate 63 None) = Some 0"
      by (auto simp: first_slot_def find_upt_Some has_name_def)
    then show ?thesis by (simp add: remove_slot_def numeral_eq_Suc)
  qed
  have t: "tree_remove (tree (kfs k)) 2 ''a'' = (tree (kfs k))(2 \<mapsto> Dir_node (meta_of demo_ino) (replicate 64 None))"
    by (simp add: tree_remove_def f(2) r)
  have only: "d = 2" if "tree (kfs k) d = Some (Dir_node m xs)" for d m xs
  proof -
    show ?thesis using that f(4)[of d] demo_dirs[of d] by (auto split: if_splits)
  qed
  have d: "detachable (tree_remove (tree (kfs k)) 2 ''a'') 2 [3]"
    unfolding detachable_def t
  proof (intro conjI allI impI)
    fix d m xs e assume x: "((tree (kfs k))(2 \<mapsto> Dir_node (meta_of demo_ino) (replicate 64 None))) d = Some (Dir_node m xs)"
      "Some e \<in> set xs"
    then have "d = 2" using only[of d m xs] by (cases "d = 2") simp_all
    then show "Inum e \<notin> set [3]" using x by auto
  qed simp_all
  have b: "below free_depth (tree (kfs k)) 3 = Some [3]" by (simp add: free_depth_def f(1))
  have c: "\<forall>j \<in> set [3]. coherent k j"
    using k(1) f(1) by (auto simp: kernel_inv_def cache_ok_def coherent_def tree_file cached_ok_def)
  have p: "parent_check (tree (kfs k)) (EUID root_proc) [] = Ok 2" by (simp add: parent_check_def f(2))
  have l: "tree_lookup (tree (kfs k)) (EUID root_proc) ([] @ [''a'']) 2 = Ok 3" using f(3)[of root_proc] by (simp add: path_a(2))
  obtain k' where k': "removeAll root_proc path_a k = (Ok (), k')" "kernel_inv k'"
    "tree (kfs k') = tree_remove (tree (kfs k)) 2 ''a'' |` (- set [3])"
    using removeAll_removes_subtree[OF k(1) path_a(1) l p b d c] by blast
  have "tree (kfs k') 3 = None" "tree (kfs k') 2 = Some (Dir_node (meta_of demo_ino) (replicate 64 None))"
    unfolding k'(3) t by simp_all
  moreover have "tree (kfs k) 3 \<noteq> None" using f(1) by simp
  ultimately show ?thesis using k(1) k'(1,2) by blast
qed

lemma removeAll_fails:
  assumes "kernel_inv k" "path_of proc target = cs"
    and "cs = [] \<and> e = EPERM \<or> cs \<noteq> [] \<and> (tree_lookup (tree (kfs k)) (EUID proc) cs 2 = Err e \<or>
      (\<exists>i. tree_lookup (tree (kfs k)) (EUID proc) cs 2 = Ok i) \<and>
      parent_check (tree (kfs k)) (EUID proc) (butlast cs) = Err e)"
  shows "\<exists>k'. removeAll proc target k = (Err e, k') \<and> kernel_inv k' \<and> cache_only k k'"
proof (cases "cs = []")
  case True
  then have "normalizePath proc target = ''/''" using path_of(1)[of proc target] assms(2) by (simp add: abs_path_def)
  then show ?thesis using True assms(1,3) by (simp add: removeAll_def)
next
  case False
  then have p: "path_of proc target = butlast cs @ [last cs]" using assms(2) by simp
  note s = split_target[OF p]
  show ?thesis
  proof (cases "tree_lookup (tree (kfs k)) (EUID proc) cs 2 = Err e")
    case True
    obtain k1 where "ResolvePath proc (normalizePath proc target) k = (Err e, k1)" "kernel_inv k1" "cache_only k k1"
      by (rule resolve_missing[OF assms(1), of proc target e]) (use True assms(2) in simp)
    then show ?thesis using s(4) by (simp add: removeAll_def Let_def)
  next
    case no: False
    then obtain i where i: "tree_lookup (tree (kfs k)) (EUID proc) cs 2 = Ok i"
      and pc: "parent_check (tree (kfs k)) (EUID proc) (butlast cs) = Err e" using assms(3) False by blast
    obtain k1 where k1: "ResolvePath proc (normalizePath proc target) k = (Ok i, k1)" "kernel_inv k1" "cache_only k k1"
      "kfs k1 = kfs k" by (rule resolve_found[OF assms(1), of proc target i]) (use i assms(2) in simp)
    obtain q m xs where q: "tree_lookup (tree (kfs k)) (EUID proc) (butlast cs) 2 = Ok q"
      "tree (kfs k) q = Some (Dir_node m xs)" by (rule lookup_last[of "tree (kfs k)" "EUID proc" "butlast cs" "last cs" i]) (use i False in simp_all)
    let ?dir = "path_dir (normalizePath proc target)"
    have lk: "lookup_path (kfs k1) (EUID proc) (path_of proc ?dir) 2 = Ok q"
      using q(1) s(1) lookup_root_tree[OF assms(1)] k1(4) by simp
    obtain ka ino k2 where g: "ResolvePath proc ?dir k1 = (Ok q, ka)" "getInode q ka = (Ok ino, k2)"
      "kernel_inv k2" "cache_only k1 k2" "inodeCache k2 q = Some ino" "cached_ok (kfs k1) q ino" "live (kfs k1) q \<noteq> None"
      by (rule resolve_load[OF k1(2) lk])
    have w: "\<not> may 2 (EUID proc) m" "e = EACCES" using pc q by (simp_all add: parent_check_def split: if_splits)
    then have "\<not> may 2 (EUID proc) (meta_of (disk_inode (kfs k1) (unat q)))" using q(2) k1(4) by (simp add: tree_dir)
    then have "removeAll proc target k = (Err e, k2)"
      using k1(1) g(1,2) s(4) can_cached(2)[OF g(6)] w(2) by (simp add: removeAll_def Let_def can_may)
    then show ?thesis using g(3) cache_only_trans[OF k1(3) g(4)] by blast
  qed
qed

text \<open>
  What \<open>removeAll\<close> refuses: the root with \<open>EPERM\<close>, a path that does not resolve with the error of the path, and
  an entry of a directory the caller may not write with \<open>EACCES\<close>. The disk is unchanged.
\<close>

theorem removeAll_refused:
  assumes "kernel_inv k" "path_of proc target = cs"
    and "cs = [] \<and> e = EPERM \<or> cs \<noteq> [] \<and> (tree_lookup (tree (kfs k)) (EUID proc) cs 2 = Err e \<or>
      (\<exists>i. tree_lookup (tree (kfs k)) (EUID proc) cs 2 = Ok i) \<and>
      parent_check (tree (kfs k)) (EUID proc) (butlast cs) = Err e)"
  shows "\<exists>k'. removeAll proc target k = (Err e, k') \<and> kernel_inv k' \<and> cache_only k k'"
  by (rule removeAll_fails[OF assms])

theorem removeAll_refused_witness:
  "\<exists>k'. removeAll root_proc ''/'' demo_kernel = (Err EPERM, k') \<and> cache_only demo_kernel k'"
proof -
  have "path_of root_proc ''/'' = []" using path_of_abs_path[of "[]"] by (simp add: abs_path_def)
  from removeAll_refused[OF demo_tree(1) this, of EPERM] show ?thesis by auto
qed

end
