(* ===== verification/AccessProps.thy ===== *)
theory AccessProps
  imports TreeProps
begin

text \<open>
  Modes and owners, what no call on files touches, and the recursion of \<open>freeInodeTree\<close>.
\<close>

section \<open>Modes\<close>

text \<open>
  \<open>chmod\<close> sets the two modes of the node a path names, for root and for the owner; for anyone else it fails with
  \<open>permission denied\<close>. Nothing else of the tree changes. The cached inode must be up to date, which it
  is for every file.
\<close>

theorem chmod_sets_modes:
  assumes "kernel_inv k" "tree_lookup (tree (kfs k)) (EUID proc) (path_of proc target) 2 = Ok i"
    and "tree (kfs k) i = Some n" "coherent k i"
  shows "\<exists>k'. kernel_inv k' \<and> fs_only k k' \<and>
    (if EUID proc = ''root'' \<or> ownerString (m_owner (node_meta n)) = EUID proc
     then chmod proc target om xm k = (Ok (), k') \<and> tree (kfs k') = (tree (kfs k))(i \<mapsto> set_modes om xm n)
     else chmod proc target om xm k = (Err (ErrorText ''permission denied''), k') \<and> tree (kfs k') = tree (kfs k))"
  by (rule chmod_spec[OF assms, of om xm]) (auto split: if_splits)

theorem chmod_sets_modes_witness:
  "\<exists>k k'. kernel_inv k \<and> chmod root_proc path_a 6 0 k = (Ok (), k') \<and>
     tree (kfs k') 3 = Some (File_node ((user_meta ''root'')\<lparr>m_ownerMode := 6, m_otherMode := 0\<rparr>) [1, 2, 3])"
proof -
  obtain k where k: "kernel_inv k" "tree (kfs k) = tree_add (tree demo_fs) 2 ''a'' 3 (File_node (user_meta ''root'') [1, 2, 3])"
    by (rule demo_file)
  note f = demo_file_facts[OF k(2)]
  have c: "coherent k 3"
    using k(1) f(1) by (auto simp: kernel_inv_def cache_ok_def coherent_def tree_file cached_ok_def)
  have l: "tree_lookup (tree (kfs k)) (EUID root_proc) (path_of root_proc path_a) 2 = Ok 3" using f(3)[of root_proc] by simp
  from chmod_sets_modes[OF k(1) l f(1) c, of 6 0] k(1) show ?thesis by (auto simp: set_modes_def)
qed

text \<open>
  \<open>addDentry\<close> grows a directory on the disk and leaves the cached inode as it was, and \<open>chmod\<close> stores
  the cached inode: after a \<open>chmod\<close> of a directory, its size on the disk is the one in the cache, so
  the entries past it are gone.
\<close>

theorem chmod_restores_stale_size:
  assumes "kernel_inv k" "tree_lookup (tree (kfs k)) ''root'' (path_of proc target) 2 = Ok i" "EUID proc = ''root''"
    and "inodeCache k i = Some ino" "inode_shape ino"
  shows "\<exists>k'. chmod proc target om xm k = (Ok (), k') \<and>
    disk_inode (kfs k') (unat i) = disk_part (ino\<lparr>ownerMode := om, otherMode := xm\<rparr>)"
proof -
  obtain k1 where k1: "ResolvePath proc target k = (Ok i, k1)" "kernel_inv k1" "cache_only k k1"
    using ResolvePath_lookup[OF assms(1), of proc target] assms(2,3) lookup_root_tree[OF assms(1)] by metis
  from k1(3) obtain c where c: "k1 = k\<lparr>inodeCache := c\<rparr>" "inodeCache k \<subseteq>\<^sub>m c"
    unfolding cache_only_def by (elim exE conjE) rule
  have "c i = Some ino" using c(2) assms(4) unfolding map_le_def by (metis domI)
  then have c: "inodeCache k1 i = Some ino" using c(1) by simp
  let ?ino = "ino\<lparr>ownerMode := om, otherMode := xm\<rparr>"
  have std: "std_fs (kfs k1)" by (rule kernel_inv_fs(4)[OF k1(2)])
  have l: "unat i < INODES" using live_range[OF lookup_live[OF assms(1,2)]] .
  have shape: "inode_shape ?ino" using assms(5) by (simp add: inode_shape_def)
  let ?fs = "set_inode_bytes (unat i) (encode_inode ?ino) (kfs k1)"
  have w: "writeInode (kfs k1) ?ino i = (?fs, None)" by (rule writeInode_std[OF std l shape])
  have d: "disk_inode ?fs (unat i) = disk_part ?ino" using disk_inode_set[OF std l shape] by simp
  have "getInode i k1 = (Ok ino, k1)" using c by (simp add: getInode_def)
  then have "chmod proc target om xm k = (Ok (), k1\<lparr>inodeCache := (inodeCache k1)(i \<mapsto> ?ino), kfs := ?fs\<rparr>)"
    using k1(1) assms(3) w by (simp add: chmod_def Let_def store_inode_def on_fs_def of_err_def)
  then show ?thesis using d by auto
qed

theorem chmod_restores_stale_size_witness:
  "\<exists>k k'. kernel_inv k \<and> content (kfs k) 2 \<noteq> [] \<and> chmod root_proc ''/'' 7 5 k = (Ok (), k') \<and> content (kfs k') 2 = []"
proof -
  obtain k0 where k0: "kernel_inv k0" "tree (kfs k0) = tree_add (tree demo_fs) 2 ''a'' 3 (File_node (user_meta ''root'') [1, 2, 3])"
    by (rule demo_file)
  note f = demo_file_facts[OF k0(2)]
  let ?ino = "(loaded (kfs k0) 2)\<lparr>isize := 0\<rparr>"
  let ?k = "k0\<lparr>inodeCache := (inodeCache k0)(2 \<mapsto> ?ino)\<rparr>"
  have d: "is_dir (kfs k0) 2" "live (kfs k0) 2 \<noteq> None" using f(2) by (auto simp: tree_dir)
  have shape: "inode_shape ?ino"
    using disk_inode_shape[OF kernel_inv_fs(4)[OF k0(1)] live_range[OF d(2)]]
    by (simp add: loaded_def with_ops_def inode_shape_def)
  have "cached_ok (kfs k0) 2 ?ino"
    using cached_ok_loaded[of "kfs k0" 2] d(1) by (simp add: cached_ok_def same_meta_def)
  then have inv: "kernel_inv ?k" using k0(1) d(2) by (auto simp: kernel_inv_def cache_ok_def)
  have p: "path_of root_proc ''/'' = []" using path_of_abs_path[of "[]"] by (simp add: abs_path_def)
  have ne: "content (kfs ?k) 2 \<noteq> []" using f(2) by (auto simp: tree_dir dir_slots_def slots_of_def)
  obtain k' where k': "chmod root_proc ''/'' 7 5 ?k = (Ok (), k')"
    "disk_inode (kfs k') (unat (2 :: u32)) = disk_part (?ino\<lparr>ownerMode := 7, otherMode := 5\<rparr>)"
    using chmod_restores_stale_size[OF inv, of root_proc "''/''" 2 ?ino 7 5] p shape by auto
  have "content (kfs k') 2 = []" using k'(2) by (simp add: content_def file_bytes_def)
  then show ?thesis using inv ne k'(1) by blast
qed

section \<open>What calls on files leave alone\<close>

lemma Syscall_files_only:
  shows "n \<notin> {SYS_IOCTL, SYS_EXEC} \<Longrightarrow> fs_only k (snd (snd (Syscall run now proc n args k)))"
proof -
  assume n: "n \<notin> {SYS_IOCTL, SYS_EXEC}"
  have path: "files_only (\<lambda>k. on_path args k f)" if "\<And>p. files_only (f p)" for f :: "string \<Rightarrow> kernel \<Rightarrow> 'b outcome \<times> kernel"
    unfolding on_path_def by (intro files_only_intros that)
  have res: "files_only (\<lambda>k. result_of g (m k))" if "files_only m" for g :: "'b \<Rightarrow> sys_result" and m
    unfolding result_of_def by (intro files_only_intros that)
  have st: "files_only (\<lambda>k. bindS (stat proc p k) (\<lambda>meta k. case meta of None \<Rightarrow> (Err ENOENT, k) | Some m \<Rightarrow> (Ok (RMeta m), k)))" for p
    by (rule files_only_bind[OF files_only_reads(3)]) (auto simp: files_only_def split: option.split)
  have "files_only (sys_call run now proc n args)"
    using n unfolding sys_call_def
    by (cases n) (simp_all, (intro path res files_only_intros st)+)
  then have call: "fs_only k (snd (sys_call run now proc n args k))" by (simp add: files_only_def)
  have cd: "fs_only k (snd (snd (changeDirectory proc p k)))" for p
  proof -
    have "files_only (\<lambda>k. bindS (ResolvePath proc t k) getInode)" for t by (intro files_only_intros)
    then have "fs_only k k'" if "bindS (ResolvePath proc t k) getInode = (r, k')" for t r k' using that by (rule files_onlyD)
    then show ?thesis
      by (auto simp: changeDirectory_def Let_def split: prod.split outcome.split)
  qed
  show ?thesis
  proof (cases "n = SYS_CHDIR")
    case True
    then show ?thesis using cd by (auto simp: Syscall_def split: prod.split outcome.split) (metis snd_conv)+
  next
    case False
    then show ?thesis using call by (cases "sys_call run now proc n args k") (simp add: Syscall_def)
  qed
qed

text \<open>
  No call on files, with whatever arguments and outcome, changes the processes, the process numbers, the open
  file descriptions, the terminals, the sessions or the registered programs, or sends a signal.
\<close>

theorem file_calls_touch_files_only:
  "n \<notin> {SYS_IOCTL, SYS_EXEC} \<Longrightarrow> fs_only k (snd (snd (Syscall run now proc n args k)))"
  by (rule Syscall_files_only)

theorem file_calls_touch_files_only_witness:
  "fs_only demo_kernel (snd (snd (Syscall (\<lambda>b p a k. (0, k)) (0, 0) root_proc SYS_MKDIR [AString ''/a''] demo_kernel)))"
  by (rule file_calls_touch_files_only) simp

section \<open>Freeing a tree ends\<close>

lemma below_more: "below n t i = Some is \<Longrightarrow> n \<le> n' \<Longrightarrow> below n' t i = Some is"
  "belows n t es = Some js \<Longrightarrow> n \<le> n' \<Longrightarrow> belows n' t es = Some js"
proof (induction n t i and n t es arbitrary: n' "is" and n' js rule: below_belows.induct)
  case (2 n t i)
  then obtain m where m: "n' = Suc m" "n \<le> m" by (cases n') auto
  show ?case
  proof (cases "t i")
    case None
    then show ?thesis using 2(2) by simp
  next
    case (Some x)
    show ?thesis
    proof (cases x)
      case (File_node m bs)
      then show ?thesis using 2(2) Some m by simp
    next
      case (Dir_node mm xs)
      then obtain js where js: "belows n t (entries xs) = Some js" "is = js @ [i]"
        using 2(2) Some by auto
      have "belows m t (entries xs) = Some js" by (rule 2(1)[OF Some Dir_node js(1) m(2)])
      then show ?thesis using Some Dir_node js(2) m(1) by simp
    qed
  qed
next
  case (4 n t e es)
  show ?case
  proof (cases "Name e = ''.'' \<or> Name e = ''..''")
    case True
    have "belows n t es = Some js" using 4(4) True by simp
    from 4(1)[OF True this 4(5)] show ?thesis using True by simp
  next
    case False
    then obtain "is" ks where js: "below n t (Inum e) = Some is" "belows n t es = Some ks" "js = is @ ks"
      using 4(4) by (auto split: option.splits)
    from 4(2)[OF False js(1) 4(5)] 4(3)[OF False js(1,2) 4(5)] show ?thesis using False js(3) by simp
  qed
qed simp_all

text \<open>
  The depth that bounds \<open>freeInodeTree\<close> does not matter once it is enough: if the nodes under \<open>i\<close> are reached
  within a depth, any greater depth gives the same nodes, and freeing returns without running out
  of it.
\<close>

theorem freeInodeTree_depth_enough:
  assumes "below n (tree (kfs k)) i = Some is" "distinct is" "freeable k is" "n \<le> n'"
  shows "below n' (tree (kfs k)) i = Some is \<and> (\<exists>k'. freeInodeTree n' i k = (Ok (), k') \<and> frees is k k')"
  using below_more(1)[OF assms(1,4)] freeInodeTree_ok(1)[OF _ assms(2,3)] by blast

theorem freeInodeTree_depth_enough_witness:
  "\<exists>k k'. below 1 (tree (kfs k)) 3 = Some [3] \<and> freeInodeTree 5 3 k = (Ok (), k') \<and> live (kfs k') 3 = None"
proof -
  obtain k where k: "kernel_inv k" "tree (kfs k) = tree_add (tree demo_fs) 2 ''a'' 3 (File_node (user_meta ''root'') [1, 2, 3])"
    by (rule demo_file)
  note f = demo_file_facts[OF k(2)]
  have c: "freeable k [3]"
    using k(1) f(1) kernel_inv_fs(1)[OF k(1)]
    by (auto simp: kernel_inv_def cache_ok_def coherent_def tree_file cached_ok_def freeable_def)
  have b: "below 1 (tree (kfs k)) 3 = Some [3]" by (simp add: f(1))
  obtain k' where "freeInodeTree 5 3 k = (Ok (), k')" "frees [3] k k'"
    using freeInodeTree_depth_enough[OF b _ c, of 5] by auto
  then show ?thesis using b by (auto simp: frees_def)
qed

end
