(* ===== verification/DirProps.thy ===== *)
theory DirProps
  imports KernelProps
begin

text \<open>
  The properties of directories and paths: \<open>addDentry\<close> and \<open>removeDentry\<close> as a table of names, what \<open>addDentry\<close> makes of
  the old bytes of a block, and the canonical form of paths.
\<close>

section \<open>Entries\<close>

text \<open>
  C19. On a directory without the name, \<open>addDentry\<close> maps the name to the number, keeps every other name, file and
  directory, and a listing shows the slots with the entry in the first blank one; \<open>removeDentry\<close> of
  the name then restores the table, and a second time fails with \<open>ENOENT\<close>. The blocks the
  entry costs must be there and, if the directory is full, the free blocks must hold zeros.
\<close>

theorem addDentry_removeDentry:
  assumes "fs_inv fs" "dir_ok fs d" "entry_ok e" "dir_room fs d" "\<not> full_dir (dir_slots fs d) \<or> free_zero fs"
    and "uniq_names (dir_slots fs d)" "slot_names (dir_slots fs d) (Name e) = None"
  shows "\<exists>fs' fs''. addDentry d e fs = (Ok (), fs') \<and>
    slot_names (dir_slots fs' d) = (slot_names (dir_slots fs d))(Name e \<mapsto> Inum e) \<and>
    ReadEntries d fs' = Ok (entries (add_slot e (dir_slots fs d))) \<and> fs_kept d fs fs' \<and>
    removeDentry d (Name e) fs' = (Ok (), fs'') \<and> slot_names (dir_slots fs'' d) = slot_names (dir_slots fs d) \<and>
    fs_kept d fs' fs'' \<and> removeDentry d (Name e) fs'' = (Err ENOENT, fs'')"
proof -
  obtain fs' where a: "addDentry d e fs = (Ok (), fs')" "fs_inv fs'" "dir_ok fs' d"
    "dir_slots fs' d = add_slot e (dir_slots fs d)" "fs_kept d fs fs'"
    by (rule addDentry_ok[OF assms(1-4)]) (use assms(5) in auto)
  have t: "uniq_names (dir_slots fs' d)" "slot_names (dir_slots fs' d) = (slot_names (dir_slots fs d))(Name e \<mapsto> Inum e)"
    using dir_table.add_ok[OF assms(6,7)] dir_table.add_names[OF assms(6,7)] a(4) by simp_all
  obtain xs where r: "remove_slot (Name e) (dir_slots fs' d) = Some xs" "uniq_names xs" "slot_names xs = slot_names (dir_slots fs d)"
    using dir_table.del_add[OF assms(6,7)] a(4) by metis
  obtain fs'' where b: "removeDentry d (Name e) fs' = (Ok (), fs'')" "fs_inv fs''" "dir_ok fs'' d" "dir_slots fs'' d = xs"
    "fs_kept d fs' fs''"
    using removeDentry_ok[OF a(2,3), of "Name e"] r(1) by auto
  have "remove_slot (Name e) xs = None" using dir_table.del_twice[OF t(1) r(1)] .
  then have "removeDentry d (Name e) fs'' = (Err ENOENT, fs'')"
    using removeDentry_ok[OF b(2,3), of "Name e"] b(4) by simp
  then show ?thesis using a(1,5) t(2) ReadEntries_ok[OF a(2,3)] a(4) b(1,4,5) r(3) by auto
qed

lemma demo_root: "dir_ok demo_fs 2" "dir_slots demo_fs 2 = []" "dir_room demo_fs 2" "free_zero demo_fs"
proof -
  show "dir_slots demo_fs 2 = []" by (simp add: dir_slots_def demo_facts(10) slots_of_def)
  show "dir_ok demo_fs 2" using demo_tree(8)[of 2] by (simp add: dir_ok_def demo_facts(10) slots_ok_def)
  show "free_zero demo_fs" by (rule demo_tree(9))
  show "dir_room demo_fs 2"
    using demo_facts(8) by (simp add: dir_room_def dir_cost_def demo_facts(10) nblocks_def layout needed_small)
qed

theorem addDentry_removeDentry_witness:
  "\<exists>fs fs'. addDentry 2 \<lparr>Inum = 5, Name = ''x''\<rparr> demo_fs = (Ok (), fs) \<and> slot_names (dir_slots fs 2) ''x'' = Some 5 \<and>
     removeDentry 2 ''x'' fs = (Ok (), fs') \<and> slot_names (dir_slots fs' 2) ''x'' = None"
proof -
  have e: "entry_ok \<lparr>Inum = 5, Name = ''x''\<rparr>" by (simp add: entry_ok_def)
  have u: "uniq_names (dir_slots demo_fs 2)" "slot_names (dir_slots demo_fs 2) (Name \<lparr>Inum = 5, Name = ''x''\<rparr>) = None"
    by (simp_all add: demo_root(2) uniq_names_def slot_names_def lookup_def)
  show ?thesis
    using addDentry_removeDentry[OF demo_facts(1) demo_root(1) e demo_root(3) disjI2[OF demo_root(4)] u] u(2) by auto
qed

text \<open>
  A directory without a blank slot grows by a block of the disk, and \<open>Falloc\<close> does not clear it: whatever entries
  its bytes spell appear in the directory along with the new one.
\<close>

theorem addDentry_adopts_old_bytes:
  assumes "fs_inv fs" "dir_ok fs d" "entry_ok e" "full_dir (dir_slots fs d)"
    and "length (content fs d) < max_blocks * BLOCKSIZE" "dir_cost fs d \<le> card (free_bits (dbitmap fs))"
    and "\<forall>b \<in> free_bits (dbitmap fs). slots_ok (dblk fs b) \<and> \<not> full_dir (slots_of (dblk fs b))"
  shows "\<exists>fs' b k. addDentry d e fs = (Ok (), fs') \<and> b \<in> free_bits (dbitmap fs) \<and> slots_of (dblk fs b) ! k = None \<and>
    dir_slots fs' d = dir_slots fs d @ (slots_of (dblk fs b))[k := Some e]"
proof -
  have s: "needed_blocks (nblocks (length (content fs d))) (Suc (nblocks (length (content fs d)))) \<le> card (free_bits (dbitmap fs))"
    using assms(4,6) by (simp add: dir_cost_def)
  obtain fs' b k where "addDentry d e fs = (Ok (), fs')" "b \<in> free_bits (dbitmap fs)"
    "first_slot (\<lambda>s. s = None) (slots_of (dblk fs b)) = Some k"
    "dir_slots fs' d = dir_slots fs d @ (slots_of (dblk fs b))[k := Some e]"
    by (rule addDentry_full[OF assms(1-5) s assms(7)])
  then show ?thesis by (auto simp: first_slot_def find_upt_Some)
qed

text \<open>The demonstration disk with an old directory block everywhere.\<close>

definition old_entry :: dir_entry where
  "old_entry = \<lparr>Inum = 3, Name = ''old''\<rparr>"

definition old_block :: "u8 list" where
  "old_block = put_at 64 (enc_entry old_entry) zero_block"

definition old_disk :: "nat \<Rightarrow> filesystem" where
  "old_disk n = foldr (\<lambda>b. set_dblk b old_block) [0..<n] demo_fs"

lemma old_block: "length old_block = BLOCKSIZE" "slots_ok old_block" "slots_of old_block = (replicate 64 None)[1 := Some old_entry]"
proof -
  have e: "entry_ok old_entry" by (simp add: entry_ok_def old_entry_def)
  have z: "length zero_block = 4096" by (simp add: zero_block_def layout)
  have l: "1 < length zero_block div 64" "length zero_block mod 64 = 0" by (simp_all add: z layout)
  show "length old_block = BLOCKSIZE" using z by (simp add: old_block_def enc_entry_fields(1)[OF e] layout)
  show "slots_ok old_block"
    using slots_ok_put[OF l(1) enc_entry_fields(1)[OF e] zero_block_slots(2) ok_slot_enc[OF e]] by (simp add: old_block_def)
  show "slots_of old_block = (replicate 64 None)[1 := Some old_entry]"
    using slots_of_put[OF l(1) enc_entry_fields(1)[OF e]] by (simp add: old_block_def zero_block_slots(1) entry_of_enc[OF e])
qed

lemma fold_set_dblk:
  assumes "std_fs fs" "length x = BLOCKSIZE" "\<forall>b \<in> set bs. b < BLOCKS"
  shows "std_fs (foldr (\<lambda>b. set_dblk b x) bs fs) \<and> ibitmap (foldr (\<lambda>b. set_dblk b x) bs fs) = ibitmap fs \<and>
    dbitmap (foldr (\<lambda>b. set_dblk b x) bs fs) = dbitmap fs \<and>
    (\<forall>i < INODES. inode_bytes (foldr (\<lambda>b. set_dblk b x) bs fs) i = inode_bytes fs i) \<and>
    (\<forall>b \<in> set bs. dblk (foldr (\<lambda>b. set_dblk b x) bs fs) b = x)"
  using assms(3)
proof (induction bs)
  case (Cons b bs)
  then show ?case using assms(1,2) by (simp add: view)
qed (use assms in simp)

lemma old_disk:
  "fs_inv (old_disk BLOCKS)" "dir_ok (old_disk BLOCKS) 2" "dir_slots (old_disk BLOCKS) 2 = []" "content (old_disk BLOCKS) 2 = []"
  "dbitmap (old_disk BLOCKS) = dbitmap demo_fs" "\<forall>b < BLOCKS. dblk (old_disk BLOCKS) b = old_block"
proof -
  let ?fs = "old_disk BLOCKS"
  have v: "std_fs ?fs" "ibitmap ?fs = ibitmap demo_fs" "\<forall>i < INODES. disk_inode ?fs i = disk_inode demo_fs i"
    using fold_set_dblk[OF demo_facts(4) old_block(1), of "[0..<BLOCKS]"] by (simp_all add: old_disk_def disk_inode_def)
  show b: "dbitmap ?fs = dbitmap demo_fs" and "\<forall>b < BLOCKS. dblk ?fs b = old_block"
    using fold_set_dblk[OF demo_facts(4) old_block(1), of "[0..<BLOCKS]"] by (simp_all add: old_disk_def)
  have l: "live ?fs = live demo_fs" using v(2,3) by (simp add: live_def fun_eq_iff)
  have e: "inode_shape ino" "isize ino = 0" if r: "ino \<in> ran (live demo_fs)" for ino
  proof -
    obtain i where i: "live demo_fs i = Some ino" using r unfolding ran_def by blast
    then have lt: "unat i < 3" using demo_tree(8)[of i] by simp
    then have u: "unat i < INODES" by (simp add: layout)
    have d: "ino = disk_inode demo_fs (unat i)" using i by (auto simp: live_def split: if_splits)
    show "inode_shape ino" unfolding d by (rule disk_inode_shape[OF demo_facts(4) u])
    show "isize ino = 0"
      using fresh_fs_views(5)[OF u, of 0 0] lt unfolding d demo_fs_def by (simp add: root_inode_def zero_inode_def)
  qed
  note w = inode_wf_empty[OF e]
  have o: "owned f ino = []" if "live demo_fs i = Some ino" for f i ino
    by (rule w(2)) (use that in \<open>auto simp: ran_def\<close>)
  show "fs_inv ?fs"
    using demo_facts(2) v(1) b w unfolding fs_inv_def disk_consistent_def all_owned_def l by (auto simp: o ran_def)
  show "content ?fs 2 = []" using v(3) demo_facts(7,12) by (simp add: content_def file_bytes_def layout)
  then show "dir_slots ?fs 2 = []" "dir_ok ?fs 2"
    using demo_root(1) by (simp_all add: dir_slots_def slots_of_def dir_ok_def l slots_ok_def)
qed

theorem addDentry_adopts_old_bytes_witness:
  "\<exists>fs. addDentry 2 \<lparr>Inum = 5, Name = ''x''\<rparr> (old_disk BLOCKS) = (Ok (), fs) \<and> Some old_entry \<in> set (dir_slots fs 2)"
proof -
  let ?fs = "old_disk BLOCKS"
  have e: "entry_ok \<lparr>Inum = 5, Name = ''x''\<rparr>" by (simp add: entry_ok_def)
  have f: "full_dir (dir_slots ?fs 2)" by (simp add: old_disk(3) full_dir_def)
  have r: "length (content ?fs 2) < max_blocks * BLOCKSIZE" "dir_cost ?fs 2 \<le> card (free_bits (dbitmap ?fs))"
    using demo_facts(8) unfolding old_disk(3-5) dir_cost_def by (simp_all add: nblocks_def layout needed_small)
  have bm: "b \<in> free_bits (dbitmap ?fs) \<Longrightarrow> b < BLOCKS" for b
    using demo_facts(6) by (auto simp: old_disk(5) data_bm_def)
  have s: "slots_of (dblk ?fs b) = (replicate 64 None)[1 := Some old_entry]" "slots_ok (dblk ?fs b)"
    if "b \<in> free_bits (dbitmap ?fs)" for b using old_disk(6) bm[OF that] old_block by simp_all
  have n: "None \<in> set ((replicate 64 None)[1 := Some old_entry])"
    by (simp add: in_set_conv_nth) (rule exI[of _ 0], simp)
  have fr: "\<forall>b \<in> free_bits (dbitmap ?fs). slots_ok (dblk ?fs b) \<and> \<not> full_dir (slots_of (dblk ?fs b))"
    using s n by (simp add: full_dir_def)
  obtain fs b k where x: "addDentry 2 \<lparr>Inum = 5, Name = ''x''\<rparr> ?fs = (Ok (), fs)" "b \<in> free_bits (dbitmap ?fs)"
    "slots_of (dblk ?fs b) ! k = None" "dir_slots fs 2 = [] @ (slots_of (dblk ?fs b))[k := Some \<lparr>Inum = 5, Name = ''x''\<rparr>]"
    using addDentry_adopts_old_bytes[OF old_disk(1,2) e f r fr] unfolding old_disk(3) by blast
  have "k \<noteq> 1" using x(3) s(1)[OF x(2)] by auto
  then have "dir_slots fs 2 ! 1 = Some old_entry" "1 < length (dir_slots fs 2)" using x(4) s(1)[OF x(2)] by simp_all
  then show ?thesis using x(1) by (metis nth_mem)
qed

section \<open>Paths\<close>

text \<open>
  \<open>normalizePath\<close> gives the canonical absolute path: a slash and the components, none empty, \<open>.\<close>, \<open>..\<close> or with a
  slash in it. It is idempotent, whatever process asks, and a relative path is the one its
  elements lead to from the working directory, where \<open>..\<close> goes up and stops at the root.
\<close>

theorem normalizePath_canonical:
  "normalizePath proc target = abs_path (path_of proc target) \<and> (\<forall>c \<in> set (path_of proc target). comp_ok c) \<and>
   normalizePath other (normalizePath proc target) = normalizePath proc target \<and>
   (\<forall>ds. CWD proc = abs_path ds \<and> (\<forall>c \<in> set ds. comp_ok c) \<and> target \<noteq> [] \<and> hd target \<notin> {CHR ''/'', CHR ''~''} \<longrightarrow>
      path_of proc target = descend ds (split_on CHR ''/'' target))"
proof (intro conjI allI impI)
  show p: "normalizePath proc target = abs_path (path_of proc target)" "\<forall>c \<in> set (path_of proc target). comp_ok c"
    by (rule path_of)+
  show "normalizePath other (normalizePath proc target) = normalizePath proc target"
    unfolding p(1) by (rule normalize_abs_path[OF p(2)])
next
  fix ds assume d: "CWD proc = abs_path ds \<and> (\<forall>c \<in> set ds. comp_ok c) \<and> target \<noteq> [] \<and> hd target \<notin> {CHR ''/'', CHR ''~''}"
  have t: "target \<noteq> ''~''" "\<not> has_prefix target ''~/''" "\<not> has_prefix target ''/''"
    using d by (cases target; auto simp: has_prefix_def)+
  have "\<forall>c \<in> set (descend ds (split_on CHR ''/'' target)). comp_ok c"
    by (rule descend_ok) (use d in \<open>auto dest: split_parts\<close>)
  then show "path_of proc target = descend ds (split_on CHR ''/'' target)"
    using normalize_relative[of proc ds target] d t
    by (simp add: path_of_def path_components_def components_abs_path)
qed

theorem normalizePath_canonical_witness:
  "path_of root_proc ''etc/../bin/./ls'' = [''bin'', ''ls'']"
proof -
  have "CWD root_proc = abs_path []" by (simp add: root_proc_def abs_path_def)
  then have "path_of root_proc ''etc/../bin/./ls'' = descend [] (split_on CHR ''/'' ''etc/../bin/./ls'')"
    using normalizePath_canonical[of root_proc "''etc/../bin/./ls''" root_proc] by simp
  also have "\<dots> = [''bin'', ''ls'']" by code_simp
  finally show ?thesis .
qed

end
