(* ===== verification/TtyProps.thy ===== *)
theory TtyProps
  imports Tty
begin

text \<open>
  The contract of \<open>TTY.Read\<close>: over ASCII keys it is the line editor of \<open>line_editor\<close>, which it returns the line of
  at Enter; it returns as soon as Enter or a cancellation arrives; and what a character of more
  than one byte does to it.
\<close>

section \<open>Keys of the loop\<close>

text \<open>The read loop presses the keys of the editor one after the other.\<close>

lemma read_loop_press:
  "tty_editor.press_all keys t = Some t' \<Longrightarrow> read_loop_keys (map Key keys @ es) t = read_loop_keys es t'"
proof (induction keys arbitrary: t)
  case (Cons key keys)
  then obtain t1 where "tty_press key t = Some t1" "tty_editor.press_all keys t1 = Some t'"
    by (auto split: Option.bind_splits)
  note t1 = this
  have "read_key key t = (Ok None, t1)"
    using t1(1) by (auto simp: tty_press_def split: outcome.splits option.splits prod.splits)
  then show ?case using Cons.IH[OF t1(2)] by simp
qed simp

lemma read_loop_enter:
  assumes "line_ok t"
  obtains t' where "read_loop_keys (Key key_enter # es) t = (Ok (Some (fst (tty_line t) @ snd (tty_line t), Success)), (t', es))"
    "line_ok t'" "tty_line t' = ([], [])"
  using tty_enter_text[OF assms] that
  by (auto simp: tty_enter_def split: outcome.splits option.splits prod.splits if_splits)

definition awake :: "tty_event \<Rightarrow> bool" where
  "awake e \<longleftrightarrow> e = Cancelled \<or> e = Key key_enter"

text \<open>Up to the first event that ends it, the loop edits the line.\<close>

lemma read_loop_waits:
  assumes "line_ok t" "\<forall>key. Key key \<in> set es \<longrightarrow> ascii key"
  obtains keys t' where "map Key keys = takeWhile (\<lambda>e. \<not> awake e) es" "line_ok t'"
    "tty_line t' = fold edit_key keys (tty_line t)"
    "read_loop_keys es t = read_loop_keys (dropWhile (\<lambda>e. \<not> awake e) es) t'"
proof -
  let ?es = "takeWhile (\<lambda>e. \<not> awake e) es"
  define keys where "keys = map (\<lambda>e. case e of Key k \<Rightarrow> k | Cancelled \<Rightarrow> []) ?es"
  have es: "e \<in> set es" "\<not> awake e" if "e \<in> set ?es" for e using that by (auto dest: set_takeWhileD)
  have k: "map Key keys = ?es"
    unfolding keys_def map_map
  proof (rule map_idI)
    fix e assume "e \<in> set ?es"
    from es(2)[OF this] obtain key where "e = Key key" by (cases e) (simp_all add: awake_def)
    then show "(Key \<circ> (\<lambda>e. case e of Key k \<Rightarrow> k | Cancelled \<Rightarrow> [])) e = e" by simp
  qed
  have ty: "\<forall>key \<in> set keys. typeable key"
  proof
    fix key assume "key \<in> set keys"
    then have "Key key \<in> set (map Key keys)" by simp
    then have "Key key \<in> set ?es" unfolding k .
    note e = es[OF this]
    show "typeable key" using e(2) assms(2)[rule_format, OF e(1)] by (simp add: typeable_def awake_def)
  qed
  obtain t' where t': "tty_editor.press_all keys t = Some t'" "line_ok t'" "tty_line t' = fold edit_key keys (tty_line t)"
    by (rule tty_editor.press_all_edit[OF assms(1) ty])
  have "read_loop_keys (?es @ dropWhile (\<lambda>e. \<not> awake e) es) t = read_loop_keys (dropWhile (\<lambda>e. \<not> awake e) es) t'"
    using read_loop_press[OF t'(1)] k by metis
  with k t' show ?thesis by (intro that[of keys t']) simp_all
qed

section \<open>The line a read returns\<close>

text \<open>Keys and Enter: \<open>Read\<close> returns the text the editor ends with, and takes no event after them.\<close>

lemma keys_read:
  assumes "line_ok t" "\<forall>key \<in> set keys. typeable key" "pgid = ForegroundPGID t" "Session t \<noteq> None"
  shows "\<exists>t'. TTY_Read pgid (map Key keys @ Key key_enter # es) t =
      (Ok (Some (let (l, r) = fold edit_key keys (tty_line t) in l @ r, Success)), (t', es)) \<and>
    line_ok t' \<and> tty_line t' = ([], [])"
proof -
  obtain t1 where t1: "tty_editor.press_all keys t = Some t1" "line_ok t1" "tty_line t1 = fold edit_key keys (tty_line t)"
    by (rule tty_editor.press_all_edit[OF assms(1,2)])
  obtain t' where "read_loop_keys (Key key_enter # es) t1 =
      (Ok (Some (fst (tty_line t1) @ snd (tty_line t1), Success)), (t', es))" "line_ok t'" "tty_line t' = ([], [])"
    by (rule read_loop_enter[OF t1(2)])
  then show ?thesis using read_loop_press[OF t1(1)] assms(3,4) t1(3) by (simp add: TTY_Read_def case_prod_beta)
qed

text \<open>
  C10. Reading a line refines the editor: whatever ASCII keys arrive before Enter, \<open>Read\<close> returns the text the editor
  ends with, Enter is the only key it consumes after them, and the terminal starts the
  next line empty.
\<close>

theorem TTY_Read_edits_line:
  assumes "line_ok t" "\<forall>key \<in> set keys. typeable key" "pgid = ForegroundPGID t" "Session t \<noteq> None"
  shows "\<exists>t'. TTY_Read pgid (map Key keys @ Key key_enter # es) t =
      (Ok (Some (let (l, r) = fold edit_key keys (tty_line t) in l @ r, Success)), (t', es)) \<and>
    line_ok t' \<and> tty_line t' = ([], [])"
  by (rule keys_read[OF assms])

definition demo_tty :: tty where
  "demo_tty = (NewTTY ''tty-1'')\<lparr>ForegroundPGID := 7, Session := Some \<lparr>SessionID = ''session-1'', CurrentUser = ''root''\<rparr>\<rparr>"

lemma demo_tty_ok: "line_ok demo_tty" "ForegroundPGID demo_tty = 7" "Session demo_tty \<noteq> None" "tty_line demo_tty = ([], [])"
  by (simp_all add: demo_tty_def NewTTY_def line_ok_def tty_line_def)

theorem TTY_Read_edits_line_witness:
  "\<exists>t'. TTY_Read 7 [Key ''a'', Key ''c'', Key key_left, Key ''b'', Key key_enter, Key ''x''] demo_tty =
     (Ok (Some (''abc'', Success)), (t', [Key ''x''])) \<and> line_ok t'"
proof -
  have ty: "\<forall>key \<in> set [''a'', ''c'', key_left, ''b'']. typeable key" by (simp add: typeable_def key_defs)
  have e: "fold edit_key [''a'', ''c'', key_left, ''b''] (tty_line demo_tty) = (''ab'', ''c'')"
    by (simp add: demo_tty_ok(4) edit_key_def key_defs control_keys_def has_prefix_def key_text_def)
  show ?thesis
    using TTY_Read_edits_line[OF demo_tty_ok(1) ty, of 7 "[Key ''x'']"] demo_tty_ok(2,3) unfolding e by auto
qed

text \<open>
  C21. A read of a line ends exactly when an Enter or a cancellation is among the events: it then returns, whatever
  ASCII keys came before, and until then it waits. Nothing else wakes it and it never panics.
\<close>

theorem TTY_Read_returns:
  assumes "line_ok t" "\<forall>key. Key key \<in> set es \<longrightarrow> ascii key" "pgid = ForegroundPGID t" "Session t \<noteq> None"
  shows "\<exists>r. fst (TTY_Read pgid es t) = Ok r \<and> (r \<noteq> None \<longleftrightarrow> Cancelled \<in> set es \<or> Key key_enter \<in> set es)"
proof -
  obtain keys t' where k: "map Key keys = takeWhile (\<lambda>e. \<not> awake e) es" "line_ok t'"
    "read_loop_keys es t = read_loop_keys (dropWhile (\<lambda>e. \<not> awake e) es) t'"
    by (rule read_loop_waits[OF assms(1,2)])
  have rd: "TTY_Read pgid es t = read_loop_keys (dropWhile (\<lambda>e. \<not> awake e) es) t'"
    unfolding k(3)[symmetric] using assms(3,4) by (auto simp: TTY_Read_def)
  show ?thesis
  proof (cases "dropWhile (\<lambda>e. \<not> awake e) es")
    case Nil
    then have "\<forall>e \<in> set es. \<not> awake e" by simp
    then have "Cancelled \<notin> set es" "Key key_enter \<notin> set es" by (auto simp: awake_def)
    then show ?thesis using rd[unfolded Nil] by simp
  next
    case (Cons e es')
    have "awake e" using Cons hd_dropWhile[of "\<lambda>e. \<not> awake e" es] by simp
    moreover have "e \<in> set es" using Cons by (metis list.set_intros(1) set_dropWhileD)
    moreover obtain t'' where "read_loop_keys (Key key_enter # es') t' =
        (Ok (Some (fst (tty_line t') @ snd (tty_line t'), Success)), (t'', es'))"
      by (rule read_loop_enter[OF k(2)])
    ultimately show ?thesis using rd Cons by (auto simp: awake_def)
  qed
qed

theorem TTY_Read_returns_witness:
  "fst (TTY_Read 7 [Key ''a'', Key key_right] demo_tty) = Ok None \<and> fst (TTY_Read 7 [Key ''a'', Cancelled] demo_tty) \<noteq> Ok None"
proof -
  have p: "\<exists>r. fst (TTY_Read 7 es demo_tty) = Ok r \<and> (r \<noteq> None \<longleftrightarrow> Cancelled \<in> set es \<or> Key key_enter \<in> set es)"
    if "\<forall>key. Key key \<in> set es \<longrightarrow> ascii key" for es
    by (rule TTY_Read_returns[OF demo_tty_ok(1) that]) (use demo_tty_ok(2,3) in auto)
  have "\<exists>r. fst (TTY_Read 7 [Key ''a'', Key key_right] demo_tty) = Ok r \<and> r = None"
    using p[of "[Key ''a'', Key key_right]"] by (simp add: key_defs del: not_None_eq)
  moreover have "\<exists>r. fst (TTY_Read 7 [Key ''a'', Cancelled] demo_tty) = Ok r \<and> r \<noteq> None"
    using p[of "[Key ''a'', Cancelled]"] by simp
  ultimately show ?thesis by (auto simp: key_defs)
qed

section \<open>Characters of more than one byte\<close>

text \<open>
  The length of the buffer is taken in bytes and the cursor in runes, so at the end of a text with a character of
  more than one byte the right arrow still moves the cursor, past the text, and the next
  key panics in the slice \<open>runes[:index]\<close>.
\<close>

theorem TTY_Read_panics_past_end:
  assumes "Canonical t" "\<not> PasswdMode t" "CursorPosition t = int (length (runes (Buffer t)))"
    and "length (runes (Buffer t)) < length (Buffer t)" "pgid = ForegroundPGID t" "Session t \<noteq> None"
  shows "fst (TTY_Read pgid (Key key_right # Key ''a'' # es) t) = Panic"
proof -
  have p: "\<not> has_prefix key_right ctrl_arrow" "\<not> has_prefix ''a'' ctrl_arrow" "key_right \<noteq> '';''"
    "''a'' \<notin> {key_enter, key_delete, key_right, key_left, key_tab}"
    "''a'' \<notin> {key_up, key_down, alt_delete, alt_w, ctrl_u, ctrl_b, key_escape}"
    by (simp_all add: key_defs has_prefix_def)
  have q: "key_right \<noteq> key_delete" "key_right \<noteq> key_enter" by (simp_all add: key_defs)
  let ?u = "if Echo t then echo_key key_right t else t" and ?c = "CursorPosition t + 1"
  have u: "Canonical ?u" "\<not> PasswdMode ?u" "Buffer ?u = Buffer t" "CursorPosition ?u = CursorPosition t"
    using assms(1,2) q by simp_all
  have r: "read_key key_right t = (Ok None, ?u\<lparr>CursorPosition := ?c\<rparr>)"
    using p q u assms(3,4) by (simp add: read_key_def line_key_def Let_def)
  let ?v = "?u\<lparr>CursorPosition := ?c\<rparr>"
  let ?w = "if Echo ?v then echo_key ''a'' ?v else ?v"
  have w: "Canonical ?w" "Buffer ?w = Buffer t" "CursorPosition ?w = ?c"
    using u p(4) by simp_all
  have "insert_runes ''a'' ?w = (Panic, ?w)"
    using w(2,3) assms(3) p(4) by (simp add: insert_runes_def Let_def)
  then have "read_key ''a'' ?v = (Panic, ?w)"
    using p w by (simp add: read_key_def line_key_def Let_def)
  then show ?thesis using r assms(5,6) by (simp add: TTY_Read_def)
qed

theorem TTY_Read_panics_past_end_witness:
  "fst (TTY_Read 7 [Key key_right, Key ''a''] (demo_tty\<lparr>Buffer := [CHR 0xC3, CHR 0xA9], CursorPosition := 1\<rparr>)) = Panic"
proof -
  have r: "runes [CHR 0xC3, CHR 0xA9] = [0xE9]" by (simp add: runes_def rune_at_def cont_byte_def)
  show ?thesis
    by (rule TTY_Read_panics_past_end) (simp_all add: r demo_tty_def NewTTY_def)
qed

end
