(* ===== verification/Programs.thy ===== *)
theory Programs
  imports Procs
begin

text \<open>
  What the programs of \<open>src/programs\<close> share: how they call the kernel, write to the terminal and wait for it, the
  string functions they use, and the table of \<open>registry.go\<close>. A program is a function of its process, its arguments,
  the kernel and, if it reads, the events that arrive at its terminal. Its result is how far it got (\<open>progress\<close>), with the exit
  status if it has returned; of a program that does not read it is the exit status.
\<close>

section \<open>Calls\<close>

definition error_text :: "go_error \<Rightarrow> string" where
  "error_text e = (case e of
     Errno n \<Rightarrow> Errno_Error n
   | ErrEOF \<Rightarrow> ''EOF''
   | ErrUnexpectedEOF \<Rightarrow> ''unexpected EOF''
   | ErrShortWrite \<Rightarrow> ''short write''
   | ErrorText s \<Rightarrow> s)"

text \<open>A system call of a program that starts no others, so that what \<open>exec\<close> would run does not matter.\<close>

definition sys :: "u64 \<times> u64 \<Rightarrow> process \<Rightarrow> syscall_num \<Rightarrow> any_arg list \<Rightarrow> kernel \<Rightarrow> sys_result outcome \<times> kernel" where
  "sys now proc n args = sys_call (\<lambda>path pid params k. (Error, k)) now proc n args"

text \<open>The results of a call as the program asserts them: of another type they are zero.\<close>

definition res_bytes :: "sys_result \<Rightarrow> u8 list" where
  "res_bytes r = (case r of RBytes b \<Rightarrow> b | _ \<Rightarrow> [])"
definition res_infos :: "sys_result \<Rightarrow> file_info list" where
  "res_infos r = (case r of RInfos is \<Rightarrow> is | _ \<Rightarrow> [])"
definition zero_metadata :: file_metadata where
  "zero_metadata = \<lparr>Filepath = [], Owner = [], Setuid = False, OwnerMode = 0, OtherMode = 0\<rparr>"
definition res_meta :: "sys_result \<Rightarrow> file_metadata" where
  "res_meta r = (case r of RMeta m \<Rightarrow> m | _ \<Rightarrow> zero_metadata)"

text \<open>\<open>p.Kernel.Write(p.proc, 1, ...)\<close> and \<open>p.Kernel.Syscall(p.proc, SYS_IOCTL, 0, ...)\<close>, their results ignored.\<close>

definition out :: "process \<Rightarrow> string \<Rightarrow> kernel \<Rightarrow> kernel" where
  "out proc s k = snd (Kernel_Write proc 1 (string_bytes s) k)"

definition ctl :: "process \<Rightarrow> ioctl_req \<Rightarrow> any_arg \<Rightarrow> kernel \<Rightarrow> kernel" where
  "ctl proc req arg k = snd (sys (0, 0) proc SYS_IOCTL [AInt 0, AReq req, arg] k)"

section \<open>Waiting for the terminal\<close>

type_synonym waiting = "kernel \<times> tty_event list"

text \<open>
  How far a program came with the events there were: it ended with a value; it waits in a read for another event; it
  spins, calling a read again and again that returns an error at once, as every read loop does while its process is not in the
  foreground of its terminal; or the model cut it off, because the turns it was given ran out.
\<close>

datatype 'a progress = Ended 'a | Waiting | Spinning | Cut_off

fun bindP :: "'a progress outcome \<times> 's \<Rightarrow> ('a \<Rightarrow> 's \<Rightarrow> 'b progress outcome \<times> 's) \<Rightarrow> 'b progress outcome \<times> 's" where
  "bindP (Ok (Ended x), s) f = f x s"
| "bindP (Ok Waiting, s) f = (Ok Waiting, s)"
| "bindP (Ok Spinning, s) f = (Ok Spinning, s)"
| "bindP (Ok Cut_off, s) f = (Ok Cut_off, s)"
| "bindP (Err e, s) f = (Err e, s)"
| "bindP (Panic, s) f = (Panic, s)"

text \<open>
  The loop around \<open>p.Kernel.Read(p.proc, 0, ctx)\<close>, up to the read that makes the program act: a key or line, or \<open>None\<close>
  for the end of the context. A read with any other status changes nothing, so the loop reads again, with the same result.
\<close>

definition next_input :: "process \<Rightarrow> waiting \<Rightarrow> string option progress outcome \<times> waiting" where
  "next_input proc s = (case Kernel_Read proc 0 (snd s) (fst s) of
     (Ok (Some (v, status)), s) \<Rightarrow>
       (Ok (if status = Success then Ended (Some v) else if status = Exit then Ended None else Spinning), s)
   | (Ok None, s) \<Rightarrow> (Ok Waiting, s)
   | (Err e, s) \<Rightarrow> (Err e, s)
   | (Panic, s) \<Rightarrow> (Panic, s))"

text \<open>A line goes on to the rest of the program, the end of the context ends it.\<close>

definition read_line :: "process \<Rightarrow> int \<Rightarrow> waiting \<Rightarrow> (string \<Rightarrow> waiting \<Rightarrow> int progress outcome \<times> waiting) \<Rightarrow>
    int progress outcome \<times> waiting" where
  "read_line proc cancelled s f = bindP (next_input proc s) (\<lambda>input s. case input of
     None \<Rightarrow> (Ok (Ended cancelled), s)
   | Some v \<Rightarrow> f v s)"

section \<open>Strings\<close>

definition nl :: string where "nl = [CHR 0x0A]"
definition cr :: string where "cr = [CHR 0x0D]"
definition esc :: string where "esc = [CHR 0x1B]"

lemmas ctl_chars = nl_def cr_def esc_def

definition has_suffix :: "string \<Rightarrow> string \<Rightarrow> bool" where
  "has_suffix s suf \<longleftrightarrow> length suf \<le> length s \<and> drop (length s - length suf) s = suf"

text \<open>\<open>unicode.IsSpace\<close>, and the runes of a string, each with the bytes it is made of.\<close>

definition is_space :: "nat \<Rightarrow> bool" where
  "is_space r \<longleftrightarrow> r \<in> {0x09, 0x0A, 0x0B, 0x0C, 0x0D, 0x20, 0x85, 0xA0, 0x1680, 0x2028, 0x2029, 0x202F, 0x205F, 0x3000} \<or>
     0x2000 \<le> r \<and> r \<le> 0x200A"

fun chunks :: "nat list \<Rightarrow> (nat \<times> nat list) list" where
  "chunks [] = []"
| "chunks (a # bs) = (case rune_at a bs of (r, w) \<Rightarrow> (r, a # take w bs) # chunks (drop w bs))"

lemma runes_chunks: "decode_runes bs = map fst (chunks bs)"
  by (induction bs rule: chunks.induct) (auto split: prod.splits)

lemma chunks_bytes: "concat (map snd (chunks bs)) = bs"
  by (induction bs rule: chunks.induct) (auto split: prod.splits)

text \<open>\<open>strings.Fields\<close>: the runs of bytes between white space; and \<open>strings.TrimSpace(s) == ""\<close>.\<close>

fun group_fields :: "nat list \<Rightarrow> (nat \<times> nat list) list \<Rightarrow> nat list list" where
  "group_fields cur [] = (if cur = [] then [] else [cur])"
| "group_fields cur ((r, bs) # cs) =
     (if is_space r then (if cur = [] then [] else [cur]) @ group_fields [] cs else group_fields (cur @ bs) cs)"

definition str_fields :: "string \<Rightarrow> string list" where
  "str_fields s = map (map char_of) (group_fields [] (chunks (map of_char s)))"

definition blank_text :: "string \<Rightarrow> bool" where
  "blank_text s \<longleftrightarrow> (\<forall>r \<in> set (runes s). is_space r)"

section \<open>The program table\<close>

definition registered :: "string list" where
  "registered = [''/bin/sh'', ''/bin/ls'', ''/bin/clear'', ''/bin/cat'', ''/bin/mkdir'', ''/bin/touch'', ''/bin/chmod'',
     ''/bin/rm'', ''/bin/v'', ''/bin/adduser'', ''/bin/login'']"

definition Register :: "kernel \<Rightarrow> kernel" where
  "Register k = fold RegisterProgram registered k"

lemma programs_fold: "programs (fold RegisterProgram ps k) = programs k \<union> set ps"
  by (induction ps arbitrary: k) (auto simp: RegisterProgram_def)

lemma programs_Register: "programs (Register k) = programs k \<union> set registered"
  by (simp add: Register_def programs_fold)

end
