(* ===== verification/Shell.thy ===== *)
theory Shell
  imports Programs
begin

text \<open>
  \<open>programs/shell\<close>: the shell, which keeps the terminal in raw mode and edits its line itself, with a history
  (\<open>canonicalLogic\<close>), parses the line (\<open>parse\<close>) and runs the command. Its process is an argument that a \<open>cd\<close>
  changes. A foreground program runs until it returns and may take events from the terminal: it is the
  argument \<open>child\<close>.
\<close>

section \<open>The line and the history\<close>

record shell =
  sh_buffer :: string
  sh_cursor :: int
  history :: "string list"
  posInHistory :: int

definition new_shell :: shell where
  "new_shell = \<lparr>sh_buffer = [], sh_cursor = 0, history = [], posInHistory = -1\<rparr>"

type_synonym shell_state = "shell \<times> kernel"

text \<open>The echo of a key; a delete moves the cursor already here.\<close>

definition sh_echo :: "process \<Rightarrow> string \<Rightarrow> shell_state \<Rightarrow> shell_state" where
  "sh_echo proc key s = (case s of (sh, k) \<Rightarrow>
     let (ansi, sh) =
        (if key = key_delete then
           if sh_cursor sh > 0 then ([CHR 0x08, CHR '' '', CHR 0x08], sh\<lparr>sh_cursor := sh_cursor sh - 1\<rparr>)
           else ([], sh)
         else if key = key_tab then (''    '', sh)
         else if key = key_up \<or> key = key_down \<or> key = ctrl_u then ([], sh)
         else if key = key_right then (if sh_cursor sh = int (length (sh_buffer sh)) then [] else key, sh)
         else if key = key_left then (if sh_cursor sh = 0 then [] else key, sh)
         else (key, sh))
     in (sh, out proc ansi k))"

text \<open>The runes right of the cursor again, and the cursor back.\<close>

definition sh_redraw :: "process \<Rightarrow> nat list \<Rightarrow> shell_state \<Rightarrow> shell_state" where
  "sh_redraw proc rs s = (case s of (sh, k) \<Rightarrow>
     let right = string_of_runes (drop (nat (sh_cursor sh)) rs)
     in if right \<noteq> [] then (sh, out proc (right @ '' '' @ esc @ ''['' @ itoa (int (length right + 1)) @ ''D'') k) else (sh, k))"

definition sh_delete :: "process \<Rightarrow> int \<Rightarrow> shell_state \<Rightarrow> unit outcome \<times> shell_state" where
  "sh_delete proc pre s = (case s of (sh, k) \<Rightarrow>
     let rs = runes (sh_buffer sh)
     in if pre > 0 \<and> sh_cursor sh < int (length rs) then
          if sh_cursor sh < 0 then (Panic, s)
          else let c = nat (sh_cursor sh); rs = take c rs @ drop (c + 1) rs
               in (Ok (), sh_redraw proc rs (sh\<lparr>sh_buffer := string_of_runes rs\<rparr>, k))
        else (Ok (), s))"

definition sh_insert :: "process \<Rightarrow> string \<Rightarrow> shell_state \<Rightarrow> unit outcome \<times> shell_state" where
  "sh_insert proc key s = (case s of (sh, k) \<Rightarrow>
     let dat = (if key = key_tab then ''    '' else key); r = runes dat; rs = runes (sh_buffer sh)
     in if sh_cursor sh < 0 \<or> int (length rs) < sh_cursor sh then (Panic, s)
        else let i = nat (sh_cursor sh); rs = take i rs @ r @ drop i rs
             in (Ok (), sh_redraw proc rs
                  (sh\<lparr>sh_buffer := string_of_runes rs, sh_cursor := sh_cursor sh + int (length r)\<rparr>, k)))"

definition sh_enter :: "shell \<Rightarrow> string \<times> shell" where
  "sh_enter sh = (sh_buffer sh,
     sh\<lparr>history := (if sh_buffer sh \<noteq> [] \<and> (history sh = [] \<or> last (history sh) \<noteq> sh_buffer sh)
                    then history sh @ [sh_buffer sh] else history sh),
        posInHistory := -1, sh_cursor := 0, sh_buffer := []\<rparr>)"

text \<open>Showing an entry of the history: it becomes the buffer, with the cursor after its last byte.\<close>

definition prompt :: "process \<Rightarrow> string" where
  "prompt proc = CWD proc @ ''$ ''"

definition show_line :: "process \<Rightarrow> string \<Rightarrow> shell_state \<Rightarrow> shell_state" where
  "show_line proc line s = (case s of (sh, k) \<Rightarrow>
     (sh\<lparr>sh_buffer := line, sh_cursor := int (length line)\<rparr>, out proc (cr @ esc @ ''[K'' @ prompt proc @ line) k))"

definition show_entry :: "process \<Rightarrow> shell_state \<Rightarrow> unit outcome \<times> shell_state" where
  "show_entry proc s = (case s of (sh, k) \<Rightarrow>
     if posInHistory sh < 0 \<or> int (length (history sh)) \<le> posInHistory sh then (Panic, s)
     else (Ok (), show_line proc (history sh ! nat (posInHistory sh)) s))"

text \<open>The edited line goes back to its place in the history before another is shown.\<close>

definition keep_line :: "shell \<Rightarrow> shell" where
  "keep_line sh =
     (if 0 \<le> posInHistory sh \<and> posInHistory sh < int (length (history sh))
      then sh\<lparr>history := (history sh)[nat (posInHistory sh) := sh_buffer sh]\<rparr> else sh)"

definition sh_up :: "process \<Rightarrow> shell_state \<Rightarrow> unit outcome \<times> shell_state" where
  "sh_up proc s = (case s of (sh, k) \<Rightarrow>
     if history sh = [] then (Ok (), s)
     else if posInHistory sh = -1 then
       let sh = sh\<lparr>history := history sh @ [sh_buffer sh]\<rparr>; sh = sh\<lparr>posInHistory := int (length (history sh)) - 2\<rparr>
       in if posInHistory sh < 0 then (Ok (), (sh\<lparr>posInHistory := -1\<rparr>, k)) else show_entry proc (sh, k)
     else let sh = keep_line sh
          in show_entry proc (if posInHistory sh > 0 then sh\<lparr>posInHistory := posInHistory sh - 1\<rparr> else sh, k))"

definition sh_down :: "process \<Rightarrow> shell_state \<Rightarrow> unit outcome \<times> shell_state" where
  "sh_down proc s = (case s of (sh, k) \<Rightarrow>
     if history sh = [] \<or> posInHistory sh = -1 then (Ok (), s)
     else let sh = keep_line sh
          in if posInHistory sh = int (length (history sh)) - 2 then
               (Ok (), show_line proc (last (history sh)) (sh\<lparr>posInHistory := -1\<rparr>, k))
             else show_entry proc
               (if posInHistory sh < int (length (history sh)) - 1 then sh\<lparr>posInHistory := posInHistory sh + 1\<rparr> else sh, k))"

text \<open>The line, when the key was Enter, and the empty string otherwise.\<close>

definition canonicalLogic :: "process \<Rightarrow> string \<Rightarrow> shell_state \<Rightarrow> string outcome \<times> shell_state" where
  "canonicalLogic proc key s =
     (if has_prefix key ctrl_arrow \<or> key = '';'' then (Ok [], s)
      else let pre = sh_cursor (fst s); (sh, k) = sh_echo proc key s in
        if key = key_enter then (case sh_enter sh of (line, sh) \<Rightarrow> (Ok line, (sh, k)))
        else if key = key_delete then bindS (sh_delete proc pre (sh, k)) (\<lambda>_ s. (Ok [], s))
        else if key = key_right then
          (Ok [], (if sh_cursor sh \<noteq> int (length (sh_buffer sh)) then sh\<lparr>sh_cursor := sh_cursor sh + 1\<rparr> else sh, k))
        else if key = key_left then
          (Ok [], (if sh_cursor sh \<noteq> 0 then sh\<lparr>sh_cursor := sh_cursor sh - 1\<rparr> else sh, k))
        else if key = key_up then bindS (sh_up proc (sh, k)) (\<lambda>_ s. (Ok [], s))
        else if key = key_down then bindS (sh_down proc (sh, k)) (\<lambda>_ s. (Ok [], s))
        else if key \<in> {alt_delete, alt_w, ctrl_u, ctrl_b, key_escape} then (Ok [], (sh, k))
        else bindS (sh_insert proc key (sh, k)) (\<lambda>_ s. (Ok [], s)))"

definition Shell_HandleSignal :: "process \<Rightarrow> signal \<Rightarrow> shell_state \<Rightarrow> shell_state" where
  "Shell_HandleSignal proc sig s = (case s of (sh, k) \<Rightarrow>
     if sig = SIGINT then
       (sh\<lparr>sh_buffer := [], sh_cursor := 0, posInHistory := -1\<rparr>, out proc (nl @ cr @ prompt proc) k)
     else s)"

section \<open>Commands\<close>

definition parse :: "string \<Rightarrow> string list \<times> string list" where
  "parse line =
     (let parts = str_fields line;
          commands = filter (\<lambda>p. \<not> has_prefix p ''-'') parts;
          dashes = filter (\<lambda>p. has_prefix p ''-'') parts
      in (if commands = [] then [[]] else commands, dashes))"

type_synonym child = "string \<Rightarrow> int \<Rightarrow> string list \<Rightarrow> waiting \<Rightarrow> int progress outcome \<times> waiting"

text \<open>
  \<open>exec\<close> in the foreground of a program that may take events: the error it reports, if any, once the program has
  returned.
\<close>

definition exec_wait :: "child \<Rightarrow> process \<Rightarrow> string \<Rightarrow> string list \<Rightarrow> waiting \<Rightarrow> go_error option progress outcome \<times> waiting" where
  "exec_wait child parent bin args s = (case s of (k, es) \<Rightarrow>
     (case exec_start parent bin \<lparr>Background = False, opt_PGID = 0\<rparr> k of
        (Err e, k) \<Rightarrow> (Ok (Ended (Some e)), (k, es))
      | (Panic, k) \<Rightarrow> (Panic, (k, es))
      | (Ok pid, k) \<Rightarrow> bindP (child bin pid args (k, es)) (\<lambda>code (k, es).
          (Ok (Ended (if code \<noteq> Success then Some (ErrorText (bin @ '': exited with status '' @ itoa code)) else None)),
           (cleanupProcess pid k, es)))))"

definition execFg :: "child \<Rightarrow> process \<Rightarrow> string list \<Rightarrow> string \<Rightarrow> waiting \<Rightarrow> unit progress outcome \<times> waiting" where
  "execFg child proc args bin s = (case s of (k, es) \<Rightarrow>
     bindP (exec_wait child proc bin args (ctl proc TIOCRAW (ABool False) k, es)) (\<lambda>err (k, es).
       let k = (case err of None \<Rightarrow> k | Some e \<Rightarrow> out proc (nl @ error_text e @ nl) k)
       in (Ok (Ended ()), (ctl proc TIOCRAW (ABool True) (ctl proc TIOCSPGRP (AInt (PGID proc)) k), es))))"

text \<open>The programs the shell knows, each by the name of its file in \<open>/bin\<close>.\<close>

definition known :: "string list" where
  "known = [''ls'', ''clear'', ''cat'', ''adduser'', ''mkdir'', ''touch'', ''chmod'', ''rm'', ''v'']"

text \<open>What a command line leaves: the shell ends, or goes on as the process with a prefix to its prompt.\<close>

datatype after = Leave int | Goes_on process string

definition run_cd :: "process \<Rightarrow> string list \<Rightarrow> string list \<Rightarrow> kernel \<Rightarrow> process outcome \<times> kernel" where
  "run_cd proc value dashes k =
     (if dashes \<noteq> [] then (Ok proc, out proc (nl @ ''No flags implemented'' @ nl) k)
      else if length value \<noteq> 2 then (Ok proc, out proc (nl @ ''Usage: cd <path>'' @ nl) k)
      else let dir = value ! 1; dir = (if has_prefix dir ''/'' then dir else path_join (CWD proc) dir); dir = path_clean dir
           in case Syscall (\<lambda>path pid params k. (Error, k)) (0, 0) proc SYS_CHDIR [AString dir] k of
                (Ok r, proc, k) \<Rightarrow> (Ok proc, out proc nl k)
              | (Err e, proc, k) \<Rightarrow> (Ok proc, out proc (nl @ error_text e @ nl) k)
              | (Panic, proc, k) \<Rightarrow> (Panic, k))"

definition run_command :: "child \<Rightarrow> process \<Rightarrow> string \<Rightarrow> waiting \<Rightarrow> after progress outcome \<times> waiting" where
  "run_command child proc line s = (case s of (k, es) \<Rightarrow> case parse line of (value, dashes) \<Rightarrow>
     let name = hd value in
     if name = ''exit'' then (Ok (Ended (Leave Success)), (ctl proc TIOCRAW (ABool False) k, es))
     else if name = ''pwd'' then
       (Ok (Ended (Goes_on proc [])), (if length value \<noteq> 1 then out proc (''Usage: pwd'' @ nl) k else out proc (nl @ CWD proc @ nl) k, es))
     else if name = ''cd'' then (case run_cd proc value dashes k of
         (Ok proc, k) \<Rightarrow> (Ok (Ended (Goes_on proc [])), (k, es))
       | (Err e, k) \<Rightarrow> (Err e, (k, es))
       | (Panic, k) \<Rightarrow> (Panic, (k, es)))
     else if name \<in> set known then bindP (execFg child proc (value @ dashes) (''/bin/'' @ name) s) (\<lambda>_ (k, es).
       (Ok (Ended (Goes_on proc [])), (if name = ''v'' then ctl proc TIOCRAW (ABool True) k else k, es)))
     else if name = [] then (Ok (Ended (Goes_on proc nl)), s)
     else (Ok (Ended (Goes_on proc [])), (out proc (nl @ ''no such command!'' @ nl) k, es)))"

section \<open>The loop\<close>

text \<open>
  The first argument bounds the turns of the loop: each takes a key from the terminal, so as many turns as
  there are events, and one, are enough when no child adds events.
\<close>

fun shell_loop :: "nat \<Rightarrow> child \<Rightarrow> process \<Rightarrow> shell \<Rightarrow> waiting \<Rightarrow> int progress outcome \<times> waiting" where
  "shell_loop 0 child proc sh s = (Ok Cut_off, s)"
| "shell_loop (Suc n) child proc sh s = bindP (next_input proc s) (\<lambda>input (k, es). case input of
     None \<Rightarrow> (Ok (Ended Error), (ctl proc TIOCRAW (ABool False) k, es))
   | Some key \<Rightarrow> (case canonicalLogic proc key (sh, k) of
         (Ok line, (sh, k)) \<Rightarrow>
           if line = [] then shell_loop n child proc sh (k, es)
           else bindP (run_command child proc line (k, es)) (\<lambda>a (k, es). case a of
               Leave status \<Rightarrow> (Ok (Ended status), (k, es))
             | Goes_on proc prefix \<Rightarrow>
                 shell_loop n child proc sh (out proc (prefix @ cr @ prompt proc) k, es))
       | (Err e, (sh, k)) \<Rightarrow> (Err e, (k, es))
       | (Panic, (sh, k)) \<Rightarrow> (Panic, (k, es))))"

definition Shell_Run :: "child \<Rightarrow> process \<Rightarrow> string list \<Rightarrow> waiting \<Rightarrow> int progress outcome \<times> waiting" where
  "Shell_Run child proc params s = (case s of (k, es) \<Rightarrow>
     shell_loop (Suc (length es)) child proc new_shell
       (ctl proc TIOCRAW (ABool True) (out proc (nl @ cr @ prompt proc) k), es))"

end
