(* ===== verification/ShellSpec.thy ===== *)
theory ShellSpec
  imports Shell TtyProps
begin

text \<open>
  The line of the shell: its keys refine the same line editor as the terminal's (\<open>line_editor\<close>), and its history.
\<close>

section \<open>The shell's line as an editor\<close>

definition sh_ok :: "shell_state \<Rightarrow> bool" where
  "sh_ok s \<longleftrightarrow> ascii (sh_buffer (fst s)) \<and> 0 \<le> sh_cursor (fst s) \<and> sh_cursor (fst s) \<le> int (length (sh_buffer (fst s)))"

definition sh_line :: "shell_state \<Rightarrow> line" where
  "sh_line s = (take (nat (sh_cursor (fst s))) (sh_buffer (fst s)), drop (nat (sh_cursor (fst s))) (sh_buffer (fst s)))"

definition sh_press :: "process \<Rightarrow> string \<Rightarrow> shell_state \<Rightarrow> shell_state option" where
  "sh_press proc key s = (case canonicalLogic proc key s of (Ok line, s') \<Rightarrow> if line = [] then Some s' else None | _ \<Rightarrow> None)"

definition sh_return :: "process \<Rightarrow> shell_state \<Rightarrow> (string \<times> shell_state) option" where
  "sh_return proc s = (case canonicalLogic proc key_enter s of (Ok line, s') \<Rightarrow> Some (line, s') | _ \<Rightarrow> None)"

definition sh_typeable :: "string \<Rightarrow> bool" where
  "sh_typeable key \<longleftrightarrow> ascii key \<and> key \<noteq> key_enter \<and> key \<noteq> key_up \<and> key \<noteq> key_down"

text \<open>The echo leaves the buffer and the history; a delete moves the cursor.\<close>

lemma sh_echo_fst:
  "fst (sh_echo proc key s) =
     (if key = key_delete \<and> sh_cursor (fst s) > 0 then (fst s)\<lparr>sh_cursor := sh_cursor (fst s) - 1\<rparr> else fst s)"
  by (simp add: sh_echo_def Let_def key_defs split: prod.split)

lemma sh_redraw_fst [simp]: "fst (sh_redraw proc rs s) = fst s"
  by (simp add: sh_redraw_def Let_def split: prod.split)

text \<open>A state of the shell after a key, by what it makes of the buffer and the cursor.\<close>

lemma sh_after:
  assumes "canonicalLogic proc key s = (Ok [], s')" "sh_cursor (fst s') = int n" "sh_buffer (fst s') = b" "n \<le> length b" "ascii b"
  shows "\<exists>s'. sh_press proc key s = Some s' \<and> sh_ok s' \<and> sh_line s' = (take n b, drop n b)"
  using assms by (simp add: sh_press_def sh_ok_def sh_line_def)

lemma sh_press_delete:
  assumes ok: "sh_ok s" and key: "sh_typeable key" and del: "key = key_delete"
  shows "\<exists>s'. sh_press proc key s = Some s' \<and> sh_ok s' \<and> sh_line s' = edit_key key (sh_line s)"
proof -
  define b where "b = sh_buffer (fst s)"
  obtain n where n: "sh_cursor (fst s) = int n" "n \<le> length b" "ascii b"
    using ok by (auto simp: sh_ok_def b_def intro: that[of "nat (sh_cursor (fst s))"])
  have ln: "sh_line s = (take n b, drop n b)" using n(1) by (simp add: sh_line_def b_def)
  have ne: "key \<noteq> key_enter" "key \<noteq> key_up" "key \<noteq> key_down" "ascii key" using key by (simp_all add: sh_typeable_def)
  obtain sh k where e: "sh_echo proc key s = (sh, k)" by fastforce
  have sh: "sh = (if key = key_delete \<and> 0 < n then (fst s)\<lparr>sh_cursor := int n - 1\<rparr> else fst s)"
    using sh_echo_fst[of proc key s] n(1) by (simp add: e)
  have rn: "runes b = map of_char b" "length (runes b) = length b" using runes_ascii[OF n(3)] by simp_all
  have np: "\<not> has_prefix key ctrl_arrow" "key \<noteq> '';''" using del by (simp_all add: key_defs has_prefix_def)
  have run: "canonicalLogic proc key s = bindS (sh_delete proc (int n) (sh, k)) (\<lambda>_ s. (Ok [], s))"
    using np del ne n(1) e by (simp add: canonicalLogic_def)
  show ?thesis
  proof (cases n)
    case 0
    then have "canonicalLogic proc key s = (Ok [], (sh, k))" using run by (simp add: sh_delete_def)
    from sh_after[OF this, of 0 b] show ?thesis using 0 sh n ln del by (simp add: b_def edit_key_def)
  next
    case (Suc m)
    have "string_of_runes (take m (runes b) @ drop (Suc m) (runes b)) = take m b @ drop (Suc m) b"
      by (rule runes_splice(2)[OF n(3,3)])
    then have "canonicalLogic proc key s = (Ok [], sh_redraw proc (take m (runes b) @ drop (Suc m) (runes b))
        (sh\<lparr>sh_buffer := take m b @ drop (Suc m) b\<rparr>, k))"
      using run Suc sh del n(2) rn(2) by (simp add: sh_delete_def Let_def b_def)
    from sh_after[OF this, of m "take m b @ drop (Suc m) b"] show ?thesis
      using Suc sh n ln del by (simp add: edit_key_def butlast_take)
  qed
qed

lemma sh_press_insert:
  assumes ok: "sh_ok s" and key: "sh_typeable key"
    and ins: "key \<notin> control_keys" "\<not> has_prefix key ctrl_arrow" "key \<noteq> key_delete" "key \<noteq> key_right" "key \<noteq> key_left"
  shows "\<exists>s'. sh_press proc key s = Some s' \<and> sh_ok s' \<and> sh_line s' = edit_key key (sh_line s)"
proof -
  define b where "b = sh_buffer (fst s)"
  obtain n where n: "sh_cursor (fst s) = int n" "n \<le> length b" "ascii b"
    using ok by (auto simp: sh_ok_def b_def intro: that[of "nat (sh_cursor (fst s))"])
  have ln: "sh_line s = (take n b, drop n b)" using n(1) by (simp add: sh_line_def b_def)
  have ne: "key \<noteq> key_enter" "key \<noteq> key_up" "key \<noteq> key_down" "ascii key" using key by (simp_all add: sh_typeable_def)
  obtain sh k where e: "sh_echo proc key s = (sh, k)" by fastforce
  have sh: "sh = (if key = key_delete \<and> 0 < n then (fst s)\<lparr>sh_cursor := int n - 1\<rparr> else fst s)"
    using sh_echo_fst[of proc key s] n(1) by (simp add: e)
  have rn: "runes b = map of_char b" "length (runes b) = length b" using runes_ascii[OF n(3)] by simp_all
  have np: "key \<noteq> '';''" "key \<notin> {alt_delete, alt_w, ctrl_u, ctrl_b, key_escape}" using ins(1) by (auto simp: control_keys_def)
  define t where "t = key_text key"
  have at: "ascii t" "length (runes t) = length t" using ne(4) runes_ascii[of t] by (simp_all add: t_def key_text_def)
  have "string_of_runes (take n (runes b) @ runes t @ drop n (runes b)) = take n b @ t @ drop n b"
    by (rule runes_splice(1)[OF n(3) at(1)])
  then have run: "canonicalLogic proc key s = (Ok [], sh_redraw proc (take n (runes b) @ runes t @ drop n (runes b))
        (sh\<lparr>sh_buffer := take n b @ t @ drop n b, sh_cursor := int n + int (length t)\<rparr>, k))"
    using np ins ne sh e n rn(2) at(2) by (simp add: canonicalLogic_def sh_insert_def Let_def b_def flip: key_text_def t_def)
  from sh_after[OF run, of "n + length t" "take n b @ t @ drop n b"] show ?thesis
    using n ln ins at(1) by (simp add: edit_key_def t_def)
qed

lemma sh_press_edit:
  assumes ok: "sh_ok s" and key: "sh_typeable key"
  shows "\<exists>s'. sh_press proc key s = Some s' \<and> sh_ok s' \<and> sh_line s' = edit_key key (sh_line s)"
proof -
  define b where "b = sh_buffer (fst s)"
  obtain n where n: "sh_cursor (fst s) = int n" "n \<le> length b" "ascii b"
    using ok by (auto simp: sh_ok_def b_def intro: that[of "nat (sh_cursor (fst s))"])
  have ln: "sh_line s = (take n b, drop n b)" using n(1) by (simp add: sh_line_def b_def)
  have ne: "key \<noteq> key_enter" "key \<noteq> key_up" "key \<noteq> key_down" "ascii key" using key by (simp_all add: sh_typeable_def)
  obtain sh k where e: "sh_echo proc key s = (sh, k)" by fastforce
  have sh: "sh = (if key = key_delete \<and> 0 < n then (fst s)\<lparr>sh_cursor := int n - 1\<rparr> else fst s)"
    using sh_echo_fst[of proc key s] n(1) by (simp add: e)
  consider (skip) "has_prefix key ctrl_arrow \<or> key = '';''" | (del) "key = key_delete" | (right) "key = key_right" | (left) "key = key_left"
    | (control) "key \<in> control_keys" "\<not> has_prefix key ctrl_arrow" "key \<noteq> '';''"
    | (ins) "key \<notin> control_keys" "\<not> has_prefix key ctrl_arrow" "key \<noteq> key_delete" "key \<noteq> key_right" "key \<noteq> key_left"
    by blast
  then show ?thesis
  proof cases
    case skip
    then have "key \<noteq> key_delete" "key \<noteq> key_right" "key \<noteq> key_left" by (auto simp: key_defs has_prefix_def)
    then have "edit_key key (sh_line s) = sh_line s" using skip ln by (auto simp: edit_key_def control_keys_def)
    then show ?thesis using skip ok by (auto simp: sh_press_def canonicalLogic_def)
  next
    case del
    then show ?thesis by (rule sh_press_delete[OF ok key])
  next
    case right
    have np: "\<not> has_prefix key ctrl_arrow" "key \<noteq> '';''" "key \<noteq> key_delete" using right by (simp_all add: key_defs has_prefix_def)
    have run: "canonicalLogic proc key s = (Ok [], (if n < length b then (fst s)\<lparr>sh_cursor := int n + 1\<rparr> else fst s, k))"
      using np right ne n sh e by (simp add: canonicalLogic_def b_def)
    from sh_after[OF run, of "if n < length b then Suc n else n" b] show ?thesis
      using n ln right np by (auto simp: edit_key_def b_def take_Suc_conv_app_nth hd_drop_conv_nth drop_Suc tl_drop)
  next
    case left
    have np: "\<not> has_prefix key ctrl_arrow" "key \<noteq> '';''" "key \<noteq> key_delete" "key \<noteq> key_right"
      using left by (simp_all add: key_defs has_prefix_def)
    have run: "canonicalLogic proc key s = (Ok [], (if 0 < n then (fst s)\<lparr>sh_cursor := int n - 1\<rparr> else fst s, k))"
      using np left ne n sh e by (simp add: canonicalLogic_def)
    from sh_after[OF run, of "n - 1" b] show ?thesis
      using n ln left np by (cases n) (auto simp: edit_key_def b_def take_Suc_conv_app_nth Cons_nth_drop_Suc)
  next
    case control
    have np: "key \<noteq> key_delete" "key \<noteq> key_right" "key \<noteq> key_left" "key \<in> {alt_delete, alt_w, ctrl_u, ctrl_b, key_escape}"
      using control ne by (auto simp: control_keys_def key_defs)
    have run: "canonicalLogic proc key s = (Ok [], (fst s, k))"
      using np control ne sh e by (simp add: canonicalLogic_def)
    from sh_after[OF run, of n b] show ?thesis using n ln np control by (simp add: edit_key_def b_def)
  next
    case ins
    then show ?thesis by (rule sh_press_insert[OF ok key])
  qed
qed

lemma shell_enter: 
  "canonicalLogic proc key_enter s = (Ok (sh_buffer (fst s)), (snd (sh_enter (fst s)), snd (sh_echo proc key_enter s)))"
proof -
  have "\<not> has_prefix key_enter ctrl_arrow" "key_enter \<noteq> '';''" "key_enter \<noteq> key_delete" by (simp_all add: key_defs has_prefix_def)
  moreover obtain sh k where "sh_echo proc key_enter s = (sh, k)" by fastforce
  ultimately show ?thesis
    using sh_echo_fst[of proc key_enter s] by (simp add: canonicalLogic_def Let_def sh_enter_def)
qed

lemma sh_return_text:
  assumes "sh_ok s"
  shows "\<exists>s'. sh_return proc s = Some (fst (sh_line s) @ snd (sh_line s), s') \<and> sh_ok s' \<and> sh_line s' = ([], [])"
  by (simp add: sh_return_def shell_enter sh_line_def sh_ok_def sh_enter_def)

text \<open>Several keys, with the line of the last.\<close>

fun sh_keys :: "process \<Rightarrow> string list \<Rightarrow> shell_state \<Rightarrow> string outcome \<times> shell_state" where
  "sh_keys proc [] s = (Ok [], s)"
| "sh_keys proc [key] s = canonicalLogic proc key s"
| "sh_keys proc (key # keys) s = bindS (canonicalLogic proc key s) (\<lambda>_ s. sh_keys proc keys s)"

lemma sh_keys_Cons: "keys \<noteq> [] \<Longrightarrow> sh_keys proc (key # keys) s = bindS (canonicalLogic proc key s) (\<lambda>_ s. sh_keys proc keys s)"
  by (cases keys) simp_all

lemma sh_keys_append: "ls \<noteq> [] \<Longrightarrow> sh_keys proc (ks @ ls) s = bindS (sh_keys proc ks s) (\<lambda>_ s. sh_keys proc ls s)"
proof (induction ks arbitrary: s)
  case (Cons k ks)
  show ?case
  proof (cases ks)
    case Nil
    then show ?thesis using Cons.prems by (simp add: sh_keys_Cons)
  next
    case (Cons j js)
    then show ?thesis
      using Cons.IH Cons.prems by (cases "canonicalLogic proc k s"; cases "fst (canonicalLogic proc k s)") (simp_all add: sh_keys_Cons)
  qed
qed simp

text \<open>Keys other than Enter and the arrows up and down leave the history.\<close>

lemma sh_press_history:
  assumes "sh_press proc key s = Some s'" "sh_typeable key"
  shows "history (fst s') = history (fst s)" "posInHistory (fst s') = posInHistory (fst s)"
proof -
  obtain sh k where e: "sh_echo proc key s = (sh, k)" by fastforce
  have sh: "history sh = history (fst s)" "posInHistory sh = posInHistory (fst s)"
    using sh_echo_fst[of proc key s] by (simp_all add: e)
  have run: "canonicalLogic proc key s = (Ok [], s')" using assms(1) by (auto simp: sh_press_def split: outcome.splits prod.splits if_splits)
  have del: "sh_delete proc pre (sh, k) = (r, s1) \<Longrightarrow> history (fst s1) = history sh \<and> posInHistory (fst s1) = posInHistory sh"
    for pre r s1 using sh_redraw_fst by (auto simp: sh_delete_def Let_def split: if_splits)
  have ins: "sh_insert proc key (sh, k) = (r, s1) \<Longrightarrow> history (fst s1) = history sh \<and> posInHistory (fst s1) = posInHistory sh"
    for r s1 using sh_redraw_fst by (auto simp: sh_insert_def Let_def split: if_splits)
  have "history (fst s') = history (fst s) \<and> posInHistory (fst s') = posInHistory (fst s)"
    using run sh assms(2) del ins unfolding canonicalLogic_def Let_def e sh_typeable_def
    by (auto simp: bindS_Ok_iff split: if_splits)
  then show "history (fst s') = history (fst s)" "posInHistory (fst s') = posInHistory (fst s)" by blast+
qed

lemma sh_return_history: "sh_return proc s = Some (line, s') \<Longrightarrow> history (fst s') = recorded line (history (fst s))"
  by (auto simp: sh_return_def shell_enter sh_enter_def recorded_def Let_def split: if_splits)

interpretation shell_editor: recording_editor sh_ok sh_line "sh_press proc" "sh_return proc" sh_typeable "\<lambda>s. history (fst s)" for proc
  by unfold_locales (rule sh_press_edit sh_return_text sh_press_history sh_return_history; assumption)+

lemma press_all_keys:
  assumes "shell_editor.press_all proc keys s = Some s'" "\<forall>key \<in> set keys. sh_typeable key"
  shows "sh_keys proc (keys @ [key_enter]) s = canonicalLogic proc key_enter s'"
  using assms
proof (induction keys arbitrary: s)
  case (Cons key keys)
  then obtain s1 where s1: "sh_press proc key s = Some s1" "shell_editor.press_all proc keys s1 = Some s'"
    by (auto split: Option.bind_splits)
  have "canonicalLogic proc key s = (Ok [], s1)" using s1(1) by (auto simp: sh_press_def split: outcome.splits prod.splits if_splits)
  then show ?case using Cons.IH[OF s1(2)] Cons.prems(2) by (simp add: sh_keys_Cons)
qed simp

end
