(* ===== verification/ProgSpec.thy ===== *)
theory ProgSpec
  imports Programs ReadSpec
begin

text \<open>
  What the calls of \<open>Programs\<close> do to the terminal of a process, and what they leave: output and \<open>ioctl\<close> change the
  terminal only, calls on files the disk and the cache only. A read that returns a key or a line takes an event.
\<close>

section \<open>Terminals only\<close>

definition term_only :: "kernel \<Rightarrow> kernel \<Rightarrow> bool" where
  "term_only k k' \<longleftrightarrow> kfs k' = kfs k \<and> inodeCache k' = inodeCache k \<and> programs k' = programs k \<and> pids k' = pids k \<and>
     freePIDs k' = freePIDs k \<and> procs k' = procs k \<and> openFiles k' = openFiles k \<and> sessions k' = sessions k \<and>
     length (ttys k') = length (ttys k)"

lemma term_only_refl [simp]: "term_only k k"
  by (simp add: term_only_def)

lemma term_only_trans: "term_only a b \<Longrightarrow> term_only b c \<Longrightarrow> term_only a c"
  by (simp add: term_only_def)

lemma desc_same: "openFiles k' = openFiles k \<Longrightarrow> desc_of proc fd k' = desc_of proc fd k"
  by (simp add: desc_of_def)

lemma stdin_same:
  assumes "openFiles k' = openFiles k"
  shows "stdin_tty proc k' = stdin_tty proc k"
  by (simp only: stdin_tty_def desc_same[OF assms])

lemma term_only_inv: "term_only k k' \<Longrightarrow> kernel_inv k' = kernel_inv k"
  by (simp add: term_only_def kernel_inv_def cache_ok_def)

lemma term_only_set_tty [simp]: "term_only k (set_tty t tt k)" "term_only k (k\<lparr>signals := s\<rparr>)"
  by (simp_all add: term_only_def set_tty_def)

lemma term_only_out: "term_only k (out proc s k)"
  by (simp add: out_def Kernel_Write_def split: option.split prod.split)

lemma term_only_Kernel_Read: "Kernel_Read proc fd es k = (r, (k', es')) \<Longrightarrow> term_only k k'"
  by (auto simp: Kernel_Read_def split: option.splits prod.splits if_splits)

lemma term_only_ioctl: "ioctl proc fd req arg k = (r, k') \<Longrightarrow> term_only k k'"
  by (auto simp: ioctl_def term_only_def set_tty_def split: option.splits prod.splits if_splits)

lemma ctl_ioctl: "ctl proc req arg k = snd (ioctl proc 0 req arg k)"
proof -
  obtain r k' where i: "ioctl proc 0 req arg k = (r, k')" by fastforce
  show ?thesis by (cases r) (simp_all add: ctl_def sys_def sys_call_def arg_at_def as_defs result_of_def i)
qed

lemma term_only_ctl: "term_only k (ctl proc req arg k)"
  using term_only_ioctl[of proc 0 req arg k] by (cases "ioctl proc 0 req arg k") (simp add: ctl_ioctl)

section \<open>The terminal of a process\<close>

definition term_of :: "process \<Rightarrow> kernel \<Rightarrow> tty option" where
  "term_of proc k = (case stdin_tty proc k of
     Some t \<Rightarrow> if t < length (ttys k) then Some (ttys k ! t) else None
   | None \<Rightarrow> None)"

lemma term_of_Some:
  "term_of proc k = Some tt \<Longrightarrow> \<exists>d. desc_of proc 0 k = Some d \<and> fd_Type d = FDTTY \<and> fd_TTY d < length (ttys k) \<and>
    ttys k ! fd_TTY d = tt \<and> stdin_tty proc k = Some (fd_TTY d)"
  by (auto simp: term_of_def stdin_tty_def split: option.splits if_splits)

lemma term_of_set_tty:
  assumes "term_of proc k = Some tt" "stdin_tty proc k = Some t"
  shows "term_of proc (set_tty t tt' k) = Some tt'"
  using assms stdin_same[of "set_tty t tt' k" k proc] by (simp add: term_of_def set_tty_def split: if_splits)

lemma term_of_signals: "term_of proc (k\<lparr>signals := s\<rparr>) = term_of proc k"
  using stdin_same[of "k\<lparr>signals := s\<rparr>" k proc] by (simp add: term_of_def split: option.split)

lemma ctl_term:
  assumes "term_of proc k = Some tt" "tty_ioctl req arg (pgids k) tt = (r, (tt', sigs))"
  shows "term_of proc (ctl proc req arg k) = Some tt'"
proof -
  obtain d where d: "desc_of proc 0 k = Some d" "fd_Type d = FDTTY" "fd_TTY d < length (ttys k)"
    "ttys k ! fd_TTY d = tt" "stdin_tty proc k = Some (fd_TTY d)"
    using term_of_Some[OF assms(1)] by blast
  have "term_of proc (set_tty (fd_TTY d) tt' k) = Some tt'" by (rule term_of_set_tty(1)[OF assms(1) d(5)])
  then show ?thesis using d assms(2) by (simp add: ctl_ioctl ioctl_def term_of_signals)
qed

text \<open>Output changes no terminal but for what was sent.\<close>

definition modes :: "tty \<Rightarrow> bool \<times> bool \<times> bool \<times> int \<times> session option \<times> string \<times> int" where
  "modes t = (Canonical t, Echo t, PasswdMode t, ForegroundPGID t, Session t, Buffer t, CursorPosition t)"

lemma out_cases: "out proc s k = k \<or> (\<exists>i. out proc s k = set_tty i (writeToClient s Success (ttys k ! i)) k)"
  by (auto simp: out_def Kernel_Write_def TTY_Write_def split: option.split)

lemma modes_written [simp]: "modes (writeToClient s st t) = modes t"
  by (simp add: modes_def writeToClient_def)

lemma out_modes: "map_option modes (term_of p (out proc s k)) = map_option modes (term_of p k)"
proof -
  have m: "modes ((ttys (set_tty i (writeToClient s st (ttys k ! i)) k)) ! t) = modes (ttys k ! t)" if "t < length (ttys k)" for i t st
    using that by (cases "i = t") (simp_all add: set_tty_def)
  have t: "stdin_tty p (set_tty i tt k) = stdin_tty p k" "length (ttys (set_tty i tt k)) = length (ttys k)" for i tt
    by (rule stdin_same) (simp_all add: set_tty_def)
  show ?thesis
    using out_cases[of proc s k] by (auto simp: term_of_def t m split: option.split)
qed

lemma term_of_same:
  assumes "openFiles k' = openFiles k" "ttys k' = ttys k"
  shows "term_of proc k' = term_of proc k"
  by (simp only: term_of_def stdin_same[OF assms(1)] assms(2))

lemma Kernel_Read_term:
  assumes "term_of proc k = Some tt" "TTY_Read (PGID proc) es tt = (r, (tt', es'))"
  shows "\<exists>k'. Kernel_Read proc 0 es k = (r, (k', es')) \<and> term_of proc k' = Some tt' \<and> term_only k k'"
  using assms term_of_Some[OF assms(1)] term_of_set_tty[OF assms(1)] by (auto simp: Kernel_Read_def)

section \<open>A read takes an event\<close>

lemma read_loop_takes:
  "read_loop_keys es t = (Ok (Some v), (t', es')) \<Longrightarrow> length es' < length es"
  by (induction es t rule: read_loop_keys.induct) (force split: prod.splits outcome.splits option.splits)+

lemma Kernel_Read_takes:
  assumes "Kernel_Read proc fd es k = (Ok (Some (v, status)), (k', es'))" "status \<noteq> Error"
  shows "length es' < length es"
  using assms read_loop_takes
  by (fastforce simp: Kernel_Read_def TTY_Read_def split: option.splits prod.splits if_splits)

text \<open>What a read says, and when it still waits.\<close>

lemma line_key_status: "line_key pre key t = (Ok (Some (v, st)), t') \<Longrightarrow> st = Success"
  by (auto simp: line_key_def bindS_Ok_iff split: if_splits)

lemma read_key_status: "read_key key t = (Ok (Some (v, st)), t') \<Longrightarrow> st = Success"
  by (auto simp: read_key_def Let_def dest: line_key_status split: if_splits)

lemma read_loop_status: "read_loop_keys es t = (Ok (Some (v, st)), (t', es')) \<Longrightarrow> st = Success \<or> st = Exit"
  by (induction es t rule: read_loop_keys.induct)
    (auto split: prod.splits outcome.splits option.splits dest: read_key_status)

lemma waiting_took_all: "read_loop_keys es t = (Ok None, (t', es')) \<Longrightarrow> es' = []"
  by (induction es t rule: read_loop_keys.induct) (auto split: prod.splits outcome.splits option.splits)

text \<open>The process is in the foreground of the terminal it has as its input.\<close>

definition in_foreground :: "process \<Rightarrow> kernel \<Rightarrow> bool" where
  "in_foreground proc k \<longleftrightarrow> (case desc_of proc 0 k of
     Some d \<Rightarrow> fd_Type d = FDTTY \<and> ForegroundPGID (ttys k ! fd_TTY d) = PGID proc | None \<Rightarrow> False)"

text \<open>
  The next input of a program: it takes events; the program waits only when all are taken; it spins exactly if it is not in the foreground, and then
  nothing has changed, so that every further read is the same.
\<close>

lemma next_input_cases:
  assumes "next_input proc (k, es) = (r, (k', es'))"
  shows "term_only k k'" "r \<noteq> Ok Cut_off" "r = Ok Waiting \<Longrightarrow> es' = []" "r = Ok (Ended x) \<Longrightarrow> length es' < length es"
    "length es' \<le> length es" "r = Ok Spinning \<longleftrightarrow> \<not> in_foreground proc k" "r = Ok Spinning \<Longrightarrow> k' = k \<and> es' = es"
proof -
  have e: "Error \<noteq> Success" "Error \<noteq> Exit" "Exit \<noteq> Success" by (simp_all add: status_defs)
  have le: "read_loop_keys es t = (x, (t', es'')) \<Longrightarrow> length es'' \<le> length es" for es t x t' es''
    by (induction es t rule: read_loop_keys.induct) (force split: prod.splits outcome.splits option.splits)+
  obtain q k1 es1 where rd: "Kernel_Read proc 0 es k = (q, (k1, es1))" by (metis prod.exhaust)
  show "term_only k k'"
    using term_only_Kernel_Read[OF rd] assms rd by (auto simp: next_input_def split: outcome.splits option.splits prod.splits)
  show "r \<noteq> Ok Cut_off" using assms by (auto simp: next_input_def split: outcome.splits option.splits prod.splits if_splits)
  show "r = Ok Waiting \<Longrightarrow> es' = []"
    using assms by (auto simp: next_input_def Kernel_Read_def TTY_Read_def split: outcome.splits option.splits prod.splits if_splits dest: waiting_took_all)
  show "r = Ok (Ended x) \<Longrightarrow> length es' < length es"
    using assms Kernel_Read_takes[of proc 0 es k] e
    by (fastforce simp: next_input_def split: outcome.splits option.splits prod.splits if_splits)
  show "length es' \<le> length es"
    using assms le by (fastforce simp: next_input_def Kernel_Read_def TTY_Read_def split: outcome.splits option.splits prod.splits if_splits)
  show "r = Ok Spinning \<longleftrightarrow> \<not> in_foreground proc k"
    using assms e by (auto simp: next_input_def Kernel_Read_def TTY_Read_def in_foreground_def
        split: outcome.splits option.splits prod.splits if_splits dest: read_loop_status)
  show "r = Ok Spinning \<Longrightarrow> k' = k \<and> es' = es"
    using assms e by (auto simp: next_input_def Kernel_Read_def TTY_Read_def set_tty_def
        split: outcome.splits option.splits prod.splits if_splits dest: read_loop_status)
qed

text \<open>That a program takes events from the terminal and adds none, is not cut off, and waits only when all are taken. It has no other result.\<close>

definition ends_or_waits :: "'a progress outcome \<times> waiting \<Rightarrow> tty_event list \<Rightarrow> bool" where
  "ends_or_waits m es \<longleftrightarrow> length (snd (snd m)) \<le> length es \<and> fst m \<noteq> Ok Cut_off \<and> (\<forall>e. fst m \<noteq> Err e) \<and>
     (fst m = Ok Waiting \<longrightarrow> snd (snd m) = [])"

lemma ends_or_waits_simps [simp]:
  "ends_or_waits (Ok (Ended x), (k, es')) es \<longleftrightarrow> length es' \<le> length es"
  "ends_or_waits (Ok Spinning, (k, es')) es \<longleftrightarrow> length es' \<le> length es"
  "ends_or_waits (Ok Waiting, (k, es')) es \<longleftrightarrow> es' = []"
  "ends_or_waits (Panic, (k, es')) es \<longleftrightarrow> length es' \<le> length es"
  "\<not> ends_or_waits (Err e, s) es"
  "\<not> ends_or_waits (Ok Cut_off, s) es"
  by (auto simp: ends_or_waits_def)

lemma ends_or_waits_mono: "ends_or_waits m es \<Longrightarrow> length es \<le> length es' \<Longrightarrow> ends_or_waits m es'"
  by (auto simp: ends_or_waits_def)

lemma bindP_ends:
  assumes "ends_or_waits m es" "\<And>x k es'. m = (Ok (Ended x), (k, es')) \<Longrightarrow> ends_or_waits (f x (k, es')) es'"
  shows "ends_or_waits (bindP m f) es"
proof -
  obtain r k es' where m: "m = (r, (k, es'))" by (metis prod.exhaust)
  show ?thesis
  proof (cases "\<exists>x. r = Ok (Ended x)")
    case True
    then obtain x where r: "r = Ok (Ended x)" by blast
    have "length es' \<le> length es" using assms(1) by (simp add: m r)
    then show ?thesis using assms(2)[of x k es'] ends_or_waits_mono by (simp add: m r)
  next
    case False
    then show ?thesis using assms(1) unfolding m by (cases r; cases "case r of Ok p \<Rightarrow> p") auto
  qed
qed

lemma line_key_no_Err: "fst (line_key pre key t) \<noteq> Err e"
  by (auto simp: line_key_def delete_rune_def insert_runes_def Let_def)

lemma read_key_no_Err: "read_key key t \<noteq> (Err e, t')"
  using line_key_no_Err by (auto simp: read_key_def Let_def dest: arg_cong[of _ _ fst])

lemma read_loop_no_Err: "read_loop_keys es t \<noteq> (Err e, s)"
  by (induction es t rule: read_loop_keys.induct) (auto simp: read_key_no_Err split: prod.splits outcome.splits option.splits)

lemma next_input_ends: "ends_or_waits (next_input proc (k, es)) es"
proof -
  have "fst (next_input proc (k, es)) \<noteq> Err e" for e
    by (auto simp: next_input_def Kernel_Read_def TTY_Read_def read_loop_no_Err split: outcome.splits option.splits prod.splits if_splits)
  then show ?thesis
    using next_input_cases(2,3,5)[of proc k es] by (cases "next_input proc (k, es)") (auto simp: ends_or_waits_def)
qed

section \<open>What a read depends on\<close>

text \<open>Two terminals with the same modes and text read the same, whatever was written to them and however large they are.\<close>

lemma modes_same:
  "modes t = modes t' \<longleftrightarrow> (\<exists>i w h s. t' = t\<lparr>tty_id := i, Width := w, Height := h, sent := s\<rparr>)"
  by (cases t, cases t') (auto simp: modes_def)

lemma echo_key_modes: "modes t = modes t' \<Longrightarrow> modes (echo_key key t) = modes (echo_key key t')"
  by (auto simp: modes_def echo_key_def writeToClient_def Let_def)

lemma redraw_modes [simp]: "modes (redraw rs t) = modes t"
  by (simp add: redraw_def Let_def)

lemma modes_update:
  assumes "modes t = modes t'"
  shows "modes (t\<lparr>Buffer := b\<rparr>) = modes (t'\<lparr>Buffer := b\<rparr>)" "modes (t\<lparr>CursorPosition := c\<rparr>) = modes (t'\<lparr>CursorPosition := c\<rparr>)"
    "modes (t\<lparr>Buffer := b, CursorPosition := c\<rparr>) = modes (t'\<lparr>Buffer := b, CursorPosition := c\<rparr>)"
    "Buffer t = Buffer t'" "CursorPosition t = CursorPosition t'" "PasswdMode t = PasswdMode t'"
    "Echo t = Echo t'" "Canonical t = Canonical t'"
  using assms by (simp_all add: modes_def)

lemma delete_rune_modes:
  assumes "modes t = modes t'"
  shows "fst (delete_rune pre t) = fst (delete_rune pre t') \<and> modes (snd (delete_rune pre t)) = modes (snd (delete_rune pre t'))"
  using assms modes_update[OF assms] by (simp add: delete_rune_def Let_def)

lemma insert_runes_modes:
  assumes "modes t = modes t'"
  shows "fst (insert_runes key t) = fst (insert_runes key t') \<and> modes (snd (insert_runes key t)) = modes (snd (insert_runes key t'))"
  using assms modes_update[OF assms] by (simp add: insert_runes_def Let_def)

lemma bindS_modes:
  assumes "fst m = fst m'" "modes (snd m) = modes (snd m')"
  shows "fst (bindS m (\<lambda>_ t. (Ok None, t))) = fst (bindS m' (\<lambda>_ t. (Ok None, t))) \<and>
    modes (snd (bindS m (\<lambda>_ t. (Ok None, t)))) = modes (snd (bindS m' (\<lambda>_ t. (Ok None, t))))"
  using assms by (cases m; cases m'; cases "fst m") auto

lemma line_key_modes:
  assumes "modes t = modes t'"
  shows "fst (line_key pre key t) = fst (line_key pre key t') \<and> modes (snd (line_key pre key t)) = modes (snd (line_key pre key t'))"
proof -
  define same :: "(string \<times> int) option outcome \<times> tty \<Rightarrow> (string \<times> int) option outcome \<times> tty \<Rightarrow> bool" where
    "same a b \<longleftrightarrow> fst a = fst b \<and> modes (snd a) = modes (snd b)" for a b
  have d: "same (bindS (delete_rune pre t) (\<lambda>_ t. (Ok None, t))) (bindS (delete_rune pre t') (\<lambda>_ t. (Ok None, t)))"
    unfolding same_def by (rule bindS_modes) (use delete_rune_modes[OF assms] in auto)
  have i: "same (bindS (insert_runes key t) (\<lambda>_ t. (Ok None, t))) (bindS (insert_runes key t') (\<lambda>_ t. (Ok None, t)))"
    unfolding same_def by (rule bindS_modes) (use insert_runes_modes[OF assms] in auto)
  have n: "same (r, u) (r, u') \<longleftrightarrow> modes u = modes u'" for r u u' by (simp add: same_def)
  have "modes (t\<lparr>CursorPosition := 0, Buffer := []\<rparr>) = modes (t'\<lparr>CursorPosition := 0, Buffer := []\<rparr>)"
    using assms by (simp add: modes_def)
  then have "same (line_key pre key t) (line_key pre key t')"
    using d i n assms modes_update[OF assms] unfolding line_key_def by simp
  then show ?thesis by (simp add: same_def)
qed

lemma read_key_modes:
  assumes "modes t = modes t'"
  shows "fst (read_key key t) = fst (read_key key t') \<and> modes (snd (read_key key t)) = modes (snd (read_key key t'))"
proof -
  define u u' where "u = (if Echo t then echo_key key t else t)" and "u' = (if Echo t' then echo_key key t' else t')"
  have e: "modes u = modes u'" using echo_key_modes[OF assms] assms modes_update(7)[OF assms] by (simp add: u_def u'_def)
  show ?thesis
    using line_key_modes[OF e, of "CursorPosition t" key] e modes_update(8)[OF e] assms modes_update(5)[OF assms]
    by (simp add: read_key_def Let_def flip: u_def u'_def)
qed

lemma read_loop_modes:
  "modes t = modes t' \<Longrightarrow> read_loop_keys es t = (r, (t1, es1)) \<Longrightarrow> \<exists>t1'. read_loop_keys es t' = (r, (t1', es1)) \<and> modes t1 = modes t1'"
proof (induction es arbitrary: t t')
  case (Cons e es)
  show ?case
  proof (cases e)
    case (Key key)
    obtain q t2 where q: "read_key key t = (q, t2)" by fastforce
    obtain t2' where q': "read_key key t' = (q, t2')" "modes t2 = modes t2'"
      using read_key_modes[OF Cons.prems(1), of key] q by (metis fst_conv prod.collapse snd_conv)
    show ?thesis
    proof (cases "q = Ok None")
      case True
      then show ?thesis using Cons.IH[OF q'(2)] Cons.prems(2) q q' Key by simp
    next
      case False
      then show ?thesis using Cons.prems(2) q q' Key by (auto split: outcome.splits option.splits)
    qed
  qed (use Cons.prems in auto)
qed auto

lemma TTY_Read_modes:
  assumes "modes t = modes t'" "TTY_Read g es t = (r, (t1, es1))"
  shows "\<exists>t1'. TTY_Read g es t' = (r, (t1', es1)) \<and> modes t1 = modes t1'"
proof -
  have "ForegroundPGID t' = ForegroundPGID t" "Session t' = Session t" using assms(1) by (simp_all add: modes_def)
  then show ?thesis using assms read_loop_modes[OF assms(1), of es] by (auto simp: TTY_Read_def split: if_splits)
qed

section \<open>Calls on files\<close>

lemma sys_read:
  assumes "kernel_inv k"
  obtains k' where "sys now proc SYS_READ [AString p] k = (bindO (tree_read (tree (kfs k)) (EUID proc) (path_of proc p)) (\<lambda>b. Ok (RBytes b)), k')"
    "kernel_inv k'" "cache_only k k'"
proof -
  obtain k' where k': "readFile proc p k = (tree_read (tree (kfs k)) (EUID proc) (path_of proc p), k')" "kernel_inv k'" "cache_only k k'"
    using readFile_spec[OF assms, of proc p] spec_read_tree[OF assms] by metis
  have "sys now proc SYS_READ [AString p] k = (bindO (tree_read (tree (kfs k)) (EUID proc) (path_of proc p)) (\<lambda>b. Ok (RBytes b)), k')"
    using k'(1) by (cases "tree_read (tree (kfs k)) (EUID proc) (path_of proc p)")
      (simp_all add: sys_def sys_call_def on_path_def arg_at_def as_defs result_of_def)
  then show ?thesis using that k'(2,3) by blast
qed

lemma sys_write:
  assumes "writeFile now proc p dat k = (Ok (), k')"
  shows "sys now proc SYS_WRITE [AString p, ABytes dat] k = (Ok RNil, k')"
  using assms by (simp add: sys_def sys_call_def on_path_def arg_at_def as_defs result_of_def)

section \<open>Words\<close>

text \<open>A word of a command line: ASCII, not empty, no white space.\<close>

definition word_ok :: "string \<Rightarrow> bool" where
  "word_ok w \<longleftrightarrow> w \<noteq> [] \<and> ascii w \<and> (\<forall>c \<in> set w. \<not> is_space (of_char c))"

lemma chunks_ascii: "ascii s \<Longrightarrow> chunks (map of_char s) = map (\<lambda>c. (of_char c, [of_char c])) s"
  by (induction s) (simp_all add: rune_at_def)

lemma group_word:
  "\<forall>c \<in> set w. \<not> is_space (of_char c) \<Longrightarrow>
   group_fields cur (map (\<lambda>c. (of_char c, [of_char c])) w @ cs) = group_fields (cur @ map of_char w) cs"
  by (induction w arbitrary: cur) simp_all

lemma fields_words:
  assumes "\<forall>w \<in> set ws. word_ok w"
  shows "str_fields (join_with CHR '' '' ws) = ws"
proof -
  let ?c = "\<lambda>c. (of_char c :: nat, [of_char c :: nat])"
  have sp: "is_space (of_char CHR '' '')" by (simp add: is_space_def)
  have g: "group_fields [] (map ?c (join_with CHR '' '' ws)) = map (map of_char) ws" if "\<forall>w \<in> set ws. word_ok w" for ws
    using that
  proof (induction "CHR '' ''" ws rule: join_with.induct)
    case (2 w)
    then show ?case using group_word[of w "[]" "[]"] by (auto simp: word_ok_def)
  next
    case (3 w v ws)
    then show ?case using group_word[of w "[]" "?c CHR '' '' # map ?c (join_with CHR '' '' (v # ws))"] sp
      by (auto simp: word_ok_def)
  qed simp
  have "ascii (join_with CHR '' '' ws)" using assms
    by (induction "CHR '' ''" ws rule: join_with.induct) (auto simp: word_ok_def)
  then show ?thesis using g[OF assms] by (simp add: str_fields_def chunks_ascii o_def)
qed

end
