(* ===== verification/ProcSpec.thy ===== *)
theory ProcSpec
  imports AccessProps Boot
begin

text \<open>
  The processes, terminals and sessions of a running computer: the steps the kernel makes
  (\<open>kstep\<close>), the states a computer reaches by them after it was made (\<open>running\<close>), and what holds in all of
  them (\<open>procs_ok\<close>). Processes run at the same time and a program may call the kernel again while
  \<open>exec\<close> waits for it, so \<open>exec\<close> is two steps, the start and the end, with the steps of others
  between them.
\<close>

section \<open>Numbers in decimal\<close>

definition digits_value :: "string \<Rightarrow> nat" where
  "digits_value s = foldl (\<lambda>a c. a * 10 + (of_char c - 48)) 0 s"

lemma digits_value_dec: "digits_value (dec_digits n) = n"
proof (induction n rule: dec_digits.induct)
  case (1 n)
  show ?case
  proof (cases "n < 10")
    case True
    then show ?thesis by (simp add: dec_digits.simps[of n] digits_value_def)
  next
    case False
    have "digits_value (dec_digits n) = digits_value (dec_digits (n div 10)) * 10 + n mod 10"
      using False by (simp add: dec_digits.simps[of n] digits_value_def)
    then show ?thesis using 1[OF False] by simp
  qed
qed

lemma dec_digits_inject: "dec_digits m = dec_digits n \<longleftrightarrow> m = n"
  by (metis digits_value_dec)

lemma itoa_inject: "0 \<le> i \<Longrightarrow> 0 \<le> j \<Longrightarrow> itoa i = itoa j \<longleftrightarrow> i = j"
  by (simp add: itoa_def dec_digits_inject eq_nat_nat_iff)

section \<open>The steps of a kernel\<close>

inductive kstep :: "kernel \<Rightarrow> kernel \<Rightarrow> bool" where
  step_file: "n \<notin> {SYS_IOCTL, SYS_EXEC} \<Longrightarrow> Syscall run now proc n args k = (r, proc', k') \<Longrightarrow> kstep k k'"
| step_ioctl: "ioctl proc fd req arg k = (res, k') \<Longrightarrow> kstep k k'"
| step_start: "exec_start proc path opts k = (started, k') \<Longrightarrow> kstep k k'"
| step_exit: "kstep k (cleanupProcess pid k)"
| step_read: "Kernel_Read proc fd es k = (line, (k', es')) \<Longrightarrow> kstep k k'"
| step_write: "Kernel_Write proc fd dat k = (written, k') \<Longrightarrow> kstep k k'"
| step_session: "Kernel_NewSession now proc user k = (sess, k') \<Longrightarrow> kstep k k'"
| step_client: "open_client logged_in k = (c, k') \<Longrightarrow> kstep k k'"
| step_register: "kstep k (RegisterProgram path k)"

inductive_cases kstep_elim: "kstep k k'"

text \<open>The states of a computer that was made and has made any number of steps since.\<close>

inductive running :: "kernel \<Rightarrow> bool" where
  made: "NewComputer clock name ip img ctime mtime = (r, k) \<Longrightarrow> running k"
| moved: "running k \<Longrightarrow> kstep k k' \<Longrightarrow> running k'"

text \<open>A program that only makes steps: so does \<open>exec\<close> of it.\<close>

lemma exec_steps:
  assumes "\<And>bin pid args k. kstep\<^sup>*\<^sup>* k (snd (run bin pid args k))"
  shows "kstep\<^sup>*\<^sup>* k (snd (exec run proc path args opts k))"
proof -
  obtain r k1 where s: "exec_start proc path opts k = (r, k1)" by fastforce
  have "kstep\<^sup>*\<^sup>* k k1" by (rule r_into_rtranclp[where r = kstep], rule step_start[OF s])
  moreover have "kstep\<^sup>*\<^sup>* k1 (snd (exec run proc path args opts k))"
  proof (cases r)
    case (Ok pid)
    obtain code k2 where r: "run path pid args k1 = (code, k2)" by fastforce
    have "kstep\<^sup>*\<^sup>* k1 k2" using assms[of k1 path pid args] r by simp
    then have "kstep\<^sup>*\<^sup>* k1 (cleanupProcess pid k2)" using step_exit by (rule rtranclp.rtrancl_into_rtrancl)
    then show ?thesis using Ok s r by (simp add: exec_def Let_def)
  qed (simp_all add: exec_def s)
  ultimately show ?thesis by (rule rtranclp_trans)
qed

section \<open>The invariant\<close>

text \<open>
  A process is listed under its own number, which is one that was handed out, and no number is
  waiting to be used again. Sessions are numbered without gaps.
\<close>

definition session_name :: "nat \<Rightarrow> string" where
  "session_name n = ''session-'' @ itoa (int n)"

definition procs_ok :: "kernel \<Rightarrow> bool" where
  "procs_ok k \<longleftrightarrow> freePIDs k = [] \<and> 0 \<le> pids k \<and>
     (\<forall>pid p. procs k pid = Some p \<longrightarrow> PID p = pid \<and> 1 \<le> pid \<and> pid \<le> pids k) \<and>
     (\<exists>n. dom (sessions k) = session_name ` {1..n}) \<and>
     (\<forall>s x. sessions k s = Some x \<longrightarrow> SessionID x = s)"

lemma procs_ok_same:
  "freePIDs k' = freePIDs k \<Longrightarrow> pids k' = pids k \<Longrightarrow> procs k' = procs k \<Longrightarrow> sessions k' = sessions k \<Longrightarrow>
   procs_ok k' \<longleftrightarrow> procs_ok k"
  by (simp add: procs_ok_def)

lemma procs_ok_files: "fs_only k k' \<Longrightarrow> procs_ok k' \<longleftrightarrow> procs_ok k"
  by (rule procs_ok_same) (simp_all add: fs_only_def)

lemma set_tty_sel [simp]: "freePIDs (set_tty t x k) = freePIDs k" "pids (set_tty t x k) = pids k"
  "procs (set_tty t x k) = procs k" "sessions (set_tty t x k) = sessions k" "kfs (set_tty t x k) = kfs k"
  "inodeCache (set_tty t x k) = inodeCache k" "programs (set_tty t x k) = programs k"
  "openFiles (set_tty t x k) = openFiles k"
  by (simp_all add: set_tty_def)

lemma session_name_inj: "inj_on session_name A"
  by (auto simp: inj_on_def session_name_def itoa_inject)

lemma new_session_name:
  assumes "procs_ok k"
  obtains n where "dom (sessions k) = session_name ` {1..n}" "GenerateSessionID k = session_name (Suc n)"
    "sessions k (GenerateSessionID k) = None"
proof -
  obtain n where n: "dom (sessions k) = session_name ` {1..n}" using assms by (auto simp: procs_ok_def)
  have "card (dom (sessions k)) = n" unfolding n by (simp add: card_image[OF session_name_inj])
  then have g: "GenerateSessionID k = session_name (Suc n)" by (simp add: GenerateSessionID_def session_name_def add.commute)
  have "session_name (Suc n) \<notin> session_name ` {1..n}"
    using inj_onD[OF session_name_inj[of UNIV]] by fastforce
  then have "sessions k (GenerateSessionID k) = None" unfolding g n[symmetric] by auto
  with n g show ?thesis by (rule that)
qed

section \<open>Steps keep it\<close>

lemma files_only_exec_euid: "files_only (exec_euid parent path)"
proof -
  have "files_only (\<lambda>k. bindS (ResolvePath parent path k) getInode)" by (intro files_only_intros)
  then have f: "fs_only k k'" if "bindS (ResolvePath parent path k) getInode = (r, k')" for r k k' using that by (rule files_onlyD)
  have "fs_only k (snd (exec_euid parent path k))" for k
  proof (cases "bindS (ResolvePath parent path k) getInode")
    case (Pair r k')
    then show ?thesis using f[OF Pair] by (cases r) (simp_all add: exec_euid_def)
  qed
  then show ?thesis by (simp add: files_only_def)
qed

lemma nextPID_ok:
  assumes "procs_ok k"
  shows "nextPID k = (pids k + 1, k\<lparr>pids := pids k + 1\<rparr>)" "procs_ok (k\<lparr>pids := pids k + 1\<rparr>)"
    "procs k (pids k + 1) = None"
proof -
  have h: "freePIDs k = []" "0 \<le> pids k" "\<exists>n. dom (sessions k) = session_name ` {1..n}"
    "\<And>s x. sessions k s = Some x \<Longrightarrow> SessionID x = s"
    and p: "\<And>pid p. procs k pid = Some p \<Longrightarrow> PID p = pid \<and> 1 \<le> pid \<and> pid \<le> pids k"
    using assms by (simp_all add: procs_ok_def)
  show "nextPID k = (pids k + 1, k\<lparr>pids := pids k + 1\<rparr>)" using h(1) by (simp add: nextPID_def)
  show "procs k (pids k + 1) = None" using p[of "pids k + 1"] by (cases "procs k (pids k + 1)") simp_all
  have "PID x = pid \<and> 1 \<le> pid \<and> pid \<le> pids k + 1" if "procs k pid = Some x" for pid x using p[OF that] by simp
  then show "procs_ok (k\<lparr>pids := pids k + 1\<rparr>)" using h by (simp add: procs_ok_def)
qed

text \<open>Where a program starts: the number it gets, and the process it becomes.\<close>

lemma exec_start_run:
  assumes "procs_ok k" "path \<in> programs k" "exec_euid parent path (k\<lparr>pids := pids k + 1\<rparr>) = (Ok euid, k1)"
  obtains k' where "exec_start parent path opts k = (Ok (pids k + 1), k')" "procs_ok k'" "fs_only k1 (k'\<lparr>procs := procs k1, ttys := ttys k1\<rparr>)"
    "pids k' = pids k + 1"
    "procs k' = (procs k)(pids k + 1 \<mapsto> \<lparr>PID = pids k + 1, UID = UID parent, EUID = euid, CWD = CWD parent,
       PGID = (if opt_PGID opts = 0 then pids k + 1 else opt_PGID opts), FDs = FDs parent\<rparr>)"
    "\<And>t. stdin_tty parent k = Some t \<Longrightarrow> t < length (ttys k) \<Longrightarrow>
       ForegroundPGID (ttys k' ! t) = (if opt_PGID opts = 0 then pids k + 1 else opt_PGID opts)"
proof -
  note n = nextPID_ok[OF assms(1)]
  let ?k0 = "k\<lparr>pids := pids k + 1\<rparr>"
  have f: "fs_only ?k0 k1" using files_onlyD[OF files_only_exec_euid assms(3)] .
  then have ok1: "procs_ok k1" using n(2) procs_ok_files by blast
  have p1: "pids k1 = pids k + 1" "procs k1 = procs k" "openFiles k1 = openFiles k" "ttys k1 = ttys k"
    using f by (simp_all add: fs_only_def)
  let ?g = "if opt_PGID opts = 0 then pids k + 1 else opt_PGID opts"
  let ?c = "\<lparr>PID = pids k + 1, UID = UID parent, EUID = euid, CWD = CWD parent, PGID = ?g, FDs = FDs parent\<rparr>"
  let ?k2 = "k1\<lparr>procs := (procs k1)(pids k + 1 \<mapsto> ?c)\<rparr>"
  let ?k3 = "case stdin_tty ?c ?k2 of Some t \<Rightarrow> set_tty t (SetForegroundPGID ?g (ttys ?k2 ! t)) ?k2 | None \<Rightarrow> ?k2"
  have e: "exec_start parent path opts k = (Ok (pids k + 1), ?k3)"
    using assms(2,3) n(1) by (simp add: exec_start_def Let_def)
  have sel: "freePIDs ?k3 = freePIDs ?k2" "pids ?k3 = pids ?k2" "procs ?k3 = procs ?k2" "sessions ?k3 = sessions ?k2"
    by (simp_all split: option.split)
  have "procs_ok ?k2"
    using ok1 p1(1) assms(1) unfolding procs_ok_def by simp
  then have ok3: "procs_ok ?k3" using procs_ok_same[OF sel] by blast
  have st: "stdin_tty ?c ?k2 = stdin_tty parent k"
    by (simp add: stdin_tty_def desc_of_def p1(3))
  have "fs_only k1 (?k3\<lparr>procs := procs k1, ttys := ttys k1\<rparr>)"
    by (simp add: fs_only_def set_tty_def split: option.split)
  then show ?thesis
  proof (rule that[OF e ok3])
    show "pids ?k3 = pids k + 1" using sel(2) p1(1) by simp
    show "procs ?k3 = (procs k)(pids k + 1 \<mapsto> ?c)" using sel(3) p1(2) by simp
    show "ForegroundPGID (ttys ?k3 ! t) = ?g" if "stdin_tty parent k = Some t" "t < length (ttys k)" for t
      using that p1(4) by (simp add: st set_tty_def SetForegroundPGID_def)
  qed
qed

lemma exec_start_ok:
  assumes "procs_ok k" "exec_start parent path opts k = (r, k')"
  shows "procs_ok k'"
proof (cases "path \<in> programs k")
  case True
  obtain e k1 where e: "exec_euid parent path (k\<lparr>pids := pids k + 1\<rparr>) = (e, k1)" by fastforce
  show ?thesis
  proof (cases e)
    case (Ok euid)
    show ?thesis by (rule exec_start_run[OF assms(1) True e[unfolded Ok], of opts]) (use assms(2) in simp)
  next
    case (Err x)
    then have "k' = k1" using assms(2) True e nextPID_ok(1)[OF assms(1)] by (simp add: exec_start_def)
    then show ?thesis
      using procs_ok_files[OF files_onlyD[OF files_only_exec_euid e]] nextPID_ok(2)[OF assms(1)] by simp
  next
    case Panic
    then have "k' = k1" using assms(2) True e nextPID_ok(1)[OF assms(1)] by (simp add: exec_start_def)
    then show ?thesis
      using procs_ok_files[OF files_onlyD[OF files_only_exec_euid e]] nextPID_ok(2)[OF assms(1)] by simp
  qed
next
  case False
  then show ?thesis using assms by (simp add: exec_start_def)
qed

lemma files_only_update_inode [files_only_intros]: "files_only (update_inode path f)"
  unfolding update_inode_def ignoring_def by (intro files_only_intros)

lemma files_only_init_step: "files_only (init_step now s)"
  unfolding init_step_def ignoring_def by (cases s) (simp_all, (intro files_only_intros)+)

lemma NewSession_fs:
  assumes "NewSession now user k = (r, k')"
  shows "fs_only (k\<lparr>sessions := (sessions k)(GenerateSessionID k \<mapsto> \<lparr>SessionID = GenerateSessionID k, CurrentUser = user\<rparr>)\<rparr>) k'"
    "\<And>x. r = Ok x \<Longrightarrow> x = (Success, GenerateSessionID k)"
proof -
  let ?k = "k\<lparr>sessions := (sessions k)(GenerateSessionID k \<mapsto> \<lparr>SessionID = GenerateSessionID k, CurrentUser = user\<rparr>)\<rparr>"
  let ?home = "\<lambda>k. on_result (ResolvePath root_proc (home_dir user) k) (\<lambda>_ k. (Ok (), k))
     (\<lambda>_ k. ignoring (mkDir now root_proc (home_dir user) k) (update_inode (home_dir user) (own_home user)))"
  have "files_only ?home" unfolding ignoring_def by (intro files_only_intros)
  then have f: "fs_only ?k (snd (?home ?k))" by (simp add: files_only_def)
  have e: "NewSession now user k = bindS (?home ?k) (\<lambda>_ k'. (Ok (Success, GenerateSessionID k), k'))"
    by (simp add: NewSession_def Let_def)
  have "k' = snd (?home ?k) \<and> (\<forall>x. r = Ok x \<longrightarrow> x = (Success, GenerateSessionID k))"
    using assms unfolding e by (cases "?home ?k"; cases "fst (?home ?k)") auto
  then show "fs_only ?k k'" "\<And>x. r = Ok x \<Longrightarrow> x = (Success, GenerateSessionID k)" using f by auto
qed

lemma NewSession_ok:
  assumes "procs_ok k" "NewSession now user k = (r, k')"
  shows "procs_ok k'" "ttys k' = ttys k" "openFiles k' = openFiles k"
    "\<And>x. r = Ok x \<Longrightarrow> x = (Success, GenerateSessionID k)"
    "sessions k' = (sessions k)(GenerateSessionID k \<mapsto> \<lparr>SessionID = GenerateSessionID k, CurrentUser = user\<rparr>)"
proof -
  obtain n where n: "dom (sessions k) = session_name ` {1..n}" "GenerateSessionID k = session_name (Suc n)"
    "sessions k (GenerateSessionID k) = None"
    by (rule new_session_name[OF assms(1)])
  let ?k = "k\<lparr>sessions := (sessions k)(GenerateSessionID k \<mapsto> \<lparr>SessionID = GenerateSessionID k, CurrentUser = user\<rparr>)\<rparr>"
  have "dom (sessions ?k) = session_name ` {1..Suc n}"
    using n(1,2) by (simp add: atLeastAtMostSuc_conv)
  then have ok: "procs_ok ?k" using assms(1) unfolding procs_ok_def by auto
  note k' = NewSession_fs[OF assms(2)]
  show "procs_ok k'" using procs_ok_files[OF k'(1)] ok by blast
  show "ttys k' = ttys k" "openFiles k' = openFiles k"
    "sessions k' = (sessions k)(GenerateSessionID k \<mapsto> \<lparr>SessionID = GenerateSessionID k, CurrentUser = user\<rparr>)"
    using k'(1) by (simp_all add: fs_only_def)
  show "\<And>x. r = Ok x \<Longrightarrow> x = (Success, GenerateSessionID k)" by (rule k'(2))
qed

lemma kstep_ok:
  assumes "kstep k k'" "procs_ok k"
  shows "procs_ok k'"
  using assms
proof (cases rule: kstep.cases)
  case (step_file n run now proc args r proc')
  then have "fs_only k k'" using Syscall_files_only[of n k run now proc args] by simp
  then show ?thesis using procs_ok_files assms(2) by blast
next
  case (step_ioctl proc fd req arg res)
  then show ?thesis
    using assms(2) procs_ok_same[of k' k] by (auto simp: ioctl_def split: option.splits if_splits prod.splits)
next
  case (step_start proc path opts started)
  then show ?thesis using exec_start_ok assms(2) by blast
next
  case (step_exit pid)
  then show ?thesis using assms(2) unfolding procs_ok_def cleanupProcess_def by simp
next
  case (step_read proc fd es line es')
  then show ?thesis
    using assms(2) procs_ok_same[of k' k] by (auto simp: Kernel_Read_def split: option.splits if_splits prod.splits)
next
  case (step_write proc fd dat written)
  then show ?thesis
    using assms(2) procs_ok_same[of k' k] by (auto simp: Kernel_Write_def split: option.splits if_splits prod.splits)
next
  case (step_session now proc user sess)
  obtain r k1 where n: "NewSession now user k = (r, k1)" by fastforce
  note o = NewSession_ok(1)[OF assms(2) n]
  have k': "k' = snd (Kernel_NewSession now proc user k)" using step_session by simp
  have "freePIDs k' = freePIDs k1" "pids k' = pids k1" "procs k' = procs k1" "sessions k' = sessions k1"
    unfolding k' by (cases r; simp add: Kernel_NewSession_def n case_prod_beta split: option.split)+
  then show ?thesis using o procs_ok_same by blast
next
  case (step_client logged_in c)
  then show ?thesis
    using assms(2) procs_ok_same[of k' k] by (auto simp: open_client_def OpenTTY_def Let_def)
next
  case (step_register path)
  then show ?thesis using assms(2) procs_ok_same[of k' k] by (simp add: RegisterProgram_def)
qed

lemma running_ok: "running k \<Longrightarrow> procs_ok k"
proof (induction rule: running.induct)
  case (made clock name ip img ctime mtime r k)
  let ?k = "new_kernel (NewFileSystem img ctime mtime)"
  have new: "procs_ok ?k"
    unfolding procs_ok_def new_kernel_def by (auto intro: exI[of _ 0])
  have "files_only (run_steps clock j ss)" for j ss
  proof (induction ss arbitrary: j)
    case (Cons s ss)
    show ?case unfolding run_steps.simps by (intro files_only_intros files_only_init_step Cons)
  qed (simp add: files_only_def)
  then have "files_only (initFSTree clock name ip)"
    unfolding initFSTree_def ignoring_def by (intro files_only_intros)
  note f = files_onlyD[OF this]
  have "fs_only ?k k"
  proof (cases "freshFormat (kfs ?k)")
    case True
    then show ?thesis using made by (intro f) (simp add: NewComputer_def)
  next
    case False
    then show ?thesis using made by (simp add: NewComputer_def)
  qed
  then show ?case using new procs_ok_files by blast
next
  case (moved k k')
  then show ?case using kstep_ok by blast
qed

end
