(* ===== verification/Reboot.thy ===== *)
theory Reboot
  imports KernelProps Boot
begin

text \<open>
  What a computer finds on its disk when it is made again: the file system, unchanged, and with it the whole
  tree; no processes, sessions or terminals.
\<close>

definition mounted :: "filesystem \<Rightarrow> filesystem" where
  "mounted fs = fs\<lparr>freshFormat := False\<rparr>"

lemma mounted_views [simp]:
  "superblock_bytes (mounted fs) = superblock_bytes fs" "ibitmap (mounted fs) = ibitmap fs"
  "dbitmap (mounted fs) = dbitmap fs" "dblk (mounted fs) b = dblk fs b" "disk_inode (mounted fs) i = disk_inode fs i"
  "std_fs (mounted fs) = std_fs fs" "disk (mounted fs) = disk fs" "freshFormat (mounted fs) = False"
  by (simp_all add: mounted_def region_defs region_def disk_inode_def std_fs_def)

lemma mounted_tree:
  assumes "tree_ok fs"
  shows "tree_ok (mounted fs)" "tree (mounted fs) = tree fs"
proof -
  have inv: "fs_inv fs" and std: "std_fs (mounted fs)"
    using assms fs_inv_std by (auto simp: tree_ok_nodes)
  note v = disk_consistent_views[OF std mounted_views(3,4)]
  have l: "live (mounted fs) = live fs" by (simp add: live_def cong: if_cong)
  have c: "content (mounted fs) = content fs" by (simp add: content_def v(3) fun_eq_iff)
  have d: "is_dir (mounted fs) = is_dir fs" by (simp add: is_dir_def fun_eq_iff)
  have s: "dir_slots (mounted fs) = dir_slots fs" by (simp add: dir_slots_def c fun_eq_iff)
  have n: "node_ok (mounted fs) = node_ok fs" by (simp add: node_ok_def dir_ok_def l c d s fun_eq_iff cong: if_cong)
  have "fs_inv (mounted fs)" using v(4)[of "live fs"] inv by (simp add: fs_inv_def l)
  then show "tree_ok (mounted fs)" using assms by (simp add: tree_ok_nodes l d n)
  show "tree (mounted fs) = tree fs" by (simp add: tree_def node_of_def l c d s fun_eq_iff cong: if_cong)
qed

lemma NewComputer_remount:
  assumes "kernel_inv k" "superblock_bytes (kfs k) = superblock_bytes (NewFileSystem None c m)"
  shows "NewComputer clock name ip (Some (buf (disk (kfs k)))) c' m' = (Ok (), new_kernel (mounted (kfs k)))"
    "kernel_inv (new_kernel (mounted (kfs k)))" "tree (mounted (kfs k)) = tree (kfs k)"
proof -
  have t: "tree_ok (kfs k)" using assms(1) by (simp add: kernel_inv_def)
  have "superblock_bytes (kfs k) = writeSuprBlktoSuprBuf zero_block fresh_superblock"
    using assms(2) by (simp add: NewFileSystem_fresh fresh_fs_views flip: fresh_fs_def)
  then have "NewFileSystem (Some (buf (disk (kfs k)))) c' m' = mounted (kfs k)"
    using NewFileSystem_remount[OF kernel_inv_fs(4)[OF assms(1)]] by (simp add: mounted_def)
  then show "NewComputer clock name ip (Some (buf (disk (kfs k)))) c' m' = (Ok (), new_kernel (mounted (kfs k)))"
    by (simp add: NewComputer_def new_kernel_def)
  show "kernel_inv (new_kernel (mounted (kfs k)))"
    using mounted_tree(1)[OF t] by (simp add: kernel_inv_def cache_ok_def new_kernel_def)
  show "tree (mounted (kfs k)) = tree (kfs k)" by (rule mounted_tree(2)[OF t])
qed

text \<open>
  C11. The tree survives a restart: a computer made on the disk of a running one, whose first block still is the
  superblock, has the same tree, node for node, satisfies the invariant again, and starts
  with nothing else: no process, session, terminal or cached inode, and no first-boot
  step is made on the old tree.
\<close>

theorem restart_keeps_tree:
  assumes "kernel_inv k" "superblock_bytes (kfs k) = superblock_bytes (NewFileSystem None c m)"
  shows "\<exists>k'. NewComputer clock name ip (Some (buf (disk (kfs k)))) c' m' = (Ok (), k') \<and> kernel_inv k' \<and>
    tree (kfs k') = tree (kfs k) \<and> disk (kfs k') = disk (kfs k) \<and> k' = new_kernel (kfs k')"
  using NewComputer_remount[OF assms] by (auto simp: new_kernel_def)

lemma restart_demo:
  "NewComputer clock name ip (Some (buf (disk demo_fs))) c' m' = (Ok (), new_kernel (mounted demo_fs))"
  "kernel_inv (new_kernel (mounted demo_fs))" "tree (mounted demo_fs) = tree demo_fs"
proof -
  have k: "kernel_inv demo_kernel" "kfs demo_kernel = demo_fs" using demo_tree(1) by (simp_all add: demo_kernel_def new_kernel_def)
  then have t: "tree_ok demo_fs" and s: "std_fs demo_fs" by (auto simp: kernel_inv_def intro: kernel_inv_fs(4)[OF k(1), simplified k(2)])
  have "NewFileSystem (Some (buf (disk demo_fs))) c' m' = mounted demo_fs"
    using NewFileSystem_remount[OF s demo_facts(11)] by (simp add: mounted_def)
  then show "NewComputer clock name ip (Some (buf (disk demo_fs))) c' m' = (Ok (), new_kernel (mounted demo_fs))"
    by (simp add: NewComputer_def new_kernel_def)
  show "kernel_inv (new_kernel (mounted demo_fs))"
    using mounted_tree(1)[OF t] by (simp add: kernel_inv_def cache_ok_def new_kernel_def)
  show "tree (mounted demo_fs) = tree demo_fs" by (rule mounted_tree(2)[OF t])
qed

theorem restart_keeps_tree_witness:
  "\<exists>k'. NewComputer (\<lambda>j. (0, 0)) ''node'' ''10.0.0.1'' (Some (buf (disk demo_fs))) 1 1 = (Ok (), k') \<and>
     tree (kfs k') 2 = Some (Dir_node (meta_of demo_ino) [])"
proof -
  have s: "superblock_bytes (kfs demo_kernel) = superblock_bytes (NewFileSystem None 0 0)"
    by (simp add: demo_kernel_def new_kernel_def demo_fs_def fresh_fs_def NewFileSystem_fresh)
  show ?thesis
    using restart_keeps_tree[OF demo_tree(1) s, of "\<lambda>j. (0, 0)" "''node''" "''10.0.0.1''" 1 1] demo_tree(2)
    by (auto simp: demo_kernel_def new_kernel_def)
qed

end
