(* ===== verification/ProcProps.thy ===== *)
theory ProcProps
  imports ProcSpec Reboot
begin

text \<open>
  Programs, process numbers and sessions: as whom a program runs, what \<open>exec\<close> reports, that numbers and session
  names are never given twice.
\<close>

section \<open>exec\<close>

definition file_euid :: "process \<Rightarrow> file_metadata option \<Rightarrow> string" where
  "file_euid parent meta = (case meta of Some m \<Rightarrow> if Setuid m then Owner m else UID parent | None \<Rightarrow> UID parent)"

lemma exec_euid_stat:
  "exec_euid parent path k = bindS (stat parent path k) (\<lambda>meta k. (Ok (file_euid parent meta), k))"
proof -
  obtain r k' where "bindS (ResolvePath parent path k) getInode = (r, k')" by fastforce
  then show ?thesis by (cases r) (simp_all add: exec_euid_def stat_def file_euid_def)
qed

lemma exec_euid_tree:
  assumes "kernel_inv k"
  obtains k' where "exec_euid parent path (k\<lparr>pids := p\<rparr>) =
      (Ok (file_euid parent (tree_stat (tree (kfs k)) (EUID parent) (path_of parent path))), k')" "kernel_inv k'"
    "fs_only (k\<lparr>pids := p\<rparr>) k'"
proof -
  have "kernel_inv (k\<lparr>pids := p\<rparr>)" using assms by (simp add: kernel_inv_def cache_ok_def)
  from stat_spec[OF this, of parent path] obtain k' where
    s: "stat parent path (k\<lparr>pids := p\<rparr>) = (Ok (spec_stat (kfs k) parent path), k')" "kernel_inv k'"
    "cache_only (k\<lparr>pids := p\<rparr>) k'" by auto
  show ?thesis
    by (rule that[OF _ s(2) cache_only_fs[OF s(3)]]) (simp add: exec_euid_stat s(1) spec_stat_tree[OF assms])
qed

lemma exec_start_some:
  assumes "kernel_inv k" "procs_ok k" "path \<in> programs k"
  obtains k1 where "exec_start parent path opts k = (Ok (pids k + 1), k1)"
proof -
  obtain k0 where e: "exec_euid parent path (k\<lparr>pids := pids k + 1\<rparr>) =
      (Ok (file_euid parent (tree_stat (tree (kfs k)) (EUID parent) (path_of parent path))), k0)"
    by (rule exec_euid_tree[OF assms(1), of parent path "pids k + 1"])
  show ?thesis by (rule exec_start_run[OF assms(2,3) e, of opts]) (rule that)
qed

text \<open>
  C8. A registered program starts under the next process number, as the user of its parent, with the parent's working
  directory and descriptors. Its effective user is the owner of its file if that is setuid, and the
  user, not the effective user, of its parent otherwise. Its group, its own number unless one was
  asked for, becomes the foreground group of its terminal. Nothing else is asked: no bit of the file's mode is read, though
  README.md says that execs are checked against them, and a registered program starts even where its path
  names no file (as in the instance below) or a file nobody may execute.
\<close>

theorem exec_start_runs_as_owner:
  assumes "kernel_inv k" "procs_ok k" "path \<in> programs k"
    and "g = (if opt_PGID opts = 0 then pids k + 1 else opt_PGID opts)"
  shows "\<exists>k'. exec_start parent path opts k = (Ok (pids k + 1), k') \<and>
    procs k' (pids k + 1) = Some \<lparr>PID = pids k + 1, UID = UID parent,
      EUID = file_euid parent (tree_stat (tree (kfs k)) (EUID parent) (path_of parent path)),
      CWD = CWD parent, PGID = g, FDs = FDs parent\<rparr> \<and>
    (\<forall>t < length (ttys k). stdin_tty parent k = Some t \<longrightarrow> ForegroundPGID (ttys k' ! t) = g)"
proof -
  obtain k1 where k1: "exec_euid parent path (k\<lparr>pids := pids k + 1\<rparr>) =
      (Ok (file_euid parent (tree_stat (tree (kfs k)) (EUID parent) (path_of parent path))), k1)"
    by (rule exec_euid_tree[OF assms(1), of parent path "pids k + 1"])
  show ?thesis
    by (rule exec_start_run[OF assms(2,3) k1, of opts]) (use assms(4) in auto)
qed

lemma demo_procs_ok: "procs_ok (k\<lparr>pids := 0, freePIDs := [], procs := Map.empty, sessions := Map.empty\<rparr>)"
  by (auto simp: procs_ok_def intro: exI[of _ 0])

definition demo_user :: process where
  "demo_user = \<lparr>PID = 1, UID = ''bob'', EUID = ''eve'', CWD = ''/'', PGID = 1, FDs = [Some 0]\<rparr>"

text \<open>The demonstration file system with a process and a terminal.\<close>

definition demo_running :: kernel where
  "demo_running = demo_kernel\<lparr>programs := {''/sh''}, pids := 0, freePIDs := [], procs := Map.empty, sessions := Map.empty,
     openFiles := [\<lparr>fd_Type = FDTTY, fd_TTY = 0, fd_refs = 1\<rparr>], ttys := [NewTTY ''tty-0'']\<rparr>"

lemma demo_running: "kernel_inv demo_running" "procs_ok demo_running" "''/sh'' \<in> programs demo_running"
  "stdin_tty demo_user demo_running = Some 0" "pids demo_running = 0"
  using demo_tree(1) demo_procs_ok
  by (simp_all add: demo_running_def kernel_inv_def cache_ok_def procs_ok_def demo_user_def stdin_tty_def desc_of_def)

lemma demo_no_file: "tree_stat (tree (kfs demo_running)) u (path_of proc ''/sh'') = None"
proof -
  have "''/sh'' = abs_path [''sh'']" by (simp add: abs_path_def)
  then have "path_of proc ''/sh'' = [''sh'']" using path_of_abs_path[of "[''sh'']" proc] by (simp add: comp_ok_def)
  then show ?thesis
    by (simp add: tree_stat_def demo_running_def demo_kernel_def new_kernel_def demo_tree(2) slot_names_def lookup_def)
qed

theorem exec_start_runs_as_owner_witness:
  "tree_stat (tree (kfs demo_running)) (EUID demo_user) (path_of demo_user ''/sh'') = None \<and>
   (\<exists>k' p. exec_start demo_user ''/sh'' \<lparr>Background = False, opt_PGID = 0\<rparr> demo_running = (Ok 1, k') \<and>
     procs k' 1 = Some p \<and> EUID p = ''bob'' \<and> ForegroundPGID (ttys k' ! 0) = 1)"
proof -
  obtain k' where k': "exec_start demo_user ''/sh'' \<lparr>Background = False, opt_PGID = 0\<rparr> demo_running = (Ok 1, k')"
    "procs k' 1 = Some \<lparr>PID = 1, UID = ''bob'', EUID = file_euid demo_user None, CWD = ''/'', PGID = 1, FDs = [Some 0]\<rparr>"
    "\<forall>t < length (ttys demo_running). stdin_tty demo_user demo_running = Some t \<longrightarrow> ForegroundPGID (ttys k' ! t) = 1"
    using exec_start_runs_as_owner[OF demo_running(1-3) refl, of demo_user "\<lparr>Background = False, opt_PGID = 0\<rparr>"]
    by (auto simp: demo_running(5) demo_no_file) (auto simp: demo_user_def)
  have "length (ttys demo_running) = 1" by (simp add: demo_running_def)
  then have "ForegroundPGID (ttys k' ! 0) = 1" using k'(3) demo_running(4) by simp
  then show ?thesis using k'(1,2) demo_no_file by (auto simp: file_euid_def demo_user_def)
qed

text \<open>
  \<open>exec\<close> of a path no program is registered for fails and starts nothing. In the foreground it waits for the
  program, takes its process off the list, and returns an error with the exit status unless that was
  success; in the background it returns at once and the process stays.
\<close>

theorem exec_reports_exit:
  assumes "kernel_inv k" "procs_ok k"
  shows "if path \<notin> programs k then exec run parent path args opts k = (Err (ErrorText (path @ '': command not found'')), k)
    else \<exists>k1. exec_start parent path opts k = (Ok (pids k + 1), k1) \<and>
      (if Background opts then exec run parent path args opts k = (Ok (), k1)
       else \<exists>code k2. run path (pids k + 1) args k1 = (code, k2) \<and>
         exec run parent path args opts k =
           (if code = Success then Ok () else Err (ErrorText (path @ '': exited with status '' @ itoa code)),
            k2\<lparr>procs := (procs k2)(pids k + 1 := None)\<rparr>))"
proof (cases "path \<in> programs k")
  case True
  obtain k1 where k1: "exec_start parent path opts k = (Ok (pids k + 1), k1)"
    by (rule exec_start_some[OF assms True])
  show ?thesis
    by (cases "run path (pids k + 1) args k1") (use True k1 in \<open>simp add: exec_def Let_def cleanupProcess_def\<close>)
qed (simp add: exec_def exec_start_def)

theorem exec_reports_exit_witness:
  "\<exists>k'. exec (\<lambda>path pid args k. (1, k)) demo_user ''/sh'' [] \<lparr>Background = False, opt_PGID = 0\<rparr> demo_running =
     (Err (ErrorText (''/sh: exited with status '' @ itoa 1)), k') \<and> procs k' 1 = None"
  using exec_reports_exit[OF demo_running(1,2), of "''/sh''" "\<lambda>path pid args k. (1, k)" demo_user "[]"
      "\<lparr>Background = False, opt_PGID = 0\<rparr>"] demo_running(3,5)
  by (auto simp: Success_def)

section \<open>Numbers and names\<close>

text \<open>
  C9. In every state a computer reaches, by any interleaving of calls, starts and ends of programs, reads, logins and
  connections, a started program gets a number above every number ever given, so no running
  process has it; every process is listed under its own number. (The list of numbers to use again
  stays empty: ending a process does not fill it.)
\<close>

theorem process_numbers_fresh:
  assumes "running k" "exec_start parent path opts k = (Ok pid, k')"
  shows "pid = pids k + 1 \<and> pids k' = pid \<and> procs k pid = None \<and> freePIDs k' = [] \<and>
    (\<forall>q p. procs k' q = Some p \<longrightarrow> PID p = q \<and> 1 \<le> q \<and> q \<le> pid)"
proof -
  have ok: "procs_ok k" "procs_ok k'" using running_ok[OF assms(1)] exec_start_ok[OF _ assms(2)] by blast+
  note n = nextPID_ok[OF ok(1)]
  have path: "path \<in> programs k" using assms(2) by (rule contrapos_pp) (simp add: exec_start_def)
  obtain euid k1 where e: "exec_euid parent path (k\<lparr>pids := pids k + 1\<rparr>) = (Ok euid, k1)"
    using assms(2) path n(1)
    by (cases "exec_euid parent path (k\<lparr>pids := pids k + 1\<rparr>)"; cases "fst (exec_euid parent path (k\<lparr>pids := pids k + 1\<rparr>))")
      (auto simp: exec_start_def)
  have "pid = pids k + 1 \<and> pids k' = pids k + 1"
    by (rule exec_start_run[OF ok(1) path e, of opts]) (use assms(2) in simp)
  then show ?thesis using ok(2) n(3) unfolding procs_ok_def by auto
qed

text \<open>A restarted computer, with a program.\<close>

definition demo_restarted :: kernel where
  "demo_restarted = RegisterProgram ''/sh'' (new_kernel (mounted demo_fs))"

lemma demo_restarted: "running demo_restarted" "kernel_inv demo_restarted" "''/sh'' \<in> programs demo_restarted"
  "pids demo_restarted = 0" "sessions demo_restarted = Map.empty"
proof -
  show "running demo_restarted" unfolding demo_restarted_def
    by (rule moved[OF made[OF restart_demo(1)] step_register])
  show "kernel_inv demo_restarted" "''/sh'' \<in> programs demo_restarted" "pids demo_restarted = 0"
    "sessions demo_restarted = Map.empty"
    using restart_demo(2) by (simp_all add: demo_restarted_def RegisterProgram_def kernel_inv_def cache_ok_def new_kernel_def)
qed

theorem process_numbers_fresh_witness:
  "\<exists>k'. exec_start demo_user ''/sh'' \<lparr>Background = True, opt_PGID = 0\<rparr> demo_restarted = (Ok 1, k') \<and> pids k' = 1"
proof -
  obtain k' where e: "exec_start demo_user ''/sh'' \<lparr>Background = True, opt_PGID = 0\<rparr> demo_restarted = (Ok (pids demo_restarted + 1), k')"
    by (rule exec_start_some[OF demo_restarted(2) running_ok[OF demo_restarted(1)] demo_restarted(3)])
  then show ?thesis using process_numbers_fresh[OF demo_restarted(1) e] demo_restarted(4) by simp
qed

text \<open>
  A session gets a name no session has, and it is the only session with it afterwards.
\<close>

theorem session_names_fresh:
  assumes "running k" "Kernel_NewSession now proc user k = (Ok (status, name), k')"
  shows "sessions k name = None \<and> sessions k' = (sessions k)(name \<mapsto> \<lparr>SessionID = name, CurrentUser = user\<rparr>) \<and>
    status = Success"
proof -
  have ok: "procs_ok k" by (rule running_ok[OF assms(1)])
  obtain r k1 where n: "NewSession now user k = (r, k1)" by fastforce
  note o = NewSession_ok[OF ok n]
  obtain m where "sessions k (GenerateSessionID k) = None" by (rule new_session_name[OF ok])
  moreover have "name = GenerateSessionID k \<and> status = Success \<and> sessions k' = sessions k1"
    using assms(2) n o(4) by (cases r) (auto simp: Kernel_NewSession_def case_prod_beta split: option.splits if_splits)
  ultimately show ?thesis using o(5) by simp
qed

text \<open>A home that is there already: that of the user \<open>..\<close>.\<close>

lemma demo_session:
  "\<exists>k'. Kernel_NewSession now demo_user ''..'' demo_restarted = (Ok (Success, ''session-1''), k')"
proof -
  let ?k = "demo_restarted\<lparr>sessions := Map.empty(''session-1'' \<mapsto> \<lparr>SessionID = ''session-1'', CurrentUser = ''..''\<rparr>)\<rparr>"
  have "dec_digits 1 = ''1''" by code_simp
  then have g: "GenerateSessionID demo_restarted = ''session-1''"
    by (simp add: GenerateSessionID_def demo_restarted(5) itoa_def)
  have n: "normalizePath root_proc ''/home/..'' = abs_path []" by code_simp
  have p: "path_of root_proc ''/home/..'' = []"
    by (simp add: path_of_def n path_components_def components_abs_path)
  have "kernel_inv ?k" using demo_restarted(2) by (simp add: kernel_inv_def cache_ok_def)
  from ResolvePath_lookup[OF this, of root_proc "''/home/..''"] obtain k1 where
    r: "ResolvePath root_proc ''/home/..'' ?k = (Ok 2, k1)" by (auto simp: p)
  have h: "home_dir ''..'' = ''/home/..''" by (simp add: home_dir_def)
  obtain k' where "NewSession now ''..'' demo_restarted = (Ok (Success, ''session-1''), k')"
    using r by (simp add: NewSession_def Let_def g h demo_restarted(5))
  then show ?thesis by (simp add: Kernel_NewSession_def)
qed

theorem session_names_fresh_witness:
  "\<exists>k'. Kernel_NewSession (0, 0) demo_user ''..'' demo_restarted = (Ok (Success, ''session-1''), k') \<and>
     sessions k' = Map.empty(''session-1'' \<mapsto> \<lparr>SessionID = ''session-1'', CurrentUser = ''..''\<rparr>)"
proof -
  obtain k' where k': "Kernel_NewSession (0, 0) demo_user ''..'' demo_restarted = (Ok (Success, ''session-1''), k')"
    using demo_session by blast
  then show ?thesis using session_names_fresh[OF demo_restarted(1) k'] demo_restarted(5) by simp
qed

end
