(* ===== verification/ShellProps.thy ===== *)
theory ShellProps
  imports ShellSpec ProgSpec ProcProps
begin

text \<open>
  The properties of the shell: its own line editor against the terminal's, the history, the parser of command
  lines, the terminal after a command, and the loop.
\<close>

section \<open>The line\<close>

text \<open>
  C27. The shell edits its line itself, in raw mode, with a copy of the terminal's code. The copy is faithful: over any
  ASCII keys but the arrows of the history, it returns at Enter the line that \<open>Read\<close> returns in line mode, the
  text of the abstract editor, and records a line that is not empty and not the last one again at the end of the history.
\<close>

theorem shell_line_like_terminal:
  assumes "sh_ok s" "line_ok t" "sh_line s = tty_line t" "\<forall>key \<in> set keys. sh_typeable key"
    and "pgid = ForegroundPGID t" "Session t \<noteq> None"
  shows "\<exists>line s'. sh_keys proc (keys @ [key_enter]) s = (Ok line, s') \<and>
    fst (TTY_Read pgid (map Key keys @ [Key key_enter]) t) = Ok (Some (line, Success)) \<and>
    line = (let (l, r) = fold edit_key keys (sh_line s) in l @ r) \<and>
    sh_line s' = ([], []) \<and> posInHistory (fst s') = -1 \<and>
    history (fst s') = (let hs = history (fst s) in if line \<noteq> [] \<and> (hs = [] \<or> last hs \<noteq> line) then hs @ [line] else hs)"
proof -
  obtain s1 s' line where l: "shell_editor.press_all proc keys s = Some s1" "sh_return proc s1 = Some (line, s')"
    "line = (let (l, r) = fold edit_key keys (sh_line s) in l @ r)" "sh_line s' = ([], [])"
    "history (fst s') = recorded line (history (fst s))"
    using shell_editor.line_recorded[OF assms(1,4), of proc] by blast
  have e: "canonicalLogic proc key_enter s1 = (Ok line, s')"
    using l(2) by (auto simp: sh_return_def split: outcome.splits prod.splits)
  then have p: "posInHistory (fst s') = -1" unfolding shell_enter by (auto simp: sh_enter_def Let_def)
  have "\<forall>key \<in> set keys. typeable key" using assms(4) by (simp add: sh_typeable_def typeable_def)
  from keys_read[OF assms(2) this assms(5,6), of "[]"]
  have t: "fst (TTY_Read pgid (map Key keys @ [Key key_enter]) t) = Ok (Some (line, Success))"
    using assms(3) l(3) by auto
  show ?thesis using press_all_keys[OF l(1) assms(4)] e p t l(3-5) by (simp add: recorded_def Let_def)
qed

theorem shell_line_like_terminal_witness:
  "\<exists>s'. sh_keys root_proc ([''a'', ''c'', key_left, ''b''] @ [key_enter]) (new_shell, demo_kernel) = (Ok ''abc'', s') \<and>
    history (fst s') = [''abc''] \<and>
    fst (TTY_Read 7 (map Key [''a'', ''c'', key_left, ''b''] @ [Key key_enter]) demo_tty) = Ok (Some (''abc'', Success))"
proof -
  let ?keys = "[''a'', ''c'', key_left, ''b'']"
  have ty: "\<forall>key \<in> set ?keys. sh_typeable key" by (simp add: sh_typeable_def key_defs)
  have s: "sh_ok (new_shell, demo_kernel)" "sh_line (new_shell, demo_kernel) = ([], [])" "history new_shell = []"
    by (simp_all add: sh_ok_def sh_line_def new_shell_def)
  have e: "fold edit_key ?keys ([], []) = (''ab'', ''c'')"
    by (simp add: edit_key_def key_defs control_keys_def has_prefix_def key_text_def)
  have t: "sh_line (new_shell, demo_kernel) = tty_line demo_tty" using s(2) demo_tty_ok(4) by simp
  have g: "7 = ForegroundPGID demo_tty" using demo_tty_ok(2) by simp
  obtain line s' where r: "sh_keys root_proc (?keys @ [key_enter]) (new_shell, demo_kernel) = (Ok line, s')"
    "fst (TTY_Read 7 (map Key ?keys @ [Key key_enter]) demo_tty) = Ok (Some (line, Success))"
    "line = (let (l, r) = fold edit_key ?keys (sh_line (new_shell, demo_kernel)) in l @ r)"
    "history (fst s') = (let hs = history (fst (new_shell, demo_kernel)) in if line \<noteq> [] \<and> (hs = [] \<or> last hs \<noteq> line) then hs @ [line] else hs)"
    using shell_line_like_terminal[OF s(1) demo_tty_ok(1) t ty g demo_tty_ok(3)] by blast
  have "line = ''abc''" using r(3) unfolding s(2) e by simp
  then show ?thesis using r(1,2,4) s(3) by auto
qed

lemma no_shell_keys:
  "\<not> has_prefix key_up ctrl_arrow" "key_up \<noteq> '';''" "key_up \<noteq> key_enter" "key_up \<noteq> key_delete" "key_up \<noteq> key_right" "key_up \<noteq> key_left"
  "\<not> has_prefix key_down ctrl_arrow" "key_down \<noteq> '';''" "key_down \<noteq> key_enter" "key_down \<noteq> key_delete" "key_down \<noteq> key_right"
  "key_down \<noteq> key_left" "key_down \<noteq> key_up" "key_up \<noteq> key_down"
  by (simp_all add: key_defs has_prefix_def)

lemma canonical_up: "\<exists>k'. canonicalLogic proc key_up (sh, k) = bindS (sh_up proc (sh, k')) (\<lambda>_ s. (Ok [], s))"
proof -
  obtain sh' k' where e: "sh_echo proc key_up (sh, k) = (sh', k')" by fastforce
  have "sh' = sh" using sh_echo_fst[of proc key_up "(sh, k)"] by (simp add: e no_shell_keys)
  then show ?thesis using e by (auto simp: canonicalLogic_def no_shell_keys)
qed

lemma canonical_down: "\<exists>k'. canonicalLogic proc key_down (sh, k) = bindS (sh_down proc (sh, k')) (\<lambda>_ s. (Ok [], s))"
proof -
  obtain sh' k' where e: "sh_echo proc key_down (sh, k) = (sh', k')" by fastforce
  have "sh' = sh" using sh_echo_fst[of proc key_down "(sh, k)"] by (simp add: e no_shell_keys)
  then show ?thesis using e by (auto simp: canonicalLogic_def no_shell_keys)
qed

section \<open>The history\<close>

text \<open>The shell while it shows entry \<open>i\<close> of \<open>hs\<close>, with a draft kept behind them.\<close>

definition showing :: "string list \<Rightarrow> string \<Rightarrow> nat \<Rightarrow> shell" where
  "showing hs draft i = \<lparr>sh_buffer = hs ! i, sh_cursor = int (length (hs ! i)), history = hs @ [draft], posInHistory = int i\<rparr>"

lemma showing_sel [simp]:
  "history (showing hs draft i) = hs @ [draft]" "posInHistory (showing hs draft i) = int i" "sh_buffer (showing hs draft i) = hs ! i"
  by (simp_all add: showing_def)

lemma keep_showing: "i < length hs \<Longrightarrow> keep_line (showing hs draft i) = showing hs draft i"
proof -
  assume i: "i < length hs"
  have "(hs @ [draft])[i := hs ! i] = hs @ [draft]" using i by (simp add: list_update_append)
  then show ?thesis using i by (simp add: keep_line_def showing_def)
qed

lemma show_showing:
  "history sh = hs @ [draft] \<Longrightarrow> i < length hs \<Longrightarrow> \<exists>k'. show_entry proc (sh\<lparr>posInHistory := int i\<rparr>, k) = (Ok (), (showing hs draft i, k'))"
  by (cases sh) (simp add: show_entry_def show_line_def showing_def nth_append)

lemma up_first:
  assumes "history sh \<noteq> []" "posInHistory sh = -1"
  shows "\<exists>k'. canonicalLogic proc key_up (sh, k) = (Ok [], (showing (history sh) (sh_buffer sh) (length (history sh) - 1), k'))"
proof -
  obtain k1 where run: "canonicalLogic proc key_up (sh, k) = bindS (sh_up proc (sh, k1)) (\<lambda>_ s. (Ok [], s))"
    using canonical_up by blast
  obtain m where m: "length (history sh) = Suc m" using assms(1) by (cases "history sh") auto
  let ?sh = "sh\<lparr>history := history sh @ [sh_buffer sh]\<rparr>"
  obtain k2 where disp: "show_entry proc (?sh\<lparr>posInHistory := int m\<rparr>, k1) = (Ok (), (showing (history sh) (sh_buffer sh) m, k2))"
    using show_showing[of ?sh "history sh" "sh_buffer sh" m proc k1] m by auto
  have "sh_up proc (sh, k1) = show_entry proc (?sh\<lparr>posInHistory := int m\<rparr>, k1)"
    using assms m by (simp add: sh_up_def Let_def)
  then show ?thesis using run disp m by simp
qed

lemma up_next:
  assumes "i < length hs"
  shows "\<exists>k'. canonicalLogic proc key_up (showing hs draft i, k) = (Ok [], (showing hs draft (i - 1), k'))"
proof -
  obtain k1 where run: "canonicalLogic proc key_up (showing hs draft i, k) =
      bindS (sh_up proc (showing hs draft i, k1)) (\<lambda>_ s. (Ok [], s))" using canonical_up by blast
  obtain k2 where disp: "show_entry proc ((showing hs draft i)\<lparr>posInHistory := int (i - 1)\<rparr>, k1) = (Ok (), (showing hs draft (i - 1), k2))"
    using show_showing[of "showing hs draft i" hs draft "i - 1" proc k1] assms less_imp_diff_less by auto
  have zero: "(showing hs draft 0)\<lparr>posInHistory := 0\<rparr> = showing hs draft 0" by (simp add: showing_def)
  have "sh_up proc (showing hs draft i, k1) = show_entry proc ((showing hs draft i)\<lparr>posInHistory := int (i - 1)\<rparr>, k1)"
    using assms by (cases i) (simp_all add: sh_up_def Let_def keep_showing zero)
  then show ?thesis using run disp by simp
qed

lemma down_next:
  assumes "Suc i < length hs"
  shows "\<exists>k'. canonicalLogic proc key_down (showing hs draft i, k) = (Ok [], (showing hs draft (Suc i), k'))"
proof -
  obtain k1 where run: "canonicalLogic proc key_down (showing hs draft i, k) =
      bindS (sh_down proc (showing hs draft i, k1)) (\<lambda>_ s. (Ok [], s))" using canonical_down by blast
  obtain k2 where disp: "show_entry proc ((showing hs draft i)\<lparr>posInHistory := int (Suc i)\<rparr>, k1) = (Ok (), (showing hs draft (Suc i), k2))"
    using show_showing[of "showing hs draft i" hs draft "Suc i" proc k1] assms by auto
  have "sh_down proc (showing hs draft i, k1) = show_entry proc ((showing hs draft i)\<lparr>posInHistory := int (Suc i)\<rparr>, k1)"
    using assms by (simp add: sh_down_def Let_def keep_showing add.commute)
  then show ?thesis using run disp by simp
qed

lemma down_last:
  assumes "Suc i = length hs"
  shows "\<exists>k'. canonicalLogic proc key_down (showing hs draft i, k) =
    (Ok [], (\<lparr>sh_buffer = draft, sh_cursor = int (length draft), history = hs @ [draft], posInHistory = -1\<rparr>, k'))"
proof -
  obtain k1 where run: "canonicalLogic proc key_down (showing hs draft i, k) =
      bindS (sh_down proc (showing hs draft i, k1)) (\<lambda>_ s. (Ok [], s))" using canonical_down by blast
  have i: "int i = int (length (hs @ [draft])) - 2" "i < length hs" "hs \<noteq> []" using assms by auto
  have "sh_down proc (showing hs draft i, k1) = (Ok (), show_line proc draft ((showing hs draft i)\<lparr>posInHistory := -1\<rparr>, k1))"
    using i by (simp add: sh_down_def Let_def keep_showing)
  then show ?thesis using run by (simp add: show_line_def showing_def)
qed

text \<open>Any number of presses.\<close>

lemma ups:
  assumes "i < length hs"
  shows "\<exists>k'. sh_keys proc (replicate j key_up) (showing hs draft i, k) = (Ok [], (showing hs draft (i - j), k'))"
  using assms
proof (induction j arbitrary: i k)
  case (Suc j)
  obtain k1 where k1: "canonicalLogic proc key_up (showing hs draft i, k) = (Ok [], (showing hs draft (i - 1), k1))"
    using up_next[OF Suc.prems] by blast
  obtain k2 where "sh_keys proc (replicate j key_up) (showing hs draft (i - 1), k1) = (Ok [], (showing hs draft (i - 1 - j), k2))"
    using Suc.IH[of "i - 1" k1] Suc.prems less_imp_diff_less by auto
  then show ?case using k1 by (cases j) (simp_all add: sh_keys_Cons)
qed simp

lemma downs:
  assumes "i + j < length hs"
  shows "\<exists>k'. sh_keys proc (replicate j key_down) (showing hs draft i, k) = (Ok [], (showing hs draft (i + j), k'))"
  using assms
proof (induction j arbitrary: i k)
  case (Suc j)
  obtain k1 where k1: "canonicalLogic proc key_down (showing hs draft i, k) = (Ok [], (showing hs draft (Suc i), k1))"
    using down_next[of i hs proc draft k] Suc.prems by auto
  obtain k2 where "sh_keys proc (replicate j key_down) (showing hs draft (Suc i), k1) = (Ok [], (showing hs draft (Suc i + j), k2))"
    using Suc.IH[of "Suc i" k1] Suc.prems by auto
  then show ?case using k1 by (cases j) (simp_all add: sh_keys_Cons)
qed simp

text \<open>
  C28. The arrows walk the history: \<open>n\<close> presses of the up arrow show the \<open>n\<close>th line from the end, or the first, and as
  many presses of the down arrow bring the draft back, with the cursor at its end. The draft then stays in the
  history as its newest line, although it was never entered.
\<close>

theorem shell_history_walk:
  assumes "history sh = hs" "hs \<noteq> []" "posInHistory sh = -1" "0 < n"
  shows "(\<exists>k'. sh_keys proc (replicate n key_up) (sh, k) = (Ok [], (showing hs (sh_buffer sh) (length hs - n), k'))) \<and>
    (n \<le> length hs \<longrightarrow> (\<exists>k'. sh_keys proc (replicate n key_up @ replicate n key_down) (sh, k) =
       (Ok [], (\<lparr>sh_buffer = sh_buffer sh, sh_cursor = int (length (sh_buffer sh)), history = hs @ [sh_buffer sh], posInHistory = -1\<rparr>, k'))))"
proof -
  obtain m where m: "n = Suc m" using assms(4) by (cases n) auto
  let ?d = "sh_buffer sh" and ?l = "length hs"
  obtain k1 where k1: "canonicalLogic proc key_up (sh, k) = (Ok [], (showing hs ?d (?l - 1), k1))"
    using up_first[of sh proc k] assms by auto
  obtain k2 where k2: "sh_keys proc (replicate m key_up) (showing hs ?d (?l - 1), k1) = (Ok [], (showing hs ?d (?l - 1 - m), k2))"
    using ups[of "?l - 1" hs proc m ?d k1] assms(2) by auto
  have up: "sh_keys proc (replicate n key_up) (sh, k) = (Ok [], (showing hs ?d (?l - n), k2))"
    using k1 k2 m by (cases m) (simp_all add: sh_keys_Cons)
  have "\<exists>k'. sh_keys proc (replicate n key_down) (showing hs ?d (?l - n), k2) =
      (Ok [], (\<lparr>sh_buffer = ?d, sh_cursor = int (length ?d), history = hs @ [?d], posInHistory = -1\<rparr>, k'))" if n: "n \<le> ?l"
  proof -
    obtain k3 where k3: "sh_keys proc (replicate m key_down) (showing hs ?d (?l - n), k2) = (Ok [], (showing hs ?d (?l - 1), k3))"
      using downs[of "?l - n" m hs proc ?d k2] m n assms(2) by auto
    obtain k4 where "canonicalLogic proc key_down (showing hs ?d (?l - 1), k3) =
        (Ok [], (\<lparr>sh_buffer = ?d, sh_cursor = int (length ?d), history = hs @ [?d], posInHistory = -1\<rparr>, k4))"
      using down_last[of "?l - 1" hs proc ?d k3] assms(2) by auto
    then show ?thesis
      using k3 sh_keys_append[of "[key_down]" proc "replicate m key_down"] by (simp add: m replicate_append_same)
  qed
  then show ?thesis using up sh_keys_append[of "replicate n key_down" proc "replicate n key_up"] m by auto
qed

theorem shell_history_walk_witness:
  "\<exists>k'. sh_keys root_proc (replicate 2 key_up @ replicate 2 key_down)
      (\<lparr>sh_buffer = ''c'', sh_cursor = 1, history = [''ls'', ''pwd''], posInHistory = -1\<rparr>, demo_kernel) =
    (Ok [], (\<lparr>sh_buffer = ''c'', sh_cursor = 1, history = [''ls'', ''pwd'', ''c''], posInHistory = -1\<rparr>, k'))"
  using shell_history_walk[of "\<lparr>sh_buffer = ''c'', sh_cursor = 1, history = [''ls'', ''pwd''], posInHistory = -1\<rparr>"
      "[''ls'', ''pwd'']" 2 root_proc demo_kernel] by simp

text \<open>
  The cursor after an entry of the history is its length in bytes, but keys are inserted by runes: after the up arrow
  on an entry with a character of more than one byte the next key panics.
\<close>

theorem shell_history_panics:
  assumes "history sh \<noteq> []" "posInHistory sh = -1" "length (runes (last (history sh))) < length (last (history sh))"
  shows "fst (sh_keys proc [key_up, ''a''] (sh, k)) = Panic"
proof -
  let ?hs = "history sh"
  define s1 where "s1 = showing ?hs (sh_buffer sh) (length ?hs - 1)"
  obtain k1 where k1: "canonicalLogic proc key_up (sh, k) = (Ok [], (s1, k1))" using up_first[OF assms(1,2)] by (auto simp: s1_def)
  have b: "sh_buffer s1 = last ?hs" "sh_cursor s1 = int (length (last ?hs))" using assms(1) by (simp_all add: s1_def showing_def last_conv_nth)
  have key: "\<not> has_prefix ''a'' ctrl_arrow" "''a'' \<noteq> '';''" "''a'' \<noteq> key_delete" "''a'' \<noteq> key_tab" "''a'' \<noteq> key_up" "''a'' \<noteq> key_down"
    "''a'' \<noteq> key_right" "''a'' \<noteq> key_left" "''a'' \<noteq> key_enter" "''a'' \<notin> {alt_delete, alt_w, ctrl_u, ctrl_b, key_escape}"
    by (simp_all add: key_defs has_prefix_def)
  obtain s2 k2 where e: "sh_echo proc ''a'' (s1, k1) = (s2, k2)" by fastforce
  have "s2 = s1" using sh_echo_fst[of proc "''a''" "(s1, k1)"] key by (simp add: e)
  then have "fst (canonicalLogic proc ''a'' (s1, k1)) = Panic"
    using e key b assms(3) by (simp add: canonicalLogic_def sh_insert_def Let_def)
  then show ?thesis using k1 by simp
qed

theorem shell_history_panics_witness:
  "fst (sh_keys root_proc [key_up, ''a''] (new_shell\<lparr>history := [[CHR 0xC3, CHR 0xA9]]\<rparr>, demo_kernel)) = Panic"
proof -
  have r: "runes [CHR 0xC3, CHR 0xA9] = [0xE9]" by (simp add: runes_def rune_at_def cont_byte_def)
  show ?thesis by (rule shell_history_panics) (simp_all add: r new_shell_def)
qed

section \<open>Command lines\<close>

text \<open>
  A command line of words apart by spaces is parsed into the words that are no flags, in order, and the flags, in
  order; a program gets the flags last.
\<close>

theorem shell_parse_words:
  assumes "\<forall>w \<in> set ws. word_ok w"
  shows "parse (join_with CHR '' '' ws) =
    (let (flags, cmds) = partition (\<lambda>w. hd w = CHR ''-'') ws in (if cmds = [] then [[]] else cmds, flags))"
proof -
  have "has_prefix w ''-'' \<longleftrightarrow> hd w = CHR ''-''" if "w \<in> set ws" for w
    using assms that by (cases w) (auto simp: word_ok_def has_prefix_def)
  then have "filter (\<lambda>w. has_prefix w ''-'') ws = filter (\<lambda>w. hd w = CHR ''-'') ws"
    "filter (\<lambda>w. \<not> has_prefix w ''-'') ws = filter (\<lambda>w. hd w \<noteq> CHR ''-'') ws"
    by (auto intro: filter_cong)
  then show ?thesis by (simp add: parse_def fields_words[OF assms] o_def)
qed

theorem shell_parse_words_witness:
  "parse ''rm a --all b'' = ([''rm'', ''a'', ''b''], [''--all''])"
proof -
  have w: "\<forall>w \<in> set [''rm'', ''a'', ''--all'', ''b'']. word_ok w" by (simp add: word_ok_def is_space_def)
  have j: "join_with CHR '' '' [''rm'', ''a'', ''--all'', ''b''] = ''rm a --all b''" by simp
  show ?thesis using shell_parse_words[OF w] unfolding j by simp
qed

section \<open>The terminal after a command\<close>

lemma bindP_Ended: "bindP m f = (Ok (Ended y), s') \<longleftrightarrow> (\<exists>x s. m = (Ok (Ended x), s) \<and> f x s = (Ok (Ended y), s'))"
  by (induction m f rule: bindP.induct) auto

text \<open>That a program leaves the terminals and what is open where they are.\<close>

definition keeps_terminals :: "child \<Rightarrow> bool" where
  "keeps_terminals child \<longleftrightarrow> (\<forall>path pid args s r s'. child path pid args s = (r, s') \<longrightarrow>
     openFiles (fst s') = openFiles (fst s) \<and> length (ttys (fst s')) = length (ttys (fst s)))"

lemma exec_start_terminals:
  assumes "exec_start parent bin opts k = (r, k')"
  shows "openFiles k' = openFiles k \<and> length (ttys k') = length (ttys k)"
proof (cases "bin \<in> programs k")
  case False
  then show ?thesis using assms by (auto simp: exec_start_def)
next
  case True
  obtain pid k1 where n: "nextPID k = (pid, k1)" by fastforce
  have n1: "openFiles k1 = openFiles k" "ttys k1 = ttys k" using n by (auto simp: nextPID_def split: if_splits)
  obtain r2 k2 where e: "exec_euid parent bin k1 = (r2, k2)" by fastforce
  have n2: "openFiles k2 = openFiles k1" "ttys k2 = ttys k1"
    using files_onlyD[OF files_only_exec_euid e] by (simp_all add: fs_only_def)
  show ?thesis
    using assms True n1 n2
    by (cases r2) (auto simp: exec_start_def n e Let_def set_tty_def split: option.splits)
qed

lemma term_of_keeps:
  assumes "openFiles k' = openFiles k" "length (ttys k') = length (ttys k)" "term_of p k \<noteq> None"
  shows "term_of p k' \<noteq> None"
  using assms stdin_same[OF assms(1), of p] by (auto simp: term_of_def split: option.splits if_splits)

text \<open>
  C29. However a command ends, and whatever it did to the modes of the terminal, the shell is in the foreground again
  afterwards and reads keys one by one: a command that could not be started included.
\<close>

theorem shell_takes_terminal_back:
  assumes "keeps_terminals child" "term_of proc k \<noteq> None" "execFg child proc args bin (k, es) = (Ok (Ended ()), (k', es'))"
  shows "\<exists>t. term_of proc k' = Some t \<and> ForegroundPGID t = PGID proc \<and> \<not> Canonical t \<and> \<not> Echo t"
proof -
  let ?k0 = "ctl proc TIOCRAW (ABool False) k"
  have k0: "term_of proc ?k0 \<noteq> None"
    using term_of_keeps[OF _ _ assms(2)] term_only_ctl[of k proc TIOCRAW "ABool False"] by (simp add: term_only_def)
  obtain q k1 es1 where x0: "exec_wait child proc bin args (?k0, es) = (q, (k1, es1))" by (metis prod.exhaust)
  obtain err where err: "q = Ok (Ended err)" "es1 = es'"
    and k': "k' = ctl proc TIOCRAW (ABool True) (ctl proc TIOCSPGRP (AInt (PGID proc))
      (case err of None \<Rightarrow> k1 | Some e \<Rightarrow> out proc (nl @ error_text e @ nl) k1))"
    using assms(3) x0 by (auto simp: execFg_def Let_def bindP_Ended)
  have x: "exec_wait child proc bin args (?k0, es) = (Ok (Ended err), (k1, es'))" using x0 err by simp
  obtain r k2 where st: "exec_start proc bin \<lparr>Background = False, opt_PGID = 0\<rparr> ?k0 = (r, k2)" by fastforce
  note s2 = exec_start_terminals[OF st]
  have "openFiles k1 = openFiles ?k0 \<and> length (ttys k1) = length (ttys ?k0)"
  proof (cases r)
    case (Ok pid)
    obtain rc k3 es3 where c: "child bin pid args (k2, es) = (rc, (k3, es3))" by (metis surj_pair)
    have "openFiles k3 = openFiles k2" "length (ttys k3) = length (ttys k2)"
      using assms(1) c unfolding keeps_terminals_def by force+
    then show ?thesis
      using x s2 by (auto simp: exec_wait_def st Ok c cleanupProcess_def bindP_Ended)
  qed (use x s2 in \<open>auto simp: exec_wait_def st\<close>)
  then have k1: "term_of proc k1 \<noteq> None" using term_of_keeps k0 by blast
  let ?k2 = "case err of None \<Rightarrow> k1 | Some e \<Rightarrow> out proc (nl @ error_text e @ nl) k1"
  have "term_of proc ?k2 \<noteq> None" using k1 out_modes[of proc proc _ k1] by (auto split: option.split) (metis option.map_disc_iff)
  then obtain t where t: "term_of proc ?k2 = Some t" by blast
  have a: "term_of proc (ctl proc TIOCSPGRP (AInt (PGID proc)) ?k2) = Some (SetForegroundPGID (PGID proc) t)"
    by (rule ctl_term[OF t]) (simp add: tty_ioctl_def)
  have "term_of proc k' = Some ((SetForegroundPGID (PGID proc) t)\<lparr>Canonical := False, Echo := False\<rparr>)"
    unfolding k' by (rule ctl_term[OF a]) (simp add: tty_ioctl_def)
  then show ?thesis by (simp add: SetForegroundPGID_def)
qed

theorem shell_takes_terminal_back_witness:
  "\<exists>k' t. execFg (\<lambda>path pid args s. (Ok (Ended Success), s)) demo_user [''sh''] ''/sh'' (demo_running, []) = (Ok (Ended ()), (k', [])) \<and>
    term_of demo_user k' = Some t \<and> ForegroundPGID t = 1 \<and> \<not> Canonical t"
proof -
  let ?child = "\<lambda>path pid args s. (Ok (Ended Success), s)"
  let ?k0 = "ctl demo_user TIOCRAW (ABool False) demo_running"
  have inv: "kernel_inv ?k0" "programs ?k0 = {''/sh''}" "freePIDs ?k0 = []"
    using demo_running(1) term_only_inv[OF term_only_ctl] term_only_ctl[of demo_running demo_user TIOCRAW "ABool False"]
    by (simp_all add: term_only_def) (simp_all add: demo_running_def)
  obtain k1 u where e: "exec_euid demo_user ''/sh'' (?k0\<lparr>pids := pids ?k0 + 1\<rparr>) = (Ok u, k1)"
    by (rule exec_euid_tree[OF inv(1), of demo_user "''/sh''" "pids ?k0 + 1"])
  obtain pid k2 where "exec_start demo_user ''/sh'' \<lparr>Background = False, opt_PGID = 0\<rparr> ?k0 = (Ok pid, k2)"
    by (simp add: exec_start_def inv(2,3) nextPID_def e Let_def)
  then obtain k' where run: "execFg ?child demo_user [''sh''] ''/sh'' (demo_running, []) = (Ok (Ended ()), (k', []))"
    by (simp add: execFg_def exec_wait_def Let_def)
  have c: "keeps_terminals ?child" by (auto simp: keeps_terminals_def)
  have t: "term_of demo_user demo_running \<noteq> None" using demo_running(4) by (simp add: term_of_def demo_running_def)
  have p: "PGID demo_user = 1" by (simp add: demo_user_def)
  show ?thesis using shell_takes_terminal_back[OF c t run] run p by auto
qed

section \<open>The loop\<close>

text \<open>The terminal of the shell while it edits a line: raw, its own, and in a session.\<close>

definition raw_tty :: "process \<Rightarrow> kernel \<Rightarrow> bool" where
  "raw_tty proc k \<longleftrightarrow> (\<exists>t. term_of proc k = Some t \<and> \<not> Canonical t \<and> \<not> Echo t \<and> ForegroundPGID t = PGID proc \<and> Session t \<noteq> None)"

lemma raw_tty_modes: "map_option modes (term_of proc k') = map_option modes (term_of proc k) \<Longrightarrow> raw_tty proc k' = raw_tty proc k"
  by (cases "term_of proc k'"; cases "term_of proc k") (auto simp: raw_tty_def modes_def)

lemma out_raw [simp]: "raw_tty proc (out p s k) = raw_tty proc k"
  by (rule raw_tty_modes) (rule out_modes)

text \<open>A key of the line has no error, and leaves the terminal as it is.\<close>

definition calm :: "kernel \<Rightarrow> 'a outcome \<times> shell_state \<Rightarrow> bool" where
  "calm k m \<longleftrightarrow> (\<forall>e. fst m \<noteq> Err e) \<and> (\<forall>proc. raw_tty proc (snd (snd m)) = raw_tty proc k)"

lemma calm_Ok [simp]: "calm k (Ok x, (sh, k')) \<longleftrightarrow> (\<forall>proc. raw_tty proc k' = raw_tty proc k)"
  "calm k (Panic, (sh, k')) \<longleftrightarrow> (\<forall>proc. raw_tty proc k' = raw_tty proc k)"
  by (simp_all add: calm_def)

lemma calm_bindS: "calm k m \<Longrightarrow> calm k (bindS m (\<lambda>_ s. (Ok [], s)))"
  by (cases m; cases "fst m") (auto simp: calm_def)

lemma sh_redraw_calm: "calm k (Ok (), sh_redraw p rs (sh, k))"
  by (simp add: sh_redraw_def Let_def)

lemma calm_ops:
  "calm k (sh_delete p pre (sh, k))" "calm k (sh_insert p key (sh, k))" "calm k (sh_up p (sh, k))" "calm k (sh_down p (sh, k))"
  using sh_redraw_calm by (auto simp: sh_delete_def sh_insert_def sh_up_def sh_down_def show_entry_def show_line_def Let_def)

lemma calm_echo: "sh_echo p key (sh, k) = (sh', k') \<Longrightarrow> raw_tty proc k' = raw_tty proc k"
  by (auto simp: sh_echo_def Let_def split: prod.splits)

lemma canonicalLogic_calm: "calm k (canonicalLogic p key (sh, k))"
proof -
  obtain sh1 k1 where e: "sh_echo p key (sh, k) = (sh1, k1)" by fastforce
  have same: "calm k m = calm k1 m" for m :: "string outcome \<times> shell_state" using calm_echo[OF e] by (simp add: calm_def)
  show ?thesis
    using calm_echo[OF e] unfolding canonicalLogic_def Let_def fst_conv e prod.case sh_enter_def
    by (simp add: same calm_ops[THEN calm_bindS])
qed

lemma canonicalLogic_no_Err: "canonicalLogic proc key s \<noteq> (Err e, s')"
  using canonicalLogic_calm[of "snd s" proc key "fst s"] by (auto simp: calm_def)

lemma canonicalLogic_raw: "raw_tty proc (snd (snd (canonicalLogic p key s))) = raw_tty proc (snd s)"
  using canonicalLogic_calm[of "snd s" p key "fst s"] by (simp add: calm_def)

text \<open>That every program the shell may run ends or waits.\<close>

definition child_ends :: "child \<Rightarrow> bool" where
  "child_ends child \<longleftrightarrow> (\<forall>path pid args s. ends_or_waits (child path pid args s) (snd s))"

lemma run_cd_no_Err: "run_cd proc value dashes k \<noteq> (Err e, s')"
  by (auto simp: run_cd_def Let_def split: outcome.splits prod.splits)

lemma exec_wait_ends:
  assumes "child_ends child"
  shows "ends_or_waits (exec_wait child proc bin args (k, es)) es"
proof -
  obtain r k1 where st: "exec_start proc bin \<lparr>Background = False, opt_PGID = 0\<rparr> k = (r, k1)" by fastforce
  have "ends_or_waits (child bin pid args (k1, es)) es" for pid using assms unfolding child_ends_def by (metis snd_conv)
  then show ?thesis by (cases r) (auto simp: exec_wait_def st intro!: bindP_ends)
qed

lemma execFg_ends:
  assumes "child_ends child"
  shows "ends_or_waits (execFg child proc args bin (k, es)) es"
  unfolding execFg_def prod.case by (rule bindP_ends[OF exec_wait_ends[OF assms]]) (simp add: Let_def)

lemma run_command_ends:
  assumes "child_ends child"
  shows "ends_or_waits (run_command child proc line (k, es)) es"
proof -
  obtain ws dashes where p: "parse line = (ws, dashes)" by fastforce
  have fg: "ends_or_waits (bindP (execFg child proc (ws @ dashes) (''/bin/'' @ name) (k, es)) (\<lambda>_ (k, es).
      (Ok (Ended (Goes_on proc [])), (if name = ''v'' then ctl proc TIOCRAW (ABool True) k else k, es)))) es" for name
    by (rule bindP_ends[OF execFg_ends[OF assms]]) simp
  obtain r k1 where cd: "run_cd proc ws dashes k = (r, k1)" by fastforce
  have cd': "ends_or_waits (case run_cd proc ws dashes k of
         (Ok proc, k) \<Rightarrow> (Ok (Ended (Goes_on proc [])), (k, es))
       | (Err e, k) \<Rightarrow> (Err e, (k, es))
       | (Panic, k) \<Rightarrow> (Panic, (k, es))) es" using run_cd_no_Err cd by (cases r) auto
  show ?thesis using fg cd' unfolding run_command_def p prod.case Let_def by simp
qed

text \<open>What a command leaves the shell: its number, its group and its descriptors; \<open>exit\<close> is the only way out.\<close>

definition same_shell :: "process \<Rightarrow> process \<Rightarrow> bool" where
  "same_shell p q \<longleftrightarrow> PGID q = PGID p \<and> FDs q = FDs p"

lemma same_foreground: "same_shell p q \<Longrightarrow> in_foreground q k = in_foreground p k"
proof -
  assume s: "same_shell p q"
  then have "desc_of q 0 k = desc_of p 0 k" by (simp add: same_shell_def desc_of_def)
  then show ?thesis using s by (simp add: in_foreground_def same_shell_def split: option.split)
qed

lemma run_cd_same: "run_cd proc value dashes k = (Ok p, k') \<Longrightarrow> same_shell proc p"
  by (auto simp: run_cd_def Let_def same_shell_def Syscall_def changeDirectory_def split: if_splits outcome.splits prod.splits)

lemma run_command_after:
  assumes "run_command child proc line s = (Ok (Ended a), s')"
  shows "(case a of Leave st \<Rightarrow> st = Success | Goes_on p prefix \<Rightarrow> same_shell proc p)"
proof -
  obtain ws dashes where p: "parse line = (ws, dashes)" by fastforce
  have refl: "same_shell proc proc" by (simp add: same_shell_def)
  show ?thesis
    using assms refl run_cd_same unfolding run_command_def p prod.case Let_def
    by (auto simp: bindP_Ended split: prod.splits if_splits outcome.splits)
qed

text \<open>A command spins only in the program it runs.\<close>

definition child_spins :: "child \<Rightarrow> waiting \<Rightarrow> bool" where
  "child_spins child s' \<longleftrightarrow> (\<exists>path pid args s. child path pid args s = (Ok Spinning, s'))"

lemma bindP_Spinning:
  "bindP m f = (Ok Spinning, s') \<longleftrightarrow> m = (Ok Spinning, s') \<or> (\<exists>x s. m = (Ok (Ended x), s) \<and> f x s = (Ok Spinning, s'))"
  by (induction m f rule: bindP.induct) auto

lemma run_command_spins: "run_command child proc line s = (Ok Spinning, s') \<Longrightarrow> child_spins child s'"
  by (auto simp: run_command_def execFg_def exec_wait_def child_spins_def Let_def bindP_Spinning split: prod.splits if_splits outcome.splits)
    blast

lemma bindP_Ok_iff:
  "bindP m f = (Ok p, s') \<longleftrightarrow> (\<exists>x s. m = (Ok (Ended x), s) \<and> f x s = (Ok p, s')) \<or>
     (m = (Ok Waiting, s') \<and> p = Waiting) \<or> (m = (Ok Spinning, s') \<and> p = Spinning) \<or> (m = (Ok Cut_off, s') \<and> p = Cut_off)"
  by (induction m f rule: bindP.induct) auto

text \<open>One turn: the next input; then a key that goes on, a line that is run, or the end.\<close>

lemma shell_loop_ok:
  assumes "child_ends child"
  shows "length es < n \<Longrightarrow> ends_or_waits (shell_loop n child proc sh (k, es)) es \<and>
    (\<forall>st s'. shell_loop n child proc sh (k, es) = (Ok (Ended st), s') \<longrightarrow> st = Success \<or> st = Error) \<and>
    (\<forall>s'. shell_loop n child proc sh (k, es) = (Ok Spinning, s') \<longrightarrow> \<not> in_foreground proc (fst s') \<or> child_spins child s') \<and>
    (\<forall>m. length es < m \<longrightarrow> shell_loop m child proc sh (k, es) = shell_loop n child proc sh (k, es))"
    (is "_ \<Longrightarrow> ?P n proc sh k es")
proof (induction n arbitrary: proc sh k es)
  case (Suc n)
  obtain r k1 es1 where rd: "next_input proc (k, es) = (r, (k1, es1))" by (metis prod.exhaust)
  note ni = next_input_cases[OF rd]
  have m': "\<exists>m'. m = Suc m'" if "length es < m" for m using that by (cases m) auto
  have same: ?case if X: "\<And>q. shell_loop (Suc q) child proc sh (k, es) = X" "ends_or_waits X es"
      "\<And>st s'. X = (Ok (Ended st), s') \<Longrightarrow> st = Success \<or> st = Error"
      "\<And>s'. X = (Ok Spinning, s') \<Longrightarrow> \<not> in_foreground proc (fst s') \<or> child_spins child s'" for X
    using X m' by metis
  show ?case
  proof (cases "\<exists>key. r = Ok (Ended (Some key))")
    case False
    have e: "ends_or_waits (r, (k1, es1)) es" using next_input_ends[of proc k es] by (simp add: rd)
    let ?X = "case r of Ok (Ended x) \<Rightarrow> (Ok (Ended Error), (ctl proc TIOCRAW (ABool False) k1, es1)) | Ok Waiting \<Rightarrow> (Ok Waiting, (k1, es1))
               | Ok Spinning \<Rightarrow> (Ok Spinning, (k1, es1)) | Ok Cut_off \<Rightarrow> (Ok Cut_off, (k1, es1))
               | Err e \<Rightarrow> (Err e, (k1, es1)) | Panic \<Rightarrow> (Panic, (k1, es1))"
    show ?thesis
    proof (rule same[of ?X])
      show "shell_loop (Suc q) child proc sh (k, es) = ?X" for q
        using False by (simp add: rd split: outcome.split progress.split option.split)
      show "ends_or_waits ?X es" using e ni(2) by (auto split: outcome.split progress.split)
      show "st = Success \<or> st = Error" if "?X = (Ok (Ended st), s')" for st s'
        using that by (simp split: outcome.splits progress.splits)
      show "\<not> in_foreground proc (fst s') \<or> child_spins child s'" if "?X = (Ok Spinning, s')" for s'
        using that ni(6,7) by (auto split: outcome.splits progress.splits)
    qed
  next
    case True
    then obtain key where r: "r = Ok (Ended (Some key))" by blast
    have l1: "length es1 < length es" using ni(4) r by blast
    obtain c sh2 k2 where c: "canonicalLogic proc key (sh, k1) = (c, (sh2, k2))" by (metis prod.exhaust)
    have m1: "\<exists>m'. m = Suc m' \<and> length es1 < m'" if "length es < m" for m using that l1 by (cases m) auto
    show ?thesis
    proof (cases "\<exists>line. c = Ok line \<and> line \<noteq> []")
      case False
      have "?P n proc sh2 k2 es1" by (rule Suc.IH) (use l1 Suc.prems in simp)
      moreover have "ends_or_waits X es1 \<Longrightarrow> ends_or_waits X es" for X :: "int progress outcome \<times> waiting"
        using ends_or_waits_mono[of X es1 es] l1 by simp
      moreover have "c = Ok [] \<Longrightarrow> shell_loop (Suc q) child proc sh (k, es) = shell_loop q child proc sh2 (k2, es1)" for q
        by (simp add: rd r c)
      moreover have "\<not> (\<exists>e. c = Err e)" using canonicalLogic_no_Err c by blast
      moreover have "?thesis" if "c \<noteq> Ok []" "\<not> (\<exists>e. c = Err e)"
      proof (rule same[of "(Panic, (k2, es1))"])
        have "c = Panic" using False that by (cases c) auto
        then show "shell_loop (Suc q) child proc sh (k, es) = (Panic, (k2, es1))" for q by (simp add: rd r c)
      qed (use l1 in simp_all)
      ultimately show ?thesis using m1 by (cases "c = Ok []") metis+
    next
      case True
      then obtain line where line: "c = Ok line" "line \<noteq> []" by blast
      obtain a k3 es3 where a: "run_command child proc line (k2, es1) = (a, (k3, es3))" by (metis prod.exhaust)
      have l3: "ends_or_waits (a, (k3, es3)) es1" using run_command_ends[OF assms, of proc line k2 es1] by (simp add: a)
      have le: "length es3 \<le> length es1" using l3 by (simp add: ends_or_waits_def)
      show ?thesis
      proof (cases "\<exists>p pre. a = Ok (Ended (Goes_on p pre))")
        case True
        then obtain p pre where g: "a = Ok (Ended (Goes_on p pre))" by blast
        have sp: "same_shell proc p" using run_command_after[of child proc line "(k2, es1)"] a g by fastforce
        let ?k = "out p (pre @ cr @ prompt p) k3"
        have "?P n p sh2 ?k es3" by (rule Suc.IH) (use l1 le Suc.prems in simp)
        moreover have "length es3 < m'" if "length es1 < m'" for m' using that le by simp
        moreover have "shell_loop (Suc q) child proc sh (k, es) = shell_loop q child p sh2 (?k, es3)" for q
          using line by (simp add: rd r c a g)
        moreover have "ends_or_waits X es3 \<Longrightarrow> ends_or_waits X es" for X :: "int progress outcome \<times> waiting"
          using ends_or_waits_mono[of X es3 es] l1 le by simp
        ultimately show ?thesis using m1 same_foreground[OF sp] by metis
      next
        case False
        let ?X = "case a of Ok (Ended (Leave st)) \<Rightarrow> (Ok (Ended st), (k3, es3)) | Ok Waiting \<Rightarrow> (Ok Waiting, (k3, es3))
               | Ok Spinning \<Rightarrow> (Ok Spinning, (k3, es3)) | Ok Cut_off \<Rightarrow> (Ok Cut_off, (k3, es3))
               | Err e \<Rightarrow> (Err e, (k3, es3)) | _ \<Rightarrow> (Panic, (k3, es3))"
        show ?thesis
        proof (rule same[of ?X])
          show "shell_loop (Suc q) child proc sh (k, es) = ?X" for q
            using line False by (simp add: rd r c a split: outcome.split progress.split after.split)
          show "ends_or_waits ?X es" using l3 le l1 False by (auto split: outcome.split progress.split after.split)
          show "st = Success \<or> st = Error" if "?X = (Ok (Ended st), s')" for st s'
            using that run_command_after[of child proc line "(k2, es1)"] a by (auto split: outcome.splits progress.splits after.splits)
          show "\<not> in_foreground proc (fst s') \<or> child_spins child s'" if "?X = (Ok Spinning, s')" for s'
            using that run_command_spins[of child proc line "(k2, es1)"] a by (auto split: outcome.splits progress.splits after.splits)
        qed
      qed
    qed
  qed
qed simp

text \<open>
  C30. What becomes of the shell. If the programs it runs end or wait themselves, as many turns as there are events, and one, decide it,
  and more change nothing. It has then panicked, has taken every event and waits for the next, has returned, or spins: the shell itself
  does so exactly when it is not in the foreground of its terminal, from the start or after a command, where each read fails at
  once and changes nothing, or the program it runs does. Nothing else can happen, so it never just stops.
\<close>

theorem shell_loop_ends:
  assumes "child_ends child" "length es < n" "shell_loop n child proc sh (k, es) = (r, (k', es'))"
  shows "(r = Panic \<or> r = Ok Waiting \<and> es' = [] \<or> r = Ok (Ended Success) \<or> r = Ok (Ended Error) \<or>
      r = Ok Spinning \<and> (\<not> in_foreground proc k' \<or> child_spins child (k', es'))) \<and>
    (\<not> in_foreground proc k \<longrightarrow> r = Ok Spinning \<and> k' = k \<and> es' = es) \<and>
    (\<forall>m. length es < m \<longrightarrow> shell_loop m child proc sh (k, es) = (r, (k', es')))"
proof -
  note l = shell_loop_ok[OF assms(1,2), of proc sh k, unfolded assms(3)]
  have "r = Ok Spinning \<and> k' = k \<and> es' = es" if "\<not> in_foreground proc k"
  proof -
    obtain q k1 es1 where rd: "next_input proc (k, es) = (q, (k1, es1))" by (metis prod.exhaust)
    have "q = Ok Spinning" "k1 = k" "es1 = es" using next_input_cases(6,7)[OF rd] that by blast+
    moreover obtain m where "n = Suc m" using assms(2) by (cases n) auto
    ultimately show ?thesis using assms(3) rd by simp
  qed
  moreover have "r = Panic \<or> r = Ok Waiting \<and> es' = [] \<or> r = Ok Spinning \<or> (\<exists>st. r = Ok (Ended st))"
    using l by (cases r; cases "case r of Ok p \<Rightarrow> p") auto
  ultimately show ?thesis using l by fastforce
qed

theorem shell_loop_ends_witness:
  "\<exists>s. shell_loop 9 (\<lambda>path pid args s. (Ok (Ended Success), s)) demo_user new_shell (demo_running, [Key ''x'', Cancelled]) = (Ok Spinning, s)"
proof -
  let ?child = "\<lambda>path pid args s. (Ok (Ended Success), s)"
  have c: "child_ends ?child" by (simp add: child_ends_def ends_or_waits_def)
  have f: "\<not> in_foreground demo_user demo_running"
    by (simp add: in_foreground_def demo_running_def demo_user_def desc_of_def NewTTY_def)
  obtain r k' es' where r: "shell_loop 9 ?child demo_user new_shell (demo_running, [Key ''x'', Cancelled]) = (r, (k', es'))"
    by (metis prod.exhaust)
  have "length [Key ''x'', Cancelled] < 9" by simp
  from shell_loop_ends[OF c this r] show ?thesis using f r by blast
qed

section \<open>Leaving the shell\<close>

text \<open>A key in raw mode is the next input as it is, but for those the terminal drops.\<close>

lemma raw_key:
  assumes "raw_tty proc k"
  shows "next_input proc (k, Cancelled # es) = (Ok (Ended None), (k, es))"
    "has_prefix key ctrl_arrow \<or> key = '';'' \<Longrightarrow> next_input proc (k, Key key # es) = next_input proc (k, es)"
    "\<not> (has_prefix key ctrl_arrow \<or> key = '';'') \<Longrightarrow> next_input proc (k, Key key # es) = (Ok (Ended (Some key)), (k, es))"
proof -
  obtain t where t: "term_of proc k = Some t" "\<not> Canonical t" "\<not> Echo t" "ForegroundPGID t = PGID proc" "Session t \<noteq> None"
    using assms by (auto simp: raw_tty_def)
  obtain d where d: "desc_of proc 0 k = Some d" "fd_Type d = FDTTY" "fd_TTY d < length (ttys k)" "ttys k ! fd_TTY d = t"
    using term_of_Some[OF t(1)] by blast
  have same: "set_tty (fd_TTY d) t k = k" unfolding d(4)[symmetric] by (simp add: set_tty_def)
  have e: "Exit \<noteq> Success" by (simp add: status_defs)
  show "next_input proc (k, Cancelled # es) = (Ok (Ended None), (k, es))"
    using t d same e by (simp add: next_input_def Kernel_Read_def TTY_Read_def)
  show "next_input proc (k, Key key # es) = next_input proc (k, es)" if "has_prefix key ctrl_arrow \<or> key = '';''"
    using t d that by (auto simp: next_input_def Kernel_Read_def TTY_Read_def read_key_def)
  show "next_input proc (k, Key key # es) = (Ok (Ended (Some key)), (k, es))" if "\<not> (has_prefix key ctrl_arrow \<or> key = '';'')"
    using t d that same by (simp add: next_input_def Kernel_Read_def TTY_Read_def read_key_def)
qed

text \<open>Typed keys take a turn each, but for those the terminal drops, and lead to the line the keys make.\<close>

lemma shell_types:
  assumes "sh_ok (sh, k)" "\<forall>key \<in> set keys. sh_typeable key" "raw_tty proc k"
  shows "\<exists>sh' k'. shell_editor.press_all proc keys (sh, k) = Some (sh', k') \<and> raw_tty proc k' \<and>
    (\<forall>n es. \<exists>m \<ge> n. shell_loop (length keys + Suc n) child proc sh (k, map Key keys @ es) = shell_loop (Suc m) child proc sh' (k', es))"
  using assms
proof (induction keys arbitrary: sh k)
  case (Cons key keys)
  obtain sh1 k1 where p: "sh_press proc key (sh, k) = Some (sh1, k1)" "sh_ok (sh1, k1)"
    using sh_press_edit[OF Cons.prems(1), of key proc] Cons.prems(2) by auto
  have c: "canonicalLogic proc key (sh, k) = (Ok [], (sh1, k1))"
    using p(1) by (auto simp: sh_press_def split: outcome.splits prod.splits if_splits)
  have raw: "raw_tty proc k1" using canonicalLogic_raw[of proc proc key "(sh, k)"] Cons.prems(3) by (simp add: c)
  have "\<forall>key \<in> set keys. sh_typeable key" using Cons.prems(2) by simp
  from Cons.IH[OF p(2) this raw] obtain sh' k' where s: "shell_editor.press_all proc keys (sh1, k1) = Some (sh', k')" "raw_tty proc k'"
    "\<And>n es. \<exists>m \<ge> n. shell_loop (length keys + Suc n) child proc sh1 (k1, map Key keys @ es) = shell_loop (Suc m) child proc sh' (k', es)"
    by blast
  have "\<exists>m \<ge> n. shell_loop (length (key # keys) + Suc n) child proc sh (k, map Key (key # keys) @ es) = shell_loop (Suc m) child proc sh' (k', es)" for n es
  proof (cases "has_prefix key ctrl_arrow \<or> key = '';''")
    case True
    then have "sh1 = sh" "k1 = k" using c by (auto simp: canonicalLogic_def)
    then have "shell_loop (length (key # keys) + Suc n) child proc sh (k, map Key (key # keys) @ es) =
        shell_loop (length keys + Suc (Suc n)) child proc sh1 (k1, map Key keys @ es)"
      using raw_key(2)[OF Cons.prems(3) True] by simp
    then show ?thesis using s(3)[of "Suc n" es] Suc_leD by metis
  next
    case False
    then show ?thesis using s(3)[of n es] raw_key(3)[OF Cons.prems(3) False] c by simp
  qed
  then show ?case using p(1) s(1,2) by auto
qed (auto intro: exI)

text \<open>
  C23. The way out of the shell. Whatever ASCII keys edit the line, arrows and deletes included, once the text they make has \<open>exit\<close> as its
  first word that is no flag, Enter ends the shell with success; and the end of the context ends it with an error in the middle of
  any line. Either way the terminal is in line mode again, the keys after that are left for the next reader, and no program ran.
\<close>

theorem shell_exits:
  assumes "sh_ok (sh, k)" "\<forall>key \<in> set keys. sh_typeable key" "raw_tty proc k" "length keys < n"
    and "line = (let (l, r) = fold edit_key keys (sh_line (sh, k)) in l @ r)"
  shows "(hd (fst (parse line)) = ''exit'' \<longrightarrow> (\<exists>k' t. term_of proc k' = Some t \<and> Canonical t \<and> Echo t \<and>
      (\<forall>child. shell_loop n child proc sh (k, map Key keys @ Key key_enter # es) = (Ok (Ended Success), (k', es))))) \<and>
    (\<exists>k' t. term_of proc k' = Some t \<and> Canonical t \<and> Echo t \<and>
      (\<forall>child. shell_loop n child proc sh (k, map Key keys @ Cancelled # es) = (Ok (Ended Error), (k', es))))"
proof -
  obtain d where d: "n = length keys + Suc d" using assms(4) less_iff_Suc_add by (metis add_Suc_right)
  obtain sh1 k1 where p: "shell_editor.press_all proc keys (sh, k) = Some (sh1, k1)" "raw_tty proc k1"
    using shell_types[OF assms(1-3)] by blast
  have st: "\<exists>m. shell_loop n child proc sh (k, map Key keys @ es) = shell_loop (Suc m) child proc sh1 (k1, es)" for child es
    using shell_types[OF assms(1-3), of child] p(1) d by (metis fst_conv option.inject snd_conv)
  have lines: "\<exists>t. term_of proc (ctl proc TIOCRAW (ABool False) k2) = Some t \<and> Canonical t \<and> Echo t" if raw: "raw_tty proc k2" for k2
  proof -
    obtain t where t: "term_of proc k2 = Some t" using raw by (auto simp: raw_tty_def)
    have "term_of proc (ctl proc TIOCRAW (ABool False) k2) = Some (t\<lparr>Canonical := True, Echo := True\<rparr>)"
      by (rule ctl_term[OF t]) (simp add: tty_ioctl_def)
    then show ?thesis by simp
  qed
  have "\<exists>k' t. term_of proc k' = Some t \<and> Canonical t \<and> Echo t \<and>
      (\<forall>child. shell_loop n child proc sh (k, map Key keys @ Cancelled # es) = (Ok (Ended Error), (k', es)))"
  proof -
    have "shell_loop n child proc sh (k, map Key keys @ Cancelled # es) = (Ok (Ended Error), (ctl proc TIOCRAW (ABool False) k1, es))" for child
      using st[of child "Cancelled # es"] raw_key(1)[OF p(2)] by auto
    then show ?thesis using lines[OF p(2)] by blast
  qed
  moreover have "\<exists>k' t. term_of proc k' = Some t \<and> Canonical t \<and> Echo t \<and>
      (\<forall>child. shell_loop n child proc sh (k, map Key keys @ Key key_enter # es) = (Ok (Ended Success), (k', es)))"
    if ex: "hd (fst (parse line)) = ''exit''"
  proof -
    obtain s' where l: "sh_return proc (sh1, k1) = Some (line, s')"
      using shell_editor.line_recorded[OF assms(1,2), of proc] p(1) assms(5) by auto
    obtain sh2 k2 where c: "canonicalLogic proc key_enter (sh1, k1) = (Ok line, (sh2, k2))"
      using l by (cases s') (auto simp: sh_return_def split: outcome.splits prod.splits)
    have raw: "raw_tty proc k2" using canonicalLogic_raw[of proc proc key_enter "(sh1, k1)"] p(2) by (simp add: c)
    have ne: "line \<noteq> []"
    proof
      assume "line = []"
      then show False using ex by (simp add: parse_def str_fields_def)
    qed
    have np: "\<not> (has_prefix key_enter ctrl_arrow \<or> key_enter = '';'')" by (simp add: key_defs has_prefix_def)
    obtain ws dashes where ws: "parse line = (ws, dashes)" by fastforce
    have "run_command child proc line (k2, es) = (Ok (Ended (Leave Success)), (ctl proc TIOCRAW (ABool False) k2, es))" for child
      using ex by (simp add: run_command_def ws)
    then have "shell_loop n child proc sh (k, map Key keys @ Key key_enter # es) = (Ok (Ended Success), (ctl proc TIOCRAW (ABool False) k2, es))" for child
      using st[of child "Key key_enter # es"] raw_key(3)[OF p(2) np] c ne by auto
    then show ?thesis using lines[OF raw] by blast
  qed
  ultimately show ?thesis by blast
qed

text \<open>The demonstration system with its terminal as a shell sets it.\<close>

definition demo_raw :: kernel where
  "demo_raw = demo_running\<lparr>ttys := [(NewTTY ''tty-0'')\<lparr>Canonical := False, Echo := False, ForegroundPGID := 1,
     Session := Some \<lparr>SessionID = [], CurrentUser = []\<rparr>\<rparr>]\<rparr>"

theorem shell_exits_witness:
  "\<exists>k'. \<forall>child. shell_loop 9 child demo_user new_shell (demo_raw, map Key [''e'', ''x'', ''i'', ''u'', key_delete, ''t''] @ Key key_enter # [Key ''l'']) =
     (Ok (Ended Success), (k', [Key ''l'']))"
proof -
  let ?keys = "[''e'', ''x'', ''i'', ''u'', key_delete, ''t'']"
  have ty: "\<forall>key \<in> set ?keys. sh_typeable key" by (simp add: sh_typeable_def key_defs)
  have s: "sh_ok (new_shell, demo_raw)" "sh_line (new_shell, demo_raw) = ([], [])" by (simp_all add: sh_ok_def sh_line_def new_shell_def)
  have e: "fold edit_key ?keys ([], []) = (''exit'', [])"
    by (simp add: edit_key_def key_defs control_keys_def has_prefix_def key_text_def)
  have r: "raw_tty demo_user demo_raw"
    by (simp add: raw_tty_def term_of_def stdin_tty_def desc_of_def demo_raw_def demo_running_def demo_user_def)
  have l: "''exit'' = (let (l, r) = fold edit_key ?keys (sh_line (new_shell, demo_raw)) in l @ r)" unfolding s(2) e by simp
  have "word_ok ''exit''" by (simp add: word_ok_def is_space_def)
  then have "hd (fst (parse ''exit'')) = ''exit''" using shell_parse_words[of "[''exit'']"] by simp
  then show ?thesis using shell_exits[OF s(1) ty r _ l, of 9 "[Key ''l'']"] by auto
qed

section \<open>Changing the directory\<close>

text \<open>
  C31. \<open>cd\<close> follows the elements of its argument from the root or from the working directory, \<open>..\<close> included, and moves
  the shell there exactly if that is a directory it may execute; otherwise it stays where it is. A \<open>~\<close> is the name
  of a file here: the shell joins it to the working directory before the kernel could expand it.
\<close>

theorem shell_cd:
  assumes "kernel_inv k" "CWD proc = abs_path ds" "\<forall>c \<in> set ds. comp_ok c"
    and "cs = descend (if has_prefix dir ''/'' then [] else ds) (split_on CHR ''/'' dir)"
  shows "\<exists>k'. run_cd proc [''cd'', dir] [] k =
    (Ok (if tree_enter (tree (kfs k)) (EUID proc) cs = Ok () then proc\<lparr>CWD := abs_path cs\<rparr> else proc), k') \<and> kernel_inv k'"
proof -
  let ?d = "if has_prefix dir ''/'' then dir else path_join (CWD proc) dir"
  have ok: "\<forall>c \<in> set cs. comp_ok c"
    unfolding assms(4) by (rule descend_ok) (use assms(3) in \<open>auto dest: split_parts\<close>)
  have "path_clean ?d = abs_path cs"
  proof (cases "has_prefix dir ''/''")
    case True
    then obtain q where q: "dir = CHR ''/'' # q" by (cases dir) (auto simp: has_prefix_def)
    then show ?thesis using True path_clean_rooted[of q] by (simp add: assms(4))
  next
    case False
    then show ?thesis using join_abs_path[OF assms(3), of dir] clean_abs_path[OF ok] by (simp add: assms(2,4))
  qed
  then have d: "(let dir = [''cd'', dir] ! 1; dir = (if has_prefix dir ''/'' then dir else path_join (CWD proc) dir) in path_clean dir) = abs_path cs"
    by simp
  have p: "path_of proc (abs_path cs) = cs" by (rule path_of_abs_path[OF ok])
  obtain k1 where k1: "changeDirectory proc (abs_path cs) k =
      (let r = tree_enter (tree (kfs k)) (EUID proc) cs in (r, if r = Ok () then proc\<lparr>CWD := abs_path cs\<rparr> else proc, k1))"
    "kernel_inv k1" using changeDirectory_tree[OF assms(1), of proc "abs_path cs"] p by metis
  let ?r = "tree_enter (tree (kfs k)) (EUID proc) cs"
  have np: "?r \<noteq> Panic" by (auto simp: tree_enter_def split: outcome.split option.split node.split)
  have call: "Syscall (\<lambda>path pid params k. (Error, k)) (0, 0) proc SYS_CHDIR [AString (abs_path cs)] k =
      (bindO ?r (\<lambda>_. Ok RNil), if ?r = Ok () then proc\<lparr>CWD := abs_path cs\<rparr> else proc, k1)"
    using k1(1) by (simp add: Syscall_def arg_at_def as_defs Let_def)
  have inv: "kernel_inv (out p s k1)" for p s using k1(2) term_only_inv[OF term_only_out] by blast
  show ?thesis
    using d call inv np by (cases ?r) (auto simp: run_cd_def Let_def)
qed

theorem shell_cd_witness:
  "\<exists>k'. run_cd root_proc [''cd'', ''x/..''] [] demo_kernel = (Ok root_proc, k') \<and> kernel_inv k'"
proof -
  have e: "CWD root_proc = abs_path []" by (simp add: root_proc_def abs_path_def)
  have cs: "[] = descend (if has_prefix ''x/..'' ''/'' then [] else []) (split_on CHR ''/'' ''x/..'')" by code_simp
  have "root_proc\<lparr>CWD := abs_path []\<rparr> = root_proc" using e by simp
  then show ?thesis using shell_cd[OF demo_tree(1) e _ cs] by (simp split: if_splits)
qed

end
