(* ===== verification/Users.thy ===== *)
theory Users
  imports Programs Boot
begin

text \<open>
  \<open>programs/login\<close> and \<open>programs/adduser\<close>: the password file and the two programs that use it. A line of the file is
  \<open>user:password:uid:home\<close>. Both programs run with root as their effective user, since their files are setuid.
\<close>

section \<open>The password file\<close>

definition passwd_path :: string where "passwd_path = ''/etc/passwd''"

definition passwd_lines :: "u8 list \<Rightarrow> string list" where
  "passwd_lines dat = split_on CHR 0x0A (bytes_string dat)"

text \<open>The lines \<open>checkCredentials\<close> accepts, and the search of it.\<close>

definition line_matches :: "string \<Rightarrow> string \<Rightarrow> string \<Rightarrow> bool" where
  "line_matches username password line \<longleftrightarrow> line \<noteq> [] \<and>
     (let fields = split_on CHR '':'' line
      in 2 \<le> length fields \<and> fields ! 0 = username \<and> fields ! 1 = password)"

definition credentials_ok :: "u8 list \<Rightarrow> string \<Rightarrow> string \<Rightarrow> bool" where
  "credentials_ok dat username password \<longleftrightarrow> (\<exists>line \<in> set (passwd_lines dat). line_matches username password line)"

definition checkCredentials :: "process \<Rightarrow> string \<Rightarrow> string \<Rightarrow> kernel \<Rightarrow> bool outcome \<times> kernel" where
  "checkCredentials proc username password k =
     on_result (sys (0, 0) proc SYS_READ [AString passwd_path] k)
       (\<lambda>r k. (Ok (credentials_ok (res_bytes r) username password), k))
       (\<lambda>e k. (Ok False, k))"

definition name_taken :: "u8 list \<Rightarrow> string \<Rightarrow> bool" where
  "name_taken dat username \<longleftrightarrow> (\<exists>line \<in> set (passwd_lines dat). \<not> blank_text line \<and>
     (let fields = split_on CHR '':'' line in 1 \<le> length fields \<and> fields ! 0 = username))"

definition isUsernameUnique :: "process \<Rightarrow> string \<Rightarrow> kernel \<Rightarrow> bool outcome \<times> kernel" where
  "isUsernameUnique proc username k =
     on_result (sys (0, 0) proc SYS_READ [AString passwd_path] k)
       (\<lambda>r k. (Ok (\<not> name_taken (res_bytes r) username), k))
       (\<lambda>e k. (Ok False, k))"

definition user_count :: "u8 list \<Rightarrow> nat" where
  "user_count dat = length (filter (\<lambda>line. \<not> blank_text line) (passwd_lines dat))"

text \<open>\<open>findUID\<close>: \<open>None\<close> is the result \<open>false\<close>.\<close>

definition findUID :: "process \<Rightarrow> kernel \<Rightarrow> int option outcome \<times> kernel" where
  "findUID proc k =
     on_result (sys (0, 0) proc SYS_READ [AString passwd_path] k)
       (\<lambda>r k. (Ok (Some (1000 + int (user_count (res_bytes r)))), k))
       (\<lambda>e k. (Ok None, k))"

definition user_line :: "string \<Rightarrow> string \<Rightarrow> int \<Rightarrow> string" where
  "user_line username password uid =
     username @ '':'' @ password @ '':'' @ itoa uid @ '':'' @ home_dir username @ nl"

definition addUser :: "u64 \<times> u64 \<Rightarrow> process \<Rightarrow> string \<Rightarrow> string \<Rightarrow> int \<Rightarrow> kernel \<Rightarrow> string outcome \<times> kernel" where
  "addUser now proc username password uid k =
     bindS (on_result (sys now proc SYS_READ [AString passwd_path] k) (\<lambda>r k. (Ok (res_bytes r), k)) (\<lambda>e k. (Ok [], k)))
       (\<lambda>existing k.
          on_result (sys now proc SYS_WRITE [AString passwd_path, ABytes (existing @ string_bytes (user_line username password uid))] k)
            (\<lambda>_ k. (Ok (''Successfully added '' @ username), k))
            (\<lambda>e k. (Ok (''Error writing to passwd: '' @ error_text e), k)))"

section \<open>adduser\<close>

text \<open>A step of a program on the kernel, while it waits for events.\<close>

definition on_kernel :: "'a outcome \<times> kernel \<Rightarrow> tty_event list \<Rightarrow> ('a \<Rightarrow> waiting \<Rightarrow> int progress outcome \<times> waiting) \<Rightarrow>
    int progress outcome \<times> waiting" where
  "on_kernel m es f = (case m of
     (Ok x, k) \<Rightarrow> f x (k, es)
   | (Err e, k) \<Rightarrow> (Err e, (k, es))
   | (Panic, k) \<Rightarrow> (Panic, (k, es)))"

text \<open>What each does on a signal; the result says whether it cancelled its context, for the reads to come.\<close>

definition Adduser_HandleSignal :: "process \<Rightarrow> signal \<Rightarrow> kernel \<Rightarrow> bool \<times> kernel" where
  "Adduser_HandleSignal proc sig k =
     (if sig = SIGINT then
        (True, out proc (nl @ ''(SIGINT), force quitting!'' @ nl)
          (ctl proc TIOCBUFFCLEAR (ABool True) (ctl proc TIOCPASSWD (ABool False) k)))
      else (False, k))"

definition Login_HandleSignal :: "process \<Rightarrow> signal \<Rightarrow> kernel \<Rightarrow> bool \<times> kernel" where
  "Login_HandleSignal proc sig k = (sig = SIGINT, k)"

text \<open>The deferred call that leaves the terminal in raw mode when the program returns.\<close>

definition leave_raw :: "process \<Rightarrow> int progress outcome \<times> waiting \<Rightarrow> int progress outcome \<times> waiting" where
  "leave_raw proc m = (case m of
     (Ok (Ended status), (k, es)) \<Rightarrow> (Ok (Ended status), (ctl proc TIOCRAW (ABool True) k, es))
   | _ \<Rightarrow> m)"

definition add_named :: "u64 \<times> u64 \<Rightarrow> process \<Rightarrow> string \<Rightarrow> waiting \<Rightarrow> int progress outcome \<times> waiting" where
  "add_named now proc username s =
     read_line proc Error s (\<lambda>password (k, es).
       on_kernel (findUID proc (ctl proc TIOCPASSWD (ABool False) k)) es (\<lambda>uid (k, es). case uid of
          None \<Rightarrow> (Ok (Ended Error), (out proc (nl @ ''Err: could not create valid UID'' @ nl) k, es))
        | Some uid \<Rightarrow> on_kernel (addUser now proc username password uid k) es (\<lambda>msg (k, es).
            (Ok (Ended Success), (out proc (nl @ msg @ nl) k, es)))))"

definition Adduser_Run :: "u64 \<times> u64 \<Rightarrow> process \<Rightarrow> string list \<Rightarrow> waiting \<Rightarrow> int progress outcome \<times> waiting" where
  "Adduser_Run now proc params s = leave_raw proc (case s of (k, es) \<Rightarrow>
     let k = ctl proc TIOCRAW (ABool False) k
     in if length params \<noteq> 1 then (Ok (Ended Error), (out proc (nl @ ''Usage: adduser'' @ nl) k, es))
        else read_line proc Error (out proc (nl @ ''Enter username: '') k, es) (\<lambda>value (k, es).
          if value = [] then
            (Ok (Ended Error), (out proc ([CHR 0x09] @ ''hat a horrible username, its empty child!'' @ nl) k, es))
          else on_kernel (isUsernameUnique proc value k) es (\<lambda>uniq (k, es).
            if \<not> uniq then
              (Ok (Ended Error), (out proc (nl @ ''Username already exists, don'' @ [CHR 0x27] @ ''t be so generic'' @ nl) k, es))
            else add_named now proc value
              (ctl proc TIOCPASSWD (ABool True) (out proc (nl @ ''Password: '') k), es))))"

section \<open>login\<close>

fun replace_all :: "string \<Rightarrow> string \<Rightarrow> nat \<Rightarrow> string \<Rightarrow> string" where
  "replace_all old new (Suc n) [] = []"
| "replace_all old new (Suc n) (c # s) =
     (if has_prefix (c # s) old then new @ replace_all old new n (drop (length old) (c # s)) else c # replace_all old new n s)"
| "replace_all old new 0 s = []"

text \<open>\<open>strings.ReplaceAll\<close> with a text that is not empty; as many turns as the string has characters are enough.\<close>

definition str_replace :: "string \<Rightarrow> string \<Rightarrow> string \<Rightarrow> string" where
  "str_replace s old new = replace_all old new (Suc (length s)) s"

definition greet :: "process \<Rightarrow> string \<Rightarrow> (string \<Rightarrow> string) \<Rightarrow> kernel \<Rightarrow> unit outcome \<times> kernel" where
  "greet proc path f k =
     on_result (sys (0, 0) proc SYS_READ [AString path] k)
       (\<lambda>r k. (Ok (), out proc (f (bytes_string (res_bytes r))) k))
       (\<lambda>e k. (Ok (), k))"

definition open_session :: "u64 \<times> u64 \<Rightarrow> process \<Rightarrow> string \<Rightarrow> kernel \<Rightarrow> int outcome \<times> kernel" where
  "open_session now proc username k =
     bindS (greet proc ''/etc/motd'' (\<lambda>motd. str_replace motd ''[[USERNAME]]'' username) k) (\<lambda>_ k.
     bindS (Kernel_NewSession now proc username k) (\<lambda>(status, name) k.
       (Ok (if status \<noteq> Success then Error else Success), k)))"

definition Login_Run :: "u64 \<times> u64 \<Rightarrow> process \<Rightarrow> string list \<Rightarrow> waiting \<Rightarrow> int progress outcome \<times> waiting" where
  "Login_Run now proc params s = (case s of (k, es) \<Rightarrow>
     on_kernel (greet proc ''/etc/issue'' (\<lambda>issue. issue) k) es (\<lambda>_ (k, es).
     read_line proc Error (out proc (cr @ nl @ ''USERNAME: '') k, es) (\<lambda>username (k, es).
     if username = [] then (Ok (Ended Error), (k, es))
     else read_line proc Error (out proc (cr @ nl @ ''PASSWORD: '') (ctl proc TIOCPASSWD (ABool True) k), es) (\<lambda>password (k, es).
     if password = [] then (Ok (Ended Error), (k, es))
     else on_kernel (checkCredentials proc username password (ctl proc TIOCPASSWD (ABool False) k)) es (\<lambda>ok (k, es).
       if \<not> ok then (Ok (Ended Error), (k, es))
       else on_kernel (open_session now proc username k) es (\<lambda>status (k, es). (Ok (Ended status), (k, es))))))))"

end
