(* ===== verification/Cmds.thy ===== *)
theory Cmds
  imports Programs
begin

text \<open>
  \<open>programs/cmds/cmds.go\<close>: the commands \<open>ls\<close>, \<open>clear\<close>, \<open>cat\<close>, \<open>mkdir\<close>, \<open>touch\<close>, \<open>chmod\<close> and \<open>rm\<close>. None of them
  reads the terminal. \<open>params\<close> is the command line, the name of the command first.
\<close>

section \<open>The commands that make one call\<close>

definition Clear_Run :: "process \<Rightarrow> string list \<Rightarrow> kernel \<Rightarrow> int outcome \<times> kernel" where
  "Clear_Run proc params k =
     (if 1 < length params then (Ok Error, out proc (''Usage: clear'' @ nl) k)
      else (Ok Success, out proc (esc @ ''[H'' @ esc @ ''[2J'') k))"

definition Cat_Run :: "process \<Rightarrow> string list \<Rightarrow> kernel \<Rightarrow> int outcome \<times> kernel" where
  "Cat_Run proc params k =
     (if length params \<noteq> 2 then (Ok Error, out proc (nl @ ''Usage: cat <path>'' @ nl) k)
      else on_result (sys (0, 0) proc SYS_READ [AString (params ! 1)] k)
        (\<lambda>r k. (Ok Success, out proc (nl @ bytes_string (res_bytes r) @ nl) k))
        (\<lambda>e k. (Ok Error, out proc
           (if has_suffix (error_text e) ''no such file or directory''
            then nl @ ''cat: cannot open: No such file or directory'' @ nl
            else nl @ ''Failed to open file'' @ nl) k)))"

text \<open>\<open>mkdir\<close>, \<open>touch\<close> and \<open>rm\<close> differ in the call and the texts.\<close>

definition one_call :: "u64 \<times> u64 \<Rightarrow> process \<Rightarrow> syscall_num \<Rightarrow> string \<Rightarrow> string \<Rightarrow> string list \<Rightarrow> kernel \<Rightarrow> int outcome \<times> kernel" where
  "one_call now proc n usage failed params k =
     (if length params \<noteq> 2 then (Ok Error, out proc (nl @ usage @ nl) k)
      else on_result (sys now proc n [AString (params ! 1)] k)
        (\<lambda>_ k. (Ok Success, out proc nl k))
        (\<lambda>e k. (Ok Error, out proc (nl @ failed @ error_text e @ nl) k)))"

definition MkDir_Run :: "u64 \<times> u64 \<Rightarrow> process \<Rightarrow> string list \<Rightarrow> kernel \<Rightarrow> int outcome \<times> kernel" where
  "MkDir_Run now proc = one_call now proc SYS_MKDIR ''Usage: mkdir <path>'' ''Failed to create directory ''"

definition Touch_Run :: "u64 \<times> u64 \<Rightarrow> process \<Rightarrow> string list \<Rightarrow> kernel \<Rightarrow> int outcome \<times> kernel" where
  "Touch_Run now proc = one_call now proc SYS_CREATE ''Usage: touch <path>'' ''Failed to create file ''"

definition Rm_Run :: "process \<Rightarrow> string list \<Rightarrow> kernel \<Rightarrow> int outcome \<times> kernel" where
  "Rm_Run proc = one_call (0, 0) proc SYS_REMOVE ''Usage: rm <path>, equivalent to rm -rf'' ''Failed to delete file: ''"

section \<open>chmod\<close>

text \<open>The mode: who, an operator, and the permissions; \<open>None\<close> when there is no operator.\<close>

definition split_mode :: "string \<Rightarrow> (string \<times> char \<times> string) option" where
  "split_mode mode = (case dropWhile (\<lambda>c. c \<notin> {CHR ''+'', CHR ''-'', CHR ''=''}) mode of
     [] \<Rightarrow> None
   | op # perms \<Rightarrow> Some (takeWhile (\<lambda>c. c \<notin> {CHR ''+'', CHR ''-'', CHR ''=''}) mode, op, perms))"

definition mode_who :: "string \<Rightarrow> string" where
  "mode_who who = (if who = [] \<or> who = ''a'' then ''uo'' else who)"

text \<open>The loops over \<open>who\<close> and the permissions go rune by rune.\<close>

fun check_who :: "nat list \<Rightarrow> unit outcome" where
  "check_who [] = Ok ()"
| "check_who (w # ws) =
     (if w \<noteq> of_char CHR ''u'' \<and> w \<noteq> of_char CHR ''o'' then Err (ErrorText (''invalid who: '' @ string_of_runes [w]))
      else check_who ws)"

fun perm_bits :: "nat list \<Rightarrow> u8 \<Rightarrow> u8 outcome" where
  "perm_bits [] bits = Ok bits"
| "perm_bits (c # cs) bits =
     (if c = of_char CHR ''r'' then perm_bits cs (bits OR 4)
      else if c = of_char CHR ''w'' then perm_bits cs (bits OR 2)
      else if c = of_char CHR ''x'' then perm_bits cs (bits OR 1)
      else Err (ErrorText (''invalid permission: '' @ string_of_runes [c])))"

definition apply_mode :: "char \<Rightarrow> u8 \<Rightarrow> u8 \<Rightarrow> u8" where
  "apply_mode op bits current =
     (if op = CHR ''+'' then current OR bits
      else if op = CHR ''-'' then current AND (NOT bits)
      else if op = CHR ''='' then bits
      else current)"

definition parseChmodMode :: "string \<Rightarrow> process \<Rightarrow> string \<Rightarrow> kernel \<Rightarrow> (u8 \<times> u8) outcome \<times> kernel" where
  "parseChmodMode mode proc target k = (case split_mode mode of
     None \<Rightarrow> (Err (ErrorText ''missing operator''), k)
   | Some (who, op, perms) \<Rightarrow>
       let who = runes (mode_who who)
       in bindS (check_who who, k) (\<lambda>_ k.
          bindS (perm_bits (runes perms) 0, k) (\<lambda>bits k.
          on_result (sys (0, 0) proc SYS_STAT [AString target] k)
            (\<lambda>r k. let meta = res_meta r in
               (Ok (if of_char CHR ''u'' \<in> set who then apply_mode op bits (OwnerMode meta) else OwnerMode meta,
                    if of_char CHR ''o'' \<in> set who then apply_mode op bits (OtherMode meta) else OtherMode meta), k))
            (\<lambda>e k. (Err (ErrorText ''no such file or directory''), k)))))"

definition Chmod_Run :: "process \<Rightarrow> string list \<Rightarrow> kernel \<Rightarrow> int outcome \<times> kernel" where
  "Chmod_Run proc params k =
     (if length params \<noteq> 3 then (Ok Error, out proc (nl @ ''Usage: chmod <mode> <path>'' @ nl) k)
      else on_result (parseChmodMode (params ! 1) proc (params ! 2) k)
        (\<lambda>(newOwner, newOther) k.
           on_result (sys (0, 0) proc SYS_CHMOD [AString (params ! 2), AUint8 newOwner, AUint8 newOther] k)
             (\<lambda>_ k. (Ok Success, out proc nl k))
             (\<lambda>e k. (Ok Error, out proc (nl @ ''chmod: '' @ error_text e @ nl) k)))
        (\<lambda>e k. (Ok Error, out proc (nl @ ''chmod: invalid mode: '' @ (params ! 1) @ nl) k)))"

section \<open>ls\<close>

definition color :: "string \<Rightarrow> string \<Rightarrow> string" where
  "color code s = esc @ ''['' @ code @ ''m'' @ s @ esc @ ''[0m''"

definition mode_letter :: "u8 \<Rightarrow> u8 \<Rightarrow> string \<Rightarrow> string \<Rightarrow> string" where
  "mode_letter mode flag code letter = (if mode AND flag \<noteq> 0 then color code letter else color ''90'' ''-'')"

definition formatMode :: "u8 \<Rightarrow> u8 \<Rightarrow> bool \<Rightarrow> string" where
  "formatMode own oth suid =
     mode_letter own 4 ''93'' ''r'' @ mode_letter own 2 ''91'' ''w'' @ mode_letter own 1 ''92'' ''x'' @
     mode_letter oth 4 ''93'' ''r'' @ mode_letter oth 2 ''91'' ''w'' @ mode_letter oth 1 ''92'' ''x'' @
     (if suid then color ''95'' ''s'' @ '' '' else ''  '')"

text \<open>The directory and the flag of the command line, the last of each.\<close>

definition ls_args :: "string \<Rightarrow> string list \<Rightarrow> string \<times> string" where
  "ls_args cwd params = foldl (\<lambda>(dir, flag) p. if has_prefix p ''-'' then (dir, p) else (p, flag)) (cwd, []) params"

text \<open>The metadata of a listed file; zero when \<open>stat\<close> fails, which the code ignores.\<close>

definition ls_stat :: "process \<Rightarrow> string \<Rightarrow> file_info \<Rightarrow> kernel \<Rightarrow> file_metadata outcome \<times> kernel" where
  "ls_stat proc dir f k =
     on_result (sys (0, 0) proc SYS_STAT [AString (path_join dir (fi_Name f))] k)
       (\<lambda>r k. (Ok (res_meta r), k)) (\<lambda>e k. (Ok zero_metadata, k))"

fun longest_owner :: "process \<Rightarrow> string \<Rightarrow> file_info list \<Rightarrow> int \<Rightarrow> kernel \<Rightarrow> int outcome \<times> kernel" where
  "longest_owner proc dir [] longest k = (Ok longest, k)"
| "longest_owner proc dir (f # fs) longest k =
     bindS (ls_stat proc dir f k) (\<lambda>meta k.
       longest_owner proc dir fs (if int (length (Owner meta)) > longest then int (length (Owner meta)) else longest) k)"

definition pad_left :: "nat \<Rightarrow> string \<Rightarrow> string" where
  "pad_left n s = replicate (n - length s) CHR '' '' @ s"

definition ls_name :: "file_info \<Rightarrow> string" where
  "ls_name f = (if IsDir f then color ''94;1'' (fi_Name f) else color ''97'' (fi_Name f))"

definition ls_line :: "process \<Rightarrow> string \<Rightarrow> string \<Rightarrow> int \<Rightarrow> file_info \<Rightarrow> kernel \<Rightarrow> string outcome \<times> kernel" where
  "ls_line proc dir flag longest f k =
     (if flag = [] then (Ok (ls_name f @ nl), k)
      else if flag = ''-i'' then (Ok (color ''90'' (pad_left 4 (itoa (uint (fi_Inum f)))) @ '' '' @ ls_name f @ nl), k)
      else if flag = ''-l'' then
        bindS (ls_stat proc dir f k) (\<lambda>meta k.
          (Ok (formatMode (OwnerMode meta) (OtherMode meta) (Setuid meta) @
             color ''96'' (Owner meta) @ replicate (nat (longest - int (length (Owner meta)))) CHR '' '' @
             ''  '' @ ls_name f @ nl), k))
      else (Ok [], k))"

fun ls_output :: "process \<Rightarrow> string \<Rightarrow> string \<Rightarrow> int \<Rightarrow> file_info list \<Rightarrow> kernel \<Rightarrow> string outcome \<times> kernel" where
  "ls_output proc dir flag longest [] k = (Ok [], k)"
| "ls_output proc dir flag longest (f # fs) k =
     bindS (ls_line proc dir flag longest f k) (\<lambda>line k.
     bindS (ls_output proc dir flag longest fs k) (\<lambda>rest k. (Ok (line @ rest), k)))"

definition Ls_Run :: "process \<Rightarrow> string list \<Rightarrow> kernel \<Rightarrow> int outcome \<times> kernel" where
  "Ls_Run proc params k =
     (if 3 < length params then (Ok Error, out proc (''Usage: ls <flag> <path>, no path for working dir'' @ nl) k)
      else if params = [] then (Panic, k)
      else case ls_args (CWD proc) (tl params) of (dir, flag) \<Rightarrow>
        on_result (sys (0, 0) proc SYS_READDIR [AString dir] k)
          (\<lambda>r k. let files = res_infos r in
             bindS (longest_owner proc dir files (-1) k) (\<lambda>longest k.
             bindS (ls_output proc dir flag longest files k) (\<lambda>output k.
             (Ok Success, out proc (nl @ butlast output @ nl) k))))
          (\<lambda>e k. (Ok Error, out proc (nl @ error_text e @ nl) k)))"

section \<open>Modes\<close>

text \<open>What each operator does to the permissions.\<close>

lemma apply_mode_bits:
  "apply_mode CHR ''+'' b c AND m = (c AND m) OR (b AND m)"
  "apply_mode CHR ''='' b c = b" "apply_mode CHR ''-'' b c AND b = 0"
  by (simp_all add: apply_mode_def bit.conj_disj_distrib2 and.assoc)

end
