(* ===== verification/Space.thy ===== *)
theory Space
  imports CreateSpec
begin

text \<open>
  How much of the disk the tree uses: the free blocks and the free inode numbers are a function of the tree, so
  what a call takes or gives back is the difference of the tree before and after it.
\<close>

fun node_size :: "node \<Rightarrow> nat" where
  "node_size (File_node m bs) = length bs"
| "node_size (Dir_node m xs) = 64 * length xs"

definition node_blocks :: "node \<Rightarrow> nat" where
  "node_blocks n = needed_blocks 0 (nblocks (node_size n))"

lemma length_owned: "length (owned fs ino) = needed_blocks 0 (nblocks (unat (isize ino)))"
  by (simp add: owned_def table_list_def blk_list_def needed_blocks_def new_places_def table_steps_def places_used_def place_base_def)

lemma inj_unat: "inj_on (unat :: u32 \<Rightarrow> nat) S"
  by (rule inj_onI) (simp add: word_unat_eq_iff)

lemma card_owned: "inode_wf fs ino \<Longrightarrow> card (unat ` set (owned fs ino)) = needed_blocks 0 (nblocks (unat (isize ino)))"
  using distinct_card[of "owned fs ino"]
  by (simp add: card_image[OF inj_unat] inode_wf_def length_owned)

lemma node_size_isize:
  assumes "kernel_inv k" "live (kfs k) i \<noteq> None"
  shows "node_size (node_of (kfs k) i) = unat (isize (disk_inode (kfs k) (unat i)))"
proof -
  have w: "inode_wf (kfs k) (disk_inode (kfs k) (unat i))"
    using fs_inv_wf[OF kernel_inv_fs(1)[OF assms(1)] live_inode[OF assms(2)]] .
  then have "length (content (kfs k) i) = unat (isize (disk_inode (kfs k) (unat i)))"
    using length_file_bytes[OF kernel_inv_fs(4)[OF assms(1)]] by (simp add: content_def)
  then show ?thesis
    using dir_length[OF kernel_inv_dir(1)[OF assms]] by (simp add: node_of_def)
qed

lemma finite_tree [simp]: "finite (dom (t :: tree))"
  by (rule finite_subset[OF subset_UNIV]) simp

lemma space_accounted:
  assumes "kernel_inv k"
  shows "free_blocks (kfs k) + (\<Sum>i \<in> dom (tree (kfs k)). node_blocks (the (tree (kfs k) i))) = BLOCKS \<and>
    free_bits (ibitmap (kfs k)) = {..<INODES} - unat ` dom (tree (kfs k))"
proof
  let ?fs = "kfs k"
  let ?own = "\<lambda>i. unat ` set (owned ?fs (disk_inode ?fs (unat i)))"
  have con: "disk_consistent ?fs (live ?fs)" using kernel_inv_fs(1)[OF assms] by (simp add: fs_inv_def)
  have dom: "dom (tree ?fs) = dom (live ?fs)" by (auto simp: dom_def)
  have li: "live ?fs i = Some (disk_inode ?fs (unat i))" if "i \<in> dom (live ?fs)" for i using that live_inode[of ?fs i] by blast
  have own: "all_owned ?fs (live ?fs) = (\<Union>i \<in> dom (live ?fs). ?own i)"
  proof -
    have "ran (live ?fs) = (\<lambda>i. disk_inode ?fs (unat i)) ` dom (live ?fs)" using li by (force simp: ran_def image_iff)
    then show ?thesis by (simp add: all_owned_def)
  qed
  have wf: "inode_wf ?fs (disk_inode ?fs (unat i))" if "i \<in> dom (live ?fs)" for i
    using fs_inv_wf[OF kernel_inv_fs(1)[OF assms] li[OF that]] .
  have "card (\<Union>i \<in> dom (live ?fs). ?own i) = (\<Sum>i \<in> dom (live ?fs). card (?own i))"
  proof (rule card_UN_disjoint)
    show "\<forall>i \<in> dom (live ?fs). \<forall>j \<in> dom (live ?fs). i \<noteq> j \<longrightarrow> ?own i \<inter> ?own j = {}"
    proof (intro ballI impI)
      fix i j assume ij: "i \<in> dom (live ?fs)" "j \<in> dom (live ?fs)" "i \<noteq> j"
      then have "set (owned ?fs (disk_inode ?fs (unat i))) \<inter> set (owned ?fs (disk_inode ?fs (unat j))) = {}"
        using con li[OF ij(1)] li[OF ij(2)] unfolding disk_consistent_def by blast
      then show "?own i \<inter> ?own j = {}" by (simp flip: image_Int[OF inj_unat[of UNIV]])
    qed
  qed simp_all
  also have "\<dots> = (\<Sum>i \<in> dom (live ?fs). node_blocks (the (tree ?fs i)))"
  proof (rule sum.cong)
    fix i assume i: "i \<in> dom (live ?fs)"
    then have l: "live ?fs i \<noteq> None" by blast
    then have "tree ?fs i = Some (node_of ?fs i)" by (simp add: tree_def)
    then show "card (?own i) = node_blocks (the (tree ?fs i))"
      using card_owned[OF wf[OF i]] node_size_isize[OF assms l] by (simp add: node_blocks_def)
  qed simp
  finally have c: "card (all_owned ?fs (live ?fs)) = (\<Sum>i \<in> dom (tree ?fs). node_blocks (the (tree ?fs i)))" by (simp add: own dom)
  have sub: "all_owned ?fs (live ?fs) \<subseteq> {..<BLOCKS}"
    unfolding own using wf by (auto simp: inode_wf_def)
  have "free_bits (dbitmap ?fs) = {..<BLOCKS} - all_owned ?fs (live ?fs)" using con by (simp add: disk_consistent_def)
  then have "free_blocks ?fs = BLOCKS - card (all_owned ?fs (live ?fs))"
    using sub by (simp add: free_blocks_def card_Diff_subset finite_subset)
  moreover have "card (all_owned ?fs (live ?fs)) \<le> BLOCKS" using card_mono[OF _ sub] by simp
  ultimately show "free_blocks ?fs + (\<Sum>i \<in> dom (tree ?fs). node_blocks (the (tree ?fs i))) = BLOCKS" using c by simp
  have len: "8 * length (ibitmap ?fs) = INODES" using kernel_inv_fs(4)[OF assms] by (simp add: layout)
  have "n \<in> free_bits (ibitmap ?fs) \<longleftrightarrow> n < INODES \<and> n \<notin> unat ` dom (live ?fs)" for n
  proof (cases "n < INODES")
    case True
    define i :: u32 where "i = of_nat n"
    have i: "unat i = n" using True by (simp add: i_def unat_of_nat take_bit_nat_eq_self layout)
    have "n \<notin> free_bits (ibitmap ?fs) \<longleftrightarrow> i \<in> dom (live ?fs)" using True i by (auto simp: live_def split: if_splits)
    moreover have "n \<in> unat ` dom (live ?fs) \<longleftrightarrow> i \<in> dom (live ?fs)" unfolding i[symmetric] by (rule inj_image_mem_iff[OF inj_unat])
    ultimately show ?thesis using True by blast
  next
    case False
    then show ?thesis using len by (auto simp: free_bits_def)
  qed
  then show "free_bits (ibitmap ?fs) = {..<INODES} - unat ` dom (tree ?fs)" unfolding dom by auto
qed

section \<open>The blocks of a tree\<close>

definition tree_blocks :: "tree \<Rightarrow> nat" where
  "tree_blocks t = (\<Sum>i \<in> dom t. node_blocks (the (t i)))"

lemma tree_space:
  assumes "kernel_inv k"
  shows "free_blocks (kfs k) + tree_blocks (tree (kfs k)) = BLOCKS"
    "free_bits (ibitmap (kfs k)) = {..<INODES} - unat ` dom (tree (kfs k))"
  using space_accounted[OF assms] by (simp_all add: tree_blocks_def)

lemma tree_blocks_new: "t i = None \<Longrightarrow> tree_blocks (t(i \<mapsto> n)) = tree_blocks t + node_blocks n"
proof -
  assume i: "t i = None"
  then have "i \<notin> dom t" by auto
  then have "tree_blocks (t(i \<mapsto> n)) = node_blocks n + (\<Sum>j \<in> dom t. node_blocks (the ((t(i \<mapsto> n)) j)))"
    by (simp add: tree_blocks_def)
  moreover have "(\<Sum>j \<in> dom t. node_blocks (the ((t(i \<mapsto> n)) j))) = tree_blocks t"
    unfolding tree_blocks_def by (rule sum.cong) (use i in auto)
  ultimately show ?thesis by simp
qed

lemma tree_blocks_change:
  assumes "t p = Some n"
  shows "tree_blocks (t(p \<mapsto> n')) + node_blocks n = tree_blocks t + node_blocks n'"
proof -
  let ?t = "t(p := None)"
  have "?t(p \<mapsto> n') = t(p \<mapsto> n')" "?t(p \<mapsto> n) = t" using assms by auto
  then show ?thesis using tree_blocks_new[of ?t p n'] tree_blocks_new[of ?t p n] by simp
qed

text \<open>What one more entry costs a directory, and that removing one gives nothing back.\<close>

lemma needed_split: "a \<le> b \<Longrightarrow> needed_blocks 0 b = needed_blocks 0 a + needed_blocks a b"
  by (auto simp: needed_blocks_def new_places_def table_steps_def)

lemma nblocks_more: "nblocks (n + BLOCKSIZE) = Suc (nblocks n)"
proof -
  have "(n + 4096 + 4095) div 4096 = Suc ((n + 4095) div 4096)" by simp
  then show ?thesis by (simp add: nblocks_def layout)
qed

lemma node_blocks_add:
  "node_blocks (Dir_node m (add_slot e xs)) = node_blocks (Dir_node m xs) + slot_cost xs"
proof (cases "full_dir xs")
  case True
  then have "length (add_slot e xs) = length xs + 64" by (simp add: add_slot_def full_dir_iff)
  then have "nblocks (64 * length (add_slot e xs)) = Suc (nblocks (64 * length xs))"
    using nblocks_more[of "64 * length xs"] by (simp add: layout)
  then show ?thesis using True needed_split[of "nblocks (64 * length xs)" "Suc (nblocks (64 * length xs))"]
    by (simp add: node_blocks_def slot_cost_def)
next
  case False
  then have "length (add_slot e xs) = length xs" by (auto simp: add_slot_def full_dir_iff)
  then show ?thesis using False by (simp add: node_blocks_def slot_cost_def)
qed

lemma node_blocks_remove:
  "remove_slot name xs = Some ys \<Longrightarrow> node_blocks (Dir_node m ys) = node_blocks (Dir_node m xs)"
  by (auto simp: node_blocks_def remove_slot_def)

end
