(* ===== verification/PathMap.thy ===== *)
theory PathMap
  imports TreeProps Space
begin

text \<open>
  The file system as its users see it: a map from paths to files and directories (\<open>file_map\<close>), the inode numbers gone.
  In a proper tree every node has one path, so a change of a node is a change of the map at one path, a new node one more
  path, and a removal drops the paths under one. The calls are shown to be these operations on the map.
\<close>

section \<open>Walking without permissions\<close>

fun pwalk :: "tree \<Rightarrow> string list \<Rightarrow> u32 \<Rightarrow> u32 option" where
  "pwalk t [] i = Some i"
| "pwalk t (c # cs) i = (case t i of
     Some (Dir_node m xs) \<Rightarrow> (case slot_names xs c of None \<Rightarrow> None | Some j \<Rightarrow> pwalk t cs j)
   | _ \<Rightarrow> None)"

definition child :: "tree \<Rightarrow> u32 \<Rightarrow> string \<Rightarrow> u32 option" where
  "child t d c = (case t d of Some (Dir_node m xs) \<Rightarrow> slot_names xs c | _ \<Rightarrow> None)"

lemma pwalk_snoc: "pwalk t (cs @ [c]) i = Option.bind (pwalk t cs i) (\<lambda>d. child t d c)"
  by (induction t cs i rule: pwalk.induct) (auto simp: child_def split: option.split node.split)

lemma pwalk_append: "pwalk t (cs @ ds) i = Option.bind (pwalk t cs i) (\<lambda>d. pwalk t ds d)"
  by (induction t cs i rule: pwalk.induct) (auto split: option.split node.split)

lemma lookup_pwalk: "tree_lookup t euid cs i = Ok j \<Longrightarrow> pwalk t cs i = Some j"
  by (induction t euid cs i rule: tree_lookup.induct) (auto split: option.splits node.splits if_splits)

lemma lookup_root_pwalk: "tree_lookup t ''root'' cs i = Ok j \<longleftrightarrow> pwalk t cs i = Some j"
  by (induction cs arbitrary: i) (auto split: option.splits node.splits)

text \<open>A walk depends on the slots of the directories only.\<close>

lemma pwalk_cong: "(\<And>d c. child t' d c = child t d c) \<Longrightarrow> pwalk t' cs i = pwalk t cs i"
  by (induction cs rule: rev_induct) (simp_all add: pwalk_snoc)

section \<open>The map\<close>

datatype entry = Dir_at node_meta | File_at node_meta "u8 list"

fun view_node :: "node \<Rightarrow> entry" where
  "view_node (Dir_node m xs) = Dir_at m"
| "view_node (File_node m bs) = File_at m bs"

abbreviation comps_ok :: "string list \<Rightarrow> bool" where
  "comps_ok cs \<equiv> \<forall>c \<in> set cs. comp_ok c"

definition file_map :: "tree \<Rightarrow> string list \<rightharpoonup> entry" where
  "file_map t cs = (if comps_ok cs then map_option view_node (Option.bind (pwalk t cs 2) t) else None)"

text \<open>
  A proper tree: the root is a directory and nobody's child; in a directory no name occurs twice, an entry names a node,
  and its name is \<open>.\<close>, \<open>..\<close> or a path element; a node has at most one parent and one name in it, which is what \<open>..\<close>
  says, and \<open>.\<close> is the directory itself.
\<close>

definition dir_proper :: "tree \<Rightarrow> dir_entry option list \<Rightarrow> bool" where
  "dir_proper t xs \<longleftrightarrow> uniq_names xs \<and>
     (\<forall>e. Some e \<in> set xs \<longrightarrow> t (Inum e) \<noteq> None \<and> (Name e \<in> {''.'', ''..''} \<or> comp_ok (Name e)))"

definition dots_proper :: "tree \<Rightarrow> u32 \<Rightarrow> bool" where
  "dots_proper t d \<longleftrightarrow> (\<forall>i. child t d ''.'' = Some i \<longrightarrow> i = d) \<and>
     (\<forall>i. child t d ''..'' = Some i \<longrightarrow> d = 2 \<and> i = 2 \<or> (\<exists>c. comp_ok c \<and> child t i c = Some d))"

definition proper :: "tree \<Rightarrow> bool" where
  "proper t \<longleftrightarrow> (\<exists>m xs. t 2 = Some (Dir_node m xs)) \<and> (\<forall>d m xs. t d = Some (Dir_node m xs) \<longrightarrow> dir_proper t xs) \<and>
     (\<forall>d d' c c' i. comp_ok c \<longrightarrow> comp_ok c' \<longrightarrow> child t d c = Some i \<longrightarrow> child t d' c' = Some i \<longrightarrow> d = d' \<and> c = c') \<and>
     (\<forall>d c. comp_ok c \<longrightarrow> child t d c \<noteq> Some 2) \<and> (\<forall>d. dots_proper t d)"

lemma properD:
  assumes "proper t"
  shows "\<exists>m xs. t 2 = Some (Dir_node m xs)" "t d = Some (Dir_node m xs) \<Longrightarrow> dir_proper t xs"
    "comp_ok c \<Longrightarrow> comp_ok c' \<Longrightarrow> child t d c = Some i \<Longrightarrow> child t d' c' = Some i \<Longrightarrow> d = d' \<and> c = c'"
    "comp_ok c \<Longrightarrow> child t d c \<noteq> Some 2" "dots_proper t d"
  using assms unfolding proper_def by blast+

lemma pwalk_inject:
  assumes "proper t"
  shows "comps_ok cs \<Longrightarrow> comps_ok cs' \<Longrightarrow> pwalk t cs 2 = Some i \<Longrightarrow> pwalk t cs' 2 = Some i \<Longrightarrow> cs = cs'"
proof (induction cs arbitrary: cs' i rule: rev_induct)
  case Nil
  then show ?case using properD(4)[OF assms] by (cases cs' rule: rev_cases) (auto simp: pwalk_snoc bind_eq_Some_conv)
next
  case (snoc c cs)
  obtain d where d: "pwalk t cs 2 = Some d" "child t d c = Some i" using snoc.prems(3) by (auto simp: pwalk_snoc bind_eq_Some_conv)
  then have "i \<noteq> 2" using properD(4)[OF assms] snoc.prems(1) by auto
  then obtain c' ds where cs': "cs' = ds @ [c']" using snoc.prems(4) by (cases cs' rule: rev_cases) auto
  then obtain d' where d': "pwalk t ds 2 = Some d'" "child t d' c' = Some i" using snoc.prems(4) by (auto simp: pwalk_snoc bind_eq_Some_conv)
  have "d = d' \<and> c = c'" by (rule properD(3)[OF assms _ _ d(2) d'(2)]) (use snoc.prems(1,2) cs' in auto)
  then show ?case using snoc.IH[of ds d] d(1) d'(1) snoc.prems(1,2) cs' by auto
qed

lemma child_node:
  assumes "proper t" "child t d c = Some i"
  shows "t i \<noteq> None"
proof -
  obtain m xs where d: "t d = Some (Dir_node m xs)" "slot_names xs c = Some i"
    using assms(2) by (auto simp: child_def split: option.splits node.splits)
  have "dir_proper t xs" by (rule properD(2)[OF assms(1) d(1)])
  then show ?thesis using d(2) by (auto simp: dir_proper_def slot_names_Some)
qed

lemma pwalk_node: "proper t \<Longrightarrow> pwalk t cs 2 = Some i \<Longrightarrow> t i \<noteq> None"
  using properD(1) child_node by (induction cs arbitrary: i rule: rev_induct) (fastforce simp: pwalk_snoc bind_eq_Some_conv)+

lemma file_map_Some:
  "file_map t cs = Some e \<longleftrightarrow> comps_ok cs \<and> (\<exists>i n. pwalk t cs 2 = Some i \<and> t i = Some n \<and> e = view_node n)"
  by (auto simp: file_map_def bind_eq_Some_conv)

lemma file_map_None: "proper t \<Longrightarrow> comps_ok cs \<Longrightarrow> file_map t cs = None \<longleftrightarrow> pwalk t cs 2 = None"
  using pwalk_node[of t cs] by (cases "pwalk t cs 2") (auto simp: file_map_def)

section \<open>Changing a node\<close>

fun node_slots :: "node \<Rightarrow> dir_entry option list option" where
  "node_slots (Dir_node m xs) = Some xs"
| "node_slots (File_node m bs) = None"

lemma change_node:
  assumes "proper t" "pwalk t cs 2 = Some i" "comps_ok cs" "t i = Some n" "node_slots n' = node_slots n"
  shows "proper (t(i \<mapsto> n'))" "file_map (t(i \<mapsto> n')) = (file_map t)(cs \<mapsto> view_node n')"
proof -
  let ?t = "t(i \<mapsto> n')"
  have c: "child ?t d c = child t d c" for d c
    using assms(4,5) by (cases n; cases n') (auto simp: child_def)
  note w = pwalk_cong[of ?t t, OF c]
  have sl: "?t d = Some (Dir_node m xs) \<Longrightarrow> \<exists>m. t d = Some (Dir_node m xs)" for d m xs
    using assms(4,5) by (cases n) (auto split: if_splits)
  have "dir_proper ?t xs" if "?t d = Some (Dir_node m xs)" for d m xs
    using sl[OF that] properD(2)[OF assms(1)] by (auto simp: dir_proper_def)
  moreover have "\<exists>m xs. ?t 2 = Some (Dir_node m xs)"
    using properD(1)[OF assms(1)] assms(4,5) by (cases n; cases n') auto
  ultimately show "proper ?t" using properD(3-5)[OF assms(1)] unfolding proper_def c dots_proper_def by blast
  have "file_map ?t ps = ((file_map t)(cs \<mapsto> view_node n')) ps" for ps
  proof (cases "ps = cs \<or> \<not> comps_ok ps \<or> pwalk t ps 2 = None")
    case True
    then show ?thesis using assms(2,3) by (auto simp: file_map_def w)
  next
    case False
    then obtain j where "pwalk t ps 2 = Some j" "j \<noteq> i" using pwalk_inject[OF assms(1) _ assms(3) _ assms(2)] by blast
    then show ?thesis using False by (simp add: file_map_def w)
  qed
  then show "file_map ?t = (file_map t)(cs \<mapsto> view_node n')" by blast
qed

section \<open>A new node\<close>

text \<open>What a new node may be: a file, or a directory with nothing but the dots in it.\<close>

definition new_ok :: "u32 \<Rightarrow> u32 \<Rightarrow> node \<Rightarrow> bool" where
  "new_ok i p n \<longleftrightarrow> (case n of File_node m bs \<Rightarrow> True | Dir_node m xs \<Rightarrow> xs = dot_slots i p)"

lemma dot_slots:
  "Some e \<in> set (dot_slots i p) \<longleftrightarrow> e = \<lparr>Inum = i, Name = ''.''\<rparr> \<or> e = \<lparr>Inum = p, Name = ''..''\<rparr>"
  "uniq_names (dot_slots i p)"
  "slot_names (dot_slots i p) = [''.'' \<mapsto> i, ''..'' \<mapsto> p]"
proof -
  show m: "Some e \<in> set (dot_slots i p) \<longleftrightarrow> e = \<lparr>Inum = i, Name = ''.''\<rparr> \<or> e = \<lparr>Inum = p, Name = ''..''\<rparr>" for e
    by (auto simp: dot_slots_def)
  have nth: "dot_slots i p ! j = (if j = 0 then Some \<lparr>Inum = i, Name = ''.''\<rparr> else if j = 1 then Some \<lparr>Inum = p, Name = ''..''\<rparr> else None)"
    if "j < 64" for j using that by (auto simp: dot_slots_def nth_Cons split: nat.split)
  have "length (dot_slots i p) = 64" by (simp add: dot_slots_def)
  then show u: "uniq_names (dot_slots i p)" by (auto simp: uniq_names_def nth split: if_splits)
  show "slot_names (dot_slots i p) = [''.'' \<mapsto> i, ''..'' \<mapsto> p]" 
  proof (rule slot_names_eqI[OF u])
    fix n j
    show "[''.'' \<mapsto> i, ''..'' \<mapsto> p] n = Some j \<longleftrightarrow> (\<exists>e. Some e \<in> set (dot_slots i p) \<and> Name e = n \<and> Inum e = j)"
      unfolding m by (simp only: ex_disj_distrib conj_disj_distribR simp_thms dir_entry.simps fun_upd_apply)
        (simp only: eq_commute[of n] option.inject split: if_split, fastforce)
  qed
qed

text \<open>A new node \<open>i\<close> under a path, in a directory that has no entry of its name.\<close>

definition adding :: "tree \<Rightarrow> string list \<Rightarrow> u32 \<Rightarrow> node_meta \<Rightarrow> dir_entry option list \<Rightarrow> string \<Rightarrow> u32 \<Rightarrow> node \<Rightarrow> bool" where
  "adding t cs p m xs name i n \<longleftrightarrow> proper t \<and> pwalk t cs 2 = Some p \<and> comps_ok (cs @ [name]) \<and> t p = Some (Dir_node m xs) \<and>
     slot_names xs name = None \<and> t i = None \<and> new_ok i p n"

lemma adding_tree:
  assumes "adding t cs p m xs name i n"
  shows "tree_add t p name i n = t(i \<mapsto> n, p \<mapsto> Dir_node m (add_slot \<lparr>Inum = i, Name = name\<rparr> xs))" "i \<noteq> p" "i \<noteq> 2"
  using assms properD(1)[of t] by (auto simp: adding_def tree_add_def)

lemma adding_child:
  assumes "adding t cs p m xs name i n"
  shows "child (tree_add t p name i n) d c =
      (if d = i then child (tree_add t p name i n) i c else if d = p \<and> c = name then Some i else child t d c)"
    "comp_ok c \<Longrightarrow> child (tree_add t p name i n) d c = (if d = p \<and> c = name then Some i else if d = i then None else child t d c)"
proof -
  have h: "proper t" "pwalk t cs 2 = Some p" "comps_ok (cs @ [name])" "t p = Some (Dir_node m xs)" "slot_names xs name = None"
    "t i = None" "new_ok i p n" using assms by (simp_all add: adding_def)
  let ?e = "\<lparr>Inum = i, Name = name\<rparr>"
  let ?t = "tree_add t p name i n"
  note t = adding_tree(1)[OF assms] and ip = adding_tree(2,3)[OF assms]
  have u: "uniq_names xs" using properD(2)[OF h(1,4)] by (simp add: dir_proper_def)
  have nm: "slot_names (add_slot ?e xs) = (slot_names xs)(name \<mapsto> i)" using dir_table.add_names[OF u, of ?e] h(5) by simp
  show ch: "child ?t d c = (if d = i then child ?t i c else if d = p \<and> c = name then Some i else child t d c)" for d c
    using ip h(4) nm by (simp add: child_def t)
  have none: "child ?t i c = None" if "comp_ok c" for c
  proof -
    have "?t i = Some n" using ip by (simp add: t)
    moreover have "slot_names ys c = None" if "n = Dir_node m' ys" for m' ys
      using h(7) \<open>comp_ok c\<close> that by (auto simp: new_ok_def dot_slots(3) comp_ok_def)
    ultimately show ?thesis by (cases n) (auto simp: child_def)
  qed
  show "comp_ok c \<Longrightarrow> child ?t d c = (if d = p \<and> c = name then Some i else if d = i then None else child t d c)"
    using ch[of d c] none ip by auto
qed

lemma adding_walk:
  assumes "adding t cs p m xs name i n" "comps_ok ps"
  shows "pwalk (tree_add t p name i n) ps 2 = (if ps = cs @ [name] then Some i else pwalk t ps 2)"
proof -
  have h: "proper t" "pwalk t cs 2 = Some p" "comps_ok (cs @ [name])" "t p = Some (Dir_node m xs)" "slot_names xs name = None"
    "t i = None" "new_ok i p n" using assms by (simp_all add: adding_def)
  let ?t = "tree_add t p name i n"
  note ip = adding_tree(2,3)[OF assms(1)] and ch = adding_child(2)[OF assms(1)]
  show ?thesis
    using assms(2)
  proof (induction ps rule: rev_induct)
    case (snoc c ps)
    then have ok: "comp_ok c" "comps_ok ps" and IH: "pwalk ?t ps 2 = (if ps = cs @ [name] then Some i else pwalk t ps 2)" by auto
    show ?case
    proof (cases "ps = cs @ [name]")
      case True
      have "pwalk t ps 2 = None" using h(2,4,5) by (simp add: True pwalk_snoc child_def)
      moreover have "pwalk ?t ps 2 = Some i" "ps @ [c] \<noteq> cs @ [name]" using IH True by simp_all
      ultimately show ?thesis using ch[OF ok(1), of i] ip by (simp add: pwalk_snoc[of _ ps])
    next
      case ps: False
      show ?thesis
      proof (cases "pwalk t ps 2")
        case None
        moreover have "pwalk t cs 2 \<noteq> None" using h(2) by simp
        ultimately have "ps \<noteq> cs" by blast
        then show ?thesis using IH ps None by (simp add: pwalk_snoc)
      next
        case (Some d)
        have d: "d \<noteq> i" using pwalk_node[OF h(1) Some] h(6) by auto
        have "comps_ok cs" using h(3) by simp
        then have "d = p \<Longrightarrow> ps = cs" using pwalk_inject[OF h(1) ok(2) _ Some, of cs] h(2) by blast
        then have "d = p \<longleftrightarrow> ps = cs" using h(2) Some by auto
        then have eq: "ps @ [c] = cs @ [name] \<longleftrightarrow> d = p \<and> c = name" by simp
        have "pwalk ?t ps 2 = Some d" using IH ps Some by simp
        then show ?thesis unfolding pwalk_snoc[of _ ps] eq using Some d ch[OF ok(1), of d] by simp
      qed
    qed
  qed simp
qed

lemma adding_dots:
  assumes "adding t cs p m xs name i n"
  shows "dots_proper (tree_add t p name i n) d"
proof -
  have h: "proper t" "pwalk t cs 2 = Some p" "comps_ok (cs @ [name])" "t p = Some (Dir_node m xs)" "slot_names xs name = None"
    "t i = None" "new_ok i p n" using assms by (simp_all add: adding_def)
  let ?t = "tree_add t p name i n"
  note t = adding_tree(1)[OF assms] and ip = adding_tree(2,3)[OF assms] and ch = adding_child(1)[OF assms] and ok = adding_child(2)[OF assms]
  have name: "comp_ok name" "name \<noteq> ''.''" "name \<noteq> ''..''" using h(3) by (auto simp: comp_ok_def)
  show ?thesis
  proof (cases "d = i")
    case True
    have "child ?t i ''.'' = Some j \<Longrightarrow> j = i" "child ?t i ''..'' = Some j \<Longrightarrow> j = p" for j
      using h(7) ip by (auto simp: child_def t new_ok_def dot_slots(3) split: node.splits)
    then show ?thesis using True ok[OF name(1), of p] name(1) by (auto simp: dots_proper_def)
  next
    case False
    have keep: "child ?t j c = Some d" if "child t j c = Some d" "comp_ok c" for j c
    proof -
      have "j \<noteq> i" using that(1) h(6) by (auto simp: child_def)
      moreover have "\<not> (j = p \<and> c = name)" using that(1) h(4,5) by (auto simp: child_def)
      ultimately show ?thesis using ok[OF that(2), of j] that(1) by auto
    qed
    have "child ?t d ''.'' = child t d ''.''" "child ?t d ''..'' = child t d ''..''"
      using ch[of d "''.''"] ch[of d "''..''"] name False by auto
    then show ?thesis using properD(5)[OF h(1), of d] keep unfolding dots_proper_def by metis
  qed
qed

lemma adding_dirs:
  assumes "adding t cs p m xs name i n" "tree_add t p name i n d = Some (Dir_node m' ys)"
  shows "dir_proper (tree_add t p name i n) ys"
proof -
  have h: "proper t" "pwalk t cs 2 = Some p" "comps_ok (cs @ [name])" "t p = Some (Dir_node m xs)" "slot_names xs name = None"
    "t i = None" "new_ok i p n" using assms by (simp_all add: adding_def)
  let ?e = "\<lparr>Inum = i, Name = name\<rparr>"
  let ?t = "tree_add t p name i n"
  note t = adding_tree(1)[OF assms(1)] and ip = adding_tree(2,3)[OF assms(1)]
  have u: "uniq_names xs" using properD(2)[OF h(1,4)] by (simp add: dir_proper_def)
  have nm: "uniq_names (add_slot ?e xs)" using dir_table.add_ok[OF u, of ?e] h(5) by simp
  have keep: "?t j \<noteq> None" if "t j \<noteq> None" for j using that by (auto simp: t)
  consider "d = p" "ys = add_slot ?e xs" | "d = i" "n = Dir_node m' ys" | "t d = Some (Dir_node m' ys)"
    using assms(2) ip by (auto simp: t split: if_splits)
  then show ?thesis
  proof cases
    case 1
    have "?t (Inum ?e) \<noteq> None" using ip by (simp add: t)
    then show ?thesis
      using nm add_slot_members[of _ ?e xs] properD(2)[OF h(1,4)] keep h(3)
      unfolding dir_proper_def 1(2) by fastforce
  next
    case 2
    then have "ys = dot_slots i p" using h(7) by (simp add: new_ok_def)
    moreover have "?t i \<noteq> None" "?t p \<noteq> None" using ip by (simp_all add: t)
    ultimately show ?thesis by (auto simp: dir_proper_def dot_slots)
  next
    case 3
    then show ?thesis using properD(2)[OF h(1) 3] keep by (auto simp: dir_proper_def)
  qed
qed

lemma add_node:
  assumes "proper t" "pwalk t cs 2 = Some p" "comps_ok (cs @ [name])" "t p = Some (Dir_node m xs)" "slot_names xs name = None"
    and "t i = None" "new_ok i p n"
  shows "proper (tree_add t p name i n)" "file_map (tree_add t p name i n) = (file_map t)(cs @ [name] \<mapsto> view_node n)"
    "pwalk (tree_add t p name i n) (cs @ [name]) 2 = Some i"
proof -
  have a: "adding t cs p m xs name i n" using assms by (simp add: adding_def)
  let ?t = "tree_add t p name i n"
  note t = adding_tree(1)[OF a] and ip = adding_tree(2,3)[OF a] and w = adding_walk[OF a] and ok = adding_child(2)[OF a]
  show "pwalk ?t (cs @ [name]) 2 = Some i" using w[OF assms(3)] by simp
  have fresh: "pwalk t ps 2 \<noteq> Some i" for ps using pwalk_node[OF assms(1), of ps i] assms(6) by auto
  have nobody: "child t d c \<noteq> Some i" for d c using child_node[OF assms(1), of d c i] assms(6) by auto
  have "d = d' \<and> c = c'" if "comp_ok c" "comp_ok c'" "child ?t d c = Some j" "child ?t d' c' = Some j" for d d' c c' j
    using that ok[OF that(1), of d] ok[OF that(2), of d'] nobody properD(3)[OF assms(1) that(1,2)] by (auto split: if_splits)
  moreover have "child ?t d c \<noteq> Some 2" if "comp_ok c" for d c
    using ok[OF that, of d] properD(4)[OF assms(1) that] ip by auto
  moreover have "\<exists>m xs. ?t 2 = Some (Dir_node m xs)" using properD(1)[OF assms(1)] ip by (auto simp: t)
  ultimately show "proper ?t" unfolding proper_def using adding_dots[OF a] adding_dirs[OF a] by blast
  have "file_map ?t ps = ((file_map t)(cs @ [name] \<mapsto> view_node n)) ps" for ps
  proof (cases "comps_ok ps \<and> ps \<noteq> cs @ [name]")
    case True
    have "map_option view_node (?t d) = map_option view_node (t d)" if "d \<noteq> i" for d using that assms(4) by (simp add: t)
    then show ?thesis using True w fresh[of ps] by (cases "pwalk t ps 2") (auto simp: file_map_def)
  next
    case False
    then show ?thesis using w[OF assms(3)] assms(3) ip by (auto simp: file_map_def t)
  qed
  then show "file_map ?t = (file_map t)(cs @ [name] \<mapsto> view_node n)" by blast
qed

end
