(* ===== verification/RemoveMap.thy ===== *)
theory RemoveMap
  imports PathMap "HOL-Library.Sublist"
begin

text \<open>
  Removing a path of a proper tree: what is under it is a tree of its own (\<open>below_desc\<close>), the recursion
  of the code is deep enough for it (\<open>below_total\<close>), nothing outside refers into it (\<open>subtree_detachable\<close>), and taking it away drops the
  paths under the removed one from the map.
\<close>

section \<open>The nodes under a node\<close>

definition desc :: "tree \<Rightarrow> u32 \<Rightarrow> u32 set" where
  "desc t i = {j. \<exists>es. comps_ok es \<and> pwalk t es i = Some j}"

lemma desc_self: "i \<in> desc t i"
  unfolding desc_def by (auto intro: exI[of _ "[]"])

lemma child_entry:
  assumes "proper t" "t d = Some (Dir_node m xs)" "comp_ok c"
  shows "child t d c = Some k \<longleftrightarrow> (\<exists>e. Some e \<in> set xs \<and> Name e = c \<and> Inum e = k)"
  using properD(2)[OF assms(1,2)] assms(2) by (simp add: child_def dir_proper_def slot_names_Some)

lemma pwalk_step: "pwalk t (c # es) i = Option.bind (child t i c) (\<lambda>k. pwalk t es k)"
  using pwalk_append[of t "[c]" es i] pwalk_snoc[of t "[]" c i] by simp

lemma desc_step: "desc t i = insert i (\<Union>k \<in> {k. \<exists>c. comp_ok c \<and> child t i c = Some k}. desc t k)"
proof (intro set_eqI iffI)
  fix j assume "j \<in> desc t i"
  then obtain es where es: "comps_ok es" "pwalk t es i = Some j" by (auto simp: desc_def)
  then show "j \<in> insert i (\<Union>k \<in> {k. \<exists>c. comp_ok c \<and> child t i c = Some k}. desc t k)"
    by (cases es) (auto simp: pwalk_step bind_eq_Some_conv desc_def simp del: pwalk.simps(2))
next
  fix j assume "j \<in> insert i (\<Union>k \<in> {k. \<exists>c. comp_ok c \<and> child t i c = Some k}. desc t k)"
  moreover have "i \<in> desc t i" by (rule desc_self)
  moreover have "j \<in> desc t i" if k: "comp_ok c" "child t i c = Some k" "j \<in> desc t k" for c k
  proof -
    obtain es where "comps_ok es" "pwalk t es k = Some j" using k(3) by (auto simp: desc_def)
    then have "comps_ok (c # es)" "pwalk t (c # es) i = Some j" using k(1,2) by (simp_all add: pwalk_step del: pwalk.simps(2))
    then show ?thesis unfolding desc_def by blast
  qed
  ultimately show "j \<in> desc t i" by blast
qed

definition not_dots :: "dir_entry \<Rightarrow> bool" where
  "not_dots e \<longleftrightarrow> Name e \<noteq> ''.'' \<and> Name e \<noteq> ''..''"

lemma below_desc:
  shows "proper t \<Longrightarrow> below n t i = Some is \<Longrightarrow> set is = desc t i"
    and "proper t \<Longrightarrow> belows n t es = Some js \<Longrightarrow> set js = (\<Union>e \<in> {e \<in> set es. not_dots e}. desc t (Inum e))"
proof (induction n t i and n t es arbitrary: "is" and js rule: below_belows.induct)
  case (2 n t i)
  note P = 2(2)
  show ?case
  proof (cases "t i")
    case (Some x)
    show ?thesis
    proof (cases x)
      case (File_node m bs)
      then have "child t i c = None" for c using Some by (simp add: child_def)
      then show ?thesis using 2(3) Some File_node by (subst desc_step) auto
    next
      case (Dir_node m xs)
      obtain js where js: "belows n t (entries xs) = Some js" "is = js @ [i]" using 2(3) Some Dir_node by auto
      have "set js = (\<Union>e \<in> {e \<in> set (entries xs). not_dots e}. desc t (Inum e))"
        using 2(1)[OF Some Dir_node P js(1)] .
      moreover have "{k. \<exists>c. comp_ok c \<and> child t i c = Some k} = Inum ` {e \<in> set (entries xs). not_dots e}"
      proof -
        have "dir_proper t xs" by (rule properD(2)[OF P Some[unfolded Dir_node]])
        then have "comp_ok (Name e) \<longleftrightarrow> not_dots e" if "Some e \<in> set xs" for e
          using that by (auto simp: dir_proper_def not_dots_def comp_ok_def)
        then show ?thesis
          using child_entry[OF P Some[unfolded Dir_node]] by (auto simp: in_entries image_iff) metis+
      qed
      ultimately show ?thesis using js(2) by (subst desc_step) simp
    qed
  qed (use 2(3) in simp)
qed (auto simp: not_dots_def split: option.splits if_splits)

text \<open>The depth is enough: a walk from a node that has a path meets each node once at most.\<close>

lemma below_height:
  assumes "proper t"
  shows "t i \<noteq> None \<Longrightarrow> (\<And>es. comps_ok es \<Longrightarrow> length es = n \<Longrightarrow> pwalk t es i = None) \<Longrightarrow> \<exists>is. below n t i = Some is"
proof (induction n arbitrary: i)
  case 0
  then show ?case using 0(2)[of "[]"] by simp
next
  case (Suc n)
  obtain x where x: "t i = Some x" using Suc.prems(1) by blast
  show ?case
  proof (cases x)
    case (Dir_node m xs)
    have "\<exists>js. belows n t es = Some js" if "\<And>e. e \<in> set es \<Longrightarrow> Some e \<in> set xs" for es
      using that
    proof (induction es)
      case (Cons e es)
      then obtain js where js: "belows n t es = Some js" by auto
      have e: "Some e \<in> set xs" using Cons.prems by simp
      have "dir_proper t xs" using properD(2)[OF assms] x Dir_node by blast
      then have ok: "t (Inum e) \<noteq> None" "not_dots e \<Longrightarrow> comp_ok (Name e)"
        using e unfolding dir_proper_def not_dots_def by auto
      have "\<exists>is. below n t (Inum e) = Some is" if "not_dots e"
      proof (rule Suc.IH[OF ok(1)])
        fix fs assume "comps_ok fs" "length fs = n"
        then have "pwalk t (Name e # fs) i = None" using Suc.prems(2)[of "Name e # fs"] ok(2)[OF that] by simp
        moreover have "child t i (Name e) = Some (Inum e)"
          using child_entry[OF assms x[unfolded Dir_node] ok(2)[OF that]] e by blast
        ultimately show "pwalk t fs (Inum e) = None" by (simp add: pwalk_step del: pwalk.simps(2))
      qed
      then show ?case using js by (auto simp: not_dots_def)
    qed simp
    from this[of "entries xs"] show ?thesis using x Dir_node by (auto simp: in_entries)
  qed (use x in simp)
qed

lemma walk_short:
  assumes "proper t" "pwalk t cs 2 = Some i" "comps_ok cs" "comps_ok es" "pwalk t es i = Some j"
  shows "length es < card (dom t)"
proof -
  let ?at = "\<lambda>n. the (pwalk t (take n es) i)"
  have w: "pwalk t (cs @ take n es) 2 = Some (?at n)" for n
  proof -
    have "pwalk t (take n es @ drop n es) i = Some j" using assms(5) by simp
    then obtain k where "pwalk t (take n es) i = Some k" unfolding pwalk_append by (auto simp: bind_eq_Some_conv)
    then show ?thesis using assms(2) by (simp add: pwalk_append)
  qed
  have "inj_on ?at {..length es}"
  proof (rule inj_onI)
    fix a b assume ab: "a \<in> {..length es}" "b \<in> {..length es}" "?at a = ?at b"
    have ok: "comps_ok (cs @ take n es)" for n using assms(3,4) by (auto dest: in_set_takeD)
    have "cs @ take a es = cs @ take b es" by (rule pwalk_inject[OF assms(1) ok ok w]) (use w[of b] ab(3) in simp)
    then have "length (take a es) = length (take b es)" by simp
    then show "a = b" using ab by simp
  qed
  moreover have "?at ` {..length es} \<subseteq> dom t" using pwalk_node[OF assms(1) w] by auto
  ultimately have "card {..length es} \<le> card (dom t)" using card_inj_on_le by (metis finite_tree)
  then show ?thesis by simp
qed

lemma below_total:
  assumes "proper t" "pwalk t cs 2 = Some i" "comps_ok cs" "card (dom t) \<le> n"
  shows "\<exists>is. below n t i = Some is"
proof (rule below_height[OF assms(1) pwalk_node[OF assms(1,2)]])
  fix es assume "comps_ok es" "length es = n"
  then show "pwalk t es i = None" using walk_short[OF assms(1-3), of es] assms(4) by (cases "pwalk t es i") auto
qed

lemma distinct_entries: "uniq_names xs \<Longrightarrow> distinct (map Name (entries xs))"
proof (induction xs)
  case (Cons x xs)
  have suc: "j = k" if "j < length xs" "k < length xs" "xs ! j = Some a" "xs ! k = Some b" "Name a = Name b" for j k a b
    using uniq_namesD[OF Cons.prems, of "Suc j" "Suc k" a b] that by simp
  then have u: "uniq_names xs" unfolding uniq_names_def by blast
  have n: "Name a \<notin> Name ` set (entries xs)" if x: "x = Some a" for a
  proof
    assume "Name a \<in> Name ` set (entries xs)"
    then obtain e where "Name e = Name a" "Some e \<in> set xs" by (auto simp: in_entries)
    moreover then obtain k where "k < length xs" "xs ! k = Some e" unfolding in_set_conv_nth by blast
    ultimately show False using uniq_namesD[OF Cons.prems, of 0 "Suc k" a e] x by simp
  qed
  show ?case
  proof (cases x)
    case (Some a)
    then show ?thesis using Cons.IH[OF u] n[OF Some] by (simp only: entries_simps list.map distinct.simps list.set_map simp_thms)
  qed (use Cons.IH[OF u] in simp)
qed simp

text \<open>Two nodes under different entries are different, and none is the directory.\<close>

lemma under_entry:
  assumes "proper t" "pwalk t cs 2 = Some d" "comps_ok cs" "t d = Some (Dir_node m xs)"
    and "Some e \<in> set xs" "not_dots e" "j \<in> desc t (Inum e)"
  obtains es where "comps_ok (cs @ Name e # es)" "pwalk t (cs @ Name e # es) 2 = Some j"
proof -
  obtain es where es: "comps_ok es" "pwalk t es (Inum e) = Some j" using assms(7) by (auto simp: desc_def)
  have "dir_proper t xs" by (rule properD(2)[OF assms(1,4)])
  then have ok: "comp_ok (Name e)" using assms(5,6) by (auto simp: dir_proper_def not_dots_def)
  have "child t d (Name e) = Some (Inum e)" using child_entry[OF assms(1,4) ok] assms(5) by blast
  then have "pwalk t (cs @ Name e # es) 2 = Some j"
    using es(2) assms(2) by (simp add: pwalk_append pwalk_step del: pwalk.simps(2))
  then show ?thesis using es(1) ok assms(3) by (intro that[of es]) auto
qed

text \<open>An inode is not below itself, and no inode is below two entries of a directory.\<close>

lemma below_entry_fresh:
  assumes P: "proper t" and d: "comps_ok cs" "pwalk t cs 2 = Some d" "t d = Some (Dir_node m xs)"
    and b: "belows n t (entries xs) = Some js"
  shows "d \<notin> set js"
proof
  assume "d \<in> set js"
  then obtain e where e: "Some e \<in> set xs" "not_dots e" "d \<in> desc t (Inum e)"
    using below_desc(2)[OF P b] by (auto simp: in_entries)
  obtain es where es: "comps_ok (cs @ Name e # es)" "pwalk t (cs @ Name e # es) 2 = Some d"
    by (rule under_entry[OF P d(2,1,3) e])
  have "cs = cs @ Name e # es" by (rule pwalk_inject[OF P d(1) es(1) d(2) es(2)])
  then show False by simp
qed

lemma below_entries_disjoint:
  assumes P: "proper t" and d: "comps_ok cs" "pwalk t cs 2 = Some d" "t d = Some (Dir_node m xs)"
    and e: "Some e \<in> set xs" "not_dots e" "j \<in> desc t (Inum e)" and e': "Some e' \<in> set xs" "not_dots e'" "j \<in> desc t (Inum e')"
  shows "Name e = Name e'"
proof -
  obtain f1 where f1: "comps_ok (cs @ Name e # f1)" "pwalk t (cs @ Name e # f1) 2 = Some j"
    by (rule under_entry[OF P d(2,1,3) e])
  obtain f2 where f2: "comps_ok (cs @ Name e' # f2)" "pwalk t (cs @ Name e' # f2) 2 = Some j"
    by (rule under_entry[OF P d(2,1,3) e'])
  have "cs @ Name e # f1 = cs @ Name e' # f2" by (rule pwalk_inject[OF P f1(1) f2(1) f1(2) f2(2)])
  then show ?thesis by simp
qed

lemma distinct_below:
  shows "proper t \<Longrightarrow> below n t i = Some is \<Longrightarrow> (\<exists>cs. comps_ok cs \<and> pwalk t cs 2 = Some i) \<Longrightarrow> distinct is"
    and "proper t \<Longrightarrow> belows n t es = Some js \<Longrightarrow> (\<exists>cs m xs d. comps_ok cs \<and> pwalk t cs 2 = Some d \<and> t d = Some (Dir_node m xs) \<and>
      (\<forall>e \<in> set es. Some e \<in> set xs)) \<Longrightarrow> distinct (map Name es) \<Longrightarrow> distinct js"
proof (induction n t i and n t es arbitrary: "is" and js rule: below_belows.induct)
  case (2 n t i)
  note P = 2(2)
  obtain cs where cs: "comps_ok cs" "pwalk t cs 2 = Some i" using 2(4) by blast
  show ?case
  proof (cases "t i")
    case (Some x)
    show ?thesis
    proof (cases x)
      case (Dir_node m xs)
      note d = Some[unfolded Dir_node]
      obtain js where js: "belows n t (entries xs) = Some js" "is = js @ [i]" using 2(3) d by auto
      have "distinct (map Name (entries xs))" using properD(2)[OF P d] distinct_entries by (auto simp: dir_proper_def)
      moreover have "\<forall>e \<in> set (entries xs). Some e \<in> set xs" by (simp add: in_entries)
      ultimately have "distinct js" using 2(1)[OF Some Dir_node P js(1)] cs d by blast
      moreover have "i \<notin> set js" by (rule below_entry_fresh[OF P cs d js(1)])
      ultimately show ?thesis using js(2) by simp
    qed (use 2(3) Some in auto)
  qed (use 2(3) in simp)
next
  case (4 n t e es)
  note P = 4(4)
  obtain cs m xs d where d: "comps_ok cs" "pwalk t cs 2 = Some d" "t d = Some (Dir_node m xs)" "\<forall>e \<in> set (e # es). Some e \<in> set xs"
    using 4(6) by blast
  have tl: "\<exists>cs m xs d. comps_ok cs \<and> pwalk t cs 2 = Some d \<and> t d = Some (Dir_node m xs) \<and> (\<forall>e \<in> set es. Some e \<in> set xs)"
    using d by (meson list.set_intros(2))
  show ?case
  proof (cases "not_dots e")
    case False
    then show ?thesis using 4(1)[OF _ P _ tl] 4(5,7) by (simp add: not_dots_def)
  next
    case True
    then obtain "is" ks where b: "below n t (Inum e) = Some is" "belows n t es = Some ks" "js = is @ ks"
      using 4(5) by (auto simp: not_dots_def split: option.splits)
    have nd: "\<not> (Name e = ''.'' \<or> Name e = ''..'')" using True by (simp add: not_dots_def)
    have e: "Some e \<in> set xs" using d(4) by simp
    have "Inum e \<in> desc t (Inum e)" by (rule desc_self)
    then obtain fs where "comps_ok (cs @ Name e # fs)" "pwalk t (cs @ Name e # fs) 2 = Some (Inum e)"
      by (rule under_entry[OF P d(2,1,3) e True])
    then have "distinct is" using 4(2)[OF nd P b(1)] by blast
    moreover have "distinct ks" using 4(3)[OF nd b(1) P b(2) tl] 4(7) by simp
    moreover have False if j: "j \<in> set is" "j \<in> set ks" for j
    proof -
      obtain e' where e': "e' \<in> set es" "not_dots e'" "j \<in> desc t (Inum e')"
        using j(2) below_desc(2)[OF P b(2)] by auto
      have e'x: "Some e' \<in> set xs" using e'(1) d(4) by simp
      have "j \<in> desc t (Inum e)" using j(1) below_desc(1)[OF P b(1)] by simp
      then have "Name e = Name e'" by (rule below_entries_disjoint[OF P d(1,2,3) e True _ e'x e'(2,3)])
      then show False using 4(7) e'(1) by (auto simp: image_iff)
    qed
    ultimately show ?thesis using b(3) by auto
  qed
qed simp_all

section \<open>Taking a subtree away\<close>

lemma child_nonzero: "child (tree fs) d c \<noteq> Some 0"
proof
  assume "child (tree fs) d c = Some 0"
  then obtain xs m where "tree fs d = Some (Dir_node m xs)" "slot_names xs c = Some 0"
    by (auto simp: child_def split: option.splits node.splits)
  then have "\<exists>e. Some e \<in> set (dir_slots fs d) \<and> Inum e = 0" using slot_names_in[of "dir_slots fs d" c 0] by (auto simp: tree_dir in_entries)
  then show False using slots_of_inum by (auto simp: dir_slots_def)
qed

text \<open>Once its entry is gone, nothing outside refers to a node of the subtree.\<close>

lemma desc_parent:
  assumes "proper t" "pwalk t cs 2 = Some p" "comps_ok (cs @ [name])" "child t p name = Some i"
    and "child t d c = Some j" "comp_ok c" "j \<in> desc t i"
  shows "d \<in> desc t i \<or> d = p \<and> c = name"
proof -
  obtain es where es: "comps_ok es" "pwalk t es i = Some j" using assms(7) by (auto simp: desc_def)
  show ?thesis
  proof (cases es rule: rev_cases)
    case Nil
    then have "j = i" using es(2) by simp
    then show ?thesis using properD(3)[OF assms(1,6) _ assms(5), of name p] assms(3,4) by simp
  next
    case (snoc fs c')
    then obtain d' where d': "pwalk t fs i = Some d'" "child t d' c' = Some j" "comp_ok c'" "comps_ok fs"
      using es by (auto simp: pwalk_snoc bind_eq_Some_conv)
    then have "d = d'" using properD(3)[OF assms(1,6) d'(3) assms(5) d'(2)] by simp
    then show ?thesis using d' by (auto simp: desc_def)
  qed
qed

lemma desc_root:
  assumes "proper t" "pwalk t cs 2 = Some p" "comps_ok (cs @ [name])" "child t p name = Some i"
  shows "2 \<notin> desc t i" "p \<notin> desc t i"
proof -
  have same: "(cs @ [name]) @ es = ds"
    if w: "pwalk t es i = Some j" "comps_ok es" and d: "pwalk t ds 2 = Some j" "comps_ok ds" for es ds j
  proof (rule pwalk_inject[OF assms(1) _ d(2) _ d(1)])
    show "comps_ok ((cs @ [name]) @ es)" using assms(3) w(2) by auto
    show "pwalk t ((cs @ [name]) @ es) 2 = Some j"
      using assms(2,4) w(1) by (simp only: pwalk_append[of t "cs @ [name]"] pwalk_snoc bind.simps)
  qed
  have ok: "comps_ok cs" using assms(3) by simp
  show "2 \<notin> desc t i" using same[of _ 2 "[]"] by (auto simp: desc_def)
  show "p \<notin> desc t i" using same[of _ p cs] assms(2) ok by (auto simp: desc_def)
qed

lemma desc_child: "comp_ok c \<Longrightarrow> child t j c = Some d \<Longrightarrow> j \<in> desc t i \<Longrightarrow> d \<in> desc t i"
proof -
  assume c: "comp_ok c" "child t j c = Some d" "j \<in> desc t i"
  then obtain es where "comps_ok es" "pwalk t es i = Some j" by (auto simp: desc_def)
  then have "comps_ok (es @ [c])" "pwalk t (es @ [c]) i = Some d" using c(1,2) by (auto simp: pwalk_snoc)
  then show "d \<in> desc t i" unfolding desc_def by blast
qed

definition tree_cut :: "tree \<Rightarrow> u32 \<Rightarrow> string \<Rightarrow> u32 set \<Rightarrow> tree" where
  "tree_cut t p name is = tree_remove t p name |` (- is)"

lemma removed_slots:
  assumes "t p = Some (Dir_node m xs)" "slot_names xs name = Some i" "uniq_names xs"
  obtains ys where "tree_remove t p name = t(p \<mapsto> Dir_node m ys)" "uniq_names ys" "slot_names ys = (slot_names xs)(name := None)"
    "\<And>e. Some e \<in> set ys \<longleftrightarrow> Some e \<in> set xs \<and> Name e \<noteq> name"
proof -
  obtain ys where ys: "remove_slot name xs = Some ys" using slot_names_remove[OF assms(2)] by blast
  note d = dir_table.del_ok[OF assms(3) ys] dir_table.del_names[OF assms(3) ys]
  have "Some e \<in> set ys \<longleftrightarrow> Some e \<in> set xs \<and> Name e \<noteq> name" for e
    using ys uniq_blank(2)[OF assms(3)] by (auto simp: remove_slot_def)
  then show ?thesis using that[OF _ d] assms(1) ys by (simp add: tree_remove_def)
qed

lemma subtree_detachable:
  assumes "proper t" "\<And>d c. child t d c \<noteq> Some 0" "pwalk t cs 2 = Some p" "comps_ok (cs @ [name])" "t p = Some (Dir_node m xs)"
    and "slot_names xs name = Some i" "below n t i = Some is"
  shows "detachable (tree_remove t p name) p is" "set is = desc t i"
proof -
  have ch: "child t p name = Some i" using assms(5,6) by (simp add: child_def)
  have w: "pwalk t (cs @ [name]) 2 = Some i" using assms(3) ch by (simp add: pwalk_snoc)
  show is_desc: "set is = desc t i" by (rule below_desc(1)[OF assms(1,7)])
  have u: "uniq_names xs" using properD(2)[OF assms(1,5)] by (simp add: dir_proper_def)
  obtain ys where ys: "tree_remove t p name = t(p \<mapsto> Dir_node m ys)" "Some e \<in> set ys \<longleftrightarrow> Some e \<in> set xs \<and> Name e \<noteq> name" for e
    by (rule removed_slots[where t = t and p = p, OF assms(5,6) u]) blast
  note out = desc_root[OF assms(1,3,4) ch]
  have "0 \<notin> desc t i"
  proof
    assume "0 \<in> desc t i"
    then obtain es where "pwalk t es i = Some 0" by (auto simp: desc_def)
    then have "pwalk t ((cs @ [name]) @ es) 2 = Some 0" using w by (simp only: pwalk_append[of t "cs @ [name]"] bind.simps)
    then show False using assms(2)
      by (cases es rule: rev_cases) (auto simp: pwalk_snoc bind_eq_Some_conv simp flip: append_assoc)
  qed
  moreover have "Inum e \<notin> desc t i" if d: "d \<notin> desc t i" "(t(p \<mapsto> Dir_node m ys)) d = Some (Dir_node m' zs)" "Some e \<in> set zs" for d m' zs e
  proof
    assume e: "Inum e \<in> desc t i"
    obtain m'' zs' where t: "t d = Some (Dir_node m'' zs')" "Some e \<in> set zs'" "d = p \<Longrightarrow> Name e \<noteq> name"
      using d(2,3) ys(2) assms(5) by (auto split: if_splits)
    have dp: "dir_proper t zs'" by (rule properD(2)[OF assms(1) t(1)])
    have c: "child t d (Name e) = Some (Inum e)" using t(1,2) dp by (auto simp: child_def dir_proper_def slot_names_Some)
    have dots: "dots_proper t d" by (rule properD(5)[OF assms(1)])
    consider "comp_ok (Name e)" | "Name e = ''.''" | "Name e = ''..''" using dp t(2) by (auto simp: dir_proper_def)
    then show False
    proof cases
      case 1
      then show ?thesis using desc_parent[OF assms(1,3,4) ch c 1 e] d(1) t(3) by blast
    next
      case 2
      then have "Inum e = d" using c dots by (simp add: dots_proper_def)
      then show ?thesis using e d(1) by simp
    next
      case 3
      then consider "Inum e = 2" | k where "comp_ok k" "child t (Inum e) k = Some d" using c dots by (auto simp: dots_proper_def)
      then show ?thesis using desc_child e d(1) out(1) by cases auto
    qed
  qed
  moreover have "distinct is" using distinct_below(1)[OF assms(1,7)] w assms(4) by blast
  ultimately show "detachable (tree_remove t p name) p is"
    unfolding detachable_def ys(1) is_desc using out by blast
qed

text \<open>The map loses the paths under the removed one, and nothing else.\<close>

definition map_cut :: "(string list \<rightharpoonup> entry) \<Rightarrow> string list \<Rightarrow> string list \<rightharpoonup> entry" where
  "map_cut f ps = (\<lambda>qs. if prefix ps qs then None else f qs)"

lemma cut_child:
  assumes "proper t" "t p = Some (Dir_node m xs)" "slot_names xs name = Some i" "p \<notin> D"
  shows "child (tree_cut t p name D) d c = (if d \<in> D \<or> d = p \<and> c = name then None else child t d c)"
    "tree_cut t p name D d = None \<longleftrightarrow> d \<in> D \<or> t d = None"
    "\<exists>ys. tree_cut t p name D d = (if d \<in> D then None else if d = p then Some (Dir_node m ys) else t d) \<and>
       uniq_names ys \<and> (\<forall>e. Some e \<in> set ys \<longleftrightarrow> Some e \<in> set xs \<and> Name e \<noteq> name)"
proof -
  have u: "uniq_names xs" using properD(2)[OF assms(1,2)] by (simp add: dir_proper_def)
  obtain ys where ys: "tree_remove t p name = t(p \<mapsto> Dir_node m ys)" "uniq_names ys" "slot_names ys = (slot_names xs)(name := None)"
    "\<forall>e. Some e \<in> set ys \<longleftrightarrow> Some e \<in> set xs \<and> Name e \<noteq> name"
    by (rule removed_slots[where t = t and p = p, OF assms(2,3) u]) blast
  show "child (tree_cut t p name D) d c = (if d \<in> D \<or> d = p \<and> c = name then None else child t d c)"
    using assms(2,4) ys(3) by (auto simp: child_def tree_cut_def ys(1) restrict_map_def)
  show "tree_cut t p name D d = None \<longleftrightarrow> d \<in> D \<or> t d = None"
    using assms(2,4) by (auto simp: tree_cut_def ys(1) restrict_map_def)
  show "\<exists>ys. tree_cut t p name D d = (if d \<in> D then None else if d = p then Some (Dir_node m ys) else t d) \<and>
     uniq_names ys \<and> (\<forall>e. Some e \<in> set ys \<longleftrightarrow> Some e \<in> set xs \<and> Name e \<noteq> name)"
    using assms(4) ys(2,4) by (intro exI[of _ ys]) (auto simp: tree_cut_def ys(1) restrict_map_def)
qed

text \<open>An entry of a path, with the nodes below it.\<close>

definition removing :: "tree \<Rightarrow> string list \<Rightarrow> u32 \<Rightarrow> node_meta \<Rightarrow> dir_entry option list \<Rightarrow> string \<Rightarrow> u32 \<Rightarrow> u32 list \<Rightarrow> bool" where
  "removing t cs p m xs name i is \<longleftrightarrow> proper t \<and> (\<forall>d c. child t d c \<noteq> Some 0) \<and> pwalk t cs 2 = Some p \<and> comps_ok (cs @ [name]) \<and>
     t p = Some (Dir_node m xs) \<and> slot_names xs name = Some i \<and> (\<exists>n. below n t i = Some is)"

lemma removing_cut:
  assumes "removing t cs p m xs name i is"
  shows "child t p name = Some i" "pwalk t (cs @ [name]) 2 = Some i" "detachable (tree_remove t p name) p is" "set is = desc t i"
    "2 \<notin> set is" "p \<notin> set is"
proof -
  have h: "proper t" "\<And>d c. child t d c \<noteq> Some 0" "pwalk t cs 2 = Some p" "comps_ok (cs @ [name])" "t p = Some (Dir_node m xs)"
    "slot_names xs name = Some i" "\<exists>n. below n t i = Some is" using assms(1) by (simp_all add: removing_def)
  show ch: "child t p name = Some i" using h(5,6) by (simp add: child_def)
  then show "pwalk t (cs @ [name]) 2 = Some i" using h(3) by (simp add: pwalk_snoc)
  obtain n where n: "below n t i = Some is" using h(7) by blast
  note det = subtree_detachable[OF h(1-6) n]
  show "detachable (tree_remove t p name) p is" "set is = desc t i" by (rule det)+
  show "2 \<notin> set is" "p \<notin> set is" using desc_root[OF h(1,3,4) ch, folded det(2)] by simp_all
qed

lemma removing_child:
  assumes "removing t cs p m xs name i is"
  shows "child (tree_cut t p name (set is)) d c = (if d \<in> set is \<or> d = p \<and> c = name then None else child t d c)"
    "tree_cut t p name (set is) d = None \<longleftrightarrow> d \<in> set is \<or> t d = None"
    "\<exists>ys. tree_cut t p name (set is) d = (if d \<in> set is then None else if d = p then Some (Dir_node m ys) else t d) \<and>
       uniq_names ys \<and> (\<forall>e. Some e \<in> set ys \<longleftrightarrow> Some e \<in> set xs \<and> Name e \<noteq> name)"
proof -
  have h: "proper t" "t p = Some (Dir_node m xs)" "slot_names xs name = Some i" using assms by (simp_all add: removing_def)
  show "child (tree_cut t p name (set is)) d c = (if d \<in> set is \<or> d = p \<and> c = name then None else child t d c)"
    "tree_cut t p name (set is) d = None \<longleftrightarrow> d \<in> set is \<or> t d = None"
    "\<exists>ys. tree_cut t p name (set is) d = (if d \<in> set is then None else if d = p then Some (Dir_node m ys) else t d) \<and>
       uniq_names ys \<and> (\<forall>e. Some e \<in> set ys \<longleftrightarrow> Some e \<in> set xs \<and> Name e \<noteq> name)"
    by (rule cut_child[OF h removing_cut(6)[OF assms]])+
qed

lemma removing_dirs:
  assumes "removing t cs p m xs name i is" "tree_cut t p name (set is) d = Some (Dir_node m' ys)"
  shows "dir_proper (tree_cut t p name (set is)) ys"
proof -
  have h: "proper t" "\<And>d c. child t d c \<noteq> Some 0" "pwalk t cs 2 = Some p" "comps_ok (cs @ [name])" "t p = Some (Dir_node m xs)"
    "slot_names xs name = Some i" "\<exists>n. below n t i = Some is" using assms(1) by (simp_all add: removing_def)
  let ?t = "tree_cut t p name (set is)"
  note rc = removing_cut[OF assms(1)] and cut = removing_child[OF assms(1)]
  obtain m'' xs' where t: "t d = Some (Dir_node m'' xs')" "d \<notin> set is" "uniq_names ys" "\<And>e. Some e \<in> set ys \<Longrightarrow> Some e \<in> set xs'"
  proof (cases "d = p")
    case True
    then show ?thesis using that[of m xs] cut(3)[of d] assms(2) h(5) by (auto split: if_splits)
  next
    case False
    then have "t d = Some (Dir_node m' ys)" "d \<notin> set is" using cut(3)[of d] assms(2) by (auto split: if_splits)
    then show ?thesis using that[of m' ys] properD(2)[OF h(1), of d] by (auto simp: dir_proper_def)
  qed
  have dp: "dir_proper t xs'" by (rule properD(2)[OF h(1) t(1)])
  have "Inum e \<notin> set is" if e: "Some e \<in> set ys" for e
  proof -
    have "tree_remove t p name d = Some (Dir_node m' ys)" using assms(2) t(2) by (simp add: tree_cut_def restrict_map_def)
    then show ?thesis using rc(3) t(2) e unfolding detachable_def by blast
  qed
  then show ?thesis using t(3,4) dp unfolding dir_proper_def cut(2) by blast
qed

lemma removing_dots:
  assumes "removing t cs p m xs name i is"
  shows "dots_proper (tree_cut t p name (set is)) d"
proof -
  have h: "proper t" "\<And>d c. child t d c \<noteq> Some 0" "pwalk t cs 2 = Some p" "comps_ok (cs @ [name])" "t p = Some (Dir_node m xs)"
    "slot_names xs name = Some i" "\<exists>n. below n t i = Some is" using assms(1) by (simp_all add: removing_def)
  let ?t = "tree_cut t p name (set is)"
  note rc = removing_cut[OF assms(1)] and cut = removing_child[OF assms(1)]
  have sub: "child t d c = Some j \<and> d \<notin> set is" if "child ?t d c = Some j" for d c j
    using that unfolding cut(1) by (simp split: if_splits)
  have old: "dots_proper t d" by (rule properD(5)[OF h(1)])
  have "\<exists>c. comp_ok c \<and> child ?t j c = Some d" if j: "child ?t d ''..'' = Some k" "comp_ok c" "child t j c = Some d" for j k c
  proof -
    have "d \<notin> set is" using sub[OF j(1)] by simp
    then have "j \<notin> set is" using desc_child[OF j(2,3)] rc(4) by blast
    moreover have "i \<in> set is" using desc_self[of i t] rc(4) by simp
    then have "\<not> (j = p \<and> c = name)" using j(3)  rc(1) \<open>d \<notin> set is\<close> by (metis option.inject)
    ultimately have "child ?t j c = Some d" using j(3) by (simp add: cut(1))
    then show ?thesis using j(2) by blast
  qed
  then show ?thesis using old sub unfolding dots_proper_def by blast
qed

lemma removing_walk:
  assumes "removing t cs p m xs name i is" "comps_ok ps"
  shows "pwalk (tree_cut t p name (set is)) ps 2 = (if prefix (cs @ [name]) ps then None else pwalk t ps 2)"
proof -
  have h: "proper t" "\<And>d c. child t d c \<noteq> Some 0" "pwalk t cs 2 = Some p" "comps_ok (cs @ [name])" "t p = Some (Dir_node m xs)"
    "slot_names xs name = Some i" "\<exists>n. below n t i = Some is" using assms(1) by (simp_all add: removing_def)
  let ?t = "tree_cut t p name (set is)"
  note rc = removing_cut[OF assms(1)] and cut = removing_child[OF assms(1)]
  show ?thesis
    using assms(2)
  proof (induction ps rule: rev_induct)
    case (snoc c ps)
    then have ok: "comp_ok c" "comps_ok ps" and IH: "pwalk ?t ps 2 = (if prefix (cs @ [name]) ps then None else pwalk t ps 2)" by auto
    show ?case
    proof (cases "prefix (cs @ [name]) ps \<or> pwalk t ps 2 = None")
      case True
      then show ?thesis using IH h(3) by (auto simp: pwalk_snoc)
    next
      case False
      then obtain d where d: "pwalk t ps 2 = Some d" "\<not> prefix (cs @ [name]) ps" by blast
      have "d \<notin> set is"
      proof
        assume "d \<in> set is"
        then obtain es where es: "comps_ok es" "pwalk t es i = Some d" unfolding rc(4) desc_def by blast
        then have "pwalk t ((cs @ [name]) @ es) 2 = Some d" using rc(2) by (simp only: pwalk_append[of t "cs @ [name]"] bind.simps)
        moreover have "comps_ok ((cs @ [name]) @ es)" using h(4) es(1) by auto
        ultimately have "(cs @ [name]) @ es = ps" using pwalk_inject[OF h(1) _ ok(2) _ d(1)] by blast
        then show False using d(2) by auto
      qed
      moreover have "d = p \<longleftrightarrow> ps = cs"
        using pwalk_inject[OF h(1) ok(2) _ d(1), of cs] h(3,4) d(1) by auto
      ultimately show ?thesis
        using IH d cut(1)[of d c] by (simp add: pwalk_snoc prefix_snoc)
    qed
  qed simp
qed

lemma remove_node:
  assumes "proper t" "\<And>d c. child t d c \<noteq> Some 0" "pwalk t cs 2 = Some p" "comps_ok (cs @ [name])" "t p = Some (Dir_node m xs)"
    and "slot_names xs name = Some i" "below n t i = Some is"
  shows "proper (tree_cut t p name (set is))" "file_map (tree_cut t p name (set is)) = map_cut (file_map t) (cs @ [name])"
proof -
  have r: "removing t cs p m xs name i is" using assms by (auto simp: removing_def)
  let ?t = "tree_cut t p name (set is)"
  note out = removing_cut(5)[OF r] and cut = removing_child[OF r] and walk = removing_walk[OF r]
  have sub: "child t d c = Some j \<and> d \<notin> set is" if "child ?t d c = Some j" for d c j
    using that unfolding cut(1) by (simp split: if_splits)
  have "\<exists>m xs. ?t 2 = Some (Dir_node m xs)" using cut(3)[of 2] out properD(1)[OF assms(1)] by auto
  moreover have "d = d' \<and> c = c'" if "comp_ok c" "comp_ok c'" "child ?t d c = Some j" "child ?t d' c' = Some j" for d d' c c' j
    using properD(3)[OF assms(1) that(1,2)] sub that(3,4) by blast
  moreover have "child ?t d c \<noteq> Some 2" if "comp_ok c" for d c using properD(4)[OF assms(1) that] sub by blast
  ultimately show "proper ?t" unfolding proper_def using removing_dirs[OF r] removing_dots[OF r] by blast
  have "file_map ?t ps = map_cut (file_map t) (cs @ [name]) ps" for ps
  proof (cases "comps_ok ps \<and> \<not> prefix (cs @ [name]) ps")
    case True
    then have wk: "pwalk ?t ps 2 = pwalk t ps 2" using walk[of ps] by simp
    show ?thesis
    proof (cases "pwalk t ps 2")
      case (Some d)
      have "pwalk ?t ps 2 = Some d" using wk Some by simp
      then have "?t d \<noteq> None" using pwalk_node[OF \<open>proper ?t\<close>] by blast
      then have "d \<notin> set is" using cut(2)[of d] by simp
      then have "map_option view_node (?t d) = map_option view_node (t d)" using cut(3)[of d] assms(5) by (cases "d = p") auto
      then show ?thesis using True wk Some by (simp add: file_map_def map_cut_def)
    qed (use True wk in \<open>simp add: file_map_def map_cut_def\<close>)
  next
    case False
    then show ?thesis using walk[of ps] by (auto simp: file_map_def map_cut_def)
  qed
  then show "file_map ?t = map_cut (file_map t) (cs @ [name])" by blast
qed

end
