(* ===== verification/MapProps.thy ===== *)
theory MapProps
  imports RemoveMap AccessProps
begin

text \<open>
  The calls that change the file system, on the map from paths to files and directories: what a user may count on without inodes,
  blocks and caches (\<open>map_call\<close>), and the theorem that each call of the kernel is the operation on the map. At the end, what a
  new file takes of the disk and gives back.
\<close>

section \<open>The file system of the user\<close>

type_synonym path_map = "string list \<rightharpoonup> entry"

text \<open>A walk asks every directory it enters for the execute bit.\<close>

fun map_walk :: "path_map \<Rightarrow> string \<Rightarrow> string list \<Rightarrow> string list \<Rightarrow> entry outcome" where
  "map_walk f u ps [] = (case f ps of None \<Rightarrow> Err ENOENT | Some e \<Rightarrow> Ok e)"
| "map_walk f u ps (c # cs) = (case f ps of
     Some (Dir_at m) \<Rightarrow>
       if \<not> may 1 u m then Err EACCES
       else if f (ps @ [c]) = None then Err ENOENT
       else map_walk f u (ps @ [c]) cs
   | _ \<Rightarrow> Err ENOTDIR)"

text \<open>A directory in which the user may make entries.\<close>

definition map_parent :: "path_map \<Rightarrow> string \<Rightarrow> string list \<Rightarrow> unit outcome" where
  "map_parent f u cs = bindO (map_walk f u [] cs) (\<lambda>e. case e of
     Dir_at m \<Rightarrow> if may 2 u m then Ok () else Err EACCES
   | File_at m bs \<Rightarrow> Err ENOTDIR)"

fun entry_meta :: "entry \<Rightarrow> node_meta" where
  "entry_meta (Dir_at m) = m"
| "entry_meta (File_at m bs) = m"

fun entry_modes :: "u8 \<Rightarrow> u8 \<Rightarrow> entry \<Rightarrow> entry" where
  "entry_modes om xm (Dir_at m) = Dir_at (m\<lparr>m_ownerMode := om, m_otherMode := xm\<rparr>)"
| "entry_modes om xm (File_at m bs) = File_at (m\<lparr>m_ownerMode := om, m_otherMode := xm\<rparr>) bs"

datatype call = Make_dir | Touch | Remove | Write "u8 list" | Set_modes u8 u8

definition map_new :: "path_map \<Rightarrow> string \<Rightarrow> string list \<Rightarrow> entry \<Rightarrow> unit outcome \<times> path_map" where
  "map_new f u cs e = (case map_parent f u (butlast cs) of
     Ok _ \<Rightarrow> (Ok (), f(cs \<mapsto> e))
   | Err err \<Rightarrow> (Err err, f)
   | Panic \<Rightarrow> (Panic, f))"

definition map_call :: "string \<Rightarrow> string list \<Rightarrow> call \<Rightarrow> path_map \<Rightarrow> unit outcome \<times> path_map" where
  "map_call u cs op f = (case op of
     Make_dir \<Rightarrow> (case map_walk f u [] cs of Ok e \<Rightarrow> (Err EEXIST, f) | _ \<Rightarrow> map_new f u cs (Dir_at (user_meta u)))
   | Touch \<Rightarrow> (case map_walk f u [] cs of Ok e \<Rightarrow> (Ok (), f) | _ \<Rightarrow> map_new f u cs (File_at (user_meta u) []))
   | Remove \<Rightarrow>
       if cs = [] then (Err EPERM, f)
       else (case bindO (map_walk f u [] cs) (\<lambda>_. map_parent f u (butlast cs)) of
         Ok _ \<Rightarrow> (Ok (), map_cut f cs)
       | Err e \<Rightarrow> (Err e, f)
       | Panic \<Rightarrow> (Panic, f))
   | Write bs \<Rightarrow> (case map_walk f u [] cs of
         Ok (Dir_at m) \<Rightarrow> (Err EISDIR, f)
       | Ok (File_at m old) \<Rightarrow> if may 2 u m then (Ok (), f(cs \<mapsto> File_at m bs)) else (Err EACCES, f)
       | Err e \<Rightarrow> if e = ENOENT then map_new f u cs (File_at (user_meta u) bs) else (Err e, f)
       | Panic \<Rightarrow> (Panic, f))
   | Set_modes om xm \<Rightarrow> (case map_walk f u [] cs of
         Ok e \<Rightarrow> if u = ''root'' \<or> ownerString (m_owner (entry_meta e)) = u then (Ok (), f(cs \<mapsto> entry_modes om xm e))
           else (Err (ErrorText ''permission denied''), f)
       | Err e \<Rightarrow> (Err (ErrorText ''no such file or directory''), f)
       | Panic \<Rightarrow> (Panic, f)))"

fun kernel_call :: "u64 \<times> u64 \<Rightarrow> process \<Rightarrow> string \<Rightarrow> call \<Rightarrow> kernel \<Rightarrow> unit outcome \<times> kernel" where
  "kernel_call now proc target Make_dir k = mkDir now proc target k"
| "kernel_call now proc target Touch k = createFile now proc target k"
| "kernel_call now proc target Remove k = removeAll proc target k"
| "kernel_call now proc target (Write bs) k = writeFile now proc target bs k"
| "kernel_call now proc target (Set_modes om xm) k = chmod proc target om xm k"

section \<open>Walks on the map are walks in the tree\<close>

lemma map_walk_tree:
  assumes "proper t"
  shows "pwalk t ps 2 = Some i \<Longrightarrow> comps_ok (ps @ cs) \<Longrightarrow>
    map_walk (file_map t) u ps cs = bindO (tree_lookup t u cs i) (\<lambda>j. Ok (view_node (the (t j))))"
proof (induction cs arbitrary: ps i)
  case Nil
  then have "t i \<noteq> None" using pwalk_node[OF assms] by blast
  then show ?case using Nil by (auto simp: file_map_def)
next
  case (Cons c cs)
  obtain n where n: "t i = Some n" using pwalk_node[OF assms Cons.prems(1)] by blast
  have ok: "comps_ok ps" "comps_ok (ps @ [c])" "comps_ok ((ps @ [c]) @ cs)" using Cons.prems(2) by auto
  have f: "file_map t ps = Some (view_node n)" using Cons.prems(1) n ok(1) by (simp add: file_map_def)
  show ?case
  proof (cases n)
    case (Dir_node m xs)
    have ch: "pwalk t (ps @ [c]) 2 = slot_names xs c" using Cons.prems(1) n Dir_node by (simp add: pwalk_snoc child_def)
    then have none: "file_map t (ps @ [c]) = None \<longleftrightarrow> slot_names xs c = None" using file_map_None[OF assms ok(2)] by simp
    show ?thesis
    proof (cases "slot_names xs c")
      case None
      then show ?thesis using f n Dir_node none by simp
    next
      case (Some j)
      then obtain e where e: "file_map t (ps @ [c]) = Some e" using none by auto
      have "pwalk t (ps @ [c]) 2 = Some j" using ch Some by simp
      then have "map_walk (file_map t) u (ps @ [c]) cs = bindO (tree_lookup t u cs j) (\<lambda>j. Ok (view_node (the (t j))))"
        using ok(3) by (rule Cons.IH)
      then show ?thesis using f n Dir_node Some e by simp
    qed
  qed (use f n in simp)
qed

lemma lookup_node: "proper t \<Longrightarrow> tree_lookup t u cs 2 = Ok j \<Longrightarrow> \<exists>n. t j = Some n"
  using lookup_pwalk pwalk_node by fastforce

lemma tree_lookup_no_panic: "tree_lookup t u cs i \<noteq> Panic"
  by (induction t u cs i rule: tree_lookup.induct) (auto split: option.split node.split)

lemma map_parent_tree:
  assumes "proper t" "comps_ok cs"
  shows "map_parent (file_map t) u cs = bindO (parent_check t u cs) (\<lambda>_. Ok ())"
proof (cases "tree_lookup t u cs 2")
  case (Ok j)
  then obtain n where "t j = Some n" using lookup_node[OF assms(1)] by blast
  then show ?thesis using assms Ok map_walk_tree[OF assms(1), of "[]" 2 cs u]
    by (cases n) (auto simp: map_parent_def parent_check_def)
qed (use assms map_walk_tree[OF assms(1), of "[]" 2 cs u] in \<open>simp_all add: map_parent_def parent_check_def\<close>)

lemma parent_check_no_panic: "parent_check t u cs \<noteq> Panic"
  using tree_lookup_no_panic[of t u cs 2]
  by (cases "tree_lookup t u cs 2") (auto simp: parent_check_def split: option.split node.split)

section \<open>Calls on the map\<close>

text \<open>
  What a call needs beside permissions: bits and blocks for what it makes, and no directory it removes or
  changes may be stale in the cache. A directory that may be written may be entered: the code takes a path it may not
  look up for a missing one.
\<close>

definition room_for :: "kernel \<Rightarrow> string list \<Rightarrow> call \<Rightarrow> bool" where
  "room_for k cs op = (
     let grow = (\<lambda>n. \<forall>p. pwalk (tree (kfs k)) (butlast cs) 2 = Some p \<longrightarrow> can_grow n (kfs k) p)
     in case op of
       Make_dir \<Rightarrow> free_zero (kfs k) \<and> grow 1
     | Touch \<Rightarrow> grow 0
     | Write bs \<Rightarrow> length bs \<le> max_blocks * BLOCKSIZE \<and> grow (needed_blocks 0 (nblocks (length bs))) \<and>
         (\<forall>m old. file_map (tree (kfs k)) cs = Some (File_at m old) \<longrightarrow>
            needed_blocks (nblocks (length old)) (nblocks (length bs)) \<le> free_blocks (kfs k))
     | Remove \<Rightarrow> \<forall>i. coherent k i
     | Set_modes om xm \<Rightarrow> \<forall>i. coherent k i)"

definition enterable :: "path_map \<Rightarrow> string \<Rightarrow> string list \<Rightarrow> bool" where
  "enterable f u cs \<longleftrightarrow> (\<forall>m. f (butlast cs) = Some (Dir_at m) \<longrightarrow> may 2 u m \<longrightarrow> may 1 u m)"

definition call_refines :: "unit outcome \<Rightarrow> kernel \<Rightarrow> kernel \<Rightarrow> unit outcome \<times> path_map \<Rightarrow> bool" where
  "call_refines r k k' m \<longleftrightarrow> r = fst m \<and> kernel_inv k' \<and> fs_only k k' \<and> proper (tree (kfs k')) \<and> file_map (tree (kfs k')) = snd m"

text \<open>A call that fails or has nothing to do.\<close>

lemma call_refines_same:
  "kernel_inv k' \<Longrightarrow> cache_only k k' \<Longrightarrow> proper (tree (kfs k)) \<Longrightarrow> m = (r, file_map (tree (kfs k))) \<Longrightarrow> call_refines r k k' m"
  by (simp add: call_refines_def cache_only_fs)

text \<open>A call that makes a node.\<close>

lemma free_name:
  assumes "proper t" "comps_ok cs" "tree_lookup t u (cs @ [name]) 2 = Err e" "parent_check t u cs = Ok p"
    and "enterable (file_map t) u (cs @ [name])"
  shows "e = ENOENT" "\<exists>m xs. t p = Some (Dir_node m xs) \<and> slot_names xs name = None" "pwalk t cs 2 = Some p"
proof -
  obtain m xs where p: "tree_lookup t u cs 2 = Ok p" "t p = Some (Dir_node m xs)" "may 2 u m" using parent_check_Ok[OF assms(4)] by blast
  show w: "pwalk t cs 2 = Some p" by (rule lookup_pwalk[OF p(1)])
  have "file_map t cs = Some (Dir_at m)" using w p(2) assms(2) by (simp add: file_map_def)
  then have x: "may 1 u m" using assms(5) p(3) by (simp add: enterable_def)
  have "slot_names xs name = None" using assms(3) p x by (auto simp: tree_lookup_append split: option.splits)
  then show "e = ENOENT" "\<exists>m xs. t p = Some (Dir_node m xs) \<and> slot_names xs name = None"
    using assms(3) p x by (auto simp: tree_lookup_append)
qed

lemma map_new_tree:
  assumes "proper t" "comps_ok (cs @ [name])" "tree_lookup t u (cs @ [name]) 2 = Err e" "enterable (file_map t) u (cs @ [name])"
    and "parent_check t u cs = Ok p" "t i = None" "new_ok i p n" "t' = tree_add t p name i n"
  shows "proper t'" "map_new (file_map t) u (cs @ [name]) (view_node n) = (Ok (), file_map t')"
proof -
  have ok: "comps_ok cs" using assms(2) by simp
  note f = free_name[OF assms(1) ok assms(3,5,4)]
  obtain m xs where p: "t p = Some (Dir_node m xs)" "slot_names xs name = None" using f(2) by blast
  note a = add_node[OF assms(1) f(3) assms(2) p assms(6,7), folded assms(8)]
  show "proper t'" by (rule a(1))
  show "map_new (file_map t) u (cs @ [name]) (view_node n) = (Ok (), file_map t')"
    using map_parent_tree[OF assms(1) ok, of u] assms(5) by (simp add: map_new_def a(2))
qed

lemma map_new_fails:
  "proper t \<Longrightarrow> comps_ok cs \<Longrightarrow> parent_check t u cs = Err e \<Longrightarrow> map_new (file_map t) u (cs @ [name]) x = (Err e, file_map t)"
  using map_parent_tree[of t cs u] by (simp add: map_new_def)

lemma walk_outcome:
  assumes "proper t" "comps_ok cs"
  shows "map_walk (file_map t) u [] cs = bindO (tree_lookup t u cs 2) (\<lambda>j. Ok (view_node (the (t j))))"
  using map_walk_tree[OF assms(1), of "[]" 2 cs u] assms(2) by simp

text \<open>\<open>mkDir\<close> and \<open>createFile\<close> of a path that does not resolve, from what their specification promises.\<close>

lemma made_refines:
  assumes "proper (tree (kfs k))" "comps_ok (ds @ [name])" "tree_lookup (tree (kfs k)) u (ds @ [name]) 2 = Err e"
    and "enterable (file_map (tree (kfs k))) u (ds @ [name])" "kernel_inv k'" "fs_only k k'"
    and made: "case parent_check (tree (kfs k)) u ds of
       Ok p \<Rightarrow> \<exists>i. tree (kfs k) i = None \<and> unat i = Min (free_bits (ibitmap (kfs k))) \<and>
         tree (kfs k') = tree_add (tree (kfs k)) p name i (made_node ft (user_meta u) i p) \<and>
         inodeCache k' i = None \<and> (free_zero (kfs k) \<longrightarrow> free_zero (kfs k'))
     | _ \<Rightarrow> kfs k' = kfs k"
    and x: "\<And>i p. view_node (made_node ft (user_meta u) i p) = x"
  shows "call_refines (bindO (parent_check (tree (kfs k)) u ds) (\<lambda>_. Ok ())) k k' (map_new (file_map (tree (kfs k))) u (ds @ [name]) x)"
proof (cases "parent_check (tree (kfs k)) u ds")
  case (Ok q)
  obtain i where i: "tree (kfs k) i = None" "tree (kfs k') = tree_add (tree (kfs k)) q name i (made_node ft (user_meta u) i q)"
    using made Ok by auto
  have "new_ok i q (made_node ft (user_meta u) i q)" by (simp add: new_ok_def made_node_def)
  note a = map_new_tree[OF assms(1-4) Ok i(1) this i(2)]
  show ?thesis using a assms(5,6) Ok by (simp add: call_refines_def x)
next
  case (Err e')
  then show ?thesis using made map_new_fails[OF assms(1) _ Err, of name x] assms(1,2,5,6) by (simp add: call_refines_def)
qed (use parent_check_no_panic in blast)

lemma room_grow:
  assumes "\<forall>p. pwalk t (butlast cs) 2 = Some p \<longrightarrow> can_grow n fs p" "cs = ds @ [name]" "parent_check t u ds = Ok p"
  shows "can_grow n fs p"
  using assms lookup_pwalk parent_check_Ok by fastforce

lemma make_refines:
  assumes "kernel_inv k" "proper (tree (kfs k))" "cs \<noteq> [] \<Longrightarrow> length (last cs) \<le> 55" "path_of proc target = cs"
    and "enterable (file_map (tree (kfs k))) (EUID proc) cs"
  shows "room_for k cs Make_dir \<Longrightarrow> \<exists>r k'. mkDir now proc target k = (r, k') \<and>
      call_refines r k k' (map_call (EUID proc) cs Make_dir (file_map (tree (kfs k))))" (is "_ \<Longrightarrow> ?made")
    and "room_for k cs Touch \<Longrightarrow> \<exists>r k'. createFile now proc target k = (r, k') \<and>
      call_refines r k k' (map_call (EUID proc) cs Touch (file_map (tree (kfs k))))" (is "_ \<Longrightarrow> ?touched")
proof -
  let ?t = "tree (kfs k)" and ?u = "EUID proc"
  have ok: "comps_ok cs" using path_of(2)[of proc target] assms(4) by simp
  note w = walk_outcome[OF assms(2) ok, of ?u]
  have "(room_for k cs Make_dir \<longrightarrow> ?made) \<and> (room_for k cs Touch \<longrightarrow> ?touched)"
  proof (cases "tree_lookup ?t ?u cs 2")
    case (Ok i)
    obtain k' where k': "mkDir now proc target k = (Err EEXIST, k')" "createFile now proc target k = (Ok (), k')"
      "kernel_inv k'" "cache_only k k'"
      by (rule mkDir_exists[OF assms(1), of proc target i now]) (use Ok assms(4) in simp)
    have "map_call ?u cs Make_dir (file_map ?t) = (Err EEXIST, file_map ?t)" "map_call ?u cs Touch (file_map ?t) = (Ok (), file_map ?t)"
      by (simp_all add: map_call_def w Ok)
    then show ?thesis using k'(1,2) call_refines_same[OF k'(3,4) assms(2)] by auto
  next
    case (Err e)
    then have "cs \<noteq> []" by auto
    then obtain ds name where cs: "cs = ds @ [name]" by (metis append_butlast_last_id)
    have p: "path_of proc target = ds @ [name]" "length name \<le> 55" "comps_ok (ds @ [name])"
      "enterable (file_map ?t) ?u (ds @ [name])" using assms(3-5) cs ok by simp_all
    have lk: "tree_lookup ?t ?u (ds @ [name]) 2 = Err e" using Err cs by simp
    have "map_walk (file_map ?t) ?u [] cs = Err e" using w Err by simp
    then have m: "map_call ?u cs Make_dir (file_map ?t) = map_new (file_map ?t) ?u (ds @ [name]) (Dir_at (user_meta ?u))"
      "map_call ?u cs Touch (file_map ?t) = map_new (file_map ?t) ?u (ds @ [name]) (File_at (user_meta ?u) [])"
      unfolding map_call_def by (simp_all add: cs)
    have "?made" if "room_for k cs Make_dir"
    proof -
      have g: "can_grow 1 (kfs k) q" if "parent_check ?t ?u ds = Ok q" for q
        by (rule room_grow[OF _ cs that]) (use \<open>room_for k cs Make_dir\<close> in \<open>simp add: room_for_def\<close>)
      show ?thesis
        by (rule mkDir_missing[OF assms(1) p(1) lk p(2), of now])
          (use g that in \<open>auto simp: room_for_def made_node_def m intro!: made_refines[OF assms(2) p(3) lk p(4)]\<close>)
    qed
    moreover have "?touched" if "room_for k cs Touch"
    proof -
      have g: "can_grow 0 (kfs k) q" if "parent_check ?t ?u ds = Ok q" for q
        by (rule room_grow[OF _ cs that]) (use \<open>room_for k cs Touch\<close> in \<open>simp add: room_for_def\<close>)
      show ?thesis
        by (rule createFile_missing[OF assms(1) p(1) lk p(2), of now])
          (use g in \<open>auto simp: made_node_def m intro!: made_refines[OF assms(2) p(3) lk p(4)]\<close>)
    qed
    ultimately show ?thesis by blast
  qed (use tree_lookup_no_panic in blast)
  then show "room_for k cs Make_dir \<Longrightarrow> ?made" "room_for k cs Touch \<Longrightarrow> ?touched" by blast+
qed

lemma writeFile_fails:
  assumes inv: "kernel_inv k" and p: "path_of proc target = ds @ [name]"
    and lk: "tree_lookup (tree (kfs k)) (EUID proc) (ds @ [name]) 2 = Err e"
    and no: "if e = ENOENT then parent_check (tree (kfs k)) (EUID proc) ds = Err e' else e' = e"
  obtains k' where "writeFile now proc target dat k = (Err e', k')" "kernel_inv k'" "cache_only k k'"
proof -
  note s = split_target[OF p]
  let ?dir = "path_dir (normalizePath proc target)"
  obtain k1 where k1: "ResolvePath proc (normalizePath proc target) k = (Err e, k1)" "kernel_inv k1" "cache_only k k1"
    "kfs k1 = kfs k" by (rule resolve_missing[OF inv, of proc target e]) (use lk p in simp)
  show ?thesis
  proof (cases "e = ENOENT")
    case False
    then show ?thesis using that[OF _ k1(2,3)] k1(1) no by (simp add: writeFile_def writable_inum_def)
  next
    case True
    then have pc: "parent_check (tree (kfs k)) (EUID proc) ds = Err e'" using no by simp
    show ?thesis
    proof (cases "tree_lookup (tree (kfs k)) (EUID proc) ds 2")
      case (Err d)
      then have "d = e" using lk by (simp add: tree_lookup_append)
      then have "e' = e" using pc Err by (simp add: parent_check_def)
      have "lookup_path (kfs k1) (EUID proc) (path_of proc ?dir) 2 = Err d"
        using Err s(1) lookup_root_tree[OF inv] k1(4) by simp
      then obtain k2 where k2: "ResolvePath proc ?dir k1 = (Err d, k2)" "kernel_inv k2" "cache_only k1 k2"
        using ResolvePath_lookup[OF k1(2), of proc ?dir] by metis
      then show ?thesis
        using that[OF _ k2(2) cache_only_trans[OF k1(3) k2(3)]] k1(1) \<open>d = e\<close> \<open>e' = e\<close> True
        by (simp add: writeFile_def writable_inum_def)
    next
      case (Ok q)
      then obtain m xs where q: "tree (kfs k) q = Some (Dir_node m xs)"
        using lk True by (auto simp: tree_lookup_append split: option.splits node.splits)
      then have w: "\<not> may 2 (EUID proc) m" "e' = EACCES" using pc Ok by (simp_all add: parent_check_def split: if_splits)
      have l: "lookup_path (kfs k1) (EUID proc) (path_of proc ?dir) 2 = Ok q"
        using Ok s(1) lookup_root_tree[OF inv] k1(4) by simp
      obtain ka ino k2 where g: "ResolvePath proc ?dir k1 = (Ok q, ka)" "getInode q ka = (Ok ino, k2)"
        "kernel_inv k2" "cache_only k1 k2" "inodeCache k2 q = Some ino" "cached_ok (kfs k1) q ino" "live (kfs k1) q \<noteq> None"
        by (rule resolve_load[OF k1(2) l])
      have "\<not> may 2 (EUID proc) (meta_of (disk_inode (kfs k1) (unat q)))" using q w(1) k1(4) by (simp add: tree_dir)
      then show ?thesis
        using that[OF _ g(3) cache_only_trans[OF k1(3) g(4)]] k1(1) g(1,2) can_cached(2)[OF g(6)] w(2) True
        by (simp add: writeFile_def writable_inum_def can_may)
    qed (use tree_lookup_no_panic in blast)
  qed
qed

text \<open>Writing a path that leads somewhere: the file takes the bytes, a directory or a file that may not be written refuses.\<close>

lemma write_refines_there:
  assumes "kernel_inv k" "proper (tree (kfs k))" "path_of proc target = cs" "room_for k cs (Write bs)"
    and "tree_lookup (tree (kfs k)) (EUID proc) cs 2 = Ok i"
  shows "\<exists>r k'. writeFile now proc target bs k = (r, k') \<and>
      call_refines r k k' (map_call (EUID proc) cs (Write bs) (file_map (tree (kfs k))))"
proof -
  let ?t = "tree (kfs k)" and ?u = "EUID proc"
  have ok: "comps_ok cs" using path_of(2)[of proc target] assms(3) by simp
  have len: "length bs \<le> max_blocks * BLOCKSIZE" using assms(4) by (simp add: room_for_def)
  obtain n where n: "?t i = Some n" using lookup_node[OF assms(2) assms(5)] by blast
  have pw: "pwalk ?t cs 2 = Some i" by (rule lookup_pwalk[OF assms(5)])
  have lk: "tree_lookup ?t ?u (path_of proc target) 2 = Ok i" using assms(3,5) by simp
  have m: "map_walk (file_map ?t) ?u [] cs = Ok (view_node n)" using walk_outcome[OF assms(2) ok, of ?u] assms(5) n by simp
  show ?thesis
  proof (cases "\<exists>m old. n = File_node m old \<and> may 2 ?u m")
    case True
    then obtain m' old where f: "n = File_node m' old" "may 2 ?u m'" by blast
    have "file_map ?t cs = Some (File_at m' old)" using pw n f(1) ok by (simp add: file_map_def)
    then have sp: "needed_blocks (nblocks (length old)) (nblocks (length bs)) \<le> card (free_bits (dbitmap (kfs k)))"
      using assms(4) by (simp add: room_for_def free_blocks_def)
    obtain k' where k': "writeFile now proc target bs k = (Ok (), k')" "kernel_inv k'" "fs_only k k'"
      "tree (kfs k') = ?t(i \<mapsto> File_node m' bs)"
      by (rule writeFile_spec[OF assms(1) lk _ f(2) len sp]) (use n f(1) in simp)
    note c = change_node[OF assms(2) pw ok n, of "File_node m' bs"]
    have "map_call ?u cs (Write bs) (file_map ?t) = (Ok (), file_map (tree (kfs k')))"
      using m f c(2) k'(4) by (simp add: map_call_def)
    then show ?thesis using k' c(1) f(1) by (auto simp: call_refines_def)
  next
    case False
    have no: "(\<exists>m xs. n = Dir_node m xs) \<or> \<not> may 2 ?u (node_meta n)" using False by (cases n) auto
    obtain k' where k': "writeFile now proc target bs k = (Err (if \<exists>m xs. n = Dir_node m xs then EISDIR else EACCES), k')"
      "kernel_inv k'" "cache_only k k'" by (rule writeFile_refused[OF assms(1) lk n no])
    have "map_call ?u cs (Write bs) (file_map ?t) = (Err (if \<exists>m xs. n = Dir_node m xs then EISDIR else EACCES), file_map ?t)"
      using m no by (cases n) (simp_all add: map_call_def)
    then show ?thesis using k' call_refines_same[OF k'(2,3) assms(2)] by blast
  qed
qed

text \<open>Writing a path that leads nowhere: the file is made, or the caller is told why not.\<close>

lemma write_refines_missing:
  assumes "kernel_inv k" "proper (tree (kfs k))" "cs \<noteq> [] \<Longrightarrow> length (last cs) \<le> 55" "path_of proc target = cs"
    and "enterable (file_map (tree (kfs k))) (EUID proc) cs" "room_for k cs (Write bs)"
    and "length (EUID proc) \<le> 13" "CHR 0x00 \<notin> set (EUID proc)" "tree_lookup (tree (kfs k)) (EUID proc) cs 2 = Err e"
  shows "\<exists>r k'. writeFile now proc target bs k = (r, k') \<and>
      call_refines r k k' (map_call (EUID proc) cs (Write bs) (file_map (tree (kfs k))))"
proof -
  let ?t = "tree (kfs k)" and ?u = "EUID proc"
  have ok: "comps_ok cs" using path_of(2)[of proc target] assms(4) by simp
  have len: "length bs \<le> max_blocks * BLOCKSIZE" using assms(6) by (simp add: room_for_def)
  have "cs \<noteq> []" using assms(9) by auto
  then obtain ds name where cs: "cs = ds @ [name]" by (metis append_butlast_last_id)
  have p: "path_of proc target = ds @ [name]" "length name \<le> 55" "comps_ok (ds @ [name])" "comps_ok ds"
    "enterable (file_map ?t) ?u (ds @ [name])" using assms(3-5) cs ok by simp_all
  have lk: "tree_lookup ?t ?u (ds @ [name]) 2 = Err e" using assms(9) cs by simp
  have "map_walk (file_map ?t) ?u [] cs = Err e" using walk_outcome[OF assms(2) ok, of ?u] assms(9) by simp
  then have m: "map_call ?u cs (Write bs) (file_map ?t) =
    (if e = ENOENT then map_new (file_map ?t) ?u (ds @ [name]) (File_at (user_meta ?u) bs) else (Err e, file_map ?t))"
    unfolding map_call_def by (simp add: cs)
  show ?thesis
  proof (cases "\<exists>e'. if e = ENOENT then parent_check ?t ?u ds = Err e' else e' = e")
    case True
    then obtain e' where e': "if e = ENOENT then parent_check ?t ?u ds = Err e' else e' = e" by blast
    obtain k' where k': "writeFile now proc target bs k = (Err e', k')" "kernel_inv k'" "cache_only k k'"
      by (rule writeFile_fails[OF assms(1) p(1) lk e'])
    have "map_call ?u cs (Write bs) (file_map ?t) = (Err e', file_map ?t)"
      using m e' map_new_fails[OF assms(2) p(4)] by (simp split: if_splits)
    then show ?thesis using k' call_refines_same[OF k'(2,3) assms(2)] by blast
  next
    case False
    then obtain q where q: "e = ENOENT" "parent_check ?t ?u ds = Ok q"
      using parent_check_no_panic[of ?t ?u ds] by (cases "e = ENOENT"; cases "parent_check ?t ?u ds") auto
    have g: "can_grow (needed_blocks 0 (nblocks (length bs))) (kfs k) q"
      by (rule room_grow[OF _ cs q(2)]) (use assms(6) in \<open>simp add: room_for_def\<close>)
    have own: "may 2 ?u (user_meta ?u)" by (simp add: owner_may[OF assms(7,8)])
    obtain i k' where k': "writeFile now proc target bs k = (Ok (), k')" "kernel_inv k'" "fs_only k k'"
      "?t i = None" "tree (kfs k') = tree_add ?t q name i (File_node (user_meta ?u) bs)"
      by (rule writeFile_missing[OF assms(1) p(1) lk[unfolded q(1)] p(2) q(2) g len own, of now]) blast
    have "new_ok i q (File_node (user_meta ?u) bs)" by (simp add: new_ok_def)
    note a = map_new_tree[OF assms(2) p(3) lk p(5) q(2) k'(4) this k'(5)]
    show ?thesis using a k'(1-3) m q(1) by (intro exI[of _ "Ok ()"] exI[of _ k']) (simp add: call_refines_def)
  qed
qed

lemma write_refines:
  assumes "kernel_inv k" "proper (tree (kfs k))" "cs \<noteq> [] \<Longrightarrow> length (last cs) \<le> 55" "path_of proc target = cs"
    and "enterable (file_map (tree (kfs k))) (EUID proc) cs" "room_for k cs (Write bs)"
    and "length (EUID proc) \<le> 13" "CHR 0x00 \<notin> set (EUID proc)"
  shows "\<exists>r k'. writeFile now proc target bs k = (r, k') \<and>
      call_refines r k k' (map_call (EUID proc) cs (Write bs) (file_map (tree (kfs k))))"
proof (cases "tree_lookup (tree (kfs k)) (EUID proc) cs 2")
  case (Ok i)
  then show ?thesis by (rule write_refines_there[OF assms(1,2,4,6)])
next
  case (Err e)
  then show ?thesis using write_refines_missing[OF assms(1,2) _ assms(4-8)] assms(3) by blast
qed (use tree_lookup_no_panic in blast)

lemma card_tree: "kernel_inv k \<Longrightarrow> card (dom (tree (kfs k))) < free_depth"
proof -
  have "unat ` dom (tree (kfs k)) \<subseteq> {..<INODES}" using live_range by (auto simp: tree_def split: if_splits)
  then have "card (unat ` dom (tree (kfs k))) \<le> INODES" using card_mono[of "{..<INODES}"] by fastforce
  then show ?thesis by (simp add: card_image[OF inj_on_subset[OF inj_unat subset_UNIV]] free_depth_def)
qed

lemma remove_refines:
  assumes "kernel_inv k" "proper (tree (kfs k))" "path_of proc target = cs" "room_for k cs Remove"
  shows "\<exists>r k'. removeAll proc target k = (r, k') \<and>
      call_refines r k k' (map_call (EUID proc) cs Remove (file_map (tree (kfs k))))"
proof -
  let ?t = "tree (kfs k)" and ?u = "EUID proc"
  have ok: "comps_ok cs" using path_of(2)[of proc target] assms(3) by simp
  note w = walk_outcome[OF assms(2) ok, of ?u]
  have fails: ?thesis if e: "cs = [] \<and> e = EPERM \<or> cs \<noteq> [] \<and> (tree_lookup ?t ?u cs 2 = Err e \<or>
      (\<exists>i. tree_lookup ?t ?u cs 2 = Ok i) \<and> parent_check ?t ?u (butlast cs) = Err e)"
    and m: "map_call ?u cs Remove (file_map ?t) = (Err e, file_map ?t)" for e
  proof -
    obtain k' where k': "removeAll proc target k = (Err e, k')" "kernel_inv k'" "cache_only k k'"
      using removeAll_fails[OF assms(1,3) e] by blast
    then show ?thesis using m call_refines_same[OF k'(2,3) assms(2)] by blast
  qed
  show ?thesis
  proof (cases "cs = []")
    case True
    then show ?thesis by (intro fails) (auto simp: map_call_def)
  next
    case ne: False
    then obtain ds name where cs: "cs = ds @ [name]" by (metis append_butlast_last_id)
    have ds: "comps_ok ds" using ok cs by simp
    show ?thesis
    proof (cases "tree_lookup ?t ?u cs 2")
      case (Err e)
      then show ?thesis using ne w by (intro fails[of e]) (simp_all add: map_call_def)
    next
      case (Ok i)
      obtain q m xs where q: "tree_lookup ?t ?u ds 2 = Ok q" "?t q = Some (Dir_node m xs)" "slot_names xs name = Some i"
        by (rule lookup_last[OF Ok[unfolded cs]])
      have mp: "bindO (map_walk (file_map ?t) ?u [] cs) (\<lambda>_. map_parent (file_map ?t) ?u (butlast cs)) =
          (if may 2 ?u m then Ok () else Err EACCES)"
        using w Ok map_parent_tree[OF assms(2) ds, of ?u] q cs by (simp add: parent_check_def)
      show ?thesis
      proof (cases "may 2 ?u m")
        case False
        then show ?thesis using ne Ok q cs mp by (intro fails[of EACCES]) (simp_all add: map_call_def parent_check_def)
      next
        case True
        have pw: "pwalk ?t cs 2 = Some i" "pwalk ?t ds 2 = Some q" using lookup_pwalk[OF Ok] lookup_pwalk[OF q(1)] .
        obtain "is" where b: "below free_depth ?t i = Some is"
          using below_total[OF assms(2) pw(1) ok less_imp_le[OF card_tree[OF assms(1)]]] by blast
        note z = child_nonzero[of "kfs k"]
        have okn: "comps_ok (ds @ [name])" using ok cs by simp
        have d: "detachable (tree_remove ?t q name) q is"
          by (rule subtree_detachable(1)[OF assms(2) z pw(2) okn q(2,3) b])
        obtain k' where k': "removeAll proc target k = (Ok (), k')" "kernel_inv k'" "fs_only k k'"
          "tree (kfs k') = tree_remove ?t q name |` (- set is)"
          by (rule removeAll_spec[OF assms(1) assms(3)[unfolded cs] Ok[unfolded cs] q(1,2) True b d])
            (use assms(4) in \<open>simp add: room_for_def\<close>)
        note r = remove_node[OF assms(2) z pw(2) okn q(2,3) b, unfolded tree_cut_def, folded k'(4)]
        have "map_call ?u cs Remove (file_map ?t) = (Ok (), map_cut (file_map ?t) cs)"
          using ne mp True by (simp add: map_call_def)
        then show ?thesis using k'(1-3) r cs by (intro exI[of _ "Ok ()"] exI[of _ k']) (simp add: call_refines_def)
      qed
    qed (use tree_lookup_no_panic in blast)
  qed
qed

lemma modes_refines:
  assumes "kernel_inv k" "proper (tree (kfs k))" "path_of proc target = cs" "room_for k cs (Set_modes om xm)"
  shows "\<exists>r k'. chmod proc target om xm k = (r, k') \<and>
      call_refines r k k' (map_call (EUID proc) cs (Set_modes om xm) (file_map (tree (kfs k))))"
proof -
  let ?t = "tree (kfs k)" and ?u = "EUID proc"
  have ok: "comps_ok cs" using path_of(2)[of proc target] assms(3) by simp
  note w = walk_outcome[OF assms(2) ok, of ?u]
  show ?thesis
  proof (cases "tree_lookup ?t ?u cs 2")
    case (Err e)
    have "lookup_path (kfs k) ?u (path_of proc target) 2 = Err e" using Err assms(3) lookup_root_tree[OF assms(1)] by simp
    then obtain k' where k': "ResolvePath proc target k = (Err e, k')" "kernel_inv k'" "cache_only k k'"
      using ResolvePath_lookup[OF assms(1), of proc target] by metis
    have "map_call ?u cs (Set_modes om xm) (file_map ?t) = (Err (ErrorText ''no such file or directory''), file_map ?t)"
      using w Err by (simp add: map_call_def)
    then show ?thesis using k' call_refines_same[OF k'(2,3) assms(2)] by (simp add: chmod_def)
  next
    case (Ok i)
    obtain n where n: "?t i = Some n" using lookup_node[OF assms(2) Ok] by blast
    have c: "coherent k i" using assms(4) by (simp add: room_for_def)
    have lk: "tree_lookup ?t ?u (path_of proc target) 2 = Ok i" using Ok assms(3) by simp
    let ?may = "?u = ''root'' \<or> ownerString (m_owner (node_meta n)) = ?u"
    obtain k' where k': "chmod proc target om xm k = (if ?may then Ok () else Err (ErrorText ''permission denied''), k')"
      "kernel_inv k'" "fs_only k k'" "tree (kfs k') = (if ?may then ?t(i \<mapsto> set_modes om xm n) else ?t)"
      by (rule chmod_spec[OF assms(1) lk n c])
    have v: "entry_meta (view_node n) = node_meta n" "view_node (set_modes om xm n) = entry_modes om xm (view_node n)"
      "node_slots (set_modes om xm n) = node_slots n" by (cases n; simp add: set_modes_def)+
    note ch = change_node[OF assms(2) lookup_pwalk[OF Ok] ok n v(3)]
    have "map_call ?u cs (Set_modes om xm) (file_map ?t) =
      (if ?may then (Ok (), (file_map ?t)(cs \<mapsto> entry_modes om xm (view_node n))) else (Err (ErrorText ''permission denied''), file_map ?t))"
      using w Ok n v(1) by (simp add: map_call_def)
    then show ?thesis using k' ch v(2) assms(2) by (auto simp: call_refines_def)
  qed (use tree_lookup_no_panic in blast)
qed

text \<open>
  C12. Each call that changes the file system is its operation on the map of paths, outcome and all: with room for what it
  makes, a name of at most 55 bytes, a user whose name an inode can keep, and a directory that may be entered if it may be
  written, the kernel answers what the map answers and its new tree is the new map.
\<close>

theorem calls_refine_map:
  assumes "kernel_inv k" "proper (tree (kfs k))" "path_of proc target = cs" "f = file_map (tree (kfs k))"
    and "cs \<noteq> [] \<Longrightarrow> length (last cs) \<le> 55" "enterable f (EUID proc) cs" "room_for k cs op"
    and "length (EUID proc) \<le> 13" "CHR 0x00 \<notin> set (EUID proc)"
  shows "\<exists>k'. kernel_call now proc target op k = (fst (map_call (EUID proc) cs op f), k') \<and>
    file_map (tree (kfs k')) = snd (map_call (EUID proc) cs op f) \<and> kernel_inv k' \<and> fs_only k k' \<and> proper (tree (kfs k'))"
proof -
  have "\<exists>r k'. kernel_call now proc target op k = (r, k') \<and> call_refines r k k' (map_call (EUID proc) cs op f)"
  proof (cases op)
    case Make_dir
    then show ?thesis using make_refines(1)[OF assms(1,2,5,3)] assms(4,6,7) by simp
  next
    case Touch
    then show ?thesis using make_refines(2)[OF assms(1,2,5,3)] assms(4,6,7) by simp
  next
    case Remove
    then show ?thesis using remove_refines[OF assms(1-3)] assms(4,7) by simp
  next
    case (Write bs)
    then show ?thesis using write_refines[OF assms(1,2,5,3) _ _ assms(8,9)] assms(4,6,7) by simp
  next
    case (Set_modes om xm)
    then show ?thesis using modes_refines[OF assms(1-3)] assms(4,7) by simp
  qed
  then show ?thesis by (auto simp: call_refines_def)
qed

lemma demo_meta: "meta_of demo_ino = user_meta ''root''"
  by (simp add: demo_ino_def root_inode_def meta_of_def user_meta_def disk_part_def zero_inode_def
    ownerBytes_def go_copy_def)

lemma demo_proper: "proper (tree demo_fs)" "file_map (tree demo_fs) = [[] \<mapsto> Dir_at (user_meta ''root'')]"
proof -
  note m = demo_meta
  have ch: "child (tree demo_fs) d c = None" for d c
    using demo_dirs[of d] demo_tree(2) by (auto simp: child_def slot_names_def lookup_def split: option.split node.split)
  show p: "proper (tree demo_fs)"
    using demo_dirs demo_tree(2) unfolding proper_def dir_proper_def dots_proper_def ch
    by (fastforce simp: uniq_names_def)
  have "pwalk (tree demo_fs) cs 2 = (if cs = [] then Some 2 else None)" for cs
    by (cases cs rule: rev_cases) (simp_all add: pwalk_snoc ch)
  then show "file_map (tree demo_fs) = [[] \<mapsto> Dir_at (user_meta ''root'')]"
    by (auto simp: file_map_def demo_tree(2) m fun_eq_iff)
qed

theorem calls_refine_map_witness:
  "\<exists>k'. kernel_call (0, 0) root_proc path_a Make_dir demo_kernel = (Ok (), k') \<and> kernel_inv k' \<and>
     file_map (tree (kfs k')) = [[] \<mapsto> Dir_at (user_meta ''root''), [''a''] \<mapsto> Dir_at (user_meta ''root'')]"
proof -
  have e: "kfs demo_kernel = demo_fs" by (simp add: demo_kernel_def new_kernel_def)
  let ?f = "[[] \<mapsto> Dir_at (user_meta ''root'')]"
  have f: "?f = file_map (tree (kfs demo_kernel))" by (simp add: e demo_proper(2))
  have p: "proper (tree (kfs demo_kernel))" by (simp add: e demo_proper(1))
  have r: "enterable ?f (EUID root_proc) [''a'']" by (simp add: enterable_def may_def)
  have room: "room_for demo_kernel [''a''] Make_dir"
    by (simp add: room_for_def e demo_tree(9) demo_tree(3))
  have n: "CHR 0x00 \<notin> set (EUID root_proc)" by simp
  have c: "map_call (EUID root_proc) [''a''] Make_dir ?f = (Ok (), ?f([''a''] \<mapsto> Dir_at (user_meta ''root'')))"
    by (simp add: map_call_def map_new_def map_parent_def may_def)
  show ?thesis using calls_refine_map[OF demo_tree(1) p path_a(2) f _ r room _ n, of "(0, 0)"] c by auto
qed

section \<open>A directory that may be written and not entered\<close>

lemma first_free: "Some e \<in> set (add_slot e xs)" "Some a \<in> set xs \<Longrightarrow> Some a \<in> set (add_slot e xs)"
proof -
  obtain ys k where a: "add_slot e xs = ys[k := Some e]" "k < length ys" "ys ! k = None"
    "\<And>a. Some a \<in> set ys \<longleftrightarrow> Some a \<in> set xs" by (rule add_slot_update[of e xs]) (rule that; assumption)
  show "Some e \<in> set (add_slot e xs)" unfolding a(1) using a(2) by (rule set_update_memI)
  assume "Some a \<in> set xs"
  then have "Some a \<in> set ys" using a(4) by blast
  then obtain n where n: "n < length ys" "ys ! n = Some a" by (auto simp: in_set_conv_nth)
  then have "n \<noteq> k" using a(3) by auto
  then have "ys[k := Some e] ! n = Some a" using n(2) by simp
  then show "Some a \<in> set (add_slot e xs)" unfolding a(1) using n(1) by (metis length_list_update nth_mem)
qed

text \<open>
  C37. \<open>createFile\<close> takes any error of the path for a missing file. In a directory its user may write and not enter, every
  call for an existing name makes one more entry of that name.
\<close>

theorem touch_duplicates_name:
  assumes "kernel_inv k" "path_of proc target = cs @ [name]" "length name \<le> 55"
    and "parent_check (tree (kfs k)) (EUID proc) cs = Ok p" "tree (kfs k) p = Some (Dir_node m xs)" "\<not> may 1 (EUID proc) m"
    and "Some \<lparr>Inum = i, Name = name\<rparr> \<in> set xs" "can_grow 0 (kfs k) p"
  shows "\<exists>k' j ys. createFile now proc target k = (Ok (), k') \<and> tree (kfs k') p = Some (Dir_node m ys) \<and> i \<noteq> j \<and>
    {Some \<lparr>Inum = i, Name = name\<rparr>, Some \<lparr>Inum = j, Name = name\<rparr>} \<subseteq> set ys"
proof -
  have p: "tree_lookup (tree (kfs k)) (EUID proc) cs 2 = Ok p" using parent_check_Ok[OF assms(4)] by blast
  have lk: "tree_lookup (tree (kfs k)) (EUID proc) (cs @ [name]) 2 = Err EACCES"
    using p assms(5,6) by (simp add: tree_lookup_append)
  have dir: "is_dir (kfs k) p" "live (kfs k) p \<noteq> None" "xs = dir_slots (kfs k) p" using assms(5) by (simp_all add: tree_dir)
  have old: "tree (kfs k) i \<noteq> None"
    using kernel_inv_dir(2)[OF assms(1) dir(2,1) assms(7)[unfolded dir(3)]] by (simp add: tree_def)
  obtain k' j where k': "createFile now proc target k = (Ok (), k')" "tree (kfs k) j = None"
    "tree (kfs k') = tree_add (tree (kfs k)) p name j (made_node S_IFREG (user_meta (EUID proc)) j p)"
    by (rule createFile_missing[OF assms(1,2) lk assms(3), of now]) (use assms(4,8) in auto)
  have "tree (kfs k') p = Some (Dir_node m (add_slot \<lparr>Inum = j, Name = name\<rparr> xs))"
    using k'(3) assms(5) by (simp add: tree_add_def)
  moreover have "i \<noteq> j" using old k'(2) by auto
  ultimately show ?thesis using k'(1) first_free(1)[of "\<lparr>Inum = j, Name = name\<rparr>" xs] first_free(2)[of "\<lparr>Inum = i, Name = name\<rparr>" xs] assms(7) by blast
qed

text \<open>The disk after root made \<open>/a\<close> and changed the modes of the root directory.\<close>

lemma chmod_root:
  assumes "kernel_inv k" "tree (kfs k) 2 = Some n"
  obtains k' where "kernel_inv k'" "tree (kfs k') = (tree (kfs k))(2 \<mapsto> set_modes om xm n)"
proof -
  let ?k = "k\<lparr>inodeCache := Map.empty\<rparr>"
  have inv: "kernel_inv ?k" using assms(1) by (simp add: kernel_inv_def cache_ok_def)
  have c: "coherent ?k 2" by (simp add: coherent_def)
  have l: "tree_lookup (tree (kfs ?k)) (EUID root_proc) (path_of root_proc ''/'') 2 = Ok 2"
    using path_of_abs_path[of "[]"] by (simp add: abs_path_def)
  have n: "tree (kfs ?k) 2 = Some n" using assms(2) by simp
  show ?thesis by (rule chmod_spec[OF inv l n c, of om xm]) (use that in auto)
qed

theorem touch_duplicates_name_witness:
  "\<exists>k k' j ys m. kernel_inv k \<and> createFile (0, 0) (root_proc\<lparr>EUID := ''eve''\<rparr>) path_a k = (Ok (), k') \<and>
     tree (kfs k') 2 = Some (Dir_node m ys) \<and> (3 :: u32) \<noteq> j \<and>
     {Some \<lparr>Inum = 3, Name = ''a''\<rparr>, Some \<lparr>Inum = j, Name = ''a''\<rparr>} \<subseteq> set ys"
proof -
  let ?eve = "root_proc\<lparr>EUID := ''eve''\<rparr>"
  let ?xs = "Some \<lparr>Inum = 3, Name = ''a''\<rparr> # replicate 63 None"
  obtain k0 where k0: "kernel_inv k0" "tree (kfs k0) = tree_add (tree demo_fs) 2 ''a'' 3 (File_node (user_meta ''root'') [1, 2, 3])"
    by (rule demo_file)
  obtain k where k: "kernel_inv k" "tree (kfs k) = (tree (kfs k0))(2 \<mapsto> set_modes 7 2 (Dir_node (meta_of demo_ino) ?xs))"
    by (rule chmod_root[OF k0(1) demo_file_facts(2)[OF k0(2)]])
  let ?m = "(meta_of demo_ino)\<lparr>m_ownerMode := 7, m_otherMode := 2\<rparr>"
  have t: "tree (kfs k) 2 = Some (Dir_node ?m ?xs)" using k(2) by (simp add: set_modes_def)
  have o: "ownerString (m_owner (meta_of demo_ino)) = ''root''"
    using ownerString_ownerBytes[of "''root''"] by (simp add: demo_meta user_meta_def)
  have may: "may 2 ''eve'' ?m" "\<not> may 1 ''eve'' ?m" using o by (simp_all add: may_def)
  have pc: "parent_check (tree (kfs k)) (EUID ?eve) [] = Ok 2" using t may by (simp add: parent_check_def)
  have dom: "dom (tree (kfs k)) \<subseteq> {i. unat i < 4}"
    using k(2) demo_file_facts(4)[OF k0(2)] demo_tree(8) by (auto simp: tree_def split: if_splits)
  have "10 \<in> free_bits (ibitmap (kfs k))"
    unfolding space_accounted[OF k(1), THEN conjunct2] using dom by (auto simp: layout)
  then have g: "can_grow 0 (kfs k) 2" using t by (auto simp: can_grow_def slot_room_def slot_cost_def full_dir_def)
  have mem: "Some \<lparr>Inum = 3, Name = ''a''\<rparr> \<in> set ?xs" "length ''a'' \<le> 55" by simp_all
  have nx: "\<not> may 1 (EUID ?eve) ?m" using may(2) by simp
  from touch_duplicates_name[OF k(1) path_a(1) mem(2) pc t nx mem(1) g, of "(0, 0)"] k(1) show ?thesis by blast
qed

section \<open>Space\<close>

lemma adding_lookup:
  assumes "adding t cs p m xs name i n" "tree_lookup t u ds j = Ok l"
  shows "tree_lookup (tree_add t p name i n) u ds j = Ok l"
  using assms(2)
proof (induction ds arbitrary: j)
  case (Cons d ds)
  obtain m' ys j' where s: "t j = Some (Dir_node m' ys)" "may 1 u m'" "slot_names ys d = Some j'" "tree_lookup t u ds j' = Ok l"
    using Cons.prems by (auto split: option.splits node.splits if_splits)
  have h: "t p = Some (Dir_node m xs)" "slot_names xs name = None" "t i = None" using assms(1) by (simp_all add: adding_def)
  have "j \<noteq> i" using s(1) h(3) by auto
  moreover have "\<not> (j = p \<and> d = name)" using s(1,3) h by auto
  ultimately have c: "child (tree_add t p name i n) j d = Some j'"
    using adding_child(1)[OF assms(1), of j d] s(1,3) by (auto simp: child_def)
  have "\<exists>zs. tree_add t p name i n j = Some (Dir_node m' zs)"
    using s(1) h(1) \<open>j \<noteq> i\<close> by (auto simp: adding_tree(1)[OF assms(1)])
  then show ?case using c s(2) Cons.IH[OF s(4)] by (auto simp: child_def)
qed simp

text \<open>A new file and what is left when it is gone again: the tree, and the blocks of a directory that had to grow.\<close>

lemma remove_new_file:
  assumes inv: "kernel_inv k1" and a: "adding t cs p m xs name i (File_node fm dat)" and p: "path_of proc target = cs @ [name]"
    and t1: "tree (kfs k1) = tree_add t p name i (File_node fm dat)"
    and l: "tree_lookup t (EUID proc) cs 2 = Ok p" "may 1 (EUID proc) m" "may 2 (EUID proc) m"
  obtains k2 zs where "removeAll proc target k1 = (Ok (), k2)" "kernel_inv k2" "fs_only k1 k2"
    "tree (kfs k2) = t(p \<mapsto> Dir_node m zs)" "node_blocks (Dir_node m zs) = node_blocks (Dir_node m (add_slot \<lparr>Inum = i, Name = name\<rparr> xs))"
    "file_map (tree (kfs k2)) = file_map t"
proof -
  let ?f = "File_node fm dat" and ?ys = "add_slot \<lparr>Inum = i, Name = name\<rparr> xs"
  have h: "proper t" "pwalk t cs 2 = Some p" "comps_ok (cs @ [name])" "t p = Some (Dir_node m xs)" "slot_names xs name = None"
    "t i = None" "new_ok i p ?f" using a by (simp_all add: adding_def)
  note t = adding_tree(1)[OF a, folded t1] and ip = adding_tree(2,3)[OF a]
  note add = add_node[OF h, folded t1]
  have tp: "tree (kfs k1) p = Some (Dir_node m ?ys)" and ti: "tree (kfs k1) i = Some ?f" using ip by (simp_all add: t)
  have nm: "slot_names ?ys name = Some i"
    using adding_child(1)[OF a, of p name, folded t1] ip tp by (simp add: child_def)
  have lp: "tree_lookup (tree (kfs k1)) (EUID proc) cs 2 = Ok p" unfolding t1 by (rule adding_lookup[OF a l(1)])
  have li: "tree_lookup (tree (kfs k1)) (EUID proc) (cs @ [name]) 2 = Ok i"
    using lp tp nm l(2) by (simp add: tree_lookup_append)
  have b: "below free_depth (tree (kfs k1)) i = Some [i]" by (simp add: free_depth_def ti)
  have w: "pwalk (tree (kfs k1)) cs 2 = Some p" by (rule lookup_pwalk[OF lp])
  note d = subtree_detachable(1)[OF add(1) child_nonzero w h(3) tp nm b]
  have co: "\<forall>j \<in> set [i]. coherent k1 j"
    using inv ti by (auto simp: kernel_inv_def cache_ok_def coherent_def tree_file cached_ok_def)
  obtain k2 where k2: "removeAll proc target k1 = (Ok (), k2)" "kernel_inv k2" "fs_only k1 k2"
    "tree (kfs k2) = tree_remove (tree (kfs k1)) p name |` (- set [i])"
    by (rule removeAll_spec[OF inv p li lp tp l(3) b d co])
  obtain zs where zs: "remove_slot name ?ys = Some zs" using slot_names_remove[OF nm] by blast
  have t2: "tree (kfs k2) = t(p \<mapsto> Dir_node m zs)"
    using h(6) ip by (auto simp: k2(4) tree_remove_def tp zs t restrict_map_def fun_eq_iff)
  have m2: "file_map (tree (kfs k2)) = map_cut (file_map (tree (kfs k1))) (cs @ [name])"
    using remove_node(2)[OF add(1) child_nonzero w h(3) tp nm b, unfolded tree_cut_def, folded k2(4)] .
  have none: "file_map t qs = None" if q: "prefix (cs @ [name]) qs" for qs
  proof -
    obtain es where qs: "qs = (cs @ [name]) @ es" using q by (auto simp: prefix_def)
    have "pwalk t (cs @ [name]) 2 = None" using h(2,4,5) by (simp add: pwalk_snoc child_def)
    then show ?thesis unfolding qs file_map_def by (simp add: pwalk_append del: append_assoc)
  qed
  have "file_map (tree (kfs k2)) = file_map t" unfolding m2 add(2) map_cut_def
    using none by (auto simp: fun_eq_iff)
  then show ?thesis using that[OF k2(1-3) t2] node_blocks_remove[OF zs] by blast
qed

text \<open>
  C36. No space is lost: \<open>writeFile\<close> of a new path takes one inode number that was free and, of the data blocks, those its
  bytes need (tables included) and one step of growth where the directory has no free slot, no more; and \<open>removeAll\<close> of
  the path gives back the inode number and every block of the file. What stays taken is only what the directory grew by,
  and all paths are as before.
\<close>

theorem file_gives_space_back:
  assumes "kernel_inv k" "proper (tree (kfs k))" "path_of proc target = cs @ [name]" "length name \<le> 55"
    and "enterable (file_map (tree (kfs k))) (EUID proc) (cs @ [name])"
    and "tree_lookup (tree (kfs k)) (EUID proc) (cs @ [name]) 2 = Err ENOENT"
    and "parent_check (tree (kfs k)) (EUID proc) cs = Ok p" "tree (kfs k) p = Some (Dir_node m xs)"
    and "can_grow (needed_blocks 0 (nblocks (length dat))) (kfs k) p" "length dat \<le> max_blocks * BLOCKSIZE"
    and "length (EUID proc) \<le> 13" "CHR 0x00 \<notin> set (EUID proc)"
  shows "\<exists>i k1 k2. writeFile now proc target dat k = (Ok (), k1) \<and> removeAll proc target k1 = (Ok (), k2) \<and>
    i \<in> free_bits (ibitmap (kfs k)) \<and> free_bits (ibitmap (kfs k1)) = free_bits (ibitmap (kfs k)) - {i} \<and>
    free_blocks (kfs k1) + needed_blocks 0 (nblocks (length dat)) + slot_cost xs = free_blocks (kfs k) \<and>
    free_bits (ibitmap (kfs k2)) = free_bits (ibitmap (kfs k)) \<and>
    free_blocks (kfs k2) + slot_cost xs = free_blocks (kfs k) \<and> file_map (tree (kfs k2)) = file_map (tree (kfs k))"
proof -
  let ?t = "tree (kfs k)" and ?f = "File_node (user_meta (EUID proc)) dat"
  have ok: "comps_ok (cs @ [name])" "comps_ok cs" using path_of(2)[of proc target] assms(3) by simp_all
  have own: "may 2 (EUID proc) (user_meta (EUID proc))" by (simp add: owner_may[OF assms(11,12)])
  obtain i k1 where k1: "writeFile now proc target dat k = (Ok (), k1)" "kernel_inv k1" "fs_only k k1"
    "?t i = None" "tree (kfs k1) = tree_add ?t p name i ?f"
    by (rule writeFile_missing[OF assms(1,3,6,4,7,9,10) own, of now]) blast
  note f = free_name[OF assms(2) ok(2) assms(6,7,5)]
  have a: "adding ?t cs p m xs name i ?f" using f(2,3) assms(2,8) ok(1) k1(4) by (auto simp: adding_def new_ok_def)
  have pc: "tree_lookup ?t (EUID proc) cs 2 = Ok p" "may 2 (EUID proc) m" using parent_check_Ok[OF assms(7)] assms(8) by auto
  have "file_map ?t cs = Some (Dir_at m)" using f(3) assms(8) ok(2) by (simp add: file_map_def)
  then have x: "may 1 (EUID proc) m" using assms(5) pc(2) by (simp add: enterable_def)
  obtain k2 zs where k2: "removeAll proc target k1 = (Ok (), k2)" "kernel_inv k2" "tree (kfs k2) = ?t(p \<mapsto> Dir_node m zs)"
    "node_blocks (Dir_node m zs) = node_blocks (Dir_node m (add_slot \<lparr>Inum = i, Name = name\<rparr> xs))"
    "file_map (tree (kfs k2)) = file_map ?t"
    by (rule remove_new_file[OF k1(2) a assms(3) k1(5) pc(1) x pc(2)])
  note t1 = k1(5)[unfolded adding_tree(1)[OF a]] and ip = adding_tree(2)[OF a]
  have b1: "tree_blocks (tree (kfs k1)) = tree_blocks ?t + node_blocks ?f + slot_cost xs"
    using tree_blocks_new[of ?t i ?f, OF k1(4)] assms(8) ip
      tree_blocks_change[of "?t(i \<mapsto> ?f)" p "Dir_node m xs" "Dir_node m (add_slot \<lparr>Inum = i, Name = name\<rparr> xs)"]
    by (simp add: t1 node_blocks_add)
  have b2: "tree_blocks (tree (kfs k2)) = tree_blocks ?t + slot_cost xs"
    using tree_blocks_change[of ?t p "Dir_node m xs" "Dir_node m zs", OF assms(8)] by (simp add: k2(3,4) node_blocks_add)
  have bf: "node_blocks ?f = needed_blocks 0 (nblocks (length dat))" by (simp add: node_blocks_def)
  have d: "dom (tree (kfs k1)) = insert i (dom ?t)" "dom (tree (kfs k2)) = dom ?t" using assms(8) by (auto simp: t1 k2(3))
  note s = tree_space[OF assms(1)] and s1 = tree_space[OF k1(2)] and s2 = tree_space[OF k2(2)]
  have "unat i < INODES"
  proof -
    have "live (kfs k1) i \<noteq> None" using ip by (intro tree_live[of _ i ?f]) (simp add: t1)
    then show ?thesis by (rule live_range)
  qed
  moreover have "i \<notin> dom ?t" using k1(4) by (simp add: domIff)
  then have "unat i \<notin> unat ` dom ?t" by (simp add: inj_image_mem_iff[OF inj_unat[of UNIV]])
  ultimately have "unat i \<in> free_bits (ibitmap (kfs k))" unfolding s(2) by simp
  moreover have "free_bits (ibitmap (kfs k1)) = free_bits (ibitmap (kfs k)) - {unat i}" unfolding s(2) s1(2) d by auto
  moreover have "free_bits (ibitmap (kfs k2)) = free_bits (ibitmap (kfs k))" unfolding s(2) s2(2) d ..
  ultimately show ?thesis using k1(1) k2(1,5) s(1) s1(1) s2(1) b1 b2 bf
    by (intro exI[of _ "unat i"] exI[of _ k1] exI[of _ k2]) simp
qed

theorem file_gives_space_back_witness:
  "\<exists>i k1 k2. writeFile (0, 0) root_proc path_a [7] demo_kernel = (Ok (), k1) \<and> removeAll root_proc path_a k1 = (Ok (), k2) \<and>
     i \<in> free_bits (ibitmap demo_fs) \<and> free_bits (ibitmap (kfs k1)) = free_bits (ibitmap demo_fs) - {i} \<and>
     free_blocks (kfs k1) + 2 = free_blocks demo_fs \<and> free_bits (ibitmap (kfs k2)) = free_bits (ibitmap demo_fs) \<and>
     free_blocks (kfs k2) + 1 = free_blocks demo_fs"
proof -
  have e: "kfs demo_kernel = demo_fs" by (simp add: demo_kernel_def new_kernel_def)
  have n: "nblocks (length [7 :: u8]) = 1" by (simp add: nblocks_def layout)
  have sc: "slot_cost [] = 1"
    by (simp add: slot_cost_def full_dir_def nblocks_def layout needed_blocks_def new_places_def table_steps_def)
  have h: "proper (tree (kfs demo_kernel))" "enterable (file_map (tree (kfs demo_kernel))) (EUID root_proc) ([] @ [''a''])"
    "tree_lookup (tree (kfs demo_kernel)) (EUID root_proc) ([] @ [''a'']) 2 = Err ENOENT"
    "parent_check (tree (kfs demo_kernel)) (EUID root_proc) [] = Ok 2" "tree (kfs demo_kernel) 2 = Some (Dir_node (meta_of demo_ino) [])"
    "can_grow (needed_blocks 0 (nblocks (length [7 :: u8]))) (kfs demo_kernel) 2" "length ''a'' \<le> 55"
    "length [7 :: u8] \<le> max_blocks * BLOCKSIZE" "length (EUID root_proc) \<le> 13" "CHR 0x00 \<notin> set (EUID root_proc)"
    unfolding e root_proc_root demo_missing demo_tree(2,3) n
    by (simp_all add: demo_proper(1) needed_small layout enterable_def may_def)
  from file_gives_space_back[OF demo_tree(1) h(1) path_a(1) h(7,2,3,4,5,6,8,9,10), of "(0, 0)"]
  obtain i k1 k2 where k: "writeFile (0, 0) root_proc path_a [7] demo_kernel = (Ok (), k1)" "removeAll root_proc path_a k1 = (Ok (), k2)"
    "i \<in> free_bits (ibitmap demo_fs)" "free_bits (ibitmap (kfs k1)) = free_bits (ibitmap demo_fs) - {i}"
    "free_blocks (kfs k1) + needed_blocks 0 1 + 1 = free_blocks demo_fs" "free_bits (ibitmap (kfs k2)) = free_bits (ibitmap demo_fs)"
    "free_blocks (kfs k2) + 1 = free_blocks demo_fs" unfolding e n sc by blast
  then show ?thesis by (intro exI[of _ i] exI[of _ k1] exI[of _ k2]) (simp add: needed_small)
qed

end
