(* ===== verification/CmdsProps.thy ===== *)
theory CmdsProps
  imports Cmds ProgSpec MapProps
begin

text \<open>
  The commands on the map from paths to files: \<open>mkdir\<close>, \<open>touch\<close> and \<open>rm\<close> are one call each, and \<open>chmod\<close> does to the rights of a file what
  its mode says, as sets of letters.
\<close>

section \<open>Rights\<close>

definition rights :: "u8 \<Rightarrow> char set" where
  "rights m = (if m AND 4 \<noteq> 0 then {CHR ''r''} else {}) \<union> (if m AND 2 \<noteq> 0 then {CHR ''w''} else {}) \<union>
     (if m AND 1 \<noteq> 0 then {CHR ''x''} else {})"

definition new_rights :: "char \<Rightarrow> char set \<Rightarrow> char set \<Rightarrow> char set" where
  "new_rights op perms old = (if op = CHR ''+'' then old \<union> perms else if op = CHR ''-'' then old - perms else perms)"

lemma bit_and: "m AND 4 \<noteq> 0 \<longleftrightarrow> bit m 2" "m AND 2 \<noteq> 0 \<longleftrightarrow> bit m 1" "m AND 1 \<noteq> 0 \<longleftrightarrow> bit m 0" for m :: u8
  using and_exp_eq_0_iff_not_bit[of m 2] and_exp_eq_0_iff_not_bit[of m 1] and_exp_eq_0_iff_not_bit[of m 0] by simp_all

lemma rights_member:
  "c \<in> rights m \<longleftrightarrow> c = CHR ''r'' \<and> bit m 2 \<or> c = CHR ''w'' \<and> bit m 1 \<or> c = CHR ''x'' \<and> bit m 0"
  unfolding rights_def bit_and by auto

lemma rights_simps:
  "rights (a OR b) = rights a \<union> rights b" "rights (a AND NOT b) = rights a - rights b" "rights 0 = {}"
  by (auto simp: rights_member bit_simps)

lemma rights_apply: "op \<in> {CHR ''+'', CHR ''-'', CHR ''=''} \<Longrightarrow> rights (apply_mode op bits m) = new_rights op (rights bits) (rights m)"
  by (auto simp: apply_mode_def new_rights_def rights_simps)

lemma rights_const: "rights 4 = {CHR ''r''}" "rights 2 = {CHR ''w''}" "rights 1 = {CHR ''x''}"
  by (simp_all add: rights_def)

lemma perm_bits_rights:
  "set perms \<subseteq> {CHR ''r'', CHR ''w'', CHR ''x''} \<Longrightarrow>
   \<exists>b. perm_bits (map of_char perms) bits = Ok b \<and> rights b = rights bits \<union> set perms"
proof (induction perms arbitrary: bits)
  case (Cons c perms)
  then consider "c = CHR ''r''" | "c = CHR ''w''" | "c = CHR ''x''" by auto
  then show ?case
  proof cases
    case 1
    then show ?thesis using Cons.IH[of "bits OR 4"] Cons.prems by (auto simp: rights_simps rights_const)
  next
    case 2
    then show ?thesis using Cons.IH[of "bits OR 2"] Cons.prems by (auto simp: rights_simps rights_const)
  next
    case 3
    then show ?thesis using Cons.IH[of "bits OR 1"] Cons.prems by (auto simp: rights_simps rights_const)
  qed
qed simp

section \<open>The mode of chmod\<close>

definition mode_ok :: "string \<Rightarrow> char \<Rightarrow> string \<Rightarrow> bool" where
  "mode_ok who op perms \<longleftrightarrow> (set who \<subseteq> {CHR ''u'', CHR ''o''} \<or> who = ''a'') \<and> op \<in> {CHR ''+'', CHR ''-'', CHR ''=''} \<and>
     set perms \<subseteq> {CHR ''r'', CHR ''w'', CHR ''x''}"

definition meant :: "char \<Rightarrow> string \<Rightarrow> bool" where
  "meant c who \<longleftrightarrow> who = [] \<or> who = ''a'' \<or> c \<in> set who"

lemma split_mode_ok: "mode_ok who op perms \<Longrightarrow> split_mode (who @ op # perms) = Some (who, op, perms)"
proof -
  assume m: "mode_ok who op perms"
  let ?P = "\<lambda>c. c \<notin> {CHR ''+'', CHR ''-'', CHR ''=''}"
  have "\<forall>c \<in> set who. ?P c" "\<not> ?P op" using m by (auto simp: mode_ok_def)
  then have "dropWhile ?P (who @ op # perms) = op # perms" "takeWhile ?P (who @ op # perms) = who" by auto
  then show ?thesis unfolding split_mode_def by simp
qed

lemma check_who_ok: "set ws \<subseteq> {CHR ''u'', CHR ''o''} \<Longrightarrow> check_who (map of_char ws) = Ok ()"
  by (induction ws) auto

lemma who_ok:
  assumes "mode_ok who op perms"
  shows "runes (mode_who who) = map of_char (mode_who who)" "check_who (map of_char (mode_who who)) = Ok ()"
    "of_char c \<in> (set (map of_char (mode_who who)) :: nat set) \<longleftrightarrow> c \<in> set (mode_who who)"
proof -
  have s: "set (mode_who who) \<subseteq> {CHR ''u'', CHR ''o''}" using assms by (auto simp: mode_ok_def mode_who_def)
  show "runes (mode_who who) = map of_char (mode_who who)" by (rule runes_ascii) (use s in \<open>auto simp: ascii_def\<close>)
  show "check_who (map of_char (mode_who who)) = Ok ()" by (rule check_who_ok[OF s])
  show "of_char c \<in> (set (map of_char (mode_who who)) :: nat set) \<longleftrightarrow> c \<in> set (mode_who who)" by auto
qed

text \<open>What \<open>chmod\<close> asks the kernel for: the rights of the owner and of others, where they are meant.\<close>

lemma parse_mode:
  assumes "mode_ok who op perms" "sys (0, 0) proc SYS_STAT [AString target] k = (Ok (RMeta md), k')"
  shows "\<exists>om xm. parseChmodMode (who @ op # perms) proc target k = (Ok (om, xm), k') \<and>
    rights om = (if meant CHR ''u'' who then new_rights op (set perms) (rights (OwnerMode md)) else rights (OwnerMode md)) \<and>
    rights xm = (if meant CHR ''o'' who then new_rights op (set perms) (rights (OtherMode md)) else rights (OtherMode md))"
proof -
  have perms: "set perms \<subseteq> {CHR ''r'', CHR ''w'', CHR ''x''}" and op: "op \<in> {CHR ''+'', CHR ''-'', CHR ''=''}"
    using assms(1) by (simp_all add: mode_ok_def)
  obtain bits where bits: "perm_bits (map of_char perms) 0 = Ok bits" "rights bits = set perms"
    using perm_bits_rights[OF perms, of 0] by (auto simp: rights_simps)
  have rp: "runes perms = map of_char perms" by (rule runes_ascii) (use perms in \<open>auto simp: ascii_def\<close>)
  let ?ws = "set (map of_char (mode_who who)) :: nat set"
  let ?om = "if of_char CHR ''u'' \<in> ?ws then apply_mode op bits (OwnerMode md) else OwnerMode md"
  let ?xm = "if of_char CHR ''o'' \<in> ?ws then apply_mode op bits (OtherMode md) else OtherMode md"
  have w: "(of_char c \<in> ?ws) = meant c who" if "c \<in> {CHR ''u'', CHR ''o''}" for c
    using that unfolding who_ok(3)[OF assms(1)] by (auto simp: mode_who_def meant_def)
  have parsed: "parseChmodMode (who @ op # perms) proc target k = (Ok (?om, ?xm), k')"
    unfolding parseChmodMode_def split_mode_ok[OF assms(1)] option.case prod.case Let_def who_ok(1)[OF assms(1)]
      who_ok(2)[OF assms(1)] rp bits(1) bindS.simps assms(2) on_result.simps res_meta_def sys_result.case by (rule refl)
  have wu: "(of_char CHR ''u'' \<in> ?ws) = meant CHR ''u'' who" and wo: "(of_char CHR ''o'' \<in> ?ws) = meant CHR ''o'' who"
    by (rule w, simp)+
  have "rights ?om = (if meant CHR ''u'' who then new_rights op (set perms) (rights (OwnerMode md)) else rights (OwnerMode md))"
    by (cases "meant CHR ''u'' who") (simp_all only: wu rights_apply[OF op] bits(2) if_True if_False)
  moreover have "rights ?xm = (if meant CHR ''o'' who then new_rights op (set perms) (rights (OtherMode md)) else rights (OtherMode md))"
    by (cases "meant CHR ''o'' who") (simp_all only: wo rights_apply[OF op] bits(2) if_True if_False)
  ultimately show ?thesis using parsed by blast
qed

section \<open>chmod\<close>

text \<open>What \<open>stat\<close> says of a path of the map.\<close>

lemma sys_stat_map:
  assumes "kernel_inv k" "proper (tree (kfs k))" "path_of proc target = cs" "map_walk (file_map (tree (kfs k))) (EUID proc) [] cs = Ok e"
  obtains k' md where "sys now proc SYS_STAT [AString target] k = (Ok (RMeta md), k')" "kernel_inv k'" "cache_only k k'"
    "OwnerMode md = m_ownerMode (entry_meta e)" "OtherMode md = m_otherMode (entry_meta e)"
proof -
  have ok: "comps_ok cs" using path_of(2)[of proc target] assms(3) by simp
  obtain i where i: "tree_lookup (tree (kfs k)) (EUID proc) cs 2 = Ok i" "e = view_node (the (tree (kfs k) i))"
    using assms(4) walk_outcome[OF assms(2) ok, of "EUID proc"] by (cases "tree_lookup (tree (kfs k)) (EUID proc) cs 2") auto
  obtain n where n: "tree (kfs k) i = Some n" using lookup_node[OF assms(2) i(1)] by blast
  obtain k' where k': "stat proc target k = (Ok (spec_stat (kfs k) proc target), k')" "kernel_inv k'" "cache_only k k'"
    by (rule stat_spec[OF assms(1)])
  obtain md where md: "spec_stat (kfs k) proc target = Some md" "OwnerMode md = m_ownerMode (node_meta n)" "OtherMode md = m_otherMode (node_meta n)"
    using spec_stat_tree[OF assms(1), of proc target] i(1) n assms(3) by (auto simp: tree_stat_def)
  have "node_meta n = entry_meta e" using i(2) n by (cases n) simp_all
  moreover have "sys now proc SYS_STAT [AString target] k = (Ok (RMeta md), k')"
    using k'(1) md(1) by (simp add: sys_def sys_call_def on_path_def arg_at_def as_defs)
  ultimately show ?thesis using that k'(2,3) md(2,3) by simp
qed

text \<open>
  C22. \<open>chmod\<close> by the owner or root changes the rights of exactly the file or directory it names: it adds, takes or sets the letters of its
  mode, for whom the mode says, keeps the other rights and everything else on the disk, and succeeds.
\<close>

theorem chmod_command_sets_rights:
  assumes "kernel_inv k" "proper (tree (kfs k))" "\<forall>i. coherent k i" "path_of proc target = cs" "mode_ok who op perms"
    and "map_walk (file_map (tree (kfs k))) (EUID proc) [] cs = Ok e"
    and "EUID proc = ''root'' \<or> ownerString (m_owner (entry_meta e)) = EUID proc"
  shows "\<exists>k' om xm. Chmod_Run proc [''chmod'', who @ op # perms, target] k = (Ok Success, out proc nl k') \<and>
    file_map (tree (kfs k')) = (file_map (tree (kfs k)))(cs \<mapsto> entry_modes om xm e) \<and> kernel_inv k' \<and> fs_only k k' \<and>
    rights om = (let old = rights (m_ownerMode (entry_meta e)) in if meant CHR ''u'' who then new_rights op (set perms) old else old) \<and>
    rights xm = (let old = rights (m_otherMode (entry_meta e)) in if meant CHR ''o'' who then new_rights op (set perms) old else old)"
proof -
  obtain k1 md where s: "sys (0, 0) proc SYS_STAT [AString target] k = (Ok (RMeta md), k1)" "kernel_inv k1" "cache_only k k1"
    "OwnerMode md = m_ownerMode (entry_meta e)" "OtherMode md = m_otherMode (entry_meta e)"
    by (rule sys_stat_map[OF assms(1,2,4,6)])
  obtain om xm where m: "parseChmodMode (who @ op # perms) proc target k = (Ok (om, xm), k1)"
    "rights om = (if meant CHR ''u'' who then new_rights op (set perms) (rights (OwnerMode md)) else rights (OwnerMode md))"
    "rights xm = (if meant CHR ''o'' who then new_rights op (set perms) (rights (OtherMode md)) else rights (OtherMode md))"
    using parse_mode[OF assms(5) s(1)] by blast
  have fs: "kfs k1 = kfs k" using s(3) by simp
  have "\<forall>i. coherent k1 i" using assms(3) cache_only_coherent[OF s(3)] by blast
  then have "room_for k1 cs (Set_modes om xm)" by (simp add: room_for_def)
  then obtain r k2 where c: "chmod proc target om xm k1 = (r, k2)"
    "call_refines r k1 k2 (map_call (EUID proc) cs (Set_modes om xm) (file_map (tree (kfs k1))))"
    using modes_refines[OF s(2) _ assms(4)] assms(2) fs by metis
  have "map_call (EUID proc) cs (Set_modes om xm) (file_map (tree (kfs k1))) = (Ok (), (file_map (tree (kfs k)))(cs \<mapsto> entry_modes om xm e))"
    using assms(6,7) by (simp add: map_call_def fs)
  then have r: "r = Ok ()" "file_map (tree (kfs k2)) = (file_map (tree (kfs k)))(cs \<mapsto> entry_modes om xm e)" "kernel_inv k2" "fs_only k1 k2"
    using c(2) by (simp_all add: call_refines_def)
  have "sys (0, 0) proc SYS_CHMOD [AString target, AUint8 om, AUint8 xm] k1 = (Ok RNil, k2)"
    using c(1) r(1) by (simp add: sys_def sys_call_def on_path_def arg_at_def as_defs result_of_def)
  then have "Chmod_Run proc [''chmod'', who @ op # perms, target] k = (Ok Success, out proc nl k2)"
    using m(1) by (simp add: Chmod_Run_def)
  then show ?thesis
    using r fs_only_trans[OF cache_only_fs[OF s(3)] r(4)] m(2,3) s(4,5) by (intro exI[of _ k2] exI[of _ om] exI[of _ xm]) (simp add: Let_def)
qed

theorem chmod_command_sets_rights_witness:
  "\<exists>k' om xm. Chmod_Run root_proc [''chmod'', ''o=r'', ''/''] demo_kernel = (Ok Success, out root_proc nl k') \<and>
    file_map (tree (kfs k')) = [[] \<mapsto> entry_modes om xm (Dir_at (user_meta ''root''))] \<and>
    rights om = {CHR ''r'', CHR ''w'', CHR ''x''} \<and> rights xm = {CHR ''r''}"
proof -
  have e: "kfs demo_kernel = demo_fs" "inodeCache demo_kernel = Map.empty" by (simp_all add: demo_kernel_def new_kernel_def)
  have p: "proper (tree (kfs demo_kernel))" by (simp add: e demo_proper(1))
  have c: "\<forall>i. coherent demo_kernel i" by (simp add: coherent_def e)
  have t: "path_of root_proc ''/'' = []" using path_of_abs_path[of "[]" root_proc] by (simp add: abs_path_def)
  have m: "mode_ok ''o'' CHR ''='' ''r''" by (simp add: mode_ok_def)
  have w: "map_walk (file_map (tree (kfs demo_kernel))) (EUID root_proc) [] [] = Ok (Dir_at (user_meta ''root''))"
    by (simp add: e demo_proper(2))
  have r: "rights 7 = {CHR ''r'', CHR ''w'', CHR ''x''}" by (auto simp: rights_def)
  have n: "\<not> meant CHR ''u'' ''o''" "meant CHR ''o'' ''o''" by (simp_all add: meant_def)
  obtain k' om xm where k': "Chmod_Run root_proc [''chmod'', ''o=r'', ''/''] demo_kernel = (Ok Success, out root_proc nl k')"
    "file_map (tree (kfs k')) = (file_map (tree (kfs demo_kernel)))([] \<mapsto> entry_modes om xm (Dir_at (user_meta ''root'')))"
    "rights om = {CHR ''r'', CHR ''w'', CHR ''x''}" "rights xm = {CHR ''r''}"
    using chmod_command_sets_rights[OF demo_tree(1) p c t m w] r n by (auto simp: new_rights_def user_meta_def)
  then show ?thesis by (intro exI[of _ k'] exI[of _ om] exI[of _ xm]) (simp add: e demo_proper(2))
qed

end
