(* ===== verification/VEdit.thy ===== *)
theory VEdit
  imports Programs
begin

text \<open>
  \<open>programs/v/v.go\<close>: the editor \<open>v\<close>. A line is a slice of bytes, and Go slices share their arrays: Enter makes two
  slices of one array, and \<open>append\<close> writes into the array of its first argument where that has room. So
  the lines are slices into an explicit heap of arrays. How much room a new array has beyond what is
  asked for is up to Go's allocator: it is the argument \<open>room\<close>, a
  function of the capacity there was and the length asked for, and all that is known of it is that an array has at
  least the length it is made for.
\<close>

section \<open>Slices\<close>

record slc =
  s_arr :: nat
  s_off :: nat
  s_len :: nat

type_synonym heap = "u8 list list"

definition slc_bytes :: "heap \<Rightarrow> slc \<Rightarrow> u8 list" where
  "slc_bytes h s = take (s_len s) (drop (s_off s) (h ! s_arr s))"

definition new_slc :: "(nat \<Rightarrow> nat) \<Rightarrow> u8 list \<Rightarrow> heap \<Rightarrow> slc \<times> heap" where
  "new_slc room bs h = (\<lparr>s_arr = length h, s_off = 0, s_len = length bs\<rparr>, h @ [bs @ replicate (room (length bs) - length bs) 0])"

definition append_slc :: "(nat \<Rightarrow> nat \<Rightarrow> nat) \<Rightarrow> slc \<Rightarrow> u8 list \<Rightarrow> heap \<Rightarrow> slc \<times> heap" where
  "append_slc room s bs h =
     (if s_off s + s_len s + length bs \<le> length (h ! s_arr s)
      then (s\<lparr>s_len := s_len s + length bs\<rparr>, h[s_arr s := put_at (s_off s + s_len s) bs (h ! s_arr s)])
      else new_slc (room (length (h ! s_arr s) - s_off s)) (slc_bytes h s @ bs) h)"

fun new_slcs :: "(nat \<Rightarrow> nat \<Rightarrow> nat) \<Rightarrow> string list \<Rightarrow> heap \<Rightarrow> slc list \<times> heap" where
  "new_slcs room [] h = ([], h)"
| "new_slcs room (l # ls) h = (case new_slc (room 0) (string_bytes l) h of (s, h) \<Rightarrow>
     case new_slcs room ls h of (ss, h) \<Rightarrow> (s # ss, h))"

section \<open>The editor\<close>

record vedit =
  termHeight :: int
  termWidth :: int
  cursorRow :: int
  cursorCol :: int
  statusBar :: int
  vbuffer :: "slc list"
  yOffset :: int
  vmode :: int
  didWrite :: bool
  vheap :: heap

definition line_of :: "vedit \<Rightarrow> int \<Rightarrow> slc outcome" where
  "line_of v i = (if 0 \<le> i \<and> i < int (length (vbuffer v)) then Ok (vbuffer v ! nat i) else Panic)"

definition line_text :: "vedit \<Rightarrow> slc \<Rightarrow> string" where
  "line_text v s = bytes_string (slc_bytes (vheap v) s)"

definition view_lines :: "vedit \<Rightarrow> string list" where
  "view_lines v = map (line_text v) (vbuffer v)"

text \<open>A line of \<open>i\<close> gets new bytes in a new array, as \<open>[]byte(string(runes))\<close> does.\<close>

definition set_line :: "(nat \<Rightarrow> nat \<Rightarrow> nat) \<Rightarrow> int \<Rightarrow> nat list \<Rightarrow> vedit \<Rightarrow> vedit" where
  "set_line room i rs v = (case new_slc (room 0) (string_bytes (string_of_runes rs)) (vheap v) of (s, h) \<Rightarrow>
     v\<lparr>vbuffer := (vbuffer v)[nat i := s], vheap := h\<rparr>)"

section \<open>Drawing\<close>

definition v_row :: "vedit \<Rightarrow> nat \<Rightarrow> string" where
  "v_row v i =
     (let j = nat (yOffset v + int i) in
      if yOffset v + int i < int (length (vbuffer v)) then
        line_text v (vbuffer v ! j) @ (if j = length (vbuffer v) - 1 then [] else nl)
      else ''~'' @ nl)"

definition statusColor :: "string \<Rightarrow> string \<Rightarrow> string" where
  "statusColor mode status =
     (if mode = ''INSERT'' then esc @ ''[48;5;22m'' @ esc @ ''[38;5;255m'' @ status @ esc @ ''[0m''
      else if mode = ''WRITTEN TO FILE'' then esc @ ''[48;5;46m'' @ esc @ ''[38;5;16m'' @ status @ esc @ ''[0m''
      else esc @ ''[48;5;23m'' @ esc @ ''[38;5;230m'' @ status @ esc @ ''[0m'')"

definition modeString :: "vedit \<Rightarrow> string" where
  "modeString v = (if didWrite v then ''WRITTEN TO FILE'' else if vmode v = 0 then ''NORMAL''
     else if vmode v = 1 then ''INSERT'' else [])"

definition move_to :: "int \<Rightarrow> int \<Rightarrow> string" where
  "move_to row col = esc @ ''['' @ itoa row @ '';'' @ itoa col @ ''H''"

definition vDraw :: "process \<Rightarrow> vedit \<Rightarrow> kernel \<Rightarrow> kernel" where
  "vDraw proc v k =
     (let k = out proc (esc @ ''[H'' @ esc @ ''[2J'') k;
          k = out proc (concat (map (v_row v) [0..<nat (termHeight v)])) k;
          k = out proc (move_to (statusBar v) 1) k;
          label = '' '' @ modeString v @ '' '';
          status = label @ replicate (nat (termWidth v - int (length label))) CHR '' '';
          k = out proc (statusColor (modeString v) status) k
      in out proc (move_to (cursorRow v) (cursorCol v)) k)"

section \<open>Keys\<close>

definition key_save :: string where "key_save = [CHR 0x13]"

type_synonym v_state = "vedit \<times> kernel"

text \<open>The whole buffer as it is saved: a newline after every line.\<close>

definition saved_bytes :: "vedit \<Rightarrow> u8 list" where
  "saved_bytes v = string_bytes (concat (map (\<lambda>l. l @ nl) (view_lines v)))"

text \<open>The two \<open>ioctl\<close> calls before the program cancels its own context; clearing the buffer with \<open>nil\<close> is refused.\<close>

definition v_reset :: "process \<Rightarrow> kernel \<Rightarrow> kernel" where
  "v_reset proc k = ctl proc TIOCRAW (ABool False) (ctl proc TIOCBUFFCLEAR ANil k)"

text \<open>The result says whether the program cancelled its context.\<close>

definition v_save :: "u64 \<times> u64 \<Rightarrow> process \<Rightarrow> string \<Rightarrow> v_state \<Rightarrow> bool outcome \<times> v_state" where
  "v_save now proc target s = (case s of (v, k) \<Rightarrow>
     let v' = v\<lparr>didWrite := True\<rparr>
     in (case sys now proc SYS_WRITE [AString target, ABytes (saved_bytes v)] k of
           (Panic, k) \<Rightarrow> (Panic, (v, k))
         | (Err e, k) \<Rightarrow> (Ok True, (v', vDraw proc v' (out proc ''ERROR WRITING TO FILE!'' (v_reset proc k))))
         | (Ok r, k) \<Rightarrow> (Ok False, (v', vDraw proc v' k))))"

text \<open>Keys of normal mode: the result says whether the screen is drawn again at the end of the turn.\<close>

definition v_down :: "vedit \<Rightarrow> vedit outcome" where
  "v_down v =
     (if cursorRow v < int (length (vbuffer v)) - 1 then
        bindO (line_of v (cursorRow v)) (\<lambda>l.
          let n = int (s_len l)
          in Ok (v\<lparr>cursorCol := (if n < cursorCol v - 1 then n + 1 else cursorCol v), cursorRow := cursorRow v + 1\<rparr>))
      else Ok v)"

definition v_up :: "vedit \<Rightarrow> vedit outcome" where
  "v_up v =
     (if cursorRow v > 1 then
        bindO (line_of v (cursorRow v - 2)) (\<lambda>l.
          let n = int (s_len l)
          in Ok (v\<lparr>cursorCol := (if n < cursorCol v - 1 then n + 1 else cursorCol v), cursorRow := cursorRow v - 1\<rparr>))
      else Ok v)"

definition v_normal :: "string \<Rightarrow> vedit \<Rightarrow> vedit outcome" where
  "v_normal key v =
     (if key = key_escape then Ok (v\<lparr>vmode := 0, didWrite := False\<rparr>)
      else if key = ''i'' then Ok (v\<lparr>vmode := 1, didWrite := False\<rparr>)
      else if key = ''l'' then bindO (line_of v (cursorRow v - 1)) (\<lambda>l.
        Ok (if cursorCol v - 1 < int (s_len l) then v\<lparr>cursorCol := cursorCol v + 1\<rparr> else v))
      else if key = ''h'' then Ok (if cursorCol v - 1 \<ge> 0 then v\<lparr>cursorCol := cursorCol v - 1\<rparr> else v)
      else if key = ''j'' then v_down v
      else if key = ''k'' then v_up v
      else Ok v)"

definition v_enter :: "vedit \<Rightarrow> vedit outcome" where
  "v_enter v =
     (let row = cursorRow v - 1; col = cursorCol v - 1
      in bindO (line_of v row) (\<lambda>line.
         if col < 0 \<or> int (s_len line) < col then Panic
         else let left = line\<lparr>s_len := nat col\<rparr>;
                  right = line\<lparr>s_off := s_off line + nat col, s_len := s_len line - nat col\<rparr>;
                  r = nat row
              in Ok (v\<lparr>vbuffer := take r (vbuffer v) @ left # right # drop (r + 1) (vbuffer v),
                       cursorRow := cursorRow v + 1, cursorCol := 1\<rparr>)))"

definition v_delete :: "(nat \<Rightarrow> nat \<Rightarrow> nat) \<Rightarrow> vedit \<Rightarrow> vedit outcome" where
  "v_delete room v =
     bindO (line_of v (cursorRow v - 1)) (\<lambda>curr.
     if cursorCol v > 1 then
       let rs = runes (line_text v curr); idx = cursorCol v - 1
       in if int (length rs) < idx then Panic
          else Ok ((set_line room (cursorRow v - 1) (take (nat (idx - 1)) rs @ drop (nat idx) rs) v)\<lparr>cursorCol := cursorCol v - 1\<rparr>)
     else if cursorRow v > 1 then
       bindO (line_of v (cursorRow v - 2)) (\<lambda>prev.
       case append_slc room prev (slc_bytes (vheap v) curr) (vheap v) of (newLine, h) \<Rightarrow>
         let r = nat (cursorRow v - 1)
         in Ok (v\<lparr>vbuffer := (take r (vbuffer v))[r - 1 := newLine] @ drop (r + 1) (vbuffer v), vheap := h,
                  cursorRow := cursorRow v - 1, cursorCol := int (s_len prev) + 1\<rparr>))
     else Ok v)"

definition v_type :: "(nat \<Rightarrow> nat \<Rightarrow> nat) \<Rightarrow> string \<Rightarrow> vedit \<Rightarrow> vedit outcome" where
  "v_type room key v =
     (let index = (if cursorCol v - 1 < 0 then 0 else cursorCol v - 1);
          r = runes (if key = key_tab then ''    '' else key)
      in bindO (line_of v (cursorRow v - 1)) (\<lambda>line.
         let rs = runes (line_text v line); i = nat index
         in if int (length rs) < index then Panic
            else Ok ((set_line room (cursorRow v - 1) (take i rs @ r @ drop i rs) v)\<lparr>cursorCol := cursorCol v + int (length r)\<rparr>)))"

text \<open>Keys of insert mode; \<open>None\<close> for those that end the turn without drawing.\<close>

definition v_ignored :: "string set" where
  "v_ignored = {alt_delete, alt_w, ctrl_u, ctrl_b, key_up, key_down, key_right, key_left}"

definition v_insert :: "(nat \<Rightarrow> nat \<Rightarrow> nat) \<Rightarrow> string \<Rightarrow> vedit \<Rightarrow> vedit outcome" where
  "v_insert room key v =
     (if key = key_escape then Ok (v\<lparr>vmode := 0, didWrite := False\<rparr>)
      else if key = key_enter then v_enter v
      else if key = key_delete then v_delete room v
      else v_type room key v)"

definition v_edit :: "(nat \<Rightarrow> nat \<Rightarrow> nat) \<Rightarrow> string \<Rightarrow> vedit \<Rightarrow> vedit outcome" where
  "v_edit room key v =
     (if vmode v = 0 then v_normal key v
      else if vmode v = 1 then if key \<in> v_ignored then Ok v else v_insert room key v
      else Ok v)"

text \<open>One turn: \<open>C-s\<close> saves, and is then treated like any other key.\<close>

definition v_key :: "u64 \<times> u64 \<Rightarrow> (nat \<Rightarrow> nat \<Rightarrow> nat) \<Rightarrow> process \<Rightarrow> string \<Rightarrow> string \<Rightarrow> v_state \<Rightarrow> bool outcome \<times> v_state" where
  "v_key now room proc target key s =
     bindS (if key = key_save then v_save now proc target s else (Ok False, s)) (\<lambda>cancelled (v, k).
       case v_edit room key v of
         Ok v' \<Rightarrow> (Ok cancelled, (v', if vmode v = 1 \<and> key \<in> v_ignored then k else vDraw proc v' k))
       | Err e \<Rightarrow> (Err e, (v, k))
       | Panic \<Rightarrow> (Panic, (v, k)))"

section \<open>The program\<close>

text \<open>
  The first argument bounds the turns. Each takes an event, and a failed save adds the end of the context in front of those
  that are left, which ends the program in the next turn: two turns more than there are events are enough.
\<close>

fun v_loop :: "nat \<Rightarrow> u64 \<times> u64 \<Rightarrow> (nat \<Rightarrow> nat \<Rightarrow> nat) \<Rightarrow> process \<Rightarrow> string \<Rightarrow> vedit \<Rightarrow> waiting \<Rightarrow> int progress outcome \<times> waiting" where
  "v_loop 0 now room proc target v s = (Ok Cut_off, s)"
| "v_loop (Suc n) now room proc target v s = bindP (next_input proc s) (\<lambda>input (k, es). case input of
     None \<Rightarrow> (Ok (Ended Success), (k, es))
   | Some key \<Rightarrow> (case v_key now room proc target key (v, k) of
         (Ok cancelled, (v, k)) \<Rightarrow>
           v_loop n now room proc target v (k, if cancelled then Cancelled # es else es)
       | (Err e, (v, k)) \<Rightarrow> (Err e, (k, es))
       | (Panic, (v, k)) \<Rightarrow> (Panic, (k, es))))"

text \<open>The window size, as the call wrote it through the pointer to the program's \<open>Winsize\<close>, which is zero otherwise.\<close>

definition winsize :: "process \<Rightarrow> kernel \<Rightarrow> int \<times> int" where
  "winsize proc k = (case fst (ioctl proc 0 TIOCGWINSZ AWinsizePtr k) of Ok (Some ws) \<Rightarrow> ws | _ \<Rightarrow> (0, 0))"

definition open_text :: "(nat \<Rightarrow> nat \<Rightarrow> nat) \<Rightarrow> u8 list \<Rightarrow> int \<times> int \<Rightarrow> vedit" where
  "open_text room bs ws = (case new_slcs room (split_on CHR 0x0A (bytes_string bs)) [] of (ls, h) \<Rightarrow>
     \<lparr>termHeight = snd ws - 1, termWidth = fst ws, cursorRow = 1, cursorCol = 1, statusBar = snd ws, vbuffer = ls,
      yOffset = 0, vmode = 0, didWrite = False, vheap = h\<rparr>)"

definition V_Run :: "u64 \<times> u64 \<Rightarrow> (nat \<Rightarrow> nat \<Rightarrow> nat) \<Rightarrow> process \<Rightarrow> string list \<Rightarrow> waiting \<Rightarrow> int progress outcome \<times> waiting" where
  "V_Run now room proc params s = (case s of (k, es) \<Rightarrow>
     if length params \<noteq> 2 then (Ok (Ended Error), (out proc (nl @ ''Usage: v <path>'' @ nl) k, es))
     else (case sys now proc SYS_READ [AString (params ! 1)] k of
         (Panic, k) \<Rightarrow> (Panic, (k, es))
       | (Err e, k) \<Rightarrow> (Ok (Ended Error), (out proc (nl @ ''Error reading file: '' @ error_text e @ nl) k, es))
       | (Ok r, k) \<Rightarrow> (case sys now proc SYS_IOCTL [AInt 0, AReq TIOCRAW, ABool True] k of
             (Panic, k) \<Rightarrow> (Panic, (k, es))
           | (Err e, k) \<Rightarrow> (Ok (Ended Error), (out proc (nl @ ''Error setting raw p.mode: '' @ error_text e @ nl) k, es))
           | (Ok _, k) \<Rightarrow> let v = open_text room (res_bytes r) (winsize proc k)
               in v_loop (length es + 2) now room proc (params ! 1) v (vDraw proc v k, es))))"

text \<open>The result says whether the program cancelled its context, for the reads to come.\<close>

definition V_HandleSignal :: "process \<Rightarrow> signal \<Rightarrow> v_state \<Rightarrow> bool \<times> v_state" where
  "V_HandleSignal proc sig s = (case s of (v, k) \<Rightarrow>
     if sig = SIGINT then
       (True, v, out proc (nl @ ''(SIGINT), quitting!'' @ nl) (out proc (esc @ ''[H'' @ esc @ ''[2J'') (v_reset proc k)))
     else if sig = SIGWINCH then
       let v = v\<lparr>termHeight := snd (winsize proc k), termWidth := fst (winsize proc k)\<rparr> in (False, v, vDraw proc v k)
     else (False, v, k))"

end
