(* ===== verification/VSpec.thy ===== *)
theory VSpec
  imports VEdit
begin

text \<open>
  What the editor does to the text: typing, Enter and delete refine an editor on a list of lines (\<open>ed_key\<close>), except
  that joining two lines writes into an array other lines may share.
\<close>

section \<open>Slices and the heap\<close>

definition slc_ok :: "heap \<Rightarrow> slc \<Rightarrow> bool" where
  "slc_ok h s \<longleftrightarrow> s_arr s < length h \<and> s_off s + s_len s \<le> length (h ! s_arr s)"

lemma length_slc [simp]: "slc_ok h s \<Longrightarrow> length (slc_bytes h s) = s_len s"
  unfolding slc_ok_def slc_bytes_def by (simp add: min_absorb2 le_diff_conv2)

lemma new_slc:
  assumes "new_slc room bs h = (s, h')"
  shows "slc_bytes h' s = bs" "slc_ok h' s" "s_len s = length bs"
    "slc_ok h t \<Longrightarrow> slc_bytes h' t = slc_bytes h t \<and> slc_ok h' t"
  using assms by (auto simp: new_slc_def slc_bytes_def slc_ok_def nth_append)

lemma put_at_other:
  assumes "off + n \<le> lo \<or> lo + length bs \<le> off" "lo + length bs \<le> length xs" "off + n \<le> length xs"
  shows "take n (drop off (put_at lo bs xs)) = take n (drop off xs)"
  using slice_put_at_disjoint[of lo bs xs "off + n" off] assms by (auto simp: slice_def)

text \<open>Where appending writes, if it writes in place.\<close>

definition clear_of :: "heap \<Rightarrow> slc \<Rightarrow> nat \<Rightarrow> slc \<Rightarrow> bool" where
  "clear_of h s n t \<longleftrightarrow> s_arr t \<noteq> s_arr s \<or> length (h ! s_arr s) < s_off s + s_len s + n \<or>
     s_off t + s_len t \<le> s_off s + s_len s \<or> s_off s + s_len s + n \<le> s_off t"

lemma append_slc:
  assumes "append_slc room s bs h = (s', h')" "slc_ok h s"
  shows "slc_bytes h' s' = slc_bytes h s @ bs" "slc_ok h' s'" "s_len s' = s_len s + length bs"
    "slc_ok h t \<Longrightarrow> slc_ok h' t" "slc_ok h t \<Longrightarrow> clear_of h s (length bs) t \<Longrightarrow> slc_bytes h' t = slc_bytes h t"
proof -
  let ?fit = "s_off s + s_len s + length bs \<le> length (h ! s_arr s)"
  let ?a = "put_at (s_off s + s_len s) bs (h ! s_arr s)"
  have s: "s_arr s < length h" "s_off s + s_len s \<le> length (h ! s_arr s)" using assms(2) by (simp_all add: slc_ok_def)
  have fit: "s' = s\<lparr>s_len := s_len s + length bs\<rparr>" "h' = h[s_arr s := ?a]" if ?fit
    using assms(1) that by (simp_all add: append_slc_def)
  have no: "new_slc (room (length (h ! s_arr s) - s_off s)) (slc_bytes h s @ bs) h = (s', h')" if "\<not> ?fit" using assms(1) that by (simp add: append_slc_def)
  have la: "length ?a = length (h ! s_arr s)" if ?fit using that by (simp add: put_at_def)
  show "slc_bytes h' s' = slc_bytes h s @ bs"
  proof (cases ?fit)
    case True
    have "take (s_len s + length bs) (drop (s_off s) ?a) = take (s_len s) (drop (s_off s) (h ! s_arr s)) @ bs"
      using True s by (simp add: put_at_def drop_take)
    then show ?thesis using fit[OF True] s by (simp add: slc_bytes_def)
  next
    case False
    show ?thesis by (rule new_slc(1)[OF no[OF False]])
  qed
  show "slc_ok h' s'" using fit la s new_slc(2)[OF no] by (cases ?fit) (auto simp: slc_ok_def)
  show "s_len s' = s_len s + length bs" using fit(1) new_slc(3)[OF no] assms(2) by (cases ?fit) auto
  show "slc_ok h' t" if "slc_ok h t"
    using fit(2) la that new_slc(4)[OF no, of t] 
    by (cases ?fit; cases "s_arr t = s_arr s") (auto simp: slc_ok_def)
  show "slc_bytes h' t = slc_bytes h t" if t: "slc_ok h t" "clear_of h s (length bs) t"
  proof (cases ?fit)
    case True
    show ?thesis
    proof (cases "s_arr t = s_arr s")
      case eq: True
      have "take (s_len t) (drop (s_off t) ?a) = take (s_len t) (drop (s_off t) (h ! s_arr s))"
        by (rule put_at_other) (use t eq True in \<open>auto simp: clear_of_def slc_ok_def\<close>)
      then show ?thesis using fit(2)[OF True] eq s by (simp add: slc_bytes_def)
    next
      case False
      then show ?thesis using fit(2)[OF True] by (simp add: slc_bytes_def)
    qed
  next
    case False
    then show ?thesis using new_slc(4)[OF no[OF False], of t] t(1) by simp
  qed
qed

section \<open>An editor of lines\<close>

type_synonym text_at = "string list \<times> nat \<times> nat"

definition ed_key :: "string \<Rightarrow> text_at \<Rightarrow> text_at" where
  "ed_key key t = (case t of (ls, r, c) \<Rightarrow>
     if key = key_enter then (take r ls @ take c (ls ! r) # drop c (ls ! r) # drop (r + 1) ls, r + 1, 0)
     else if key = key_delete then
       if 0 < c then (ls[r := take (c - 1) (ls ! r) @ drop c (ls ! r)], r, c - 1)
       else if 0 < r then (take (r - 1) ls @ (ls ! (r - 1) @ ls ! r) # drop (r + 1) ls, r - 1, length (ls ! (r - 1)))
       else t
     else let s = (if key = key_tab then ''    '' else key)
          in (ls[r := take c (ls ! r) @ s @ drop c (ls ! r)], r, c + length s))"

definition v_view :: "vedit \<Rightarrow> text_at" where
  "v_view v = (view_lines v, nat (cursorRow v - 1), nat (cursorCol v - 1))"

text \<open>The cursor is in the text, the lines are slices of the heap, and all of it is ASCII.\<close>

definition v_ok :: "vedit \<Rightarrow> bool" where
  "v_ok v \<longleftrightarrow> (\<forall>s \<in> set (vbuffer v). slc_ok (vheap v) s \<and> ascii (line_text v s)) \<and>
     1 \<le> cursorRow v \<and> cursorRow v \<le> int (length (vbuffer v)) \<and>
     1 \<le> cursorCol v \<and> cursorCol v \<le> int (s_len (vbuffer v ! nat (cursorRow v - 1))) + 1"

text \<open>Joining the line with the one before does not write into a third.\<close>

definition join_clear :: "vedit \<Rightarrow> bool" where
  "join_clear v \<longleftrightarrow> (let r = nat (cursorRow v - 1) in
     \<forall>j < length (vbuffer v). j \<noteq> r - 1 \<longrightarrow> j \<noteq> r \<longrightarrow>
       clear_of (vheap v) (vbuffer v ! (r - 1)) (s_len (vbuffer v ! r)) (vbuffer v ! j))"

lemma length_line_text: "slc_ok (vheap v) s \<Longrightarrow> length (line_text v s) = s_len s"
  by (simp add: line_text_def)

text \<open>A line with a new text.\<close>

lemma set_line_ok:
  assumes ok: "v_ok v" and i: "0 \<le> i" "i < int (length (vbuffer v))" and rs: "string_of_runes rs = t" and a: "ascii t"
  shows "view_lines (set_line room i rs v) = (view_lines v)[nat i := t]"
    "\<forall>s \<in> set (vbuffer (set_line room i rs v)). slc_ok (vheap (set_line room i rs v)) s \<and> ascii (line_text (set_line room i rs v) s)"
    "length (vbuffer (set_line room i rs v)) = length (vbuffer v)"
    "s_len (vbuffer (set_line room i rs v) ! nat i) = length t"
    "cursorRow (set_line room i rs v) = cursorRow v" "cursorCol (set_line room i rs v) = cursorCol v"
proof -
  obtain s h where n: "new_slc (room 0) (string_bytes t) (vheap v) = (s, h)" by fastforce
  have e: "set_line room i rs v = v\<lparr>vbuffer := (vbuffer v)[nat i := s], vheap := h\<rparr>" by (simp add: set_line_def rs n)
  have old: "slc_bytes h x = slc_bytes (vheap v) x" "slc_ok h x" if "x \<in> set (vbuffer v)" for x
    using new_slc(4)[OF n, of x] ok that by (auto simp: v_ok_def)
  have l: "nat i < length (vbuffer v)" using i by simp
  let ?v = "v\<lparr>vbuffer := (vbuffer v)[nat i := s], vheap := h\<rparr>"
  have tx: "line_text ?v x = line_text v x" if "x \<in> set (vbuffer v)" for x using old(1)[OF that] by (simp add: line_text_def)
  have ts: "line_text ?v s = t" using new_slc(1)[OF n] by (simp add: line_text_def)
  show "view_lines (set_line room i rs v) = (view_lines v)[nat i := t]"
    unfolding e view_lines_def using l tx ts by (simp add: map_update list_update_same_conv cong: map_cong)
  show "\<forall>x \<in> set (vbuffer (set_line room i rs v)). slc_ok (vheap (set_line room i rs v)) x \<and> ascii (line_text (set_line room i rs v) x)"
  proof
    fix x assume "x \<in> set (vbuffer (set_line room i rs v))"
    then have "x = s \<or> x \<in> set (vbuffer v)" unfolding e using set_update_subset_insert by fastforce
    then show "slc_ok (vheap (set_line room i rs v)) x \<and> ascii (line_text (set_line room i rs v) x)"
      unfolding e using new_slc(2)[OF n] ts a old(2) tx ok by (auto simp: v_ok_def)
  qed
  show "length (vbuffer (set_line room i rs v)) = length (vbuffer v)"
    "s_len (vbuffer (set_line room i rs v) ! nat i) = length t"
    "cursorRow (set_line room i rs v) = cursorRow v" "cursorCol (set_line room i rs v) = cursorCol v"
    unfolding e using l new_slc(3)[OF n] by simp_all
qed

lemma v_ok_line:
  assumes "v_ok v"
  obtains r c s where "cursorRow v = int r + 1" "cursorCol v = int c + 1" "line_of v (cursorRow v - 1) = Ok s"
    "s = vbuffer v ! r" "r < length (vbuffer v)" "c \<le> s_len s" "slc_ok (vheap v) s" "ascii (line_text v s)"
    "view_lines v ! r = line_text v s" "v_view v = (view_lines v, r, c)"
proof -
  let ?r = "nat (cursorRow v - 1)" and ?c = "nat (cursorCol v - 1)"
  have "cursorRow v = int ?r + 1" "cursorCol v = int ?c + 1" "?r < length (vbuffer v)"
    using assms by (auto simp: v_ok_def)
  then show ?thesis
    by (intro that[of ?r ?c "vbuffer v ! ?r"]) (use assms in \<open>auto simp: v_ok_def line_of_def view_lines_def v_view_def\<close>)
qed

text \<open>A line of the cursor with a new text, and the cursor in it.\<close>

lemma set_line_view:
  assumes ok: "v_ok v" and r: "cursorRow v = int r + 1" "r < length (vbuffer v)"
    and rs: "string_of_runes rs = t" and a: "ascii t" and c: "c \<le> length t"
  shows "v_ok ((set_line room (cursorRow v - 1) rs v)\<lparr>cursorCol := int c + 1\<rparr>)"
    "v_view ((set_line room (cursorRow v - 1) rs v)\<lparr>cursorCol := int c + 1\<rparr>) = ((view_lines v)[r := t], r, c)"
proof -
  have i: "0 \<le> int r" "int r < int (length (vbuffer v))" using r by simp_all
  define w where "w = set_line room (int r) rs v"
  note sl = set_line_ok[OF ok i rs a, of room, folded w_def]
  have e: "(set_line room (cursorRow v - 1) rs v)\<lparr>cursorCol := int c + 1\<rparr> = w\<lparr>cursorCol := int c + 1\<rparr>" using r by (simp add: w_def)
  have same: "line_text (w\<lparr>cursorCol := int c + 1\<rparr>) = line_text w" by (simp add: line_text_def fun_eq_iff)
  show "v_ok ((set_line room (cursorRow v - 1) rs v)\<lparr>cursorCol := int c + 1\<rparr>)"
    using sl(2-5) r c unfolding e v_ok_def same by simp
  show "v_view ((set_line room (cursorRow v - 1) rs v)\<lparr>cursorCol := int c + 1\<rparr>) = ((view_lines v)[r := t], r, c)"
    using sl(1,5) r unfolding e v_view_def view_lines_def same by simp
qed

lemma v_type_ok:
  assumes ok: "v_ok v" and key: "ascii key" "key \<noteq> key_enter" "key \<noteq> key_delete"
  obtains v' where "v_type room key v = Ok v'" "v_ok v'" "v_view v' = ed_key key (v_view v)"
proof -
  obtain r c s where v: "cursorRow v = int r + 1" "cursorCol v = int c + 1" "line_of v (cursorRow v - 1) = Ok s"
    "s = vbuffer v ! r" "r < length (vbuffer v)" "c \<le> s_len s" "slc_ok (vheap v) s" "ascii (line_text v s)"
    "view_lines v ! r = line_text v s" "v_view v = (view_lines v, r, c)" by (rule v_ok_line[OF ok])
  define l where "l = line_text v s"
  define t where "t = (if key = key_tab then ''    '' else key)"
  have at: "ascii t" "ascii l" using key(1) v(8) by (simp_all add: t_def l_def)
  have len: "length l = s_len s" using length_line_text[OF v(7)] by (simp add: l_def)
  have an: "ascii (take c l @ t @ drop c l)" using at by simp
  have rr: "string_of_runes (take c (runes l) @ runes t @ drop c (runes l)) = take c l @ t @ drop c l"
    by (rule runes_splice(1)[OF at(2,1)])
  have cl: "c + length t \<le> length (take c l @ t @ drop c l)" using v(6) len by simp
  note sv = set_line_view[OF ok v(1,5) rr an cl, of room]
  have lr: "length (runes l) = s_len s" "length (runes t) = length t"
    using length_runes_ascii at len by simp_all
  have run: "v_type room key v = Ok ((set_line room (cursorRow v - 1) (take c (runes l) @ runes t @ drop c (runes l)) v)
      \<lparr>cursorCol := int (c + length t) + 1\<rparr>)"
    using v(2,6) lr by (simp add: v_type_def Let_def v(3) flip: l_def t_def)
  show ?thesis
    by (rule that[OF run sv(1)]) (use sv(2) v(9,10) key in \<open>simp add: ed_key_def Let_def flip: l_def t_def\<close>)
qed

text \<open>Enter: both halves are slices of the line's own array.\<close>

lemma slc_bytes_halves:
  assumes "slc_ok h s" "c \<le> s_len s"
  shows "slc_bytes h (s\<lparr>s_len := c\<rparr>) = take c (slc_bytes h s)"
    "slc_bytes h (s\<lparr>s_off := s_off s + c, s_len := s_len s - c\<rparr>) = drop c (slc_bytes h s)"
    "slc_ok h (s\<lparr>s_len := c\<rparr>)" "slc_ok h (s\<lparr>s_off := s_off s + c, s_len := s_len s - c\<rparr>)"
proof -
  show "slc_bytes h (s\<lparr>s_len := c\<rparr>) = take c (slc_bytes h s)"
    using assms(2) by (simp add: slc_bytes_def min_absorb1)
  show "slc_bytes h (s\<lparr>s_off := s_off s + c, s_len := s_len s - c\<rparr>) = drop c (slc_bytes h s)"
    by (simp add: slc_bytes_def drop_take add.commute)
  show "slc_ok h (s\<lparr>s_len := c\<rparr>)" "slc_ok h (s\<lparr>s_off := s_off s + c, s_len := s_len s - c\<rparr>)"
    using assms by (simp_all add: slc_ok_def)
qed

lemma v_enter_ok:
  assumes ok: "v_ok v"
  obtains v' where "v_enter v = Ok v'" "v_ok v'" "v_view v' = ed_key key_enter (v_view v)"
proof -
  obtain r c s where v: "cursorRow v = int r + 1" "cursorCol v = int c + 1" "line_of v (cursorRow v - 1) = Ok s"
    "s = vbuffer v ! r" "r < length (vbuffer v)" "c \<le> s_len s" "slc_ok (vheap v) s" "ascii (line_text v s)"
    "view_lines v ! r = line_text v s" "v_view v = (view_lines v, r, c)" by (rule v_ok_line[OF ok])
  define a where "a = s\<lparr>s_len := c\<rparr>"
  define b where "b = s\<lparr>s_off := s_off s + c, s_len := s_len s - c\<rparr>"
  define w where "w = v\<lparr>vbuffer := take r (vbuffer v) @ a # b # drop (r + 1) (vbuffer v), cursorRow := cursorRow v + 1, cursorCol := 1\<rparr>"
  have "line_of v (int r) = Ok s" using v(1,3) by simp
  then have run: "v_enter v = Ok w" using v(1,2,6) by (simp add: v_enter_def Let_def w_def a_def b_def)
  note h = slc_bytes_halves[OF v(7,6), folded a_def b_def]
  have lt: "line_text w = line_text v" by (simp add: line_text_def fun_eq_iff w_def)
  have l: "line_text v a = take c (line_text v s)" "line_text v b = drop c (line_text v s)"
    by (simp_all add: line_text_def h bytes_string_def take_map drop_map)
  have hw: "vheap w = vheap v" by (simp add: w_def)
  have old: "slc_ok (vheap v) x \<and> ascii (line_text v x)" if "x \<in> set (vbuffer v)" for x
    using ok that by (simp add: v_ok_def)
  have new: "slc_ok (vheap v) a \<and> ascii (line_text v a)" "slc_ok (vheap v) b \<and> ascii (line_text v b)"
    using h(3,4) l v(8) by simp_all
  have "x = a \<or> x = b \<or> x \<in> set (vbuffer v)" if "x \<in> set (vbuffer w)" for x
    using that by (auto simp: w_def dest: in_set_takeD in_set_dropD)
  then have "\<forall>x \<in> set (vbuffer w). slc_ok (vheap w) x \<and> ascii (line_text w x)"
    unfolding lt hw using old new by blast
  then have "v_ok w" using v(1,5) by (simp add: v_ok_def w_def)
  moreover have "v_view w = ed_key key_enter (v_view v)"
    using v(1,2,9,10) by (simp add: v_view_def view_lines_def lt ed_key_def) (simp add: w_def l take_map drop_map)
  ultimately show ?thesis using that run by blast
qed

text \<open>Deleting at the start of a line: the line above takes its text, and the lines that share no memory with the end of it keep theirs.\<close>

lemma v_join_ok:
  assumes ok: "v_ok v" and jc': "join_clear v" and col: "cursorCol v = 1" and row: "cursorRow v = int (Suc p) + 1"
  obtains v' where "v_delete room v = Ok v'" "v_ok v'" "v_view v' = ed_key key_delete (v_view v)"
proof -
  obtain r c s where v: "cursorRow v = int r + 1" "cursorCol v = int c + 1" "line_of v (cursorRow v - 1) = Ok s"
    "s = vbuffer v ! r" "r < length (vbuffer v)" "c \<le> s_len s" "slc_ok (vheap v) s" "ascii (line_text v s)"
    "view_lines v ! r = line_text v s" "v_view v = (view_lines v, r, c)" by (rule v_ok_line[OF ok])
  have ke: "key_delete \<noteq> key_enter" by code_simp
  have join: "c = 0" "r = Suc p" using v(1,2) col row by simp_all
  define l where "l = line_text v s"
  have ll: "length l = s_len s" "ascii l" using length_line_text[OF v(7)] v(8) by (simp_all add: l_def)
  define q where "q = vbuffer v ! p"
  have p: "p < length (vbuffer v)" "line_of v (cursorRow v - 2) = Ok q" using v(1,5) join by (simp_all add: line_of_def q_def)
  have q: "slc_ok (vheap v) q" "ascii (line_text v q)" using ok p(1) by (auto simp: v_ok_def q_def)
  have ls: "line_of v (1 + int p) = Ok s" "line_of v (int p) = Ok q" using v(1,3) p(2) join by simp_all
  obtain d h where a: "append_slc room q (slc_bytes (vheap v) s) (vheap v) = (d, h)" by fastforce
  note ap = append_slc[OF a q(1)]
  define w where "w = v\<lparr>vbuffer := (take r (vbuffer v))[p := d] @ drop (r + 1) (vbuffer v), vheap := h,
    cursorRow := cursorRow v - 1, cursorCol := int (s_len q) + 1\<rparr>"
  have run: "v_delete room v = Ok w"
    using v(1,2) join ls by (simp add: v_delete_def a w_def Let_def nat_add_distrib)
  have same: "slc_bytes h (vbuffer v ! j) = slc_bytes (vheap v) (vbuffer v ! j) \<and> slc_ok h (vbuffer v ! j)"
    if j: "j < length (vbuffer v)" "j \<noteq> p" "j \<noteq> r" for j
  proof -
    have "slc_ok (vheap v) (vbuffer v ! j)" using ok j(1) by (auto simp: v_ok_def)
    moreover have "clear_of (vheap v) q (length (slc_bytes (vheap v) s)) (vbuffer v ! j)"
      using jc' j v(1,4,7) join by (auto simp: join_clear_def q_def Let_def nat_add_distrib)
    ultimately show ?thesis using ap(4,5) by blast
  qed
  have txt_d: "line_text w d = line_text v q @ l"
    using ap(1) by (simp add: line_text_def w_def l_def bytes_string_def)
  have at: "line_text w (vbuffer v ! j) = line_text v (vbuffer v ! j)"
    if "j < length (vbuffer v)" "j \<noteq> p" "j \<noteq> r" for j
    using same[OF that] by (simp add: line_text_def w_def)
  have e: "vbuffer w = take p (vbuffer v) @ d # drop (r + 1) (vbuffer v)"
    using join v(5) by (simp add: w_def take_Suc_conv_app_nth list_update_append)
  have old: "map (line_text w) (take p (vbuffer v)) = take p (view_lines v)"
    "map (line_text w) (drop (r + 1) (vbuffer v)) = drop (r + 1) (view_lines v)"
    using v(5) join at by (auto simp: view_lines_def intro!: nth_equalityI)
  have view: "view_lines w = take p (view_lines v) @ (line_text v q @ l) # drop (r + 1) (view_lines v)"
    unfolding view_lines_def[of w] e by (simp only: map_append list.map old txt_d)
  have in_w: "slc_ok h x \<and> ascii (line_text w x)" if x: "x \<in> set (vbuffer w)" for x
  proof -
    have "x = d \<or> (\<exists>j. x = vbuffer v ! j \<and> j < length (vbuffer v) \<and> j \<noteq> p \<and> j \<noteq> r)"
      using x v(5) join unfolding e by (auto simp: in_set_conv_nth)
    then show ?thesis using ap(2) txt_d q(2) ll(2) same at ok by (fastforce simp: v_ok_def)
  qed
  have "v_ok w"
    using in_w v(1,5) p(1) join ap(3) length_slc[OF v(7)] by (auto simp: v_ok_def w_def e nth_append)
  moreover have "v_view w = ed_key key_delete (v_view v)"
    using view v(1,9,10) join ke p(1) length_line_text[OF q(1)]
    by (simp add: ed_key_def v_view_def w_def view_lines_def q_def flip: l_def)
  ultimately show ?thesis using that run by blast
qed

lemma v_delete_ok:
  assumes ok: "v_ok v" and jc: "1 < cursorRow v \<Longrightarrow> cursorCol v = 1 \<Longrightarrow> join_clear v"
  obtains v' where "v_delete room v = Ok v'" "v_ok v'" "v_view v' = ed_key key_delete (v_view v)"
proof -
  obtain r c s where v: "cursorRow v = int r + 1" "cursorCol v = int c + 1" "line_of v (cursorRow v - 1) = Ok s"
    "s = vbuffer v ! r" "r < length (vbuffer v)" "c \<le> s_len s" "slc_ok (vheap v) s" "ascii (line_text v s)"
    "view_lines v ! r = line_text v s" "v_view v = (view_lines v, r, c)" by (rule v_ok_line[OF ok])
  have ke: "key_delete \<noteq> key_enter" by code_simp
  define l where "l = line_text v s"
  have ll: "length l = s_len s" "ascii l" "length (runes l) = s_len s"
    using length_line_text[OF v(7)] v(8) length_runes_ascii by (simp_all add: l_def)
  consider (char) n where "c = Suc n" | (top) "c = 0" "r = 0" | (join) p where "c = 0" "r = Suc p"
    by (cases c; cases r) auto
  then show ?thesis
  proof cases
    case char
    have rr: "string_of_runes (take n (runes l) @ drop c (runes l)) = take n l @ drop c l" by (rule runes_splice(2)[OF ll(2,2)])
    have an: "ascii (take n l @ drop c l)" and cl: "n \<le> length (take n l @ drop c l)" using ll v(6) char by simp_all
    note sv = set_line_view[OF ok v(1,5) rr an cl, of room]
    have run: "v_delete room v = Ok ((set_line room (cursorRow v - 1) (take n (runes l) @ drop c (runes l)) v)\<lparr>cursorCol := int n + 1\<rparr>)"
      using v(2,6) ll(3) char by (simp add: v_delete_def Let_def v(3) nat_add_distrib flip: l_def)
    show ?thesis
      by (rule that[OF run sv(1)]) (use sv(2) v(9,10) char ke in \<open>simp add: ed_key_def flip: l_def\<close>)
  next
    case top
    then have "v_delete room v = Ok v" using v(1,2,3) by (simp add: v_delete_def)
    then show ?thesis by (rule that[OF _ ok]) (use v(10) top ke in \<open>simp add: ed_key_def\<close>)
  next
    case join
    have "join_clear v" "cursorCol v = 1" "cursorRow v = int (Suc p) + 1" using jc v(1,2) join by simp_all
    then show ?thesis by (rule v_join_ok[OF ok _ _ _ that])
  qed
qed

end
