(* ===== verification/VProps.thy ===== *)
theory VProps
  imports VSpec ProgSpec
begin

text \<open>
  The properties of the editor: keys of insert mode edit a list of lines, sessions of keys, saving and opening
  again, and where an edit goes wrong: a join that writes over a line that shares its array, and the column left of
  the first.
\<close>

section \<open>One key\<close>

text \<open>
  A key of insert mode edits the lines as \<open>ed_key\<close> says, wherever the cursor is and whatever room arrays
  have, and keeps the cursor inside the text; a delete that joins two lines needs that no third line lies behind the first in its array.
\<close>

theorem v_insert_refines:
  assumes "v_ok v" "ascii key" "key \<noteq> key_escape"
    and "key = key_delete \<Longrightarrow> 1 < cursorRow v \<Longrightarrow> cursorCol v = 1 \<Longrightarrow> join_clear v"
  shows "\<exists>v'. v_insert room key v = Ok v' \<and> v_ok v' \<and> v_view v' = ed_key key (v_view v)"
proof -
  have ke: "key_enter \<noteq> key_escape" "key_delete \<noteq> key_escape" "key_delete \<noteq> key_enter" by code_simp+
  consider "key = key_enter" | "key = key_delete" | "key \<noteq> key_enter" "key \<noteq> key_delete" by blast
  then show ?thesis
  proof cases
    case 1
    then show ?thesis using v_enter_ok[OF assms(1)] ke by (metis v_insert_def)
  next
    case 2
    then show ?thesis using v_delete_ok[OF assms(1), of room] assms(4) ke by (metis v_insert_def)
  next
    case 3
    then show ?thesis using v_type_ok[OF assms(1,2) 3, of room] assms(3) by (metis v_insert_def)
  qed
qed

section \<open>Opening\<close>

lemma new_slcs_spec:
  assumes "new_slcs room ls h = (ss, h')"
  shows "map (\<lambda>s. bytes_string (slc_bytes h' s)) ss = ls \<and> (\<forall>s \<in> set ss. slc_ok h' s) \<and>
    (\<forall>t. slc_ok h t \<longrightarrow> slc_ok h' t \<and> slc_bytes h' t = slc_bytes h t) \<and>
    distinct (map s_arr ss) \<and> (\<forall>s \<in> set ss. length h \<le> s_arr s)"
  using assms
proof (induction ls arbitrary: ss h)
  case Nil
  then show ?case by simp
next
  case (Cons l ls)
  obtain s h1 where n: "new_slc (room 0) (string_bytes l) h = (s, h1)" by fastforce
  obtain ts where r: "new_slcs room ls h1 = (ts, h')" "ss = s # ts" using Cons.prems by (auto simp: n split: prod.splits)
  note IH = Cons.IH[OF r(1)] and s = new_slc[OF n]
  have a: "s_arr s = length h" "length h1 = Suc (length h)" using n by (auto simp: new_slc_def)
  show ?case using IH s a r(2) by (auto simp: Suc_le_eq dest: less_imp_le)
qed

lemma open_text_facts:
  "view_lines (open_text room bs ws) = split_on CHR 0x0A (bytes_string bs)"
  "\<forall>s \<in> set (vbuffer (open_text room bs ws)). slc_ok (vheap (open_text room bs ws)) s"
  "distinct (map s_arr (vbuffer (open_text room bs ws)))"
  "cursorRow (open_text room bs ws) = 1" "cursorCol (open_text room bs ws) = 1" "vmode (open_text room bs ws) = 0"
  "length (vbuffer (open_text room bs ws)) = length (split_on CHR 0x0A (bytes_string bs))"
proof -
  obtain ss h where n: "new_slcs room (split_on CHR 0x0A (bytes_string bs)) [] = (ss, h)" by fastforce
  note sp = new_slcs_spec[OF n]
  show v: "view_lines (open_text room bs ws) = split_on CHR 0x0A (bytes_string bs)"
    using sp by (simp add: open_text_def n view_lines_def line_text_def[abs_def])
  show "\<forall>s \<in> set (vbuffer (open_text room bs ws)). slc_ok (vheap (open_text room bs ws)) s"
    "distinct (map s_arr (vbuffer (open_text room bs ws)))"
    "cursorRow (open_text room bs ws) = 1" "cursorCol (open_text room bs ws) = 1" "vmode (open_text room bs ws) = 0"
    using sp by (simp_all add: open_text_def n)
  show "length (vbuffer (open_text room bs ws)) = length (split_on CHR 0x0A (bytes_string bs))"
    using arg_cong[OF v, of length] by (simp add: view_lines_def)
qed

lemma split_on_set: "t \<in> set (split_on c s) \<Longrightarrow> set t \<subseteq> set s"
proof (induction s arbitrary: t)
  case (Cons x xs)
  obtain h ts where sp: "split_on c xs = h # ts" by (cases "split_on c xs") simp_all
  have "set u \<subseteq> set xs" if "u \<in> set (h # ts)" for u using Cons.IH[of u] that sp by simp
  then show ?case using Cons.prems sp by (cases "x = c") (auto, blast+)
qed simp

lemma open_text_ok:
  assumes "ascii (bytes_string bs)"
  shows "v_ok (open_text room bs ws)"
proof -
  let ?v = "open_text room bs ws"
  have "\<forall>s \<in> set (vbuffer ?v). ascii (line_text ?v s)"
  proof
    fix s assume "s \<in> set (vbuffer ?v)"
    then have "line_text ?v s \<in> set (split_on CHR 0x0A (bytes_string bs))"
      using open_text_facts(1)[of room bs ws] by (metis image_eqI list.set_map view_lines_def)
    then show "ascii (line_text ?v s)" using split_on_set assms by (fastforce simp: ascii_def)
  qed
  moreover have "vbuffer ?v \<noteq> []" using open_text_facts(7)[of room bs ws] by auto
  ultimately show ?thesis
    using open_text_facts(2,4,5)[of room bs ws] by (auto simp: v_ok_def Suc_le_eq)
qed

section \<open>Sessions of keys\<close>

fun v_edits :: "(nat \<Rightarrow> nat \<Rightarrow> nat) \<Rightarrow> string list \<Rightarrow> vedit \<Rightarrow> vedit outcome" where
  "v_edits room [] v = Ok v"
| "v_edits room (key # keys) v = bindO (v_edit room key v) (v_edits room keys)"

lemma v_edits_append: "v_edits room (ks @ ls) v = bindO (v_edits room ks v) (v_edits room ls)"
  proof (induction ks arbitrary: v)
  case (Cons k ks)
  then show ?case by (cases "v_edit room k v") simp_all
qed simp

text \<open>What a key can do to the editor.\<close>

lemma v_insert_shapes:
  assumes "v_insert room key v = Ok v'" "key \<noteq> key_escape"
  obtains (enter) "key = key_enter" "v_enter v = Ok v'"
    | (same) "v' = v"
    | (line) i rs c where "v' = (set_line room i rs v)\<lparr>cursorCol := c\<rparr>"
    | (join) prev curr r d h row col where "append_slc room prev (slc_bytes (vheap v) curr) (vheap v) = (d, h)"
        "line_of v (cursorRow v - 1) = Ok curr" "line_of v (cursorRow v - 2) = Ok prev" "r = nat (cursorRow v - 1)" "1 < cursorRow v"
        "row = cursorRow v - 1"
        "v' = v\<lparr>vbuffer := (take r (vbuffer v))[r - 1 := d] @ drop (r + 1) (vbuffer v), vheap := h, cursorRow := row, cursorCol := col\<rparr>"
proof -
  consider "key = key_enter" | "key = key_delete" "key \<noteq> key_enter" | "key \<noteq> key_enter" "key \<noteq> key_delete" by blast
  then show thesis
  proof cases
    case 1
    then show thesis using enter assms by (simp add: v_insert_def)
  next
    case 2
    then have run: "v_delete room v = Ok v'" using assms by (simp add: v_insert_def)
    then obtain curr where curr: "line_of v (cursorRow v - 1) = Ok curr" by (auto simp: v_delete_def bindO_Ok_iff)
    consider "1 < cursorCol v" | "\<not> 1 < cursorCol v" "1 < cursorRow v" | "\<not> 1 < cursorCol v" "\<not> 1 < cursorRow v" by blast
    then show thesis
    proof cases
      case 1
      then show thesis using run curr line by (auto simp: v_delete_def Let_def split: if_splits)
    next
      case 2
      then obtain prev where prev: "line_of v (cursorRow v - 2) = Ok prev"
        using run curr by (auto simp: v_delete_def bindO_Ok_iff)
      obtain d h where a: "append_slc room prev (slc_bytes (vheap v) curr) (vheap v) = (d, h)" by fastforce
      show thesis using join[OF a curr prev refl 2(2) refl] run curr prev a 2 by (auto simp: v_delete_def Let_def)
    next
      case 3
      then show thesis using run curr same by (simp add: v_delete_def)
    qed
  next
    case 3
    then have run: "v_type room key v = Ok v'" using assms by (simp add: v_insert_def)
    then show thesis using line unfolding v_type_def Let_def bindO_Ok_iff by (auto split: if_splits)
  qed
qed

lemma set_line_mode [simp]: "vmode (set_line room i rs v) = vmode v"
  by (simp add: set_line_def split: prod.split)

lemma v_insert_mode:
  assumes "v_insert room key v = Ok v'" "key \<noteq> key_escape"
  shows "vmode v' = vmode v"
  using assms by (cases rule: v_insert_shapes) (auto simp: v_enter_def bindO_Ok_iff Let_def split: if_splits)

subsection \<open>Lines that share an array\<close>

text \<open>
  Enter leaves two lines in one array. In insert mode the lines that share one are always stacked: they lie at or above the cursor, in
  the array in the order they have in the text. So the line a delete appends to is followed, in its array, by
  nothing but the line that is appended.
\<close>

definition stacked :: "vedit \<Rightarrow> bool" where
  "stacked v \<longleftrightarrow> (\<forall>s \<in> set (vbuffer v). s_arr s < length (vheap v)) \<and>
     (\<forall>i j. i < j \<longrightarrow> j < length (vbuffer v) \<longrightarrow> s_arr (vbuffer v ! i) = s_arr (vbuffer v ! j) \<longrightarrow>
        int j < cursorRow v \<and> s_off (vbuffer v ! i) + s_len (vbuffer v ! i) \<le> s_off (vbuffer v ! j))"

lemma stackedD:
  assumes "stacked v" "i < j" "j < length (vbuffer v)" "s_arr (vbuffer v ! i) = s_arr (vbuffer v ! j)"
  shows "int j < cursorRow v" "s_off (vbuffer v ! i) + s_len (vbuffer v ! i) \<le> s_off (vbuffer v ! j)"
  using assms unfolding stacked_def by blast+

lemma stacked_bound: "stacked v \<Longrightarrow> i < length (vbuffer v) \<Longrightarrow> s_arr (vbuffer v ! i) < length (vheap v)"
  by (simp add: stacked_def)

text \<open>Lines that share no array at all are stacked, wherever the cursor is.\<close>

definition apart :: "vedit \<Rightarrow> bool" where
  "apart v \<longleftrightarrow> distinct (map s_arr (vbuffer v)) \<and> (\<forall>s \<in> set (vbuffer v). s_arr s < length (vheap v))"

lemma apart_stacked: "apart v \<Longrightarrow> stacked v"
proof -
  assume a: "apart v"
  have "s_arr (vbuffer v ! i) \<noteq> s_arr (vbuffer v ! j)" if "i < j" "j < length (vbuffer v)" for i j
    using a that nth_eq_iff_index_eq[of "map s_arr (vbuffer v)" i j] by (simp add: apart_def)
  then show ?thesis using a unfolding stacked_def apart_def by blast
qed

lemma stacked_join_clear:
  assumes st: "stacked v" and row: "1 < cursorRow v" "cursorRow v \<le> int (length (vbuffer v))"
  shows "join_clear v"
proof -
  obtain p where p: "cursorRow v = int p + 2" "p + 1 < length (vbuffer v)"
    using row by (intro that[of "nat (cursorRow v - 2)"]) auto
  have "clear_of (vheap v) (vbuffer v ! p) n (vbuffer v ! j)" if j: "j < length (vbuffer v)" "j \<noteq> p" "j \<noteq> p + 1" for j n
  proof (cases "s_arr (vbuffer v ! j) = s_arr (vbuffer v ! p)")
    case True
    have "j < p"
    proof (rule ccontr)
      assume "\<not> j < p"
      then have "p < j" using j(2) by simp
      from stackedD(1)[OF st this j(1)] True show False using p(1) j \<open>p < j\<close> by simp
    qed
    from stackedD(2)[OF st this _ True] show ?thesis using p(2) by (simp add: clear_of_def)
  qed (simp add: clear_of_def)
  moreover have "nat (cursorRow v - 1) = p + 1" using p(1) by simp
  ultimately show ?thesis by (simp add: join_clear_def)
qed

subsection \<open>Every key keeps the lines stacked\<close>

lemma new_slc_arr: "new_slc room bs h = (s, h') \<Longrightarrow> s_arr s = length h \<and> length h' = Suc (length h)"
  by (auto simp: new_slc_def)

lemma stacked_line:
  assumes st: "stacked v"
  shows "stacked ((set_line room i rs v)\<lparr>cursorCol := c\<rparr>)"
proof -
  obtain s h where n: "new_slc (room 0) (string_bytes (string_of_runes rs)) (vheap v) = (s, h)" by fastforce
  note a = new_slc_arr[OF n]
  let ?v = "(set_line room i rs v)\<lparr>cursorCol := c\<rparr>"
  have e: "vbuffer ?v = (vbuffer v)[nat i := s]" "vheap ?v = h" "cursorRow ?v = cursorRow v" by (simp_all add: set_line_def n)
  have b: "s_arr x < length (vheap v)" if "x \<in> set (vbuffer v)" for x using st that by (simp add: stacked_def)
  have "s_arr x < length h" if "x \<in> set (vbuffer ?v)" for x
  proof -
    have "x = s \<or> x \<in> set (vbuffer v)" using that unfolding e using set_update_subset_insert by fastforce
    then show ?thesis using a b[of x] by auto
  qed
  moreover have "int k < cursorRow v \<and> s_off (vbuffer ?v ! j) + s_len (vbuffer ?v ! j) \<le> s_off (vbuffer ?v ! k)"
    if jk: "j < k" "k < length (vbuffer ?v)" "s_arr (vbuffer ?v ! j) = s_arr (vbuffer ?v ! k)" for j k
  proof -
    have k: "k < length (vbuffer v)" using jk(2) unfolding e by simp
    have ne: "s_arr (vbuffer v ! j) \<noteq> length (vheap v)" "s_arr (vbuffer v ! k) \<noteq> length (vheap v)"
      using stacked_bound[OF st, of j] stacked_bound[OF st, of k] jk(1) k by auto
    have "j \<noteq> nat i" "k \<noteq> nat i" using jk(1,3) k ne a unfolding e by auto
    then have "vbuffer ?v ! j = vbuffer v ! j" "vbuffer ?v ! k = vbuffer v ! k" unfolding e by simp_all
    then show ?thesis using stackedD[OF st jk(1) k] jk(3) by simp
  qed
  ultimately show ?thesis unfolding stacked_def e by blast
qed

lemma stacked_enter:
  assumes st: "stacked v" and run: "v_enter v = Ok v'"
  shows "stacked v'"
proof -
  define r c where "r = nat (cursorRow v - 1)" and "c = nat (cursorCol v - 1)"
  obtain s where s: "line_of v (cursorRow v - 1) = Ok s" "c \<le> s_len s"
    and v': "v' = v\<lparr>vbuffer := take r (vbuffer v) @ s\<lparr>s_len := c\<rparr> # s\<lparr>s_off := s_off s + c, s_len := s_len s - c\<rparr> # drop (r + 1) (vbuffer v),
      cursorRow := cursorRow v + 1, cursorCol := 1\<rparr>"
    using run by (auto simp: v_enter_def bindO_Ok_iff Let_def r_def c_def split: if_splits)
  have r: "r < length (vbuffer v)" "s = vbuffer v ! r" "cursorRow v = int r + 1"
    using s(1) by (auto simp: line_of_def r_def split: if_splits)
  define buf2 where "buf2 = vbuffer v'"
  have len: "length buf2 = Suc (length (vbuffer v))" using r by (simp add: buf2_def v')
  have at: "x < r \<Longrightarrow> buf2 ! x = vbuffer v ! x" "buf2 ! r = s\<lparr>s_len := c\<rparr>" "buf2 ! Suc r = s\<lparr>s_off := s_off s + c, s_len := s_len s - c\<rparr>"
    "Suc r < x \<Longrightarrow> x < length buf2 \<Longrightarrow> buf2 ! x = vbuffer v ! (x - 1)" for x
    using r by (auto simp: buf2_def v' nth_append nth_Cons split: nat.split intro!: arg_cong[of _ _ "(!) (vbuffer v)"])
  have "int j < cursorRow v + 1 \<and> s_off (buf2 ! i) + s_len (buf2 ! i) \<le> s_off (buf2 ! j)"
    if ij: "i < j" "j < length buf2" "s_arr (buf2 ! i) = s_arr (buf2 ! j)" for i j
  proof -
    note old = stackedD[OF st]
    have far: False if "Suc r < j"
    proof -
      define i' where "i' = (if i \<le> r then i else i - 1)"
      have "s_arr (vbuffer v ! i') = s_arr (buf2 ! i)"
        using at(1)[of i] at(2,3) at(4)[of i] ij(1,2) r(2) by (cases i r rule: linorder_cases; cases "i = Suc r") (auto simp: i'_def)
      moreover have "i' < j - 1" "j - 1 < length (vbuffer v)" using that ij(1,2) len by (auto simp: i'_def)
      ultimately show False using old(1)[of i' "j - 1"] at(4)[OF that ij(2)] ij(3) that r(3) by simp
    qed
    have "j \<le> Suc r" using far by (rule ccontr) simp
    then consider "j < r" | "j = r" | "j = Suc r" "i < r" | "j = Suc r" "i = r" using ij(1) by linarith
    then show ?thesis
    proof cases
      case 1
      then show ?thesis using old[of i j] ij r at(1)[of i] at(1)[of j] by simp
    next
      case 2
      then show ?thesis using old[of i r] ij r at(1)[of i] at(2) by simp
    next
      case 3
      then show ?thesis using old[of i r] ij r at(1)[of i] at(3) by simp
    next
      case 4
      then show ?thesis using r at(2,3) by simp
    qed
  qed
  moreover have "\<forall>x \<in> set buf2. s_arr x < length (vheap v)"
    using st r unfolding stacked_def buf2_def v' by (auto dest: in_set_takeD in_set_dropD)
  moreover have "vheap v' = vheap v" "cursorRow v' = cursorRow v + 1" by (simp_all add: v')
  ultimately show ?thesis unfolding stacked_def buf2_def by simp
qed

lemma append_slc_arr:
  assumes "append_slc room s bs h = (d, h')"
  shows "s_arr d = s_arr s \<and> s_off d = s_off s \<and> length h' = length h \<or> s_arr d = length h \<and> length h' = Suc (length h)"
  using assms new_slc_arr by (auto simp: append_slc_def split: if_splits)

lemma stacked_join:
  assumes st: "stacked v" and a: "append_slc room prev bs (vheap v) = (d, h)" and row: "cursorRow v = int p + 2" "p + 1 < length (vbuffer v)"
    and prev: "prev = vbuffer v ! p"
  shows "stacked (v\<lparr>vbuffer := (take (p + 1) (vbuffer v))[p := d] @ drop (p + 2) (vbuffer v), vheap := h, cursorRow := cursorRow v - 1, cursorCol := c\<rparr>)"
proof -
  define buf2 where "buf2 = (take (p + 1) (vbuffer v))[p := d] @ drop (p + 2) (vbuffer v)"
  have len: "length buf2 = length (vbuffer v) - 1" using row(2) by (simp add: buf2_def)
  have at: "x < p \<Longrightarrow> buf2 ! x = vbuffer v ! x" "buf2 ! p = d" "p < x \<Longrightarrow> x < length buf2 \<Longrightarrow> buf2 ! x = vbuffer v ! (x + 1)" for x
    using row(2) by (auto simp: buf2_def nth_append min_def)
  note d = append_slc_arr[OF a]
  note old = stackedD[OF st] and b = stacked_bound[OF st]
  have "int j < cursorRow v - 1 \<and> s_off (buf2 ! i) + s_len (buf2 ! i) \<le> s_off (buf2 ! j)"
    if ij: "i < j" "j < length buf2" "s_arr (buf2 ! i) = s_arr (buf2 ! j)" for i j
  proof -
    have jl: "j + 1 < length (vbuffer v)" using ij(2) len by simp
    have far: False if j: "p < j"
    proof -
      define i' where "i' = (if i \<le> p then i else i + 1)"
      have i': "i' < j + 1" using ij(1) by (simp add: i'_def)
      have "s_arr (vbuffer v ! i') = s_arr (vbuffer v ! (j + 1))"
        using ij at(1)[of i] at(2) at(3)[of i] at(3)[OF j ij(2)] d prev b[OF jl] by (cases i p rule: linorder_cases) (auto simp: i'_def)
      from old(1)[OF i' jl this] show False using j row(1) by simp
    qed
    then consider "j < p" | "j = p" using linorder_neqE_nat by blast
    then show ?thesis
    proof cases
      case 1
      then show ?thesis using old[of i j] ij at(1)[of i] at(1)[of j] row jl by simp
    next
      case 2
      have i: "i < p" using ij(1) 2 by simp
      have "s_arr (vbuffer v ! i) \<noteq> length (vheap v)" using b[of i] i row(2) by simp
      then show ?thesis using old[of i p] i ij(3) at(1)[OF i] at(2) 2 d prev row by auto
    qed
  qed
  moreover have "s_arr x < length h" if "x \<in> set buf2" for x
  proof -
    have "x = d \<or> x \<in> set (vbuffer v)"
      using that by (auto simp: buf2_def dest!: set_update_subset_insert[THEN subsetD] dest: in_set_takeD in_set_dropD)
    then show ?thesis
    proof
      assume "x = d"
      then show ?thesis using d prev b[of p] row(2) by auto
    next
      assume "x \<in> set (vbuffer v)"
      then have "s_arr x < length (vheap v)" using st by (simp add: stacked_def)
      then show ?thesis using d by auto
    qed
  qed
  ultimately show ?thesis unfolding stacked_def buf2_def by simp
qed

lemma v_insert_stacked:
  assumes st: "stacked v" and run: "v_insert room key v = Ok v'" "key \<noteq> key_escape"
  shows "stacked v'"
  using run
proof (cases rule: v_insert_shapes)
  case (join prev curr r d h row col)
  obtain p where p: "cursorRow v = int p + 2" "p + 1 < length (vbuffer v)"
    using join(2,5) by (intro that[of "nat (cursorRow v - 2)"]) (auto simp: line_of_def split: if_splits)
  have "prev = vbuffer v ! p" "r = p + 1" using join(3,4) p by (auto simp: line_of_def split: if_splits)
  then show ?thesis using stacked_join[OF st join(1) p, of col] join(6,7) by (simp add: numeral_2_eq_2)
qed (use st stacked_enter stacked_line in auto)

text \<open>A session of keys of insert mode, without the one that leaves it. Some keys are ignored.\<close>

definition session_key :: "string \<Rightarrow> bool" where
  "session_key key \<longleftrightarrow> ascii key \<and> key \<noteq> key_escape"

definition edited :: "string list \<Rightarrow> text_at \<Rightarrow> text_at" where
  "edited keys t = fold ed_key (filter (\<lambda>key. key \<notin> v_ignored) keys) t"

lemma v_edits_refine:
  assumes "\<forall>key \<in> set keys. session_key key" "v_ok v" "vmode v = 1" "stacked v"
  shows "\<exists>v'. v_edits room keys v = Ok v' \<and> v_ok v' \<and> stacked v' \<and> vmode v' = 1 \<and> v_view v' = edited keys (v_view v)"
  using assms
proof (induction keys arbitrary: v)
  case (Cons key keys)
  have key: "ascii key" "key \<noteq> key_escape" using Cons.prems(1) by (simp_all add: session_key_def)
  show ?case
  proof (cases "key \<in> v_ignored")
    case True
    then show ?thesis using Cons by (simp add: v_edit_def edited_def)
  next
    case False
    have "key = key_delete \<Longrightarrow> 1 < cursorRow v \<Longrightarrow> cursorCol v = 1 \<Longrightarrow> join_clear v"
      using Cons.prems(2,4) stacked_join_clear[of v] by (simp add: v_ok_def)
    from v_insert_refines[OF Cons.prems(2) key this, of room]
    obtain v1 where v1: "v_insert room key v = Ok v1" "v_ok v1" "v_view v1 = ed_key key (v_view v)" by blast
    have "v_edit room key v = Ok v1" using v1(1) False Cons.prems(3) by (simp add: v_edit_def)
    moreover have "vmode v1 = 1" using v_insert_mode[OF v1(1) key(2)] Cons.prems(3) by simp
    moreover have "stacked v1" by (rule v_insert_stacked[OF Cons.prems(4) v1(1) key(2)])
    ultimately show ?thesis using Cons.IH[of v1] Cons.prems(1) v1 False by (simp add: edited_def)
  qed
qed (simp add: edited_def)

text \<open>
  C25. Typing is editing a list of lines. A session in insert mode over any ASCII keys but the escape, splitting and joining lines in
  any order, ends in the text and at the cursor of the abstract editor, however much room the arrays behind the lines are
  given, if it starts on lines no two of which share memory: on those of a file that was just opened, with \<open>i\<close>
  as the first key, or on those of any state of insert mode. No key panics, and no join writes into another line, although Enter leaves
  two lines in one array.
\<close>

theorem v_session_refines:
  assumes "\<forall>key \<in> set keys. session_key key"
  shows "(v_ok v \<and> vmode v = 1 \<and> apart v \<longrightarrow>
      (\<exists>v'. v_edits room keys v = Ok v' \<and> v_ok v' \<and> v_view v' = edited keys (v_view v))) \<and>
    (ascii (bytes_string bs) \<longrightarrow>
      (\<exists>v'. v_edits room (''i'' # keys) (open_text room bs ws) = Ok v' \<and> v_ok v' \<and>
        v_view v' = edited keys (split_on CHR 0x0A (bytes_string bs), 0, 0)))"
proof -
  let ?v = "open_text room bs ws"
  let ?w = "?v\<lparr>vmode := 1, didWrite := False\<rparr>"
  note f = open_text_facts[of room bs ws]
  have i: "v_edit room ''i'' ?v = Ok ?w" using f(6) by (simp add: v_edit_def v_normal_def key_escape_def)
  have same: "line_text ?w = line_text ?v" by (simp add: line_text_def fun_eq_iff)
  have ok: "v_ok ?w" if "ascii (bytes_string bs)" using open_text_ok[OF that, of room ws] by (simp add: v_ok_def same)
  have ap: "apart ?w" using f(2,3) by (auto simp: apart_def slc_ok_def)
  have "v_view ?w = (split_on CHR 0x0A (bytes_string bs), 0, 0)"
    using f(1,4,5) by (simp add: v_view_def view_lines_def same)
  then show ?thesis
    using v_edits_refine[of keys ?w room] v_edits_refine[of keys v room] assms ok apart_stacked ap by (auto simp: i)
qed

theorem v_session_refines_witness:
  "\<exists>v. v_edits (\<lambda>_ n. n) [''i'', ''x'', key_enter, ''y'', key_left, key_delete, key_delete, key_enter, key_enter, key_delete]
      (open_text (\<lambda>_ n. n) (string_bytes ''ab'') (80, 24)) = Ok v \<and> v_view v = ([''x'', ''ab''], 1, 0)"
proof -
  let ?keys = "[''x'', key_enter, ''y'', key_left, key_delete, key_delete, key_enter, key_enter, key_delete]"
  have "edited ?keys ([''ab''], 0, 0) = ([''x'', ''ab''], 1, 0)" by code_simp
  moreover have "\<forall>key \<in> set ?keys. session_key key" "split_on CHR 0x0A ''ab'' = [''ab'']" "ascii ''ab''" by code_simp+
  ultimately show ?thesis
    using v_session_refines[of ?keys undefined "\<lambda>_ n. n" "string_bytes ''ab''" "(80, 24)"] by auto
qed

section \<open>Joining lines that share an array\<close>

text \<open>
  Delete at the start of a line appends it to the line before in place. Where a third line lies behind that one in the
  same array, as after Enter, the third line changes as well: its first bytes become the last ones of the joined line.
\<close>

theorem v_join_overwrites:
  assumes ok: "v_ok v" and at: "cursorRow v = int p + 2" "cursorCol v = 1"
    and j: "j < length (vbuffer v)" "j \<noteq> p" "j \<noteq> p + 1" "s_arr (vbuffer v ! j) = s_arr (vbuffer v ! p)"
    and d: "s_off (vbuffer v ! j) = s_off (vbuffer v ! p) + s_len (vbuffer v ! p) + d" "d \<le> s_len (vbuffer v ! (p + 1))"
      "s_len (vbuffer v ! (p + 1)) \<le> d + s_len (vbuffer v ! j)"
  shows "\<exists>v'. v_delete room v = Ok v' \<and> view_lines v' ! p = view_lines v ! p @ view_lines v ! (p + 1) \<and>
    view_lines v' ! (if j < p then j else j - 1) =
      drop d (view_lines v ! (p + 1)) @ drop (length (view_lines v ! (p + 1)) - d) (view_lines v ! j)"
proof -
  define prev curr other where "prev = vbuffer v ! p" and "curr = vbuffer v ! (p + 1)" and "other = vbuffer v ! j"
  have p: "p + 1 < length (vbuffer v)" using ok at by (simp add: v_ok_def)
  have lines: "line_of v (1 + int p) = Ok curr" "line_of v (int p) = Ok prev"
    using p by (simp_all add: line_of_def prev_def curr_def nat_add_distrib)
  have sok: "slc_ok (vheap v) prev" "slc_ok (vheap v) curr" "slc_ok (vheap v) other"
    using ok p j(1) by (simp_all add: v_ok_def prev_def curr_def other_def)
  define bs where "bs = slc_bytes (vheap v) curr"
  define lo where "lo = s_off prev + s_len prev"
  define xs where "xs = vheap v ! s_arr prev"
  have len: "length bs = s_len curr" using sok(2) by (simp add: bs_def)
  have o: "s_arr other = s_arr prev" "s_off other = lo + d" "d \<le> length bs" "length bs \<le> d + s_len other"
    using j(4) d len by (simp_all add: prev_def curr_def other_def lo_def)
  have fit: "lo + length bs \<le> length xs" using sok(3) o by (simp add: slc_ok_def xs_def)
  have a: "append_slc room prev bs (vheap v) = (prev\<lparr>s_len := s_len prev + length bs\<rparr>, (vheap v)[s_arr prev := put_at lo bs xs])"
    using fit by (simp add: append_slc_def lo_def xs_def)
  define w where "w = v\<lparr>vbuffer := (take (p + 1) (vbuffer v))[p := prev\<lparr>s_len := s_len prev + length bs\<rparr>] @ drop (p + 2) (vbuffer v),
    vheap := (vheap v)[s_arr prev := put_at lo bs xs], cursorRow := cursorRow v - 1, cursorCol := int (s_len prev) + 1\<rparr>"
  have run: "v_delete room v = Ok w"
    using at by (simp add: v_delete_def lines Let_def a w_def nat_add_distrib flip: bs_def)
  note ap = append_slc(1)[OF a sok(1)]
  have first: "view_lines w ! p = view_lines v ! p @ view_lines v ! (p + 1)"
    using p ap by (simp add: view_lines_def line_text_def w_def nth_append bytes_string_def bs_def prev_def curr_def)
  have "take (s_len other) (drop (lo + d) (put_at lo bs xs)) = drop d bs @ take (s_len other - (length bs - d)) (drop (lo + length bs) xs)"
    using fit o(3,4) by (simp add: put_at_def)
  moreover have "drop (length bs - d) (take (s_len other) (drop (lo + d) xs)) = take (s_len other - (length bs - d)) (drop (lo + length bs) xs)"
    using o(3) by (simp add: drop_take add.commute)
  ultimately have over: "slc_bytes (vheap w) other = drop d bs @ drop (length bs - d) (slc_bytes (vheap v) other)"
    using o(1,2) sok(1) by (simp add: slc_bytes_def w_def xs_def slc_ok_def)
  have at_j: "vbuffer w ! (if j < p then j else j - 1) = other"
    using j p by (auto simp: w_def nth_append other_def)
  have lj: "(if j < p then j else j - 1) < length (vbuffer w)" using j p by (auto simp: w_def)
  have "view_lines w ! (if j < p then j else j - 1) = bytes_string (slc_bytes (vheap w) other)"
    using at_j lj by (simp add: view_lines_def line_text_def)
  moreover have "view_lines v ! (p + 1) = bytes_string bs" "view_lines v ! j = bytes_string (slc_bytes (vheap v) other)"
    using p j(1) by (simp_all add: view_lines_def line_text_def bs_def curr_def other_def)
  ultimately have "view_lines w ! (if j < p then j else j - 1) =
      drop d (view_lines v ! (p + 1)) @ drop (length (view_lines v ! (p + 1)) - d) (view_lines v ! j)"
    by (simp add: over bytes_string_def drop_map)
  with run first show ?thesis by blast
qed

text \<open>An editor reached by keys: \<open>abcdef\<close> is split into \<open>ab\<close>, \<open>cd\<close> and \<open>ef\<close>, and \<open>x\<close> typed before \<open>cd\<close>.\<close>

definition demo_keys :: "string list" where
  "demo_keys = [''l'', ''l'', ''i'', key_enter, key_escape, ''l'', ''l'', ''i'', key_enter, key_escape, ''k'', ''i'', ''x'',
     key_escape, ''h'', ''i'']"

definition demo_split :: vedit where
  "demo_split = (case v_edits (\<lambda>_ n. n) demo_keys (open_text (\<lambda>_ n. n) (string_bytes ''abcdef'') (80, 24)) of
     Ok v \<Rightarrow> v | _ \<Rightarrow> open_text (\<lambda>_ n. n) [] (80, 24))"

lemma demo_split_value:
  "vbuffer demo_split = [\<lparr>s_arr = 0, s_off = 0, s_len = 2\<rparr>, \<lparr>s_arr = 1, s_off = 0, s_len = 3\<rparr>, \<lparr>s_arr = 0, s_off = 4, s_len = 2\<rparr>]"
  "vheap demo_split = [string_bytes ''abcdef'', string_bytes ''xcd'']"
  "cursorRow demo_split = 2" "cursorCol demo_split = 1" "vmode demo_split = 1"
  by code_simp+

lemma demo_split_lines: "view_lines demo_split = [''ab'', ''xcd'', ''ef'']" "v_ok demo_split"
  by code_simp+

theorem v_join_overwrites_witness:
  "\<exists>v'. v_delete (\<lambda>_ n. n) demo_split = Ok v' \<and> view_lines v' ! 0 = ''abxcd'' \<and> view_lines v' ! 1 = ''df''"
  using v_join_overwrites[of demo_split 0 2 2 "\<lambda>_ n. n"] by (simp add: demo_split_value demo_split_lines)

theorem v_insert_refines_witness:
  "\<exists>v'. v_insert (\<lambda>_ n. n) ''z'' demo_split = Ok v' \<and> v_ok v' \<and> v_view v' = ([''ab'', ''zxcd'', ''ef''], 1, 1)"
proof -
  have v: "v_view demo_split = ([''ab'', ''xcd'', ''ef''], 1, 0)" by (simp add: v_view_def demo_split_lines demo_split_value)
  have "ed_key ''z'' ([''ab'', ''xcd'', ''ef''], 1, 0) = ([''ab'', ''zxcd'', ''ef''], 1, 1)" by code_simp
  then show ?thesis
    using v_insert_refines[of demo_split "''z''" "\<lambda>_ n. n"] v by (simp add: demo_split_lines key_escape_def key_delete_def)
qed

section \<open>Saving\<close>

lemma concat_lines: "ls \<noteq> [] \<Longrightarrow> concat (map (\<lambda>l. l @ nl) ls) = join_with CHR 0x0A ls @ nl"
  by (induction "CHR 0x0A" ls rule: join_with.induct) (simp_all add: nl_def)

lemma join_split: "join_with c (split_on c s) = s"
proof (induction s)
  case (Cons x xs)
  obtain h ts where sp: "split_on c xs = h # ts" by (cases "split_on c xs") simp_all
  then show ?case using Cons by (cases ts) auto
qed simp

text \<open>
  C26. A file opened and saved as it is grows by a newline, and the lines of what was saved open as the lines there were
  and an empty one.
\<close>

theorem v_save_reopens:
  "saved_bytes (open_text room bs ws) = bs @ [10] \<and>
   (vbuffer v \<noteq> [] \<and> (\<forall>l \<in> set (view_lines v). CHR 0x0A \<notin> set l) \<longrightarrow>
      view_lines (open_text room (saved_bytes v) ws) = view_lines v @ [[]])"
proof -
  have "saved_bytes (open_text room bs ws) = string_bytes (bytes_string bs @ nl)"
    by (simp only: saved_bytes_def open_text_facts concat_lines[OF split_on_nonempty] join_split)
  moreover have "string_bytes nl = [10]" by code_simp
  ultimately have "saved_bytes (open_text room bs ws) = bs @ [10]" by simp
  moreover have "view_lines (open_text room (saved_bytes v) ws) = view_lines v @ [[]]"
    if "vbuffer v \<noteq> []" "\<forall>l \<in> set (view_lines v). CHR 0x0A \<notin> set l"
  proof -
    have ne: "view_lines v \<noteq> []" using that(1) by (simp add: view_lines_def)
    have "concat (map (\<lambda>l. l @ nl) (view_lines v)) = join_with CHR 0x0A (view_lines v) @ CHR 0x0A # []"
      using concat_lines[OF ne] by (simp add: nl_def)
    then show ?thesis
      using split_join[OF ne that(2)] by (simp add: open_text_facts saved_bytes_def split_on_append del: string_bytes_append)
  qed
  ultimately show ?thesis by blast
qed

theorem v_save_reopens_witness:
  "view_lines (open_text (\<lambda>_ n. n) (saved_bytes demo_split) (80, 24)) = [''ab'', ''xcd'', ''ef'', []]"
  using v_save_reopens[of "\<lambda>_ n. n" "[]" "(80, 24)" demo_split] by (simp add: demo_split_lines demo_split_value(1))

text \<open>
  In insert mode the key that saves is also typed: \<open>C-s\<close> leaves its byte in the text, after the bytes that were saved. The program
  cancels its context, and so ends at the next read, exactly if the file could not be written.
\<close>

theorem v_save_key_types:
  assumes "v_ok v" "vmode v = 1" "fst (sys now proc SYS_WRITE [AString target, ABytes (saved_bytes v)] k) \<noteq> Panic"
  shows "\<exists>v' k' cancelled. v_key now room proc target key_save (v, k) = (Ok cancelled, (v', k')) \<and> v_ok v' \<and>
    v_view v' = ed_key key_save (v_view v) \<and> (cancelled \<longleftrightarrow> (\<exists>e. fst (sys now proc SYS_WRITE [AString target, ABytes (saved_bytes v)] k) = Err e))"
proof -
  let ?v = "v\<lparr>didWrite := True\<rparr>"
  have same: "line_text ?v = line_text v" by (simp add: line_text_def fun_eq_iff)
  have v: "v_ok ?v" "v_view ?v = v_view v" using assms(1) by (simp_all add: v_ok_def v_view_def view_lines_def same)
  obtain k1 c where save: "v_save now proc target (v, k) = (Ok c, (?v, k1))"
    "c \<longleftrightarrow> (\<exists>e. fst (sys now proc SYS_WRITE [AString target, ABytes (saved_bytes v)] k) = Err e)"
    using assms(3) by (cases "sys now proc SYS_WRITE [AString target, ABytes (saved_bytes v)] k"; cases "fst (sys now proc SYS_WRITE [AString target, ABytes (saved_bytes v)] k)")
      (auto simp: v_save_def Let_def)
  have k: "ascii key_save" "key_save \<noteq> key_enter" "key_save \<noteq> key_delete" "key_save \<noteq> key_escape" "key_save \<notin> v_ignored"
    by code_simp+
  obtain v' where "v_type room key_save ?v = Ok v'" "v_ok v'" "v_view v' = ed_key key_save (v_view ?v)"
    by (rule v_type_ok[OF v(1) k(1-3)])
  then show ?thesis using save k assms(2) v(2) by (simp add: v_key_def v_edit_def v_insert_def)
qed

text \<open>
  In normal mode \<open>h\<close> moves left of the first column, and the next Enter in insert mode panics.
\<close>

theorem v_left_margin_panics:
  assumes "v_ok v" "vmode v = 0" "cursorCol v = 1"
  shows "v_edits room [''h'', ''i'', key_enter] v = Panic"
proof -
  obtain r c s where v: "line_of v (cursorRow v - 1) = Ok s" by (rule v_ok_line[OF assms(1)])
  have l: "line_of (v\<lparr>cursorCol := c, vmode := m, didWrite := b\<rparr>) = line_of v" for c m b by (simp add: line_of_def fun_eq_iff)
  show ?thesis
    using assms(2,3) v by (simp add: v_edit_def v_normal_def v_insert_def v_enter_def v_ignored_def key_defs l)
qed

theorem v_left_margin_panics_witness:
  "v_edits (\<lambda>_ n. n) [''h'', ''i'', key_enter] (open_text (\<lambda>_ n. n) [] (80, 24)) = Panic"
  by (rule v_left_margin_panics) (code_simp+)

section \<open>The loop\<close>

text \<open>The editor ends or waits: it is never cut off, so what the shell asks of a program holds of it.\<close>

lemma bindO_no_Err: "m \<noteq> Err e \<Longrightarrow> (\<And>x. f x \<noteq> Err e) \<Longrightarrow> bindO m f \<noteq> Err e"
  by (cases m) auto

lemma line_of_no_Err: "line_of v i \<noteq> Err e"
  by (simp add: line_of_def)

lemma v_edit_no_Err: "v_edit room key v \<noteq> Err e"
proof -
  have "v_normal key v \<noteq> Err e"
    unfolding v_normal_def v_down_def v_up_def Let_def by (simp add: bindO_no_Err line_of_no_Err)
  moreover have "v_enter v \<noteq> Err e" unfolding v_enter_def Let_def by (intro bindO_no_Err line_of_no_Err) simp
  moreover have "v_delete room v \<noteq> Err e"
    unfolding v_delete_def Let_def by (intro bindO_no_Err line_of_no_Err) (auto simp: bindO_no_Err line_of_no_Err split: prod.split)
  moreover have "v_type room key v \<noteq> Err e" unfolding v_type_def Let_def by (intro bindO_no_Err line_of_no_Err) simp
  ultimately show ?thesis by (simp add: v_edit_def v_insert_def)
qed

lemma v_key_no_Err: "v_key now room proc target key s \<noteq> (Err e, s')"
proof -
  obtain v k where s: "s = (v, k)" by fastforce
  obtain r k1 where w: "sys now proc SYS_WRITE [AString target, ABytes (saved_bytes v)] k = (r, k1)" by fastforce
  show ?thesis
    unfolding v_key_def v_save_def s prod.case Let_def w by (cases r) (simp_all add: v_edit_no_Err split: outcome.split)
qed

lemma cancelled_ends:
  assumes "next_input proc (k, Cancelled # es) = (r, s')"
  shows "r = Ok (Ended None) \<or> r = Ok Spinning \<or> r = Panic"
  using assms by (auto simp: next_input_def Kernel_Read_def TTY_Read_def status_defs split: option.splits if_splits)

lemma v_loop_cancelled:
  "ends_or_waits (v_loop (Suc n) now room proc target v (k, Cancelled # es)) (Cancelled # es)"
proof -
  obtain r k1 es1 where rd: "next_input proc (k, Cancelled # es) = (r, (k1, es1))" by (metis prod.exhaust)
  show ?thesis
    using cancelled_ends[OF rd] next_input_cases(5)[OF rd] rd by auto
qed

lemma v_loop_ends: "length es + 2 \<le> n \<Longrightarrow> ends_or_waits (v_loop n now room proc target v (k, es)) es"
proof (induction n arbitrary: v k es)
  case (Suc n)
  have "ends_or_waits (case input of None \<Rightarrow> (Ok (Ended Success), (k1, es1))
      | Some key \<Rightarrow> (case v_key now room proc target key (v, k1) of
         (Ok cancelled, (v, k)) \<Rightarrow> v_loop n now room proc target v (k, if cancelled then Cancelled # es1 else es1)
       | (Err e, (v, k)) \<Rightarrow> (Err e, (k, es1))
       | (Panic, (v, k)) \<Rightarrow> (Panic, (k, es1)))) es"
    if rd: "next_input proc (k, es) = (Ok (Ended input), (k1, es1))" for input k1 es1
  proof -
    have l: "length es1 < length es" using next_input_cases(4)[OF rd] by blast
    obtain n' where n: "n = Suc n'" using Suc.prems by (cases n) auto
    have go: "ends_or_waits (v_loop n now room proc target w (k2, if c then Cancelled # es1 else es1)) es" for w k2 c
      using ends_or_waits_mono[OF Suc.IH[of es1 w k2], of es] ends_or_waits_mono[OF v_loop_cancelled[of n' now room proc target w k2 es1], of es]
        l Suc.prems n by simp
    show ?thesis
    proof (cases input)
      case (Some key)
      obtain c w k2 where c: "v_key now room proc target key (v, k1) = (c, (w, k2))" by (metis prod.exhaust)
      show ?thesis using go v_key_no_Err c l by (cases c) (auto simp: Some)
    qed (use l in simp)
  qed
  moreover obtain r k1 es1 where rd: "next_input proc (k, es) = (r, (k1, es1))" by (metis prod.exhaust)
  moreover have "ends_or_waits (r, (k1, es1)) es" using next_input_ends[of proc k es] by (simp add: rd)
  ultimately show ?case by (cases r; cases "case r of Ok p \<Rightarrow> p") auto
qed simp

lemma V_Run_ends: "ends_or_waits (V_Run now room proc params (k, es)) es"
  by (auto simp: V_Run_def Let_def v_loop_ends split: prod.split outcome.split simp del: v_loop.simps)

end
