(* ===== verification/BootMap.thy ===== *)
theory BootMap
  imports MapProps Reboot
begin

text \<open>
  The first boot on the map: a tree of a few small nodes always has room for one more (\<open>small_room\<close>), and each
  step of \<open>initFSTree\<close> is an update of the map (\<open>boot_step\<close>), so that the whole run leaves the standard tree.
\<close>

section \<open>A few small nodes\<close>

definition small_tree :: "tree \<Rightarrow> nat \<Rightarrow> bool" where
  "small_tree t N \<longleftrightarrow> card (dom t) \<le> N \<and>
     (\<forall>i n. t i = Some n \<longrightarrow> node_size n \<le> BLOCKSIZE \<and> (\<forall>m xs. n = Dir_node m xs \<longrightarrow> length xs = 64))"

lemma count_names:
  assumes "proper t" "t d = Some (Dir_node m xs)"
  shows "length (entries xs) \<le> 2 + card (dom t)"
proof -
  let ?es = "entries xs" and ?dot = "\<lambda>e. \<not> not_dots e"
  have dp: "dir_proper t xs" by (rule properD(2)[OF assms])
  then have u: "distinct (map Name ?es)" using distinct_entries by (auto simp: dir_proper_def)
  have "distinct (map Name (filter ?dot ?es))" using u by (rule distinct_map_filter)
  then have "length (filter ?dot ?es) = card (set (map Name (filter ?dot ?es)))" by (metis distinct_card length_map)
  also have "\<dots> \<le> card {''.'', ''..''}" by (rule card_mono) (auto simp: not_dots_def)
  finally have two: "length (filter ?dot ?es) \<le> 2" by simp
  have ch: "comp_ok (Name e) \<and> child t d (Name e) = Some (Inum e)" if "e \<in> set (filter not_dots ?es)" for e
  proof -
    have e: "Some e \<in> set xs" "not_dots e" using that by (auto simp: in_entries)
    then have "comp_ok (Name e)" using dp by (auto simp: dir_proper_def not_dots_def)
    then show ?thesis using child_entry[OF assms] e(1) by blast
  qed
  have "distinct (map Name (filter not_dots ?es))" using u by (rule distinct_map_filter)
  moreover have "inj_on Inum (set (filter not_dots ?es))"
  proof (rule inj_onI)
    fix a b assume ab: "a \<in> set (filter not_dots ?es)" "b \<in> set (filter not_dots ?es)" "Inum a = Inum b"
    then have "Name a = Name b" using ch[OF ab(1)] ch[OF ab(2)] properD(3)[OF assms(1), of "Name a" "Name b" d "Inum a" d] by simp
    then show "a = b" using ab(3) by simp
  qed
  ultimately have "length (filter not_dots ?es) = card (Inum ` set (filter not_dots ?es))"
    using distinct_card[of "filter not_dots ?es"] by (simp add: card_image distinct_map)
  also have "\<dots> \<le> card (dom t)"
  proof (rule card_mono[OF finite_tree])
    show "Inum ` set (filter not_dots ?es) \<subseteq> dom t" using ch child_node[OF assms(1)] by blast
  qed
  finally have "length (filter not_dots ?es) \<le> card (dom t)" .
  then show ?thesis using two sum_length_filter_compl[of not_dots ?es] by simp
qed

lemma full_entries: "full_dir xs \<Longrightarrow> length (entries xs) = length xs"
proof (induction xs)
  case (Cons x xs)
  then show ?case by (cases x) (auto simp: full_dir_def)
qed simp

lemma small_not_full:
  assumes "proper t" "small_tree t N" "N \<le> 60" "t d = Some (Dir_node m xs)"
  shows "\<not> full_dir xs" "length xs = 64"
proof -
  show l: "length xs = 64" using assms(2,4) by (auto simp: small_tree_def)
  have "length (entries xs) \<le> 2 + N" using count_names[OF assms(1,4)] assms(2) by (simp add: small_tree_def)
  then show "\<not> full_dir xs" using full_entries[of xs] l assms(3) by auto
qed

lemma small_room:
  assumes "kernel_inv k" "proper (tree (kfs k))" "small_tree (tree (kfs k)) N" "N \<le> 60" "n \<le> 1000"
  shows "n \<le> free_blocks (kfs k)" "can_grow n (kfs k) p"
proof -
  let ?t = "tree (kfs k)"
  note a = space_accounted[OF assms(1)]
  have "node_blocks (the (?t i)) \<le> 1" if "i \<in> dom ?t" for i
  proof -
    have "node_size (the (?t i)) \<le> BLOCKSIZE" using that assms(3) by (auto simp: small_tree_def)
    then have "nblocks (node_size (the (?t i))) \<le> 1" by (simp add: nblocks_def layout)
    then have "nblocks (node_size (the (?t i))) \<in> {0, 1}" by auto
    then show ?thesis by (auto simp: node_blocks_def needed_small)
  qed
  then have "(\<Sum>i \<in> dom ?t. node_blocks (the (?t i))) \<le> card (dom ?t) * 1" by (intro sum_bounded_above[THEN order_trans]) auto
  then have "(\<Sum>i \<in> dom ?t. node_blocks (the (?t i))) \<le> 60" using assms(3,4) by (simp add: small_tree_def)
  then show free: "n \<le> free_blocks (kfs k)" using a[THEN conjunct1] assms(5) by (simp add: layout)
  have "free_bits (ibitmap (kfs k)) \<noteq> {}"
  proof
    assume "free_bits (ibitmap (kfs k)) = {}"
    then have "{..<INODES} \<subseteq> unat ` dom ?t" using a by auto
    then have "INODES \<le> card (unat ` dom ?t)" using card_mono[of "unat ` dom ?t" "{..<INODES}"] by simp
    also have "\<dots> \<le> 60" using card_image_le[of "dom ?t" unat] assms(3,4) by (simp add: small_tree_def)
    finally show False by (simp add: layout)
  qed
  moreover have "slot_room n (kfs k) xs" if "?t p = Some (Dir_node m xs)" for m xs
    using small_not_full(1)[OF assms(2-4) that] free by (simp add: slot_room_def slot_cost_def)
  ultimately show "can_grow n (kfs k) p" by (simp add: can_grow_def)
qed

section \<open>Booting kernels\<close>

definition booting :: "kernel \<Rightarrow> path_map \<Rightarrow> nat \<Rightarrow> bool" where
  "booting k f N \<longleftrightarrow> kernel_inv k \<and> proper (tree (kfs k)) \<and> file_map (tree (kfs k)) = f \<and> small_tree (tree (kfs k)) N"

lemma booting_found:
  assumes "booting k f N" "f cs = Some e"
  obtains i n where "comps_ok cs" "tree_lookup (tree (kfs k)) ''root'' cs 2 = Ok i" "pwalk (tree (kfs k)) cs 2 = Some i"
    "tree (kfs k) i = Some n" "e = view_node n"
proof -
  have "file_map (tree (kfs k)) cs = Some e" using assms by (simp add: booting_def)
  then obtain i n where "comps_ok cs" "pwalk (tree (kfs k)) cs 2 = Some i" "tree (kfs k) i = Some n" "e = view_node n"
    by (auto simp: file_map_Some)
  then show ?thesis using that lookup_root_pwalk by blast
qed

lemma booting_parent:
  assumes "booting k f N" "f cs = Some (Dir_at m)"
  obtains p xs where "comps_ok cs" "parent_check (tree (kfs k)) ''root'' cs = Ok p" "pwalk (tree (kfs k)) cs 2 = Some p"
    "tree (kfs k) p = Some (Dir_node m xs)"
proof -
  obtain i n where n: "comps_ok cs" "tree_lookup (tree (kfs k)) ''root'' cs 2 = Ok i" "pwalk (tree (kfs k)) cs 2 = Some i"
    "tree (kfs k) i = Some n" "Dir_at m = view_node n" by (rule booting_found[OF assms])
  then obtain xs where "n = Dir_node m xs" by (cases n) auto
  then show ?thesis using that[OF n(1) _ n(3)] n(2,4) by (simp add: parent_check_def may_def)
qed

text \<open>The path of a step whose parent is there and which is not there itself.\<close>

lemma booting_missing:
  assumes "booting k f N" "f cs = Some (Dir_at m)" "f (cs @ [name]) = None" "comp_ok name"
  shows "tree_lookup (tree (kfs k)) ''root'' (cs @ [name]) 2 = Err ENOENT"
proof -
  let ?t = "tree (kfs k)"
  obtain p xs where p: "comps_ok cs" "parent_check ?t ''root'' cs = Ok p" "pwalk ?t cs 2 = Some p" "?t p = Some (Dir_node m xs)"
    by (rule booting_parent[OF assms(1,2)])
  have "file_map ?t (cs @ [name]) = None" "proper ?t" using assms(1,3) by (simp_all add: booting_def)
  then have "pwalk ?t (cs @ [name]) 2 = None" using file_map_None p(1) assms(4) by simp
  then have "slot_names xs name = None" using p(3,4) by (simp add: pwalk_snoc child_def)
  then show ?thesis using parent_check_Ok[OF p(2)] p(4) by (simp add: tree_lookup_append may_def)
qed

lemma booting_add:
  assumes "booting k f N" "N \<le> 60" "pwalk (tree (kfs k)) cs 2 = Some p" "comps_ok (cs @ [name])"
    and "tree (kfs k) p = Some (Dir_node m xs)" "f (cs @ [name]) = None" "tree (kfs k) i = None" "new_ok i p n"
    and "node_size n \<le> BLOCKSIZE" "kernel_inv k'" "tree (kfs k') = tree_add (tree (kfs k)) p name i n"
  shows "booting k' (f(cs @ [name] \<mapsto> view_node n)) (Suc N)" "pwalk (tree (kfs k')) (cs @ [name]) 2 = Some i"
proof -
  let ?t = "tree (kfs k)"
  have b: "proper ?t" "file_map ?t = f" "small_tree ?t N" using assms(1) by (simp_all add: booting_def)
  have "pwalk ?t (cs @ [name]) 2 = None" using file_map_None[OF b(1) assms(4)] b(2) assms(6) by simp
  then have nm: "slot_names xs name = None" using assms(3,5) by (simp add: pwalk_snoc child_def)
  note a = add_node[OF b(1) assms(3,4,5) nm assms(7,8), folded assms(11)]
  have t: "tree (kfs k') = ?t(i \<mapsto> n, p \<mapsto> Dir_node m (add_slot \<lparr>Inum = i, Name = name\<rparr> xs))"
    unfolding assms(11) by (simp add: tree_add_def assms(5))
  have p: "p \<in> dom ?t" using assms(5) by blast
  have "card (dom (tree (kfs k'))) \<le> Suc N"
    using b(3) card_insert_le_m1[of "Suc N" "dom ?t" i] p unfolding t by (auto simp: small_tree_def insert_absorb card_insert_if)
  moreover have "length (add_slot \<lparr>Inum = i, Name = name\<rparr> xs) = 64"
  proof -
    note full = small_not_full[OF b(1,3) assms(2,5)]
    show ?thesis using full by (auto simp: add_slot_def full_dir_iff split: option.split)
  qed
  moreover have "length xs' = 64" if "n = Dir_node m' xs'" for m' xs'
    using assms(8) that by (simp add: new_ok_def dot_slots_def)
  ultimately have "small_tree (tree (kfs k')) (Suc N)"
    using b(3) assms(9) unfolding small_tree_def t by (auto simp: layout)
  then show "booting k' (f(cs @ [name] \<mapsto> view_node n)) (Suc N)"
    using a(1,2) assms(10) b(2) by (simp add: booting_def)
  show "pwalk (tree (kfs k')) (cs @ [name]) 2 = Some i" by (rule a(3))
qed

lemma booting_change:
  assumes "booting k f N" "pwalk (tree (kfs k)) cs 2 = Some i" "comps_ok cs" "tree (kfs k) i = Some n"
    and "node_slots n' = node_slots n" "node_size n' \<le> BLOCKSIZE" "kernel_inv k'" "tree (kfs k') = (tree (kfs k))(i \<mapsto> n')"
  shows "booting k' (f(cs \<mapsto> view_node n')) N"
proof -
  have b: "proper (tree (kfs k))" "file_map (tree (kfs k)) = f" "small_tree (tree (kfs k)) N" using assms(1) by (simp_all add: booting_def)
  note c = change_node[OF b(1) assms(2,3,4,5), folded assms(8)]
  have i: "i \<in> dom (tree (kfs k))" using assms(4) by blast
  have "small_tree (tree (kfs k')) N"
    using b(3) assms(4-6) i unfolding small_tree_def assms(8) by (cases n; cases n') (auto simp: insert_absorb)
  then show ?thesis using c assms(7) b(2) by (simp add: booting_def)
qed

section \<open>Steps\<close>

text \<open>What a step does to the map, and when it does it: its parent is a directory, and a new path is new.\<close>

fun entry_setuid :: "entry \<Rightarrow> entry" where
  "entry_setuid (Dir_at m) = Dir_at (m\<lparr>m_setuid := True\<rparr>)"
| "entry_setuid (File_at m bs) = File_at (m\<lparr>m_setuid := True\<rparr>) bs"

definition new_path :: "path_map \<Rightarrow> string list \<Rightarrow> bool" where
  "new_path f cs \<longleftrightarrow> cs \<noteq> [] \<and> f cs = None \<and> length (last cs) \<le> 55 \<and>
     (case f (butlast cs) of Some (Dir_at m) \<Rightarrow> True | _ \<Rightarrow> False)"

lemma new_pathE:
  assumes "new_path f cs" "comps_ok cs"
  obtains ds name m where "cs = ds @ [name]" "f ds = Some (Dir_at m)" "f (ds @ [name]) = None" "length name \<le> 55" "comp_ok name"
proof -
  have "cs = butlast cs @ [last cs]" using assms(1) by (simp add: new_path_def)
  moreover obtain m where "f (butlast cs) = Some (Dir_at m)"
    using assms(1) by (auto simp: new_path_def split: option.splits entry.splits)
  moreover have "comp_ok (last cs)" using assms by (simp add: new_path_def)
  ultimately show ?thesis using assms(1) that[of "butlast cs" "last cs" m] by (simp add: new_path_def)
qed

definition Root_meta :: node_meta where "Root_meta = user_meta ''root''"

lemma boot_mkdir:
  assumes "booting k f N" "N \<le> 60" "free_zero (kfs k)" "path_of root_proc path = cs" "new_path f cs"
  obtains k' i where "init_step now (Mkdir path) k = (Ok (), k')" "booting k' (f(cs \<mapsto> Dir_at Root_meta)) (Suc N)"
    "free_zero (kfs k')" "fs_only k k'" "pwalk (tree (kfs k')) cs 2 = Some i" "inodeCache k' i = None"
proof -
  let ?t = "tree (kfs k)"
  have b: "kernel_inv k" "proper ?t" "small_tree ?t N" using assms(1) by (simp_all add: booting_def)
  have ok: "comps_ok cs" using path_of(2)[of root_proc path] assms(4) by simp
  obtain ds name m where n: "cs = ds @ [name]" "f ds = Some (Dir_at m)" "f (ds @ [name]) = None" "length name \<le> 55" "comp_ok name"
    by (rule new_pathE[OF assms(5) ok])
  obtain p xs where p: "comps_ok ds" "parent_check ?t ''root'' ds = Ok p" "pwalk ?t ds 2 = Some p" "?t p = Some (Dir_node m xs)"
    by (rule booting_parent[OF assms(1) n(2)])
  have lk: "tree_lookup ?t (EUID root_proc) (ds @ [name]) 2 = Err ENOENT" using booting_missing[OF assms(1) n(2,3,5)] by simp
  have pt: "path_of root_proc path = ds @ [name]" using assms(4) n(1) by simp
  have g: "can_grow 1 (kfs k) q" for q by (rule small_room(2)[OF b assms(2)]) simp
  obtain k' i where k': "mkDir now root_proc path k = (Ok (), k')" "kernel_inv k'" "fs_only k k'"
    "?t i = None" "tree (kfs k') = tree_add ?t p name i (Dir_node (user_meta ''root'') (dot_slots i p))"
    "inodeCache k' i = None" "free_zero (kfs k')"
    by (rule mkDir_missing[OF b(1) pt lk n(4), of now]) (use g assms(3) p(2) in \<open>auto simp: made_node_def\<close>)
  have nw: "new_ok i p (Dir_node (user_meta ''root'') (dot_slots i p))" by (simp add: new_ok_def)
  have sz: "node_size (Dir_node (user_meta ''root'') (dot_slots i p)) \<le> BLOCKSIZE" by (simp add: dot_slots_def layout)
  have ok': "comps_ok (ds @ [name])" using ok n(1) by simp
  note a = booting_add[OF assms(1,2) p(3) ok' p(4) n(3) k'(4) nw sz k'(2,5)]
  have "init_step now (Mkdir path) k = (Ok (), k')" using k'(1) by (simp add: init_step_def ignoring_def)
  then show ?thesis using that[of k' i] a k'(3,6,7) n(1) by (simp add: Root_meta_def)
qed

lemma boot_create:
  assumes "booting k f N" "N < 60" "path_of root_proc path = cs" "new_path f cs" "length str \<le> BLOCKSIZE"
  obtains k' where "init_step now (Create path str) k = (Ok (), k')" "booting k' (f(cs \<mapsto> File_at Root_meta (string_bytes str))) (Suc N)"
    "fs_only k k'"
proof -
  let ?t = "tree (kfs k)"
  have b: "kernel_inv k" "proper ?t" "small_tree ?t N" using assms(1) by (simp_all add: booting_def)
  have ok: "comps_ok cs" using path_of(2)[of root_proc path] assms(3) by simp
  obtain ds name m where n: "cs = ds @ [name]" "f ds = Some (Dir_at m)" "f (ds @ [name]) = None" "length name \<le> 55" "comp_ok name"
    by (rule new_pathE[OF assms(4) ok])
  obtain p xs where p: "comps_ok ds" "parent_check ?t ''root'' ds = Ok p" "pwalk ?t ds 2 = Some p" "?t p = Some (Dir_node m xs)"
    by (rule booting_parent[OF assms(1) n(2)])
  have lk: "tree_lookup ?t (EUID root_proc) (ds @ [name]) 2 = Err ENOENT" using booting_missing[OF assms(1) n(2,3,5)] by simp
  have pt: "path_of root_proc path = ds @ [name]" using assms(3) n(1) by simp
  have g: "can_grow 0 (kfs k) q" for q by (rule small_room(2)[OF b less_imp_le[OF assms(2)]]) simp
  obtain k1 i where k1: "createFile now root_proc path k = (Ok (), k1)" "kernel_inv k1" "fs_only k k1"
    "?t i = None" "tree (kfs k1) = tree_add ?t p name i (File_node (user_meta ''root'') [])"
    by (rule createFile_missing[OF b(1) pt lk n(4), of now]) (use g p(2) in \<open>auto simp: made_node_def\<close>)
  have nw: "new_ok i p (File_node (user_meta ''root'') [])" "node_size (File_node (user_meta ''root'') []) \<le> BLOCKSIZE"
    by (simp_all add: new_ok_def)
  have ok': "comps_ok (ds @ [name])" using ok n(1) by simp
  have "booting k1 (f(ds @ [name] \<mapsto> view_node (File_node (user_meta ''root'') []))) (Suc N)"
    and w1: "pwalk (tree (kfs k1)) (ds @ [name]) 2 = Some i"
    using booting_add[OF assms(1) less_imp_le[OF assms(2)] p(3) ok' p(4) n(3) k1(4) nw k1(2,5)] by blast+
  then have a: "booting k1 (f(ds @ [name] \<mapsto> File_at Root_meta [])) (Suc N)" by (simp add: Root_meta_def)
  show ?thesis
  proof (cases "str = []")
    case True
    then have "init_step now (Create path str) k = (Ok (), k1)" using k1(1) by (simp add: init_step_def ignoring_def)
    then show ?thesis using that[of k1] a k1(3) n(1) True by (simp add: string_bytes_def)
  next
    case False
    have b1: "proper (tree (kfs k1))" using a by (simp add: booting_def)
    obtain i' nd where i': "tree_lookup (tree (kfs k1)) ''root'' (ds @ [name]) 2 = Ok i'" "tree (kfs k1) i' = Some nd"
      "File_at Root_meta [] = view_node nd" "pwalk (tree (kfs k1)) (ds @ [name]) 2 = Some i'"
      by (rule booting_found[OF a, of "ds @ [name]"]) auto
    then have f: "tree (kfs k1) i' = Some (File_node Root_meta [])" by (cases nd) auto
    have len: "length (string_bytes str) = length str" by (simp add: string_bytes_def)
    have nb: "nblocks (length (string_bytes str)) = 1"
      using assms(5) False by (cases str) (auto simp: len nblocks_def layout)
    have st: "small_tree (tree (kfs k1)) (Suc N)" using a by (simp add: booting_def)
    have free1: "1 \<le> card (free_bits (dbitmap (kfs k1)))"
      using small_room(1)[OF k1(2) b1 st, of 1] assms(2) by (simp add: free_blocks_def)
    have lk1: "tree_lookup (tree (kfs k1)) (EUID root_proc) (path_of root_proc path) 2 = Ok i'" using i'(1) pt by simp
    obtain k2 where k2: "writeFile now root_proc path (string_bytes str) k1 = (Ok (), k2)" "kernel_inv k2" "fs_only k1 k2"
      "tree (kfs k2) = (tree (kfs k1))(i' \<mapsto> File_node Root_meta (string_bytes str))"
      by (rule writeFile_spec[OF k1(2) lk1 f, of "string_bytes str" now])
        (use assms(5) nb free1 in \<open>simp_all add: may_def len layout needed_small nblocks_def\<close>)
    have "booting k2 (f(cs \<mapsto> File_at Root_meta [], cs \<mapsto> view_node (File_node Root_meta (string_bytes str)))) (Suc N)"
      unfolding n(1) by (rule booting_change[OF a i'(4) ok' f _ _ k2(2,4)]) (use assms(5) in \<open>simp_all add: len\<close>)
    moreover have "init_step now (Create path str) k = (Ok (), k2)"
      using k1(1) k2(1) False by (simp add: init_step_def ignoring_def)
    ultimately show ?thesis using that[of k2] fs_only_trans[OF k1(3) k2(3)] by simp
  qed
qed

lemma boot_chmod:
  assumes "booting k f N" "path_of root_proc path = cs" "f cs = Some e" "pwalk (tree (kfs k)) cs 2 = Some i" "inodeCache k i = None"
  obtains k' where "init_step now (Chmod path om xm) k = (Ok (), k')" "booting k' (f(cs \<mapsto> entry_modes om xm e)) N" "fs_only k k'"
proof -
  have inv: "kernel_inv k" using assms(1) by (simp add: booting_def)
  obtain j n where n: "comps_ok cs" "tree_lookup (tree (kfs k)) ''root'' cs 2 = Ok j" "pwalk (tree (kfs k)) cs 2 = Some j"
    "tree (kfs k) j = Some n" "e = view_node n" by (rule booting_found[OF assms(1,3)])
  have ij: "j = i" using n(3) assms(4) by simp
  have c: "coherent k j" using assms(5) ij by (simp add: coherent_def)
  have lk: "tree_lookup (tree (kfs k)) (EUID root_proc) (path_of root_proc path) 2 = Ok j" using n(2) assms(2) by simp
  obtain k' where k': "chmod root_proc path om xm k = (Ok (), k')" "kernel_inv k'" "fs_only k k'"
    "tree (kfs k') = (tree (kfs k))(j \<mapsto> set_modes om xm n)"
    by (rule chmod_spec[OF inv lk n(4) c, of om xm]) auto
  have v: "view_node (set_modes om xm n) = entry_modes om xm e" "node_slots (set_modes om xm n) = node_slots n"
    "node_size (set_modes om xm n) = node_size n" unfolding n(5) by (cases n; simp add: set_modes_def)+
  have "node_size n \<le> BLOCKSIZE" using assms(1) n(4) by (auto simp: booting_def small_tree_def)
  then have "booting k' (f(cs \<mapsto> view_node (set_modes om xm n))) N"
    using booting_change[OF assms(1) n(3,1,4) v(2) _ k'(2,4)] v(3) by simp
  then show ?thesis using that[of k'] k'(1,3) v(1) by (simp add: init_step_def ignoring_def)
qed

lemma boot_setuid:
  assumes "booting k f N" "path_of root_proc path = cs" "f cs = Some (File_at m bs)"
  obtains k' where "init_step now (SetSetuid path) k = (Ok (), k')" "booting k' (f(cs \<mapsto> File_at (m\<lparr>m_setuid := True\<rparr>) bs)) N"
    "fs_only k k'"
proof -
  have inv: "kernel_inv k" using assms(1) by (simp add: booting_def)
  obtain i n where n: "comps_ok cs" "tree_lookup (tree (kfs k)) ''root'' cs 2 = Ok i" "pwalk (tree (kfs k)) cs 2 = Some i"
    "tree (kfs k) i = Some n" "File_at m bs = view_node n" by (rule booting_found[OF assms(1,3)])
  then have f: "tree (kfs k) i = Some (File_node m bs)" by (cases n) auto
  have lk: "lookup_path (kfs k) (EUID root_proc) (path_of root_proc path) 2 = Ok i"
    by (simp add: assms(2) lookup_root_tree[OF inv] n(2))
  obtain k1 ino k2 where g: "ResolvePath root_proc path k = (Ok i, k1)" "getInode i k1 = (Ok ino, k2)"
    "kernel_inv k2" "cache_only k k2" "inodeCache k2 i = Some ino" "cached_ok (kfs k) i ino" "live (kfs k) i \<noteq> None"
    by (rule resolve_load[OF inv lk])
  have e: "kfs k2 = kfs k" using g(4) by simp
  note c = cached_ok_sel[OF g(6)]
  have "coherent k i" using inv f by (auto simp: kernel_inv_def cache_ok_def coherent_def tree_file cached_ok_def)
  then have coh: "coherent k2 i" by (rule cache_only_coherent[OF g(4)])
  let ?ino = "ino\<lparr>setuid := True\<rparr>"
  have shape: "length (owner ino) = 14"
    using disk_inode_shape[OF kernel_inv_fs(4)[OF inv] live_range[OF g(7)]] c(3) by (simp add: inode_shape_def)
  obtain k' where k': "store_inode ?ino i (k2\<lparr>inodeCache := (inodeCache k2)(i \<mapsto> ?ino)\<rparr>) = (Ok (), k')" "kernel_inv k'"
    "tree (kfs k') = (tree (kfs k2))(i \<mapsto> with_meta (meta_of ?ino) (node_of (kfs k2) i))" "fs_only k2 k'"
    by (rule store_meta[OF g(3) _ g(5) coh, of ?ino]) (use g(7) e shape in \<open>auto simp: meta_only_def\<close>)
  have nd: "node_of (kfs k) i = File_node m bs" using f by (simp add: tree_def split: if_splits)
  then have m: "m = meta_of (disk_inode (kfs k) (unat i))" by (simp add: node_of_def split: if_splits)
  have "with_meta (meta_of ?ino) (node_of (kfs k2) i) = File_node (m\<lparr>m_setuid := True\<rparr>) bs"
    using c by (simp add: nd e m meta_of_def)
  then have t: "tree (kfs k') = (tree (kfs k))(i \<mapsto> File_node (m\<lparr>m_setuid := True\<rparr>) bs)" using k'(3) e by simp
  have "length bs \<le> BLOCKSIZE" using assms(1) f by (fastforce simp: booting_def small_tree_def)
  then have "booting k' (f(cs \<mapsto> view_node (File_node (m\<lparr>m_setuid := True\<rparr>) bs))) N"
    using booting_change[OF assms(1) n(3,1) f _ _ k'(2) t] by simp
  moreover have "init_step now (SetSetuid path) k = (Ok (), k')"
    using g(1,2) k'(1) by (simp add: init_step_def update_inode_def ignoring_def)
  ultimately show ?thesis using that[of k'] fs_only_trans[OF cache_only_fs[OF g(4)] k'(4)] by simp
qed

section \<open>Runs of steps\<close>

definition step_path :: "init_step \<Rightarrow> string list" where
  "step_path s = path_of root_proc (case s of Mkdir p \<Rightarrow> p | Chmod p om xm \<Rightarrow> p | Create p c \<Rightarrow> p | SetSetuid p \<Rightarrow> p)"

definition step_map :: "init_step \<Rightarrow> path_map \<Rightarrow> path_map" where
  "step_map s f = f(step_path s := (case s of
     Mkdir p \<Rightarrow> Some (Dir_at Root_meta)
   | Create p c \<Rightarrow> Some (File_at Root_meta (string_bytes c))
   | Chmod p om xm \<Rightarrow> map_option (entry_modes om xm) (f (step_path s))
   | SetSetuid p \<Rightarrow> map_option entry_setuid (f (step_path s))))"

fun step_fits :: "init_step \<Rightarrow> path_map \<Rightarrow> bool" where
  "step_fits (Mkdir p) f = new_path f (step_path (Mkdir p))"
| "step_fits (Create p c) f = (new_path f (step_path (Create p c)) \<and> length c \<le> BLOCKSIZE)"
| "step_fits (SetSetuid p) f = (\<exists>m bs. f (step_path (SetSetuid p)) = Some (File_at m bs))"
| "step_fits (Chmod p om xm) f = False"

fun steps_fit :: "init_step list \<Rightarrow> path_map \<Rightarrow> bool" where
  "steps_fit [] f = True"
| "steps_fit (s # ss) f = (step_fits s f \<and> steps_fit ss (step_map s f))"

fun is_mkdir :: "init_step \<Rightarrow> bool" where
  "is_mkdir (Mkdir p) = True"
| "is_mkdir s = False"

lemma boot_step:
  assumes "booting k f N" "N < 60" "step_fits s f" "is_mkdir s \<Longrightarrow> free_zero (kfs k)"
  obtains k' where "init_step now s k = (Ok (), k')" "booting k' (step_map s f) (Suc N)" "fs_only k k'"
    "is_mkdir s \<Longrightarrow> free_zero (kfs k') \<and> (\<exists>i. pwalk (tree (kfs k')) (step_path s) 2 = Some i \<and> inodeCache k' i = None)"
proof (cases s)
  case (Mkdir p)
  have fz: "free_zero (kfs k)" using assms(4) Mkdir by simp
  have np: "new_path f (path_of root_proc p)" using assms(3) Mkdir by (simp add: step_path_def)
  show ?thesis
    by (rule boot_mkdir[OF assms(1) less_imp_le[OF assms(2)] fz refl np, of now])
      (use Mkdir that in \<open>auto simp: step_map_def step_path_def\<close>)
next
  case (Create p c)
  have np: "new_path f (path_of root_proc p)" "length c \<le> BLOCKSIZE" using assms(3) Create by (simp_all add: step_path_def)
  show ?thesis
    by (rule boot_create[OF assms(1,2) refl np, of now]) (use Create that in \<open>auto simp: step_map_def step_path_def\<close>)
next
  case (SetSetuid p)
  obtain m bs where f: "f (path_of root_proc p) = Some (File_at m bs)" using assms(3) SetSetuid by (auto simp: step_path_def)
  obtain k' where k': "init_step now s k = (Ok (), k')" "booting k' (step_map s f) N" "fs_only k k'"
    by (rule boot_setuid[OF assms(1) refl f, of now]) (use SetSetuid f that in \<open>auto simp: step_map_def step_path_def\<close>)
  then have "booting k' (step_map s f) (Suc N)" by (simp add: booting_def small_tree_def)
  then show ?thesis using that[of k'] k'(1,3) SetSetuid by simp
qed (use assms(3) in simp)

lemma run_steps_append:
  "run_steps clock j (ss @ ts) k = bindS (run_steps clock j ss k) (\<lambda>_ k. run_steps clock (j + length ss) ts k)"
proof (induction ss arbitrary: j k)
  case (Cons s ss)
  obtain r k1 where "init_step (clock j) s k = (r, k1)" by fastforce
  then show ?case using Cons.IH by (cases r) simp_all
qed simp

lemma boot_steps:
  assumes "booting k f N" "N + length ss \<le> 60" "steps_fit ss f" "\<exists>s \<in> set ss. is_mkdir s \<Longrightarrow> free_zero (kfs k)"
    "\<forall>s \<in> set ss. is_mkdir s = b"
  obtains k' where "run_steps clock j ss k = (Ok (), k')" "booting k' (fold step_map ss f) (N + length ss)" "fs_only k k'"
    "b \<Longrightarrow> ss \<noteq> [] \<Longrightarrow> free_zero (kfs k') \<and> (\<exists>i. pwalk (tree (kfs k')) (step_path (last ss)) 2 = Some i \<and> inodeCache k' i = None)"
  using assms
proof (induction ss arbitrary: k f N j thesis)
  case Nil
  show ?case by (rule Nil(1)[of k]) (use Nil(2) in simp_all)
next
  case (Cons s ss)
  obtain k1 where k1: "init_step (clock j) s k = (Ok (), k1)" "booting k1 (step_map s f) (Suc N)" "fs_only k k1"
    "is_mkdir s \<Longrightarrow> free_zero (kfs k1) \<and> (\<exists>i. pwalk (tree (kfs k1)) (step_path s) 2 = Some i \<and> inodeCache k1 i = None)"
    by (rule boot_step[OF Cons.prems(2), of s "clock j"]) (use Cons.prems(3-6) in auto)
  obtain k' where k': "run_steps clock (Suc j) ss k1 = (Ok (), k')" "booting k' (fold step_map ss (step_map s f)) (Suc N + length ss)"
    "fs_only k1 k'" "b \<Longrightarrow> ss \<noteq> [] \<Longrightarrow> free_zero (kfs k') \<and> (\<exists>i. pwalk (tree (kfs k')) (step_path (last ss)) 2 = Some i \<and> inodeCache k' i = None)"
    by (rule Cons.IH[OF _ k1(2)]) (use Cons.prems(3-6) k1(4) in auto)
  show ?case
  proof (rule Cons.prems(1)[of k'])
    show "run_steps clock j (s # ss) k = (Ok (), k')" using k1(1) k'(1) by simp
    show "booting k' (fold step_map (s # ss) f) (N + length (s # ss))" using k'(2) by simp
    show "fs_only k k'" by (rule fs_only_trans[OF k1(3) k'(3)])
    assume "b" "s # ss \<noteq> []"
    then show "free_zero (kfs k') \<and> (\<exists>i. pwalk (tree (kfs k')) (step_path (last (s # ss))) 2 = Some i \<and> inodeCache k' i = None)"
      using k'(1,4) k1(4) Cons.prems(6) by (cases "ss = []") auto
  qed
qed

section \<open>The fresh disk\<close>

lemma fresh_tree:
  "kernel_inv (new_kernel (fresh_fs c m))" "free_zero (fresh_fs c m)"
  "tree (fresh_fs c m) i = (if i = 2 then Some (Dir_node Root_meta []) else if unat i < 3 then Some (File_node (meta_of zero_inode) []) else None)"
proof -
  let ?fs = "fresh_fs c m"
  note v = fresh_fs_views[where c = c and m = m]
  have ib: "free_bits (ibitmap ?fs) = {3..<INODES}" by (simp add: v(3) fresh_ibitmap_free)
  have u: "unat i = 2 \<longleftrightarrow> i = 2" for i :: u32 by (simp add: word_unat_eq_iff)
  have lt: "unat i < INODES" if "unat i < 3" for i :: u32 using that by (simp add: layout)
  have l: "live ?fs i \<noteq> None \<longleftrightarrow> unat i < 3" for i using lt[of i] by (auto simp: live_def ib)
  have d: "disk_inode ?fs (unat i) = (if unat i = 2 then disk_part (root_inode c m) else zero_inode)" if "unat i < 3" for i :: u32
    using v(5)[OF lt[OF that]] by simp
  have dd: "is_dir ?fs i \<longleftrightarrow> i = 2" if "unat i < 3" for i
    using d[OF that] by (auto simp: is_dir_def root_inode_def zero_inode_def S_IFDIR_def word_unat_eq_iff split: if_splits)
  have ct: "content ?fs i = []" if "unat i < 3" for i
    using d[OF that] by (simp add: content_def file_bytes_def root_inode_def zero_inode_def)
  have l2: "live ?fs 2 \<noteq> None" using l[of 2] by simp
  have sl: "dir_slots ?fs 2 = []" using ct[of 2] by (simp add: dir_slots_def slots_of_def)
  have nok: "node_ok ?fs i" if "unat i < 3" for i
  proof (cases "i = 2")
    case True
    then show ?thesis using dd[OF that] l2 sl ct[of 2] by (simp add: node_ok_def dir_ok_def slots_ok_def)
  next
    case False
    then have "disk_inode ?fs (unat i) = zero_inode" using d[OF that] u by simp
    then show ?thesis using dd[OF that] False by (simp add: node_ok_def zero_inode_def S_IFREG_def)
  qed
  have "tree_ok ?fs" using fresh_fs_inv[of c m] l[of 0] l2 dd[of 2] nok l by (simp add: tree_ok_nodes)
  then show "kernel_inv (new_kernel ?fs)" by (simp add: kernel_inv_def new_kernel_def cache_ok_def)
  show "free_zero ?fs" using v(2,6) by (auto simp: free_zero_def fresh_dbitmap_free)
  have "meta_of (disk_part (root_inode c m)) = Root_meta"
    by (simp add: Root_meta_def root_inode_def meta_of_def user_meta_def disk_part_def zero_inode_def ownerBytes_def go_copy_def)
  then show "tree ?fs i = (if i = 2 then Some (Dir_node Root_meta []) else if unat i < 3 then Some (File_node (meta_of zero_inode) []) else None)"
    using l[of i] dd[of i] d[of i] ct[of i] sl u[of i] by (cases "i = 2") (auto simp: tree_def node_of_def)
qed

text \<open>After the two entries of the root directory the kernel is a booting one.\<close>

lemma boot_dots:
  obtains k where "initFSTree clock hostname ip (new_kernel (fresh_fs c m)) = run_steps clock 0 (init_steps hostname ip) k"
    "booting k [[] \<mapsto> Dir_at Root_meta] 3" "free_zero (kfs k)" "fs_only (new_kernel (fresh_fs c m)) k"
proof -
  let ?k = "new_kernel (fresh_fs c m)"
  note f = fresh_tree[where c = c and m = m]
  have e: "kfs ?k = fresh_fs c m" by (simp add: new_kernel_def)
  have t: "tree (kfs ?k) 2 = Some (Dir_node Root_meta [])" using f(3)[of 2] e by simp
  have free: "free_blocks (kfs ?k) = BLOCKS"
    using fresh_fs_views(2)[where c = c and m = m] by (simp add: e free_blocks_def fresh_dbitmap_free layout)
  have l: "live (kfs ?k) 2 \<noteq> None" using t by (auto simp: tree_dir)
  let ?d = "\<lparr>Inum = 2, Name = ''.''\<rparr>" and ?dd = "\<lparr>Inum = 2, Name = ''..''\<rparr>"
  obtain k1 where k1: "on_fs (addDentry 2 ?d) ?k = (Ok (), k1)" "kernel_inv k1" "fs_only ?k k1"
    "tree (kfs k1) = (tree (kfs ?k))(2 \<mapsto> Dir_node Root_meta (add_slot ?d []))" "free_zero (kfs ?k) \<Longrightarrow> free_zero (kfs k1)"
    "1 \<le> free_blocks (kfs k1)"
    by (rule add_entry_step[OF f(1) t, of ?d 1]) (use l f(2) free e dots_room(1) in \<open>auto simp: entry_ok_def layout\<close>)
  have t1: "tree (kfs k1) 2 = Some (Dir_node Root_meta (Some ?d # replicate 63 None))" by (simp add: k1(4) add_dots(1))
  have l1: "live (kfs k1) 2 \<noteq> None" using t1 by (auto simp: tree_dir)
  obtain k2 where k2: "on_fs (addDentry 2 ?dd) k1 = (Ok (), k2)" "kernel_inv k2" "fs_only k1 k2"
    "tree (kfs k2) = (tree (kfs k1))(2 \<mapsto> Dir_node Root_meta (add_slot ?dd (Some ?d # replicate 63 None)))"
    "free_zero (kfs k1) \<Longrightarrow> free_zero (kfs k2)"
    by (rule add_entry_step[OF k1(2) t1, of ?dd 1]) (use l1 k1(6) dots_room(2) in \<open>auto simp: entry_ok_def\<close>)
  have t2: "tree (kfs k2) i = (if i = 2 then Some (Dir_node Root_meta (dot_slots 2 2))
      else if unat i < 3 then Some (File_node (meta_of zero_inode) []) else None)" for i
    using f(3)[of i] by (simp add: k2(4) k1(4) e add_dots(2) dot_slots_def)
  have ch: "child (tree (kfs k2)) d n = (if d = 2 \<and> n \<in> {''.'', ''..''} then Some 2 else None)" for d n
    by (auto simp: child_def t2 dot_slots(3))
  have "proper (tree (kfs k2))"
    unfolding proper_def dots_proper_def ch dir_proper_def using dot_slots(1)[of _ 2 2] dot_slots(2)[of 2 2] t2
    by (auto simp: comp_ok_def split: if_splits)
  moreover have w: "pwalk (tree (kfs k2)) cs 2 = (if cs = [] then Some 2 else None)" if "comps_ok cs" for cs
    using that by (cases cs rule: rev_cases) (auto simp: pwalk_snoc ch comp_ok_def bind_eq_None_conv)
  moreover have "file_map (tree (kfs k2)) = [[] \<mapsto> Dir_at Root_meta]"
    using w by (auto simp: file_map_def t2 fun_eq_iff)
  moreover have "small_tree (tree (kfs k2)) 3"
  proof -
    have "dom (tree (kfs k2)) \<subseteq> {0, 1, 2}"
    proof
      fix i assume "i \<in> dom (tree (kfs k2))"
      have "unat i < 3"
      proof (rule ccontr)
        assume n: "\<not> unat i < 3"
        then have "i \<noteq> 2" by auto
        then show False using t2[of i] n \<open>i \<in> dom (tree (kfs k2))\<close> by (metis domIff)
      qed
      then have "unat i = unat (0 :: u32) \<or> unat i = unat (1 :: u32) \<or> unat i = unat (2 :: u32)" by auto
      then show "i \<in> {0, 1, 2}" unfolding word_unat_eq_iff[symmetric] by blast
    qed
    then have "card (dom (tree (kfs k2))) \<le> card {0 :: u32, 1, 2}" by (rule card_mono[rotated]) simp
    then show ?thesis by (auto simp: small_tree_def t2 dot_slots_def layout split: if_splits)
  qed
  ultimately have "booting k2 [[] \<mapsto> Dir_at Root_meta] 3" using k2(2) by (simp add: booting_def)
  moreover have "initFSTree clock hostname ip ?k = run_steps clock 0 (init_steps hostname ip) k2"
    using k1(1) k2(1) by (simp add: initFSTree_def ignoring_def)
  ultimately show ?thesis using that[of k2] f(2) k1(3,5) k2(3,5) fs_only_trans e by simp
qed

section \<open>The standard tree\<close>

text \<open>The tree of a first boot, as its users see it.\<close>

definition plain_file :: "string \<Rightarrow> entry" where
  "plain_file c = File_at Root_meta (string_bytes c)"

definition boot_map :: "string \<Rightarrow> string \<Rightarrow> path_map" where
  "boot_map hostname ip =
     [[] \<mapsto> Dir_at Root_meta,
      [''var''] \<mapsto> Dir_at Root_meta, [''var'', ''log''] \<mapsto> Dir_at Root_meta, [''etc''] \<mapsto> Dir_at Root_meta,
      [''bin''] \<mapsto> Dir_at Root_meta, [''home''] \<mapsto> Dir_at Root_meta, [''tmp''] \<mapsto> Dir_at Root_meta,
      [''root''] \<mapsto> Dir_at (Root_meta\<lparr>m_ownerMode := 7, m_otherMode := 0\<rparr>),
      [''var'', ''log'', ''lastlogin''] \<mapsto> plain_file [], [''etc'', ''passwd''] \<mapsto> plain_file [],
      [''etc'', ''hostname''] \<mapsto> plain_file hostname, [''etc'', ''issue''] \<mapsto> plain_file (defaultEtcIssue hostname ip),
      [''etc'', ''motd''] \<mapsto> plain_file defaultEtcMotd,
      [''bin'', ''ls''] \<mapsto> plain_file [], [''bin'', ''cat''] \<mapsto> plain_file [], [''bin'', ''clear''] \<mapsto> plain_file [],
      [''bin'', ''sh''] \<mapsto> plain_file [], [''bin'', ''mkdir''] \<mapsto> plain_file [], [''bin'', ''touch''] \<mapsto> plain_file [],
      [''bin'', ''chmod''] \<mapsto> plain_file [], [''bin'', ''rm''] \<mapsto> plain_file [], [''bin'', ''v''] \<mapsto> plain_file [],
      [''bin'', ''adduser''] \<mapsto> entry_setuid (plain_file []), [''bin'', ''login''] \<mapsto> entry_setuid (plain_file [])]"

lemma path_eq: "p = abs_path cs \<Longrightarrow> comps_ok cs \<Longrightarrow> path_of proc p = cs"
  using path_of_abs_path by simp

lemma boot_paths:
  "path_of root_proc ''/var'' = [''var'']" "path_of root_proc ''/var/log'' = [''var'', ''log'']"
  "path_of root_proc ''/etc'' = [''etc'']" "path_of root_proc ''/bin'' = [''bin'']"
  "path_of root_proc ''/home'' = [''home'']" "path_of root_proc ''/tmp'' = [''tmp'']" "path_of root_proc ''/root'' = [''root'']"
  "path_of root_proc ''/var/log/lastlogin'' = [''var'', ''log'', ''lastlogin'']"
  "path_of root_proc ''/etc/passwd'' = [''etc'', ''passwd'']" "path_of root_proc ''/etc/hostname'' = [''etc'', ''hostname'']"
  "path_of root_proc ''/etc/issue'' = [''etc'', ''issue'']" "path_of root_proc ''/etc/motd'' = [''etc'', ''motd'']"
  by (rule path_eq; simp add: abs_path_def comp_ok_def)+

lemma bin_path:
  assumes "b \<in> {''ls'', ''cat'', ''clear'', ''adduser'', ''login'', ''sh'', ''mkdir'', ''touch'', ''chmod'', ''rm'', ''v''}"
  shows "path_of root_proc (''/bin/'' @ b) = [''bin'', b]"
  using assms by (intro path_eq) (auto simp: abs_path_def comp_ok_def)

lemmas bin_paths = bin_path[of "''ls''", simplified] bin_path[of "''cat''", simplified] bin_path[of "''clear''", simplified]
  bin_path[of "''adduser''", simplified] bin_path[of "''login''", simplified] bin_path[of "''sh''", simplified]
  bin_path[of "''mkdir''", simplified] bin_path[of "''touch''", simplified] bin_path[of "''chmod''", simplified]
  bin_path[of "''rm''", simplified] bin_path[of "''v''", simplified]

definition boot_dirs :: "init_step list" where
  "boot_dirs = map Mkdir [''/var'', ''/var/log'', ''/etc'', ''/bin'', ''/home'', ''/tmp'', ''/root'']"

definition boot_files :: "string \<Rightarrow> string \<Rightarrow> init_step list" where
  "boot_files hostname ip =
     [Create ''/var/log/lastlogin'' [], Create ''/etc/passwd'' [], Create ''/etc/hostname'' hostname,
      Create ''/etc/issue'' (defaultEtcIssue hostname ip), Create ''/etc/motd'' defaultEtcMotd] @
     map (\<lambda>b. Create (''/bin/'' @ b) [])
       [''ls'', ''cat'', ''clear'', ''adduser'', ''login'', ''sh'', ''mkdir'', ''touch'', ''chmod'', ''rm'', ''v''] @
     map SetSetuid [''/bin/adduser'', ''/bin/login'']"

lemma init_steps_split: "init_steps hostname ip = boot_dirs @ [Chmod ''/root'' 7 0] @ boot_files hostname ip"
  by (simp add: init_steps_def boot_dirs_def boot_files_def)

definition dirs_map :: path_map where
  "dirs_map = [[] \<mapsto> Dir_at Root_meta, [''var''] \<mapsto> Dir_at Root_meta, [''var'', ''log''] \<mapsto> Dir_at Root_meta,
     [''etc''] \<mapsto> Dir_at Root_meta, [''bin''] \<mapsto> Dir_at Root_meta, [''home''] \<mapsto> Dir_at Root_meta,
     [''tmp''] \<mapsto> Dir_at Root_meta, [''root''] \<mapsto> Dir_at Root_meta]"

lemma boot_dirs_map:
  "steps_fit boot_dirs [[] \<mapsto> Dir_at Root_meta]" "fold step_map boot_dirs [[] \<mapsto> Dir_at Root_meta] = dirs_map"
  by (simp_all add: boot_dirs_def dirs_map_def step_map_def step_path_def boot_paths new_path_def)

definition modes_map :: path_map where
  "modes_map = dirs_map([''root''] \<mapsto> Dir_at (Root_meta\<lparr>m_ownerMode := 7, m_otherMode := 0\<rparr>))"

lemma boot_files_fit:
  assumes "length hostname \<le> BLOCKSIZE" "length (defaultEtcIssue hostname ip) \<le> BLOCKSIZE"
  shows "steps_fit (boot_files hostname ip) modes_map"
  using assms
  by (simp add: boot_files_def modes_map_def dirs_map_def step_map_def step_path_def boot_paths bin_paths new_path_def
    defaultEtcMotd_def newline_def tab_def layout)

lemma boot_files_map: "fold step_map (boot_files hostname ip) modes_map = boot_map hostname ip"
  by (simp add: boot_files_def modes_map_def dirs_map_def step_map_def step_path_def boot_paths bin_paths boot_map_def plain_file_def
    fun_upd_twist)

lemma first_booted:
  assumes "length hostname + length ip \<le> 4000"
  obtains k where "NewComputer clock hostname ip None ctime mtime = (Ok (), k)" "booting k (boot_map hostname ip) 28"
    "fs_only (new_kernel (NewFileSystem None ctime mtime)) k"
proof -
  have n: "NewFileSystem None ctime mtime = fresh_fs ctime mtime" by (simp add: NewFileSystem_fresh fresh_fs_def)
  have fresh: "freshFormat (fresh_fs ctime mtime)" by (simp add: fresh_fs_def formatted_def)
  obtain k0 where k0: "initFSTree clock hostname ip (new_kernel (fresh_fs ctime mtime)) = run_steps clock 0 (init_steps hostname ip) k0"
    "booting k0 [[] \<mapsto> Dir_at Root_meta] 3" "free_zero (kfs k0)" "fs_only (new_kernel (fresh_fs ctime mtime)) k0"
    by (rule boot_dots)
  obtain k1 i where k1: "run_steps clock 0 boot_dirs k0 = (Ok (), k1)" "booting k1 dirs_map (3 + length boot_dirs)" "fs_only k0 k1"
    "pwalk (tree (kfs k1)) [''root''] 2 = Some i" "inodeCache k1 i = None"
    by (rule boot_steps[OF k0(2) _ boot_dirs_map(1) _, of True clock 0])
      (use k0(3) boot_dirs_map(2) in \<open>auto simp: boot_dirs_def step_path_def boot_paths\<close>)
  have dm: "dirs_map [''root''] = Some (Dir_at Root_meta)" by (simp add: dirs_map_def)
  obtain k2 where k2: "init_step (clock (length boot_dirs)) (Chmod ''/root'' 7 0) k1 = (Ok (), k2)"
    "booting k2 (dirs_map([''root''] \<mapsto> entry_modes 7 0 (Dir_at Root_meta))) (3 + length boot_dirs)" "fs_only k1 k2"
    by (rule boot_chmod[OF k1(2) boot_paths(7) dm k1(4,5)])
  have b2: "booting k2 modes_map 10" using k2(2) by (simp add: modes_map_def boot_dirs_def)
  have len: "length hostname \<le> BLOCKSIZE" "length (defaultEtcIssue hostname ip) \<le> BLOCKSIZE"
    using assms by (simp_all add: defaultEtcIssue_def newline_def tab_def layout)
  have n18: "length (boot_files hostname ip) = 18" by (simp add: boot_files_def)
  have nm: "\<forall>s \<in> set (boot_files hostname ip). is_mkdir s = False" by (auto simp: boot_files_def)
  obtain k where k: "run_steps clock (Suc (length boot_dirs)) (boot_files hostname ip) k2 = (Ok (), k)"
    "booting k (fold step_map (boot_files hostname ip) modes_map) (10 + 18)" "fs_only k2 k"
    by (rule boot_steps[OF b2 _ boot_files_fit[OF len] _ nm, of clock "Suc (length boot_dirs)"]) (use nm n18 in auto)
  have "NewComputer clock hostname ip None ctime mtime = (Ok (), k)"
    using k0(1) k1(1) k2(1) k(1) fresh
    by (simp add: NewComputer_def n new_kernel_def init_steps_split run_steps_append)
  moreover have "booting k (boot_map hostname ip) 28" using k(2) by (simp add: boot_files_map)
  moreover have "fs_only (new_kernel (fresh_fs ctime mtime)) k" using k0(4) k1(3) k2(3) k(3) fs_only_trans by blast
  ultimately show ?thesis using that[of k] n by simp
qed

text \<open>
  C13. A computer that boots for the first time has the standard tree, whatever its clock: the directories, the
  texts of \<open>/etc\<close> with its name and address in them, an empty \<open>/etc/passwd\<close>, the programs of \<open>/bin\<close> with
  \<open>adduser\<close> and \<open>login\<close> setuid, all of root, \<open>/root\<close> closed to others, and nothing else; the invariants hold.
\<close>

theorem first_boot_tree:
  assumes "length hostname + length ip \<le> 4000"
  shows "\<exists>k. NewComputer clock hostname ip None ctime mtime = (Ok (), k) \<and> kernel_inv k \<and> proper (tree (kfs k)) \<and>
    file_map (tree (kfs k)) = boot_map hostname ip \<and> fs_only (new_kernel (NewFileSystem None ctime mtime)) k"
  by (rule first_booted[OF assms, of clock ctime mtime]) (auto simp: booting_def)

theorem first_boot_tree_witness:
  "\<exists>k. NewComputer (\<lambda>j. (1, 2)) ''pc'' ''10.0.0.1'' None 0 0 = (Ok (), k) \<and> kernel_inv k \<and>
     file_map (tree (kfs k)) [''etc'', ''hostname''] = Some (plain_file ''pc'') \<and>
     file_map (tree (kfs k)) [''home'', ''ann''] = None"
  using first_boot_tree[of "''pc''" "''10.0.0.1''" "\<lambda>j. (1, 2)" 0 0] by (auto simp: boot_map_def)

end
