(* ===== verification/Engine.thy ===== *)
theory Engine
  imports Users "HOL-Library.AList"
begin

text \<open>
  \<open>engine\<close>: the network of computers, its admin commands and the first half of a client's connection, which picks a
  computer. The nodes are a Go map by IP address, here an association list; a loop over a map visits its entries in an order
  Go does not promise, which is an argument. What the engine keeps on its host is the description of the
  network (\<open>network.json\<close>, here the value it encodes) and the disk image of every node. A running computer's disk is its
  kernel's, and \<open>images\<close> says which image files there are and with which bytes they were last opened or
  closed. The host's calls succeed, except \<open>RemoveAll\<close> on a path that ends in a dot.
\<close>

section \<open>The state\<close>

record computer =
  node_Name :: string
  node_IP :: string
  node_Type :: string
  node_Kernel :: kernel

record node_config =
  conf_Name :: string
  conf_IP :: string
  conf_Type :: string

record engine =
  nodes :: "(string \<times> computer) list"
  images :: "string list \<rightharpoonup> u8 list"
  network_json :: "node_config list option"

text \<open>The working directory of the engine, the order in which a loop visits a map, and the clocks the calls read.\<close>

record host_env =
  work_dir :: "string list"
  visit :: "(string \<times> computer) list \<Rightarrow> (string \<times> computer) list"
  boot_clock :: "string \<Rightarrow> nat \<Rightarrow> u64 \<times> u64"
  call_clock :: "u64 \<times> u64"

section \<open>The host\<close>

definition networkPath :: string where "networkPath = ''./data/networks/current/''"

text \<open>The directory of a node's image, as the host resolves it.\<close>

definition host_path :: "host_env \<Rightarrow> string \<Rightarrow> string list" where
  "host_path env p = descend (if has_prefix p ''/'' then [] else work_dir env) (split_on CHR ''/'' p)"

definition image_path :: "host_env \<Rightarrow> string \<Rightarrow> string list" where
  "image_path env name = host_path env (''./data/networks/current/nodes/'' @ name @ ''/disk.img'')"

definition config_path :: "host_env \<Rightarrow> string list" where
  "config_path env = host_path env (networkPath @ ''network.json'')"

text \<open>
  \<open>os.RemoveAll\<close> removes a path with everything under it. A path that ends in \<open>.\<close> is refused; of one that ends
  in \<open>..\<close> only the directory itself cannot be removed.
\<close>

definition under :: "string list \<Rightarrow> string list \<Rightarrow> bool" where
  "under p q \<longleftrightarrow> take (length p) q = p"

definition remove_error :: "string \<Rightarrow> go_error option" where
  "remove_error path =
     (if last_part path = ''.'' then Some (ErrorText (''RemoveAll '' @ path @ '': invalid argument''))
      else if last_part path = ''..'' then Some (ErrorText (''unlinkat '' @ path @ '': directory not empty''))
      else None)"

definition RemoveAll :: "host_env \<Rightarrow> string \<Rightarrow> engine \<Rightarrow> go_error option \<times> engine" where
  "RemoveAll env path e =
     (if last_part path = ''.'' then (remove_error path, e)
      else let p = host_path env path
           in (remove_error path, e\<lparr>
                images := (\<lambda>q. if under p q then None else images e q),
                network_json := (if under p (config_path env) then None else network_json e)\<rparr>))"

section \<open>Making nodes\<close>

text \<open>A computer on its image, with the programs; the image file is there from now on.\<close>

definition make_node :: "host_env \<Rightarrow> string \<Rightarrow> string \<Rightarrow> string \<Rightarrow> engine \<Rightarrow> computer outcome \<times> engine" where
  "make_node env name ip nodeType e =
     (let p = image_path env name; now = boot_clock env name 0
      in case NewComputer (\<lambda>j. boot_clock env name (Suc j)) name ip (images e p) (fst now) (snd now) of
           (r, k) \<Rightarrow> (bindO r (\<lambda>_. Ok \<lparr>node_Name = name, node_IP = ip, node_Type = nodeType, node_Kernel = Register k\<rparr>),
             e\<lparr>images := (images e)(p \<mapsto> buf (disk (kfs k)))\<rparr>))"

definition node_config_of :: "computer \<Rightarrow> node_config" where
  "node_config_of node = \<lparr>conf_Name = node_Name node, conf_IP = node_IP node, conf_Type = node_Type node\<rparr>"

definition SaveNetwork :: "host_env \<Rightarrow> engine \<Rightarrow> engine" where
  "SaveNetwork env e = e\<lparr>network_json := Some (map (\<lambda>(ip, node). node_config_of node) (visit env (nodes e)))\<rparr>"

fun load_nodes :: "host_env \<Rightarrow> node_config list \<Rightarrow> engine \<Rightarrow> unit outcome \<times> engine" where
  "load_nodes env [] e = (Ok (), e)"
| "load_nodes env (c # cs) e = bindS (make_node env (conf_Name c) (conf_IP c) (conf_Type c) e)
     (\<lambda>node e. load_nodes env cs (e\<lparr>nodes := AList.update (conf_IP c) node (nodes e)\<rparr>))"

definition LoadNetwork :: "host_env \<Rightarrow> engine \<Rightarrow> unit outcome \<times> engine" where
  "LoadNetwork env e = (case network_json e of None \<Rightarrow> (Ok (), e) | Some cs \<Rightarrow> load_nodes env cs e)"

text \<open>An engine that starts on what is on the host.\<close>

definition NewEngine :: "host_env \<Rightarrow> (string list \<rightharpoonup> u8 list) \<Rightarrow> node_config list option \<Rightarrow> unit outcome \<times> engine" where
  "NewEngine env imgs json = LoadNetwork env \<lparr>nodes = [], images = imgs, network_json = json\<rparr>"

definition ListMachinesOnNetwork :: "host_env \<Rightarrow> engine \<Rightarrow> computer list" where
  "ListMachinesOnNetwork env e = map snd (visit env (nodes e))"

definition GetNode :: "engine \<Rightarrow> string \<Rightarrow> computer option" where
  "GetNode e ip = map_of (nodes e) ip"

definition getNodeByName :: "host_env \<Rightarrow> engine \<Rightarrow> string \<Rightarrow> computer option" where
  "getNodeByName env e name = find (\<lambda>node. node_Name node = name) (map snd (visit env (nodes e)))"

section \<open>Admin commands\<close>

type_synonym reply = "string \<times> int"

definition list_line :: "computer \<Rightarrow> string" where
  "list_line node = node_Type node @ '': '' @ node_Name node @ '': '' @ node_IP node @ nl"

text \<open>The last newline is cut off with a slice, which panics on an empty list.\<close>

definition listNodes :: "host_env \<Rightarrow> string list \<Rightarrow> engine \<Rightarrow> reply outcome" where
  "listNodes env cmd e =
     (if length cmd > 2 then Ok (''Usage: list-nodes'' @ nl, Error)
      else let ns = map snd (visit env (nodes e));
               message = (if length cmd = 1 then concat (map list_line ns)
                 else if length cmd = 2 then concat (map list_line (filter (\<lambda>node. node_Type node = cmd ! 1) ns))
                 else []);
               message = (if nodes e = [] then ''No machines on network'' @ nl else message)
           in if nodes e \<noteq> [] \<and> message = [] then Panic
              else Ok ((if nodes e \<noteq> [] then butlast message else message) @ nl, Success))"

fun name_or_ip_taken :: "string \<Rightarrow> string \<Rightarrow> computer list \<Rightarrow> string option" where
  "name_or_ip_taken name ip [] = None"
| "name_or_ip_taken name ip (node # ns) =
     (if node_Name node = name then Some (''A node with the name '' @ name @ '' already exists'' @ nl)
      else if node_IP node = ip then Some (''A node with the IP '' @ ip @ '' already exists'' @ nl)
      else name_or_ip_taken name ip ns)"

definition spawnNode :: "host_env \<Rightarrow> string list \<Rightarrow> engine \<Rightarrow> reply outcome \<times> engine" where
  "spawnNode env cmd e =
     (if length cmd \<noteq> 4 then (Ok (''Usage: spawn <type> <name> <ip>'' @ nl, Error), e)
      else let name = cmd ! 2; ip = cmd ! 3; nodeType = cmd ! 1
           in if nodeType \<noteq> ''computer'' then (Ok (''Node type '' @ nodeType @ '' is not supported'' @ nl, Error), e)
              else case name_or_ip_taken name ip (map snd (visit env (nodes e))) of
                Some message \<Rightarrow> (Ok (message, Error), e)
              | None \<Rightarrow> bindS (make_node env name ip nodeType e) (\<lambda>node e.
                  (Ok (''A '' @ nodeType @ '' node named: '' @ name @ '' with IP: '' @ ip @ '' spawned successfully'' @ nl @
                       ''Tip: adduser '' @ name @ '' root <password>'' @ nl, Success),
                   SaveNetwork env (e\<lparr>nodes := AList.update ip node (nodes e)\<rparr>))))"

text \<open>The loop over the lines of the password file: the number of users, or \<open>None\<close> if the name is among them.\<close>

fun count_users :: "string \<Rightarrow> string list \<Rightarrow> nat \<Rightarrow> nat option" where
  "count_users username [] n = Some n"
| "count_users username (line # ls) n =
     (if blank_text line then count_users username ls n
      else let fields = split_on CHR '':'' line
           in if 1 \<le> length fields \<and> fields ! 0 = username then None else count_users username ls (n + 1))"

definition add_first_user :: "u64 \<times> u64 \<Rightarrow> string \<Rightarrow> string \<Rightarrow> string \<Rightarrow> kernel \<Rightarrow> reply outcome \<times> kernel" where
  "add_first_user now nodeName username password k =
     on_result (sys now root_proc SYS_READ [AString passwd_path] k)
       (\<lambda>r k. let existing = res_bytes r
          in case count_users username (passwd_lines existing) 0 of
               None \<Rightarrow> (Ok (''User '' @ username @ '' already exists on '' @ nodeName @ nl, Error), k)
             | Some userCount \<Rightarrow>
                 let homedir = (if username = ''root'' then ''/root'' else ''/home/'' @ username);
                     line = username @ '':'' @ password @ '':'' @ itoa (1000 + int userCount) @ '':'' @ homedir @ nl
                 in on_result (sys now root_proc SYS_WRITE [AString passwd_path, ABytes (existing @ string_bytes line)] k)
                      (\<lambda>_ k. (Ok (''Added user '' @ username @ '' to '' @ nodeName @ nl, Success), k))
                      (\<lambda>e k. (Ok (''Error writing to passwd: '' @ error_text e @ nl, Error), k)))
       (\<lambda>e k. (Ok (''Error reading /etc/passwd: '' @ error_text e @ nl, Error), k))"

definition no_node :: "string \<Rightarrow> reply" where
  "no_node name = (''No node with the name '' @ name @ '' found'' @ nl, Error)"

definition engine_addUser :: "host_env \<Rightarrow> string list \<Rightarrow> engine \<Rightarrow> reply outcome \<times> engine" where
  "engine_addUser env cmd e =
     (if length cmd \<noteq> 4 then (Ok (''Usage: adduser <node-name> <username> <password>'' @ nl, Error), e)
      else case getNodeByName env e (cmd ! 1) of
        None \<Rightarrow> (Ok (no_node (cmd ! 1)), e)
      | Some node \<Rightarrow> (case add_first_user (call_clock env) (cmd ! 1) (cmd ! 2) (cmd ! 3) (node_Kernel node) of
          (r, k) \<Rightarrow> (r, e\<lparr>nodes := AList.update (node_IP node) (node\<lparr>node_Kernel := k\<rparr>) (nodes e)\<rparr>)))"

definition deleteNode :: "host_env \<Rightarrow> string list \<Rightarrow> engine \<Rightarrow> reply \<times> engine" where
  "deleteNode env cmd e =
     (if length cmd \<noteq> 2 then ((''Usage: delete <name>'' @ nl, Error), e)
      else case getNodeByName env e (cmd ! 1) of
        None \<Rightarrow> (no_node (cmd ! 1), e)
      | Some node \<Rightarrow>
          let e = e\<lparr>nodes := AList.delete (node_IP node) (nodes e)\<rparr>
          in case RemoveAll env (networkPath @ ''/nodes/'' @ node_Name node) e of
               (Some err, e) \<Rightarrow> ((''Error deleting filesystem: '' @ error_text err @ nl, Error), e)
             | (None, e) \<Rightarrow> ((''Node '' @ cmd ! 1 @ '' deleted successfully'' @ nl, Success), SaveNetwork env e))"

definition resetNetwork :: "host_env \<Rightarrow> engine \<Rightarrow> reply \<times> engine" where
  "resetNetwork env e =
     ((''Network reset (memory + disk cleared)'', Success), (snd (RemoveAll env networkPath e))\<lparr>nodes := []\<rparr>)"

text \<open>A command line of the admin: the replies so far are part of the state. A line without a word is answered and then indexed.\<close>

type_synonym admin = "engine \<times> reply list"

definition answer :: "reply outcome \<times> engine \<Rightarrow> reply list \<Rightarrow> unit outcome \<times> admin" where
  "answer m replies = (case m of (r, e) \<Rightarrow> (case r of
     Ok reply \<Rightarrow> (Ok (), (e, replies @ [reply]))
   | Err err \<Rightarrow> (Err err, (e, replies))
   | Panic \<Rightarrow> (Panic, (e, replies))))"

definition admin_command :: "host_env \<Rightarrow> string \<Rightarrow> admin \<Rightarrow> unit outcome \<times> admin" where
  "admin_command env line s = (case s of (e, replies) \<Rightarrow>
     let cmd = str_fields line
     in if cmd = [] then (Panic, (e, replies @ [(''No command provided'' @ nl, Error)]))
        else if hd cmd = ''spawn'' then answer (spawnNode env cmd e) replies
        else if hd cmd = ''list-nodes'' \<or> hd cmd = ''ls'' then answer (listNodes env cmd e, e) replies
        else if hd cmd = ''delete'' then (case deleteNode env cmd e of (r, e) \<Rightarrow> answer (Ok r, e) replies)
        else if hd cmd = ''adduser'' then answer (engine_addUser env cmd e) replies
        else if hd cmd = ''reset-network'' then (case resetNetwork env e of (r, e) \<Rightarrow> answer (Ok r, e) replies)
        else if hd cmd = ''exit'' then answer (Ok (''Exiting...'', Exit), e) replies
        else answer (Ok (''not implemented'' @ nl, Error), e) replies)"

text \<open>The messages of a connection; \<open>None\<close> is one that is not JSON.\<close>

fun handleAdmin :: "host_env \<Rightarrow> string option list \<Rightarrow> admin \<Rightarrow> unit outcome \<times> admin" where
  "handleAdmin env [] s = (Ok (), s)"
| "handleAdmin env (None # ms) s = handleAdmin env ms s"
| "handleAdmin env (Some line # ms) s = bindS (admin_command env line s) (\<lambda>_ s. handleAdmin env ms s)"

section \<open>Picking a computer\<close>

definition machines_screen :: "host_env \<Rightarrow> engine \<Rightarrow> string" where
  "machines_screen env e = esc @ ''[H'' @ esc @ ''[2J'' @
     concat (map (\<lambda>c. node_IP c @ '': '' @ node_Name c @ cr @ nl) (ListMachinesOnNetwork env e)) @
     cr @ nl @ ''Select home workstation (you can telnet onto different machines later)'' @ nl @ nl @ ''IP ADDRESS: ''"

text \<open>The client still types, was told that there is no such machine, or goes on to a machine.\<close>

datatype picking = Typing string | No_machine | Picked computer

definition addr_char :: "char \<Rightarrow> bool" where
  "addr_char c \<longleftrightarrow> 48 \<le> (of_char c :: nat) \<and> (of_char c :: nat) \<le> 57 \<or> c = CHR ''.''"

definition pick_key :: "engine \<Rightarrow> string \<Rightarrow> string \<Rightarrow> reply list \<Rightarrow> picking \<times> reply list" where
  "pick_key e key typed msgs =
     (if key = key_enter then
        let msgs = msgs @ [(cr @ nl, Success)]
        in case GetNode e typed of
             None \<Rightarrow> (No_machine, msgs @ [(cr @ nl @ ''No machine at that address.'' @ cr @ nl, Exit)])
           | Some target \<Rightarrow> (Picked target, msgs)
      else if key \<in> {key_up, key_down, key_right, key_left} then (Typing typed, msgs)
      else if key = key_delete then
        if typed \<noteq> [] then (Typing (string_of_runes (butlast (runes typed))), msgs @ [([CHR 0x08, CHR '' '', CHR 0x08], Success)])
        else (Typing typed, msgs)
      else if length key = 1 \<and> addr_char (hd key)
        then (Typing (typed @ key), msgs @ [(key, Success)])
      else (Typing typed, msgs))"

fun pick_keys :: "engine \<Rightarrow> string option list \<Rightarrow> string \<Rightarrow> reply list \<Rightarrow> picking \<times> reply list" where
  "pick_keys e [] typed msgs = (Typing typed, msgs)"
| "pick_keys e (None # keys) typed msgs = pick_keys e keys typed msgs"
| "pick_keys e (Some key # keys) typed msgs = (case pick_key e key typed msgs of
     (Typing typed, msgs) \<Rightarrow> pick_keys e keys typed msgs
   | stop \<Rightarrow> stop)"

definition handleClient :: "host_env \<Rightarrow> engine \<Rightarrow> string option list \<Rightarrow> picking \<times> reply list" where
  "handleClient env e keys = pick_keys e keys [] [(machines_screen env e, Success)]"

end
