(* ===== verification/EngineProps.thy ===== *)
theory EngineProps
  imports Engine ProcProps ProgSpec
begin

text \<open>
  The properties of the network: names and addresses stay unique, the saved description is that of the network whatever the admin
  did, so a restart of the engine finds the same network with the same files, deleting a node forgets it, and the command lines that take the engine down.
\<close>

section \<open>The invariant\<close>

definition net_ok :: "engine \<Rightarrow> bool" where
  "net_ok e \<longleftrightarrow> distinct (map fst (nodes e)) \<and>
     (\<forall>ip node. map_of (nodes e) ip = Some node \<longrightarrow> node_IP node = ip) \<and>
     (\<forall>ip ip' node node'. map_of (nodes e) ip = Some node \<longrightarrow> map_of (nodes e) ip' = Some node' \<longrightarrow>
        node_Name node = node_Name node' \<longrightarrow> ip = ip')"

definition config_ok :: "node_config list option \<Rightarrow> bool" where
  "config_ok json \<longleftrightarrow> (\<forall>cs. json = Some cs \<longrightarrow> distinct (map conf_IP cs) \<and> distinct (map conf_Name cs))"

definition visits :: "host_env \<Rightarrow> bool" where
  "visits env \<longleftrightarrow> (\<forall>xs. mset (visit env xs) = mset xs)"

lemma visits_set: "visits env \<Longrightarrow> set (visit env xs) = set xs"
  by (metis visits_def set_mset_mset)

lemma net_okD:
  assumes "net_ok e"
  shows "distinct (map fst (nodes e))" "map_of (nodes e) ip = Some node \<Longrightarrow> node_IP node = ip"
    "map_of (nodes e) ip = Some node \<Longrightarrow> map_of (nodes e) ip' = Some node' \<Longrightarrow> node_Name node = node_Name node' \<Longrightarrow> ip = ip'"
  using assms by (auto simp: net_ok_def)

lemma net_ok_nodes: "nodes e' = nodes e \<Longrightarrow> net_ok e' = net_ok e"
  by (simp add: net_ok_def)

lemma net_entry: "net_ok e \<Longrightarrow> (ip, node) \<in> set (nodes e) \<longleftrightarrow> map_of (nodes e) ip = Some node"
  by (simp add: net_okD(1))

text \<open>The three ways the table changes: a new node, a node that made a step, a node that is gone.\<close>

lemma net_ok_add:
  assumes "net_ok e" "node_IP node = ip"
    and "\<And>ip' node'. map_of (nodes e) ip' = Some node' \<Longrightarrow> ip' = ip \<or> node_Name node' \<noteq> node_Name node"
  shows "net_ok (e\<lparr>nodes := AList.update ip node (nodes e)\<rparr>)"
  using assms net_okD[OF assms(1)]
  by (auto simp: net_ok_def AList.distinct_update AList.update_conv' split: if_splits) metis+

lemma net_ok_remove: "net_ok e \<Longrightarrow> net_ok (e\<lparr>nodes := AList.delete ip (nodes e)\<rparr>)"
  by (auto simp: net_ok_def AList.distinct_delete AList.delete_conv' split: if_splits)

lemma make_node_facts:
  assumes "make_node env name ip nodeType e = (r, e')"
  shows "nodes e' = nodes e" "network_json e' = network_json e"
    "r = Ok node \<Longrightarrow> node_Name node = name \<and> node_IP node = ip \<and> node_Type node = nodeType"
  using assms by (auto simp: make_node_def Let_def bindO_Ok_iff split: prod.splits)

lemma RemoveAll_nodes: "RemoveAll env path e = (r, e') \<Longrightarrow> nodes e' = nodes e"
  by (auto simp: RemoveAll_def Let_def split: if_splits)

lemma RemoveAll_json: "RemoveAll env path e = (r, e') \<Longrightarrow> network_json e' = network_json e \<or> network_json e' = None"
  by (auto simp: RemoveAll_def Let_def split: if_splits)

lemma name_or_ip_free:
  "name_or_ip_taken name ip ns = None \<longleftrightarrow> (\<forall>node \<in> set ns. node_Name node \<noteq> name \<and> node_IP node \<noteq> ip)"
  by (induction ns) auto

lemma visits_distinct: "visits env \<Longrightarrow> distinct (map f (visit env xs)) = distinct (map f xs)"
  by (rule mset_eq_imp_distinct_iff) (simp add: visits_def)

lemma save_ok:
  assumes "visits env" "net_ok e"
  shows "net_ok (SaveNetwork env e)" "config_ok (network_json (SaveNetwork env e))"
proof -
  show "net_ok (SaveNetwork env e)" using assms(2) by (simp add: SaveNetwork_def net_ok_def)
  note d = net_okD[OF assms(2)] net_entry[OF assms(2)]
  have "map (\<lambda>x. node_IP (snd x)) (nodes e) = map fst (nodes e)" using d(2,4) by auto
  from d(1)[folded this] have ip: "distinct (map (\<lambda>x. node_IP (snd x)) (nodes e))" .
  have "inj_on (\<lambda>x. node_Name (snd x)) (set (nodes e))"
  proof (rule inj_onI)
    fix a b assume a: "a \<in> set (nodes e)" "b \<in> set (nodes e)" "node_Name (snd a) = node_Name (snd b)"
    then have "map_of (nodes e) (fst a) = Some (snd a)" "map_of (nodes e) (fst b) = Some (snd b)"
      using d(4)[of "fst a" "snd a"] d(4)[of "fst b" "snd b"] by simp_all
    then show "a = b" using d(3) a(3) by (metis option.inject prod_eqI)
  qed
  then have nm: "distinct (map (\<lambda>x. node_Name (snd x)) (nodes e))" using d(1) by (simp add: distinct_map)
  show "config_ok (network_json (SaveNetwork env e))"
    using ip nm
    by (simp add: config_ok_def SaveNetwork_def node_config_of_def o_def case_prod_beta visits_distinct[OF assms(1)])
qed

section \<open>Reachable networks\<close>

text \<open>The images an engine leaves behind: those of running nodes as their kernels last wrote them, if the file is still there.\<close>

definition stored :: "host_env \<Rightarrow> engine \<Rightarrow> string list \<rightharpoonup> u8 list" where
  "stored env e p =
     (case find (\<lambda>node. image_path env (node_Name node) = p) (map snd (nodes e)) of
        Some node \<Rightarrow> map_option (\<lambda>_. buf (disk (kfs (node_Kernel node)))) (images e p)
      | None \<Rightarrow> images e p)"

inductive engine_step :: "engine \<Rightarrow> engine \<Rightarrow> bool" where
  step_admin: "visits env \<Longrightarrow> admin_command env line (e, rs) = (Ok (), (e', rs')) \<Longrightarrow> engine_step e e'"
| step_node: "map_of (nodes e) ip = Some node \<Longrightarrow> kstep (node_Kernel node) k \<Longrightarrow>
    engine_step e (e\<lparr>nodes := AList.update ip (node\<lparr>node_Kernel := k\<rparr>) (nodes e)\<rparr>)"

inductive_cases engine_step_elim: "engine_step e e'"

text \<open>The states of an engine that started without a network, made any number of steps, and was started again at any time.\<close>

inductive engine_up :: "engine \<Rightarrow> bool" where
  first_start: "NewEngine env imgs None = (Ok (), e) \<Longrightarrow> engine_up e"
| engine_moved: "engine_up e \<Longrightarrow> engine_step e e' \<Longrightarrow> engine_up e'"
| restarted: "engine_up e \<Longrightarrow> NewEngine env (stored env e) (network_json e) = (Ok (), e') \<Longrightarrow> engine_up e'"

lemma load_nodes_ok:
  assumes "load_nodes env cs e = (Ok (), e')" "net_ok e" "distinct (map conf_IP cs)" "distinct (map conf_Name cs)"
    and "\<forall>ip node. map_of (nodes e) ip = Some node \<longrightarrow> node_Name node \<notin> conf_Name ` set cs"
  shows "net_ok e' \<and> network_json e' = network_json e"
  using assms
proof (induction cs arbitrary: e)
  case (Cons c cs)
  obtain r e1 where m: "make_node env (conf_Name c) (conf_IP c) (conf_Type c) e = (r, e1)" by fastforce
  obtain node where r: "r = Ok node" using Cons.prems(1) by (cases r) (simp_all add: m)
  note f = make_node_facts[OF m]
  let ?e = "e1\<lparr>nodes := AList.update (conf_IP c) node (nodes e1)\<rparr>"
  have "net_ok ?e"
    by (rule net_ok_add) (use f(1) f(3)[OF r] Cons.prems(2,5) net_ok_nodes[OF f(1)] in auto)
  moreover have "\<forall>ip node. map_of (nodes ?e) ip = Some node \<longrightarrow> node_Name node \<notin> conf_Name ` set cs"
    using Cons.prems(4,5) f(1) f(3)[OF r] by (auto simp: AList.update_conv' split: if_splits)
  ultimately show ?case using Cons.IH[of ?e] Cons.prems(1,3,4) f(2) by (simp add: m r)
qed simp

lemma answer_Ok: "answer (r, e) rs = (Ok (), (e', rs')) \<Longrightarrow> e' = e \<and> (\<exists>reply. r = Ok reply \<and> rs' = rs @ [reply])"
  by (auto simp: answer_def split: outcome.splits)

lemma spawnNode_ok:
  assumes "visits env" "spawnNode env cmd e = (r, e')" "r \<noteq> Panic" "\<And>err. r \<noteq> Err err" "net_ok e" "config_ok (network_json e)"
  shows "net_ok e' \<and> config_ok (network_json e')"
proof (cases "length cmd = 4 \<and> cmd ! 1 = ''computer'' \<and> name_or_ip_taken (cmd ! 2) (cmd ! 3) (map snd (visit env (nodes e))) = None")
  case True
  obtain m e1 where m: "make_node env (cmd ! 2) (cmd ! 3) ''computer'' e = (m, e1)" by fastforce
  obtain node where n: "m = Ok node"
    using True assms(2-4) by (cases m) (auto simp: spawnNode_def Let_def m)
  note f = make_node_facts[OF m]
  let ?e = "e1\<lparr>nodes := AList.update (cmd ! 3) node (nodes e1)\<rparr>"
  have free: "node_Name n \<noteq> cmd ! 2" if "map_of (nodes e) ip = Some n" for ip n
    using True map_of_SomeD[OF that] visits_set[OF assms(1)] by (force simp: name_or_ip_free)
  have "net_ok ?e"
    by (rule net_ok_add) (use f(1) f(3)[OF n] assms(5) net_ok_nodes[OF f(1)] free in auto)
  moreover have "e' = SaveNetwork env ?e" using True assms(2) by (simp add: spawnNode_def Let_def m n)
  ultimately show ?thesis using save_ok[OF assms(1)] by blast
next
  case False
  then have "e' = e" using assms(2) by (auto simp: spawnNode_def Let_def split: if_splits option.splits)
  then show ?thesis using assms(5,6) by simp
qed

lemma getNodeByName_Some:
  assumes "visits env" "net_ok e" "getNodeByName env e name = Some node"
  shows "map_of (nodes e) (node_IP node) = Some node" "node_Name node = name"
proof -
  have f: "node \<in> set (map snd (visit env (nodes e)))" "node_Name node = name"
    using assms(3) by (auto simp: getNodeByName_def find_Some_iff)
  then obtain ip where "(ip, node) \<in> set (nodes e)" using visits_set[OF assms(1)] by auto
  then show "map_of (nodes e) (node_IP node) = Some node"
    using net_entry[OF assms(2)] net_okD(2)[OF assms(2)] by auto
  show "node_Name node = name" by (rule f(2))
qed

lemma getNodeByName_None:
  "visits env \<Longrightarrow> getNodeByName env e name = None \<longleftrightarrow> (\<forall>(ip, node) \<in> set (nodes e). node_Name node \<noteq> name)"
  by (auto simp: getNodeByName_def find_None_iff visits_set)

lemma deleteNode_ok:
  assumes "visits env" "deleteNode env cmd e = (r, e')" "net_ok e" "config_ok (network_json e)"
  shows "net_ok e' \<and> config_ok (network_json e')"
proof (cases "length cmd = 2 \<and> getNodeByName env e (cmd ! 1) \<noteq> None")
  case True
  then obtain node where n: "getNodeByName env e (cmd ! Suc 0) = Some node" by auto
  let ?e = "e\<lparr>nodes := AList.delete (node_IP node) (nodes e)\<rparr>"
  obtain err e1 where rm: "RemoveAll env (networkPath @ ''/nodes/'' @ node_Name node) ?e = (err, e1)" by fastforce
  have e1: "net_ok e1" "config_ok (network_json e1)"
    using net_ok_remove[OF assms(3)] net_ok_nodes[OF RemoveAll_nodes[OF rm]] RemoveAll_json[OF rm] assms(4)
    by (auto simp: config_ok_def)
  have "e' = (if err = None then SaveNetwork env e1 else e1)"
    using True assms(2) rm by (auto simp: deleteNode_def Let_def n)
  then show ?thesis using e1 save_ok[OF assms(1)] by simp
next
  case False
  then have "e' = e" using assms(2) by (auto simp: deleteNode_def split: if_splits)
  then show ?thesis using assms(3,4) by simp
qed

lemma net_ok_kernel:
  assumes "net_ok e" "map_of (nodes e) ip = Some node"
  shows "net_ok (e\<lparr>nodes := AList.update ip (node\<lparr>node_Kernel := k\<rparr>) (nodes e)\<rparr>)"
  by (rule net_ok_add) (use assms net_okD(2,3)[OF assms(1)] in auto)

lemma engine_addUser_ok:
  assumes "visits env" "engine_addUser env cmd e = (r, e')" "net_ok e" "config_ok (network_json e)"
  shows "net_ok e' \<and> config_ok (network_json e')"
proof (cases "length cmd = 4 \<and> getNodeByName env e (cmd ! 1) \<noteq> None")
  case True
  then obtain node where n: "getNodeByName env e (cmd ! Suc 0) = Some node" by auto
  obtain r1 k where "add_first_user (call_clock env) (cmd ! Suc 0) (cmd ! 2) (cmd ! 3) (node_Kernel node) = (r1, k)" by fastforce
  then have "e' = e\<lparr>nodes := AList.update (node_IP node) (node\<lparr>node_Kernel := k\<rparr>) (nodes e)\<rparr>"
    using True assms(2) by (auto simp: engine_addUser_def n)
  then show ?thesis using net_ok_kernel[OF assms(3) getNodeByName_Some(1)[OF assms(1,3) n]] assms(4) by simp
next
  case False
  then have "e' = e" using assms(2) by (auto simp: engine_addUser_def split: if_splits)
  then show ?thesis using assms(3,4) by simp
qed

lemma admin_command_ok:
  assumes "visits env" "admin_command env line (e, rs) = (Ok (), (e', rs'))" "net_ok e" "config_ok (network_json e)"
  shows "net_ok e' \<and> config_ok (network_json e')"
proof -
  let ?cmd = "str_fields line"
  have ne: "?cmd \<noteq> []" using assms(2) by (auto simp: admin_command_def Let_def)
  consider "hd ?cmd = ''spawn''" | "hd ?cmd = ''delete''" | "hd ?cmd = ''adduser''" | "hd ?cmd = ''reset-network''"
    | "hd ?cmd \<notin> {''spawn'', ''delete'', ''adduser'', ''reset-network''}" by blast
  then show ?thesis
  proof cases
    case 1
    obtain r e1 where s: "spawnNode env ?cmd e = (r, e1)" by fastforce
    have "e' = e1" "\<exists>reply. r = Ok reply" using 1 assms(2) ne s by (auto simp: admin_command_def Let_def dest!: answer_Ok)
    then show ?thesis using spawnNode_ok[OF assms(1) s] assms(3,4) by auto
  next
    case 2
    obtain r e1 where s: "deleteNode env ?cmd e = (r, e1)" by fastforce
    have "e' = e1" using 2 assms(2) ne s by (auto simp: admin_command_def Let_def dest!: answer_Ok)
    then show ?thesis using deleteNode_ok[OF assms(1) s assms(3,4)] by simp
  next
    case 3
    obtain r e1 where s: "engine_addUser env ?cmd e = (r, e1)" by fastforce
    have "e' = e1" using 3 assms(2) ne s by (auto simp: admin_command_def Let_def dest!: answer_Ok)
    then show ?thesis using engine_addUser_ok[OF assms(1) s assms(3,4)] by simp
  next
    case 4
    obtain err e1 where rm: "RemoveAll env networkPath e = (err, e1)" by fastforce
    have "e' = e1\<lparr>nodes := []\<rparr>" using 4 assms(2) ne rm by (auto simp: admin_command_def Let_def resetNetwork_def dest!: answer_Ok)
    then show ?thesis using RemoveAll_json[OF rm] assms(4) by (auto simp: net_ok_def config_ok_def)
  next
    case 5
    then have "e' = e" using assms(2)
      by (auto simp: admin_command_def Let_def dest!: answer_Ok split: if_splits)
    then show ?thesis using assms(3,4) by simp
  qed
qed

lemma NewEngine_ok:
  assumes "NewEngine env imgs json = (Ok (), e)" "config_ok json"
  shows "net_ok e \<and> config_ok (network_json e)"
proof (cases json)
  case None
  then show ?thesis using assms(1) by (auto simp: NewEngine_def LoadNetwork_def net_ok_def config_ok_def)
next
  case (Some cs)
  then show ?thesis
    using assms load_nodes_ok[of env cs "\<lparr>nodes = [], images = imgs, network_json = json\<rparr>" e]
    by (auto simp: NewEngine_def LoadNetwork_def net_ok_def config_ok_def)
qed

lemma engine_up_ok: "engine_up e \<Longrightarrow> net_ok e \<and> config_ok (network_json e)"
proof (induction rule: engine_up.induct)
  case (first_start env imgs e)
  then show ?case using NewEngine_ok[OF first_start] by (simp add: config_ok_def)
next
  case (engine_moved e e')
  from engine_moved.hyps(2) show ?case
  proof (cases rule: engine_step.cases)
    case step_admin
    then show ?thesis using admin_command_ok engine_moved.IH by blast
  next
    case step_node
    then show ?thesis using net_ok_kernel engine_moved.IH by auto
  qed
next
  case (restarted e env e')
  then show ?case using NewEngine_ok by blast
qed

lemma node_found:
  assumes "engine_up e" "map_of (nodes e) ip = Some node"
  shows "node_IP node = ip" "visits env \<Longrightarrow> getNodeByName env e (node_Name node) = Some node"
proof -
  have ok: "net_ok e" using engine_up_ok[OF assms(1)] by simp
  show "node_IP node = ip" using net_okD(2)[OF ok] assms(2) by auto
  show "getNodeByName env e (node_Name node) = Some node" if v: "visits env"
  proof (cases "getNodeByName env e (node_Name node)")
    case None
    then show ?thesis using getNodeByName_None[OF v] map_of_SomeD[OF assms(2)] by fastforce
  next
    case (Some n)
    note n = getNodeByName_Some[OF v ok Some]
    have "node_IP n = ip" by (rule net_okD(3)[OF ok n(1) assms(2) n(2)])
    then show ?thesis using Some n(1) assms(2) by simp
  qed
qed

text \<open>
  C32. In every state of the engine, names and addresses are unique: no two nodes share either, each is found under its
  address, a search by name finds it whatever the order of the map, and the saved description has no duplicates.
\<close>

theorem network_names_unique:
  assumes "engine_up e" "map_of (nodes e) ip = Some node"
  shows "node_IP node = ip \<and> GetNode e ip = Some node \<and>
    (\<forall>env. visits env \<longrightarrow> getNodeByName env e (node_Name node) = Some node) \<and>
    (\<forall>ip' node'. map_of (nodes e) ip' = Some node' \<longrightarrow> node_Name node' = node_Name node \<longrightarrow> ip' = ip)"
  using node_found[OF assms] net_okD(3)[OF conjunct1[OF engine_up_ok[OF assms(1)]]] assms(2) by (auto simp: GetNode_def)

text \<open>A network of one node, on a disk that was there before.\<close>

definition demo_env :: host_env where
  "demo_env = \<lparr>work_dir = [], visit = \<lambda>xs. xs, boot_clock = \<lambda>_ _. (0, 0), call_clock = (0, 0)\<rparr>"

definition demo_node :: computer where
  "demo_node = \<lparr>node_Name = ''a'', node_IP = ''10.0.0.1'', node_Type = ''computer'',
     node_Kernel = Register (new_kernel (mounted demo_fs))\<rparr>"

definition demo_images :: "string list \<rightharpoonup> u8 list" where
  "demo_images = Map.empty(image_path demo_env ''a'' \<mapsto> buf (disk demo_fs))"

definition demo_net :: engine where
  "demo_net = \<lparr>nodes = [(''10.0.0.1'', demo_node)], images = demo_images, network_json = Some [node_config_of demo_node]\<rparr>"

lemma demo_env: "visits demo_env" "work_dir demo_env = []" "visit demo_env xs = xs"
  by (simp_all add: visits_def demo_env_def)

definition demo_disks :: engine where
  "demo_disks = \<lparr>nodes = [], images = demo_images, network_json = None\<rparr>"

lemma demo_start: "NewEngine demo_env demo_images None = (Ok (), demo_disks)"
  by (simp add: NewEngine_def LoadNetwork_def demo_disks_def)

definition demo_reply :: string where
  "demo_reply = ''A '' @ ''computer'' @ '' node named: '' @ ''a'' @ '' with IP: '' @ ''10.0.0.1'' @ '' spawned successfully'' @ nl @
     ''Tip: adduser '' @ ''a'' @ '' root <password>'' @ nl"

lemma demo_spawn:
  "admin_command demo_env ''spawn computer a 10.0.0.1'' (demo_disks, []) = (Ok (), (demo_net, [] @ [(demo_reply, Success)]))"
proof -
  have f: "str_fields ''spawn computer a 10.0.0.1'' = [''spawn'', ''computer'', ''a'', ''10.0.0.1'']"
    using fields_words[of "[''spawn'', ''computer'', ''a'', ''10.0.0.1'']"] by (simp add: word_ok_def is_space_def)
  have d: "kfs (new_kernel fs) = fs" for fs by (simp add: new_kernel_def)
  have i: "demo_images (image_path demo_env ''a'') = Some (buf (disk demo_fs))" by (simp add: demo_images_def)
  have u: "demo_images(image_path demo_env ''a'' \<mapsto> buf (disk demo_fs)) = demo_images" by (simp add: demo_images_def)
  have m: "make_node demo_env ''a'' ''10.0.0.1'' ''computer'' demo_disks = (Ok demo_node, demo_disks)"
    unfolding make_node_def Let_def demo_node_def demo_disks_def by (simp add: i u restart_demo(1) d)
  have "spawnNode demo_env [''spawn'', ''computer'', ''a'', ''10.0.0.1''] demo_disks = (Ok (demo_reply, Success), demo_net)"
    unfolding demo_reply_def by (simp add: spawnNode_def Let_def m[unfolded demo_disks_def] demo_env(3) SaveNetwork_def demo_net_def demo_disks_def)
  then show ?thesis by (simp only: admin_command_def Let_def f) (simp add: answer_def)
qed

lemma demo_up: "engine_up demo_net"
  by (rule engine_moved[OF first_start[OF demo_start] step_admin[OF demo_env(1) demo_spawn]])

theorem network_names_unique_witness:
  "GetNode demo_net ''10.0.0.1'' = Some demo_node \<and> getNodeByName demo_env demo_net ''a'' = Some demo_node"
proof -
  have "map_of (nodes demo_net) ''10.0.0.1'' = Some demo_node" "node_Name demo_node = ''a''"
    by (simp_all add: demo_net_def demo_node_def)
  then show ?thesis using network_names_unique[OF demo_up] demo_env(1) by metis
qed

section \<open>Restarting\<close>

lemma descend_filter:
  "\<forall>t \<in> set ts. t \<noteq> ''..'' \<Longrightarrow> descend ds ts = ds @ filter (\<lambda>t. t \<noteq> [] \<and> t \<noteq> ''.'') ts"
proof (induction ts arbitrary: ds)
  case (Cons t ts)
  have "descend ds (t # ts) = (if t = [] \<or> t = ''.'' then descend ds ts else descend (ds @ [t]) ts)"
    using Cons.prems by (simp add: descend_def clean_step_def)
  then show ?case using Cons by simp
qed simp

lemma host_path_join:
  assumes "t \<noteq> []" "\<forall>u \<in> set (t # ts). CHR ''/'' \<notin> set u \<and> u \<noteq> ''..''"
  shows "host_path env (join_with CHR ''/'' (t # ts)) = work_dir env @ filter (\<lambda>t. t \<noteq> [] \<and> t \<noteq> ''.'') (t # ts)"
proof -
  have "\<not> has_prefix (join_with CHR ''/'' (t # ts)) ''/''" using assms by (cases t; cases ts) (auto simp: has_prefix_def)
  moreover have "split_on CHR ''/'' (join_with CHR ''/'' (t # ts)) = t # ts" by (rule split_join) (use assms(2) in auto)
  moreover have "descend (work_dir env) (t # ts) = work_dir env @ filter (\<lambda>t. t \<noteq> [] \<and> t \<noteq> ''.'') (t # ts)"
    by (rule descend_filter) (use assms(2) in blast)
  ultimately show ?thesis by (simp only: host_path_def if_False)
qed

lemma node_paths:
  assumes "comp_ok name"
  shows "image_path env name = work_dir env @ [''data'', ''networks'', ''current'', ''nodes'', name, ''disk.img'']"
    "host_path env (networkPath @ ''/nodes/'' @ name) = work_dir env @ [''data'', ''networks'', ''current'', ''nodes'', name]"
    "config_path env = work_dir env @ [''data'', ''networks'', ''current'', ''network.json'']"
proof -
  have n: "CHR ''/'' \<notin> set name" "name \<noteq> ''..''" "name \<noteq> ''.''" "name \<noteq> []" using assms by (simp_all add: comp_ok_def)
  have j: "''./data/networks/current/nodes/'' @ name @ ''/disk.img'' =
      join_with CHR ''/'' (''.'' # [''data'', ''networks'', ''current'', ''nodes'', name, ''disk.img''])"
    "networkPath @ ''/nodes/'' @ name = join_with CHR ''/'' (''.'' # [''data'', ''networks'', ''current'', [], ''nodes'', name])"
    "networkPath @ ''network.json'' = join_with CHR ''/'' (''.'' # [''data'', ''networks'', ''current'', ''network.json''])"
    by (simp_all add: networkPath_def)
  show "image_path env name = work_dir env @ [''data'', ''networks'', ''current'', ''nodes'', name, ''disk.img'']"
    unfolding image_path_def j by (subst host_path_join) (use n in simp_all)
  show "host_path env (networkPath @ ''/nodes/'' @ name) = work_dir env @ [''data'', ''networks'', ''current'', ''nodes'', name]"
    unfolding j by (subst host_path_join) (use n in simp_all)
  show "config_path env = work_dir env @ [''data'', ''networks'', ''current'', ''network.json'']"
    unfolding config_path_def j by (subst host_path_join) simp_all
qed

lemma image_path_inject:
  assumes "comp_ok a" "comp_ok b"
  shows "image_path env a = image_path env b \<longleftrightarrow> a = b"
  using assms by (simp add: node_paths)

lemma fold_RegisterProgram: "fold RegisterProgram ps k = k\<lparr>programs := programs k \<union> set ps\<rparr>"
  by (induction ps arbitrary: k) (simp_all add: RegisterProgram_def)

lemma Register_eq: "Register k = k\<lparr>programs := programs k \<union> set registered\<rparr>"
  by (simp add: Register_def fold_RegisterProgram)

lemma kernel_inv_Register: "kernel_inv (Register k) = kernel_inv k"
  by (simp add: Register_eq kernel_inv_def cache_ok_def)

text \<open>A node whose disk can be mounted again, and what it is after that.\<close>

definition mountable :: "computer \<Rightarrow> bool" where
  "mountable node \<longleftrightarrow> comp_ok (node_Name node) \<and> kernel_inv (node_Kernel node) \<and>
     superblock_bytes (kfs (node_Kernel node)) = superblock_bytes (NewFileSystem None 0 0)"

definition remade :: "computer \<Rightarrow> computer" where
  "remade node = node\<lparr>node_Kernel := Register (new_kernel (mounted (kfs (node_Kernel node))))\<rparr>"

lemma make_node_again:
  assumes "mountable node" "images e (image_path env (node_Name node)) = Some (buf (disk (kfs (node_Kernel node))))"
  shows "make_node env (node_Name node) (node_IP node) (node_Type node) e = (Ok (remade node), e)"
proof -
  let ?fs = "kfs (node_Kernel node)"
  have k: "kernel_inv (node_Kernel node)" "superblock_bytes ?fs = superblock_bytes (NewFileSystem None 0 0)"
    using assms(1) by (simp_all add: mountable_def)
  note nc = NewComputer_remount(1)[OF k]
  have d: "disk (kfs (new_kernel (mounted ?fs))) = disk ?fs" by (simp add: new_kernel_def)
  have u: "e\<lparr>images := (images e)(image_path env (node_Name node) \<mapsto> buf (disk ?fs))\<rparr> = e"
    using assms(2) by (simp add: fun_upd_idem)
  have "node\<lparr>node_Kernel := x\<rparr> = \<lparr>node_Name = node_Name node, node_IP = node_IP node, node_Type = node_Type node, node_Kernel = x\<rparr>" for x
    by (cases node) simp
  then show ?thesis unfolding make_node_def Let_def assms(2) nc remade_def by (simp add: d u)
qed

lemma load_nodes_again:
  assumes "\<forall>c \<in> set cs. \<exists>node. c = node_config_of node \<and> map_of ns (node_IP node) = Some node \<and> mountable node \<and>
      imgs (image_path env (node_Name node)) = Some (buf (disk (kfs (node_Kernel node))))"
    and "images e = imgs"
  shows "\<exists>e'. load_nodes env cs e = (Ok (), e') \<and> (\<forall>ip. map_of (nodes e') ip =
    (if ip \<in> conf_IP ` set cs then map_option remade (map_of ns ip) else map_of (nodes e) ip))"
  using assms
proof (induction cs arbitrary: e)
  case (Cons c cs)
  obtain node where n: "c = node_config_of node" "map_of ns (node_IP node) = Some node" "mountable node"
    "imgs (image_path env (node_Name node)) = Some (buf (disk (kfs (node_Kernel node))))" using Cons.prems(1) by auto
  let ?e = "e\<lparr>nodes := AList.update (node_IP node) (remade node) (nodes e)\<rparr>"
  have m: "make_node env (conf_Name c) (node_IP node) (conf_Type c) e = (Ok (remade node), e)" "conf_IP c = node_IP node"
    using make_node_again[OF n(3)] n(4) Cons.prems(2) by (simp_all add: n(1) node_config_of_def)
  obtain e' where e': "load_nodes env cs ?e = (Ok (), e')" "\<forall>ip. map_of (nodes e') ip =
    (if ip \<in> conf_IP ` set cs then map_option remade (map_of ns ip) else map_of (nodes ?e) ip)"
    using Cons.IH[of ?e] Cons.prems by auto
  have "load_nodes env (c # cs) e = (Ok (), e')" using e'(1) m(2) by (simp only: load_nodes.simps m bindS.simps)
  then show ?case using e'(2) n(2) m(2) by (intro exI[of _ e']) (auto simp: AList.update_conv')
qed simp

text \<open>What the host has kept of a node is the disk of its kernel, and a node made again from it.\<close>

definition all_mountable :: "host_env \<Rightarrow> engine \<Rightarrow> bool" where
  "all_mountable env e \<longleftrightarrow> (\<forall>ip node. (ip, node) \<in> set (nodes e) \<longrightarrow>
     mountable node \<and> images e (image_path env (node_Name node)) \<noteq> None)"

lemma stored_disk:
  assumes ok: "net_ok e" and all: "all_mountable env e" and n: "(ip, node) \<in> set (nodes e)"
  shows "stored env e (image_path env (node_Name node)) = Some (buf (disk (kfs (node_Kernel node))))"
proof (cases "find (\<lambda>x. image_path env (node_Name x) = image_path env (node_Name node)) (map snd (nodes e))")
  case None
  then show ?thesis using n by (force simp: find_None_iff)
next
  case (Some x)
  then have x: "x \<in> set (map snd (nodes e))" "image_path env (node_Name x) = image_path env (node_Name node)"
    by (auto simp: find_Some_iff)
  then obtain ip' where ip': "(ip', x) \<in> set (nodes e)" by auto
  then have "node_Name x = node_Name node"
    using x(2) image_path_inject all ip' n unfolding all_mountable_def by (auto simp: mountable_def)
  then have "x = node" using net_okD(3)[OF ok, of ip' x ip node] ip' n net_entry[OF ok] by auto
  then show ?thesis using Some all n by (auto simp: stored_def all_mountable_def)
qed

lemma remade_node:
  assumes "mountable node"
  shows "\<exists>k. remade node = node\<lparr>node_Kernel := k\<rparr> \<and> kernel_inv k \<and> tree (kfs k) = tree (kfs (node_Kernel node)) \<and>
    programs k = set registered \<and> procs k = Map.empty"
proof -
  have k: "kernel_inv (node_Kernel node)" "superblock_bytes (kfs (node_Kernel node)) = superblock_bytes (NewFileSystem None 0 0)"
    using assms by (simp_all add: mountable_def)
  let ?k = "new_kernel (mounted (kfs (node_Kernel node)))"
  have "kernel_inv (Register ?k)" using NewComputer_remount(2)[OF k] by (simp only: kernel_inv_Register)
  then show ?thesis
    using NewComputer_remount(3)[OF k] by (intro exI[of _ "Register ?k"]) (simp add: remade_def Register_eq new_kernel_def)
qed

section \<open>The description on the host\<close>

text \<open>
  The states of an engine whose admin was never told that a file system could not be deleted: that answer comes after the
  node is off the table and before the description is saved, and leaves the node in the description.
\<close>

inductive engine_kept :: "engine \<Rightarrow> bool" where
  kept_start: "NewEngine env imgs None = (Ok (), e) \<Longrightarrow> engine_kept e"
| kept_admin: "engine_kept e \<Longrightarrow> visits env \<Longrightarrow> admin_command env line (e, rs) = (Ok (), (e', rs @ [reply])) \<Longrightarrow>
    \<not> has_prefix (fst reply) ''Error deleting filesystem: '' \<Longrightarrow> engine_kept e'"
| kept_node: "engine_kept e \<Longrightarrow> map_of (nodes e) ip = Some node \<Longrightarrow> kstep (node_Kernel node) k \<Longrightarrow>
    engine_kept (e\<lparr>nodes := AList.update ip (node\<lparr>node_Kernel := k\<rparr>) (nodes e)\<rparr>)"
| kept_restart: "engine_kept e \<Longrightarrow> NewEngine env (stored env e) (network_json e) = (Ok (), e') \<Longrightarrow> engine_kept e'"

lemma engine_kept_up: "engine_kept e \<Longrightarrow> engine_up e"
  by (induction rule: engine_kept.induct)
    (auto intro: engine_up.intros engine_moved[OF _ step_admin] engine_moved[OF _ step_node])

definition configs :: "engine \<Rightarrow> node_config set" where
  "configs e = node_config_of ` ran (map_of (nodes e))"

definition described :: "engine \<Rightarrow> bool" where
  "described e \<longleftrightarrow> (case network_json e of None \<Rightarrow> {} | Some cs \<Rightarrow> set cs) = configs e"

lemma described_save: "visits env \<Longrightarrow> net_ok e \<Longrightarrow> described (SaveNetwork env e)"
  using net_entry[of e] visits_set[of env "nodes e"]
  by (force simp: described_def SaveNetwork_def configs_def ran_def)

lemma configs_eq: "configs e = {c. \<exists>ip. map_option node_config_of (map_of (nodes e) ip) = Some c}"
  by (auto simp: configs_def ran_def)

lemma described_kernel:
  assumes "described e" "map_of (nodes e) ip = Some node"
  shows "described (e\<lparr>nodes := AList.update ip (node\<lparr>node_Kernel := k\<rparr>) (nodes e)\<rparr>)"
proof -
  let ?e = "e\<lparr>nodes := AList.update ip (node\<lparr>node_Kernel := k\<rparr>) (nodes e)\<rparr>"
  have "map_option node_config_of (map_of (nodes ?e) a) = map_option node_config_of (map_of (nodes e) a)" for a
    using assms(2) by (simp add: AList.update_conv' node_config_of_def)
  then have "configs ?e = configs e" by (simp add: configs_eq)
  then show ?thesis using assms(1) by (simp add: described_def)
qed

lemma load_nodes_configs:
  "load_nodes env cs e = (Ok (), e') \<Longrightarrow> distinct (map conf_IP cs) \<Longrightarrow> dom (map_of (nodes e)) \<inter> conf_IP ` set cs = {} \<Longrightarrow>
    configs e' = configs e \<union> set cs"
proof (induction cs arbitrary: e)
  case (Cons c cs)
  obtain r e1 where m: "make_node env (conf_Name c) (conf_IP c) (conf_Type c) e = (r, e1)" by fastforce
  obtain node where r: "r = Ok node" using Cons.prems(1) by (cases r) (simp_all add: m)
  note f = make_node_facts[OF m]
  let ?e = "e1\<lparr>nodes := AList.update (conf_IP c) node (nodes e1)\<rparr>"
  have "node_config_of node = c" using f(3)[OF r] by (simp add: node_config_of_def)
  moreover have "map_of (nodes e) (conf_IP c) = None" using Cons.prems(3) by auto
  ultimately have "configs ?e = insert c (configs e)"
    using f(1) by (simp add: configs_def AList.update_conv')
  moreover have "dom (map_of (nodes ?e)) \<inter> conf_IP ` set cs = {}"
    using Cons.prems(2,3) f(1) by (auto simp: AList.update_conv')
  ultimately show ?case using Cons.IH[of ?e] Cons.prems(1,2) by (simp add: m r)
qed simp

lemma NewEngine_described:
  assumes "NewEngine env imgs json = (Ok (), e)" "config_ok json"
  shows "described e"
proof (cases json)
  case None
  then show ?thesis using assms(1) by (auto simp: NewEngine_def LoadNetwork_def described_def configs_def)
next
  case (Some cs)
  let ?e = "\<lparr>nodes = [], images = imgs, network_json = json\<rparr>"
  have l: "load_nodes env cs ?e = (Ok (), e)" and d: "distinct (map conf_IP cs)" "distinct (map conf_Name cs)"
    using assms Some by (simp_all add: NewEngine_def LoadNetwork_def config_ok_def)
  have "configs e = set cs" using load_nodes_configs[OF l d(1)] by (simp add: configs_def)
  moreover have "network_json e = Some cs" using load_nodes_ok[OF l _ d] Some by (simp add: net_ok_def)
  ultimately show ?thesis by (simp add: described_def)
qed

lemma reset_described: "described (snd (resetNetwork env e))"
proof -
  have j: "networkPath = join_with CHR ''/'' (''.'' # [''data'', ''networks'', ''current'', []])"
    "networkPath @ ''network.json'' = join_with CHR ''/'' (''.'' # [''data'', ''networks'', ''current'', ''network.json''])"
    by (simp_all add: networkPath_def)
  have "host_path env networkPath = work_dir env @ [''data'', ''networks'', ''current'']"
    unfolding j(1) by (subst host_path_join) simp_all
  moreover have "config_path env = work_dir env @ [''data'', ''networks'', ''current'', ''network.json'']"
    unfolding config_path_def j(2) by (subst host_path_join) simp_all
  ultimately have "under (host_path env networkPath) (config_path env)" by (simp add: under_def)
  moreover have "last_part networkPath \<noteq> ''.''" by (simp add: last_part_def networkPath_def)
  ultimately show ?thesis
    by (simp add: resetNetwork_def RemoveAll_def Let_def described_def configs_def)
qed

lemma delete_described:
  assumes "visits env" "deleteNode env cmd e = (reply, e')" "net_ok e" "described e"
    and "\<not> has_prefix (fst reply) ''Error deleting filesystem: ''"
  shows "described e'"
proof (cases "length cmd = 2 \<and> getNodeByName env e (cmd ! 1) \<noteq> None")
  case True
  then obtain node where n: "getNodeByName env e (cmd ! Suc 0) = Some node" by auto
  let ?e = "e\<lparr>nodes := AList.delete (node_IP node) (nodes e)\<rparr>"
  obtain err e1 where rm: "RemoveAll env (networkPath @ ''/nodes/'' @ node_Name node) ?e = (err, e1)" by fastforce
  have "net_ok e1" using net_ok_remove[OF assms(3)] net_ok_nodes[OF RemoveAll_nodes[OF rm]] by simp
  moreover have "err = None" using True assms(2,5) rm by (cases err) (auto simp: deleteNode_def Let_def n has_prefix_def)
  then have "e' = SaveNetwork env e1" using True assms(2) rm by (auto simp: deleteNode_def Let_def n)
  ultimately show ?thesis using described_save[OF assms(1)] by simp
next
  case False
  then have "e' = e" using assms(2) by (auto simp: deleteNode_def split: if_splits)
  then show ?thesis using assms(4) by simp
qed

lemma spawn_described:
  assumes "visits env" "spawnNode env cmd e = (Ok reply, e')" "net_ok e" "config_ok (network_json e)" "described e"
  shows "described e'"
proof (cases "length cmd = 4 \<and> cmd ! 1 = ''computer'' \<and> name_or_ip_taken (cmd ! 2) (cmd ! 3) (map snd (visit env (nodes e))) = None")
  case True
  obtain m e1 where m: "make_node env (cmd ! 2) (cmd ! 3) ''computer'' e = (m, e1)" by fastforce
  obtain node where n: "m = Ok node"
    using True assms(2) by (cases m) (simp_all add: spawnNode_def Let_def m)
  let ?e = "e1\<lparr>nodes := AList.update (cmd ! 3) node (nodes e1)\<rparr>"
  have e': "e' = SaveNetwork env ?e" using True assms(2) by (simp add: spawnNode_def Let_def m n)
  have "net_ok e'" using spawnNode_ok[OF assms(1,2) _ _ assms(3,4)] by simp
  then have "net_ok ?e" using net_ok_nodes[of e' ?e] by (simp add: e' SaveNetwork_def)
  then show ?thesis unfolding e' by (rule described_save[OF assms(1)])
next
  case False
  then have "e' = e" using assms(2) by (auto simp: spawnNode_def Let_def split: if_splits option.splits)
  then show ?thesis using assms(5) by simp
qed

lemma admin_described:
  assumes "visits env" "admin_command env line (e, rs) = (Ok (), (e', rs @ [reply]))" "net_ok e" "config_ok (network_json e)"
    and "described e" "\<not> has_prefix (fst reply) ''Error deleting filesystem: ''"
  shows "described e'"
proof -
  let ?cmd = "str_fields line"
  have ne: "?cmd \<noteq> []" using assms(2) by (auto simp: admin_command_def Let_def)
  consider "hd ?cmd = ''spawn''" | "hd ?cmd = ''delete''" | "hd ?cmd = ''adduser''" | "hd ?cmd = ''reset-network''"
    | "hd ?cmd \<notin> {''spawn'', ''delete'', ''adduser'', ''reset-network''}" by blast
  then show ?thesis
  proof cases
    case 1
    obtain r e1 where s: "spawnNode env ?cmd e = (r, e1)" by fastforce
    have "e' = e1" "\<exists>reply. r = Ok reply" using 1 assms(2) ne s by (auto simp: admin_command_def Let_def dest!: answer_Ok)
    then show ?thesis using spawn_described[OF assms(1) _ assms(3-5)] s by auto
  next
    case 2
    obtain r e1 where s: "deleteNode env ?cmd e = (r, e1)" by fastforce
    have "e' = e1" "r = reply" using 2 assms(2) ne s by (auto simp: admin_command_def Let_def dest!: answer_Ok)
    then show ?thesis using delete_described[OF assms(1) s assms(3,5)] assms(6) by simp
  next
    case 3
    obtain r e1 where s: "engine_addUser env ?cmd e = (r, e1)" by fastforce
    have e1: "e' = e1" using 3 assms(2) ne s by (auto simp: admin_command_def Let_def dest!: answer_Ok)
    show ?thesis
    proof (cases "length ?cmd = 4 \<and> getNodeByName env e (?cmd ! 1) \<noteq> None")
      case True
      then obtain node where n: "getNodeByName env e (?cmd ! Suc 0) = Some node" by auto
      then show ?thesis
        using True s described_kernel[OF assms(5) getNodeByName_Some(1)[OF assms(1,3) n]] e1
        by (auto simp: engine_addUser_def split: prod.splits)
    next
      case False
      then have "e' = e" using s e1 by (auto simp: engine_addUser_def split: if_splits)
      then show ?thesis using assms(5) by simp
    qed
  next
    case 4
    then have "e' = snd (resetNetwork env e)"
      using assms(2) ne by (auto simp: admin_command_def Let_def resetNetwork_def dest!: answer_Ok)
    then show ?thesis by (simp add: reset_described)
  next
    case 5
    then have "e' = e" using assms(2)
      by (auto simp: admin_command_def Let_def dest!: answer_Ok split: if_splits)
    then show ?thesis using assms(5) by simp
  qed
qed

lemma engine_kept_described: "engine_kept e \<Longrightarrow> described e"
proof (induction rule: engine_kept.induct)
  case (kept_start env imgs e)
  then show ?case using NewEngine_described by (simp add: config_ok_def)
next
  case (kept_admin e env line rs e' reply)
  then show ?case using admin_described engine_up_ok[OF engine_kept_up[OF kept_admin.hyps(1)]] by blast
next
  case (kept_node e ip node k)
  then show ?case by (intro described_kernel)
next
  case (kept_restart e env e')
  then show ?case using NewEngine_described engine_up_ok[OF engine_kept_up[OF kept_restart.hyps(1)]] by blast
qed

text \<open>
  C33. An engine that is started again on what the last one left on its host - the network description as the last
  spawn, delete or reset left it, and the disks as the running nodes left them - has the same network: the same
  addresses, names and types, and on every node the same files, with all programs registered and nothing running. It
  holds at any time, whatever the admin and the nodes did before, as long as no delete was answered with an error of the
  file system, for nodes whose names are one path element and whose disks are in order.
\<close>

theorem engine_restart_keeps_network:
  assumes "engine_kept e"
    and "\<forall>ip node. GetNode e ip = Some node \<longrightarrow> mountable node \<and> images e (image_path env (node_Name node)) \<noteq> None"
  shows "\<exists>e'. NewEngine env (stored env e) (network_json e) = (Ok (), e') \<and>
    (\<forall>ip. case GetNode e ip of
        None \<Rightarrow> GetNode e' ip = None
      | Some node \<Rightarrow> \<exists>k. GetNode e' ip = Some (node\<lparr>node_Kernel := k\<rparr>) \<and> kernel_inv k \<and>
          tree (kfs k) = tree (kfs (node_Kernel node)) \<and> programs k = set registered \<and> procs k = Map.empty)"
proof -
  have ok: "net_ok e" using engine_up_ok[OF engine_kept_up[OF assms(1)]] by simp
  have all: "all_mountable env e"
    using assms(2) net_entry[OF ok] by (auto simp: all_mountable_def GetNode_def)
  let ?cs = "case network_json e of None \<Rightarrow> [] | Some cs \<Rightarrow> cs"
  have set_cs: "set ?cs = configs e"
    using engine_kept_described[OF assms(1)] by (auto simp: described_def split: option.splits)
  have cs: "\<exists>node. c = node_config_of node \<and> map_of (nodes e) (node_IP node) = Some node \<and> mountable node \<and>
      stored env e (image_path env (node_Name node)) = Some (buf (disk (kfs (node_Kernel node))))" if c: "c \<in> set ?cs" for c
  proof -
    obtain ip node where n: "map_of (nodes e) ip = Some node" "c = node_config_of node"
      using c unfolding set_cs by (auto simp: configs_def ran_def)
    then show ?thesis using all stored_disk[OF ok all map_of_SomeD[OF n(1)]] net_okD(2)[OF ok n(1)] map_of_SomeD[OF n(1)]
      by (auto simp: all_mountable_def)
  qed
  let ?e = "\<lparr>nodes = [], images = stored env e, network_json = network_json e\<rparr>"
  have "\<forall>c \<in> set ?cs. \<exists>node. c = node_config_of node \<and> map_of (nodes e) (node_IP node) = Some node \<and> mountable node \<and>
      stored env e (image_path env (node_Name node)) = Some (buf (disk (kfs (node_Kernel node))))" using cs by blast
  from load_nodes_again[OF this, of ?e] obtain e' where e': "load_nodes env ?cs ?e = (Ok (), e')"
    "\<forall>ip. map_of (nodes e') ip = (if ip \<in> conf_IP ` set ?cs then map_option remade (map_of (nodes e) ip) else None)" by auto
  have "ip \<in> conf_IP ` set ?cs" if m: "map_of (nodes e) ip = Some node" for ip node
    using net_okD(2)[OF ok m] m unfolding set_cs by (force simp: configs_def ran_def node_config_of_def)
  then have g: "GetNode e' ip = map_option remade (GetNode e ip)" for ip
    using e'(2) by (cases "map_of (nodes e) ip") (auto simp: GetNode_def)
  have "NewEngine env (stored env e) (network_json e) = (Ok (), e')"
    using e'(1) by (auto simp: NewEngine_def LoadNetwork_def split: option.splits)
  then show ?thesis using g remade_node assms(2) by (intro exI[of _ e']) (auto split: option.split)
qed

lemma demo_mountable: "mountable demo_node"
proof -
  have "superblock_bytes demo_fs = superblock_bytes (NewFileSystem None 0 0)"
    by (simp add: demo_fs_def fresh_fs_def NewFileSystem_fresh)
  moreover have "kernel_inv (node_Kernel demo_node)"
    using restart_demo(2) by (simp add: demo_node_def kernel_inv_Register)
  ultimately show ?thesis
    by (simp add: mountable_def demo_node_def Register_eq new_kernel_def comp_ok_def)
qed

lemma demo_kept: "engine_kept demo_net"
  by (rule kept_admin[OF kept_start[OF demo_start] demo_env(1) demo_spawn]) (simp add: demo_reply_def has_prefix_def)

theorem engine_restart_keeps_network_witness:
  "\<exists>e' k. NewEngine demo_env (stored demo_env demo_net) (network_json demo_net) = (Ok (), e') \<and>
     GetNode e' ''10.0.0.1'' = Some (demo_node\<lparr>node_Kernel := k\<rparr>) \<and> tree (kfs k) = tree demo_fs"
proof -
  have g: "GetNode demo_net ip = (if ip = ''10.0.0.1'' then Some demo_node else None)" for ip
    by (simp add: GetNode_def demo_net_def)
  have i: "images demo_net (image_path demo_env (node_Name demo_node)) \<noteq> None"
    by (simp add: demo_net_def demo_images_def demo_node_def)
  have a: "\<forall>ip node. GetNode demo_net ip = Some node \<longrightarrow>
      mountable node \<and> images demo_net (image_path demo_env (node_Name node)) \<noteq> None"
    using demo_mountable i by (auto simp: g split: if_splits)
  have t: "tree (kfs (node_Kernel demo_node)) = tree demo_fs"
    using restart_demo(3) by (simp add: demo_node_def Register_eq new_kernel_def)
  obtain e' where e': "NewEngine demo_env (stored demo_env demo_net) (network_json demo_net) = (Ok (), e')"
    "\<forall>ip. case GetNode demo_net ip of None \<Rightarrow> GetNode e' ip = None
      | Some node \<Rightarrow> \<exists>k. GetNode e' ip = Some (node\<lparr>node_Kernel := k\<rparr>) \<and> kernel_inv k \<and>
          tree (kfs k) = tree (kfs (node_Kernel node)) \<and> programs k = set registered \<and> procs k = Map.empty"
    using engine_restart_keeps_network[OF demo_kept a] by blast
  have "\<exists>k. GetNode e' ''10.0.0.1'' = Some (demo_node\<lparr>node_Kernel := k\<rparr>) \<and> kernel_inv k \<and>
      tree (kfs k) = tree (kfs (node_Kernel demo_node)) \<and> programs k = set registered \<and> procs k = Map.empty"
    using spec[OF e'(2), of "''10.0.0.1''"] by (simp only: g simp_thms if_True option.case)
  then show ?thesis using e'(1) t by auto
qed

section \<open>Deleting\<close>

lemma under_image:
  assumes "comp_ok a" "comp_ok b"
  shows "under (host_path env (networkPath @ ''/nodes/'' @ a)) (image_path env b) \<longleftrightarrow> a = b"
    "\<not> under (host_path env (networkPath @ ''/nodes/'' @ a)) (config_path env)"
  unfolding node_paths[OF assms(1)] node_paths[OF assms(2)] under_def by auto

lemma remove_comp:
  assumes "comp_ok name"
  shows "last_part (networkPath @ ''/nodes/'' @ name) = name"
proof -
  have "CHR ''/'' \<notin> set name" using assms by (simp add: comp_ok_def)
  then have "takeWhile (\<lambda>c. c \<noteq> CHR ''/'') (rev name @ CHR ''/'' # x) = rev name" for x
    by (subst takeWhile_append2) auto
  then show ?thesis by (simp add: last_part_def networkPath_def)
qed

text \<open>
  Deleting a node whose name is one path element takes it off the table and removes its image, and no other node or
  image; the saved description is that of the remaining nodes. A node spawned under the name later gets a fresh disk.
\<close>

theorem deleteNode_forgets:
  assumes "visits env" "engine_up e" "GetNode e ip = Some node" "comp_ok (node_Name node)"
  shows "\<exists>msg e'. deleteNode env [cmd, node_Name node] e = ((msg, Success), e') \<and>
    GetNode e' = (GetNode e)(ip := None) \<and> images e' (image_path env (node_Name node)) = None \<and>
    (\<forall>name. comp_ok name \<and> name \<noteq> node_Name node \<longrightarrow> images e' (image_path env name) = images e (image_path env name)) \<and>
    network_json e' = Some (map (\<lambda>(ip, node). node_config_of node) (visit env (nodes e')))"
proof -
  let ?name = "node_Name node"
  let ?rm = "networkPath @ ''/nodes/'' @ ?name"
  have u: "node_IP node = ip" "getNodeByName env e ?name = Some node"
    using node_found[OF assms(2)] assms(1,3) by (simp_all add: GetNode_def)
  let ?e = "e\<lparr>nodes := AList.delete ip (nodes e)\<rparr>"
  let ?e1 = "?e\<lparr>images := (\<lambda>q. if under (host_path env ?rm) q then None else images e q)\<rparr>"
  have rm: "RemoveAll env ?rm ?e = (None, ?e1)"
    using assms(4) under_image(2)[OF assms(4,4), of env]
    unfolding RemoveAll_def remove_error_def remove_comp[OF assms(4)] by (simp add: Let_def comp_ok_def cong: if_cong)
  have d: "deleteNode env [cmd, ?name] e = ((''Node '' @ ?name @ '' deleted successfully'' @ nl, Success), SaveNetwork env ?e1)"
    unfolding deleteNode_def using u rm by simp
  show ?thesis
    by (rule exI, rule exI, rule conjI[OF d])
      (use under_image(1)[OF assms(4)] assms(4) in \<open>auto simp: SaveNetwork_def GetNode_def AList.delete_conv' fun_eq_iff\<close>)
qed

theorem deleteNode_forgets_witness:
  "\<exists>msg e'. deleteNode demo_env [''delete'', ''a''] demo_net = ((msg, Success), e') \<and> GetNode e' ''10.0.0.1'' = None \<and>
     images e' (image_path demo_env ''a'') = None \<and> network_json e' = Some []"
proof -
  have g: "GetNode demo_net ''10.0.0.1'' = Some demo_node" and n: "node_Name demo_node = ''a''" "comp_ok (node_Name demo_node)"
    by (simp_all add: GetNode_def demo_net_def demo_node_def comp_ok_def)
  obtain msg e' where e': "deleteNode demo_env [''delete'', ''a''] demo_net = ((msg, Success), e')"
    "GetNode e' = (GetNode demo_net)(''10.0.0.1'' := None)" "images e' (image_path demo_env ''a'') = None"
    "network_json e' = Some (map (\<lambda>(ip, node). node_config_of node) (nodes e'))"
    using deleteNode_forgets[OF demo_env(1) demo_up g n(2), of "''delete''"] by (auto simp: n(1) demo_env(3))
  have "map_of (nodes e') = Map.empty" using e'(2) by (auto simp: GetNode_def demo_net_def fun_eq_iff)
  then show ?thesis using e' by auto
qed

text \<open>
  A delete that is answered with an error has taken the node off the table and left it in the saved description: the node
  is back after a restart. A node of the name \<open>.\<close> is one.
\<close>

lemma failed_delete_is_undone:
  assumes "visits env" "engine_up e" "GetNode e ip = Some node" "node_Name node = ''.''"
  shows "\<exists>msg e'. deleteNode env [cmd, ''.''] e = ((''Error deleting filesystem: '' @ msg, Error), e') \<and>
    GetNode e' = (GetNode e)(ip := None) \<and> network_json e' = network_json e"
proof -
  have "node_IP node = ip" "getNodeByName env e ''.'' = Some node"
    using node_found[OF assms(2), of ip node] assms(1,3,4) by (simp_all add: GetNode_def)
  moreover have "last_part (networkPath @ ''/nodes/.'') = ''.''" by (simp add: last_part_def networkPath_def)
  ultimately show ?thesis
    using assms(4) by (simp add: deleteNode_def RemoveAll_def remove_error_def GetNode_def AList.delete_conv' fun_eq_iff)
qed

section \<open>Command lines that take the engine down\<close>

text \<open>
  C35. Listing the nodes of a type there is none of, while there are nodes, cuts a character off an empty text and panics, and
  so does a command line without a word, after it was answered. Either ends the engine with all its computers.
\<close>

theorem admin_line_panics:
  assumes "nodes e \<noteq> []" "visits env" "\<forall>ip node. (ip, node) \<in> set (nodes e) \<longrightarrow> node_Type node \<noteq> t"
    and "str_fields line = [''ls'', t] \<or> str_fields line = [''list-nodes'', t] \<or> str_fields line = []"
  shows "fst (admin_command env line (e, rs)) = Panic"
proof -
  have "node_Type (snd x) \<noteq> t" if "x \<in> set (visit env (nodes e))" for x
    using assms(3) that visits_set[OF assms(2)] by (cases x) auto
  then have "listNodes env [cmd, t] e = Panic" for cmd using assms(1) by (auto simp: listNodes_def Let_def)
  then show ?thesis using assms(4) by (auto simp: admin_command_def Let_def answer_def)
qed

theorem admin_line_panics_witness:
  "fst (admin_command demo_env ''ls router'' (demo_net, [])) = Panic"
proof -
  have "str_fields ''ls router'' = [''ls'', ''router'']"
    using fields_words[of "[''ls'', ''router'']"] by (simp add: word_ok_def is_space_def)
  then show ?thesis
    by (intro admin_line_panics[OF _ demo_env(1), where t = "''router''"]) (auto simp: demo_net_def demo_node_def)
qed

end
