(* ===== verification/UsersProps.thy ===== *)
theory UsersProps
  imports BootMap EngineProps
begin

text \<open>
  Users: what adding a user does to who may log in, on the text of the password file and through the calls of the kernel
  (\<open>passwd_read\<close>, \<open>passwd_write\<close>), the first user of a computer that has just booted, and what a login needs.
\<close>

section \<open>The text of the password file\<close>

text \<open>A field of a line, and a file whose last line is ended.\<close>

definition field_ok :: "string \<Rightarrow> bool" where
  "field_ok s \<longleftrightarrow> CHR '':'' \<notin> set s \<and> CHR 0x0A \<notin> set s"

definition lines_ended :: "u8 list \<Rightarrow> bool" where
  "lines_ended bs \<longleftrightarrow> bs = [] \<or> last bs = 10"

lemma char_of_newline: "char_of_byte 10 = CHR 0x0A"
proof -
  have "byte_of_char CHR 0x0A = 10" by (simp add: byte_of_char_def)
  then show ?thesis using char_of_byte_of_char[of "CHR 0x0A"] by simp
qed

lemma split_ended:
  assumes "CHR 0x0A \<notin> set l" "s = [] \<or> (\<exists>t. s = t @ nl)"
  shows "split_on CHR 0x0A (s @ l @ nl) = butlast (split_on CHR 0x0A s) @ [l, []] \<and> last (split_on CHR 0x0A s) = []"
proof -
  have l: "split_on CHR 0x0A (l @ nl) = [l, []]"
    using split_on_append[of "CHR 0x0A" l "[]"] split_on_no_sep[OF assms(1)] by (simp add: nl_def)
  show ?thesis
  proof (cases "s = []")
    case False
    then obtain t where t: "s = t @ nl" using assms(2) by blast
    have "split_on CHR 0x0A s = split_on CHR 0x0A t @ [[]]"
      using split_on_append[of "CHR 0x0A" t "[]"] by (simp add: t nl_def)
    moreover have "split_on CHR 0x0A (s @ l @ nl) = split_on CHR 0x0A t @ [l, []]"
      using split_on_append[of "CHR 0x0A" t "l @ nl"] l by (simp add: t nl_def)
    ultimately show ?thesis by simp
  qed (use l in simp)
qed

lemma ended_text: "lines_ended bs \<Longrightarrow> bytes_string bs = [] \<or> (\<exists>t. bytes_string bs = t @ nl)"
proof (cases bs rule: rev_cases)
  case (snoc cs b)
  assume "lines_ended bs"
  then have "bytes_string bs = bytes_string cs @ nl" using snoc by (simp add: lines_ended_def bytes_string_def nl_def char_of_newline)
  then show ?thesis by blast
qed (simp add: bytes_string_def)

lemma bytes_string_append [simp]: "bytes_string (a @ b) = bytes_string a @ bytes_string b"
  by (simp add: bytes_string_def)

lemma lines_ended_line: "lines_ended (bs @ string_bytes (l @ nl))"
proof -
  have "string_bytes nl = [10]" by (simp add: string_bytes_def nl_def byte_of_char_def)
  then show ?thesis by (simp add: lines_ended_def string_bytes_def)
qed

text \<open>A line with its fields appended to an ended file.\<close>

lemma lines_appended:
  assumes "lines_ended bs" "CHR 0x0A \<notin> set l"
  shows "passwd_lines (bs @ string_bytes (l @ nl)) = butlast (passwd_lines bs) @ [l, []]"
    "set (passwd_lines (bs @ string_bytes (l @ nl))) = insert l (set (passwd_lines bs))"
proof -
  note e = split_ended[OF assms(2) ended_text[OF assms(1)]]
  then show a: "passwd_lines (bs @ string_bytes (l @ nl)) = butlast (passwd_lines bs) @ [l, []]"
    by (simp add: passwd_lines_def)
  have "passwd_lines bs = butlast (passwd_lines bs) @ [[]]"
    using e append_butlast_last_id[of "passwd_lines bs"] by (simp add: passwd_lines_def)
  then have "set (passwd_lines bs) = insert [] (set (butlast (passwd_lines bs)))" by (metis Un_insert_right list.simps(15) set_append sup_bot.right_neutral empty_set)
  then show "set (passwd_lines (bs @ string_bytes (l @ nl))) = insert l (set (passwd_lines bs))" unfolding a by auto
qed

lemma dec_digits_plain: "c \<in> set (dec_digits n) \<Longrightarrow> c \<noteq> CHR 0x0A \<and> c \<noteq> CHR '':''"
proof (induction n rule: dec_digits.induct)
  case (1 n)
  have d: "(char_of (48 + m) :: char) \<noteq> CHR 0x0A \<and> (char_of (48 + m) :: char) \<noteq> CHR '':''" if "m < 10" for m :: nat
    using that by (auto dest!: arg_cong[where f = "of_char :: char \<Rightarrow> nat"])
  show ?case using "1.IH" "1.prems" d[of n] d[of "n mod 10"] unfolding dec_digits.simps[of n] by (auto split: if_splits)
qed

lemma itoa_plain: "c \<in> set (itoa i) \<Longrightarrow> c \<noteq> CHR 0x0A \<and> c \<noteq> CHR '':''"
  using dec_digits_plain[of c "nat i"] dec_digits_plain[of c "nat (- i)"] by (auto simp: itoa_def split: if_splits)

text \<open>The line of a user, without its end.\<close>

definition user_text :: "string \<Rightarrow> string \<Rightarrow> int \<Rightarrow> string" where
  "user_text u p uid = u @ '':'' @ p @ '':'' @ itoa uid @ '':'' @ home_dir u"

lemma user_line_text: "user_line u p uid = user_text u p uid @ nl"
  by (simp add: user_line_def user_text_def)

lemma user_text_lines: "CHR 0x0A \<notin> set u \<Longrightarrow> CHR 0x0A \<notin> set p \<Longrightarrow> CHR 0x0A \<notin> set (user_text u p uid)"
  using itoa_plain by (auto simp: user_text_def home_dir_def)

lemma user_text_fields: "split_on CHR '':'' (user_text u p uid) = split_on CHR '':'' u @ split_on CHR '':'' (p @ '':'' @ itoa uid @ '':'' @ home_dir u)"
  using split_on_append[of "CHR '':''" u] by (simp add: user_text_def)

lemma user_text_matches:
  assumes "field_ok u" "field_ok p"
  shows "line_matches u' p' (user_text u p uid) \<longleftrightarrow> u' = u \<and> p' = p"
proof -
  have "split_on CHR '':'' (p @ '':'' @ itoa uid @ '':'' @ home_dir u) = p # split_on CHR '':'' (itoa uid @ '':'' @ home_dir u)"
    using split_on_append[of "CHR '':''" p] split_on_no_sep[of "CHR '':''" p] assms(2) by (simp add: field_ok_def)
  then have "split_on CHR '':'' (user_text u p uid) = u # p # split_on CHR '':'' (itoa uid @ '':'' @ home_dir u)"
    using split_on_no_sep[of "CHR '':''" u] assms(1) by (simp add: user_text_fields field_ok_def)
  moreover have "user_text u p uid \<noteq> []" by (simp add: user_text_def)
  ultimately show ?thesis by (auto simp: line_matches_def)
qed

text \<open>Who may log in after a user was added: whoever could, and the new user.\<close>

lemma credentials_added:
  assumes "lines_ended bs" "field_ok u" "field_ok p"
  shows "credentials_ok (bs @ string_bytes (user_line u p uid)) u' p' \<longleftrightarrow> credentials_ok bs u' p' \<or> u' = u \<and> p' = p"
proof -
  have n: "CHR 0x0A \<notin> set (user_text u p uid)" using assms(2,3) by (intro user_text_lines) (simp_all add: field_ok_def)
  show ?thesis unfolding credentials_ok_def user_line_text lines_appended(2)[OF assms(1) n]
    using user_text_matches[OF assms(2,3)] by auto
qed

text \<open>
  A name with a colon is nobody's first field, so it is always free, and its line is read as that of the user before the colon with
  the password after it.
\<close>

lemma colon_free: "CHR '':'' \<in> set u \<Longrightarrow> \<not> name_taken bs u"
proof
  assume "CHR '':'' \<in> set u" "name_taken bs u"
  then obtain line where "split_on CHR '':'' line ! 0 = u" by (auto simp: name_taken_def Let_def)
  then have "u \<in> set (split_on CHR '':'' line)" by (metis nth_mem length_greater_0_conv split_on_nonempty)
  then show False using split_parts \<open>CHR '':'' \<in> set u\<close> by blast
qed

lemma colon_matches:
  assumes "field_ok v" "field_ok w"
  shows "line_matches v w (user_text (v @ '':'' @ w) p uid)"
proof -
  have "split_on CHR '':'' (v @ '':'' @ w) = [v, w]"
    using split_on_append[of "CHR '':''" v w] split_on_no_sep[of "CHR '':''"] assms by (simp add: field_ok_def)
  then have "split_on CHR '':'' (user_text (v @ '':'' @ w) p uid) =
      v # w # split_on CHR '':'' (p @ '':'' @ itoa uid @ '':'' @ home_dir (v @ '':'' @ w))"
    unfolding user_text_fields by simp
  moreover have "user_text (v @ '':'' @ w) p uid \<noteq> []" by (simp add: user_text_def)
  ultimately show ?thesis by (simp add: line_matches_def)
qed

section \<open>The password file of a computer\<close>

definition passwd_at :: "string list" where "passwd_at = [''etc'', ''passwd'']"

definition passwd_is :: "kernel \<Rightarrow> u8 list \<Rightarrow> bool" where
  "passwd_is k bs \<longleftrightarrow> kernel_inv k \<and> proper (tree (kfs k)) \<and> (\<exists>m. file_map (tree (kfs k)) passwd_at = Some (File_at m bs))"

lemma passwd_path_of: "path_of proc passwd_path = passwd_at"
  by (rule path_eq) (simp_all add: passwd_path_def passwd_at_def abs_path_def comp_ok_def)

lemma passwd_node:
  assumes "passwd_is k bs" "EUID proc = ''root''"
  obtains i m where "tree_lookup (tree (kfs k)) (EUID proc) (path_of proc passwd_path) 2 = Ok i" "tree (kfs k) i = Some (File_node m bs)"
    "pwalk (tree (kfs k)) passwd_at 2 = Some i" "comps_ok passwd_at"
proof -
  obtain m where "file_map (tree (kfs k)) passwd_at = Some (File_at m bs)" using assms(1) by (auto simp: passwd_is_def)
  then obtain i n where n: "comps_ok passwd_at" "pwalk (tree (kfs k)) passwd_at 2 = Some i" "tree (kfs k) i = Some n"
    "File_at m bs = view_node n" by (auto simp: file_map_Some)
  then have "n = File_node m bs" by (cases n) auto
  then show ?thesis using that n(1-3) lookup_root_pwalk assms(2) by (simp add: passwd_path_of)
qed

lemma passwd_same: "kfs k' = kfs k \<Longrightarrow> kernel_inv k' \<Longrightarrow> passwd_is k bs \<Longrightarrow> passwd_is k' bs"
  by (simp add: passwd_is_def)

lemma passwd_read:
  assumes "passwd_is k bs" "EUID proc = ''root''"
  obtains k' where "sys now proc SYS_READ [AString passwd_path] k = (Ok (RBytes bs), k')" "passwd_is k' bs" "cache_only k k'"
proof -
  have inv: "kernel_inv k" using assms(1) by (simp add: passwd_is_def)
  obtain i m where i: "tree_lookup (tree (kfs k)) (EUID proc) (path_of proc passwd_path) 2 = Ok i" "tree (kfs k) i = Some (File_node m bs)"
    by (rule passwd_node[OF assms])
  have "tree_read (tree (kfs k)) (EUID proc) (path_of proc passwd_path) = Ok bs"
    using i assms(2) by (simp add: tree_read_def may_def)
  then obtain k' where "sys now proc SYS_READ [AString passwd_path] k = (Ok (RBytes bs), k')" "kernel_inv k'" "cache_only k k'"
    using sys_read[OF inv, of now proc passwd_path] by (metis bindO.simps(1))
  then show ?thesis using that passwd_same[OF _ _ assms(1)] by simp
qed

definition room_to_write :: "kernel \<Rightarrow> u8 list \<Rightarrow> u8 list \<Rightarrow> bool" where
  "room_to_write k old new \<longleftrightarrow> length new \<le> max_blocks * BLOCKSIZE \<and>
     needed_blocks (nblocks (length old)) (nblocks (length new)) \<le> free_blocks (kfs k)"

lemma passwd_write:
  assumes "passwd_is k bs" "EUID proc = ''root''" "room_to_write k bs dat"
  obtains k' m where "sys now proc SYS_WRITE [AString passwd_path, ABytes dat] k = (Ok RNil, k')" "passwd_is k' dat" "fs_only k k'"
    "file_map (tree (kfs k')) = (file_map (tree (kfs k)))(passwd_at \<mapsto> File_at m dat)"
proof -
  have inv: "kernel_inv k" "proper (tree (kfs k))" using assms(1) by (simp_all add: passwd_is_def)
  obtain i m where i: "tree_lookup (tree (kfs k)) (EUID proc) (path_of proc passwd_path) 2 = Ok i" "tree (kfs k) i = Some (File_node m bs)"
    "pwalk (tree (kfs k)) passwd_at 2 = Some i" "comps_ok passwd_at" by (rule passwd_node[OF assms(1,2)])
  obtain k' where k': "writeFile now proc passwd_path dat k = (Ok (), k')" "kernel_inv k'" "fs_only k k'"
    "tree (kfs k') = (tree (kfs k))(i \<mapsto> File_node m dat)"
    by (rule writeFile_spec[OF inv(1) i(1,2), of dat now]) (use assms(2,3) in \<open>auto simp: may_def room_to_write_def free_blocks_def\<close>)
  note c = change_node[OF inv(2) i(3,4,2), of "File_node m dat", folded k'(4)]
  have "passwd_is k' dat" using c k'(2) by (auto simp: passwd_is_def)
  then show ?thesis using that[OF sys_write[OF k'(1)] _ k'(3)] c by simp
qed

lemma credentials_checked:
  assumes "passwd_is k bs" "EUID proc = ''root''"
  shows "\<exists>k'. checkCredentials proc u p k = (Ok (credentials_ok bs u p), k') \<and> passwd_is k' bs \<and> cache_only k k'"
  by (rule passwd_read[OF assms, of "(0, 0)"]) (auto simp: checkCredentials_def res_bytes_def)

lemma addUser_appends:
  assumes "passwd_is k bs" "EUID proc = ''root''" "room_to_write k bs (bs @ string_bytes (user_line u p uid))"
  obtains k' m where "addUser now proc u p uid k = (Ok (''Successfully added '' @ u), k')"
    "passwd_is k' (bs @ string_bytes (user_line u p uid))" "fs_only k k'"
    "file_map (tree (kfs k')) = (file_map (tree (kfs k)))(passwd_at \<mapsto> File_at m (bs @ string_bytes (user_line u p uid)))"
proof -
  obtain k1 where k1: "sys now proc SYS_READ [AString passwd_path] k = (Ok (RBytes bs), k1)" "passwd_is k1 bs" "cache_only k k1"
    by (rule passwd_read[OF assms(1,2)])
  have room: "room_to_write k1 bs (bs @ string_bytes (user_line u p uid))" using assms(3) k1(3) by (simp add: room_to_write_def)
  obtain k' m where k': "sys now proc SYS_WRITE [AString passwd_path, ABytes (bs @ string_bytes (user_line u p uid))] k1 = (Ok RNil, k')"
    "passwd_is k' (bs @ string_bytes (user_line u p uid))" "fs_only k1 k'"
    "file_map (tree (kfs k')) = (file_map (tree (kfs k1)))(passwd_at \<mapsto> File_at m (bs @ string_bytes (user_line u p uid)))"
    by (rule passwd_write[OF k1(2) assms(2) room])
  show ?thesis
    by (rule that[OF _ k'(2) fs_only_trans[OF cache_only_fs[OF k1(3)] k'(3)]])
      (use k1 k'(1,4) in \<open>simp_all add: addUser_def res_bytes_def\<close>)
qed

section \<open>Adding users\<close>

text \<open>
  C18. Adding a user writes one line to the password file and changes no other path; from then on whoever could log in still can, and
  the new user with the new password, and nobody else. Name and password are without colon and newline.
\<close>

theorem adduser_grants_login:
  assumes "passwd_is k bs" "lines_ended bs" "EUID proc = ''root''" "field_ok u" "field_ok p"
    and "room_to_write k bs (bs @ string_bytes (user_line u p uid))"
  shows "\<exists>k' m. addUser now proc u p uid k = (Ok (''Successfully added '' @ u), k') \<and>
    file_map (tree (kfs k')) = (file_map (tree (kfs k)))(passwd_at \<mapsto> File_at m (bs @ string_bytes (user_line u p uid))) \<and>
    lines_ended (bs @ string_bytes (user_line u p uid)) \<and>
    (\<forall>u' p'. \<exists>k''. checkCredentials proc u' p' k' = (Ok (credentials_ok bs u' p' \<or> u' = u \<and> p' = p), k'') \<and> cache_only k' k'')"
proof -
  obtain k' m where k': "addUser now proc u p uid k = (Ok (''Successfully added '' @ u), k')"
    "passwd_is k' (bs @ string_bytes (user_line u p uid))" "fs_only k k'"
    "file_map (tree (kfs k')) = (file_map (tree (kfs k)))(passwd_at \<mapsto> File_at m (bs @ string_bytes (user_line u p uid)))"
    by (rule addUser_appends[OF assms(1,3,6)])
  have "lines_ended (bs @ string_bytes (user_line u p uid))" unfolding user_line_text by (rule lines_ended_line)
  moreover have "\<exists>k''. checkCredentials proc u' p' k' = (Ok (credentials_ok bs u' p' \<or> u' = u \<and> p' = p), k'') \<and> cache_only k' k''" for u' p'
    using credentials_checked[OF k'(2) assms(3), of u' p'] credentials_added[OF assms(2,4,5), of uid u' p'] by auto
  ultimately show ?thesis using k'(1,4) by blast
qed

text \<open>
  C38. \<open>adduser\<close> does not look for colons: the name \<open>v:w\<close> is free whoever exists, and once it is added, with any password, the user
  \<open>v\<close> may log in with the password \<open>w\<close>. Whoever may run \<open>adduser\<close> becomes root this way.
\<close>

theorem adduser_impersonates:
  assumes "passwd_is k bs" "lines_ended bs" "EUID proc = ''root''" "field_ok v" "field_ok w" "CHR 0x0A \<notin> set p"
    and "room_to_write k bs (bs @ string_bytes (user_line (v @ '':'' @ w) p uid))"
  shows "\<exists>k1 k2 k3. isUsernameUnique proc (v @ '':'' @ w) k = (Ok True, k1) \<and>
    addUser now proc (v @ '':'' @ w) p uid k = (Ok (''Successfully added '' @ v @ '':'' @ w), k2) \<and>
    checkCredentials proc v w k2 = (Ok True, k3)"
proof -
  let ?u = "v @ '':'' @ w"
  obtain k1 where k1: "sys (0, 0) proc SYS_READ [AString passwd_path] k = (Ok (RBytes bs), k1)"
    by (rule passwd_read[OF assms(1,3)])
  have "\<not> name_taken bs ?u" by (rule colon_free) simp
  then have "isUsernameUnique proc ?u k = (Ok True, k1)" using k1 by (simp add: isUsernameUnique_def res_bytes_def)
  moreover obtain k2 m where k2: "addUser now proc ?u p uid k = (Ok (''Successfully added '' @ ?u), k2)"
    "passwd_is k2 (bs @ string_bytes (user_line ?u p uid))" by (rule addUser_appends[OF assms(1,3,7)])
  moreover have "credentials_ok (bs @ string_bytes (user_line ?u p uid)) v w"
  proof -
    have n: "CHR 0x0A \<notin> set (user_text ?u p uid)" using assms(4-6) by (intro user_text_lines) (auto simp: field_ok_def)
    show ?thesis unfolding credentials_ok_def user_line_text lines_appended(2)[OF assms(2) n]
      using colon_matches[OF assms(4,5)] by blast
  qed
  ultimately show ?thesis using credentials_checked[OF k2(2) assms(3), of v w] by auto
qed

section \<open>The first user\<close>

lemma blank_empty: "blank_text []"
  by (simp add: blank_text_def runes_def)

lemma first_user_line: "username @ '':'' @ password @ '':'' @ itoa uid @ '':'' @ home @ nl = user_line username password uid"
  if "home = home_dir username"
  by (simp add: user_line_def that)

lemma passwd_Register: "passwd_is (Register k) bs = passwd_is k bs" "free_blocks (kfs (Register k)) = free_blocks (kfs k)"
proof -
  have e: "kfs (Register k) = kfs k" by (simp add: Register_eq)
  show "passwd_is (Register k) bs = passwd_is k bs" "free_blocks (kfs (Register k)) = free_blocks (kfs k)"
    by (simp_all add: passwd_is_def kernel_inv_Register e)
qed

lemma add_first_user_fresh:
  assumes "passwd_is k []" "room_to_write k [] (string_bytes (user_line u p 1000))"
  obtains k' where "add_first_user now node u p k = (Ok (''Added user '' @ u @ '' to '' @ node @ nl, Success), k')"
    "passwd_is k' (string_bytes (user_line u p 1000))" "fs_only k k'"
proof -
  obtain k1 where k1: "sys now root_proc SYS_READ [AString passwd_path] k = (Ok (RBytes []), k1)" "passwd_is k1 []" "cache_only k k1"
    by (rule passwd_read[OF assms(1) root_proc_root])
  have room: "room_to_write k1 [] (string_bytes (user_line u p 1000))" using assms(2) k1(3) by (simp add: room_to_write_def)
  obtain k' where k': "sys now root_proc SYS_WRITE [AString passwd_path, ABytes (string_bytes (user_line u p 1000))] k1 = (Ok RNil, k')"
    "passwd_is k' (string_bytes (user_line u p 1000))" "fs_only k1 k'" by (rule passwd_write[OF k1(2) root_proc_root room])
  have n: "count_users u (passwd_lines []) 0 = Some 0" by (simp add: passwd_lines_def bytes_string_def blank_empty)
  have h: "(if u = ''root'' then ''/root'' else ''/home/'' @ u) = home_dir u" by (simp add: home_dir_def)
  have "add_first_user now node u p k = (Ok (''Added user '' @ u @ '' to '' @ node @ nl, Success), k')"
    unfolding add_first_user_def k1(1) on_result.simps Let_def res_bytes_def sys_result.case n option.case h
    using k'(1) first_user_line[OF refl, of u p "1000"] by simp
  then show ?thesis using that k'(2) fs_only_trans[OF cache_only_fs[OF k1(3)] k'(3)] by blast
qed

lemma booted_passwd:
  assumes "booting k (boot_map hostname ip) 28"
  shows "passwd_is k []" "length dat \<le> BLOCKSIZE \<Longrightarrow> room_to_write (Register k) [] dat"
proof -
  have b: "kernel_inv k" "proper (tree (kfs k))" "file_map (tree (kfs k)) = boot_map hostname ip" "small_tree (tree (kfs k)) 28"
    using assms by (simp_all add: booting_def)
  have "boot_map hostname ip passwd_at = Some (plain_file [])" by (simp add: boot_map_def passwd_at_def)
  then show "passwd_is k []" using b by (simp add: passwd_is_def plain_file_def string_bytes_def)
  assume len: "length dat \<le> BLOCKSIZE"
  have "1 \<le> free_blocks (kfs k)" by (rule small_room(1)[OF b(1,2,4)]) simp_all
  moreover have "nblocks (length dat) \<in> {0, 1}" using len by (auto simp: nblocks_def layout)
  moreover have "nblocks 0 = 0" by (simp add: nblocks_def layout)
  ultimately show "room_to_write (Register k) [] dat"
    using len by (auto simp: room_to_write_def passwd_Register(2) needed_small layout)
qed

text \<open>
  C17. The chicken and the egg: on a computer that has just booted nobody can log in; after the admin added a first user, whose name and
  password are without colon and newline, exactly this user can, with exactly this password.
\<close>

theorem first_user_logs_in:
  assumes "NewComputer clock hostname ip None ctime mtime = (Ok (), k)" "length hostname + length ip \<le> 4000"
    and "field_ok u" "field_ok p" "length (user_line u p 1000) \<le> BLOCKSIZE"
  shows "\<exists>k'. add_first_user now node u p (Register k) = (Ok (''Added user '' @ u @ '' to '' @ node @ nl, Success), k') \<and>
    kernel_inv k' \<and> (\<forall>u' p'. \<exists>k1 k2.
      checkCredentials root_proc u' p' (Register k) = (Ok False, k1) \<and> checkCredentials root_proc u' p' k' = (Ok (u' = u \<and> p' = p), k2))"
proof -
  obtain k0 where "NewComputer clock hostname ip None ctime mtime = (Ok (), k0)" "booting k0 (boot_map hostname ip) 28"
    by (rule first_booted[OF assms(2)])
  then have b: "booting k (boot_map hostname ip) 28" using assms(1) by simp
  have pw: "passwd_is (Register k) []" using booted_passwd(1)[OF b] by (simp add: passwd_Register(1))
  have room: "room_to_write (Register k) [] (string_bytes (user_line u p 1000))"
    by (rule booted_passwd(2)[OF b]) (use assms(5) in simp)
  obtain k' where k': "add_first_user now node u p (Register k) = (Ok (''Added user '' @ u @ '' to '' @ node @ nl, Success), k')"
    "passwd_is k' (string_bytes (user_line u p 1000))" by (rule add_first_user_fresh[OF pw room])
  have none: "\<not> credentials_ok [] u' p'" for u' p'
    by (simp add: credentials_ok_def passwd_lines_def bytes_string_def line_matches_def)
  have "credentials_ok (string_bytes (user_line u p 1000)) u' p' \<longleftrightarrow> u' = u \<and> p' = p" for u' p'
    using credentials_added[OF _ assms(3,4), of "[]" 1000 u' p'] none by (simp add: lines_ended_def)
  then have "\<exists>k1 k2. checkCredentials root_proc u' p' (Register k) = (Ok False, k1) \<and>
      checkCredentials root_proc u' p' k' = (Ok (u' = u \<and> p' = p), k2)" for u' p'
    using credentials_checked[OF pw root_proc_root, of u' p'] credentials_checked[OF k'(2) root_proc_root, of u' p'] none by auto
  then show ?thesis using k' by (auto simp: passwd_is_def)
qed

section \<open>Login\<close>

text \<open>Up to the check of the password a login changes the terminal and the cache only.\<close>

definition quiet :: "kernel \<Rightarrow> kernel \<Rightarrow> bool" where
  "quiet k k' \<longleftrightarrow> kfs k' = kfs k \<and> sessions k' = sessions k \<and> openFiles k' = openFiles k \<and>
     length (ttys k') = length (ttys k) \<and> (kernel_inv k \<longrightarrow> kernel_inv k')"

lemma quiet_trans [trans]: "quiet k k' \<Longrightarrow> quiet k' k'' \<Longrightarrow> quiet k k''"
  by (simp add: quiet_def)

lemma quiet_term: "term_only k k' \<Longrightarrow> quiet k k'"
  using term_only_inv[of k k'] by (simp add: quiet_def term_only_def)

lemmas quiet_calls = term_only_out[THEN quiet_term] term_only_ctl[THEN quiet_term]

lemma quiet_passwd: "quiet k k' \<Longrightarrow> passwd_is k bs \<Longrightarrow> passwd_is k' bs"
  by (simp add: quiet_def passwd_is_def)

lemma quiet_cache: "cache_only k k' \<Longrightarrow> kernel_inv k' \<Longrightarrow> quiet k k'"
  using cache_only_fs[of k k'] by (simp add: quiet_def fs_only_def)

lemma quiet_greet:
  assumes "kernel_inv k" "greet proc path f k = (r, k')"
  shows "quiet k k'"
proof -
  obtain r1 k1 where k1: "sys (0, 0) proc SYS_READ [AString path] k = (r1, k1)" "kernel_inv k1" "cache_only k k1"
    using sys_read[OF assms(1), of "(0, 0)" proc path] by metis
  note q = quiet_cache[OF k1(3,2)]
  have "k' = k1 \<or> (\<exists>s. k' = out proc s k1)" using assms(2) k1(1) by (cases r1) (auto simp: greet_def)
  then show ?thesis using q quiet_trans[OF q quiet_calls(1)] by blast
qed

text \<open>
  What a run may have done: nothing to the sessions, without success; or it opened one for a user that \<open>who\<close> allows, and if it
  succeeded this is the session of its terminal.
\<close>

definition new_session :: "kernel \<Rightarrow> string \<Rightarrow> kernel \<Rightarrow> bool" where
  "new_session k u k' \<longleftrightarrow> sessions k' = (sessions k)(GenerateSessionID k \<mapsto> \<lparr>SessionID = GenerateSessionID k, CurrentUser = u\<rparr>)"

definition attached :: "process \<Rightarrow> kernel \<Rightarrow> string \<Rightarrow> kernel \<Rightarrow> bool" where
  "attached proc k u k' \<longleftrightarrow> (\<forall>t < length (ttys k). stdin_tty proc k = Some t \<longrightarrow>
     t < length (ttys k') \<and> Session (ttys k' ! t) = Some \<lparr>SessionID = GenerateSessionID k, CurrentUser = u\<rparr>)"

definition logs_in :: "process \<Rightarrow> kernel \<Rightarrow> (string \<Rightarrow> bool) \<Rightarrow> int progress outcome \<times> waiting \<Rightarrow> bool" where
  "logs_in proc k who m \<longleftrightarrow>
     fst m \<noteq> Ok (Ended Success) \<and> sessions (fst (snd m)) = sessions k \<or>
     (\<exists>u. who u \<and> new_session k u (fst (snd m)) \<and> (fst m = Ok (Ended Success) \<longrightarrow> attached proc k u (fst (snd m))))"

lemma logs_in_not: "r \<noteq> Ok (Ended Success) \<Longrightarrow> quiet k k' \<Longrightarrow> logs_in q k who (r, (k', es))"
  by (simp add: logs_in_def quiet_def)

lemma read_line_logs_in:
  assumes "quiet k0 k"
    and "\<And>v k' es'. quiet k0 k' \<Longrightarrow> Kernel_Read proc 0 es k = (Ok (Some (v, Success)), (k', es')) \<Longrightarrow> logs_in q k0 who (f v (k', es'))"
  shows "logs_in q k0 who (read_line proc Error (k, es) f)"
proof -
  obtain r k' es' where r: "Kernel_Read proc 0 es k = (r, (k', es'))" by (metis prod.exhaust)
  note q = quiet_trans[OF assms(1) quiet_term[OF term_only_Kernel_Read[OF r]]]
  have e: "Error \<noteq> Success" by (simp add: status_defs)
  show ?thesis
    using assms(2)[OF q] r logs_in_not[OF _ q] e
    by (auto simp: read_line_def next_input_def split: outcome.splits option.splits prod.splits)
qed

lemma on_kernel_logs_in:
  assumes "m = (r, k')" "quiet k0 k'" "\<And>x. r = Ok x \<Longrightarrow> logs_in q k0 who (f x (k', es))"
  shows "logs_in q k0 who (on_kernel m es f)"
  using assms logs_in_not[OF _ assms(2)] by (cases r) (simp_all add: on_kernel_def)

lemma NewSession_attached:
  assumes "quiet k0 k1" "Kernel_NewSession now proc u k1 = (r, k2)"
  shows "new_session k0 u k2" "\<And>x. r = Ok x \<Longrightarrow> fst x = Success \<and> attached proc k0 u k2"
proof -
  obtain r1 k3 where n: "NewSession now u k1 = (r1, k3)" by fastforce
  have g: "GenerateSessionID k1 = GenerateSessionID k0" "sessions k1 = sessions k0" "openFiles k1 = openFiles k0" "length (ttys k1) = length (ttys k0)"
    using assms(1) by (simp_all add: quiet_def GenerateSessionID_def)
  have k3: "new_session k0 u k3" "openFiles k3 = openFiles k0" "length (ttys k3) = length (ttys k0)"
    using NewSession_fs(1)[OF n] g by (simp_all add: new_session_def fs_only_def)
  have t: "stdin_tty proc k3 = stdin_tty proc k0" by (rule stdin_same[OF k3(2)])
  show "new_session k0 u k2"
    using assms(2) k3(1) by (cases r1) (auto simp: Kernel_NewSession_def n new_session_def set_tty_def case_prod_beta split: option.splits)
  fix x assume "r = Ok x"
  then have r1: "r1 = Ok (Success, GenerateSessionID k0)"
    using assms(2) NewSession_fs(2)[OF n] g(1) by (cases r1) (auto simp: Kernel_NewSession_def n)
  then show "fst x = Success \<and> attached proc k0 u k2"
    using assms(2) \<open>r = Ok x\<close> k3(1,3) t
    by (auto simp: Kernel_NewSession_def n attached_def set_tty_def new_session_def split: option.splits)
qed

lemma open_session_logs_in:
  assumes "kernel_inv k" "quiet k0 k" "who u"
  shows "logs_in proc k0 who (on_kernel (open_session now proc u k) es (\<lambda>status (k, es). (Ok (Ended status), (k, es))))"
proof -
  let ?f = "\<lambda>motd. str_replace motd ''[[USERNAME]]'' u"
  obtain r1 k1 where g: "greet proc ''/etc/motd'' ?f k = (r1, k1)" by fastforce
  note q = quiet_trans[OF assms(2) quiet_greet[OF assms(1) g]]
  show ?thesis
  proof (cases r1)
    case (Ok x)
    obtain r2 k2 where n: "Kernel_NewSession now proc u k1 = (r2, k2)" by fastforce
    show ?thesis
      using NewSession_attached[OF q n] Ok g n assms(3) by (cases r2) (auto simp: open_session_def on_kernel_def logs_in_def)
  qed (use g logs_in_not[OF _ q] in \<open>simp_all add: open_session_def on_kernel_def\<close>)
qed

text \<open>
  The terminal a process reads from, up to what was written to it: what it reads and leaves depends on nothing else.
\<close>

definition at_term :: "process \<Rightarrow> kernel \<Rightarrow> tty \<Rightarrow> bool" where
  "at_term proc k tt \<longleftrightarrow> map_option modes (term_of proc k) = Some (modes tt)"

lemma at_term_out [simp]: "at_term proc (out p s k) tt = at_term proc k tt"
  by (simp add: at_term_def out_modes)

lemma at_term_passwd:
  assumes "at_term proc k tt"
  shows "at_term proc (ctl proc TIOCPASSWD (ABool b) k) (tt\<lparr>PasswdMode := b\<rparr>)"
proof -
  obtain t where t: "term_of proc k = Some t" "modes t = modes tt" using assms by (auto simp: at_term_def)
  have "term_of proc (ctl proc TIOCPASSWD (ABool b) k) = Some (t\<lparr>PasswdMode := b\<rparr>)"
    by (rule ctl_term[OF t(1)]) (simp add: tty_ioctl_def)
  then show ?thesis using t(2) by (simp add: at_term_def modes_def)
qed

lemma at_term_cache: "cache_only k k' \<Longrightarrow> at_term proc k' tt = at_term proc k tt"
  using cache_only_fs[of k k'] term_of_same[of k' k proc] by (simp add: at_term_def fs_only_def)

lemma at_term_greet:
  assumes "kernel_inv k" "greet proc path f k = (r, k')"
  shows "at_term proc k' tt = at_term proc k tt"
proof -
  obtain r1 k1 where k1: "sys (0, 0) proc SYS_READ [AString path] k = (r1, k1)" "cache_only k k1"
    using sys_read[OF assms(1), of "(0, 0)" proc path] by metis
  have "k' = k1 \<or> (\<exists>s. k' = out proc s k1)" using assms(2) k1(1) by (cases r1) (auto simp: greet_def)
  then show ?thesis using at_term_cache[OF k1(2)] by auto
qed

lemma at_term_read:
  assumes "at_term proc k tt" "Kernel_Read proc 0 es k = (r, (k', es'))"
  obtains tt' where "TTY_Read (PGID proc) es tt = (r, (tt', es'))" "at_term proc k' tt'"
proof -
  obtain t where t: "term_of proc k = Some t" "modes t = modes tt" using assms(1) by (auto simp: at_term_def)
  obtain q t1 es1 where q: "TTY_Read (PGID proc) es t = (q, (t1, es1))" by (metis prod.exhaust)
  obtain tt' where tt': "TTY_Read (PGID proc) es tt = (q, (tt', es1))" "modes t1 = modes tt'"
    using TTY_Read_modes[OF t(2) q] by blast
  obtain k1 where "Kernel_Read proc 0 es k = (q, (k1, es1))" "term_of proc k1 = Some t1"
    using Kernel_Read_term[OF t(1) q] by blast
  then show thesis using that[of tt'] tt' assms(2) by (simp add: at_term_def)
qed

text \<open>
  The name and the password that events give at a terminal: the line that a read by the group \<open>g\<close> returns, and the line that the next
  read returns, of the events the first has left, without echo. Both are values of the terminal and the events.
\<close>

definition typed_at :: "int \<Rightarrow> tty \<Rightarrow> tty_event list \<Rightarrow> string \<Rightarrow> string \<Rightarrow> bool" where
  "typed_at g tt es u p \<longleftrightarrow> (case TTY_Read g es tt of (r, (tt', es')) \<Rightarrow>
     r = Ok (Some (u, Success)) \<and> fst (TTY_Read g es' (tt'\<lparr>PasswdMode := True\<rparr>)) = Ok (Some (p, Success)))"

lemma typed_at_unique: "typed_at g tt es u p \<Longrightarrow> typed_at g tt es u' p' \<Longrightarrow> u' = u \<and> p' = p"
  by (auto simp: typed_at_def split: prod.splits)

text \<open>Only Enter twice at a terminal with no text on its line types nothing.\<close>

lemma enter_types_nothing:
  assumes "line_ok tt" "tty_line tt = ([], [])" "typed_at g tt (Key key_enter # es) u p"
  shows "u = []"
proof -
  obtain t' where t': "tty_enter tt = Some ([], t')" using tty_enter_text[OF assms(1)] assms(2) by auto
  then have "read_key key_enter tt = (Ok (Some ([], Success)), t')"
    by (auto simp: tty_enter_def split: outcome.splits option.splits prod.splits if_splits)
  then show ?thesis using assms(3) by (auto simp: typed_at_def TTY_Read_def status_defs split: if_splits)
qed

lemma login_spec:
  assumes "passwd_is k bs" "EUID proc = ''root''"
  shows "logs_in proc k (\<lambda>u. \<exists>p. (\<forall>tt. at_term proc k tt \<longrightarrow> typed_at (PGID proc) tt es u p) \<and> u \<noteq> [] \<and> p \<noteq> [] \<and> credentials_ok bs u p) (Login_Run now proc params (k, es))"
proof -
  let ?who = "\<lambda>u. \<exists>p. (\<forall>tt. at_term proc k tt \<longrightarrow> typed_at (PGID proc) tt es u p) \<and> u \<noteq> [] \<and> p \<noteq> [] \<and> credentials_ok bs u p"
  have no: "Ok (Ended Error) \<noteq> Ok (Ended Success)" by (simp add: status_defs)
  have inv: "kernel_inv k" using assms(1) by (simp add: passwd_is_def)
  obtain r1 k1 where g: "greet proc ''/etc/issue'' (\<lambda>issue. issue) k = (r1, k1)" by fastforce
  have q1: "quiet k (out proc s k1)" for s by (rule quiet_trans[OF quiet_greet[OF inv g] quiet_calls(1)])
  show ?thesis
    unfolding Login_Run_def prod.case
  proof (rule on_kernel_logs_in[OF g quiet_greet[OF inv g]], unfold prod.case, rule read_line_logs_in[OF q1], unfold prod.case)
    fix u k2 es2
    assume u: "quiet k k2" "Kernel_Read proc 0 es (out proc (cr @ nl @ ''USERNAME: '') k1) = (Ok (Some (u, Success)), (k2, es2))"
    let ?k2 = "out proc (cr @ nl @ ''PASSWORD: '') (ctl proc TIOCPASSWD (ABool True) k2)"
    note q2 = quiet_trans[OF u(1) quiet_trans[OF quiet_calls(2) quiet_calls(1)]]
    show "logs_in proc k ?who (if u = [] then (Ok (Ended Error), (k2, es2)) else read_line proc Error (?k2, es2)
      (\<lambda>p (k, es). if p = [] then (Ok (Ended Error), (k, es))
        else on_kernel (checkCredentials proc u p (ctl proc TIOCPASSWD (ABool False) k)) es (\<lambda>ok (k, es).
          if \<not> ok then (Ok (Ended Error), (k, es))
          else on_kernel (open_session now proc u k) es (\<lambda>status (k, es). (Ok (Ended status), (k, es))))))"
    proof (cases "u = []")
      case False
      have "logs_in proc k ?who (if p = [] then (Ok (Ended Error), (k3, es3))
        else on_kernel (checkCredentials proc u p (ctl proc TIOCPASSWD (ABool False) k3)) es3 (\<lambda>ok (k, es).
          if \<not> ok then (Ok (Ended Error), (k, es))
          else on_kernel (open_session now proc u k) es (\<lambda>status (k, es). (Ok (Ended status), (k, es)))))"
        if p: "quiet k k3" "Kernel_Read proc 0 es2 ?k2 = (Ok (Some (p, Success)), (k3, es3))" for p k3 es3
      proof (cases "p = []")
        case pw: False
        note q3 = quiet_trans[OF p(1) quiet_calls(2)]
        obtain k4 where k4: "checkCredentials proc u p (ctl proc TIOCPASSWD (ABool False) k3) = (Ok (credentials_ok bs u p), k4)"
          "passwd_is k4 bs" "cache_only (ctl proc TIOCPASSWD (ABool False) k3) k4"
          using credentials_checked[OF quiet_passwd[OF q3 assms(1)] assms(2)] by blast
        have inv4: "kernel_inv k4" using k4(2) by (simp add: passwd_is_def)
        note q4 = quiet_trans[OF q3 quiet_cache[OF k4(3) inv4]]
        have t: "typed_at (PGID proc) tt es u p" if at: "at_term proc k tt" for tt
        proof -
          have "at_term proc (out proc (cr @ nl @ ''USERNAME: '') k1) tt" using at_term_greet[OF inv g] at by simp
          from at_term_read[OF this u(2)] obtain tt1 where
            t1: "TTY_Read (PGID proc) es tt = (Ok (Some (u, Success)), (tt1, es2))" "at_term proc k2 tt1" by blast
          have "at_term proc ?k2 (tt1\<lparr>PasswdMode := True\<rparr>)" using at_term_passwd[OF t1(2)] by simp
          from at_term_read[OF this p(2)] obtain tt2 where
            "TTY_Read (PGID proc) es2 (tt1\<lparr>PasswdMode := True\<rparr>) = (Ok (Some (p, Success)), (tt2, es3))" by blast
          then show ?thesis using t1(1) by (simp add: typed_at_def)
        qed
        have who: "?who u" if "credentials_ok bs u p" using that t False pw by blast
        have o: "logs_in proc k ?who (on_kernel (open_session now proc u k4) es3 (\<lambda>status (k, es). (Ok (Ended status), (k, es))))"
          if "credentials_ok bs u p" by (rule open_session_logs_in[OF inv4 q4]) (rule who[OF that])
        show ?thesis
          using on_kernel_logs_in[OF k4(1) q4, where es = es3 and who = ?who] o logs_in_not[OF no q4] pw by simp
      qed (use logs_in_not[OF no p(1)] in simp)
      then show ?thesis using read_line_logs_in[OF q2] False by simp
    qed (use logs_in_not[OF no u(1)] in simp)
  qed
qed

text \<open>
  Nobody logs in without a password: whatever arrives at the terminal, a login either does not succeed and opens no session, or the events
  give, at the terminal as the login found it, two lines that are not empty, the name and the password of one line of the password file,
  and the one session it opens is of this user. It never stops with a session of anybody else, on any path.
\<close>

theorem login_needs_password:
  assumes "passwd_is k bs" "EUID proc = ''root''" "Login_Run now proc params (k, es) = (r, (k', es'))"
  shows "r \<noteq> Ok (Ended Success) \<and> sessions k' = sessions k \<or>
    (\<exists>u p. (\<forall>tt. at_term proc k tt \<longrightarrow> typed_at (PGID proc) tt es u p) \<and> u \<noteq> [] \<and> p \<noteq> [] \<and> credentials_ok bs u p \<and>
       sessions k' = (sessions k)(GenerateSessionID k \<mapsto> \<lparr>SessionID = GenerateSessionID k, CurrentUser = u\<rparr>))"
  using login_spec[OF assms(1,2), of es now params] unfolding assms(3) by (auto simp: logs_in_def new_session_def)

text \<open>A computer that has just booted and has root as its first user, with the password \<open>pw\<close>.\<close>

lemma demo_users:
  assumes "length (user_line u p 1000) \<le> BLOCKSIZE"
  obtains k where "passwd_is k []" "room_to_write (Register k) [] (string_bytes (user_line u p 1000))"
proof -
  obtain k where k: "NewComputer (\<lambda>j. (1, 2)) ''pc'' ''10.0.0.1'' None 0 0 = (Ok (), k)" "booting k (boot_map ''pc'' ''10.0.0.1'') 28"
    by (rule first_booted[of "''pc''" "''10.0.0.1''"]) simp
  show ?thesis by (rule that[OF booted_passwd(1)[OF k(2)]]) (rule booted_passwd(2)[OF k(2)], use assms in simp)
qed

lemma short_line: "length u + length p \<le> 100 \<Longrightarrow> length (user_line u p 1000) \<le> BLOCKSIZE"
proof -
  assume "length u + length p \<le> 100"
  moreover have "itoa 1000 = ''1000''" by code_simp
  ultimately show ?thesis by (simp add: user_line_def home_dir_def nl_def layout)
qed

theorem first_user_logs_in_witness:
  "\<exists>k k'. add_first_user (0, 0) ''pc'' ''ann'' ''pw'' k = (Ok (''Added user ann to pc'' @ nl, Success), k') \<and>
     fst (checkCredentials root_proc ''ann'' ''pw'' k') = Ok True \<and> fst (checkCredentials root_proc ''ann'' ''px'' k') = Ok False"
proof -
  obtain k where k: "NewComputer (\<lambda>j. (1, 2)) ''pc'' ''10.0.0.1'' None 0 0 = (Ok (), k)"
    by (rule first_booted[of "''pc''" "''10.0.0.1''"]) simp
  have len: "length ''pc'' + length ''10.0.0.1'' \<le> 4000" "length (user_line ''ann'' ''pw'' 1000) \<le> BLOCKSIZE"
    by (simp, rule short_line, simp)
  have f: "field_ok ''ann''" "field_ok ''pw''" by (simp_all add: field_ok_def)
  obtain k' where k': "add_first_user (0, 0) ''pc'' ''ann'' ''pw'' (Register k) = (Ok (''Added user '' @ ''ann'' @ '' to '' @ ''pc'' @ nl, Success), k')"
    "\<forall>u' p'. \<exists>k1 k2. checkCredentials root_proc u' p' (Register k) = (Ok False, k1) \<and>
      checkCredentials root_proc u' p' k' = (Ok (u' = ''ann'' \<and> p' = ''pw''), k2)"
    using first_user_logs_in[OF k len(1) f len(2), of "(0, 0)" "''pc''"] by blast
  have "fst (checkCredentials root_proc ''ann'' ''pw'' k') = Ok True" "fst (checkCredentials root_proc ''ann'' ''px'' k') = Ok False"
    using k'(2)[rule_format, of "''ann''" "''pw''"] k'(2)[rule_format, of "''ann''" "''px''"] by auto
  then show ?thesis using k'(1) by auto
qed

theorem adduser_grants_login_witness:
  "\<exists>k k'. passwd_is k [] \<and> addUser (0, 0) root_proc ''ann'' ''pw'' 1000 k = (Ok (''Successfully added '' @ ''ann''), k') \<and>
     fst (checkCredentials root_proc ''ann'' ''pw'' k') = Ok True \<and> fst (checkCredentials root_proc ''bob'' ''pw'' k') = Ok False"
proof -
  obtain k where k: "passwd_is k []" "room_to_write (Register k) [] (string_bytes (user_line ''ann'' ''pw'' 1000))"
    by (rule demo_users[OF short_line[of "''ann''" "''pw''"]]) simp_all
  have pw: "passwd_is (Register k) []" using k(1) by (simp add: passwd_Register(1))
  have f: "lines_ended []" "field_ok ''ann''" "field_ok ''pw''" by (simp_all add: lines_ended_def field_ok_def)
  have room: "room_to_write (Register k) [] ([] @ string_bytes (user_line ''ann'' ''pw'' 1000))" using k(2) by simp
  obtain k' where k': "addUser (0, 0) root_proc ''ann'' ''pw'' 1000 (Register k) = (Ok (''Successfully added '' @ ''ann''), k')"
    "\<forall>u' p'. \<exists>k''. checkCredentials root_proc u' p' k' = (Ok (credentials_ok [] u' p' \<or> u' = ''ann'' \<and> p' = ''pw''), k'')"
    using adduser_grants_login[OF pw f(1) root_proc_root f(2,3) room, of "(0, 0)"] by blast
  have "\<not> credentials_ok [] ''bob'' ''pw''" by (simp add: credentials_ok_def passwd_lines_def bytes_string_def line_matches_def)
  then have "fst (checkCredentials root_proc ''ann'' ''pw'' k') = Ok True" "fst (checkCredentials root_proc ''bob'' ''pw'' k') = Ok False"
    using k'(2)[rule_format, of "''ann''" "''pw''"] k'(2)[rule_format, of "''bob''" "''pw''"] by auto
  then show ?thesis using pw k'(1) by blast
qed

theorem adduser_impersonates_witness:
  "\<exists>k k1 k2 k3. isUsernameUnique root_proc ''root:x'' k = (Ok True, k1) \<and>
     addUser (0, 0) root_proc ''root:x'' ''pw'' 1000 k = (Ok ''Successfully added root:x'', k2) \<and>
     checkCredentials root_proc ''root'' ''x'' k2 = (Ok True, k3)"
proof -
  obtain k where k: "passwd_is k []" "room_to_write (Register k) [] (string_bytes (user_line ''root:x'' ''pw'' 1000))"
    by (rule demo_users[OF short_line[of "''root:x''" "''pw''"]]) simp_all
  have pw: "passwd_is (Register k) []" using k(1) by (simp add: passwd_Register(1))
  have f: "lines_ended []" "field_ok ''root''" "field_ok ''x''" "CHR 0x0A \<notin> set ''pw''" by (simp_all add: lines_ended_def field_ok_def)
  have room: "room_to_write (Register k) [] ([] @ string_bytes (user_line (''root'' @ '':'' @ ''x'') ''pw'' 1000))" using k(2) by simp
  show ?thesis
    using adduser_impersonates[OF pw f(1) root_proc_root f(2-4) room, of "(0, 0)"] by auto
qed

text \<open>No keys open a session on a computer that has no user.\<close>

theorem login_needs_password_witness:
  "\<exists>k. passwd_is k [] \<and> (\<forall>es. fst (Login_Run (0, 0) root_proc [''/bin/login''] (k, es)) \<noteq> Ok (Ended Success) \<and>
     sessions (fst (snd (Login_Run (0, 0) root_proc [''/bin/login''] (k, es)))) = sessions k)"
proof -
  obtain k where k: "passwd_is k []" by (rule demo_users[OF short_line[of "''ann''" "''pw''"]]) simp_all
  have "\<not> credentials_ok [] u p" for u p
    by (simp add: credentials_ok_def passwd_lines_def bytes_string_def line_matches_def)
  then have "fst (Login_Run (0, 0) root_proc [''/bin/login''] (k, es)) \<noteq> Ok (Ended Success) \<and>
     sessions (fst (snd (Login_Run (0, 0) root_proc [''/bin/login''] (k, es)))) = sessions k" for es
    using login_needs_password[OF k root_proc_root, of "(0, 0)" "[''/bin/login'']" es] by (metis prod.collapse)
  then show ?thesis using k by blast
qed

end
