(* ===== verification/ConnectProps.thy ===== *)
theory ConnectProps
  imports UsersProps
begin

text \<open>
  A connection of a client, end to end (\<open>computer/handler.go\<close>): the login program started by the kernel, and the shell only for a
  user who has typed a name and its password.
\<close>

section \<open>Starting a program\<close>

lemma exec_start_quiet:
  assumes "kernel_inv k" "exec_start parent path opts k = (r, k')"
  shows "quiet k k'"
proof (cases "path \<in> programs k")
  case True
  obtain pid k0 where n: "nextPID k = (pid, k0)" by fastforce
  have k0: "kernel_inv k0" "quiet k k0"
    using n assms(1) by (auto simp: nextPID_def quiet_def kernel_inv_def cache_ok_def split: if_splits)
  obtain meta k1 where s: "stat parent path k0 = (Ok meta, k1)" "kernel_inv k1" "cache_only k0 k1"
    using stat_spec[OF k0(1), of parent path] by metis
  have q: "quiet k k1" by (rule quiet_trans[OF k0(2) quiet_cache[OF s(3,2)]])
  have i: "kernel_inv (set_tty t tt (k1\<lparr>procs := p\<rparr>))" "kernel_inv (k1\<lparr>procs := p\<rparr>)" for t tt p
    using s(2) by (simp_all add: kernel_inv_def cache_ok_def set_tty_def)
  show ?thesis
    using assms(2) True n s(1) q i
    by (auto simp: exec_start_def exec_euid_stat Let_def quiet_def set_tty_def split: option.splits)
qed (use assms in \<open>auto simp: exec_start_def quiet_def\<close>)

text \<open>The process of a connection, and the terminal it holds.\<close>

lemma open_client_quiet:
  assumes "open_client n k = ((t, daddyProc), k')"
  shows "kfs k' = kfs k" "sessions k' = sessions k" "programs k' = programs k" "kernel_inv k' = kernel_inv k" "procs_ok k' = procs_ok k"
    "t < length (ttys k')" "stdin_tty daddyProc k' = Some t" "UID daddyProc = ''root''" "EUID daddyProc = ''root''" "CWD daddyProc = ''/''"
  using assms procs_ok_same[of k' k]
  by (auto simp: open_client_def OpenTTY_def Let_def kernel_inv_def cache_ok_def stdin_tty_def desc_of_def)

section \<open>The login of a connection\<close>

text \<open>
  What runs under a process number: \<open>login\<close> with the events that arrive at its terminal, and for any other path whatever is there. A
  login that has not returned, which waits for more events, spins or has panicked, does not start a shell; here it counts as failed.
\<close>

definition login_then :: "u64 \<times> u64 \<Rightarrow> tty_event list \<Rightarrow> run \<Rightarrow> run" where
  "login_then now es shell path pid args k =
     (if path = ''/bin/login'' then
        (case procs k pid of
           None \<Rightarrow> (Error, k)
         | Some proc \<Rightarrow> (case Login_Run now proc args (k, es) of
             (Ok (Ended status), (k, es)) \<Rightarrow> (status, k)
           | (_, (k, es)) \<Rightarrow> (Error, k)))
      else shell path pid args k)"

text \<open>The login started on the terminal of a connection: it fails, or the terminal has a session of a user who typed the password.\<close>

lemma exec_start_tty:
  assumes "exec_start parent path opts k = (Ok pid, k')" "stdin_tty parent k = Some t" "t < length (ttys k)"
  shows "ttys k' ! t = (ttys k ! t)\<lparr>ForegroundPGID := (if opt_PGID opts = 0 then pid else opt_PGID opts)\<rparr>"
proof -
  have path: "path \<in> programs k" using assms(1) by (rule contrapos_pp) (simp add: exec_start_def)
  obtain p k1 where n: "nextPID k = (p, k1)" by fastforce
  have n1: "openFiles k1 = openFiles k" "ttys k1 = ttys k" using n by (auto simp: nextPID_def split: if_splits)
  obtain r2 k2 where e: "exec_euid parent path k1 = (r2, k2)" by fastforce
  have n2: "openFiles k2 = openFiles k" "ttys k2 = ttys k" using files_onlyD[OF files_only_exec_euid e] n1 by (simp_all add: fs_only_def)
  have st: "stdin_tty \<lparr>PID = p, UID = UID parent, EUID = u, CWD = CWD parent, PGID = g, FDs = FDs parent\<rparr> (k2\<lparr>procs := m\<rparr>) = Some t" for u g m
  proof -
    have "desc_of \<lparr>PID = p, UID = UID parent, EUID = u, CWD = CWD parent, PGID = g, FDs = FDs parent\<rparr> 0 (k2\<lparr>procs := m\<rparr>) = desc_of parent 0 k"
      using n2(1) by (simp add: desc_of_def)
    then show ?thesis using assms(2) by (simp only: stdin_tty_def)
  qed
  show ?thesis
    using assms(1,3) path n2(2) by (cases r2) (auto simp: exec_start_def n e Let_def st set_tty_def SetForegroundPGID_def)
qed

lemma exec_login:
  assumes pw: "passwd_is k bs" and ok: "procs_ok k" and path: "''/bin/login'' \<in> programs k"
    and t: "stdin_tty parent k = Some t" "t < length (ttys k)"
    and euid: "file_euid parent (tree_stat (tree (kfs k)) (EUID parent) (path_of parent ''/bin/login'')) = ''root''"
  obtains (fails) e k' where "\<And>shell. exec (login_then now es shell) parent ''/bin/login'' [] foreground_opts k = (Err e, k')"
  | (succeeds) u p k' s where "\<And>shell. exec (login_then now es shell) parent ''/bin/login'' [] foreground_opts k = (Ok (), k')"
    "typed_at (pids k + 1) ((ttys k ! t)\<lparr>ForegroundPGID := pids k + 1\<rparr>) es u p"
    "u \<noteq> []" "p \<noteq> []" "credentials_ok bs u p" "Session (ttys k' ! t) = Some s" "CurrentUser s = u"
proof -
  have inv: "kernel_inv k" using pw by (simp add: passwd_is_def)
  obtain k0 where e: "exec_euid parent ''/bin/login'' (k\<lparr>pids := pids k + 1\<rparr>) = (Ok ''root'', k0)"
    by (rule exec_euid_tree[OF inv, of parent "''/bin/login''" "pids k + 1"]) (simp add: euid)
  let ?pid = "pids k + 1"
  let ?proc = "\<lparr>PID = ?pid, UID = UID parent, EUID = ''root'', CWD = CWD parent, PGID = ?pid, FDs = FDs parent\<rparr>"
  obtain k1 where k1: "exec_start parent ''/bin/login'' foreground_opts k = (Ok ?pid, k1)" "procs k1 ?pid = Some ?proc"
    by (rule exec_start_run[OF ok path e, of foreground_opts]) (simp add: foreground_opts_def)
  note q = exec_start_quiet[OF inv k1(1)]
  note pw1 = quiet_passwd[OF q pw]
  have "stdin_tty ?proc k1 = stdin_tty parent k1" by (simp add: stdin_tty_def desc_of_def)
  moreover have "stdin_tty parent k1 = stdin_tty parent k" by (rule stdin_same) (use q in \<open>simp add: quiet_def\<close>)
  ultimately have t1: "stdin_tty ?proc k1 = Some t" "t < length (ttys k1)" using t q by (simp_all add: quiet_def)
  obtain r k2 es2 where r: "Login_Run now ?proc [] (k1, es) = (r, (k2, es2))" by (metis prod.exhaust)
  let ?tt = "(ttys k ! t)\<lparr>ForegroundPGID := ?pid\<rparr>"
  have "ttys k1 ! t = ?tt" using exec_start_tty[OF k1(1) t] by (simp add: foreground_opts_def)
  then have at: "at_term ?proc k1 ?tt" using t1 by (simp add: at_term_def term_of_def)
  let ?status = "case r of Ok (Ended status) \<Rightarrow> status | _ \<Rightarrow> Error"
  have "login_then now es shell ''/bin/login'' ?pid [] k1 = (?status, k2)" for shell
    using k1(2) r by (simp add: login_then_def split: outcome.split progress.split)
  then have x: "exec (login_then now es shell) parent ''/bin/login'' [] foreground_opts k =
      (if ?status \<noteq> Success then Err (ErrorText (''/bin/login'' @ '': exited with status '' @ itoa ?status)) else Ok (), cleanupProcess ?pid k2)" for shell
    using k1(1) by (simp add: exec_def foreground_opts_def Let_def)
  show ?thesis
  proof (cases "r = Ok (Ended Success)")
    case True
    obtain u p where u: "typed_at ?pid ?tt es u p" "u \<noteq> []" "p \<noteq> []" "credentials_ok bs u p" "attached ?proc k1 u k2"
      using login_spec[OF pw1, of ?proc es now "[]"] True at by (fastforce simp: r logs_in_def)
    have "Session (ttys (cleanupProcess ?pid k2) ! t) = Some \<lparr>SessionID = GenerateSessionID k1, CurrentUser = u\<rparr>"
      using u(5) t1 by (simp add: attached_def cleanupProcess_def)
    moreover have "exec (login_then now es shell) parent ''/bin/login'' [] foreground_opts k = (Ok (), cleanupProcess ?pid k2)" for shell
      using x True by simp
    ultimately show ?thesis using succeeds u(1-4) by simp
  next
    case False
    have "?status \<noteq> Success" using False by (auto simp: status_defs split: outcome.splits progress.splits)
    then show ?thesis using fails x by simp
  qed
qed

section \<open>The shell of a connection\<close>

text \<open>The program file of \<open>login\<close> belongs to root, or is not setuid: it runs with root as its effective user.\<close>

definition login_by_root :: "kernel \<Rightarrow> bool" where
  "login_by_root k \<longleftrightarrow> file_euid root_proc (tree_stat (tree (kfs k)) ''root'' [''bin'', ''login'']) = ''root''"

lemma file_euid_root: "UID proc = ''root'' \<Longrightarrow> file_euid proc = file_euid root_proc"
proof -
  have "UID root_proc = ''root''" by (simp add: root_proc_def)
  then show "UID proc = ''root'' \<Longrightarrow> file_euid proc = file_euid root_proc" by (simp add: file_euid_def fun_eq_iff split: option.split)
qed

lemma serve_client_login:
  "open_client n k = ((t, daddyProc), k0) \<Longrightarrow> serve_client run n k = on_result (exec run daddyProc ''/bin/login'' [] foreground_opts k0)
     (\<lambda>_ k. case Session (ttys k ! t) of None \<Rightarrow> (Panic, k) | Some s \<Rightarrow> serve_shell run t (become_user (CurrentUser s) daddyProc) k)
     (\<lambda>_ k. (Ok (), set_tty t (writeToClient (newline @ ''Invalid login or exit.'' @ [CHR 0x0D] @ newline) Exit (ttys k ! t)) k))"
  by (simp add: serve_client_def)

lemma become_user_sel [simp]:
  "UID (become_user u proc) = u" "EUID (become_user u proc) = u" "CWD (become_user u proc) = home_dir u"
  by (simp_all add: become_user_def home_dir_def)

text \<open>The terminal of a new connection with the login in its foreground: line mode, and nothing on the line.\<close>

definition login_terminal :: "nat \<Rightarrow> int \<Rightarrow> tty" where
  "login_terminal n pid = (NewTTY (''tty-'' @ itoa (int n)))\<lparr>Session := Some \<lparr>SessionID = [], CurrentUser = []\<rparr>, ForegroundPGID := pid\<rparr>"

text \<open>
  C14. A connection gives nobody a shell without a password. Whatever events arrive, either the outcome of the connection does not depend
  on what a shell or any other program would do, so none is started; or the events give, at the new terminal of this connection, first
  the name and then, without echo, the password of one line of the password file, neither of them empty, and what is started
  is the shell on this terminal, by a process of this user in the user's home directory. What events give is what the two reads of the login
  return, which is determined by the terminal and the events; only Enter gives an empty name, for instance.
\<close>

theorem shell_needs_password:
  assumes "passwd_is k bs" "procs_ok k" "login_by_root k"
  shows "(\<exists>outcome. \<forall>shell. serve_client (login_then now es shell) n k = outcome) \<or>
    (\<exists>u p daddyProc k'. typed_at (pids k + 1) (login_terminal n (pids k + 1)) es u p \<and> u \<noteq> [] \<and> p \<noteq> [] \<and> credentials_ok bs u p \<and>
       UID daddyProc = u \<and> EUID daddyProc = u \<and> CWD daddyProc = home_dir u \<and>
       (\<forall>shell. serve_client (login_then now es shell) n k = serve_shell (login_then now es shell) (length (ttys k)) daddyProc k'))"
proof -
  obtain t daddyProc k0 where o: "open_client n k = ((t, daddyProc), k0)" by (metis prod.exhaust)
  note q = open_client_quiet[OF o]
  have new: "t = length (ttys k)" "pids k0 = pids k" "(ttys k0 ! length (ttys k))\<lparr>ForegroundPGID := g\<rparr> = login_terminal n g" for g
    using o by (auto simp: open_client_def OpenTTY_def Let_def login_terminal_def)
  note sc = serve_client_login[OF o]
  show ?thesis
  proof (cases "''/bin/login'' \<in> programs k0")
    case False
    then have "serve_client run n k = (Ok (), set_tty t (writeToClient (newline @ ''Invalid login or exit.'' @ [CHR 0x0D] @ newline) Exit (ttys k0 ! t)) k0)" for run
      unfolding sc by (simp add: exec_def exec_start_def)
    then show ?thesis by blast
  next
    case True
    have pw: "passwd_is k0 bs" and ok: "procs_ok k0" using assms(1,2) q by (simp_all add: passwd_is_def)
    have "path_of daddyProc ''/bin/login'' = [''bin'', ''login'']" by (rule path_eq) (simp_all add: abs_path_def comp_ok_def)
    then have "file_euid daddyProc (tree_stat (tree (kfs k0)) (EUID daddyProc) (path_of daddyProc ''/bin/login'')) = ''root''"
      using assms(3) q(1,9) file_euid_root[OF q(8)] by (simp add: login_by_root_def)
    then show ?thesis
    proof (rule exec_login[OF pw ok True q(7,6), of now es])
      fix e k'
      assume "\<And>shell. exec (login_then now es shell) daddyProc ''/bin/login'' [] foreground_opts k0 = (Err e, k')"
      then show ?thesis unfolding sc by simp
    next
      fix u p k' s
      assume l: "\<And>shell. exec (login_then now es shell) daddyProc ''/bin/login'' [] foreground_opts k0 = (Ok (), k')"
        "typed_at (pids k0 + 1) ((ttys k0 ! t)\<lparr>ForegroundPGID := pids k0 + 1\<rparr>) es u p" "u \<noteq> []" "p \<noteq> []" "credentials_ok bs u p" "Session (ttys k' ! t) = Some s" "CurrentUser s = u"
      have "serve_client (login_then now es shell) n k = serve_shell (login_then now es shell) t (become_user u daddyProc) k'" for shell
        unfolding sc using l(1,6,7) by simp
      then show ?thesis using l(2-5) become_user_sel unfolding new by blast
    qed
  qed
qed

lemma booted_login: "booting k (boot_map hostname ip) 28 \<Longrightarrow> login_by_root k"
proof -
  assume b: "booting k (boot_map hostname ip) 28"
  have "boot_map hostname ip [''bin'', ''login''] = Some (entry_setuid (plain_file []))" by (simp add: boot_map_def)
  then have "file_map (tree (kfs k)) [''bin'', ''login''] = Some (entry_setuid (plain_file []))" using b by (simp add: booting_def)
  then obtain i n where n: "pwalk (tree (kfs k)) [''bin'', ''login''] 2 = Some i" "tree (kfs k) i = Some n"
    "view_node n = entry_setuid (plain_file [])" by (auto simp: file_map_Some)
  obtain m bs where m: "n = File_node (m\<lparr>m_setuid := True\<rparr>) bs" "m = Root_meta" using n(3) by (cases n) (auto simp: plain_file_def)
  have "tree_lookup (tree (kfs k)) ''root'' [''bin'', ''login''] 2 = Ok i" using n(1) lookup_root_pwalk by blast
  then show "login_by_root k" using n(2) m by (simp add: login_by_root_def tree_stat_def file_euid_def Root_meta_def user_meta_def ownerString_ownerBytes)
qed

text \<open>On a computer that has booted and has no user, no keys make any program run but the login.\<close>

theorem shell_needs_password_witness:
  "\<exists>k. passwd_is k [] \<and> ''/bin/login'' \<in> programs k \<and> ''/bin/sh'' \<in> programs k \<and>
     (\<forall>es n. \<exists>outcome. \<forall>shell. serve_client (login_then (0, 0) es shell) n k = outcome)"
proof -
  obtain k where k: "NewComputer (\<lambda>j. (1, 2)) ''pc'' ''10.0.0.1'' None 0 0 = (Ok (), k)" "booting k (boot_map ''pc'' ''10.0.0.1'') 28"
    by (rule first_booted[of "''pc''" "''10.0.0.1''"]) simp
  have e: "kfs (Register k) = kfs k" "procs_ok (Register k) = procs_ok k" using procs_ok_same[of "Register k" k] by (simp_all add: Register_eq)
  have h: "passwd_is (Register k) []" "procs_ok (Register k)" "login_by_root (Register k)"
    using booted_passwd(1)[OF k(2)] running_ok[OF made[OF k(1)]] booted_login[OF k(2)] by (simp_all add: passwd_Register(1) e login_by_root_def)
  have "\<not> credentials_ok [] u p" for u p
    by (simp add: credentials_ok_def passwd_lines_def bytes_string_def line_matches_def)
  then have "\<exists>outcome. \<forall>shell. serve_client (login_then (0, 0) es shell) n (Register k) = outcome" for es n
    using shell_needs_password[OF h, of "(0, 0)" es n] by blast
  moreover have "''/bin/login'' \<in> programs (Register k)" "''/bin/sh'' \<in> programs (Register k)"
    by (simp_all add: programs_Register registered_def)
  ultimately show ?thesis using h(1) by blast
qed

end
