(* ===== verification/Client.thy ===== *)
theory Client
  imports Engine
begin

text \<open>
  The clients of the engine: how the user's client cuts the bytes of its terminal into keystrokes (\<open>client/main.go\<close>) and prints what
  comes back (\<open>client/connection.go\<close>), how a computer takes the messages (\<open>computer/handler.go\<close>), and the loop of the admin's client
  (\<open>admin/main.go\<close>, \<open>admin/connect.go\<close>) on the engine it talks to.

  The socket carries messages, not bytes: a message is the value it encodes, and one that is not JSON is \<open>None\<close>. JSON keeps a text
  but for the bytes that are not UTF-8, which become \<open>U+FFFD\<close>.
\<close>

section \<open>Messages\<close>

record ClientIPCMessage =
  Program :: string
  Keystroke :: string
  msg_Width :: int
  msg_Height :: int

definition json_text :: "string \<Rightarrow> string" where
  "json_text s = string_of_runes (runes s)"

text \<open>What the client finds outside: the size of its window at each message, and whether the socket takes it.\<close>

record client_env =
  win_size :: "nat \<Rightarrow> int \<times> int"
  writes :: "nat \<Rightarrow> bool"

definition writeToEngine :: "client_env \<Rightarrow> string \<Rightarrow> ClientIPCMessage list \<Rightarrow> int \<times> ClientIPCMessage list" where
  "writeToEngine env rawKeystroke msgs =
     (case win_size env (length msgs) of (w, h) \<Rightarrow>
        if writes env (length msgs)
        then (Success, msgs @ [\<lparr>Program = ''user'', Keystroke = json_text rawKeystroke, msg_Width = w, msg_Height = h\<rparr>])
        else (Error, msgs))"

text \<open>The first message says who connects; whether it could be written is only logged.\<close>

definition sendInitMessage :: "client_env \<Rightarrow> ClientIPCMessage list \<Rightarrow> ClientIPCMessage list" where
  "sendInitMessage env msgs =
     (case win_size env (length msgs) of (w, h) \<Rightarrow>
        if writes env (length msgs)
        then msgs @ [\<lparr>Program = ''user'', Keystroke = [], msg_Width = w, msg_Height = h\<rparr>]
        else msgs)"

section \<open>Keystrokes\<close>

text \<open>
  What the loop of the client takes, in the order it takes it: a byte of the keyboard, the end of the input, a change of the window,
  the end of the connection, and \<open>Pause\<close>, 30 milliseconds without any byte.
\<close>

datatype input = Byte u8 | Pause | Resize | Closed | Hangup

text \<open>
  After an escape the client waits for a byte or the pause only; a change of the window or the end of the connection is held, and
  taken later. The channel of the changes of the window has room for one, so a second one while it is full is lost.
\<close>

fun wait_byte :: "input list \<Rightarrow> input list \<Rightarrow> (input \<times> input list) option" where
  "wait_byte held [] = None"
| "wait_byte held (e # es) =
     (if e = Resize \<or> e = Hangup then wait_byte (if e \<in> set held then held else held @ [e]) es else Some (e, held @ es))"

definition readWithTimeout :: "input list \<Rightarrow> (input \<times> input list) option" where
  "readWithTimeout es = wait_byte [] es"

lemma readWithTimeout_byte [simp]: "readWithTimeout [] = None" "readWithTimeout (Byte b # es) = Some (Byte b, es)"
  "readWithTimeout (Pause # es) = Some (Pause, es)" "readWithTimeout (Closed # es) = Some (Closed, es)"
  by (simp_all add: readWithTimeout_def)

text \<open>A byte after the first of a keystroke, and whether the keystroke may be sent now.\<close>

definition collect :: "u8 \<Rightarrow> u8 list \<Rightarrow> u8 list \<times> bool" where
  "collect b ks =
     (if length ks = 1 \<and> ks ! 0 = 27 then (ks @ [b], b \<noteq> 91)
      else if length ks = 2 \<and> ks ! 1 = 91 then (ks @ [b], 65 \<le> b \<and> b \<le> 68)
      else if 3 \<le> length ks then (ks @ [b], 65 \<le> b \<and> b \<le> 90 \<or> b = 126)
      else (ks, True))"

text \<open>The client waits for more, has ended, or has panicked.\<close>

datatype client_end = Waits | Returned | Crashed

lemma wait_byte_shorter: "wait_byte held es = Some x \<Longrightarrow> length (snd x) < length held + length es"
  by (induction held es arbitrary: x rule: wait_byte.induct) (auto split: if_splits)

lemma readWithTimeout_shorter: "readWithTimeout es = Some x \<Longrightarrow> length (snd x) < length es"
  using wait_byte_shorter[of "[]" es x] by (simp add: readWithTimeout_def)

function commandLoop :: "client_env \<Rightarrow> input list \<Rightarrow> u8 list \<Rightarrow> ClientIPCMessage list \<Rightarrow>
    client_end \<times> u8 list \<times> ClientIPCMessage list" where
  "commandLoop env [] ks msgs = (Waits, ks, msgs)"
| "commandLoop env (Resize # es) ks msgs = (case writeToEngine env [] msgs of (st, msgs) \<Rightarrow>
     if st = Error then (Returned, ks, msgs) else commandLoop env es ks msgs)"
| "commandLoop env (Pause # es) ks msgs = commandLoop env es ks msgs"
| "commandLoop env (Closed # es) ks msgs = (Returned, ks, msgs)"
| "commandLoop env (Hangup # es) ks msgs = (Returned, ks, msgs)"
| "commandLoop env (Byte b # es) ks msgs =
     (if ks = [] \<and> b = 27 then
        (case readWithTimeout es of
           None \<Rightarrow> (Waits, [b], msgs)
         | Some (Pause, es) \<Rightarrow> (case writeToEngine env (bytes_string [b]) msgs of (st, msgs) \<Rightarrow>
             if st = Error then (Returned, [b], msgs) else commandLoop env es [] msgs)
         | Some (Byte n, es) \<Rightarrow> commandLoop env es [b, n] msgs
         | Some _ \<Rightarrow> (Crashed, [b], msgs))
      else (case (if ks = [] then ([b], True) else collect b ks) of (ks, ready) \<Rightarrow>
        if ready then (case writeToEngine env (bytes_string ks) msgs of (st, msgs) \<Rightarrow>
          if st = Error then (Returned, ks, msgs) else commandLoop env es [] msgs)
        else commandLoop env es ks msgs))"
  by pat_completeness auto

termination
  by (relation "measure (\<lambda>(env, es, ks, msgs). length es)") (simp_all, (drule readWithTimeout_shorter, clarsimp)+)

section \<open>Taking a message\<close>

text \<open>
  What a computer does with a message of the connection: the new size, then the key. The result is what goes to the data channel,
  and the signals with the processes they reach. \<open>groups\<close> are the process groups at this moment.
\<close>

type_synonym delivery = "string list \<times> (signal \<times> int set) list"

definition take_message :: "(int \<rightharpoonup> int) \<Rightarrow> ClientIPCMessage \<Rightarrow> tty \<Rightarrow> delivery outcome \<times> tty" where
  "take_message groups m t = (case SetWinsize (msg_Width m) (msg_Height m) groups t of (t, sigs) \<Rightarrow>
     if Keystroke m \<noteq> [] then
       bindS (HandleKeystroke (Keystroke m) groups t)
         (\<lambda>(key, more) t. (Ok (case key of None \<Rightarrow> [] | Some k \<Rightarrow> [k], sigs @ more), t))
     else (Ok ([], sigs), t))"

text \<open>The messages of a connection one after the other, while no program changes the terminal in between.\<close>

fun take_messages :: "((int \<rightharpoonup> int) \<times> ClientIPCMessage option) list \<Rightarrow> tty \<Rightarrow> delivery outcome \<times> tty" where
  "take_messages [] t = (Ok ([], []), t)"
| "take_messages ((groups, None) # ms) t = take_messages ms t"
| "take_messages ((groups, Some m) # ms) t = bindS (take_message groups m t)
     (\<lambda>(ks, sigs) t. bindS (take_messages ms t) (\<lambda>(ks', sigs') t. (Ok (ks @ ks', sigs @ sigs'), t)))"

section \<open>Printing\<close>

definition runBanansi :: "string \<Rightarrow> string" where
  "runBanansi result =
     concat (map (\<lambda>r. if r = 13 then cr else if r = 10 then nl @ cr else string_of_runes [r]) (runes result))"

text \<open>What is printed for the messages, and whether the last of them ended the client.\<close>

fun engineReader :: "reply option list \<Rightarrow> string \<times> bool" where
  "engineReader [] = ([], False)"
| "engineReader (None # ms) = engineReader ms"
| "engineReader (Some (result, status) # ms) =
     (if status = Exit then (runBanansi result @ nl @ cr @ nl, True)
      else (case engineReader ms of (shown, ended) \<Rightarrow> (runBanansi result @ shown, ended)))"

section \<open>The admin's client\<close>

text \<open>A line as it is read, with its end; \<open>None\<close> is the end of the input, at which the client stops with an error.\<close>

definition getInput :: "string \<Rightarrow> string" where
  "getInput input = rev (dropWhile (\<lambda>c. c = CHR 0x0D \<or> c = CHR 0x0A) (rev input))"

text \<open>The engine at the other end, which may have died, and what was printed.\<close>

record admin_client =
  the_engine :: engine
  alive :: bool
  printed :: string

text \<open>
  A command is sent and one reply is read: a panic ends the engine after the replies it wrote. Without a reply the reader sees the
  end of the connection, which counts as success.
\<close>

definition admin_reader :: "reply list \<Rightarrow> string \<times> int" where
  "admin_reader replies = (case replies of
     [] \<Rightarrow> ([], Success)
   | (result, status) # _ \<Rightarrow> if status = Exit then (nl @ cr @ nl, Exit) else (json_text result, Success))"

definition admin_exchange :: "host_env \<Rightarrow> string \<Rightarrow> admin_client \<Rightarrow> int \<times> admin_client" where
  "admin_exchange env value c =
     (if alive c then (case admin_command env (json_text value) (the_engine c, []) of (r, (e, replies)) \<Rightarrow>
        case admin_reader replies of (shown, code) \<Rightarrow>
          (code, c\<lparr>the_engine := e, alive := (r = Ok ()), printed := printed c @ shown\<rparr>))
      else (Success, c))"

fun admin_commandLoop :: "host_env \<Rightarrow> string option list \<Rightarrow> admin_client \<Rightarrow> client_end \<times> admin_client" where
  "admin_commandLoop env [] c = (Waits, c)"
| "admin_commandLoop env (None # ls) c = (Crashed, c\<lparr>printed := printed c @ ''admin> ''\<rparr>)"
| "admin_commandLoop env (Some line # ls) c =
     (let value = getInput line; c = c\<lparr>printed := printed c @ ''admin> ''\<rparr>
      in if value = ''clear'' then admin_commandLoop env ls (c\<lparr>printed := printed c @ esc @ ''[2J'' @ esc @ ''[H''\<rparr>)
         else if value = [] then admin_commandLoop env ls c
         else (case admin_exchange env value c of (code, c) \<Rightarrow>
           if code = Exit then (Returned, c) else admin_commandLoop env ls c))"

end
