(* ===== verification/Server.thy ===== *)
theory Server
  imports Client
begin

text \<open>
  The engine's end of a connection (\<open>engine/server.go\<close>), with the scanners of \<open>engine/handler.go\<close> and \<open>computer/handler.go\<close> that follow on the
  same socket. Here a socket is the bytes that each call of \<open>Read\<close> returns, up to the end of the connection: a scanner keeps what it
  read and has not cut into lines yet, and the next scanner on the socket starts without it. JSON is an argument.
\<close>

section \<open>Scanners\<close>

definition cut_line :: "string \<Rightarrow> (string \<times> string) option" where
  "cut_line s = (case dropWhile (\<lambda>c. c \<noteq> CHR 0x0A) s of
     [] \<Rightarrow> None
   | _ # rest \<Rightarrow> Some (takeWhile (\<lambda>c. c \<noteq> CHR 0x0A) s, rest))"

definition drop_cr :: "string \<Rightarrow> string" where
  "drop_cr line = (if line \<noteq> [] \<and> last line = CHR 0x0D then butlast line else line)"

definition max_token :: nat where
  "max_token = 65536"

text \<open>
  \<open>Scan\<close>: the next line, if there is one, what stays in the buffer and what stays on the socket. A line that does not fit in the
  largest buffer ends the scanner.
\<close>

fun Scan :: "string \<Rightarrow> string list \<Rightarrow> string option \<times> string \<times> string list" where
  "Scan held [] = (case cut_line held of
     Some (line, rest) \<Rightarrow> (Some (drop_cr line), rest, [])
   | None \<Rightarrow> if held = [] \<or> max_token \<le> length held then (None, held, []) else (Some (drop_cr held), [], []))"
| "Scan held (r # reads) = (case cut_line held of
     Some (line, rest) \<Rightarrow> (Some (drop_cr line), rest, r # reads)
   | None \<Rightarrow> if max_token \<le> length held then (None, held, r # reads) else Scan (held @ r) reads)"

definition unread :: "string \<Rightarrow> string list \<Rightarrow> nat" where
  "unread held reads = length held + length (concat reads)"

lemma unread_nil: "unread held [] \<le> unread held reads"
  by (simp add: unread_def)

lemma cut_line_shorter: "cut_line s = Some (line, rest) \<Longrightarrow> length rest < length s"
proof -
  assume "cut_line s = Some (line, rest)"
  then obtain c where "dropWhile (\<lambda>c. c \<noteq> CHR 0x0A) s = c # rest" by (auto simp: cut_line_def split: list.splits)
  then show ?thesis using length_dropWhile_le[of "\<lambda>c. c \<noteq> CHR 0x0A" s] by simp
qed

lemma scan_shorter:
  "Scan held reads = (r, held', reads') \<Longrightarrow> unread held' reads' \<le> unread held reads \<and> (r \<noteq> None \<longrightarrow> unread held' reads' < unread held reads)"
proof (induction held reads arbitrary: r rule: Scan.induct)
  case (1 held)
  then show ?case by (auto simp: unread_def dest: cut_line_shorter split: option.splits if_splits)
next
  case (2 held x reads)
  show ?case
  proof (cases "cut_line held = None \<and> \<not> max_token \<le> length held")
    case True
    then show ?thesis using 2 by (simp add: unread_def add.assoc)
  next
    case False
    then show ?thesis using "2.prems" by (auto simp: unread_def dest: cut_line_shorter split: option.splits)
  qed
qed

lemma scan_some: "Scan held reads = (Some line, held', reads') \<Longrightarrow> unread held' reads' < unread held reads"
  using scan_shorter by fastforce

lemma scan_none: "Scan held reads = (None, held', reads') \<Longrightarrow> unread [] reads' \<le> unread held reads"
  using scan_shorter[of held reads] by (fastforce simp: unread_def)

text \<open>All lines of a scanner, each with what was on the socket when it was cut; and what is on the socket when the scanner has ended.\<close>

function lines_from :: "string \<Rightarrow> string list \<Rightarrow> (string \<times> string list) list" where
  "lines_from held reads = (case Scan held reads of
     (None, _, _) \<Rightarrow> []
   | (Some line, held, reads) \<Rightarrow> (line, reads) # lines_from held reads)"
  by pat_completeness auto

termination
  by (relation "measure (\<lambda>(held, reads). unread held reads)") (auto dest!: sym[of "(_, _)" "Scan _ _"] scan_some)

function left_over :: "string \<Rightarrow> string list \<Rightarrow> string list" where
  "left_over held reads = (case Scan held reads of
     (None, _, reads) \<Rightarrow> reads
   | (Some _, held, reads) \<Rightarrow> left_over held reads)"
  by pat_completeness auto

termination
  by (relation "measure (\<lambda>(held, reads). unread held reads)") (auto dest!: sym[of "(_, _)" "Scan _ _"] scan_some)

declare lines_from.simps [simp del] left_over.simps [simp del]

lemma left_over_shorter: "unread [] (left_over held reads) \<le> unread held reads"
proof (induction held reads rule: left_over.induct)
  case (1 held reads)
  show ?case
  proof (cases "Scan held reads")
    case (fields r held' reads')
    show ?thesis
    proof (cases r)
      case None
      then show ?thesis using fields scan_none by (simp add: left_over.simps[of held reads])
    next
      case (Some l)
      then have "left_over held reads = left_over held' reads'" "unread held' reads' < unread held reads"
        using fields scan_some by (simp_all add: left_over.simps[of held reads])
      then show ?thesis using 1[OF fields[symmetric] Some refl] by simp
    qed
  qed
qed

section \<open>A connection\<close>

text \<open>What the engine reads as JSON: a message of a client, and the command in a message of the admin.\<close>

record json =
  client_of :: "string \<Rightarrow> ClientIPCMessage option"
  command_of :: "string \<Rightarrow> string option"

text \<open>The loop of \<open>handleClient\<close>, and what is on the socket when it goes on to a machine or hangs up.\<close>

fun pick_lines :: "engine \<Rightarrow> (string option \<times> string list) list \<Rightarrow> string \<Rightarrow> reply list \<Rightarrow> picking \<times> reply list \<times> string list" where
  "pick_lines e [] typed msgs = (Typing typed, msgs, [])"
| "pick_lines e ((None, _) # ls) typed msgs = pick_lines e ls typed msgs"
| "pick_lines e ((Some key, reads) # ls) typed msgs = (case pick_key e key typed msgs of
     (Typing typed, msgs) \<Rightarrow> pick_lines e ls typed msgs
   | (stop, msgs) \<Rightarrow> (stop, msgs, reads))"

lemma pick_lines_keys:
  "pick_lines e ls typed msgs = (p, msgs', reads) \<Longrightarrow> pick_keys e (map fst ls) typed msgs = (p, msgs')"
  by (induction e ls typed msgs rule: pick_lines.induct) (auto split: picking.splits prod.splits)

definition client_lines :: "json \<Rightarrow> string list \<Rightarrow> (string option \<times> string list) list" where
  "client_lines J reads = map (\<lambda>(line, rest). (map_option Keystroke (client_of J line), rest)) (lines_from [] reads)"

text \<open>
  Who was served: a user, with the machine that was picked, the replies, and what is on the socket when \<open>Computer.HandleClient\<close> starts
  its own scanner; or an admin, with the replies. Replies to a socket that is closed are lost.
\<close>

datatype served = User_served picking "reply list" "string list" | Admin_served "reply list"

definition serve_user :: "host_env \<Rightarrow> json \<Rightarrow> engine \<Rightarrow> string list \<Rightarrow> served" where
  "serve_user env J e reads =
     (case pick_lines e (client_lines J reads) [] [(machines_screen env e, Success)] of (p, msgs, rest) \<Rightarrow> User_served p msgs rest)"

text \<open>What is left for the first scanner: \<open>handleClient\<close> closes the socket, or a machine took it until its own scanner ended.\<close>

primrec socket_after :: "served \<Rightarrow> string list" where
  "socket_after (User_served p msgs rest) = (case p of Picked _ \<Rightarrow> left_over [] rest | _ \<Rightarrow> [])"
| "socket_after (Admin_served msgs) = []"

definition serve_admin :: "host_env \<Rightarrow> json \<Rightarrow> string list \<Rightarrow> engine \<times> served list \<Rightarrow> unit outcome \<times> (engine \<times> served list)" where
  "serve_admin env J reads s = (case s of (e, log) \<Rightarrow>
     case handleAdmin env (map (\<lambda>(line, _). command_of J line) (lines_from [] reads)) (e, []) of
       (r, (e, replies)) \<Rightarrow> (r, (e, log @ [Admin_served replies])))"

lemma pick_lines_rest:
  "pick_lines e ls typed msgs = (Picked c, msgs', rest) \<Longrightarrow> rest \<in> snd ` set ls"
proof (induction e ls typed msgs rule: pick_lines.induct)
  case (3 e key reads ls typed msgs)
  then show ?case by (cases "pick_key e key typed msgs") (auto split: picking.splits)
qed simp_all

lemma lines_from_rest: "(line, rest) \<in> set (lines_from held reads) \<Longrightarrow> unread [] rest \<le> unread held reads"
proof (induction held reads rule: lines_from.induct)
  case (1 held reads)
  show ?case
  proof (cases "Scan held reads")
    case (fields r held' reads')
    show ?thesis
    proof (cases r)
      case None
      then show ?thesis using "1.prems" fields by (simp add: lines_from.simps[of held reads])
    next
      case (Some l)
      then have s: "unread held' reads' < unread held reads" using scan_some fields by simp
      have "line = l \<and> rest = reads' \<or> (line, rest) \<in> set (lines_from held' reads')"
        using "1.prems" fields Some by (simp add: lines_from.simps[of held reads])
      moreover have "unread [] reads' \<le> unread held' reads'" by (simp add: unread_def)
      ultimately show ?thesis using "1.IH"[OF fields[symmetric] Some refl] s by auto
    qed
  qed
qed

lemma socket_after_shorter: "unread held (socket_after (serve_user env J e reads)) \<le> unread held reads"
proof -
  obtain p msgs rest where p: "pick_lines e (client_lines J reads) [] [(machines_screen env e, Success)] = (p, msgs, rest)"
    by (metis prod_cases3)
  show ?thesis
  proof (cases p)
    case (Picked c)
    then have "rest \<in> snd ` set (client_lines J reads)" using pick_lines_rest p by metis
    then obtain line where "(line, rest) \<in> set (lines_from [] reads)" by (auto simp: client_lines_def)
    from lines_from_rest[OF this] left_over_shorter[of "[]" rest] show ?thesis
      using Picked p by (simp add: serve_user_def unread_def)
  qed (use p in \<open>simp_all add: serve_user_def unread_def\<close>)
qed

function handleConn :: "host_env \<Rightarrow> json \<Rightarrow> string \<Rightarrow> string list \<Rightarrow> engine \<times> served list \<Rightarrow>
    unit outcome \<times> (engine \<times> served list)" where
  "handleConn env J held reads (e, log) = (case Scan held reads of
     (None, _, _) \<Rightarrow> (Ok (), (e, log))
   | (Some line, held, reads) \<Rightarrow> (case client_of J line of
       None \<Rightarrow> handleConn env J held reads (e, log)
     | Some m \<Rightarrow>
         if Program m = ''user'' then
           handleConn env J held (socket_after (serve_user env J e reads)) (e, log @ [serve_user env J e reads])
         else if Program m = ''admin'' then
           bindS (serve_admin env J reads (e, log)) (\<lambda>_. handleConn env J held [])
         else handleConn env J held reads (e, log)))"
  by pat_completeness auto

termination
  by (relation "measure (\<lambda>(env, J, held, reads, s). unread held reads)")
    (auto dest!: sym[of "(_, _)" "Scan _ _"] scan_some intro: le_less_trans[OF socket_after_shorter] le_less_trans[OF unread_nil])

declare handleConn.simps [simp del]

end
