(* ===== verification/ClientProps.thy ===== *)
theory ClientProps
  imports Client TtyProps EngineProps
begin

text \<open>
  What the user's client does to the keys: the keys of an ASCII keyboard, its arrows and the sequences that end in a capital letter or
  a tilde arrive one by one and whole, up to the program that reads a line; what it holds back, merges and breaks. And the admin's
  client: its session is that of the engine on the lines that are commands.
\<close>

section \<open>The keys of a keyboard\<close>

text \<open>A key, a change of the window between two keys, and the bytes and pauses the terminal makes of it.\<close>

datatype press = Plain u8 | Escaped | Arrow u8 | Sequence "u8 list" u8 | Resized

definition terminator :: "u8 \<Rightarrow> bool" where
  "terminator b \<longleftrightarrow> 65 \<le> b \<and> b \<le> 90 \<or> b = 126"

primrec press_ok :: "press \<Rightarrow> bool" where
  "press_ok (Plain b) \<longleftrightarrow> b < 128 \<and> b \<noteq> 27"
| "press_ok Escaped \<longleftrightarrow> True"
| "press_ok (Arrow b) \<longleftrightarrow> 65 \<le> b \<and> b \<le> 68"
| "press_ok (Sequence ps f) \<longleftrightarrow> ps \<noteq> [] \<and> (\<forall>p \<in> set ps. p < 128 \<and> \<not> terminator p) \<and> terminator f"
| "press_ok Resized \<longleftrightarrow> True"

primrec press_bytes :: "press \<Rightarrow> u8 list" where
  "press_bytes (Plain b) = [b]"
| "press_bytes Escaped = [27]"
| "press_bytes (Arrow b) = [27, 91, b]"
| "press_bytes (Sequence ps f) = 27 # 91 # ps @ [f]"
| "press_bytes Resized = []"

definition press_input :: "press \<Rightarrow> input list" where
  "press_input k = (if k = Resized then [Resize] else map Byte (press_bytes k) @ (if k = Escaped then [Pause] else []))"

definition press_text :: "press \<Rightarrow> string" where
  "press_text k = bytes_string (press_bytes k)"

lemma ascii_bytes: "ascii (bytes_string bs) \<longleftrightarrow> (\<forall>b \<in> set bs. b < 128)"
proof -
  have "(of_char (char_of_byte b) :: nat) < 128 \<longleftrightarrow> b < 128" for b :: u8
  proof -
    have "unat b < 256" using unsigned_less[of b, where 'a = nat] by simp
    then show ?thesis by (simp add: char_of_byte_def word_less_nat_alt)
  qed
  then show ?thesis by (simp add: ascii_def bytes_string_def)
qed

lemma terminator_ascii: "terminator b \<Longrightarrow> b < 128"
  by (auto simp: terminator_def word_le_nat_alt word_less_nat_alt)

lemma press_text_ascii: "press_ok k \<Longrightarrow> ascii (press_text k)"
proof -
  assume "press_ok k"
  moreover have "b < 128" if "b \<le> 68" for b :: u8 using that by (simp add: word_le_nat_alt word_less_nat_alt)
  ultimately have "\<forall>b \<in> set (press_bytes k). b < 128" by (cases k) (auto simp: terminator_ascii)
  then show ?thesis by (simp add: press_text_def ascii_bytes)
qed

lemma json_ascii: "ascii s \<Longrightarrow> json_text s = s"
  by (simp add: json_text_def runes_ascii string_of_runes_ascii)

section \<open>The loop on one key\<close>

definition key_message :: "client_env \<Rightarrow> nat \<Rightarrow> string \<Rightarrow> ClientIPCMessage" where
  "key_message env n s = \<lparr>Program = ''user'', Keystroke = json_text s, msg_Width = fst (win_size env n), msg_Height = snd (win_size env n)\<rparr>"

lemma writeToEngine_ok: "writes env (length msgs) \<Longrightarrow> writeToEngine env s msgs = (Success, msgs @ [key_message env (length msgs) s])"
  by (simp add: writeToEngine_def key_message_def case_prod_beta)

lemma success_not_error [simp]: "Success \<noteq> Error"
  by (simp add: status_defs)

text \<open>Inside a sequence every byte is kept that does not end it.\<close>

definition inside :: "u8 list \<Rightarrow> bool" where
  "inside ks \<longleftrightarrow> 2 \<le> length ks \<and> ks ! 1 = 91"

lemma collect_inside:
  "inside ks \<Longrightarrow> collect b ks = (ks @ [b], if length ks = 2 then 65 \<le> b \<and> b \<le> 68 else terminator b)"
  by (auto simp: collect_def inside_def terminator_def)

lemma arrow_terminates: "65 \<le> b \<Longrightarrow> b \<le> 68 \<Longrightarrow> terminator (b :: u8)"
  by (simp add: terminator_def word_le_nat_alt)

lemma held_back:
  "inside ks \<Longrightarrow> \<forall>p \<in> set ps. \<not> terminator p \<Longrightarrow> commandLoop env (map Byte ps @ es) ks msgs = commandLoop env es (ks @ ps) msgs"
proof (induction ps arbitrary: ks)
  case (Cons p ps)
  have k: "ks \<noteq> []" "inside (ks @ [p])" using Cons.prems(1) by (auto simp: inside_def nth_append)
  have "\<not> (65 \<le> p \<and> p \<le> 68)" "\<not> terminator p" using Cons.prems(2) arrow_terminates[of p] by auto
  then have "collect p ks = (ks @ [p], False)" using collect_inside[OF Cons.prems(1)] by auto
  then show ?case using Cons.IH[OF k(2)] Cons.prems(2) k(1) by simp
qed simp

lemma sequence_sent:
  assumes "inside ks" "if length ks = 2 then 65 \<le> f \<and> f \<le> 68 else terminator f" "writes env (length msgs)"
  shows "commandLoop env (Byte f # es) ks msgs = commandLoop env es [] (msgs @ [key_message env (length msgs) (bytes_string (ks @ [f]))])"
proof -
  have "collect f ks = (ks @ [f], True)" using collect_inside[OF assms(1), of f] assms(2) by auto
  moreover have "ks \<noteq> []" using assms(1) by (auto simp: inside_def)
  ultimately show ?thesis using writeToEngine_ok[OF assms(3)] by simp
qed

lemma press_sent:
  assumes "press_ok k" "writes env (length msgs)"
  shows "commandLoop env (press_input k @ es) [] msgs = commandLoop env es [] (msgs @ [key_message env (length msgs) (press_text k)])"
proof -
  have i: "inside [27, 91]" by (simp add: inside_def)
  note w = writeToEngine_ok[OF assms(2)]
  show ?thesis
  proof (cases k)
    case (Plain b)
    then show ?thesis using assms(1) w by (simp add: press_input_def press_text_def)
  next
    case Escaped
    then show ?thesis using w by (simp add: press_input_def press_text_def)
  next
    case (Arrow b)
    then show ?thesis using assms(1) sequence_sent[OF i _ assms(2), of b es] by (simp add: press_input_def press_text_def)
  next
    case (Sequence ps f)
    have ps: "ps \<noteq> []" "\<forall>p \<in> set ps. \<not> terminator p" "terminator f" using assms(1) Sequence by auto
    have n: "inside ([27, 91] @ ps)" "length ([27, 91] @ ps) \<noteq> 2" using ps(1) by (auto simp: inside_def)
    have "commandLoop env (press_input k @ es) [] msgs = commandLoop env (map Byte ps @ Byte f # es) [27, 91] msgs"
      using Sequence by (simp add: press_input_def)
    also have "\<dots> = commandLoop env (Byte f # es) ([27, 91] @ ps) msgs" by (rule held_back[OF i ps(2)])
    also have "\<dots> = commandLoop env es [] (msgs @ [key_message env (length msgs) (press_text k)])"
      using sequence_sent[OF n(1) _ assms(2), of f es] n(2) ps(3) Sequence by (simp add: press_text_def)
    finally show ?thesis .
  next
    case Resized
    then show ?thesis using w by (simp add: press_input_def press_text_def bytes_string_def)
  qed
qed

text \<open>What every message of the client looks like.\<close>

definition sent_by :: "client_env \<Rightarrow> ClientIPCMessage \<Rightarrow> bool" where
  "sent_by env m \<longleftrightarrow> Program m = ''user'' \<and> json_text (Keystroke m) = Keystroke m \<and> (msg_Width m, msg_Height m) \<in> range (win_size env)"

text \<open>The keys of a keyboard, sent one by one.\<close>

lemma presses_sent:
  assumes "\<forall>k \<in> set ks. press_ok k" "\<forall>n. writes env n"
  shows "\<exists>new. commandLoop env (concat (map press_input ks) @ es) [] msgs = commandLoop env es [] (msgs @ new) \<and>
    map Keystroke new = map press_text ks \<and> (\<forall>m \<in> set new. sent_by env m)"
  using assms(1)
proof (induction ks arbitrary: msgs)
  case (Cons k ks)
  have k: "press_ok k" using Cons.prems by simp
  let ?m = "key_message env (length msgs) (press_text k)"
  obtain new where "commandLoop env (concat (map press_input ks) @ es) [] (msgs @ [?m]) = commandLoop env es [] ((msgs @ [?m]) @ new)"
    "map Keystroke new = map press_text ks" "\<forall>m \<in> set new. sent_by env m" using Cons.IH[of "msgs @ [?m]"] Cons.prems by auto
  moreover have "Keystroke ?m = press_text k" "sent_by env ?m"
    using json_ascii[OF press_text_ascii[OF k]] by (simp_all add: key_message_def sent_by_def)
  ultimately show ?case
    using press_sent[OF k, of env msgs "concat (map press_input ks) @ es"] assms(2) by (intro exI[of _ "?m # new"]) simp
qed simp

section \<open>From the keyboard to the program\<close>

text \<open>What a message does to the terminal leaves the line that is edited alone.\<close>

definition same_line :: "tty \<Rightarrow> tty \<Rightarrow> bool" where
  "same_line t t' \<longleftrightarrow> Buffer t' = Buffer t \<and> CursorPosition t' = CursorPosition t \<and> Canonical t' = Canonical t \<and>
     Echo t' = Echo t \<and> PasswdMode t' = PasswdMode t \<and> ForegroundPGID t' = ForegroundPGID t \<and> Session t' = Session t"

lemma same_line_trans [trans]: "same_line t t' \<Longrightarrow> same_line t' t'' \<Longrightarrow> same_line t t''"
  by (simp add: same_line_def)

lemma same_line_ok: "same_line t t' \<Longrightarrow> line_ok t' = line_ok t" "same_line t t' \<Longrightarrow> tty_line t' = tty_line t"
  by (simp_all add: same_line_def line_ok_def tty_line_def)

lemma take_message_key:
  assumes "Keystroke m \<noteq> ctrl_c"
  shows "\<exists>sigs t'. take_message groups m t = (Ok (if Keystroke m = [] then [] else [Keystroke m], sigs), t') \<and> same_line t t'"
proof -
  obtain t1 sigs where "SetWinsize (msg_Width m) (msg_Height m) groups t = (t1, sigs)" "same_line t t1"
    by (cases "SetWinsize (msg_Width m) (msg_Height m) groups t") (auto simp: SetWinsize_def same_line_def Let_def split: if_splits)
  then show ?thesis using assms by (simp add: take_message_def HandleKeystroke_def)
qed

lemma take_messages_keys:
  assumes "map snd qs = map Some ms" "\<forall>m \<in> set ms. Keystroke m \<noteq> ctrl_c"
  shows "\<exists>sigs t'. take_messages qs t = (Ok (filter (\<lambda>s. s \<noteq> []) (map Keystroke ms), sigs), t') \<and> same_line t t'"
  using assms
proof (induction ms arbitrary: qs t)
  case Nil
  then show ?case by (simp add: same_line_def)
next
  case (Cons m ms)
  obtain groups qs' where qs: "qs = (groups, Some m) # qs'" "map snd qs' = map Some ms" using Cons.prems(1) by (cases qs) auto
  obtain sigs t1 where 1: "take_message groups m t = (Ok (if Keystroke m = [] then [] else [Keystroke m], sigs), t1)" "same_line t t1"
    using take_message_key[of m groups t] Cons.prems(2) by auto
  obtain sigs' t2 where 2: "take_messages qs' t1 = (Ok (filter (\<lambda>s. s \<noteq> []) (map Keystroke ms), sigs'), t2)" "same_line t1 t2"
    using Cons.IH[OF qs(2), of t1] Cons.prems(2) by auto
  have "same_line t t2" by (rule same_line_trans[OF 1(2) 2(2)])
  then show ?case using 1(1) 2(1) by (simp add: qs(1))
qed

lemma press_text_empty: "press_text k = [] \<longleftrightarrow> k = Resized"
  by (cases k) (simp_all add: press_text_def bytes_string_def)

lemma control_chars: "char_of_byte 27 = CHR 0x1B" "char_of_byte 13 = CHR 0x0D"
proof -
  have "byte_of_char CHR 0x1B = 27" "byte_of_char CHR 0x0D = 13" by (simp_all add: byte_of_char_def)
  then show "char_of_byte 27 = CHR 0x1B" "char_of_byte 13 = CHR 0x0D"
    using char_of_byte_of_char[of "CHR 0x1B"] char_of_byte_of_char[of "CHR 0x0D"] by simp_all
qed

lemma press_text_single: "press_text k = [c] \<Longrightarrow> press_ok k \<Longrightarrow> c \<noteq> CHR 0x1B \<Longrightarrow> k = Plain (byte_of_char c)"
proof -
  assume k: "press_text k = [c]" "c \<noteq> CHR 0x1B"
  have "string_bytes (press_text k) = [byte_of_char c]" unfolding k(1) by (simp add: string_bytes_def)
  then have "press_bytes k = [byte_of_char c]" by (simp add: press_text_def)
  moreover have "byte_of_char c \<noteq> 27"
  proof
    assume "byte_of_char c = 27"
    then have "c = char_of_byte 27" using char_of_byte_of_char by metis
    then show False using k(2) control_chars(1) by simp
  qed
  ultimately show "k = Plain (byte_of_char c)" by (cases k) simp_all
qed

lemma enter_text: "press_text (Plain 13) = key_enter"
  by (simp add: press_text_def bytes_string_def key_enter_def control_chars)

text \<open>The keys that are not Control-C or Enter.\<close>

lemma presses_plain:
  assumes "\<forall>k \<in> set ks. press_ok k" "Plain 3 \<notin> set ks" "Plain 13 \<notin> set ks"
  shows "\<forall>key \<in> set (map press_text ks). key \<noteq> ctrl_c \<and> typeable key"
proof
  fix key assume "key \<in> set (map press_text ks)"
  then obtain k where k: "k \<in> set ks" "key = press_text k" by auto
  have "k \<noteq> Plain 3" "k \<noteq> Plain 13" "press_ok k" using k(1) assms by auto
  then have "key \<noteq> ctrl_c" "key \<noteq> key_enter"
    using press_text_single[of k "CHR 0x03"] press_text_single[of k "CHR 0x0D"] k(2)
    by (auto simp: ctrl_c_def key_enter_def byte_of_char_def)
  then show "key \<noteq> ctrl_c \<and> typeable key" using press_text_ascii[OF \<open>press_ok k\<close>] k(2) by (simp add: typeable_def)
qed

text \<open>
  C16. Typing a line into the client's terminal: whatever ASCII keys, arrows and sequences are pressed before Enter, and however the window
  changes between them, the program that reads the line gets the text a line editor makes of these keys. Control-C is not among them.
\<close>

theorem client_line_is_read:
  assumes "\<forall>k \<in> set ks. press_ok k" "Plain 3 \<notin> set ks" "Plain 13 \<notin> set ks" "\<forall>n. writes env n"
    and "line_ok t" "pgid = ForegroundPGID t" "Session t \<noteq> None"
  shows "\<exists>msgs. commandLoop env (concat (map press_input ks) @ [Byte 13]) [] [] = (Waits, [], msgs) \<and>
    (\<forall>qs. map snd qs = map Some msgs \<longrightarrow> (\<exists>keys sigs t1 t2. take_messages qs t = (Ok (keys, sigs), t1) \<and>
       TTY_Read pgid (map Key keys) t1 =
         (Ok (Some (let (l, r) = fold edit_key (map press_text (filter (\<lambda>k. k \<noteq> Resized) ks)) (tty_line t) in l @ r, Success)), (t2, [])) \<and>
       line_ok t2 \<and> tty_line t2 = ([], [])))"
proof -
  let ?ks = "ks @ [Plain 13]" and ?typed = "map press_text (filter (\<lambda>k. k \<noteq> Resized) ks)"
  have ok: "\<forall>k \<in> set ?ks. press_ok k" using assms(1) by simp
  have in_bytes: "concat (map press_input ?ks) = concat (map press_input ks) @ [Byte 13]" by (simp add: press_input_def)
  obtain msgs where msgs: "commandLoop env (concat (map press_input ?ks)) [] [] = (Waits, [], msgs)"
    "map Keystroke msgs = map press_text ?ks"
    using presses_sent[OF ok assms(4), of "[]" "[]"] by auto
  note plain = presses_plain[OF assms(1-3)]
  have ty: "\<forall>key \<in> set ?typed. typeable key" using plain by auto
  have "\<forall>key \<in> set (map press_text ?ks). key \<noteq> ctrl_c" using plain by (auto simp: enter_text key_enter_def ctrl_c_def)
  then have noc: "\<forall>m \<in> set msgs. Keystroke m \<noteq> ctrl_c" unfolding msgs(2)[symmetric] by simp
  have keys: "filter (\<lambda>s. s \<noteq> []) (map Keystroke msgs) = ?typed @ [key_enter]"
    unfolding msgs(2) by (simp add: filter_map o_def press_text_empty enter_text key_enter_def)
  have "\<exists>keys sigs t1 t2. take_messages qs t = (Ok (keys, sigs), t1) \<and> TTY_Read pgid (map Key keys) t1 =
      (Ok (Some (let (l, r) = fold edit_key ?typed (tty_line t) in l @ r, Success)), (t2, [])) \<and> line_ok t2 \<and> tty_line t2 = ([], [])"
    if q: "map snd qs = map Some msgs" for qs
  proof -
    obtain sigs t1 where t1: "take_messages qs t = (Ok (?typed @ [key_enter], sigs), t1)" "same_line t t1"
      using take_messages_keys[OF q noc, of t] unfolding keys by auto
    have "line_ok t1" "pgid = ForegroundPGID t1" "Session t1 \<noteq> None"
      using t1(2) assms(5-7) by (simp_all add: same_line_ok) (simp_all add: same_line_def)
    from keys_read[OF this(1) ty this(2,3), of "[]"]
    obtain t2 where "TTY_Read pgid (map Key (?typed @ [key_enter])) t1 =
        (Ok (Some (let (l, r) = fold edit_key ?typed (tty_line t) in l @ r, Success)), (t2, []))" "line_ok t2" "tty_line t2 = ([], [])"
      unfolding same_line_ok(2)[OF t1(2)] by auto
    then show ?thesis using t1(1) by blast
  qed
  then show ?thesis using msgs(1) in_bytes by auto
qed

definition demo_socket :: client_env where
  "demo_socket = \<lparr>win_size = (\<lambda>n. (80, 24)), writes = (\<lambda>n. True)\<rparr>"

text \<open>The keys \<open>b\<close>, left, \<open>a\<close>, a change of the window and delete-forward, then Enter.\<close>

theorem client_line_is_read_witness:
  "\<exists>msgs keys sigs t1 t2. commandLoop demo_socket (map Byte [98, 27, 91, 68, 97] @ [Resize, Byte 13]) [] [] = (Waits, [], msgs) \<and>
     take_messages (map (\<lambda>m. (Map.empty, Some m)) msgs) demo_tty = (Ok (keys, sigs), t1) \<and>
     TTY_Read 7 (map Key keys) t1 = (Ok (Some (''ab'', Success)), (t2, []))"
proof -
  let ?ks = "[Plain 98, Arrow 68, Plain 97, Resized]"
  have ok: "\<forall>k \<in> set ?ks. press_ok k" "Plain 3 \<notin> set ?ks" "Plain 13 \<notin> set ?ks" "\<forall>n. writes demo_socket n"
    by (simp_all add: demo_socket_def)
  obtain msgs where msgs: "commandLoop demo_socket (concat (map press_input ?ks) @ [Byte 13]) [] [] = (Waits, [], msgs)"
    "\<forall>qs. map snd qs = map Some msgs \<longrightarrow> (\<exists>keys sigs t1 t2. take_messages qs demo_tty = (Ok (keys, sigs), t1) \<and>
       TTY_Read 7 (map Key keys) t1 = (Ok (Some (let (l, r) = fold edit_key (map press_text (filter (\<lambda>k. k \<noteq> Resized) ?ks)) (tty_line demo_tty)
         in l @ r, Success)), (t2, [])))"
    using client_line_is_read[OF ok demo_tty_ok(1), of 7] demo_tty_ok(2,3) by metis
  have "byte_of_char CHR ''a'' = 97" "byte_of_char CHR ''b'' = 98" "byte_of_char CHR ''['' = 91" "byte_of_char CHR ''D'' = 68"
    by (simp_all add: byte_of_char_def)
  then have c: "char_of_byte 97 = CHR ''a''" "char_of_byte 98 = CHR ''b''" "char_of_byte 91 = CHR ''[''" "char_of_byte 68 = CHR ''D''"
    by (metis char_of_byte_of_char)+
  have "fold edit_key (map press_text (filter (\<lambda>k. k \<noteq> Resized) ?ks)) (tty_line demo_tty) = (''a'', ''b'')"
    by (simp add: press_text_def bytes_string_def c control_chars demo_tty_ok(4) edit_key_def key_defs control_keys_def has_prefix_def key_text_def)
  moreover have "concat (map press_input ?ks) @ [Byte 13] = map Byte [98, 27, 91, 68, 97] @ [Resize, Byte 13]"
    by (simp add: press_input_def)
  moreover have "map snd (map (\<lambda>m. (Map.empty :: int \<rightharpoonup> int, Some m)) msgs) = map Some msgs" by (simp add: o_def)
  ultimately show ?thesis using msgs by fastforce
qed

section \<open>Keys the client breaks\<close>

lemma high_bytes: "valid_rune r \<Longrightarrow> 0x80 \<le> r \<Longrightarrow> \<forall>b \<in> set (encode_rune r). 0x80 \<le> b \<and> b < 256"
  using encode_rune_bytes[of r] by (auto simp: encode_rune_def)

lemma high_broken: "128 \<le> b \<Longrightarrow> json_text (bytes_string [b]) = string_of_runes [0xFFFD]" for b :: u8
proof -
  assume b: "128 \<le> b"
  have "unat b < 256" using unsigned_less[of b, where 'a = nat] by simp
  then have "of_char (char_of_byte b) = unat b" by (simp add: char_of_byte_def)
  moreover have "\<not> unat b < 128" using b by (simp add: word_le_nat_alt)
  ultimately show ?thesis by (simp add: json_text_def runes_def bytes_string_def rune_at_def)
qed

lemma high_sent:
  assumes "\<forall>b \<in> set bs. 128 \<le> b" "\<forall>n. writes env n"
  shows "\<exists>new. commandLoop env (map Byte bs) [] msgs = (Waits, [], msgs @ new) \<and>
    map Keystroke new = replicate (length bs) (string_of_runes [0xFFFD])"
  using assms(1)
proof (induction bs arbitrary: msgs)
  case (Cons b bs)
  let ?m = "key_message env (length msgs) (bytes_string [b])"
  have b: "128 \<le> b" "b \<noteq> 27" using Cons.prems by (auto simp: word_le_nat_alt)
  obtain new where "commandLoop env (map Byte bs) [] (msgs @ [?m]) = (Waits, [], (msgs @ [?m]) @ new)"
    "map Keystroke new = replicate (length bs) (string_of_runes [0xFFFD])" using Cons by fastforce
  moreover have "Keystroke ?m = string_of_runes [0xFFFD]" using high_broken[OF b(1)] by (simp add: key_message_def)
  ultimately show ?case
    using b writeToEngine_ok[of env msgs "bytes_string [b]"] assms(2) by (intro exI[of _ "?m # new"]) simp
qed simp

text \<open>
  C40. What the client does not send as it was typed. A sequence like that of Home (\<open>ESC [ H\<close>) is not the end for it: everything typed after
  it is held back until a capital letter or a tilde, and sent as one key. A key with Alt waits for the next key and swallows it. A
  character of more than one byte is sent byte by byte, each of which becomes a replacement character. The end of the input within
  the wait after an escape panics.
\<close>

theorem client_breaks_keys:
  assumes "\<forall>i. writes env i" "\<not> (65 \<le> h \<and> h \<le> 68)" "\<forall>p \<in> set ps. \<not> terminator p" "terminator f" "n \<noteq> 91"
    and "valid_rune r" "0x80 \<le> r"
  shows "commandLoop env (map Byte ([27, 91, h] @ ps)) [] [] = (Waits, [27, 91, h] @ ps, []) \<and>
    commandLoop env (map Byte ([27, 91, h] @ ps @ [f])) [] [] = (Waits, [], [key_message env 0 (bytes_string ([27, 91, h] @ ps @ [f]))]) \<and>
    commandLoop env [Byte 27, Byte n, Byte c] [] [] = (Waits, [], [key_message env 0 (bytes_string [27, n])]) \<and>
    (\<exists>msgs. commandLoop env (map (\<lambda>x. Byte (of_nat x)) (encode_rune r)) [] [] = (Waits, [], msgs) \<and>
       map Keystroke msgs = replicate (length (encode_rune r)) (string_of_runes [0xFFFD])) \<and>
    fst (commandLoop env [Byte 27, Closed] [] []) = Crashed"
proof -
  have i: "inside ([27, 91, h] @ ps)" "length ([27, 91, h] @ ps) \<noteq> 2" by (simp_all add: inside_def)
  have "collect h [27, 91] = ([27, 91, h], False)" using assms(2) by (auto simp: collect_def)
  then have 1: "commandLoop env (map Byte ([27, 91, h] @ ps) @ es) [] [] = commandLoop env es ([27, 91, h] @ ps) []" for es
    using held_back[OF _ assms(3), of "[27, 91, h]" env es "[]"] by (simp add: inside_def)
  have 2: "commandLoop env [Byte f] ([27, 91, h] @ ps) [] = (Waits, [], [key_message env 0 (bytes_string ([27, 91, h] @ ps @ [f]))])"
    using sequence_sent[OF i(1), of f env "[]" "[]"] i(2) assms(1,4) by simp
  have "collect c [27, n] = ([27, n], True)" using assms(5) by (simp add: collect_def)
  then have 3: "commandLoop env [Byte 27, Byte n, Byte c] [] [] = (Waits, [], [key_message env 0 (bytes_string [27, n])])"
    using writeToEngine_ok[of env "[]" "bytes_string [27, n]"] assms(1) by simp
  have "128 \<le> (of_nat x :: u8)" if "x \<in> set (encode_rune r)" for x
    using high_bytes[OF assms(6,7)] that by (auto simp: word_le_nat_alt unat_of_nat)
  then have "\<forall>b \<in> set (map of_nat (encode_rune r)). 128 \<le> (b :: u8)" by auto
  from high_sent[OF this assms(1), of "[]"] have 4: "\<exists>msgs. commandLoop env (map (\<lambda>x. Byte (of_nat x)) (encode_rune r)) [] [] = (Waits, [], msgs) \<and>
      map Keystroke msgs = replicate (length (encode_rune r)) (string_of_runes [0xFFFD])"
    by (simp add: o_def)
  show ?thesis using 1[of "[]"] 1[of "[Byte f]"] 2 3 4 by simp
qed

text \<open>Home, then \<open>ls\<close>, Enter and a capital letter; Alt-x and Enter; and the character \<open>U+E9\<close>.\<close>

theorem client_breaks_keys_witness:
  "commandLoop demo_socket (map Byte [27, 91, 72, 108, 115, 13]) [] [] = (Waits, [27, 91, 72, 108, 115, 13], []) \<and>
   (\<exists>m. commandLoop demo_socket [Byte 27, Byte 120, Byte 13] [] [] = (Waits, [], [m])) \<and>
   (\<exists>msgs. commandLoop demo_socket [Byte 0xC3, Byte 0xA9] [] [] = (Waits, [], msgs) \<and>
     map Keystroke msgs = [string_of_runes [0xFFFD], string_of_runes [0xFFFD]])"
proof -
  have h: "\<forall>i. writes demo_socket i" "\<not> (65 \<le> (72 :: u8) \<and> (72 :: u8) \<le> 68)" "\<forall>p \<in> set [108, 115, 13 :: u8]. \<not> terminator p"
    "terminator 65" "(120 :: u8) \<noteq> 91" "valid_rune 0xE9" "(0x80 :: nat) \<le> 0xE9"
    by (simp_all add: demo_socket_def terminator_def valid_rune_def)
  have e: "encode_rune 0xE9 = [0xC3, 0xA9]" by (simp add: encode_rune_def)
  show ?thesis using client_breaks_keys[OF h, of 13] unfolding e by (auto simp: numeral_2_eq_2)
qed

section \<open>The admin's client\<close>

lemma answer_one: "answer m rs = (Ok (), (e, rs')) \<Longrightarrow> \<exists>r. rs' = rs @ [r] \<and> answer m rs0 = (Ok (), (e, rs0 @ [r]))"
  by (cases m) (auto simp: answer_def split: outcome.splits)

text \<open>A command that does not panic is answered once, whatever was answered before.\<close>

lemma command_answer:
  assumes "str_fields line \<noteq> []"
  shows "\<exists>m. \<forall>rs. admin_command env line (e, rs) = answer m rs"
proof -
  let ?cmd = "str_fields line"
  define m where "m =
    (if hd ?cmd = ''spawn'' then spawnNode env ?cmd e
     else if hd ?cmd = ''list-nodes'' \<or> hd ?cmd = ''ls'' then (listNodes env ?cmd e, e)
     else if hd ?cmd = ''delete'' then (Ok (fst (deleteNode env ?cmd e)), snd (deleteNode env ?cmd e))
     else if hd ?cmd = ''adduser'' then engine_addUser env ?cmd e
     else if hd ?cmd = ''reset-network'' then (Ok (fst (resetNetwork env e)), snd (resetNetwork env e))
     else if hd ?cmd = ''exit'' then (Ok (''Exiting...'', Exit), e)
     else (Ok (''not implemented'' @ nl, Error), e))"
  have "admin_command env line (e, rs) = answer m rs" for rs
    using assms unfolding admin_command_def Let_def m_def by (simp add: case_prod_beta)
  then show ?thesis by blast
qed

lemma command_one_reply:
  assumes "admin_command env line (e, rs) = (Ok (), (e', rs'))"
  shows "\<exists>r. \<forall>rs0. admin_command env line (e, rs0) = (Ok (), (e', rs0 @ [r]))"
proof -
  have "str_fields line \<noteq> []" using assms by (auto simp: admin_command_def Let_def)
  then obtain m where m: "\<forall>rs. admin_command env line (e, rs) = answer m rs" using command_answer by blast
  obtain r where "m = (Ok r, e')" using assms m by (auto simp: answer_def split: outcome.splits prod.splits)
  then show ?thesis using m by (simp add: answer_def)
qed

lemma handleAdmin_replies:
  "handleAdmin env (map Some ls) (e, rs) = (Ok (), (e', rs')) \<Longrightarrow>
   \<exists>new. \<forall>rs0. handleAdmin env (map Some ls) (e, rs0) = (Ok (), (e', rs0 @ new))"
proof (induction ls arbitrary: e rs rs')
  case (Cons line ls)
  obtain e1 rs1 where 1: "admin_command env line (e, rs) = (Ok (), (e1, rs1))" "handleAdmin env (map Some ls) (e1, rs1) = (Ok (), (e', rs'))"
    using Cons.prems by (auto simp: bindS_Ok_iff)
  obtain r where r: "\<forall>rs0. admin_command env line (e, rs0) = (Ok (), (e1, rs0 @ [r]))" using command_one_reply[OF 1(1)] by blast
  obtain new where "\<forall>rs0. handleAdmin env (map Some ls) (e1, rs0) = (Ok (), (e', rs0 @ new))" using Cons.IH[OF 1(2)] by blast
  then show ?case using r by (intro exI[of _ "r # new"]) simp
qed auto

lemma handleAdmin_first:
  assumes "handleAdmin env (map Some (line # ls)) (e, []) = (Ok (), (e', rs))"
  obtains r e1 rs1 where "admin_command env line (e, []) = (Ok (), (e1, [r]))" "rs = r # rs1"
    "handleAdmin env (map Some ls) (e1, []) = (Ok (), (e', rs1))"
proof -
  obtain e1 rs0 where 1: "admin_command env line (e, []) = (Ok (), (e1, rs0))" "handleAdmin env (map Some ls) (e1, rs0) = (Ok (), (e', rs))"
    using assms by (auto simp: bindS_Ok_iff)
  obtain r where "\<forall>rs0. admin_command env line (e, rs0) = (Ok (), (e1, rs0 @ [r]))" using command_one_reply[OF 1(1)] by blast
  then have r: "admin_command env line (e, []) = (Ok (), (e1, [r]))" by simp
  obtain new where "\<forall>rs0. handleAdmin env (map Some ls) (e1, rs0) = (Ok (), (e', rs0 @ new))" using handleAdmin_replies[OF 1(2)] by blast
  then show ?thesis using that[OF r, of new] 1 r by auto
qed

text \<open>What the lines of a session print, given the replies to its commands.\<close>

definition is_command :: "string \<Rightarrow> bool" where
  "is_command line \<longleftrightarrow> getInput line \<noteq> [] \<and> getInput line \<noteq> ''clear''"

definition commands :: "string list \<Rightarrow> string list" where
  "commands ls = map (\<lambda>line. json_text (getInput line)) (filter is_command ls)"

lemma commands_simps: "commands [] = []"
  "commands (line # ls) = (if is_command line then json_text (getInput line) # commands ls else commands ls)"
  by (simp_all add: commands_def)

fun transcript :: "string list \<Rightarrow> reply list \<Rightarrow> string" where
  "transcript [] rs = []"
| "transcript (line # ls) rs = ''admin> '' @
     (if is_command line then json_text (fst (hd rs)) @ transcript ls (tl rs)
      else if getInput line = ''clear'' then esc @ ''[2J'' @ esc @ ''[H'' @ transcript ls rs
      else transcript ls rs)"



text \<open>
  C39. A session of the admin is the engine's own loop on the lines that are commands, which are neither empty nor \<open>clear\<close>: it leaves
  the same network and prints each reply once, in order, after its prompt. No command among them ends the session or the engine.
\<close>

theorem admin_session_runs_commands:
  assumes "alive c" "\<forall>r \<in> set replies. snd r \<noteq> Exit"
    and "handleAdmin env (map Some (commands ls)) (the_engine c, []) = (Ok (), (e, replies))"
  shows "admin_commandLoop env (map Some ls) c = (Waits, c\<lparr>the_engine := e, printed := printed c @ transcript ls replies\<rparr>)"
  using assms
proof (induction ls arbitrary: c replies)
  case (Cons line ls)
  show ?case
  proof (cases "is_command line")
    case True
    have "handleAdmin env (map Some (json_text (getInput line) # commands ls)) (the_engine c, []) = (Ok (), (e, replies))"
      using Cons.prems(3) True unfolding commands_simps by simp
    then obtain r e1 rs where r: "admin_command env (json_text (getInput line)) (the_engine c, []) = (Ok (), (e1, [r]))" "replies = r # rs"
      "handleAdmin env (map Some (commands ls)) (e1, []) = (Ok (), (e, rs))"
      by (rule handleAdmin_first)
    let ?c = "c\<lparr>the_engine := e1, printed := printed c @ ''admin> '' @ json_text (fst r)\<rparr>"
    have "admin_exchange env (getInput line) (c\<lparr>printed := printed c @ ''admin> ''\<rparr>) = (Success, ?c)"
      using r(1,2) Cons.prems(1,2) by (cases r) (simp add: admin_exchange_def admin_reader_def)
    moreover have "admin_commandLoop env (map Some ls) ?c =
        (Waits, ?c\<lparr>the_engine := e, printed := printed ?c @ transcript ls rs\<rparr>)"
      by (rule Cons.IH) (use Cons.prems(1,2) r(2,3) in simp_all)
    ultimately show ?thesis using True r(2) by (simp add: Let_def is_command_def status_defs)
  next
    case False
    let ?out = "''admin> '' @ (if getInput line = ''clear'' then esc @ ''[2J'' @ esc @ ''[H'' else [])"
    let ?c = "c\<lparr>printed := printed c @ ?out\<rparr>"
    have "admin_commandLoop env (map Some ls) ?c =
        (Waits, ?c\<lparr>the_engine := e, printed := printed ?c @ transcript ls replies\<rparr>)"
      by (rule Cons.IH) (use Cons.prems False in \<open>simp_all add: commands_simps\<close>)
    then show ?thesis using False by (auto simp: Let_def is_command_def)
  qed
qed (simp add: commands_simps)

text \<open>A reset, an empty line and a clear, on a network without a computer.\<close>

definition demo_admin :: admin_client where
  "demo_admin = \<lparr>the_engine = \<lparr>nodes = [], images = Map.empty, network_json = None\<rparr>, alive = True, printed = []\<rparr>"

definition demo_host :: host_env where
  "demo_host = \<lparr>work_dir = [''home''], visit = id, boot_clock = (\<lambda>s j. (0, 0)), call_clock = (0, 0)\<rparr>"

theorem admin_session_runs_commands_witness:
  "\<exists>c. admin_commandLoop demo_host (map Some [''exitt'' @ nl, nl, ''clear'' @ nl]) demo_admin = (Waits, c) \<and> alive c \<and>
     printed c = ''admin> not implemented'' @ nl @ ''admin> admin> '' @ esc @ ''[2J'' @ esc @ ''[H''"
proof -
  let ?ls = "[''exitt'' @ nl, nl, ''clear'' @ nl]"
  have i: "getInput (''exitt'' @ nl) = ''exitt''" "getInput nl = []" "getInput (''clear'' @ nl) = ''clear''"
    by (simp_all add: getInput_def nl_def)
  have j: "json_text ''exitt'' = ''exitt''" "json_text (''not implemented'' @ nl) = ''not implemented'' @ nl"
    by (rule json_ascii, simp add: nl_def)+
  have f: "str_fields ''exitt'' = [''exitt'']"
    using fields_words[of "[''exitt'']"] by (simp add: word_ok_def is_space_def)
  have "commands ?ls = [''exitt'']" unfolding commands_simps is_command_def i j(1) by simp
  moreover have "admin_command demo_host ''exitt'' (e, []) = (Ok (), (e, [(''not implemented'' @ nl, Error)]))" for e
    unfolding admin_command_def Let_def prod.case f by (simp add: answer_def)
  ultimately have h: "handleAdmin demo_host (map Some (commands ?ls)) (the_engine demo_admin, []) =
      (Ok (), (the_engine demo_admin, [(''not implemented'' @ nl, Error)]))" by simp
  have t: "transcript ?ls [(''not implemented'' @ nl, Error)] = ''admin> not implemented'' @ nl @ ''admin> admin> '' @ esc @ ''[2J'' @ esc @ ''[H''"
    unfolding transcript.simps is_command_def i list.sel fst_conv j(2) by simp
  have r: "alive demo_admin" "\<forall>r \<in> set [(''not implemented'' @ nl, Error)]. snd r \<noteq> Exit"
    by (simp_all add: demo_admin_def status_defs)
  show ?thesis using admin_session_runs_commands[OF r h] t by (simp add: demo_admin_def)
qed

text \<open>
  A line of blanks is a command for the client and none for the engine, which answers it and dies with all its computers. The admin
  is told that there was no command and goes on at the prompt, without any answer from then on.
\<close>

lemma dead_engine:
  "\<not> alive c \<Longrightarrow> \<exists>c'. admin_commandLoop env (map Some ls) c = (Waits, c') \<and> \<not> alive c' \<and> the_engine c' = the_engine c"
proof (induction ls arbitrary: c)
  case (Cons line ls)
  show ?case
    using Cons.IH[of "c\<lparr>printed := printed c @ ''admin> ''\<rparr>"] Cons.IH[of "c\<lparr>printed := printed c @ ''admin> '' @ esc @ ''[2J'' @ esc @ ''[H''\<rparr>"]
      Cons.prems by (simp add: Let_def admin_exchange_def status_defs)
qed simp

theorem admin_blank_line_kills:
  assumes "alive c" "getInput line \<noteq> []" "getInput line \<noteq> ''clear''" "str_fields (json_text (getInput line)) = []"
  shows "\<exists>c'. admin_commandLoop env (map Some (line # ls)) c = (Waits, c') \<and> \<not> alive c'"
proof -
  let ?c = "c\<lparr>alive := False, printed := printed c @ ''admin> '' @ json_text (''No command provided'' @ nl)\<rparr>"
  have "admin_command env (json_text (getInput line)) (the_engine c, []) = (Panic, (the_engine c, [(''No command provided'' @ nl, Error)]))"
    using assms(4) by (simp add: admin_command_def)
  then have "admin_exchange env (getInput line) (c\<lparr>printed := printed c @ ''admin> ''\<rparr>) = (Success, ?c)"
    using assms(1) by (simp add: admin_exchange_def admin_reader_def status_defs)
  moreover have "Success \<noteq> Exit" by (simp add: status_defs)
  moreover obtain c' where "admin_commandLoop env (map Some ls) ?c = (Waits, c')" "\<not> alive c'" using dead_engine[of ?c env ls] by auto
  ultimately show ?thesis using assms(2,3) by (simp add: Let_def)
qed

end
