(* ===== verification/ServerProps.thy ===== *)
theory ServerProps
  imports Server ClientProps
begin

text \<open>
  From the keyboard of the client to the machine: the address that is typed picks the machine, and what is typed after it reaches the
  machine's scanner whole if every message is a read of its own; what arrives in one read with the Enter of the address is lost.
\<close>

section \<open>Lines on a socket\<close>

text \<open>What the library promises of JSON, for the messages this client sends: \<open>enc\<close> is read back, and is one line.\<close>

definition json_ok :: "client_env \<Rightarrow> json \<Rightarrow> (ClientIPCMessage \<Rightarrow> string) \<Rightarrow> bool" where
  "json_ok env J enc \<longleftrightarrow> (\<forall>m. sent_by env m \<longrightarrow>
     client_of J (enc m) = Some m \<and> CHR 0x0A \<notin> set (enc m) \<and> (enc m \<noteq> [] \<longrightarrow> last (enc m) \<noteq> CHR 0x0D))"

definition message_line :: "(ClientIPCMessage \<Rightarrow> string) \<Rightarrow> ClientIPCMessage \<Rightarrow> string" where
  "message_line enc m = enc m @ nl"

lemma cut_line_first: "CHR 0x0A \<notin> set l \<Longrightarrow> cut_line (l @ nl @ rest) = Some (l, rest)"
proof -
  assume "CHR 0x0A \<notin> set l"
  then have "\<forall>c \<in> set l. c \<noteq> CHR 0x0A" by auto
  then have "dropWhile (\<lambda>c. c \<noteq> CHR 0x0A) (l @ nl @ rest) = CHR 0x0A # rest" "takeWhile (\<lambda>c. c \<noteq> CHR 0x0A) (l @ nl @ rest) = l"
    by (simp_all add: nl_def dropWhile_append takeWhile_append)
  then show ?thesis by (simp add: cut_line_def)
qed

lemma Scan_empty: "Scan [] (r # reads) = Scan r reads" "Scan [] [] = (None, [], [])"
  by (simp_all add: cut_line_def max_token_def)

lemma Scan_cut: "cut_line held = Some (l, rest) \<Longrightarrow> Scan held reads = (Some (drop_cr l), rest, reads)"
  by (cases reads) simp_all

declare Scan.simps [simp del]

lemma Scan_line:
  assumes "CHR 0x0A \<notin> set l" "l \<noteq> [] \<longrightarrow> last l \<noteq> CHR 0x0D"
  shows "Scan [] ((l @ nl @ extra) # reads) = (Some l, extra, reads)"
  using cut_line_first[OF assms(1), of extra] assms(2) by (auto simp: Scan_empty Scan_cut drop_cr_def)

lemma json_okD:
  assumes "json_ok env J enc" "sent_by env m"
  shows "client_of J (enc m) = Some m" "Scan [] ((message_line enc m @ extra) # reads) = (Some (enc m), extra, reads)"
    "Scan [] (message_line enc m # reads) = (Some (enc m), [], reads)"
  using assms Scan_line[of "enc m" extra reads] Scan_line[of "enc m" "[]" reads] by (auto simp: json_ok_def message_line_def)

section \<open>A scanner on whole messages\<close>

lemma lines_from_nil: "lines_from [] [] = []" "left_over [] [] = []"
  by (simp_all add: lines_from.simps left_over.simps Scan_empty)

lemma lines_from_line:
  assumes "json_ok env J enc" "sent_by env m"
  shows "lines_from [] (message_line enc m # reads) = (enc m, reads) # lines_from [] reads"
    "left_over [] (message_line enc m # reads) = left_over [] reads"
    "client_lines J (message_line enc m # reads) = (Some (Keystroke m), reads) # client_lines J reads"
proof -
  show l: "lines_from [] (message_line enc m # reads) = (enc m, reads) # lines_from [] reads"
    by (subst lines_from.simps) (simp add: json_okD(3)[OF assms])
  show "left_over [] (message_line enc m # reads) = left_over [] reads"
    by (subst left_over.simps) (simp add: json_okD(3)[OF assms])
  show "client_lines J (message_line enc m # reads) = (Some (Keystroke m), reads) # client_lines J reads"
    by (simp add: client_lines_def l json_okD(1)[OF assms])
qed

lemma whole_messages:
  assumes "json_ok env J enc" "\<forall>m \<in> set ms. sent_by env m"
  shows "map (client_of J \<circ> fst) (lines_from [] (map (message_line enc) ms)) = map Some ms"
    "left_over [] (map (message_line enc) ms) = []"
proof -
  have "map (client_of J \<circ> fst) (lines_from [] (map (message_line enc) ms)) = map Some ms \<and> left_over [] (map (message_line enc) ms) = []"
    using assms(2) by (induction ms) (simp_all add: lines_from_nil lines_from_line[OF assms(1)] json_okD(1)[OF assms(1)])
  then show "map (client_of J \<circ> fst) (lines_from [] (map (message_line enc) ms)) = map Some ms"
    "left_over [] (map (message_line enc) ms) = []" by simp_all
qed

section \<open>Typing the address\<close>

definition address_keys :: "string \<Rightarrow> string list" where
  "address_keys ip = map (\<lambda>c. [c]) ip"

lemma address_char: "addr_char c \<Longrightarrow> pick_key e [c] typed msgs = (Typing (typed @ [c]), msgs @ [([c], Success)])"
  by (auto simp: pick_key_def addr_char_def key_defs control_keys_def key_delete_def key_enter_def)

lemma pick_address:
  assumes "json_ok env J enc" "\<forall>m \<in> set ms. sent_by env m" "map Keystroke ms = address_keys ip" "\<forall>c \<in> set ip. addr_char c"
  shows "pick_lines e (client_lines J (map (message_line enc) ms @ reads)) typed msgs =
    pick_lines e (client_lines J reads) (typed @ ip) (msgs @ map (\<lambda>c. ([c], Success)) ip)"
  using assms(2-4)
proof (induction ms arbitrary: ip typed msgs)
  case Nil
  then show ?case by (simp add: address_keys_def)
next
  case (Cons m ms)
  obtain c ip' where ip: "ip = c # ip'" "Keystroke m = [c]" "map Keystroke ms = address_keys ip'"
    using Cons.prems(2) by (cases ip) (auto simp: address_keys_def)
  show ?case
    using Cons.IH[OF _ ip(3)] Cons.prems address_char[of c] by (simp add: lines_from_line(3)[OF assms(1)] ip)
qed

text \<open>The replies while a machine is picked: the screen, the echo of the address, and the end of its line.\<close>

definition picking_replies :: "host_env \<Rightarrow> engine \<Rightarrow> string \<Rightarrow> reply list" where
  "picking_replies henv e ip = (machines_screen henv e, Success) # map (\<lambda>c. ([c], Success)) ip @ [(cr @ nl, Success)]"

text \<open>The connection up to the machine, with \<open>extra\<close> in the same read as the Enter.\<close>

lemma conn_picks:
  assumes "json_ok env J enc" "sent_by env init" "\<forall>m \<in> set ms. sent_by env m" "sent_by env enter"
    and "map Keystroke ms = address_keys ip" "Keystroke enter = key_enter" "\<forall>c \<in> set ip. addr_char c" "GetNode e ip = Some target"
  shows "handleConn henv J [] (message_line enc init # map (message_line enc) ms @ (message_line enc enter @ extra) # reads) (e, log) =
    handleConn henv J [] (left_over [] reads) (e, log @ [User_served (Picked target) (picking_replies henv e ip) reads])"
proof -
  let ?s = "(message_line enc enter @ extra) # reads"
  have "client_lines J ?s = (Some key_enter, reads) # map (\<lambda>(line, rest). (map_option Keystroke (client_of J line), rest)) (lines_from extra reads)"
    unfolding client_lines_def
    by (subst lines_from.simps) (simp add: json_okD(2)[OF assms(1,4)] json_okD(1)[OF assms(1,4)] assms(6))
  then have "pick_lines e (client_lines J ?s) ip msgs = (Picked target, msgs @ [(cr @ nl, Success)], reads)" for msgs
    by (simp add: pick_key_def assms(8))
  then have u: "serve_user henv J e (map (message_line enc) ms @ ?s) = User_served (Picked target) (picking_replies henv e ip) reads"
    using pick_address[OF assms(1,3,5,7), of e ?s "[]"] by (simp add: serve_user_def picking_replies_def)
  have "Program init = ''user''" using assms(2) by (simp add: sent_by_def)
  then show ?thesis
    by (subst handleConn.simps) (simp add: json_okD(1,3)[OF assms(1,2)] u)
qed

lemma conn_ends: "handleConn henv J [] [] s = (Ok (), s)"
  by (cases s) (simp add: handleConn.simps Scan_empty)

lemma init_sent:
  "\<forall>n. writes env n \<Longrightarrow> \<exists>init. sendInitMessage env [] = [init] \<and> sent_by env init"
  by (simp add: sendInitMessage_def sent_by_def case_prod_beta json_text_def runes_def string_of_runes_def)

section \<open>A socket\<close>

text \<open>A JSON for the examples: two characters for each of the key, and a brace.\<close>

definition demo_enc :: "ClientIPCMessage \<Rightarrow> string" where
  "demo_enc m = concat (map (\<lambda>c. if c = CHR 0x0A then ''nn'' else [CHR ''x'', c]) (Keystroke m)) @ ''}''"

fun demo_text :: "string \<Rightarrow> string" where
  "demo_text (a # b # s) = (if a = CHR ''n'' then CHR 0x0A else b) # demo_text s"
| "demo_text s = []"

definition demo_message :: "string \<Rightarrow> ClientIPCMessage" where
  "demo_message key = \<lparr>Program = ''user'', Keystroke = key, msg_Width = 80, msg_Height = 24\<rparr>"

definition demo_json :: json where
  "demo_json = \<lparr>client_of = (\<lambda>line. Some (demo_message (demo_text line))), command_of = (\<lambda>line. None)\<rparr>"

lemma demo_sent: "sent_by demo_socket m \<longleftrightarrow> m = demo_message (Keystroke m) \<and> json_text (Keystroke m) = Keystroke m"
  by (cases m) (auto simp: sent_by_def demo_socket_def demo_message_def)

lemma demo_json_ok: "json_ok demo_socket demo_json demo_enc"
proof -
  have t: "demo_text (concat (map (\<lambda>c. if c = CHR 0x0A then ''nn'' else [CHR ''x'', c]) key) @ ''}'') = key" for key
    by (induction key) auto
  have "client_of demo_json (demo_enc m) = Some m" if "sent_by demo_socket m" for m
  proof -
    have "demo_message (Keystroke m) = m" using that by (simp add: demo_sent)
    then show ?thesis by (simp add: demo_json_def demo_enc_def t)
  qed
  then show ?thesis by (auto simp: json_ok_def demo_enc_def)
qed

lemma demo_machine: "GetNode demo_net ''10.0.0.1'' = Some demo_node" "\<forall>c \<in> set ''10.0.0.1''. addr_char c"
  by (simp_all add: GetNode_def demo_net_def addr_char_def)

section \<open>From the keyboard to the machine\<close>

text \<open>An address on the keyboard.\<close>

lemma address_presses:
  assumes "\<forall>c \<in> set ip. addr_char c"
  shows "\<forall>k \<in> set (map (Plain \<circ> byte_of_char) ip). press_ok k"
    "concat (map press_input (map (Plain \<circ> byte_of_char) ip)) = map Byte (string_bytes ip)"
    "map press_text (map (Plain \<circ> byte_of_char) ip) = address_keys ip"
proof -
  have "byte_of_char c < 128 \<and> byte_of_char c \<noteq> 27" if "addr_char c" for c
  proof -
    have "(of_char c :: nat) < 256" by simp
    then have c: "unat (byte_of_char c) = (of_char c :: nat)" by (simp add: byte_of_char_def unat_of_nat take_bit_nat_eq_self)
    have "(of_char c :: nat) < 128 \<and> (of_char c :: nat) \<noteq> 27" using that by (auto simp: addr_char_def)
    then show ?thesis unfolding word_less_nat_alt word_unat_eq_iff c by simp
  qed
  then show "\<forall>k \<in> set (map (Plain \<circ> byte_of_char) ip). press_ok k" using assms by simp
  show "concat (map press_input (map (Plain \<circ> byte_of_char) ip)) = map Byte (string_bytes ip)"
    by (induction ip) (simp_all add: press_input_def string_bytes_def)
  show "map press_text (map (Plain \<circ> byte_of_char) ip) = address_keys ip"
    by (simp add: press_text_def address_keys_def bytes_string_def)
qed

text \<open>
  C15. From the keyboard to the machine: someone types the address of a machine, Enter, and then any keys. If each message arrives in a read
  of its own, the engine echoes the address, hands the connection to that machine, and the machine's scanner reads every key that
  was typed after the Enter, in order, and no other.
\<close>

theorem client_reaches_machine:
  assumes "\<forall>c \<in> set ip. addr_char c" "GetNode e ip = Some target" "\<forall>k \<in> set ks. press_ok k" "\<forall>n. writes env n" "json_ok env J enc"
  shows "\<exists>msgs rest.
    commandLoop env (map Byte (string_bytes ip) @ Byte 13 # concat (map press_input ks)) [] (sendInitMessage env []) = (Waits, [], msgs) \<and>
    handleConn henv J [] (map (message_line enc) msgs) (e, []) =
      (Ok (), (e, [User_served (Picked target) (picking_replies henv e ip) (map (message_line enc) rest)])) \<and>
    map (client_of J \<circ> fst) (lines_from [] (map (message_line enc) rest)) = map Some rest \<and>
    map Keystroke rest = map press_text ks"
proof -
  let ?ip = "map (Plain \<circ> byte_of_char) ip"
  note ip = address_presses[OF assms(1)]
  obtain init where init: "sendInitMessage env [] = [init]" "sent_by env init" using init_sent[OF assms(4)] by blast
  have ok: "\<forall>k \<in> set (?ip @ Plain 13 # ks). press_ok k" using ip(1) assms(3) by auto
  obtain new where new: "commandLoop env (concat (map press_input (?ip @ Plain 13 # ks))) [] [init] = (Waits, [], init # new)"
    "map Keystroke new = map press_text (?ip @ Plain 13 # ks)" "\<forall>m \<in> set new. sent_by env m"
    using presses_sent[OF ok assms(4), of "[]" "[init]"] by auto
  obtain ms enter rest where split: "new = ms @ enter # rest" "map Keystroke ms = address_keys ip" "Keystroke enter = key_enter"
    "map Keystroke rest = map press_text ks"
  proof -
    have k: "map Keystroke new = address_keys ip @ key_enter # map press_text ks" using new(2) ip(3) enter_text by simp
    obtain ms es where es: "new = ms @ es" "map Keystroke ms = address_keys ip" "map Keystroke es = key_enter # map press_text ks"
      using map_eq_append_conv[THEN iffD1, OF k] by metis
    obtain enter rest where "es = enter # rest" "Keystroke enter = key_enter" "map Keystroke rest = map press_text ks"
      using map_eq_Cons_conv[THEN iffD1, OF es(3)] by metis
    then show ?thesis using that es(1,2) by simp
  qed
  note parts = new(3)[unfolded split(1)]
  have w: "\<forall>m \<in> set rest. sent_by env m" using parts by simp
  have "handleConn henv J [] (map (message_line enc) (init # new)) (e, []) =
      (Ok (), (e, [User_served (Picked target) (picking_replies henv e ip) (map (message_line enc) rest)]))"
    using conn_picks[OF assms(5) init(2) _ _ split(2,3) assms(1,2), of henv "[]" "map (message_line enc) rest" "[]"] parts
      whole_messages(2)[OF assms(5) w] by (simp add: split(1) conn_ends)
  moreover have "concat (map press_input (?ip @ Plain 13 # ks)) = map Byte (string_bytes ip) @ Byte 13 # concat (map press_input ks)"
    using ip(2) by (simp add: press_input_def)
  ultimately show ?thesis using new(1) init(1) whole_messages(1)[OF assms(5) w] split(4) by (metis (no_types, lifting))
qed

theorem client_reaches_machine_witness:
  "\<exists>msgs rest. commandLoop demo_socket (map Byte (string_bytes ''10.0.0.1'') @ [Byte 13, Byte 114, Byte 111]) [] (sendInitMessage demo_socket []) =
      (Waits, [], msgs) \<and>
    handleConn demo_env demo_json [] (map (message_line demo_enc) msgs) (demo_net, []) =
      (Ok (), (demo_net, [User_served (Picked demo_node) (picking_replies demo_env demo_net ''10.0.0.1'') (map (message_line demo_enc) rest)])) \<and>
    map Keystroke rest = [bytes_string [114], bytes_string [111]]"
proof -
  have ks: "\<forall>k \<in> set [Plain 114, Plain 111]. press_ok k" "\<forall>n. writes demo_socket n" by (simp_all add: demo_socket_def)
  show ?thesis
    using client_reaches_machine[OF demo_machine(2,1) ks demo_json_ok, of demo_env]
    by (simp add: press_input_def press_text_def del: commandLoop.simps) metis
qed

text \<open>
  C34. Keys are lost at the handover: what arrives in the same read as the Enter of the address stays in the buffer of the engine's scanner,
  whatever it is, and the machine gets what the later reads bring only.
\<close>

theorem keys_after_enter_lost:
  assumes "json_ok env J enc" "\<forall>m \<in> set (init # ms @ enter # rest). sent_by env m"
    and "map Keystroke ms = address_keys ip" "Keystroke enter = key_enter" "\<forall>c \<in> set ip. addr_char c" "GetNode e ip = Some target"
  shows "handleConn henv J []
      (map (message_line enc) (init # ms) @ (message_line enc enter @ concat (map (message_line enc) lost)) # map (message_line enc) rest) (e, []) =
    (Ok (), (e, [User_served (Picked target) (picking_replies henv e ip) (map (message_line enc) rest)]))"
  using conn_picks[OF assms(1) _ _ _ assms(3-6)] whole_messages(2)[OF assms(1), of rest] assms(2) by (simp add: conn_ends)

text \<open>The name \<open>ro\<close> is typed right after the Enter, and the machine sees neither key, but the next one.\<close>

theorem keys_after_enter_lost_witness:
  "handleConn demo_env demo_json []
      (map (message_line demo_enc) (demo_message [] # map demo_message (address_keys ''10.0.0.1'')) @
       (message_line demo_enc (demo_message key_enter) @ concat (map (message_line demo_enc) [demo_message ''r'', demo_message ''o''])) #
       map (message_line demo_enc) [demo_message ''t'']) (demo_net, []) =
    (Ok (), (demo_net, [User_served (Picked demo_node) (picking_replies demo_env demo_net ''10.0.0.1'')
       (map (message_line demo_enc) [demo_message ''t''])]))"
proof -
  have k: "Keystroke (demo_message key) = key" for key by (simp add: demo_message_def)
  have s: "sent_by demo_socket (demo_message key)" if "ascii key" for key using json_ascii[OF that] by (simp add: demo_sent k)
  have a: "map Keystroke (map demo_message (address_keys ''10.0.0.1'')) = address_keys ''10.0.0.1''" by (simp add: o_def k)
  have "\<forall>m \<in> set (demo_message [] # map demo_message (address_keys ''10.0.0.1'') @ demo_message key_enter # [demo_message ''t'']). sent_by demo_socket m"
    by (auto simp: address_keys_def key_enter_def ascii_def intro!: s)
  from keys_after_enter_lost[OF demo_json_ok this a k demo_machine(2,1)] show ?thesis .
qed

end
