(* ===== verification/Spec2Isabelle.thy ===== *)
theory Spec2Isabelle
  imports AccessProps DirProps TtyProps ShellProps Users CmdsProps VProps ConnectProps ServerProps
begin

text \<open>
  A verification library for byte-space: a network of simulated computers, each with a file system on a disk
  image, a kernel with system calls, processes and terminals (\<open>src/computer\<close>), the programs that run on them
  (\<open>src/programs\<close>), the engine that holds the network (\<open>src/engine\<close>) and the two clients of it (\<open>src/client\<close>, \<open>src/admin\<close>). The
  library models these packages and proves what the parts promise each other.

  \<^bold>\<open>The program.\<close> A \<open>Computer\<close> owns a \<open>FileSystem\<close> (\<open>fs*.go\<close>) and a \<open>Kernel\<close> (\<open>kernel.go\<close>). The file system keeps a
  superblock, two bitmaps, a table of inodes and data blocks on one disk; files and directories are
  inodes with a block map of 12 direct and three levels of indirect blocks. The kernel caches inodes,
  resolves paths with permissions, and offers the system calls; it starts programs as processes and
  connects them with terminals (\<open>tty.go\<close>), which edit lines. A client connection (\<open>handler.go\<close>) runs the login and
  then the shell on a terminal; \<open>computer.go\<close> makes the first tree and sessions. The programs call the kernel and wait for their
  terminal: login and adduser keep the password file, the shell edits its own line, and \<open>v\<close> is an editor. The engine keeps the
  computers by address and name, saves the list of them, and answers the admin. The user's client cuts the bytes of a keyboard into
  keystrokes and prints what comes back.

  \<^bold>\<open>The theories, bottom up.\<close>
  \<^item> \<open>Prelude\<close>, \<open>GoLib\<close>, \<open>GoPath\<close>, \<open>Utf8\<close>: byte strings, the encodings, results and errors of Go
    (\<open>outcome\<close>: a value, an error or a panic), its path functions and its runes.
  \<^item> \<open>Disk\<close>, \<open>Superblock\<close>, \<open>FileSys\<close>, \<open>Format\<close> (\<open>fs.go\<close>, \<open>fs_superblock.go\<close>): the disk as a byte array, the
    codec of the superblock, the block layer with one view and one writer per region, formatting and mounting.
  \<^item> \<open>Bitmap\<close>, \<open>Inode\<close>, \<open>BlockMap\<close> (\<open>fs_falloc.go\<close>, \<open>fs_inode.go\<close>): finding and taking bits, the
    inode codec and table, and the map from the blocks of a file to blocks of the disk.
  \<^item> \<open>Falloc\<close>, \<open>FallocSpec\<close> (\<open>fs_falloc.go\<close>): resizing a file, and the invariant it keeps
    (\<open>disk_consistent\<close>: no block belongs to two files, the bitmap marks exactly the blocks that belong to one).
  \<^item> \<open>FileFD\<close>, \<open>FileSpec\<close> (\<open>fs_fd.go\<close>): reading and writing an open file; as operations on \<open>content\<close>, the bytes of a file.
  \<^item> \<open>Dir\<close>, \<open>DirSpec\<close>, \<open>Directory\<close> (\<open>fs_dir.go\<close>): entries of 64 bytes, \<open>addDentry\<close>, \<open>removeDentry\<close>,
    \<open>ReadEntries\<close>; as operations on a list of slots, and that list as a table of names.
  \<^item> \<open>KernelState\<close>, \<open>Resolve\<close>, \<open>Syscalls\<close> (\<open>kernel.go\<close>): the state of the kernel, the inode cache,
    paths, permissions, and every call on files. \<open>Procs\<close>: process numbers, descriptors, \<open>ioctl\<close>, \<open>exec\<close>
    and the entry of the system calls. \<open>Tty\<close> (\<open>tty.go\<close>): terminals and their line editor.
    \<open>Boot\<close> (\<open>computer.go\<close>, \<open>config.go\<close>, \<open>handler.go\<close>): a new computer, sessions, connections.
  \<^item> \<open>SysSpec\<close>, \<open>Tree\<close>, \<open>WriteSpec\<close>, \<open>CreateSpec\<close>, \<open>RemoveSpec\<close>, \<open>ReadSpec\<close>: the kernel's files as a \<open>tree\<close>, a map from inode
    numbers to nodes (metadata and bytes, or metadata and slots), and each call as an operation on it,
    under the invariant \<open>kernel_inv\<close> (the disk is consistent, every entry names a live inode, every cached
    inode agrees with the disk on what it is used for).
  \<^item> \<open>Space\<close>, \<open>PathMap\<close>, \<open>RemoveMap\<close>, \<open>MapProps\<close>, \<open>BootMap\<close>: the free blocks and inodes as a function of the tree, what a
    new file takes and gives back; the tree as a map from
    paths to files and directories (\<open>file_map\<close>), each call as an operation on that map, and the first boot on it.
  \<^item> \<open>ProcSpec\<close>, \<open>Reboot\<close>: the steps a running computer makes, in any order, and the invariant \<open>procs_ok\<close> of
    every state they reach; a computer made again on its disk.
  \<^item> \<open>Programs\<close>, \<open>ProgSpec\<close>: how a program calls the kernel and waits for its terminal. \<open>Users\<close> (\<open>login\<close>, \<open>adduser\<close>), \<open>Cmds\<close>
    (\<open>cmds.go\<close>), \<open>Shell\<close> and \<open>ShellSpec\<close> (\<open>shell.go\<close>, \<open>buffer_logic.go\<close>), \<open>VEdit\<close> and \<open>VSpec\<close> (\<open>v.go\<close>: lines as
    slices of shared arrays, and the editor on a list of lines they refine; the invariant \<open>stacked\<close> says which lines may share
    an array, so that a join never writes into a third line).
  \<^item> \<open>Engine\<close> (\<open>engine\<close>): the table of computers, what is saved of it, the admin's commands, and how a client picks a computer. \<open>EngineProps\<close>
    has its states: \<open>net_ok\<close> (names and addresses are unique) and \<open>described\<close> (the saved description is that of the table).
    \<open>Client\<close> (\<open>client\<close>, \<open>admin\<close>, the message loop of \<open>handler.go\<close>): the loops of the two clients and what a computer takes from them.
    \<open>Server\<close> (\<open>server.go\<close>): a connection from its first message on, with the scanners that follow each other on its socket.
  \<^item> \<open>StorageProps\<close>, \<open>DirProps\<close>, \<open>KernelProps\<close>, \<open>TreeProps\<close>, \<open>AccessProps\<close>, \<open>TtyProps\<close>, \<open>ProcProps\<close>, \<open>ShellProps\<close>, \<open>VProps\<close>,
    \<open>EngineProps\<close>, \<open>UsersProps\<close>, \<open>ConnectProps\<close> (a connection from the login to the shell), \<open>CmdsProps\<close> (the
    command \<open>chmod\<close> on the map of files), \<open>ClientProps\<close>, \<open>ServerProps\<close> (from the keyboard to the machine): the properties,
    each with an instance on a concrete state: a disk just formatted, one with a file on it, a computer that has booted or was
    restarted, a network of one node, a session of keys, a socket.

  \<^bold>\<open>State.\<close> A record per struct: \<open>filesystem\<close>, \<open>inode\<close>, \<open>fileFD\<close>, \<open>kernel\<close>, \<open>process\<close>, \<open>tty\<close>, \<open>session\<close>, \<open>shell\<close>, \<open>vedit\<close>, \<open>engine\<close>. What the code
  shares by pointer is kept once and named by an index or a number: an inode in the cache, a terminal, an
  open file description, an array of bytes. Words have their width; a dereference of nil, an index out of range and an explicit
  panic are the outcome \<open>Panic\<close>. The mutexes are not part of the state: what runs under a lock is one
  atomic step, and \<open>kstep\<close> lets steps interleave in any order. Time, the running programs, the order in which a loop visits a Go
  map, the room of a new array and the size of a window are arguments. Process numbers are unbounded, where Go's would wrap after
  \<open>2 ^ 63\<close> programs. The end of a context is the event \<open>Cancelled\<close> in what a process reads: each process has a context of its own and every
  program returns at the first read that sees its end, so no read follows it that would see it again. What \<open>ioctl\<close> writes
  through a pointer is a part of its result, which the system call drops, as in the code. Changes of the window that arrive while one
  waits in the client's channel, which has room for one, are merged.

  \<^bold>\<open>Interfaces.\<close> \<open>disk_io\<close> (a disk of bytes), \<open>fixed_codec\<close> (records of fixed width: superblock, inode, entry), \<open>allocator\<close> (a
  bitmap), \<open>byte_store\<close> (the loops over the blocks of a file), \<open>name_table\<close> (a directory), \<open>line_editor\<close> (a line with a cursor: the
  terminal) and its extension \<open>recording_editor\<close> (the shell, with its history), each interpreted on the model.

  \<^bold>\<open>Bounds and fuel.\<close> Loops over blocks run on the lists they visit. \<open>freeInodeTree\<close> recurses on the entries of the disk and
  takes a depth, \<open>free_depth\<close>, one more than there are inodes: running out of it is the stack overflow
  of a tree with a cycle, and a lemma says that for a proper tree the depth is enough. The loops of \<open>Read\<close> and of the clients consume
  the list of events that arrive, and where they end they still wait (\<open>None\<close>, \<open>Waits\<close>). How far a program got is
  a value (\<open>progress\<close>): it ended with a status, waits for the terminal with all events taken, spins, that is, repeats forever a
  read that fails at once (with a status its loop has no case for), or was cut off after the turns the model gave it. The shell
  and \<open>v\<close> take a number of turns: one more than there are events is enough for the shell, two more for \<open>v\<close>, which may
  put the end of its own context in front of them (\<open>shell_loop_ends\<close>, \<open>V_Run_ends\<close>: they are never cut off). \<open>replace_all\<close> takes as many turns as the text has characters, which is enough, since each takes one.

  \<^bold>\<open>Not modelled.\<close> Sockets beyond the bytes that arrive (the listening, errors of a write to a peer that left), JSON (a message is the
  value it encodes, a byte that is not UTF-8 becomes \<open>U+FFFD\<close>, and the codec of a socket is an argument), goroutines that
  only pass messages on, raw mode and the flags and colours of the clients, logging, the entry points under \<open>src/cmd\<close>, and the host
  directory a disk image is kept in, beyond which images there are: they are calls of the host with no logic of their own.
  The constructors of programs only name a process and are not modelled either.
\<close>

end
